(* ===== verification/Prelude.thy ===== *)
theory Prelude
  imports Main "HOL-Library.Multiset" "HOL-Library.Finite_Map"
begin

text \<open>
  Shared vocabulary of the development. A Rust function of the modelled crates either returns
  \<open>Ok v\<close>, returns \<open>Err e\<close>, or panics (an index out of bounds, a failed \<open>expect\<close>), so
  its result is an \<open>outcome\<close>; a function taking \<open>&mut session\<close> returns the outcome
  together with the session as it stands when the function is left. The theory holds the
  outcome combinators, the fixed-width casts and wrap-around additions of the release profile
  (which has no overflow checks), the \<open>Vec\<close>, \<open>str\<close> and iterator operations the sources
  use, and the generic lemmas on them. It also states the \<open>reducer\<close> interfaces that the
  components interpret: an invariant, a conserved content, a decreasing measure, and an
  always enabled action, each lifted from one step to a whole run.
\<close>

named_theorems outcome_simps \<open>elimination of outcome combinators\<close>
named_theorems content_simps \<open>multisets of the cards held by a structure\<close>

section \<open>Outcomes of fallible code\<close>

datatype ('e, 'a) outcome = Ok (ok_value: 'a) | Err 'e | Panic

definition and_then :: "('e, 'a) outcome \<Rightarrow> ('a \<Rightarrow> ('e, 'b) outcome) \<Rightarrow> ('e, 'b) outcome" where
  "and_then r f = (case r of Ok a \<Rightarrow> f a | Err e \<Rightarrow> Err e | Panic \<Rightarrow> Panic)"

definition ensure :: "bool \<Rightarrow> 'e \<Rightarrow> ('e, unit) outcome" where
  "ensure b e = (if b then Ok () else Err e)"

definition ok_or :: "'e \<Rightarrow> 'a option \<Rightarrow> ('e, 'a) outcome" where
  "ok_or e v = (case v of None \<Rightarrow> Err e | Some a \<Rightarrow> Ok a)"

definition index :: "'a list \<Rightarrow> nat \<Rightarrow> ('e, 'a) outcome" where
  "index xs i = (if i < length xs then Ok (xs ! i) else Panic)"

definition is_ok :: "('e, 'a) outcome \<Rightarrow> bool" where
  "is_ok r = (case r of Ok _ \<Rightarrow> True | _ \<Rightarrow> False)"

primrec try_fold :: "('a \<Rightarrow> 's \<Rightarrow> ('e, 's) outcome) \<Rightarrow> 'a list \<Rightarrow> 's \<Rightarrow> ('e, 's) outcome" where
  "try_fold f [] s = Ok s"
| "try_fold f (x # xs) s = and_then (f x s) (try_fold f xs)"

lemma and_then_simps [simp]:
  "and_then (Ok a) f = f a"
  "and_then (Err e) f = Err e"
  "and_then Panic f = Panic"
  by (simp_all add: and_then_def)

lemma and_then_eq_Ok [outcome_simps]:
  "and_then r f = Ok b \<longleftrightarrow> (\<exists>a. r = Ok a \<and> f a = Ok b)"
  by (cases r) auto

lemma and_then_eq_Panic [outcome_simps]:
  "and_then r f = Panic \<longleftrightarrow> r = Panic \<or> (\<exists>a. r = Ok a \<and> f a = Panic)"
  by (cases r) auto

lemma ensure_eq_Ok [simp]: "ensure b e = Ok u \<longleftrightarrow> b"
  by (simp add: ensure_def)

lemma ensure_not_Panic [simp]: "ensure b e \<noteq> Panic"
  by (simp add: ensure_def)

lemma ensure_simps [simp]: "ensure True e = Ok ()" "ensure False e = Err e"
  by (simp_all add: ensure_def)

lemma ok_or_eq_Ok [simp]: "ok_or e v = Ok a \<longleftrightarrow> v = Some a"
  by (cases v) (auto simp: ok_or_def)

lemma ok_or_not_Panic [simp]: "ok_or e v \<noteq> Panic"
  by (cases v) (auto simp: ok_or_def)

lemma ok_or_simps [simp]: "ok_or e None = Err e" "ok_or e (Some a) = Ok a"
  by (simp_all add: ok_or_def)

lemma index_eq_Ok [simp]: "index xs i = Ok a \<longleftrightarrow> i < length xs \<and> a = xs ! i"
  by (auto simp: index_def)

lemma index_in [simp]: "i < length xs \<Longrightarrow> index xs i = Ok (xs ! i)"
  by (simp add: index_def)

lemma index_eq_Panic [simp]: "index xs i = Panic \<longleftrightarrow> length xs \<le> i"
  by (auto simp: index_def)

lemma index_not_Err [simp]: "index xs i \<noteq> Err e"
  by (simp add: index_def)

lemma is_ok_simps [simp]: "is_ok (Ok a)" "\<not> is_ok (Err e)" "\<not> is_ok Panic"
  by (simp_all add: is_ok_def)

lemma is_ok_iff: "is_ok r \<longleftrightarrow> (\<exists>a. r = Ok a)"
  by (cases r) auto

lemma try_fold_append:
  "try_fold f (xs @ ys) s = and_then (try_fold f xs s) (try_fold f ys)"
proof (induction xs arbitrary: s)
  case (Cons x xs)
  then show ?case by (cases "f x s") auto
qed simp

lemma try_fold_invariant:
  assumes "try_fold f xs s = Ok s'" and "I s"
    and "\<And>x t t'. x \<in> set xs \<Longrightarrow> I t \<Longrightarrow> f x t = Ok t' \<Longrightarrow> I t'"
  shows "I s'"
  using assms
proof (induction xs arbitrary: s)
  case (Cons x xs)
  then obtain t where "f x s = Ok t" "try_fold f xs t = Ok s'"
    by (auto simp: outcome_simps)
  with Cons show ?case by (metis list.set_intros(1) list.set_intros(2))
qed simp

lemma try_fold_not_Panic:
  assumes "I s" and "\<And>x t. x \<in> set xs \<Longrightarrow> I t \<Longrightarrow> f x t \<noteq> Panic"
    and "\<And>x t t'. x \<in> set xs \<Longrightarrow> I t \<Longrightarrow> f x t = Ok t' \<Longrightarrow> I t'"
  shows "try_fold f xs s \<noteq> Panic"
  using assms
proof (induction xs arbitrary: s)
  case (Cons x xs)
  show ?case
  proof (cases "f x s")
    case (Ok t)
    with Cons.prems have "I t" by (meson list.set_intros(1))
    with Cons have "try_fold f xs t \<noteq> Panic" by (meson list.set_intros(2))
    with Ok show ?thesis by simp
  qed (use Cons.prems in auto)
qed simp

primrec try_map :: "('a \<Rightarrow> ('e, 'b) outcome) \<Rightarrow> 'a list \<Rightarrow> ('e, 'b list) outcome" where
  "try_map f [] = Ok []"
| "try_map f (x # xs) = and_then (f x) (\<lambda>y. and_then (try_map f xs) (\<lambda>ys. Ok (y # ys)))"

lemma try_map_Ok_iff: "try_map f xs = Ok ys \<longleftrightarrow> list_all2 (\<lambda>x y. f x = Ok y) xs ys"
proof (induction xs arbitrary: ys)
  case (Cons x xs)
  show ?case by (cases ys) (auto simp: outcome_simps Cons.IH)
qed auto

lemma try_map_Panic: "try_map f xs = Panic \<Longrightarrow> \<exists>x\<in>set xs. f x = Panic"
  by (induction xs) (auto simp: outcome_simps)

lemma try_map_Err: "try_map f xs = Err e \<Longrightarrow> \<exists>x\<in>set xs. f x = Err e"
proof (induction xs)
  case (Cons x xs)
  then show ?case by (cases "f x"; cases "try_map f xs") auto
qed simp

lemma try_map_length: "try_map f xs = Ok ys \<Longrightarrow> length ys = length xs"
  by (auto simp: try_map_Ok_iff dest: list_all2_lengthD)

lemma try_map_nth: "try_map f xs = Ok ys \<Longrightarrow> i < length xs \<Longrightarrow> f (xs ! i) = Ok (ys ! i)"
  by (auto simp: try_map_Ok_iff dest: list_all2_nthD)

lemma nth_enumerate0 [simp]: "i < length xs \<Longrightarrow> List.enumerate 0 xs ! i = (i, xs ! i)"
  by (simp add: nth_enumerate_eq)

lemma try_map_enumerate_nth:
  "try_map f (List.enumerate 0 xs) = Ok ys \<Longrightarrow> i < length xs \<Longrightarrow> f (i, xs ! i) = Ok (ys ! i)"
  using try_map_nth[of f "List.enumerate 0 xs" ys i] by simp

section \<open>Restricting the errors of an outcome\<close>

definition fails_only :: "('e \<Rightarrow> bool) \<Rightarrow> ('e, 'a) outcome \<Rightarrow> bool" where
  "fails_only E r = (case r of Ok _ \<Rightarrow> True | Err e \<Rightarrow> E e | Panic \<Rightarrow> False)"

lemma fails_only_simps [simp]:
  "fails_only E (Ok a)" "fails_only E (Err e) = E e" "\<not> fails_only E Panic"
  by (simp_all add: fails_only_def)

lemma fails_only_and_then:
  "fails_only E r \<Longrightarrow> (\<And>a. r = Ok a \<Longrightarrow> fails_only E (f a)) \<Longrightarrow> fails_only E (and_then r f)"
  by (cases r) auto

lemma fails_only_try_map:
  "(\<And>x. x \<in> set xs \<Longrightarrow> fails_only E (f x)) \<Longrightarrow> fails_only E (try_map f xs)"
  by (induction xs) (auto intro!: fails_only_and_then)

lemma try_fold_upto:
  assumes "I 0 s" "\<And>k t. k < n \<Longrightarrow> I k t \<Longrightarrow> fails_only E (f k t) \<and> (\<forall>t'. f k t = Ok t' \<longrightarrow> I (Suc k) t')"
  shows "fails_only E (try_fold f [0..<n] s) \<and> (\<forall>t. try_fold f [0..<n] s = Ok t \<longrightarrow> I n t)"
  using assms(2)
proof (induction n)
  case 0
  with assms(1) show ?case by simp
next
  case (Suc n)
  then have IH: "fails_only E (try_fold f [0..<n] s)" "\<And>t. try_fold f [0..<n] s = Ok t \<Longrightarrow> I n t" by simp_all
  have step: "try_fold f [0..<Suc n] s = and_then (try_fold f [0..<n] s) (f n)"
    by (cases "try_fold f [0..<n] s") (simp_all add: try_fold_append and_then_def split: outcome.split)
  from IH Suc.prems[of n] show ?case
    unfolding step by (auto simp: outcome_simps intro!: fails_only_and_then)
qed

lemma try_fold_establish:
  assumes "I s" "\<And>x t. x \<in> set xs \<Longrightarrow> I t \<Longrightarrow> fails_only E (f x t)"
    "\<And>x t t'. x \<in> set xs \<Longrightarrow> I t \<Longrightarrow> f x t = Ok t' \<Longrightarrow> I t' \<and> Q x t' \<and> (\<forall>y. Q y t \<longrightarrow> Q y t')"
  shows "fails_only E (try_fold f xs s) \<and> (\<forall>t. try_fold f xs s = Ok t \<longrightarrow> I t \<and> (\<forall>x\<in>set xs. Q x t) \<and> (\<forall>y. Q y s \<longrightarrow> Q y t))"
  using assms
proof (induction xs arbitrary: s)
  case (Cons x xs)
  show ?case
  proof (cases "f x s")
    case (Ok u)
    have u: "I u" "Q x u" "\<forall>y. Q y s \<longrightarrow> Q y u" using Cons.prems(3)[of x s u] Cons.prems(1) Ok by auto
    have "fails_only E (try_fold f xs u) \<and>
      (\<forall>t. try_fold f xs u = Ok t \<longrightarrow> I t \<and> (\<forall>x\<in>set xs. Q x t) \<and> (\<forall>y. Q y u \<longrightarrow> Q y t))"
    proof (rule Cons.IH[OF u(1)])
      show "fails_only E (f y t)" if "y \<in> set xs" "I t" for y t using Cons.prems(2)[of y t] that by simp
      show "I t' \<and> Q y t' \<and> (\<forall>z. Q z t \<longrightarrow> Q z t')" if "y \<in> set xs" "I t" "f y t = Ok t'" for y t t'
        using Cons.prems(3)[of y t t'] that by simp
    qed
    then show ?thesis unfolding try_fold.simps Ok and_then_simps using u(2,3) by (auto simp del: try_fold.simps)
  next
    case (Err e)
    with Cons.prems(1) Cons.prems(2)[of x s] show ?thesis by simp
  next
    case Panic
    with Cons.prems(1) Cons.prems(2)[of x s] show ?thesis by simp
  qed
qed simp

section \<open>Fixed-width integers\<close>

text \<open>
  Counters and indices are natural numbers; every narrowing cast and every unchecked addition
  of the source goes through one of these functions, which wrap as the release build does.
\<close>

definition as_u8 :: "nat \<Rightarrow> nat" where
  "as_u8 n = n mod 256"

definition add_u8 :: "nat \<Rightarrow> nat \<Rightarrow> nat" where
  "add_u8 a b = (a + b) mod 256"

definition add_u32 :: "nat \<Rightarrow> nat \<Rightarrow> nat" where
  "add_u32 a b = (a + b) mod 2 ^ 32"

definition add_u64 :: "nat \<Rightarrow> nat \<Rightarrow> nat" where
  "add_u64 a b = (a + b) mod 2 ^ 64"

definition try_u8 :: "nat \<Rightarrow> nat option" where
  "try_u8 n = (if n < 256 then Some n else None)"

definition try_u32 :: "nat \<Rightarrow> nat option" where
  "try_u32 n = (if n < 2 ^ 32 then Some n else None)"

definition checked_add_u64 :: "nat \<Rightarrow> nat \<Rightarrow> nat option" where
  "checked_add_u64 a b = (if a + b < 2 ^ 64 then Some (a + b) else None)"

definition checked_mul_u32 :: "nat \<Rightarrow> nat \<Rightarrow> nat option" where
  "checked_mul_u32 a b = (if a * b < 2 ^ 32 then Some (a * b) else None)"

definition option_filter :: "('a \<Rightarrow> bool) \<Rightarrow> 'a option \<Rightarrow> 'a option" where
  "option_filter P v = (case v of None \<Rightarrow> None | Some a \<Rightarrow> if P a then Some a else None)"

lemma option_filter_eq_Some [simp]: "option_filter P v = Some a \<longleftrightarrow> v = Some a \<and> P a"
  by (cases v) (auto simp: option_filter_def)

lemma as_u8_id [simp]: "n < 256 \<Longrightarrow> as_u8 n = n"
  by (simp add: as_u8_def)

lemma as_u8_less [simp]: "as_u8 n < 256"
  by (simp add: as_u8_def)

lemma as_u8_le: "as_u8 n \<le> n"
  by (simp add: as_u8_def)

lemma add_u64_id [simp]: "a + b < 2 ^ 64 \<Longrightarrow> add_u64 a b = a + b"
  by (simp add: add_u64_def)

lemma add_u8_id [simp]: "a + b < 256 \<Longrightarrow> add_u8 a b = a + b"
  by (simp add: add_u8_def)

lemma try_u8_eq_Some [simp]: "try_u8 n = Some m \<longleftrightarrow> n < 256 \<and> m = n"
  by (auto simp: try_u8_def)

section \<open>Vectors\<close>

primrec position :: "('a \<Rightarrow> bool) \<Rightarrow> 'a list \<Rightarrow> nat option" where
  "position P [] = None"
| "position P (x # xs) = (if P x then Some 0 else map_option Suc (position P xs))"

definition remove_at :: "nat \<Rightarrow> 'a list \<Rightarrow> 'a list" where
  "remove_at i xs = take i xs @ drop (Suc i) xs"

definition resize :: "nat \<Rightarrow> 'a \<Rightarrow> 'a list \<Rightarrow> 'a list" where
  "resize n d xs = take n xs @ replicate (n - length xs) d"

definition nth_opt :: "'a list \<Rightarrow> nat \<Rightarrow> 'a option" where
  "nth_opt xs i = (if i < length xs then Some (xs ! i) else None)"

definition last_n :: "nat \<Rightarrow> 'a list \<Rightarrow> 'a list" where
  "last_n n xs = drop (length xs - n) xs"

lemma position_Some:
  "position P xs = Some i \<Longrightarrow> i < length xs \<and> P (xs ! i) \<and> (\<forall>j<i. \<not> P (xs ! j))"
proof (induction xs arbitrary: i)
  case (Cons x xs)
  show ?case
  proof (cases "P x")
    case False
    with Cons.prems obtain k where "position P xs = Some k" "i = Suc k" by auto
    with Cons.IH[of k] False show ?thesis by (auto simp: nth_Cons less_Suc_eq_0_disj split: nat.splits)
  qed (use Cons.prems in auto)
qed simp

lemma position_None: "position P xs = None \<longleftrightarrow> (\<forall>x\<in>set xs. \<not> P x)"
  by (induction xs) auto

lemma position_ex: "\<exists>x\<in>set xs. P x \<Longrightarrow> \<exists>i. position P xs = Some i"
  using position_None[of P xs] by (cases "position P xs") auto

lemma mset_remove_at: "i < length xs \<Longrightarrow> mset (remove_at i xs) = mset xs - {#xs ! i#}"
  by (metis add_mset_diff_bothsides diff_empty id_take_nth_drop mset.simps(2) mset_append
      remove_at_def union_mset_add_mset_right)

lemma mset_remove_at_add: "i < length xs \<Longrightarrow> add_mset (xs ! i) (mset (remove_at i xs)) = mset xs"
  by (simp add: mset_remove_at)

lemma length_remove_at [simp]: "i < length xs \<Longrightarrow> length (remove_at i xs) = length xs - 1"
  by (simp add: remove_at_def min_def)

lemma length_resize [simp]: "length (resize n d xs) = n"
  by (simp add: resize_def min_def)

lemma resize_id [simp]: "resize (length xs) d xs = xs"
  by (simp add: resize_def)

lemma resize_same: "length xs = n \<Longrightarrow> resize n d xs = xs"
  by (simp add: resize_def)

lemma nth_opt_eq_Some [simp]: "nth_opt xs i = Some a \<longleftrightarrow> i < length xs \<and> a = xs ! i"
  by (auto simp: nth_opt_def)

lemma nth_opt_in [simp]: "i < length xs \<Longrightarrow> nth_opt xs i = Some (xs ! i)"
  by (simp add: nth_opt_def)

lemma nth_opt_eq_None [simp]: "nth_opt xs i = None \<longleftrightarrow> length xs \<le> i"
  by (auto simp: nth_opt_def)

lemma length_last_n: "length (last_n n xs) = min n (length xs)"
  by (simp add: last_n_def min_def)

lemma set_last_n: "set (last_n n xs) \<subseteq> set xs"
  by (simp add: last_n_def set_drop_subset)

lemma ex_set_drop: "(\<exists>x\<in>set (drop k xs). P x) \<longleftrightarrow> (\<exists>i<length xs. k \<le> i \<and> P (xs ! i))"
proof
  assume "\<exists>x\<in>set (drop k xs). P x"
  then obtain j where "j < length (drop k xs)" "P (drop k xs ! j)"
    by (auto simp: in_set_conv_nth)
  then show "\<exists>i<length xs. k \<le> i \<and> P (xs ! i)" by (intro exI[of _ "k + j"]) auto
next
  assume "\<exists>i<length xs. k \<le> i \<and> P (xs ! i)"
  then obtain i where "i < length xs" "k \<le> i" "P (xs ! i)" by blast
  then have "i - k < length (drop k xs)" "drop k xs ! (i - k) = xs ! i" by auto
  with \<open>P (xs ! i)\<close> show "\<exists>x\<in>set (drop k xs). P x" by (metis nth_mem)
qed

lemma set_map_filter: "y \<in> set (List.map_filter g xs) \<longleftrightarrow> (\<exists>x\<in>set xs. g x = Some y)"
  by (induction xs) (auto simp: List.map_filter_simps split: option.splits)

lemma two_at_end:
  assumes "2 \<le> length xs"
  obtains ys b a where "xs = ys @ [b, a]"
proof -
  from assms obtain zs a where "xs = zs @ [a]" by (cases xs rule: rev_cases) auto
  moreover from this assms obtain ys b where "zs = ys @ [b]" by (cases zs rule: rev_cases) auto
  ultimately show ?thesis using that by simp
qed

lemma set_update_subsetD: "x \<in> set (xs[i := y]) \<Longrightarrow> x \<in> set xs \<or> x = y"
  using set_update_subset_insert[of xs i y] by auto

text \<open>The cards of a vector of vectors, and how one slot's update moves them.\<close>

definition flatten_mset :: "'a list list \<Rightarrow> 'a multiset" where
  "flatten_mset xss = sum_list (map mset xss)"

lemma flatten_mset_simps [content_simps]:
  "flatten_mset [] = {#}"
  "flatten_mset (xs # xss) = mset xs + flatten_mset xss"
  "flatten_mset (xss @ yss) = flatten_mset xss + flatten_mset yss"
  by (simp_all add: flatten_mset_def)

lemma flatten_mset_concat: "flatten_mset xss = mset (concat xss)"
  by (induction xss) (simp_all add: flatten_mset_def)

lemma flatten_mset_update:
  assumes "i < length xss"
  shows "flatten_mset (xss[i := ys]) + mset (xss ! i) = flatten_mset xss + mset ys"
  using assms
proof (induction xss arbitrary: i)
  case (Cons xs xss)
  then show ?case by (cases i) (auto simp: content_simps ac_simps)
qed simp

lemma sum_list_map_update:
  fixes f :: "'a \<Rightarrow> 'b :: comm_monoid_add"
  assumes "i < length xs"
  shows "sum_list (map f (xs[i := y])) + f (xs ! i) = sum_list (map f xs) + f y"
  using assms
proof (induction xs arbitrary: i)
  case (Cons x xs)
  show ?case
  proof (cases i)
    case (Suc j)
    with Cons have "sum_list (map f (xs[j := y])) + f (xs ! j) = sum_list (map f xs) + f y" by simp
    with Suc show ?thesis by (simp add: add.assoc)
  qed (simp add: ac_simps)
qed simp

lemma sum_list_map_update_same:
  fixes f :: "'a \<Rightarrow> 'b :: comm_monoid_add"
  assumes "i < length xs" "f y = f (xs ! i)"
  shows "sum_list (map f (xs[i := y])) = sum_list (map f xs)"
  using assms by (metis list_update_id map_update)

lemma mset_subset_eq_flatten: "i < length xss \<Longrightarrow> mset (xss ! i) \<subseteq># flatten_mset xss"
proof (induction xss arbitrary: i)
  case (Cons xs xss)
  then show ?case
    by (cases i) (auto simp: content_simps intro: subset_mset.add_increasing)
qed simp

lemma flatten_mset_update_eq:
  "i < length xss \<Longrightarrow> flatten_mset (xss[i := ys]) = flatten_mset xss - mset (xss ! i) + mset ys"
  using flatten_mset_update[of i xss ys] mset_subset_eq_flatten[of i xss]
  by (metis add_diff_cancel_right' subset_mset.diff_add_assoc2)

lemma add_pairwise:
  fixes a b c d x y z w :: "'a :: comm_monoid_add"
  assumes "a + x = b + y" "c + z = d + w"
  shows "a + c + (x + z) = b + d + (y + w)"
proof -
  have "a + c + (x + z) = (a + x) + (c + z)" "b + d + (y + w) = (b + y) + (d + w)"
    by (simp_all add: ac_simps)
  with assms show ?thesis by simp
qed

lemma flatten_mset_size: "size (flatten_mset xss) = sum_list (map length xss)"
  by (induction xss) (simp_all add: flatten_mset_def)

lemma distinct_of_submset:
  assumes "mset xs \<subseteq># M" "\<forall>x. count M x \<le> 1"
  shows "distinct xs"
proof -
  have "\<forall>x. count (mset xs) x \<le> 1" using assms by (meson le_trans mset_subset_eq_count)
  then show ?thesis
  proof (induction xs)
    case (Cons x xs)
    have "count (mset xs) y \<le> count (mset (x # xs)) y" for y by simp
    with Cons.prems have "count (mset xs) y \<le> 1" for y by (meson le_trans)
    moreover have "count (mset xs) x = 0" using Cons.prems[rule_format, of x] by simp
    then have "x \<notin> set xs" by simp
    ultimately show ?case using Cons.IH by simp
  qed simp
qed

lemma sum_list_member: "i < length xs \<Longrightarrow> f (xs ! i) \<subseteq># sum_list (map f xs)"
proof (induction xs arbitrary: i)
  case (Cons x xs)
  then show ?case by (cases i) (auto intro: subset_mset.add_increasing)
qed simp

text \<open>What the theorems assume of a shuffle: it permutes.\<close>

definition permutes :: "('r \<Rightarrow> 'a list \<Rightarrow> 'a list \<times> 'r) \<Rightarrow> bool" where
  "permutes shuffle \<longleftrightarrow> (\<forall>rng xs. mset (fst (shuffle rng xs)) = mset xs)"

section \<open>Strings\<close>

text \<open>A Rust \<open>String\<close> is the list of its UTF-8 bytes.\<close>

definition ascii_lower :: "char \<Rightarrow> char" where
  "ascii_lower c = (if 65 \<le> (of_char c :: nat) \<and> (of_char c :: nat) \<le> 90
     then char_of ((of_char c :: nat) + 32) else c)"

definition eq_ignore_ascii_case :: "string \<Rightarrow> string \<Rightarrow> bool" where
  "eq_ignore_ascii_case s t = (map ascii_lower s = map ascii_lower t)"

fun has_control :: "string \<Rightarrow> bool" where
  "has_control [] = False"
| "has_control (c # cs) =
     ((of_char c :: nat) < 32 \<or> (of_char c :: nat) = 127
      \<or> ((of_char c :: nat) = 194 \<and>
          (case cs of [] \<Rightarrow> False | d # _ \<Rightarrow> 128 \<le> (of_char d :: nat) \<and> (of_char d :: nat) < 160))
      \<or> has_control cs)"

fun join :: "string \<Rightarrow> string list \<Rightarrow> string" where
  "join sep [] = []"
| "join sep [x] = x"
| "join sep (x # y # zs) = x @ sep @ join sep (y # zs)"

definition digit :: "nat \<Rightarrow> char" where
  "digit d = char_of (48 + d)"

fun show_nat :: "nat \<Rightarrow> string" where
  "show_nat n = (if n < 10 then [digit n] else show_nat (n div 10) @ [digit (n mod 10)])"

declare show_nat.simps [simp del]

lemma eq_ignore_ascii_case_refl [simp]: "eq_ignore_ascii_case s s"
  by (simp add: eq_ignore_ascii_case_def)

lemma eq_ignore_ascii_case_sym: "eq_ignore_ascii_case s t \<Longrightarrow> eq_ignore_ascii_case t s"
  by (simp add: eq_ignore_ascii_case_def)

lemma eq_ignore_ascii_case_trans:
  "eq_ignore_ascii_case s t \<Longrightarrow> eq_ignore_ascii_case t u \<Longrightarrow> eq_ignore_ascii_case s u"
  by (simp add: eq_ignore_ascii_case_def)

definition read_nat :: "string \<Rightarrow> nat" where
  "read_nat s = foldl (\<lambda>n c. n * 10 + (of_char c - 48)) 0 s"

lemma of_char_digit: "d < 10 \<Longrightarrow> (of_char (digit d) :: nat) = 48 + d"
  by (simp add: digit_def)

lemma read_show_nat: "read_nat (show_nat n) = n"
proof (induction n rule: show_nat.induct)
  case (1 n)
  show ?case
  proof (cases "n < 10")
    case True
    then show ?thesis by (simp add: show_nat.simps[of n] read_nat_def of_char_digit)
  next
    case False
    with 1 have "read_nat (show_nat (n div 10)) = n div 10" by simp
    with False show ?thesis
      by (simp add: show_nat.simps[of n] read_nat_def of_char_digit)
  qed
qed

lemma show_nat_inject: "show_nat m = show_nat n \<longleftrightarrow> m = n"
  by (metis read_show_nat)

lemma show_nat_digits: "c \<in> set (show_nat n) \<Longrightarrow> \<exists>d<10. c = digit d"
proof (induction n rule: show_nat.induct)
  case (1 n)
  show ?case
  proof (cases "n < 10")
    case True
    with 1 show ?thesis by (auto simp: show_nat.simps[of n])
  next
    case False
    then have "c \<in> set (show_nat (n div 10)) \<or> c = digit (n mod 10)"
      using 1 show_nat.simps[of n] by auto
    moreover have "n mod 10 < 10" by simp
    ultimately show ?thesis using 1 False by blast
  qed
qed

lemma digit_not_dash: "d < 10 \<Longrightarrow> digit d \<noteq> CHR ''-''"
proof
  assume "d < 10" "digit d = CHR ''-''"
  then have "(of_char (digit d) :: nat) = of_char (CHR ''-'')" by simp
  with \<open>d < 10\<close> show False by (simp add: of_char_digit)
qed

lemma show_nat_dash: "show_nat a @ CHR ''-'' # x = show_nat b @ CHR ''-'' # y \<longleftrightarrow> a = b \<and> x = y"
proof
  assume eq: "show_nat a @ CHR ''-'' # x = show_nat b @ CHR ''-'' # y"
  have tw: "takeWhile (\<lambda>c. c \<noteq> CHR ''-'') (show_nat n @ CHR ''-'' # ys) = show_nat n" for n ys
  proof (subst takeWhile_append2)
    show "c \<noteq> CHR ''-''" if "c \<in> set (show_nat n)" for c
    proof -
      from show_nat_digits[OF that] obtain d where "d < 10" "c = digit d" by (elim exE conjE)
      then show ?thesis using digit_not_dash by simp
    qed
  qed simp
  from arg_cong[OF eq, of "takeWhile (\<lambda>c. c \<noteq> CHR ''-'')"] have "show_nat a = show_nat b" unfolding tw .
  with eq show "a = b \<and> x = y" by (simp add: show_nat_inject)
qed simp

section \<open>Code that draws random numbers\<close>

text \<open>
  A function that takes \<open>&mut rng\<close> returns its outcome and the generator it leaves behind.
  \<open>draw_then\<close> sequences two such functions and \<open>draw_map\<close> collects one over a list;
  \<open>random_below\<close> is \<open>rng.random_range(0..n)\<close>, which panics on an empty range. The predicate
  \<open>draws P\<close> says that a drawing function returns (it neither fails nor panics) a value with \<open>P\<close>;
  its rules prove such facts by following the code.
\<close>

definition draw_then ::
  "('e, 'a) outcome \<times> 'r \<Rightarrow> ('a \<Rightarrow> 'r \<Rightarrow> ('e, 'b) outcome \<times> 'r) \<Rightarrow> ('e, 'b) outcome \<times> 'r" where
  "draw_then d f = (case d of (Ok a, rng) \<Rightarrow> f a rng | (Err e, rng) \<Rightarrow> (Err e, rng) | (Panic, rng) \<Rightarrow> (Panic, rng))"

primrec draw_map :: "('a \<Rightarrow> 'r \<Rightarrow> ('e, 'b) outcome \<times> 'r) \<Rightarrow> 'a list \<Rightarrow> 'r \<Rightarrow> ('e, 'b list) outcome \<times> 'r" where
  "draw_map f [] rng = (Ok [], rng)"
| "draw_map f (x # xs) rng =
     draw_then (f x rng) (\<lambda>y rng1. draw_then (draw_map f xs rng1) (\<lambda>ys rng2. (Ok (y # ys), rng2)))"

definition random_below :: "('r \<Rightarrow> nat \<Rightarrow> nat \<times> 'r) \<Rightarrow> nat \<Rightarrow> 'r \<Rightarrow> ('e, nat) outcome \<times> 'r" where
  "random_below random_range n rng =
     (if n = 0 then (Panic, rng) else case random_range rng n of (v, rng') \<Rightarrow> (Ok v, rng'))"

definition ranges :: "('r \<Rightarrow> nat \<Rightarrow> nat \<times> 'r) \<Rightarrow> bool" where
  "ranges random_range \<longleftrightarrow> (\<forall>rng n. 0 < n \<longrightarrow> fst (random_range rng n) < n)"

definition draws :: "('a \<Rightarrow> bool) \<Rightarrow> ('e, 'a) outcome \<times> 'r \<Rightarrow> bool" where
  "draws P d \<longleftrightarrow> (case fst d of Ok a \<Rightarrow> P a | Err _ \<Rightarrow> False | Panic \<Rightarrow> False)"

lemma draw_then_simps [simp]:
  "draw_then (Ok a, rng) f = f a rng" "draw_then (Err e, rng) f = (Err e, rng)" "draw_then (Panic, rng) f = (Panic, rng)"
  by (simp_all add: draw_then_def)

lemma draws_simps [simp]: "draws P (Ok a, rng) \<longleftrightarrow> P a" "\<not> draws P (Err e, rng)" "\<not> draws P (Panic, rng)"
  by (simp_all add: draws_def)

lemma drawsE:
  assumes "draws P d"
  obtains a rng where "d = (Ok a, rng)" "P a"
  using assms by (cases d; cases "fst d") auto

lemma draws_then: "draws P d \<Longrightarrow> (\<And>a rng. P a \<Longrightarrow> draws Q (f a rng)) \<Longrightarrow> draws Q (draw_then d f)"
  by (auto elim: drawsE)

lemma draws_mono: "draws P d \<Longrightarrow> (\<And>a. P a \<Longrightarrow> Q a) \<Longrightarrow> draws Q d"
  by (auto elim: drawsE)

lemma draws_map:
  "(\<And>x rng. x \<in> set xs \<Longrightarrow> draws (P x) (f x rng)) \<Longrightarrow> draws (list_all2 P xs) (draw_map f xs rng)"
proof (induction xs arbitrary: rng)
  case (Cons x xs)
  then have "draws (P x) (f x rng)" by simp
  then show ?case unfolding draw_map.simps
  proof (rule draws_then)
    fix y rng1 assume y: "P x y"
    from Cons have "draws (list_all2 P xs) (draw_map f xs rng1)" by simp
    then show "draws (list_all2 P (x # xs)) (draw_then (draw_map f xs rng1) (\<lambda>ys rng2. (Ok (y # ys), rng2)))"
      by (rule draws_then) (simp add: y)
  qed
qed simp

lemma draws_random_below: "ranges random_range \<Longrightarrow> 0 < n \<Longrightarrow> draws (\<lambda>v. v < n) (random_below random_range n rng)"
  by (auto simp: random_below_def ranges_def split: prod.split) (metis fst_conv)

section \<open>Reducers and their runs\<close>

text \<open>
  Every stateful component is a reducer: a function from a state and an action to an outcome
  and a successor state. A run feeds a list of actions to it; a refused action leaves the state
  the step returned, and the run goes on, as the hosts do.
\<close>

fun run :: "('s \<Rightarrow> 'a \<Rightarrow> ('e, 'd) outcome \<times> 's) \<Rightarrow> 's \<Rightarrow> 'a list \<Rightarrow> 's" where
  "run step s [] = s"
| "run step s (a # as) = run step (snd (step s a)) as"

fun accepted :: "('s \<Rightarrow> 'a \<Rightarrow> ('e, 'd) outcome \<times> 's) \<Rightarrow> 's \<Rightarrow> 'a list \<Rightarrow> nat" where
  "accepted step s [] = 0"
| "accepted step s (a # as) =
     (if is_ok (fst (step s a)) then 1 else 0) + accepted step (snd (step s a)) as"

locale reducer =
  fixes step :: "'s \<Rightarrow> 'a \<Rightarrow> ('e, 'd) outcome \<times> 's"
    and inv :: "'s \<Rightarrow> bool"
  assumes step_inv: "inv s \<Longrightarrow> inv (snd (step s a))"
begin

lemma run_inv: "inv s \<Longrightarrow> inv (run step s as)"
  by (induction as arbitrary: s) (auto intro: step_inv)

end

locale panic_free_reducer = reducer +
  assumes step_no_panic: "inv s \<Longrightarrow> fst (step s a) \<noteq> Panic"
begin

lemma run_no_panic: "inv s \<Longrightarrow> fst (step (run step s as) a) \<noteq> Panic"
  by (intro step_no_panic run_inv)

end

locale conserving_reducer = reducer +
  fixes content :: "'s \<Rightarrow> 'c"
  assumes step_content: "inv s \<Longrightarrow> content (snd (step s a)) = content s"
begin

lemma run_content: "inv s \<Longrightarrow> content (run step s as) = content s"
  by (induction as arbitrary: s) (simp_all add: step_content step_inv)

end

locale progressing_reducer = reducer +
  fixes potential :: "'s \<Rightarrow> nat"
  assumes step_progress: "inv s \<Longrightarrow> is_ok (fst (step s a)) \<Longrightarrow> potential (snd (step s a)) < potential s"
    and step_refused: "inv s \<Longrightarrow> \<not> is_ok (fst (step s a)) \<Longrightarrow> potential (snd (step s a)) \<le> potential s"
begin

lemma accepted_bound: "inv s \<Longrightarrow> accepted step s as + potential (run step s as) \<le> potential s"
proof (induction as arbitrary: s)
  case (Cons a as)
  from Cons.prems have "inv (snd (step s a))" by (rule step_inv)
  then have *: "accepted step (snd (step s a)) as + potential (run step (snd (step s a)) as)
      \<le> potential (snd (step s a))" by (rule Cons.IH)
  show ?case
  proof (cases "is_ok (fst (step s a))")
    case True
    with step_progress[OF Cons.prems this] * show ?thesis by simp
  next
    case False
    with step_refused[OF Cons.prems this] * show ?thesis by simp
  qed
qed simp

end

locale live_reducer = progressing_reducer +
  fixes final :: "'s \<Rightarrow> bool"
  assumes step_enabled: "inv s \<Longrightarrow> \<not> final s \<Longrightarrow> \<exists>a. is_ok (fst (step s a))"
begin

lemma reaches_final:
  "inv s \<Longrightarrow> \<exists>as. length as \<le> potential s \<and> accepted step s as = length as \<and> final (run step s as)"
proof (induction "potential s" arbitrary: s rule: less_induct)
  case less
  show ?case
  proof (cases "final s")
    case True
    then show ?thesis by (intro exI[of _ "[]"]) simp
  next
    case False
    with less.prems obtain a where a: "is_ok (fst (step s a))"
      using step_enabled by blast
    let ?t = "snd (step s a)"
    have p: "potential ?t < potential s" by (rule step_progress[OF less.prems a])
    then obtain as where "length as \<le> potential ?t" "accepted step ?t as = length as"
      "final (run step ?t as)"
      using less.hyps step_inv[OF less.prems] by blast
    with a p show ?thesis by (intro exI[of _ "a # as"]) simp
  qed
qed

end

lemma try_fold_each:
  assumes "try_fold f xs s = Ok t"
    "\<And>x s s'. x \<in> set xs \<Longrightarrow> f x s = Ok s' \<Longrightarrow> Q x s' \<and> (\<forall>y. Q y s \<longrightarrow> Q y s')"
  shows "(\<forall>x\<in>set xs. Q x t) \<and> (\<forall>y. Q y s \<longrightarrow> Q y t)"
  using assms
proof (induction xs arbitrary: s)
  case (Cons x xs)
  then obtain u where u: "f x s = Ok u" "try_fold f xs u = Ok t" by (auto simp: outcome_simps)
  have "(\<forall>x\<in>set xs. Q x t) \<and> (\<forall>y. Q y u \<longrightarrow> Q y t)"
  proof (rule Cons.IH[OF u(2)])
    show "Q y s' \<and> (\<forall>z. Q z s \<longrightarrow> Q z s')" if "y \<in> set xs" "f y s = Ok s'" for y s s'
      using Cons.prems(2)[of y s s'] that by simp
  qed
  with Cons.prems(2)[OF _ u(1)] show ?case by auto
qed simp

text \<open>A fold whose steps each relate the accumulator before and after by the items they handle.\<close>

lemma try_fold_concat:
  assumes "try_fold step xs a = Ok b" "\<And>x a b. x \<in> set xs \<Longrightarrow> step x a = Ok b \<Longrightarrow> R a (items x) b"
    "\<And>a. R a [] a" "\<And>a b c u v. R a u b \<Longrightarrow> R b v c \<Longrightarrow> R a (u @ v) c"
  shows "R a (concat (map items xs)) b"
  using assms(1,2)
proof (induction xs arbitrary: a)
  case (Cons x xs)
  then obtain c where c: "step x a = Ok c" "try_fold step xs c = Ok b" by (auto simp: outcome_simps)
  have "R c (concat (map items xs)) b" by (rule Cons.IH[OF c(2)]) (use Cons.prems(2) in auto)
  with assms(4) Cons.prems(2)[OF _ c(1)] show ?case by simp
qed (simp add: assms(3))

end
