(* ===== verification/Draft_Types.thy ===== *)
theory Draft_Types
  imports Prelude
begin

text \<open>
  The data of \<open>crates/draft-core/src/types.rs\<close>: the kinds of draft and their procedures, pack
  sources, seats, shared-stack and FIFO state, actions, deltas, errors and the session itself.
  A struct is a record whose field names carry a short prefix (Isabelle field names are global
  constants); an enum is a datatype, its variants qualified only where two enums share a name.
  \<open>Vec\<close> is a list, \<open>HashMap\<close> and \<open>BTreeMap\<close> are finite maps, and \<open>u8\<close>, \<open>u32\<close>,
  \<open>u64\<close>, \<open>usize\<close> are natural numbers with the casts and wrapping additions of the Prelude.
\<close>

section \<open>Identifiers and the engine's types\<close>

datatype player_id = PlayerId (player_index: nat)

instantiation player_id :: linorder
begin

definition less_eq_player_id :: "player_id \<Rightarrow> player_id \<Rightarrow> bool" where
  "less_eq_player_id p q = (player_index p \<le> player_index q)"

definition less_player_id :: "player_id \<Rightarrow> player_id \<Rightarrow> bool" where
  "less_player_id p q = (player_index p < player_index q)"

instance
  by standard (auto simp: less_eq_player_id_def less_player_id_def player_id.expand)

end

datatype draft_pack_id = DraftPackId (pack_index: nat)

instantiation draft_pack_id :: linorder
begin

definition less_eq_draft_pack_id :: "draft_pack_id \<Rightarrow> draft_pack_id \<Rightarrow> bool" where
  "less_eq_draft_pack_id p q = (pack_index p \<le> pack_index q)"

definition less_draft_pack_id :: "draft_pack_id \<Rightarrow> draft_pack_id \<Rightarrow> bool" where
  "less_draft_pack_id p q = (pack_index p < pack_index q)"

instance
  by standard (auto simp: less_eq_draft_pack_id_def less_draft_pack_id_def draft_pack_id.expand)

end

datatype draft_effect = AdditionalPick

datatype match_type = Bo1 | Bo3

datatype loop_detection_mode = LoopOff | LoopOn | LoopInteractive

record match_config =
  mc_match_type :: match_type
  mc_loop_detection :: loop_detection_mode

datatype deck_section = MainDeck | Sideboard | CommanderSection | Companion | AttractionDeck
  | PlanarDeck | SchemeDeck | ContraptionDeck | SignatureSpell | UnknownSection

record card_printing =
  cp_set_code :: string
  cp_collector_number :: string

record deck_printing =
  dp_section :: deck_section
  dp_name :: string
  dp_count :: nat
  dp_printing :: card_printing

section \<open>Draft kinds, policies and procedures\<close>

datatype tournament_format = Swiss | SingleElimination

datatype pod_policy = Competitive | Casual

datatype spectator_visibility = PublicVisibility | Omniscient

datatype draft_kind = Quick | Premier | Traditional | Sealed | CommanderDraft | Winston

datatype pack_distribution = PickAndPass | AllAtOnce | SharedStackPiles (pile_count: nat)

datatype post_draft_play = CompleteImmediately | TournamentPairings

datatype draft_launch_capability = NoLaunch | CommanderMultiplayer

datatype pick_selection_mode = Direct | Ordered

datatype set_layout_kind = UniformByRoundKind | ChaosKind

record draft_procedure =
  pr_pod_size :: nat
  pr_human_seats :: nat
  pr_min_pod_size :: nat
  pr_local_cube_min_pod_size :: nat
  pr_max_pod_size :: nat
  pr_local_cube_max_pod_size :: nat
  pr_packs_per_player :: nat
  pr_cards_per_pick :: nat
  pr_pick_selection_mode :: pick_selection_mode
  pr_distribution :: pack_distribution
  pr_min_deck_size :: nat
  pr_cube_min_deck_size :: nat
  pr_commanders_required :: nat
  pr_post_draft_play :: post_draft_play
  pr_match_config :: match_config

section \<open>Pack sources\<close>

datatype set_layout = UniformByRound "string list" | Chaos "string list" "string list list"

datatype draft_source = SetSource set_layout | Cube string string

datatype deck_addable_card_policy = StandardBasics | CustomOnly | StandardBasicsPlusCustom

record deck_addable_cards =
  ac_policy :: deck_addable_card_policy
  ac_custom :: "string list"

section \<open>Cards, packs, seats\<close>

record draft_card_instance =
  ci_instance_id :: string
  ci_name :: string
  ci_set_code :: string
  ci_collector_number :: string
  ci_rarity :: string
  ci_colors :: "string list"
  ci_cmc :: nat
  ci_type_line :: string
  ci_draft_effect :: "draft_effect option"

type_synonym draft_pack = "draft_card_instance list"

datatype draft_seat = Human player_id string | Bot string

type_synonym seat_flags = "bool list"

datatype pass_direction = PassLeft | PassRight

datatype draft_status = Lobby | Drafting | Review | Paused | Deckbuilding | Pairing
  | MatchInProgress | RoundComplete | Complete | Abandoned

datatype draft_pause_reason = PlayerDisconnected | PausedByHost | DisconnectGraceExpired

section \<open>Shared-stack state\<close>

datatype shared_stack_pile_decision = Take | Decline

record shared_stack_decision_record =
  sr_seat :: nat
  sr_pile :: nat
  sr_decision :: shared_stack_pile_decision
  sr_pile_size :: nat

record shared_stack_state =
  ss_main_stack :: "draft_card_instance list"
  ss_piles :: "draft_card_instance list list"
  ss_starting_seat :: nat
  ss_active_seat :: nat
  ss_cursor :: nat
  ss_inspected :: "nat list"
  ss_decisions :: nat
  ss_history :: "shared_stack_decision_record list"
  ss_forced_draws :: "draft_card_instance option list"

datatype shared_stack_refusal = PileNotActive | PileEmpty | NoGuaranteedCard

section \<open>FIFO flow\<close>

datatype draft_flow = LegacyBarrier | FifoAsync

record draft_selection_policy =
  sp_burns_per_pick :: nat
  sp_discard_threshold :: nat

datatype pick_clock_policy = ClockOff | ClockFixed nat | ClockSeatStep

record draft_clock_policy =
  kp_pick :: pick_clock_policy
  kp_review_duration_ms :: nat

record draft_prompt_id =
  pi_session_id :: string
  pi_seat :: nat
  pi_generation :: nat

datatype draft_selection_role = RolePick | RoleBurn | RoleEffect

record draft_selection_requirements =
  rq_picks :: nat
  rq_burns :: nat

datatype draft_active_phase = PhaseDrafting | PhaseReview

datatype draft_control = Pause draft_pause_reason | Resume

datatype draft_clock_target = TargetPick draft_prompt_id | TargetReview nat

datatype draft_clock_state = Running nat | Frozen nat

record draft_clock =
  ck_target :: draft_clock_target
  ck_state :: draft_clock_state

record draft_prompt =
  pm_id :: draft_prompt_id
  pm_pack_id :: draft_pack_id
  pm_clock :: "draft_clock option"

record queued_draft_pack =
  qp_pack_id :: draft_pack_id
  qp_opening_seat :: nat
  qp_round :: nat
  qp_original_size :: nat
  qp_pack :: draft_pack

record fifo_seat_state =
  fs_queue :: "queued_draft_pack list"
  fs_generation :: nat
  fs_prompt :: "draft_prompt option"
  fs_completed_steps :: nat
  fs_round_completed_steps :: nat

record draft_pack_provenance =
  pp_pack_id :: draft_pack_id
  pp_opening_seat :: nat
  pp_round :: nat
  pp_original_size :: nat
  pp_original_card_ids :: "string list"

record draft_card_provenance =
  cv_pack_id :: draft_pack_id
  cv_card :: draft_card_instance

datatype draft_removal_reason = Burn | Threshold

record removed_draft_card =
  rm_card_instance_id :: string
  rm_pack_id :: draft_pack_id
  rm_reason :: draft_removal_reason

record draft_review_state =
  rv_exhausted_round :: nat
  rv_next_round :: nat
  rv_clock :: draft_clock

record draft_paused_state =
  pz_phase :: draft_active_phase
  pz_reason :: draft_pause_reason

record fifo_draft_state =
  ff_session_id :: string
  ff_revision :: nat
  ff_last_now_ms :: nat
  ff_seats :: "fifo_seat_state list"
  ff_packs :: "(draft_pack_id, draft_pack_provenance) fmap"
  ff_cards :: "(string, draft_card_provenance) fmap"
  ff_removed :: "removed_draft_card list"
  ff_returned_effects :: "(string, draft_pack_id) fmap"
  ff_review :: "draft_review_state option"
  ff_paused :: "draft_paused_state option"

section \<open>Actions, deltas and errors\<close>

datatype draft_action =
    StartDraft
  | Select nat draft_prompt_id "string list" "string list" "string list"
  | Control draft_control
  | AdvanceClock
  | Pick nat "string list"
  | PickWithDraftEffect nat string "string list"
  | SubmitDeck nat "string list" "string list" "deck_printing list"
  | GeneratePairings
  | ReportMatchResult string "nat option"
  | AdvanceRound
  | ReplaceSeatWithBot nat "string option"
  | SetSeatConnected nat bool
  | SharedStackDecision nat nat shared_stack_pile_decision

datatype draft_delta =
    DraftStarted
  | SelectionAccepted draft_prompt_id nat "string list" "string list" "string list" "string list"
  | CardPicked nat string
  | PackPassed
  | PackExhausted nat
  | DeckSubmitted nat
  | TransitionedTo draft_status
  | PairingsGenerated nat
  | MatchResultRecorded string "nat option"
  | RoundAdvanced nat
  | SeatReplacedWithBot nat
  | SeatConnectionChanged nat bool
  | SharedStackDecisionApplied nat nat shared_stack_pile_decision

datatype limited_deck_error =
    TooFewCards nat nat
  | NotInPool string
  | ExceedsPoolCount string nat nat
  | FillerExceedsGrant string nat nat nat
  | FillerNotUsedAsCommander string nat nat nat
  | CommanderNotInDeck string nat nat
  | TooManyCommanders nat nat
  | TooFewCommanders nat nat

datatype draft_error =
    InvalidConfiguration string
  | InvalidSnapshot string
  | IncompatibleFlow
  | ExplicitTimeRequired
  | StalePrompt
  | ExpiredPrompt
  | InvalidSelectionCount draft_selection_role nat nat
  | InvalidSelection draft_selection_role string
  | InvalidClockBounds
  | InvalidTransition draft_status string
  | SeatOutOfRange nat nat
  | CardNotInPack string
  | DraftEffectCardNotInPool string
  | InvalidDraftEffectSelection nat nat
  | NoPendingPack nat
  | ValidationFailed "limited_deck_error list"
  | PairingNotFound string
  | PairingNotInCurrentRound string nat
  | MatchWinnerRequired string
  | SeatNotInPairing nat string
  | UnsupportedTournamentSize tournament_format nat nat
  | InsufficientCards nat nat
  | WrongPickCardCount nat nat nat
  | DuplicatePickCardId nat string
  | SeatAlreadyPickedThisRound nat
  | SeatIsBot nat
  | SealedRequiresSetSource
  | InvalidPackSequence string
  | InvalidSealedConfiguration string
  | InvalidSealedSnapshot string
  | PodBelowMinimumSize draft_kind nat nat
  | InvalidSharedStackConfiguration string
  | SharedStackDecisionRefused nat nat shared_stack_refusal

type_synonym 'a draft_result = "(draft_error, 'a) outcome"

section \<open>The session\<close>

record draft_config =
  cf_flow :: draft_flow
  cf_selection_policy :: draft_selection_policy
  cf_clock_policy :: draft_clock_policy
  cf_source :: draft_source
  cf_set_code :: string
  cf_kind :: draft_kind
  cf_pod_size :: nat
  cf_cards_per_pack :: nat
  cf_pack_count :: nat
  cf_min_deck_size :: nat
  cf_addable_cards :: deck_addable_cards
  cf_rng_seed :: nat
  cf_tournament_format :: tournament_format
  cf_pod_policy :: pod_policy
  cf_spectator_visibility :: spectator_visibility

record draft_deck_submission =
  sb_seat :: nat
  sb_main_deck :: "string list"
  sb_commanders :: "string list"
  sb_printings :: "deck_printing list"

record draft_match_record =
  mr_player :: player_id
  mr_wins :: nat
  mr_losses :: nat
  mr_draws :: nat
  mr_match_wins :: nat
  mr_match_losses :: nat

datatype pairing_status = PairingPending | PairingInProgress | PairingComplete

record draft_pairing =
  pg_round :: nat
  pg_table :: nat
  pg_players :: "player_id \<times> player_id"
  pg_match_id :: string
  pg_status :: pairing_status
  pg_winner :: "player_id option"

record draft_session =
  ds_booster_pack_pool :: "string list option"
  ds_shared_stack :: "shared_stack_state option"
  ds_fifo :: "fifo_draft_state option"
  ds_draft_code :: string
  ds_set_code :: string
  ds_kind :: draft_kind
  ds_status :: draft_status
  ds_config :: draft_config
  ds_seats :: "draft_seat list"
  ds_current_pack_number :: nat
  ds_pack_sizes :: "nat list"
  ds_pick_number :: nat
  ds_seats_picked_this_round :: seat_flags
  ds_connected_seats :: seat_flags
  ds_pass_direction :: pass_direction
  ds_packs_by_seat :: "draft_pack list list"
  ds_current_pack :: "draft_pack option list"
  ds_current_pack_origins :: "nat option list"
  ds_pools :: "draft_card_instance list list"
  ds_submitted_decks :: "(player_id, draft_deck_submission) fmap"
  ds_match_records :: "(player_id, draft_match_record) fmap"
  ds_pairings :: "draft_pairing list"
  ds_current_round :: nat
  ds_created_at :: nat
  ds_updated_at :: nat

type_synonym session_step = "draft_delta list draft_result \<times> draft_session"

end
