(* ===== verification/Draft_Procedure.thy ===== *)
theory Draft_Procedure
  imports Draft_Types "HOL-Library.Char_ord" "HOL-Library.List_Lexorder"
begin

text \<open>
  The operations of \<open>crates/draft-core/src/types.rs\<close>: the per-kind procedure table and its
  derived axes, seat-count and Sealed admission, set layouts and pack sources, addable cards,
  pass directions, seat flags, clock policies and pairing results. The lemmas show that the
  table satisfies the bounds the reducers rely on, that passing is a permutation of the pod,
  and what each admission rule accepts.
\<close>

section \<open>The procedure table\<close>

definition default_match_config :: match_config where
  "default_match_config = \<lparr>mc_match_type = Bo1, mc_loop_detection = LoopOff\<rparr>"

definition quick_procedure :: draft_procedure where
  "quick_procedure = \<lparr>
     pr_pod_size = 8, pr_human_seats = 1, pr_min_pod_size = 2, pr_local_cube_min_pod_size = 1,
     pr_max_pod_size = 8, pr_local_cube_max_pod_size = 255, pr_packs_per_player = 3,
     pr_cards_per_pick = 1, pr_pick_selection_mode = Direct, pr_distribution = PickAndPass,
     pr_min_deck_size = 40, pr_cube_min_deck_size = 1, pr_commanders_required = 0,
     pr_post_draft_play = CompleteImmediately,
     pr_match_config = default_match_config\<lparr>mc_match_type := Bo1\<rparr>\<rparr>"

definition premier_procedure :: draft_procedure where
  "premier_procedure = \<lparr>
     pr_pod_size = 8, pr_human_seats = 8, pr_min_pod_size = 2, pr_local_cube_min_pod_size = 2,
     pr_max_pod_size = 8, pr_local_cube_max_pod_size = 8, pr_packs_per_player = 3,
     pr_cards_per_pick = 1, pr_pick_selection_mode = Direct, pr_distribution = PickAndPass,
     pr_min_deck_size = 40, pr_cube_min_deck_size = 1, pr_commanders_required = 0,
     pr_post_draft_play = TournamentPairings,
     pr_match_config = default_match_config\<lparr>mc_match_type := Bo1\<rparr>\<rparr>"

definition traditional_procedure :: draft_procedure where
  "traditional_procedure = \<lparr>
     pr_pod_size = 8, pr_human_seats = 8, pr_min_pod_size = 2, pr_local_cube_min_pod_size = 2,
     pr_max_pod_size = 8, pr_local_cube_max_pod_size = 8, pr_packs_per_player = 3,
     pr_cards_per_pick = 1, pr_pick_selection_mode = Direct, pr_distribution = PickAndPass,
     pr_min_deck_size = 40, pr_cube_min_deck_size = 1, pr_commanders_required = 0,
     pr_post_draft_play = TournamentPairings,
     pr_match_config = default_match_config\<lparr>mc_match_type := Bo3\<rparr>\<rparr>"

definition sealed_procedure :: draft_procedure where
  "sealed_procedure = \<lparr>
     pr_pod_size = 8, pr_human_seats = 8, pr_min_pod_size = 2, pr_local_cube_min_pod_size = 2,
     pr_max_pod_size = 8, pr_local_cube_max_pod_size = 8, pr_packs_per_player = 6,
     pr_cards_per_pick = 1, pr_pick_selection_mode = Direct, pr_distribution = AllAtOnce,
     pr_min_deck_size = 40, pr_cube_min_deck_size = 1, pr_commanders_required = 0,
     pr_post_draft_play = TournamentPairings,
     pr_match_config = default_match_config\<lparr>mc_match_type := Bo1\<rparr>\<rparr>"

definition commander_draft_procedure :: draft_procedure where
  "commander_draft_procedure = \<lparr>
     pr_pod_size = 4, pr_human_seats = 1, pr_min_pod_size = 3, pr_local_cube_min_pod_size = 3,
     pr_max_pod_size = 8, pr_local_cube_max_pod_size = 8, pr_packs_per_player = 3,
     pr_cards_per_pick = 2, pr_pick_selection_mode = Ordered, pr_distribution = PickAndPass,
     pr_min_deck_size = 60, pr_cube_min_deck_size = 60, pr_commanders_required = 1,
     pr_post_draft_play = CompleteImmediately,
     pr_match_config = default_match_config\<lparr>mc_match_type := Bo1\<rparr>\<rparr>"

definition winston_procedure :: draft_procedure where
  "winston_procedure = \<lparr>
     pr_pod_size = 2, pr_human_seats = 2, pr_min_pod_size = 2, pr_local_cube_min_pod_size = 2,
     pr_max_pod_size = 4, pr_local_cube_max_pod_size = 4, pr_packs_per_player = 3,
     pr_cards_per_pick = 1, pr_pick_selection_mode = Direct,
     pr_distribution = SharedStackPiles 3,
     pr_min_deck_size = 40, pr_cube_min_deck_size = 1, pr_commanders_required = 0,
     pr_post_draft_play = TournamentPairings,
     pr_match_config = default_match_config\<lparr>mc_match_type := Bo1\<rparr>\<rparr>"

definition draft_kind_ALL :: "draft_kind list" where
  "draft_kind_ALL = [Quick, Premier, Traditional, Sealed, CommanderDraft, Winston]"

fun procedure :: "draft_kind \<Rightarrow> draft_procedure" where
  "procedure Quick = quick_procedure"
| "procedure Premier = premier_procedure"
| "procedure Traditional = traditional_procedure"
| "procedure Sealed = sealed_procedure"
| "procedure CommanderDraft = commander_draft_procedure"
| "procedure Winston = winston_procedure"

lemmas procedure_defs = quick_procedure_def premier_procedure_def traditional_procedure_def
  sealed_procedure_def commander_draft_procedure_def winston_procedure_def

definition default_pod_size :: "draft_kind \<Rightarrow> nat" where
  "default_pod_size k = pr_pod_size (procedure k)"

definition human_seats :: "draft_kind \<Rightarrow> nat" where
  "human_seats k = pr_human_seats (procedure k)"

definition commanders_required :: "draft_kind \<Rightarrow> nat" where
  "commanders_required k = pr_commanders_required (procedure k)"

definition kind_match_config :: "draft_kind \<Rightarrow> match_config" where
  "kind_match_config k = pr_match_config (procedure k)"

section \<open>Axes derived from a procedure\<close>

definition launch_capability :: "draft_procedure \<Rightarrow> draft_launch_capability" where
  "launch_capability p =
     (case pr_post_draft_play p of
        CompleteImmediately \<Rightarrow>
          (if 1 \<le> pr_commanders_required p then CommanderMultiplayer else NoLaunch)
      | TournamentPairings \<Rightarrow> NoLaunch)"

definition allowed_pod_size_range :: "draft_procedure \<Rightarrow> tournament_format \<Rightarrow> nat \<times> nat" where
  "allowed_pod_size_range p fmt =
     (if pr_post_draft_play p = TournamentPairings \<and> fmt = SingleElimination
      then (pr_max_pod_size p, pr_max_pod_size p)
      else (pr_min_pod_size p, pr_max_pod_size p))"

definition allowed_pod_sizes :: "draft_procedure \<Rightarrow> tournament_format \<Rightarrow> nat list" where
  "allowed_pod_sizes p fmt = (case allowed_pod_size_range p fmt of (lo, hi) \<Rightarrow> [lo..<Suc hi])"

definition allows_pod_size :: "draft_procedure \<Rightarrow> tournament_format \<Rightarrow> nat \<Rightarrow> bool" where
  "allows_pod_size p fmt n = (case allowed_pod_size_range p fmt of (lo, hi) \<Rightarrow> lo \<le> n \<and> n \<le> hi)"

definition allows_local_cube_pod_size :: "draft_procedure \<Rightarrow> tournament_format \<Rightarrow> nat \<Rightarrow> bool" where
  "allows_local_cube_pod_size p fmt n =
     (if pr_post_draft_play p = TournamentPairings \<and> fmt = SingleElimination
      then n = pr_max_pod_size p
      else pr_local_cube_min_pod_size p \<le> n \<and> n \<le> pr_local_cube_max_pod_size p)"

definition effective_cube_min_deck_size :: "draft_procedure \<Rightarrow> nat \<Rightarrow> nat" where
  "effective_cube_min_deck_size p requested = max requested (pr_cube_min_deck_size p)"

definition div_ceil :: "nat \<Rightarrow> nat \<Rightarrow> nat" where
  "div_ceil a b = a div b + (if 0 < a mod b then 1 else 0)"

definition pick_steps_per_pack :: "draft_procedure \<Rightarrow> nat \<Rightarrow> ('e, nat) outcome" where
  "pick_steps_per_pack p cards_per_pack =
     (if pr_cards_per_pick p = 0 then Panic else Ok (div_ceil cards_per_pack (pr_cards_per_pick p)))"

definition draft_effect_step_size :: "draft_procedure \<Rightarrow> nat \<Rightarrow> nat" where
  "draft_effect_step_size p draft_effect_cards = pr_cards_per_pick p + draft_effect_cards"

definition allowed_set_layouts :: "draft_procedure \<Rightarrow> set_layout_kind list" where
  "allowed_set_layouts p =
     (case pr_distribution p of
        PickAndPass \<Rightarrow> [UniformByRoundKind, ChaosKind]
      | AllAtOnce \<Rightarrow> [UniformByRoundKind, ChaosKind]
      | SharedStackPiles _ \<Rightarrow> [UniformByRoundKind])"

definition allows_chaos_layout :: "draft_procedure \<Rightarrow> bool" where
  "allows_chaos_layout p = (ChaosKind \<in> set (allowed_set_layouts p))"

definition CHAOS_LAYOUT_REFUSAL :: string where
  "CHAOS_LAYOUT_REFUSAL = ''a shared-stack draft shuffles every booster into one stack, so it takes a named pack sequence rather than a Chaos assignment''"

definition validate_source :: "draft_procedure \<Rightarrow> draft_source \<Rightarrow> unit draft_result" where
  "validate_source p source =
     (case source of
        Cube _ _ \<Rightarrow> Ok ()
      | SetSource (Chaos _ _) \<Rightarrow>
          (if \<not> allows_chaos_layout p then Err (InvalidSharedStackConfiguration CHAOS_LAYOUT_REFUSAL)
           else Ok ())
      | SetSource (UniformByRound _) \<Rightarrow> Ok ())"

section \<open>Session-independent payload bounds\<close>

definition MAX_CARDS_PER_PICK :: nat where
  "MAX_CARDS_PER_PICK = 2"

definition MAX_COMMANDER_DESIGNATIONS :: nat where
  "MAX_COMMANDER_DESIGNATIONS = 2"

definition MAX_SHARED_STACK_PILES :: nat where
  "MAX_SHARED_STACK_PILES = 3"

definition SHARED_STACK_HISTORY_CAPACITY :: nat where
  "SHARED_STACK_HISTORY_CAPACITY = 128"

definition SEALED_PACK_COUNT :: nat where
  "SEALED_PACK_COUNT = 6"

definition MAX_PACK_COUNT :: nat where
  "MAX_PACK_COUNT = 8"

definition select_pick_count_is_admitted :: "nat \<Rightarrow> nat \<Rightarrow> bool" where
  "select_pick_count_is_admitted picks draft_effect_cards =
     (picks \<le> 255 \<and> draft_effect_cards \<le> picks
      \<and> 1 \<le> picks - draft_effect_cards \<and> picks - draft_effect_cards \<le> MAX_CARDS_PER_PICK)"

section \<open>Set layouts and sources\<close>

definition entry_for_pack :: "'a list \<Rightarrow> nat \<Rightarrow> 'a option" where
  "entry_for_pack sequence pack_number =
     (if sequence = [] then None else nth_opt sequence (min pack_number (length sequence - 1)))"

fun distinct_set_codes_acc :: "string list \<Rightarrow> string list \<Rightarrow> string list" where
  "distinct_set_codes_acc held [] = held"
| "distinct_set_codes_acc held (code # codes) =
     (if list_ex (\<lambda>h. eq_ignore_ascii_case h code) held
      then distinct_set_codes_acc held codes
      else distinct_set_codes_acc (held @ [code]) codes)"

definition distinct_set_codes :: "string list \<Rightarrow> string list" where
  "distinct_set_codes codes = distinct_set_codes_acc [] codes"

fun layout_actual_set_codes :: "set_layout \<Rightarrow> string list" where
  "layout_actual_set_codes (UniformByRound codes) = distinct_set_codes codes"
| "layout_actual_set_codes (Chaos candidates assignments) = distinct_set_codes (concat assignments)"

fun layout_set_code_for_seat_and_pack :: "set_layout \<Rightarrow> nat \<Rightarrow> nat \<Rightarrow> string option" where
  "layout_set_code_for_seat_and_pack (UniformByRound codes) seat pack_number =
     entry_for_pack codes pack_number"
| "layout_set_code_for_seat_and_pack (Chaos candidates assignments) seat pack_number =
     Option.bind (nth_opt assignments seat) (\<lambda>rounds. nth_opt rounds pack_number)"

definition validate_chaos_code :: "string list \<Rightarrow> nat \<Rightarrow> string \<Rightarrow> unit \<Rightarrow> (string, unit) outcome" where
  "validate_chaos_code candidates seat code u =
     ensure (list_ex (\<lambda>candidate. eq_ignore_ascii_case candidate code) candidates)
       (''Chaos assignment '' @ [CHR 0x27] @ code @ [CHR 0x27] @ '' for seat '' @ show_nat seat
         @ '' is not a candidate set'')"

definition validate_chaos_seat ::
  "string list \<Rightarrow> nat \<Rightarrow> nat \<times> string list \<Rightarrow> unit \<Rightarrow> (string, unit) outcome" where
  "validate_chaos_seat candidates pack_count entry u =
     (case entry of (seat, rounds) \<Rightarrow>
        and_then (ensure (length rounds = pack_count)
          (''Chaos assignments for seat '' @ show_nat seat @ '' must contain '' @ show_nat pack_count
            @ '' rounds, got '' @ show_nat (length rounds)))
        (try_fold (validate_chaos_code candidates seat) rounds))"

fun validate_for_draft :: "set_layout \<Rightarrow> nat \<Rightarrow> nat \<Rightarrow> (string, unit) outcome" where
  "validate_for_draft (UniformByRound codes) seat_count pack_count =
     ensure (codes \<noteq> []) ''a draft must name at least one set''"
| "validate_for_draft (Chaos candidates assignments) seat_count pack_count =
     and_then (ensure (candidates \<noteq> []) ''a Chaos draft must name at least one candidate set'') (\<lambda>_.
     and_then (ensure (length assignments = seat_count)
       (''Chaos assignments must contain '' @ show_nat seat_count @ '' seats, got ''
         @ show_nat (length assignments)))
     (try_fold (validate_chaos_seat candidates pack_count) (List.enumerate 0 assignments)))"

definition single_set :: "string \<Rightarrow> draft_source" where
  "single_set code = SetSource (UniformByRound [code])"

definition default_draft_source :: draft_source where
  "default_draft_source = single_set ''UNKNOWN''"

fun source_set_code :: "draft_source \<Rightarrow> string" where
  "source_set_code (SetSource layout) = join ''+'' (layout_actual_set_codes layout)"
| "source_set_code (Cube cube_id name) = cube_id"

fun actual_set_codes :: "draft_source \<Rightarrow> string list" where
  "actual_set_codes (SetSource layout) = layout_actual_set_codes layout"
| "actual_set_codes (Cube cube_id name) = []"

fun set_code_for_seat_and_pack :: "draft_source \<Rightarrow> nat \<Rightarrow> nat \<Rightarrow> string" where
  "set_code_for_seat_and_pack (SetSource layout) seat pack_number =
     (case layout_set_code_for_seat_and_pack layout seat pack_number of None \<Rightarrow> [] | Some c \<Rightarrow> c)"
| "set_code_for_seat_and_pack (Cube cube_id name) seat pack_number = cube_id"

definition set_code_for_pack :: "draft_source \<Rightarrow> nat \<Rightarrow> string" where
  "set_code_for_pack source pack_number = set_code_for_seat_and_pack source 0 pack_number"

fun is_cube :: "draft_source \<Rightarrow> bool" where
  "is_cube (Cube _ _) = True"
| "is_cube (SetSource _) = False"

section \<open>Admission\<close>

datatype admission_context = AdmitConfiguration | AdmitSnapshot draft_flow

definition snapshot_refusal :: "draft_flow \<Rightarrow> string \<Rightarrow> draft_error" where
  "snapshot_refusal flow reason =
     (case flow of LegacyBarrier \<Rightarrow> InvalidSealedSnapshot reason | FifoAsync \<Rightarrow> InvalidSnapshot reason)"

definition sealed_refusal :: "admission_context \<Rightarrow> string \<Rightarrow> draft_error" where
  "sealed_refusal context reason =
     (case context of
        AdmitConfiguration \<Rightarrow> InvalidSealedConfiguration reason
      | AdmitSnapshot flow \<Rightarrow> snapshot_refusal flow reason)"

definition admit_pod_size ::
  "draft_kind \<Rightarrow> draft_source \<Rightarrow> tournament_format \<Rightarrow> nat \<Rightarrow> admission_context \<Rightarrow> unit draft_result" where
  "admit_pod_size k source fmt pod_size context =
     (let p = procedure k;
          local_cube_size_is_allowed = (is_cube source \<and> allows_local_cube_pod_size p fmt pod_size)
      in if allows_pod_size p fmt pod_size \<or> local_cube_size_is_allowed then Ok ()
         else case context of
           AdmitConfiguration \<Rightarrow>
             (if pod_size < pr_min_pod_size p
              then Err (PodBelowMinimumSize k (pr_min_pod_size p) pod_size)
              else Err (UnsupportedTournamentSize fmt (fst (allowed_pod_size_range p fmt)) pod_size))
         | AdmitSnapshot flow \<Rightarrow>
             Err (snapshot_refusal flow ''pod size does not satisfy the draft procedure''))"

definition admit_all_at_once ::
  "draft_kind \<Rightarrow> draft_config \<Rightarrow> string option \<Rightarrow> admission_context \<Rightarrow> unit draft_result" where
  "admit_all_at_once k config session_set_code context =
     (if is_cube (cf_source config) then Err SealedRequiresSetSource
      else if source_set_code (cf_source config) \<noteq> cf_set_code config
           \<or> (case session_set_code of None \<Rightarrow> False | Some code \<Rightarrow> code \<noteq> cf_set_code config)
      then Err (sealed_refusal context ''set source and session codes must match'')
      else let p = procedure k in
        if cf_pack_count config \<noteq> pr_packs_per_player p \<or> cf_min_deck_size config \<noteq> pr_min_deck_size p
        then Err (sealed_refusal context ''sealed requires six packs and a 40-card minimum deck'')
        else Ok ())"

section \<open>Addable cards\<close>

definition STANDARD_BASIC_LANDS :: "string list" where
  "STANDARD_BASIC_LANDS = [''Plains'', ''Island'', ''Swamp'', ''Mountain'', ''Forest'', ''Wastes'',
     ''Snow-Covered Plains'', ''Snow-Covered Island'', ''Snow-Covered Swamp'',
     ''Snow-Covered Mountain'', ''Snow-Covered Forest'']"

definition standard_basics :: deck_addable_cards where
  "standard_basics = \<lparr>ac_policy = StandardBasics, ac_custom = []\<rparr>"

definition is_addable :: "deck_addable_cards \<Rightarrow> string \<Rightarrow> bool" where
  "is_addable cards name =
     (let standard = List.member STANDARD_BASIC_LANDS name;
          custom = list_ex (\<lambda>card. card = name) (ac_custom cards)
      in case ac_policy cards of
           StandardBasics \<Rightarrow> standard
         | CustomOnly \<Rightarrow> custom
         | StandardBasicsPlusCustom \<Rightarrow> standard \<or> custom)"

definition display_names :: "deck_addable_cards \<Rightarrow> string list" where
  "display_names cards = remdups_adj (sort
     (case ac_policy cards of
        StandardBasics \<Rightarrow> STANDARD_BASIC_LANDS
      | CustomOnly \<Rightarrow> ac_custom cards
      | StandardBasicsPlusCustom \<Rightarrow> STANDARD_BASIC_LANDS @ ac_custom cards))"

section \<open>Passing and seat flags\<close>

definition for_pack :: "nat \<Rightarrow> pass_direction" where
  "for_pack pack_number = (if pack_number mod 2 = 0 then PassLeft else PassRight)"

fun next_seat :: "pass_direction \<Rightarrow> nat \<Rightarrow> nat \<Rightarrow> nat" where
  "next_seat PassLeft current pod_size = (current + 1) mod pod_size"
| "next_seat PassRight current pod_size = (current + pod_size - 1) mod pod_size"

definition flags_all_true :: "nat \<Rightarrow> seat_flags" where
  "flags_all_true pod_size = replicate pod_size True"

definition flags_all_false :: "nat \<Rightarrow> seat_flags" where
  "flags_all_false pod_size = replicate pod_size False"

definition flags_ensure_len :: "nat \<Rightarrow> bool \<Rightarrow> seat_flags \<Rightarrow> seat_flags" where
  "flags_ensure_len pod_size d flags =
     (if length flags < pod_size then resize pod_size d flags else flags)"

definition flags_get :: "seat_flags \<Rightarrow> nat \<Rightarrow> bool" where
  "flags_get flags seat = (case nth_opt flags seat of None \<Rightarrow> False | Some b \<Rightarrow> b)"

definition flags_get_or :: "seat_flags \<Rightarrow> nat \<Rightarrow> bool \<Rightarrow> bool" where
  "flags_get_or flags seat d = (case nth_opt flags seat of None \<Rightarrow> d | Some b \<Rightarrow> b)"

definition flags_set :: "nat \<Rightarrow> bool \<Rightarrow> seat_flags \<Rightarrow> seat_flags" where
  "flags_set seat value flags = flags[seat := value]"

definition flags_clear :: "seat_flags \<Rightarrow> seat_flags" where
  "flags_clear flags = map (\<lambda>_. False) flags"

section \<open>FIFO policies, identifiers and action classes\<close>

definition MAX_DRAFT_ID_BYTES :: nat where
  "MAX_DRAFT_ID_BYTES = 128"

definition MAX_DRAFT_JSON_INTEGER :: nat where
  "MAX_DRAFT_JSON_INTEGER = 9007199254740991"

definition MAX_DRAFT_DURATION_MS :: nat where
  "MAX_DRAFT_DURATION_MS = 86400000"

definition NATIVE_DEFAULT_PICK_TIMER_SECONDS :: nat where
  "NATIVE_DEFAULT_PICK_TIMER_SECONDS = 75"

definition valid_draft_id :: "string \<Rightarrow> bool" where
  "valid_draft_id draft_id =
     (draft_id \<noteq> [] \<and> length draft_id \<le> MAX_DRAFT_ID_BYTES \<and> \<not> has_control draft_id)"

definition flow_is_legacy :: "draft_flow \<Rightarrow> bool" where
  "flow_is_legacy flow = (flow = LegacyBarrier)"

definition default_selection_policy :: draft_selection_policy where
  "default_selection_policy = \<lparr>sp_burns_per_pick = 0, sp_discard_threshold = 0\<rparr>"

definition selection_policy_is_default :: "draft_selection_policy \<Rightarrow> bool" where
  "selection_policy_is_default p = (p = default_selection_policy)"

definition default_clock_policy :: draft_clock_policy where
  "default_clock_policy = \<lparr>kp_pick = ClockOff, kp_review_duration_ms = 0\<rparr>"

definition clock_policy_is_default :: "draft_clock_policy \<Rightarrow> bool" where
  "clock_policy_is_default p = (p = default_clock_policy)"

definition milliseconds :: "nat \<Rightarrow> nat draft_result" where
  "milliseconds seconds =
     ok_or InvalidClockBounds
       (option_filter (\<lambda>ms. ms \<le> MAX_DRAFT_DURATION_MS) (checked_mul_u32 seconds 1000))"

definition clock_policy_native :: "nat option \<Rightarrow> nat \<Rightarrow> draft_clock_policy draft_result" where
  "clock_policy_native timer_seconds review_seconds =
     and_then (milliseconds (case timer_seconds of None \<Rightarrow> NATIVE_DEFAULT_PICK_TIMER_SECONDS | Some t \<Rightarrow> t))
       (\<lambda>duration_ms. and_then (milliseconds review_seconds) (\<lambda>review_ms.
          Ok \<lparr>kp_pick = (if duration_ms = 0 then ClockOff else ClockFixed duration_ms),
              kp_review_duration_ms = review_ms\<rparr>))"

definition clock_policy_p2p :: "pod_policy \<Rightarrow> nat \<Rightarrow> draft_clock_policy draft_result" where
  "clock_policy_p2p policy review_seconds =
     and_then (milliseconds review_seconds) (\<lambda>review_ms.
       Ok \<lparr>kp_pick = (case policy of Casual \<Rightarrow> ClockOff | Competitive \<Rightarrow> ClockSeatStep),
           kp_review_duration_ms = review_ms\<rparr>)"

definition clock_policy_validate :: "draft_clock_policy \<Rightarrow> unit draft_result" where
  "clock_policy_validate p =
     (if MAX_DRAFT_DURATION_MS < kp_review_duration_ms p
         \<or> (case kp_pick p of ClockFixed d \<Rightarrow> d = 0 \<or> MAX_DRAFT_DURATION_MS < d | _ \<Rightarrow> False)
      then Err InvalidClockBounds else Ok ())"

fun is_fifo_only :: "draft_action \<Rightarrow> bool" where
  "is_fifo_only (Select _ _ _ _ _) = True"
| "is_fifo_only (Control _) = True"
| "is_fifo_only AdvanceClock = True"
| "is_fifo_only _ = False"

section \<open>Pairing results\<close>

definition match_wins_of :: "(player_id, draft_match_record) fmap \<Rightarrow> player_id \<Rightarrow> nat" where
  "match_wins_of records p = (case fmlookup records p of None \<Rightarrow> 0 | Some r \<Rightarrow> mr_match_wins r)"

definition infer_winner_from_records ::
  "draft_pairing \<Rightarrow> (player_id, draft_match_record) fmap \<Rightarrow> player_id option" where
  "infer_winner_from_records p records =
     (if pg_status p \<noteq> PairingComplete then None
      else let w0 = match_wins_of records (fst (pg_players p));
               w1 = match_wins_of records (snd (pg_players p))
           in if w1 < w0 then Some (fst (pg_players p))
              else if w0 < w1 then Some (snd (pg_players p))
              else None)"

definition result_winner ::
  "draft_pairing \<Rightarrow> (player_id, draft_match_record) fmap \<Rightarrow> player_id option" where
  "result_winner p records =
     (case pg_winner p of Some w \<Rightarrow> Some w | None \<Rightarrow> infer_winner_from_records p records)"

section \<open>Properties of the table and of the admission rules\<close>

lemma draft_kind_ALL_complete: "set draft_kind_ALL = UNIV"
  using draft_kind.exhaust by (auto simp: draft_kind_ALL_def)

lemma procedure_bounds:
  "1 \<le> pr_cards_per_pick (procedure k)"
  "pr_cards_per_pick (procedure k) \<le> MAX_CARDS_PER_PICK"
  "2 \<le> pr_min_pod_size (procedure k)"
  "pr_min_pod_size (procedure k) \<le> pr_pod_size (procedure k)"
  "pr_pod_size (procedure k) \<le> pr_max_pod_size (procedure k)"
  "pr_max_pod_size (procedure k) \<le> 8"
  "even (pr_max_pod_size (procedure k))"
  "pr_human_seats (procedure k) \<le> pr_pod_size (procedure k)"
  "1 \<le> pr_local_cube_min_pod_size (procedure k)"
  "pr_local_cube_max_pod_size (procedure k) \<le> 255"
  "1 \<le> pr_packs_per_player (procedure k)"
  "pr_packs_per_player (procedure k) \<le> MAX_PACK_COUNT"
  "pr_commanders_required (procedure k) \<le> MAX_COMMANDER_DESIGNATIONS"
  by (cases k; simp add: procedure_defs MAX_CARDS_PER_PICK_def MAX_PACK_COUNT_def
      MAX_COMMANDER_DESIGNATIONS_def)+

lemma procedure_pile_bounds:
  "pr_distribution (procedure k) = SharedStackPiles n \<Longrightarrow> k = Winston \<and> n = 3"
  by (cases k; simp add: procedure_defs)

lemma pick_and_pass_kinds:
  "pr_distribution (procedure k) = PickAndPass \<longleftrightarrow> k \<in> {Quick, Premier, Traditional, CommanderDraft}"
  by (cases k; simp add: procedure_defs)

lemma all_at_once_kinds: "pr_distribution (procedure k) = AllAtOnce \<longleftrightarrow> k = Sealed"
  by (cases k; simp add: procedure_defs)

lemma allowed_pod_sizes_iff: "n \<in> set (allowed_pod_sizes p fmt) \<longleftrightarrow> allows_pod_size p fmt n"
  by (auto simp: allowed_pod_sizes_def allows_pod_size_def split: prod.splits)

lemma allows_pod_size_range:
  "allows_pod_size (procedure k) fmt n \<Longrightarrow> 2 \<le> n \<and> n \<le> 8"
  using procedure_bounds[of k]
  by (auto simp: allows_pod_size_def allowed_pod_size_range_def split: if_splits)

lemma admit_pod_size_Ok:
  "admit_pod_size k source fmt n context = Ok u \<longleftrightarrow>
     allows_pod_size (procedure k) fmt n
     \<or> is_cube source \<and> allows_local_cube_pod_size (procedure k) fmt n"
  by (auto simp: admit_pod_size_def Let_def split: admission_context.splits)

lemma admit_pod_size_not_Panic: "admit_pod_size k source fmt n context \<noteq> Panic"
  by (auto simp: admit_pod_size_def Let_def split: admission_context.splits)

lemma admitted_pod_size_positive:
  "admit_pod_size k source fmt n context = Ok u \<Longrightarrow> 1 \<le> n \<and> n \<le> 255"
  using procedure_bounds[of k]
  by (auto simp: admit_pod_size_Ok allows_local_cube_pod_size_def
      dest!: allows_pod_size_range split: if_splits)

lemma div_ceil_bounds:
  assumes "0 < b"
  shows "a \<le> div_ceil a b * b \<and> (0 < a \<longrightarrow> (div_ceil a b - 1) * b < a)"
proof -
  define q r where "q = a div b" and "r = a mod b"
  have a: "a = q * b + r" and r: "r < b" using assms by (simp_all add: q_def r_def)
  have "div_ceil a b = q + (if 0 < r then 1 else 0)" by (simp add: div_ceil_def q_def r_def)
  moreover have "r = 0 \<Longrightarrow> 0 < a \<Longrightarrow> (q - 1) * b < a" using a assms by (cases q) auto
  ultimately show ?thesis using a r by (auto simp: algebra_simps)
qed

lemma distinct_set_codes_acc_inv:
  assumes "distinct (map (map ascii_lower) held)"
  shows "distinct (map (map ascii_lower) (distinct_set_codes_acc held codes))
    \<and> set (map (map ascii_lower) (distinct_set_codes_acc held codes))
      = set (map (map ascii_lower) (held @ codes))
    \<and> set (distinct_set_codes_acc held codes) \<subseteq> set held \<union> set codes"
  using assms
proof (induction held codes rule: distinct_set_codes_acc.induct)
  case (2 held code codes)
  show ?case
  proof (cases "list_ex (\<lambda>h. eq_ignore_ascii_case h code) held")
    case True
    then obtain h where "h \<in> set held" "map ascii_lower h = map ascii_lower code"
      by (auto simp: list_ex_iff eq_ignore_ascii_case_def)
    then have "map ascii_lower code \<in> set (map (map ascii_lower) held)"
      by (metis image_eqI list.set_map)
    with 2 True show ?thesis by auto
  next
    case False
    then have "map ascii_lower code \<notin> set (map (map ascii_lower) held)"
      by (auto simp: list_ex_iff eq_ignore_ascii_case_def)
    with 2 False show ?thesis by auto
  qed
qed simp

lemma distinct_set_codes_spec:
  "distinct (map (map ascii_lower) (distinct_set_codes codes))"
  "map ascii_lower ` set (distinct_set_codes codes) = map ascii_lower ` set codes"
  "set (distinct_set_codes codes) \<subseteq> set codes"
  using distinct_set_codes_acc_inv[of "[]" codes] by (simp_all add: distinct_set_codes_def)

lemma try_fold_unit_Ok:
  "try_fold f xs () = Ok () \<longleftrightarrow> (\<forall>x\<in>set xs. f x () = Ok ())"
  by (induction xs) (auto simp: outcome_simps)

lemma validate_chaos_Ok:
  "validate_for_draft (Chaos candidates assignments) seat_count pack_count = Ok () \<longleftrightarrow>
     candidates \<noteq> [] \<and> length assignments = seat_count
     \<and> (\<forall>rounds\<in>set assignments. length rounds = pack_count
          \<and> (\<forall>code\<in>set rounds. \<exists>c\<in>set candidates. eq_ignore_ascii_case c code))"
proof -
  have "(\<forall>e\<in>set (List.enumerate 0 assignments). P (snd e)) \<longleftrightarrow> (\<forall>r\<in>set assignments. P r)" for P
    using list.set_map[of snd "List.enumerate 0 assignments"] by (simp add: map_snd_enumerate ball_simps)
  from this[of "\<lambda>rounds. length rounds = pack_count
          \<and> (\<forall>code\<in>set rounds. \<exists>c\<in>set candidates. eq_ignore_ascii_case c code)"]
  show ?thesis
    by (auto simp: outcome_simps try_fold_unit_Ok validate_chaos_seat_def validate_chaos_code_def
        list_ex_iff split: prod.splits)
qed

lemma next_seat_less: "0 < n \<Longrightarrow> next_seat d i n < n"
  by (cases d) simp_all

fun opposite :: "pass_direction \<Rightarrow> pass_direction" where
  "opposite PassLeft = PassRight"
| "opposite PassRight = PassLeft"

lemma next_seat_opposite: "i < n \<Longrightarrow> next_seat (opposite d) (next_seat d i n) n = i"
proof (cases d)
  case PassLeft
  assume "i < n"
  with PassLeft show ?thesis by (cases "Suc i = n") (auto simp: mod_Suc)
next
  case PassRight
  assume "i < n"
  with PassRight show ?thesis by (cases i) (auto simp: mod_if)
qed

lemma opposite_opposite [simp]: "opposite (opposite d) = d"
  by (cases d) simp_all

lemma next_seat_bij: "bij_betw (\<lambda>i. next_seat d i n) {..<n} {..<n}"
proof (rule bij_betw_byWitness[where f' = "\<lambda>i. next_seat (opposite d) i n"])
  show "\<forall>a\<in>{..<n}. next_seat (opposite d) (next_seat d a n) n = a"
    by (simp add: next_seat_opposite)
  show "\<forall>a\<in>{..<n}. next_seat d (next_seat (opposite d) a n) n = a"
    using next_seat_opposite[of _ n "opposite d"] by simp
qed (auto intro: next_seat_less)

lemma is_addable_display: "name \<in> set (display_names cards) \<longleftrightarrow> is_addable cards name"
  by (auto simp: display_names_def is_addable_def Let_def list_ex_iff
      split: deck_addable_card_policy.splits)

lemma distinct_remdups_adj_sorted: "sorted (xs :: 'a :: linorder list) \<Longrightarrow> distinct (remdups_adj xs)"
  by (induction xs rule: remdups_adj.induct) (auto simp: less_le_not_le)

lemma display_names_sorted: "sorted_wrt (<) (display_names cards)"
  by (simp add: display_names_def strict_sorted_iff sorted_remdups_adj distinct_remdups_adj_sorted)

lemma milliseconds_bounds: "milliseconds s = Ok ms \<Longrightarrow> ms = s * 1000 \<and> ms \<le> MAX_DRAFT_DURATION_MS"
  by (auto simp: milliseconds_def checked_mul_u32_def split: if_splits)

lemma flags_get_simps [simp]:
  "seat < length flags \<Longrightarrow> flags_get flags seat = flags ! seat"
  by (simp add: flags_get_def nth_opt_def)

lemma flags_length [simp]:
  "length (flags_set seat v flags) = length flags"
  "length (flags_clear flags) = length flags"
  "length (flags_all_true n) = n"
  "length (flags_all_false n) = n"
  "length (flags_ensure_len n d flags) = max n (length flags)"
  by (simp_all add: flags_set_def flags_clear_def flags_all_true_def flags_all_false_def
      flags_ensure_len_def max_def)

lemma flags_ensure_len_id: "n \<le> length flags \<Longrightarrow> flags_ensure_len n d flags = flags"
  by (simp add: flags_ensure_len_def)

end
