(* ===== verification/Draft_Session.thy ===== *)
theory Draft_Session
  imports Draft_Procedure
begin

text \<open>
  The session constructor and the read paths of \<open>crates/draft-core/src/session.rs\<close>: pack
  shapes, the head pack of a seat under either flow, legacy admission, and the player behind a
  seat. Every reducer theory builds on these.
\<close>

definition snapshot_error :: "string \<Rightarrow> draft_error" where
  "snapshot_error reason = InvalidSnapshot reason"

definition new_session :: "draft_config \<Rightarrow> draft_seat list \<Rightarrow> string \<Rightarrow> draft_session" where
  "new_session config seats draft_code =
     (let pod_size = length seats in \<lparr>
       ds_booster_pack_pool = None,
       ds_shared_stack = None,
       ds_fifo = None,
       ds_draft_code = draft_code,
       ds_set_code = cf_set_code config,
       ds_kind = cf_kind config,
       ds_status = Lobby,
       ds_config = config,
       ds_seats = seats,
       ds_current_pack_number = 0,
       ds_pack_sizes = [],
       ds_pick_number = 0,
       ds_seats_picked_this_round = flags_all_false (as_u8 pod_size),
       ds_connected_seats = flags_all_true (as_u8 pod_size),
       ds_pass_direction = for_pack 0,
       ds_packs_by_seat = replicate pod_size [],
       ds_current_pack = replicate pod_size None,
       ds_current_pack_origins = replicate pod_size None,
       ds_pools = replicate pod_size [],
       ds_submitted_decks = fmempty,
       ds_match_records = fmempty,
       ds_pairings = [],
       ds_current_round = 0,
       ds_created_at = 0,
       ds_updated_at = 0\<rparr>)"

definition booster_pack_pool_for_game :: "draft_session \<Rightarrow> string list option" where
  "booster_pack_pool_for_game s =
     (case ds_booster_pack_pool s of
        Some pool \<Rightarrow> Some pool
      | None \<Rightarrow> if is_cube (cf_source (ds_config s)) then Some [] else None)"

definition next_pairing_round :: "draft_session \<Rightarrow> nat" where
  "next_pairing_round s = add_u8 (ds_current_round s) 1"

definition shared_stack :: "draft_session \<Rightarrow> shared_stack_state draft_result" where
  "shared_stack s = ok_or
     (InvalidSharedStackConfiguration ''shared-stack state missing on a shared-stack session'')
     (ds_shared_stack s)"

definition cards_in_pack :: "draft_session \<Rightarrow> nat \<Rightarrow> nat" where
  "cards_in_pack s pack_number =
     (case entry_for_pack (ds_pack_sizes s) pack_number of
        Some n \<Rightarrow> n | None \<Rightarrow> cf_cards_per_pack (ds_config s))"

definition total_pack_cards :: "draft_session \<Rightarrow> nat" where
  "total_pack_cards s =
     (if ds_pack_sizes s = [] then cf_pack_count (ds_config s) * cf_cards_per_pack (ds_config s)
      else sum_list (ds_pack_sizes s))"

definition pack_size_sequence :: "draft_session \<Rightarrow> nat list" where
  "pack_size_sequence s = map (cards_in_pack s) [0..<cf_pack_count (ds_config s)]"

definition pack_set_code_sequence :: "draft_session \<Rightarrow> string list" where
  "pack_set_code_sequence s =
     map (set_code_for_pack (cf_source (ds_config s))) [0..<cf_pack_count (ds_config s)]"

definition pack_pick_step_sequence :: "draft_session \<Rightarrow> ('e, nat list) outcome" where
  "pack_pick_step_sequence s =
     try_fold (\<lambda>pack acc. and_then (pick_steps_per_pack (procedure (ds_kind s)) (cards_in_pack s pack))
       (\<lambda>steps. Ok (acc @ [steps]))) [0..<cf_pack_count (ds_config s)] []"

definition validate_legacy_admission :: "draft_session \<Rightarrow> unit draft_result" where
  "validate_legacy_admission s =
     (if cf_flow (ds_config s) \<noteq> LegacyBarrier \<or> ds_fifo s \<noteq> None \<or> ds_status s = Review
         \<or> \<not> selection_policy_is_default (cf_selection_policy (ds_config s))
         \<or> \<not> clock_policy_is_default (cf_clock_policy (ds_config s))
      then Err IncompatibleFlow else Ok ())"

definition fifo_ref :: "draft_session \<Rightarrow> fifo_draft_state draft_result" where
  "fifo_ref s = ok_or (snapshot_error ''missing FIFO state'') (ds_fifo s)"

definition head_metadata :: "draft_session \<Rightarrow> nat \<Rightarrow> queued_draft_pack option" where
  "head_metadata s seat =
     Option.bind (ds_fifo s) (\<lambda>fifo.
     Option.bind (nth_opt (ff_seats fifo) seat) (\<lambda>st. nth_opt (fs_queue st) 0))"

definition head_pack :: "draft_session \<Rightarrow> nat \<Rightarrow> draft_pack option" where
  "head_pack s seat =
     (case cf_flow (ds_config s) of
        LegacyBarrier \<Rightarrow> Option.bind (nth_opt (ds_current_pack s) seat) (\<lambda>p. p)
      | FifoAsync \<Rightarrow> map_option qp_pack (head_metadata s seat))"

definition seat_player_id :: "draft_seat list \<Rightarrow> nat \<Rightarrow> player_id" where
  "seat_player_id seats seat =
     (case seats ! seat of Human player_id _ \<Rightarrow> player_id | Bot _ \<Rightarrow> PlayerId seat)"

fun is_bot :: "draft_seat \<Rightarrow> bool" where
  "is_bot (Bot _) = True"
| "is_bot (Human _ _) = False"

definition required_pick_count :: "draft_session \<Rightarrow> nat \<Rightarrow> nat" where
  "required_pick_count s seat =
     (let pack_len = (case head_pack s seat of None \<Rightarrow> 0 | Some pack \<Rightarrow> length pack)
      in min (pr_cards_per_pick (procedure (ds_kind s))) pack_len)"

lemma validate_legacy_admission_Ok:
  "validate_legacy_admission s = Ok u \<longleftrightarrow>
     cf_flow (ds_config s) = LegacyBarrier \<and> ds_fifo s = None \<and> ds_status s \<noteq> Review
     \<and> cf_selection_policy (ds_config s) = default_selection_policy
     \<and> cf_clock_policy (ds_config s) = default_clock_policy"
  by (auto simp: validate_legacy_admission_def selection_policy_is_default_def
      clock_policy_is_default_def)

lemma validate_legacy_admission_not_Panic [simp]: "validate_legacy_admission s \<noteq> Panic"
  by (simp add: validate_legacy_admission_def)

lemma fifo_ref_simps [simp]:
  "fifo_ref s = Ok f \<longleftrightarrow> ds_fifo s = Some f"
  "fifo_ref s \<noteq> Panic"
  by (simp_all add: fifo_ref_def)

lemma shared_stack_simps [simp]:
  "shared_stack s = Ok st \<longleftrightarrow> ds_shared_stack s = Some st"
  "shared_stack s \<noteq> Panic"
  by (simp_all add: shared_stack_def)

lemma pick_steps_fold:
  assumes "pr_cards_per_pick p \<noteq> 0"
  shows "try_fold (\<lambda>pack acc. and_then (pick_steps_per_pack p (f pack)) (\<lambda>steps. Ok (acc @ [steps]))) ps acc
    = Ok (acc @ map (\<lambda>x. div_ceil (f x) (pr_cards_per_pick p)) ps)"
  by (induction ps arbitrary: acc) (simp_all add: pick_steps_per_pack_def assms)

lemma pack_pick_step_sequence_Ok:
  "pack_pick_step_sequence s =
     Ok (map (\<lambda>n. div_ceil n (pr_cards_per_pick (procedure (ds_kind s)))) (pack_size_sequence s))"
  using procedure_bounds(1)[of "ds_kind s"]
  by (simp add: pack_pick_step_sequence_def pack_size_sequence_def pick_steps_fold o_def)

section \<open>Concrete sessions\<close>

text \<open>Small configurations and cards on which the witnesses of the theorems are evaluated.\<close>

definition sample_card :: "string \<Rightarrow> draft_card_instance" where
  "sample_card i = \<lparr>ci_instance_id = i, ci_name = i, ci_set_code = ''SET'', ci_collector_number = ''1'',
     ci_rarity = ''common'', ci_colors = [], ci_cmc = 0, ci_type_line = [], ci_draft_effect = None\<rparr>"

definition sample_config :: "draft_kind \<Rightarrow> nat \<Rightarrow> draft_config" where
  "sample_config k pod = \<lparr>cf_flow = LegacyBarrier, cf_selection_policy = default_selection_policy,
     cf_clock_policy = default_clock_policy, cf_source = single_set ''SET'', cf_set_code = ''SET'',
     cf_kind = k, cf_pod_size = pod, cf_cards_per_pack = 1, cf_pack_count = 3,
     cf_min_deck_size = pr_min_deck_size (procedure k), cf_addable_cards = standard_basics,
     cf_rng_seed = 0, cf_tournament_format = Swiss, cf_pod_policy = Casual,
     cf_spectator_visibility = PublicVisibility\<rparr>"

definition sample_seats :: "nat \<Rightarrow> draft_seat list" where
  "sample_seats n = map (\<lambda>i. Human (PlayerId i) ''player'') [0..<n]"

definition sample_session :: "draft_kind \<Rightarrow> nat \<Rightarrow> draft_session" where
  "sample_session k n = new_session (sample_config k n) (sample_seats n) ''CODE''"

lemmas sample_defs = sample_card_def sample_config_def sample_seats_def sample_session_def
  new_session_def

end
