(* ===== verification/Deck_Validation.thy ===== *)
theory Deck_Validation
  imports Draft_Session
begin

text \<open>
  Limited deck validation: \<open>validate_limited_deck\<close> of \<open>crates/draft-core/src/validation.rs\<close>
  and the Commander Draft concessions of \<open>crates/engine/src/game/deck_validation.rs\<close>. The
  validator iterates over two \<open>HashMap\<close>s, whose order the language leaves open; the order is
  the parameter \<open>keys\<close>, of which only \<open>lists_keys\<close> is assumed. The lemmas show that the
  validator accepts exactly the decks that decompose into drafted cards, freely addable cards
  and granted commander fillers, that the errors it reports do not depend on the iteration
  order, and that the concessions depend only on which sets a draft contained.
\<close>

section \<open>Commander Draft concessions\<close>

record grantable_commander_filler =
  gf_card_name :: string
  gf_max_copies :: nat

datatype partner_grant = PartnerGrant (max_colors: nat)

record draft_set_concessions =
  dc_fillers :: "grantable_commander_filler list"
  dc_partner_grant :: "partner_grant option"

definition default_concessions :: draft_set_concessions where
  "default_concessions = \<lparr>dc_fillers = [], dc_partner_grant = None\<rparr>"

fun merge_filler ::
  "grantable_commander_filler list \<Rightarrow> grantable_commander_filler \<Rightarrow> grantable_commander_filler list" where
  "merge_filler [] filler = [filler]"
| "merge_filler (held # rest) filler =
     (if gf_card_name held = gf_card_name filler
      then held\<lparr>gf_max_copies := max (gf_max_copies held) (gf_max_copies filler)\<rparr> # rest
      else held # merge_filler rest filler)"

definition concessions_union ::
  "draft_set_concessions \<Rightarrow> draft_set_concessions \<Rightarrow> draft_set_concessions" where
  "concessions_union a b = \<lparr>
     dc_fillers = foldl merge_filler (dc_fillers a) (dc_fillers b),
     dc_partner_grant =
       (case (dc_partner_grant a, dc_partner_grant b) of
          (Some held, Some added) \<Rightarrow> Some (PartnerGrant (max (max_colors held) (max_colors added)))
        | (Some held, None) \<Rightarrow> Some held
        | (None, added) \<Rightarrow> added)\<rparr>"

definition GRANTABLE_FILLER_MAX_COPIES :: nat where
  "GRANTABLE_FILLER_MAX_COPIES = 2"

definition DRAFT_SET_CONCESSIONS :: "(string \<times> string \<times> nat option) list" where
  "DRAFT_SET_CONCESSIONS =
     [(''CMR'', ''The Prismatic Piper'', None),
      (''CMM'', ''The Prismatic Piper'', Some 1),
      (''CLB'', ''Faceless One'', None)]"

definition row_concessions :: "string \<times> string \<times> nat option \<Rightarrow> draft_set_concessions" where
  "row_concessions row =
     (case row of (_, card_name, colors) \<Rightarrow>
        \<lparr>dc_fillers = [\<lparr>gf_card_name = card_name, gf_max_copies = GRANTABLE_FILLER_MAX_COPIES\<rparr>],
         dc_partner_grant = map_option PartnerGrant colors\<rparr>)"

definition draft_set_concessions_single :: "string \<Rightarrow> draft_set_concessions" where
  "draft_set_concessions_single set_code =
     (case List.find (\<lambda>(code, _, _). eq_ignore_ascii_case code set_code) DRAFT_SET_CONCESSIONS of
        None \<Rightarrow> default_concessions
      | Some row \<Rightarrow> row_concessions row)"

definition draft_set_concessions_for :: "string list \<Rightarrow> draft_set_concessions" where
  "draft_set_concessions_for set_codes =
     foldl concessions_union default_concessions
       (map row_concessions
         (filter (\<lambda>(code, _, _). list_ex (\<lambda>named. eq_ignore_ascii_case named code) set_codes)
           DRAFT_SET_CONCESSIONS))"

section \<open>The validator\<close>

type_synonym name_counts = "(string, nat) fmap"

definition bump :: "name_counts \<Rightarrow> string \<Rightarrow> name_counts" where
  "bump m n = fmupd n (add_u32 (case fmlookup m n of None \<Rightarrow> 0 | Some c \<Rightarrow> c) 1) m"

definition counts :: "string list \<Rightarrow> name_counts" where
  "counts names = foldl bump fmempty names"

definition count_or_zero :: "name_counts \<Rightarrow> string \<Rightarrow> nat" where
  "count_or_zero m n = (case fmlookup m n of None \<Rightarrow> 0 | Some c \<Rightarrow> c)"

definition filler_errors ::
  "name_counts \<Rightarrow> string list \<Rightarrow> grantable_commander_filler \<Rightarrow> string \<Rightarrow> nat \<Rightarrow> limited_deck_error list" where
  "filler_errors pool_counts commanders filler name requested =
     (let pooled = count_or_zero pool_counts name;
          added = requested - pooled;
          designated = length (filter (\<lambda>c. c = name) commanders) mod 2 ^ 32
      in (if gf_max_copies filler < added
          then [FillerExceedsGrant name pooled added (gf_max_copies filler)] else [])
         @ (if designated < added
            then [FillerNotUsedAsCommander name pooled added designated] else []))"

definition card_errors ::
  "name_counts \<Rightarrow> deck_addable_cards \<Rightarrow> grantable_commander_filler list \<Rightarrow> string list
   \<Rightarrow> string \<Rightarrow> nat \<Rightarrow> limited_deck_error list" where
  "card_errors pool_counts addable fillers commanders name requested =
     (case List.find (\<lambda>f. gf_card_name f = name) fillers of
        Some filler \<Rightarrow> filler_errors pool_counts commanders filler name requested
      | None \<Rightarrow>
          if is_addable addable name then []
          else case fmlookup pool_counts name of
            None \<Rightarrow> [NotInPool name]
          | Some available \<Rightarrow>
              if available < requested then [ExceedsPoolCount name requested available] else [])"

definition commander_errors :: "name_counts \<Rightarrow> string \<Rightarrow> nat \<Rightarrow> limited_deck_error list" where
  "commander_errors deck_counts name designated =
     (if count_or_zero deck_counts name < designated
      then [CommanderNotInDeck name designated (count_or_zero deck_counts name)] else [])"

definition limited_deck_errors ::
  "(name_counts \<Rightarrow> string list) \<Rightarrow> string list \<Rightarrow> string list \<Rightarrow> deck_addable_cards \<Rightarrow> nat
   \<Rightarrow> grantable_commander_filler list \<Rightarrow> string list \<Rightarrow> nat \<Rightarrow> limited_deck_error list" where
  "limited_deck_errors keys main_deck pool addable min_deck_size fillers commanders required =
     (let pool_counts = counts pool;
          deck_counts = counts main_deck;
          designated_counts = counts commanders
      in (if length main_deck < min_deck_size then [TooFewCards (length main_deck) min_deck_size] else [])
         @ concat (map (\<lambda>name. card_errors pool_counts addable fillers commanders name
                      (count_or_zero deck_counts name)) (keys deck_counts))
         @ concat (map (\<lambda>name. commander_errors deck_counts name
                      (count_or_zero designated_counts name)) (keys designated_counts))
         @ (if length commanders < required then [TooFewCommanders (length commanders) required] else []))"

definition validate_limited_deck ::
  "(name_counts \<Rightarrow> string list) \<Rightarrow> string list \<Rightarrow> string list \<Rightarrow> deck_addable_cards \<Rightarrow> nat
   \<Rightarrow> grantable_commander_filler list \<Rightarrow> string list \<Rightarrow> nat \<Rightarrow> (limited_deck_error list, unit) outcome" where
  "validate_limited_deck keys main_deck pool addable min_deck_size fillers commanders required =
     (let errors = limited_deck_errors keys main_deck pool addable min_deck_size fillers commanders required
      in if errors = [] then Ok () else Err errors)"

text \<open>The iteration order of a \<open>HashMap\<close>: some listing of its keys.\<close>

definition lists_keys :: "(('k, 'v) fmap \<Rightarrow> 'k list) \<Rightarrow> bool" where
  "lists_keys keys \<longleftrightarrow> (\<forall>m. distinct (keys m) \<and> set (keys m) = fset (fmdom m))"

definition sorted_keys :: "name_counts \<Rightarrow> string list" where
  "sorted_keys m = sorted_list_of_fset (fmdom m)"

text \<open>
  What a legal Limited deck is: its cards split into drafted cards, freely addable cards, and
  granted fillers that stay within their cap and all serve as commanders; the commanders are
  cards of the deck.
\<close>

definition filler_cap :: "grantable_commander_filler list \<Rightarrow> string \<Rightarrow> nat option" where
  "filler_cap fillers name = map_option gf_max_copies (List.find (\<lambda>f. gf_card_name f = name) fillers)"

definition legal_split ::
  "string multiset \<Rightarrow> string multiset \<Rightarrow> deck_addable_cards \<Rightarrow> grantable_commander_filler list
   \<Rightarrow> string multiset \<Rightarrow> string multiset \<Rightarrow> string multiset \<Rightarrow> string multiset \<Rightarrow> bool" where
  "legal_split deck pool addable fillers commanders drafted added granted \<longleftrightarrow>
     deck = drafted + added + granted
     \<and> drafted \<subseteq># pool
     \<and> (\<forall>n\<in>#added. is_addable addable n \<and> filler_cap fillers n = None)
     \<and> (\<forall>n\<in>#granted. \<exists>cap. filler_cap fillers n = Some cap \<and> count granted n \<le> cap)
     \<and> granted \<subseteq># commanders"

definition legal_limited_deck ::
  "string list \<Rightarrow> string list \<Rightarrow> deck_addable_cards \<Rightarrow> nat \<Rightarrow> grantable_commander_filler list
   \<Rightarrow> string list \<Rightarrow> nat \<Rightarrow> bool" where
  "legal_limited_deck main_deck pool addable min_deck_size fillers commanders required \<longleftrightarrow>
     min_deck_size \<le> length main_deck \<and> required \<le> length commanders
     \<and> mset commanders \<subseteq># mset main_deck
     \<and> (\<exists>drafted added granted.
          legal_split (mset main_deck) (mset pool) addable fillers (mset commanders) drafted added granted)"

section \<open>Counting\<close>

lemma fmlookup_counts_aux:
  "fmlookup (foldl bump m names) n =
     (if n \<in> set names then Some ((count_or_zero m n + count_list names n) mod 2 ^ 32)
      else fmlookup m n)"
proof (induction names arbitrary: m)
  case (Cons x xs)
  have "count_or_zero (bump m x) n =
     (if x = n then (count_or_zero m n + 1) mod 2 ^ 32 else count_or_zero m n)"
    by (simp add: count_or_zero_def bump_def add_u32_def)
  moreover have "fmlookup (bump m x) n =
     (if x = n then Some ((count_or_zero m n + 1) mod 2 ^ 32) else fmlookup m n)"
    by (simp add: count_or_zero_def bump_def add_u32_def)
  moreover have "n \<notin> set xs \<Longrightarrow> count_list xs n = 0" by (simp add: count_list_0_iff)
  ultimately show ?case by (auto simp: Cons.IH mod_simps)
qed simp

lemma fmlookup_counts:
  "fmlookup (counts names) n = (if n \<in> set names then Some (count_list names n mod 2 ^ 32) else None)"
  by (simp add: counts_def fmlookup_counts_aux count_or_zero_def)

lemma count_list_less: "length names < m \<Longrightarrow> count_list names n < m"
  using count_le_length[of names n] by linarith

lemma count_or_zero_counts:
  "length names < 2 ^ 32 \<Longrightarrow> count_or_zero (counts names) n = count (mset names) n"
  by (auto simp: count_or_zero_def fmlookup_counts count_list_less count_mset count_list_0_iff)

lemma fmdom_counts: "fset (fmdom (counts names)) = set names"
proof -
  have "n \<in> fset (fmdom (counts names)) \<longleftrightarrow> n \<in> set names" for n
    by (simp add: fmdom_notD fmlookup_dom_iff fmlookup_counts)
  then show ?thesis by blast
qed

lemma sorted_keys_lists: "lists_keys sorted_keys"
  by (simp add: lists_keys_def sorted_keys_def sorted_list_of_fset.rep_eq)

lemma lists_keysD:
  "lists_keys keys \<Longrightarrow> distinct (keys m)" "lists_keys keys \<Longrightarrow> set (keys (counts names)) = set names"
  by (simp_all add: lists_keys_def fmdom_counts)

lemma count_mset_absent [simp]: "n \<notin> set xs \<Longrightarrow> count (mset xs) n = 0"
  by (simp add: count_mset_0_iff)

section \<open>The validator accepts exactly the legal decks\<close>

definition name_ok ::
  "string multiset \<Rightarrow> string multiset \<Rightarrow> deck_addable_cards \<Rightarrow> grantable_commander_filler list
   \<Rightarrow> string multiset \<Rightarrow> string \<Rightarrow> bool" where
  "name_ok deck pool addable fillers commanders n \<longleftrightarrow>
     (case filler_cap fillers n of
        Some cap \<Rightarrow> count deck n - count pool n \<le> cap \<and> count deck n - count pool n \<le> count commanders n
      | None \<Rightarrow> is_addable addable n \<or> count deck n \<le> count pool n)"

lemma card_errors_Nil:
  assumes "length pool < 2 ^ 32" "length commanders < 2 ^ 32"
    and "requested = count deck n" "0 < requested"
  shows "card_errors (counts pool) addable fillers commanders n requested = [] \<longleftrightarrow>
     name_ok deck (mset pool) addable fillers (mset commanders) n"
proof (cases "List.find (\<lambda>f. gf_card_name f = n) fillers")
  case None
  have "fmlookup (counts pool) n = (if n \<in> set pool then Some (count (mset pool) n) else None)"
    using assms(1) by (simp add: fmlookup_counts count_list_less count_mset)
  with None assms(3,4) show ?thesis
    by (auto simp: card_errors_def name_ok_def filler_cap_def)
next
  case (Some f)
  have "length (filter (\<lambda>c. c = n) commanders) = count (mset commanders) n"
    by (induction commanders) auto
  moreover from this have "count (mset commanders) n < 2 ^ 32"
    using assms(2) length_filter_le[of "\<lambda>c. c = n" commanders] by linarith
  ultimately show ?thesis
    using Some assms(1,3)
    by (auto simp: card_errors_def filler_errors_def name_ok_def filler_cap_def count_or_zero_counts Let_def)
qed

lemma commander_errors_Nil:
  assumes "length main_deck < 2 ^ 32" "length commanders < 2 ^ 32"
  shows "commander_errors (counts main_deck) n (count_or_zero (counts commanders) n) = [] \<longleftrightarrow>
     count (mset commanders) n \<le> count (mset main_deck) n"
  using assms by (auto simp: commander_errors_def count_or_zero_counts)

lemma limited_deck_errors_Nil:
  assumes "lists_keys keys" "length main_deck < 2 ^ 32" "length pool < 2 ^ 32" "length commanders < 2 ^ 32"
  shows "limited_deck_errors keys main_deck pool addable min_deck_size fillers commanders required = [] \<longleftrightarrow>
     min_deck_size \<le> length main_deck \<and> required \<le> length commanders
     \<and> mset commanders \<subseteq># mset main_deck
     \<and> (\<forall>n. name_ok (mset main_deck) (mset pool) addable fillers (mset commanders) n)"
proof -
  have cards: "(\<forall>n\<in>set main_deck. card_errors (counts pool) addable fillers commanders n
        (count_or_zero (counts main_deck) n) = [])
    \<longleftrightarrow> (\<forall>n. name_ok (mset main_deck) (mset pool) addable fillers (mset commanders) n)"
  proof -
    have "n \<notin> set main_deck \<Longrightarrow> name_ok (mset main_deck) (mset pool) addable fillers (mset commanders) n" for n
      by (simp add: name_ok_def split: option.splits)
    moreover have "n \<in> set main_deck \<Longrightarrow> card_errors (counts pool) addable fillers commanders n
        (count_or_zero (counts main_deck) n) = []
      \<longleftrightarrow> name_ok (mset main_deck) (mset pool) addable fillers (mset commanders) n" for n
      using assms by (intro card_errors_Nil) (simp_all add: count_or_zero_counts count_greater_zero_iff)
    ultimately show ?thesis by blast
  qed
  have commanders: "(\<forall>n\<in>set commanders. commander_errors (counts main_deck) n
        (count_or_zero (counts commanders) n) = []) \<longleftrightarrow> mset commanders \<subseteq># mset main_deck"
    using assms(2,4) by (auto simp: commander_errors_Nil subseteq_mset_def)
  show ?thesis
    using cards commanders assms(1)
    by (auto simp: limited_deck_errors_def Let_def lists_keysD)
qed

lemma name_ok_split:
  "(\<forall>n. name_ok deck pool addable fillers commanders n) \<longleftrightarrow>
     (\<exists>drafted added granted. legal_split deck pool addable fillers commanders drafted added granted)"
proof
  assume ok: "\<forall>n. name_ok deck pool addable fillers commanders n"
  let ?rest = "deck - pool"
  let ?filler = "\<lambda>n. filler_cap fillers n \<noteq> None"
  have "legal_split deck pool addable fillers commanders (deck \<inter># pool)
      (filter_mset (\<lambda>n. \<not> ?filler n) ?rest) (filter_mset ?filler ?rest)"
    unfolding legal_split_def
  proof (intro conjI ballI)
    show "deck = deck \<inter># pool + filter_mset (\<lambda>n. \<not> ?filler n) ?rest + filter_mset ?filler ?rest"
      by (rule multiset_eqI) auto
    show "filter_mset ?filler ?rest \<subseteq># commanders"
      using ok by (auto simp: subseteq_mset_def name_ok_def) (metis option.simps(5))
  next
    fix n assume n: "n \<in># filter_mset (\<lambda>n. \<not> ?filler n) ?rest"
    then show "filler_cap fillers n = None" by (simp del: filter_diff_mset)
    from n have "count pool n < count deck n" "filler_cap fillers n = None"
      by (simp_all add: in_diff_count del: filter_diff_mset)
    with ok show "is_addable addable n" by (auto simp: name_ok_def dest!: spec[of _ n])
  next
    fix n assume "n \<in># filter_mset ?filler ?rest"
    then obtain cap where "filler_cap fillers n = Some cap" by (auto simp del: filter_diff_mset)
    with ok show "\<exists>cap. filler_cap fillers n = Some cap \<and> count (filter_mset ?filler ?rest) n \<le> cap"
      by (auto simp: name_ok_def dest!: spec[of _ n])
  qed simp
  then show "\<exists>drafted added granted. legal_split deck pool addable fillers commanders drafted added granted"
    by blast
next
  assume "\<exists>drafted added granted. legal_split deck pool addable fillers commanders drafted added granted"
  then obtain d a g where *: "deck = d + a + g" "\<And>n. count d n \<le> count pool n"
    "\<And>n. n \<in># a \<Longrightarrow> is_addable addable n \<and> filler_cap fillers n = None"
    "\<And>n. n \<in># g \<Longrightarrow> \<exists>cap. filler_cap fillers n = Some cap \<and> count g n \<le> cap"
    "\<And>n. count g n \<le> count commanders n"
    by (auto simp: legal_split_def subseteq_mset_def)
  show "\<forall>n. name_ok deck pool addable fillers commanders n"
  proof
    fix n
    show "name_ok deck pool addable fillers commanders n"
    proof (cases "filler_cap fillers n")
      case None
      then have "count g n = 0" using *(4)[of n] by (metis None count_eq_zero_iff option.distinct(1))
      with None *(1) *(2)[of n] *(3)[of n] show ?thesis
        by (cases "n \<in># a") (auto simp: name_ok_def not_in_iff)
    next
      case (Some cap)
      then have "count a n = 0" using *(3)[of n] by (metis count_eq_zero_iff option.distinct(1))
      moreover have "count g n \<le> cap" using *(4)[of n] Some by (cases "n \<in># g") (auto simp: not_in_iff)
      ultimately show ?thesis using Some *(1) *(2)[of n] *(5)[of n] by (auto simp: name_ok_def)
    qed
  qed
qed

lemma validate_Ok_iff:
  assumes "lists_keys keys" "length main_deck < 2 ^ 32" "length pool < 2 ^ 32" "length commanders < 2 ^ 32"
  shows "validate_limited_deck keys main_deck pool addable min_deck_size fillers commanders required = Ok ()
    \<longleftrightarrow> legal_limited_deck main_deck pool addable min_deck_size fillers commanders required"
  unfolding validate_limited_deck_def legal_limited_deck_def Let_def
  using limited_deck_errors_Nil[OF assms] name_ok_split by auto

text \<open>
  C10. Deck validation. Whatever order the hash maps are iterated in, \<open>validate_limited_deck\<close>
  accepts a deck exactly when it is legal: it meets the size and commander floors, every
  designated commander is backed by a copy in the deck, and its cards split into drafted cards,
  freely addable cards, and granted fillers within their caps that all serve as commanders.
\<close>

theorem validate_limited_deck_correct:
  assumes "lists_keys keys" "length main_deck < 2 ^ 32" "length pool < 2 ^ 32" "length commanders < 2 ^ 32"
  shows "(validate_limited_deck keys main_deck pool addable min_deck_size fillers commanders required = Ok ())
    = legal_limited_deck main_deck pool addable min_deck_size fillers commanders required"
  using validate_Ok_iff[OF assms] .

theorem validate_limited_deck_correct_witness:
  "(validate_limited_deck sorted_keys [''Bolt'', ''Island''] [''Bolt''] standard_basics 2 [] [] 0 = Ok ())
   = legal_limited_deck [''Bolt'', ''Island''] [''Bolt''] standard_basics 2 [] [] 0"
  by (rule validate_limited_deck_correct) (simp_all add: sorted_keys_lists)

text \<open>
  Determinism of the report. The errors \<open>validate_limited_deck\<close> reports are the same
  multiset in every iteration order of its hash maps; only their order can differ.
\<close>

lemma validate_errors_order_independent:
  assumes "lists_keys keys" "lists_keys keys'"
  shows "mset (limited_deck_errors keys main_deck pool addable min_deck_size fillers commanders required)
    = mset (limited_deck_errors keys' main_deck pool addable min_deck_size fillers commanders required)"
proof -
  have "mset (keys m) = mset (keys' m)" for m
    using assms set_eq_iff_mset_eq_distinct[of "keys m" "keys' m"] by (simp add: lists_keys_def)
  then have "mset (concat (map f (keys m))) = mset (concat (map f (keys' m)))" for f :: "string \<Rightarrow> limited_deck_error list" and m
    by (metis mset_concat mset_map sum_mset_sum_list)
  then show ?thesis by (simp add: limited_deck_errors_def Let_def)
qed

section \<open>Concessions\<close>

lemma concessions_table:
  "draft_set_concessions_for codes =
     (let has = (\<lambda>c. \<exists>code\<in>set codes. eq_ignore_ascii_case code c);
          piper = \<lparr>gf_card_name = ''The Prismatic Piper'', gf_max_copies = 2\<rparr>;
          faceless = \<lparr>gf_card_name = ''Faceless One'', gf_max_copies = 2\<rparr>
      in \<lparr>dc_fillers = (if has ''CMR'' \<or> has ''CMM'' then [piper] else []) @ (if has ''CLB'' then [faceless] else []),
          dc_partner_grant = (if has ''CMM'' then Some (PartnerGrant 1) else None)\<rparr>)"
  by (auto simp: draft_set_concessions_for_def DRAFT_SET_CONCESSIONS_def row_concessions_def
      concessions_union_def default_concessions_def GRANTABLE_FILLER_MAX_COPIES_def Let_def list_ex_iff)

text \<open>
  Concessions. What a Commander Draft concedes depends only on which sets it contained, not
  on their order, repetition or letter case; each filler is conceded once with a cap of two, and
  the partner grant is in force exactly when Commander Masters was in the draft.
\<close>

lemma concessions_depend_on_contained_sets:
  assumes "map ascii_lower ` set codes = map ascii_lower ` set codes'"
  shows "draft_set_concessions_for codes = draft_set_concessions_for codes'
    \<and> distinct (map gf_card_name (dc_fillers (draft_set_concessions_for codes)))
    \<and> (\<forall>f\<in>set (dc_fillers (draft_set_concessions_for codes)). gf_max_copies f = GRANTABLE_FILLER_MAX_COPIES)
    \<and> (dc_partner_grant (draft_set_concessions_for codes) \<noteq> None
         \<longleftrightarrow> (\<exists>code\<in>set codes. eq_ignore_ascii_case code ''CMM''))"
proof -
  have "(\<exists>code\<in>set codes. eq_ignore_ascii_case code c) \<longleftrightarrow> map ascii_lower c \<in> map ascii_lower ` set codes" for c codes
    by (auto simp: eq_ignore_ascii_case_def image_iff) metis
  with assms show ?thesis
    by (simp add: concessions_table Let_def GRANTABLE_FILLER_MAX_COPIES_def)
qed

end
