(* ===== verification/Pairings.thy ===== *)
theory Pairings
  imports Draft_Session
begin

text \<open>
  The tournament after a draft, from \<open>crates/draft-core/src/session.rs\<close>: Swiss and
  single-elimination pairings, match records, result reporting and round advancement. The
  generator \<open>ChaCha20Rng\<close> and its \<open>shuffle\<close> are parameters; of \<open>shuffle\<close> the theorems
  assume only that it permutes. The lemmas show that the backtracking search finds a rematch-free
  perfect matching exactly when there is one, that a Swiss round pairs every player once and
  gives at most one bye, that match ids are fresh, that undoing a result is the inverse of
  applying it, and what re-reporting a result does.
\<close>

section \<open>Match records\<close>

type_synonym match_records = "(player_id, draft_match_record) fmap"

definition empty_record :: "player_id \<Rightarrow> draft_match_record" where
  "empty_record p = \<lparr>mr_player = p, mr_wins = 0, mr_losses = 0, mr_draws = 0, mr_match_wins = 0,
     mr_match_losses = 0\<rparr>"

definition ensure_match_record ::
  "player_id \<Rightarrow> (draft_match_record \<Rightarrow> draft_match_record) \<Rightarrow> match_records \<Rightarrow> match_records" where
  "ensure_match_record p f records =
     fmupd p (f (case fmlookup records p of None \<Rightarrow> empty_record p | Some r \<Rightarrow> r)) records"

definition get_match_record ::
  "player_id \<Rightarrow> (draft_match_record \<Rightarrow> draft_match_record) \<Rightarrow> match_records \<Rightarrow> match_records" where
  "get_match_record p f records =
     (case fmlookup records p of None \<Rightarrow> records | Some r \<Rightarrow> fmupd p (f r) records)"

definition record_win :: "draft_match_record \<Rightarrow> draft_match_record" where
  "record_win r = r\<lparr>mr_match_wins := add_u8 (mr_match_wins r) 1, mr_wins := add_u8 (mr_wins r) 1\<rparr>"

definition record_loss :: "draft_match_record \<Rightarrow> draft_match_record" where
  "record_loss r = r\<lparr>mr_match_losses := add_u8 (mr_match_losses r) 1, mr_losses := add_u8 (mr_losses r) 1\<rparr>"

definition record_draw :: "draft_match_record \<Rightarrow> draft_match_record" where
  "record_draw r = r\<lparr>mr_draws := add_u8 (mr_draws r) 1\<rparr>"

definition unrecord_win :: "draft_match_record \<Rightarrow> draft_match_record" where
  "unrecord_win r = r\<lparr>mr_match_wins := mr_match_wins r - 1, mr_wins := mr_wins r - 1\<rparr>"

definition unrecord_loss :: "draft_match_record \<Rightarrow> draft_match_record" where
  "unrecord_loss r = r\<lparr>mr_match_losses := mr_match_losses r - 1, mr_losses := mr_losses r - 1\<rparr>"

definition unrecord_draw :: "draft_match_record \<Rightarrow> draft_match_record" where
  "unrecord_draw r = r\<lparr>mr_draws := mr_draws r - 1\<rparr>"

definition loser_of :: "player_id \<times> player_id \<Rightarrow> player_id \<Rightarrow> player_id" where
  "loser_of players winner = (if fst players = winner then snd players else fst players)"

definition apply_match_record_result ::
  "match_records \<Rightarrow> player_id \<times> player_id \<Rightarrow> player_id option \<Rightarrow> match_records" where
  "apply_match_record_result records players winner =
     (case winner of
        Some w \<Rightarrow> ensure_match_record (loser_of players w) record_loss
                   (ensure_match_record w record_win records)
      | None \<Rightarrow> ensure_match_record (snd players) record_draw
                 (ensure_match_record (fst players) record_draw records))"

definition undo_match_record_result ::
  "match_records \<Rightarrow> player_id \<times> player_id \<Rightarrow> player_id option \<Rightarrow> match_records" where
  "undo_match_record_result records players winner =
     (case winner of
        Some w \<Rightarrow> get_match_record (loser_of players w) unrecord_loss
                   (get_match_record w unrecord_win records)
      | None \<Rightarrow> get_match_record (snd players) unrecord_draw
                 (get_match_record (fst players) unrecord_draw records))"

section \<open>Pairing a pool\<close>

function pair_pool :: "(player_id \<times> player_id) set \<Rightarrow> bool \<Rightarrow> player_id list
    \<Rightarrow> (player_id \<times> player_id) list option"
  and try_partners :: "(player_id \<times> player_id) set \<Rightarrow> bool \<Rightarrow> player_id \<Rightarrow> player_id list \<Rightarrow> player_id list
    \<Rightarrow> (player_id \<times> player_id) list option" where
  "pair_pool prior allow_rematch [] = Some []"
| "pair_pool prior allow_rematch (first # candidates) = try_partners prior allow_rematch first [] candidates"
| "try_partners prior allow_rematch first before [] = None"
| "try_partners prior allow_rematch first before (partner # after) =
     (if \<not> allow_rematch \<and> (first, partner) \<in> prior
      then try_partners prior allow_rematch first (before @ [partner]) after
      else case pair_pool prior allow_rematch (before @ after) of
             Some pairs \<Rightarrow> Some ((first, partner) # pairs)
           | None \<Rightarrow> try_partners prior allow_rematch first (before @ [partner]) after)"
  by pat_completeness auto

termination
  by (relation "measures [\<lambda>a. case a of Inl (_, _, pool) \<Rightarrow> length pool
        | Inr (_, _, _, before, after) \<Rightarrow> length before + length after,
      \<lambda>a. case a of Inl _ \<Rightarrow> 0 | Inr (_, _, _, _, after) \<Rightarrow> length after]") auto

definition mk_pairing :: "nat \<Rightarrow> nat \<times> player_id \<times> player_id \<Rightarrow> draft_pairing" where
  "mk_pairing rnd entry =
     (case entry of (table, players) \<Rightarrow>
        \<lparr>pg_round = rnd, pg_table = as_u8 table, pg_players = players,
         pg_match_id = ''r'' @ show_nat rnd @ ''-t'' @ show_nat table,
         pg_status = PairingPending, pg_winner = None\<rparr>)"

section \<open>Swiss rounds\<close>

definition players_with_wins :: "draft_session \<Rightarrow> (player_id \<times> nat \<times> nat) list" where
  "players_with_wins s =
     map (\<lambda>i. let seat = as_u8 i; pid = seat_player_id (ds_seats s) seat
               in (pid, match_wins_of (ds_match_records s) pid, seat))
       [0..<length (ds_seats s)]"

definition add_to_brackets ::
  "(player_id \<times> nat) list list \<times> nat option \<Rightarrow> player_id \<times> nat \<times> nat \<Rightarrow> (player_id \<times> nat) list list \<times> nat option" where
  "add_to_brackets acc p =
     (case (acc, p) of ((brackets, current_wins), (pid, wins, seat)) \<Rightarrow>
        if current_wins \<noteq> Some wins then (brackets @ [[(pid, seat)]], Some wins)
        else (butlast brackets @ [last brackets @ [(pid, seat)]], current_wins))"

definition win_brackets :: "(player_id \<times> nat \<times> nat) list \<Rightarrow> (player_id \<times> nat) list list" where
  "win_brackets ps = fst (foldl add_to_brackets ([], None) ps)"

fun shuffle_all :: "('r \<Rightarrow> 'a list \<Rightarrow> 'a list \<times> 'r) \<Rightarrow> 'r \<Rightarrow> 'a list list \<Rightarrow> 'a list list" where
  "shuffle_all shuffle rng [] = []"
| "shuffle_all shuffle rng (b # bs) =
     (case shuffle rng b of (b', rng') \<Rightarrow> b' # shuffle_all shuffle rng' bs)"

definition prior_pairs :: "draft_session \<Rightarrow> (player_id \<times> player_id) set" where
  "prior_pairs s = set (concat (map (\<lambda>p. [(fst (pg_players p), snd (pg_players p)),
     (snd (pg_players p), fst (pg_players p))]) (ds_pairings s)))"

fun find_bye ::
  "(player_id \<times> player_id) set \<Rightarrow> player_id list \<Rightarrow> nat list \<Rightarrow> ((player_id \<times> player_id) list \<times> player_id) option" where
  "find_bye prior pool [] = None"
| "find_bye prior pool (i # is) =
     (case pair_pool prior False (remove_at i pool) of
        Some pairs \<Rightarrow> Some (pairs, pool ! i)
      | None \<Rightarrow> find_bye prior pool is)"

definition pair_or_rematch :: "(player_id \<times> player_id) set \<Rightarrow> player_id list \<Rightarrow> (player_id \<times> player_id) list" where
  "pair_or_rematch prior pool =
     (case pair_pool prior True pool of Some pairs \<Rightarrow> pairs | None \<Rightarrow> [])"

definition pair_swiss_pool ::
  "(player_id \<times> player_id) set \<Rightarrow> player_id list \<Rightarrow> (player_id \<times> player_id) list \<times> player_id option" where
  "pair_swiss_pool prior pool =
     (if even (length pool)
      then (case pair_pool prior False pool of
              Some pairs \<Rightarrow> (pairs, None)
            | None \<Rightarrow> (pair_or_rematch prior pool, None))
      else case find_bye prior pool (rev [0..<length pool]) of
             Some (pairs, cand) \<Rightarrow> (pairs, Some cand)
           | None \<Rightarrow> (pair_or_rematch prior (butlast pool), Some (last pool)))"

definition swiss_pool ::
  "('r \<Rightarrow> (player_id \<times> nat) list \<Rightarrow> (player_id \<times> nat) list \<times> 'r) \<Rightarrow> 'r \<Rightarrow> draft_session \<Rightarrow> player_id list" where
  "swiss_pool shuffle rng s =
     (let sorted_players = sort_key (\<lambda>(_, wins, _). - int wins) (players_with_wins s);
          brackets = shuffle_all shuffle rng (win_brackets sorted_players)
      in map fst (concat brackets))"

definition generate_swiss_pairings ::
  "('r \<Rightarrow> (player_id \<times> nat) list \<Rightarrow> (player_id \<times> nat) list \<times> 'r) \<Rightarrow> 'r \<Rightarrow> draft_session \<Rightarrow> nat
   \<Rightarrow> draft_pairing list \<times> player_id option" where
  "generate_swiss_pairings shuffle rng s rnd =
     (case pair_swiss_pool (prior_pairs s) (swiss_pool shuffle rng s) of (paired, bye) \<Rightarrow>
        (map (mk_pairing rnd) (List.enumerate 0 paired), bye))"

section \<open>Single elimination\<close>

fun adjacent :: "'a list \<Rightarrow> ('a \<times> 'a) list" where
  "adjacent (a # b # xs) = (a, b) # adjacent xs"
| "adjacent _ = []"

definition generate_se_pairings :: "draft_session \<Rightarrow> nat \<Rightarrow> draft_pairing list" where
  "generate_se_pairings s rnd =
     (if rnd = 1 then
        let n = as_u8 (length (ds_seats s));
            bracket_pairs = map (\<lambda>i. (i, n - 1 - i)) [0..<n div 2]
        in map (mk_pairing rnd) (List.enumerate 0
             (map (\<lambda>(a, b). (seat_player_id (ds_seats s) a, seat_player_id (ds_seats s) b)) bracket_pairs))
      else let prev_pairings = filter (\<lambda>p. pg_round p = as_u8 (rnd + 255) \<and> pg_status p = PairingComplete) (ds_pairings s);
               winners = List.map_filter (\<lambda>p. result_winner p (ds_match_records s)) prev_pairings
           in map (mk_pairing rnd) (List.enumerate 0 (adjacent winners)))"

section \<open>The tournament operations\<close>

definition SWISS_ROUNDS :: nat where
  "SWISS_ROUNDS = 3"

definition apply_generate_pairings ::
  "(nat \<Rightarrow> 'r) \<Rightarrow> ('r \<Rightarrow> (player_id \<times> nat) list \<Rightarrow> (player_id \<times> nat) list \<times> 'r) \<Rightarrow> draft_session \<Rightarrow> session_step" where
  "apply_generate_pairings seed_from shuffle s =
     (let valid = (case ds_status s of Deckbuilding \<Rightarrow> True | Pairing \<Rightarrow> True | RoundComplete \<Rightarrow> True | _ \<Rightarrow> False);
          p = procedure (ds_kind s);
          fmt = cf_tournament_format (ds_config s);
          pod_size = as_u8 (length (ds_seats s))
      in if \<not> valid then (Err (InvalidTransition (ds_status s) ''GeneratePairings''), s)
      else if pr_post_draft_play p \<noteq> TournamentPairings
      then (Err (InvalidTransition (ds_status s) ''GeneratePairings''), s)
      else if \<not> allows_pod_size p fmt pod_size
      then (Err (UnsupportedTournamentSize fmt (fst (allowed_pod_size_range p fmt)) pod_size), s)
      else let rnd = next_pairing_round s;
               rng = seed_from (xor (cf_rng_seed (ds_config s)) (rnd * 0xDEADBEEF));
               (new_pairings, swiss_bye) =
                 (case fmt of
                    Swiss \<Rightarrow> generate_swiss_pairings shuffle rng s rnd
                  | SingleElimination \<Rightarrow> (generate_se_pairings s rnd, None));
               records = (case swiss_bye of
                    None \<Rightarrow> ds_match_records s
                  | Some bye \<Rightarrow> ensure_match_record bye
                      (\<lambda>r. r\<lparr>mr_match_wins := add_u8 (mr_match_wins r) 1\<rparr>) (ds_match_records s))
           in (Ok [PairingsGenerated rnd, TransitionedTo MatchInProgress],
               s\<lparr>ds_pairings := ds_pairings s @ new_pairings, ds_match_records := records,
                 ds_status := MatchInProgress, ds_current_round := rnd\<rparr>))"

definition reported_winner :: "draft_session \<Rightarrow> draft_pairing \<Rightarrow> nat option \<Rightarrow> player_id option draft_result" where
  "reported_winner s pairing winner_seat =
     (case winner_seat of
        None \<Rightarrow> Ok None
      | Some winner \<Rightarrow>
          let pod_size = as_u8 (length (ds_seats s)); pid = seat_player_id (ds_seats s) winner in
          if pod_size \<le> winner then Err (SeatOutOfRange winner pod_size)
          else if pid \<noteq> fst (pg_players pairing) \<and> pid \<noteq> snd (pg_players pairing)
          then Err (SeatNotInPairing winner (pg_match_id pairing))
          else Ok (Some pid))"

definition record_result :: "draft_session \<Rightarrow> nat \<Rightarrow> player_id option \<Rightarrow> draft_session" where
  "record_result s idx winner =
     (let pairing = ds_pairings s ! idx;
          previous_winner = result_winner pairing (ds_match_records s);
          undone = (if pg_status pairing = PairingComplete
                    then undo_match_record_result (ds_match_records s) (pg_players pairing) previous_winner
                    else ds_match_records s)
      in s\<lparr>ds_pairings := (ds_pairings s)[idx := pairing\<lparr>pg_status := PairingComplete, pg_winner := winner\<rparr>],
           ds_match_records := apply_match_record_result undone (pg_players pairing) winner\<rparr>)"

definition close_round :: "draft_session \<Rightarrow> draft_delta list \<times> draft_session" where
  "close_round s =
     (let round_pairings = filter (\<lambda>p. pg_round p = ds_current_round s) (ds_pairings s) in
      if list_all (\<lambda>p. pg_status p = PairingComplete) round_pairings
      then let tournament_over =
                 (case cf_tournament_format (ds_config s) of
                    Swiss \<Rightarrow> SWISS_ROUNDS \<le> ds_current_round s
                  | SingleElimination \<Rightarrow> length round_pairings = 1);
               status = (if tournament_over then Complete else RoundComplete)
           in ([TransitionedTo status], s\<lparr>ds_status := status\<rparr>)
      else ([], s))"

definition apply_report_match_result :: "draft_session \<Rightarrow> string \<Rightarrow> nat option \<Rightarrow> session_step" where
  "apply_report_match_result s match_id winner_seat =
     (if ds_status s \<noteq> MatchInProgress \<and> ds_status s \<noteq> RoundComplete
      then (Err (InvalidTransition (ds_status s) ''ReportMatchResult''), s)
      else case position (\<lambda>p. pg_match_id p = match_id) (ds_pairings s) of
        None \<Rightarrow> (Err (PairingNotFound match_id), s)
      | Some idx \<Rightarrow>
          let pairing = ds_pairings s ! idx in
          if pg_round pairing \<noteq> ds_current_round s
          then (Err (PairingNotInCurrentRound match_id (ds_current_round s)), s)
          else if cf_tournament_format (ds_config s) = SingleElimination \<and> winner_seat = None
          then (Err (MatchWinnerRequired match_id), s)
          else case reported_winner s pairing winner_seat of
            Err e \<Rightarrow> (Err e, s)
          | Panic \<Rightarrow> (Panic, s)
          | Ok winner \<Rightarrow>
              (case close_round (record_result s idx winner) of (deltas, s') \<Rightarrow>
                 (Ok (MatchResultRecorded match_id winner_seat # deltas), s')))"

definition apply_advance_round :: "draft_session \<Rightarrow> session_step" where
  "apply_advance_round s =
     (if ds_status s \<noteq> RoundComplete then (Err (InvalidTransition (ds_status s) ''AdvanceRound''), s)
      else (Ok [RoundAdvanced (next_pairing_round s)], s\<lparr>ds_status := Pairing\<rparr>))"

section \<open>The backtracking search\<close>

definition players_of :: "('a \<times> 'a) list \<Rightarrow> 'a multiset" where
  "players_of pairs = sum_list (map (\<lambda>(a, b). {#a, b#}) pairs)"

lemma players_of_simps [simp]:
  "players_of [] = {#}"
  "players_of ((a, b) # ps) = {#a, b#} + players_of ps"
  "players_of (ps @ qs) = players_of ps + players_of qs"
  by (simp_all add: players_of_def)

definition rematch_free :: "('a \<times> 'a) set \<Rightarrow> ('a \<times> 'a) list \<Rightarrow> bool" where
  "rematch_free prior pairs \<longleftrightarrow> (\<forall>(a, b)\<in>set pairs. (a, b) \<notin> prior)"

definition matching :: "('a \<times> 'a) set \<Rightarrow> 'a multiset \<Rightarrow> ('a \<times> 'a) list \<Rightarrow> bool" where
  "matching prior pool pairs \<longleftrightarrow> players_of pairs = pool \<and> rematch_free prior pairs"

lemma pair_pool_sound:
  "pair_pool prior allow pool = Some pairs \<Longrightarrow>
     players_of pairs = mset pool \<and> (\<not> allow \<longrightarrow> rematch_free prior pairs)"
  "try_partners prior allow first before after = Some pairs \<Longrightarrow>
     players_of pairs = add_mset first (mset before + mset after) \<and> (\<not> allow \<longrightarrow> rematch_free prior pairs)"
proof (induction prior allow pool and prior allow first before after arbitrary: pairs and pairs
    rule: pair_pool_try_partners.induct)
  case (4 prior allow first before partner after)
  show ?case
  proof (cases "\<not> allow \<and> (first, partner) \<in> prior")
    case True
    with 4 show ?thesis by simp
  next
    case False
    show ?thesis
    proof (cases "pair_pool prior allow (before @ after)")
      case None
      with 4 False show ?thesis by simp
    next
      case (Some ps)
      with 4(2)[OF False Some] 4(4) False show ?thesis by (auto simp: rematch_free_def)
    qed
  qed
qed (auto simp: rematch_free_def)

lemma pair_pool_rematch_total:
  "even (length pool) \<Longrightarrow> \<exists>pairs. pair_pool prior True pool = Some pairs"
proof (induction "length pool" arbitrary: pool rule: less_induct)
  case less
  show ?case
  proof (cases pool)
    case (Cons first candidates)
    with less.prems obtain partner after where "candidates = partner # after" by (cases candidates) auto
    with Cons less.hyps[of after] less.prems show ?thesis by auto
  qed simp
qed

lemma players_of_split:
  assumes "first \<in># players_of pairs"
  obtains a b x rest where "{#a, b#} = {#first, x#}" "(a, b) \<in> set pairs"
    "players_of pairs = {#first, x#} + players_of rest" "set rest \<subseteq> set pairs"
proof -
  from assms have "\<exists>(a, b)\<in>set pairs. first = a \<or> first = b"
    by (induction pairs) auto
  then obtain a b where ab: "(a, b) \<in> set pairs" "first = a \<or> first = b" by blast
  then obtain ps qs where pairs: "pairs = ps @ (a, b) # qs" by (meson split_list)
  show thesis
  proof (cases "first = a")
    case True
    with that[of a b b "ps @ qs"] pairs show thesis by (auto simp: ac_simps)
  next
    case False
    with ab(2) that[of a b a "ps @ qs"] pairs show thesis by (auto simp: ac_simps add_mset_commute)
  qed
qed

lemma pair_pool_complete:
  "symp_on UNIV (\<lambda>a b. (a, b) \<in> prior) \<Longrightarrow> matching prior (mset pool) pairs \<Longrightarrow>
     pair_pool prior False pool \<noteq> None"
  "symp_on UNIV (\<lambda>a b. (a, b) \<in> prior) \<Longrightarrow> partner' \<in> set after \<Longrightarrow> (first, partner') \<notin> prior \<Longrightarrow>
     matching prior (mset before + mset after - {#partner'#}) pairs \<Longrightarrow>
     try_partners prior False first before after \<noteq> None"
proof (induction prior False pool and prior False first before after arbitrary: pairs and partner' pairs
    rule: pair_pool_try_partners.induct)
  case (2 prior first candidates)
  then have "first \<in># players_of pairs" by (simp add: matching_def)
  then obtain a b x rest where *: "{#a, b#} = {#first, x#}" "(a, b) \<in> set pairs"
    "players_of pairs = {#first, x#} + players_of rest" "set rest \<subseteq> set pairs"
    by (rule players_of_split)
  with 2 have "mset candidates = add_mset x (players_of rest)" by (simp add: matching_def)
  then have x: "x \<in> set candidates" "mset candidates - {#x#} = players_of rest"
    by (metis set_mset_mset union_single_eq_member, simp)
  from *(1) have "a = first \<and> b = x \<or> a = x \<and> b = first" by (auto simp: add_eq_conv_ex)
  moreover from 2 *(2) have "(a, b) \<notin> prior" by (auto simp: matching_def rematch_free_def)
  ultimately have "(first, x) \<notin> prior" using 2(2) by (auto dest: sympD simp: symp_on_def)
  moreover have "matching prior (mset [] + mset candidates - {#x#}) rest"
    using x(2) 2(3) *(4) by (auto simp: matching_def rematch_free_def)
  ultimately show ?case using 2(1)[OF 2(2) x(1)] by simp
next
  case (4 prior first before partner after)
  show ?case
  proof (cases "(first, partner) \<in> prior")
    case True
    with 4(5,6) have "partner' \<in> set after" by auto
    moreover have "matching prior (mset (before @ [partner]) + mset after - {#partner'#}) pairs" using 4(7) by (simp add: ac_simps)
    ultimately show ?thesis using 4(1)[OF _ 4(4) _ 4(6)] True by simp
  next
    case False
    show ?thesis
    proof (cases "pair_pool prior False (before @ after)")
      case (Some ps)
      with False show ?thesis by simp
    next
      case None
      have "partner' \<noteq> partner"
      proof
        assume "partner' = partner"
        with 4(7) have "matching prior (mset (before @ after)) pairs" by simp
        with 4(2)[OF _ 4(4)] False None show False by simp
      qed
      with 4(5) have "partner' \<in> set after" by auto
      moreover have "matching prior (mset (before @ [partner]) + mset after - {#partner'#}) pairs" using 4(7) by (simp add: ac_simps)
      ultimately show ?thesis using 4(3)[OF _ None 4(4) _ 4(6)] False None by simp
    qed
  qed
qed simp_all

section \<open>Swiss rounds\<close>

lemma bracket_fold:
  "concat (fst (foldl add_to_brackets (brackets, cur) ps)) = concat brackets @ map (\<lambda>(p, w, i). (p, i)) ps"
  if "cur \<noteq> None \<Longrightarrow> brackets \<noteq> []"
  using that
proof (induction ps arbitrary: brackets cur)
  case (Cons x ps)
  obtain p w i where x: "x = (p, w, i)" by (cases x)
  show ?case
  proof (cases "cur \<noteq> Some w")
    case True
    with Cons.IH[of "Some w" "brackets @ [[(p, i)]]"] x show ?thesis by (simp add: add_to_brackets_def)
  next
    case False
    with Cons.prems have ne: "brackets \<noteq> []" by auto
    then have "concat brackets = concat (butlast brackets) @ last brackets"
      by (metis append_butlast_last_id concat.simps concat_append append_Nil2)
    with False Cons.IH[of cur "butlast brackets @ [last brackets @ [(p, i)]]"] x show ?thesis
      by (simp add: add_to_brackets_def)
  qed
qed simp

lemma win_brackets_concat: "concat (win_brackets ps) = map (\<lambda>(p, w, i). (p, i)) ps"
  using bracket_fold[of None "[]" ps] by (simp add: win_brackets_def)

lemma shuffle_all_mset:
  assumes "permutes shuffle"
  shows "mset (concat (shuffle_all shuffle rng bs)) = mset (concat bs)"
proof (induction bs arbitrary: rng)
  case (Cons b bs)
  have "mset (fst (shuffle rng b)) = mset b" using assms by (simp add: permutes_def)
  with Cons show ?case by (cases "shuffle rng b") simp
qed simp

definition seat_players :: "draft_session \<Rightarrow> player_id list" where
  "seat_players s = map (seat_player_id (ds_seats s)) [0..<length (ds_seats s)]"

lemma swiss_pool_mset:
  assumes "permutes shuffle" "length (ds_seats s) < 256"
  shows "mset (swiss_pool shuffle rng s) = mset (seat_players s)"
proof -
  let ?ps = "sort_key (\<lambda>(_, wins, _). - int wins) (players_with_wins s)"
  have "mset (swiss_pool shuffle rng s) = image_mset fst (mset (concat (win_brackets ?ps)))"
    using shuffle_all_mset[OF assms(1)] by (simp add: swiss_pool_def Let_def flip: mset_map)
      (metis mset_map)
  also have "\<dots> = image_mset fst (mset (players_with_wins s))"
    by (simp add: win_brackets_concat image_mset.compositionality o_def split_beta)
  also have "\<dots> = mset (seat_players s)"
    using assms(2) by (auto simp: players_with_wins_def seat_players_def Let_def image_mset.compositionality o_def
        intro!: image_mset_cong)
  finally show ?thesis .
qed

lemma find_bye_Some:
  "find_bye prior pool is = Some (pairs, c) \<Longrightarrow>
     \<exists>i\<in>set is. pair_pool prior False (remove_at i pool) = Some pairs \<and> c = pool ! i"
  by (induction "is") (auto split: option.splits)

lemma find_bye_None:
  "find_bye prior pool is = None \<Longrightarrow> i \<in> set is \<Longrightarrow> pair_pool prior False (remove_at i pool) = None"
  by (induction "is") (auto split: option.splits)

definition bye_mset :: "'a option \<Rightarrow> 'a multiset" where
  "bye_mset bye = (case bye of None \<Rightarrow> {#} | Some p \<Rightarrow> {#p#})"

lemma size_players_of: "size (players_of pairs) = 2 * length pairs"
  by (induction pairs) auto

lemma pair_or_rematch_mset: "even (length pool) \<Longrightarrow> players_of (pair_or_rematch prior pool) = mset pool"
  using pair_pool_rematch_total[of pool prior] pair_pool_sound(1)[of prior True pool]
  by (auto simp: pair_or_rematch_def)

lemma pair_swiss_pool_mset:
  assumes "pair_swiss_pool prior pool = (pairs, bye)"
  shows "players_of pairs + bye_mset bye = mset pool \<and> (bye = None \<longleftrightarrow> even (length pool))"
proof (cases "even (length pool)")
  case True
  with assms show ?thesis
    using pair_pool_sound(1)[of prior False pool] pair_or_rematch_mset[OF True, of prior]
    by (auto simp: pair_swiss_pool_def bye_mset_def split: option.splits)
next
  case False
  show ?thesis
  proof (cases "find_bye prior pool (rev [0..<length pool])")
    case None
    have "even (length (butlast pool))" "pool \<noteq> []" using False by auto
    moreover from this have "mset pool = mset (butlast pool) + {#last pool#}"
      by (metis append_butlast_last_id mset.simps(1) mset.simps(2) mset_append)
    ultimately show ?thesis
      using None False assms pair_or_rematch_mset[of "butlast pool" prior]
      by (auto simp: pair_swiss_pool_def bye_mset_def)
  next
    case (Some pc)
    obtain ps c where pc: "pc = (ps, c)" by (cases pc)
    with find_bye_Some[of prior pool "rev [0..<length pool]" ps c] Some obtain i where i: "i < length pool"
      "pair_pool prior False (remove_at i pool) = Some ps" "c = pool ! i" by auto
    with pair_pool_sound(1)[OF i(2)] mset_remove_at_add[OF i(1)] Some pc False assms show ?thesis
      by (auto simp: pair_swiss_pool_def bye_mset_def)
  qed
qed

lemma pair_swiss_pool_avoids:
  assumes "pair_swiss_pool prior pool = (pairs, bye)" "symp_on UNIV (\<lambda>a b. (a, b) \<in> prior)"
    and "players_of M + bye_mset b = mset pool" "rematch_free prior M"
  shows "rematch_free prior pairs"
proof (cases b)
  case None
  with assms(3,4) have m: "matching prior (mset pool) M" by (simp add: matching_def bye_mset_def)
  have "length pool = 2 * length M" using assms(3) None size_players_of[of M] by (metis add.right_neutral bye_mset_def option.simps(4) size_mset)
  then have "even (length pool)" by simp
  with pair_pool_complete(1)[OF assms(2) m] pair_pool_sound(1)[of prior False pool] assms(1) show ?thesis
    by (auto simp: pair_swiss_pool_def split: option.splits)
next
  case (Some p)
  with assms(3) have "mset pool = add_mset p (players_of M)" by (simp add: bye_mset_def)
  moreover from this have "size (mset pool) = Suc (2 * length M)" by (simp add: size_players_of)
  then have odd: "odd (length pool)" by simp
  ultimately have "p \<in> set pool" by (metis set_mset_mset union_single_eq_member)
  then obtain i where i: "i < length pool" "pool ! i = p" by (auto simp: in_set_conv_nth)
  with \<open>mset pool = add_mset p (players_of M)\<close> mset_remove_at[OF i(1)] assms(4)
  have "matching prior (mset (remove_at i pool)) M" by (simp add: matching_def)
  from pair_pool_complete(1)[OF assms(2) this] have "find_bye prior pool (rev [0..<length pool]) \<noteq> None"
    using find_bye_None[of prior pool "rev [0..<length pool]" i] i(1) by (metis atLeast0LessThan lessThan_iff set_rev set_upt)
  then obtain ps c where f: "find_bye prior pool (rev [0..<length pool]) = Some (ps, c)" by (metis option.exhaust prod.exhaust)
  with find_bye_Some[OF f] pair_pool_sound(1)[of prior False _ ps] assms(1) odd show ?thesis
    by (auto simp: pair_swiss_pool_def)
qed

lemma prior_pairs_sym: "symp_on UNIV (\<lambda>a b. (a, b) \<in> prior_pairs s)"
proof -
  have "(a, b) \<in> prior_pairs s \<longleftrightarrow> (\<exists>p\<in>set (ds_pairings s). pg_players p = (a, b) \<or> pg_players p = (b, a))" for a b
    by (auto simp: prior_pairs_def prod_eq_iff)
  then show ?thesis by (auto simp: symp_on_def)
qed

section \<open>Match ids\<close>

definition match_id :: "nat \<Rightarrow> nat \<Rightarrow> string" where
  "match_id rnd table = ''r'' @ show_nat rnd @ ''-t'' @ show_nat table"

lemma match_id_inject: "match_id r t = match_id r' t' \<longleftrightarrow> r = r' \<and> t = t'"
  by (auto simp: match_id_def show_nat_dash show_nat_inject)

lemma mk_pairing_simps [simp]:
  "pg_round (mk_pairing rnd e) = rnd"
  "pg_players (mk_pairing rnd e) = snd e"
  "pg_match_id (mk_pairing rnd e) = match_id rnd (fst e)"
  "pg_status (mk_pairing rnd e) = PairingPending"
  "pg_winner (mk_pairing rnd e) = None"
  by (simp_all add: mk_pairing_def match_id_def split: prod.splits)

lemma distinct_match_ids: "distinct (map (\<lambda>e. pg_match_id (mk_pairing rnd e)) (List.enumerate 0 xs))"
proof -
  have "distinct (map (match_id rnd) (map fst (List.enumerate 0 xs)))"
    by (simp add: distinct_map inj_on_def match_id_inject)
  moreover have "map (match_id rnd) (map fst (List.enumerate 0 xs))
      = map (\<lambda>e. pg_match_id (mk_pairing rnd e)) (List.enumerate 0 xs)"
    unfolding map_map by (rule map_cong) simp_all
  ultimately show ?thesis by simp
qed

text \<open>
  C11. Swiss rounds. Whatever permutation the shuffle is, a Swiss round pairs every seated player
  exactly once, except one player with a bye when their number is odd; its match ids are distinct;
  and whenever some assignment of the round without a rematch exists, the round has no rematch.
\<close>

theorem swiss_round_correct:
  assumes "generate_swiss_pairings shuffle rng s rnd = (pairings, bye)"
    and "permutes shuffle" "length (ds_seats s) < 256"
  shows "players_of (map pg_players pairings) + bye_mset bye = mset (seat_players s)
    \<and> (bye \<noteq> None \<longleftrightarrow> odd (length (ds_seats s)))
    \<and> distinct (map pg_match_id pairings)
    \<and> ((\<exists>M b. players_of M + bye_mset b = mset (seat_players s) \<and> rematch_free (prior_pairs s) M)
         \<longrightarrow> rematch_free (prior_pairs s) (map pg_players pairings))"
proof -
  let ?pool = "swiss_pool shuffle rng s"
  obtain paired where p: "pair_swiss_pool (prior_pairs s) ?pool = (paired, bye)"
    "pairings = map (mk_pairing rnd) (List.enumerate 0 paired)"
    using assms(1) by (auto simp: generate_swiss_pairings_def split: prod.splits)
  have players: "map pg_players pairings = paired" by (simp add: p(2) o_def)
  have pool: "mset ?pool = mset (seat_players s)" by (rule swiss_pool_mset[OF assms(2,3)])
  then have "length ?pool = length (ds_seats s)" by (metis length_map length_upt minus_nat.diff_0 seat_players_def size_mset)
  moreover have "distinct (map pg_match_id pairings)" using distinct_match_ids[of rnd paired] by (simp add: p(2) o_def)
  ultimately show ?thesis
    using pair_swiss_pool_mset[OF p(1)] pair_swiss_pool_avoids[OF p(1) prior_pairs_sym] pool players by auto
qed

theorem swiss_round_correct_witness:
  "let pairings = fst (generate_swiss_pairings (\<lambda>rng xs. (rev xs, rng)) () (sample_session Premier 4) 1)
   in players_of (map pg_players pairings) = mset (seat_players (sample_session Premier 4)) \<and> distinct (map pg_match_id pairings)"
proof -
  have "permutes (\<lambda>(rng :: unit) (xs :: (player_id \<times> nat) list). (rev xs, rng))" by (simp add: permutes_def)
  moreover have "length (ds_seats (sample_session Premier 4)) = 4" by (simp add: sample_defs)
  ultimately show ?thesis
    using swiss_round_correct[of "\<lambda>rng xs. (rev xs, rng)" "()" "sample_session Premier 4" 1, OF prod.collapse[symmetric]]
    by (auto simp: Let_def bye_mset_def)
qed

section \<open>Applying and undoing results\<close>

definition record_of :: "match_records \<Rightarrow> player_id \<Rightarrow> draft_match_record" where
  "record_of records p = (case fmlookup records p of None \<Rightarrow> empty_record p | Some r \<Rightarrow> r)"

definition bounded_record :: "draft_match_record \<Rightarrow> bool" where
  "bounded_record r \<longleftrightarrow> mr_wins r < 255 \<and> mr_losses r < 255 \<and> mr_draws r < 255 \<and> mr_match_wins r < 255
     \<and> mr_match_losses r < 255"

lemma unrecord_record:
  "bounded_record r \<Longrightarrow> unrecord_win (record_win r) = r"
  "bounded_record r \<Longrightarrow> unrecord_loss (record_loss r) = r"
  "bounded_record r \<Longrightarrow> unrecord_draw (record_draw r) = r"
  by (simp_all add: bounded_record_def unrecord_win_def record_win_def unrecord_loss_def record_loss_def
      unrecord_draw_def record_draw_def)

lemma fmlookup_ensure:
  "fmlookup (ensure_match_record p f records) q = (if q = p then Some (f (record_of records p)) else fmlookup records q)"
  by (simp add: ensure_match_record_def record_of_def)

lemma fmlookup_get:
  "fmlookup (get_match_record p f records) q = (if q = p then map_option f (fmlookup records p) else fmlookup records q)"
  by (simp add: get_match_record_def split: option.splits)

text \<open>The effect of a result on one player's record.\<close>

definition result_effect ::
  "player_id \<times> player_id \<Rightarrow> player_id option \<Rightarrow> player_id \<Rightarrow> draft_match_record \<Rightarrow> draft_match_record" where
  "result_effect players winner p =
     (if p \<noteq> fst players \<and> p \<noteq> snd players then (\<lambda>r. r)
      else case winner of None \<Rightarrow> record_draw | Some w \<Rightarrow> if p = w then record_win else record_loss)"

definition undo_effect ::
  "player_id \<times> player_id \<Rightarrow> player_id option \<Rightarrow> player_id \<Rightarrow> draft_match_record \<Rightarrow> draft_match_record" where
  "undo_effect players winner p =
     (if p \<noteq> fst players \<and> p \<noteq> snd players then (\<lambda>r. r)
      else case winner of None \<Rightarrow> unrecord_draw | Some w \<Rightarrow> if p = w then unrecord_win else unrecord_loss)"

definition valid_winner :: "player_id \<times> player_id \<Rightarrow> player_id option \<Rightarrow> bool" where
  "valid_winner players winner \<longleftrightarrow>
     fst players \<noteq> snd players \<and> (\<forall>w. winner = Some w \<longrightarrow> w = fst players \<or> w = snd players)"

lemma record_of_ensure:
  "record_of (ensure_match_record p f records) q = (if q = p then f (record_of records p) else record_of records q)"
  by (simp add: record_of_def fmlookup_ensure)

lemma valid_winner_cases:
  assumes "valid_winner players winner"
  obtains a b where "players = (a, b)" "a \<noteq> b" "winner = None"
  | a b where "players = (a, b)" "a \<noteq> b" "winner = Some a"
  | a b where "players = (a, b)" "a \<noteq> b" "winner = Some b"
  using assms by (cases players; cases winner) (auto simp: valid_winner_def)

lemma apply_result_lookup:
  assumes "valid_winner players winner"
  shows "fmlookup (apply_match_record_result records players winner) p =
     (if p = fst players \<or> p = snd players then Some (result_effect players winner p (record_of records p))
      else fmlookup records p)"
  using assms
  by (cases rule: valid_winner_cases)
    (simp_all add: apply_match_record_result_def fmlookup_ensure record_of_ensure result_effect_def loser_of_def)

lemma undo_result_lookup:
  assumes "valid_winner players winner"
  shows "fmlookup (undo_match_record_result records players winner) p =
     map_option (undo_effect players winner p) (fmlookup records p)"
  using assms
  by (cases rule: valid_winner_cases)
    (simp_all add: undo_match_record_result_def fmlookup_get undo_effect_def loser_of_def option.map_ident)

lemma undo_effect_inverse: "bounded_record r \<Longrightarrow> undo_effect players winner p (result_effect players winner p r) = r"
  by (simp add: undo_effect_def result_effect_def unrecord_record split: option.splits)

lemma empty_record_bounded [simp]: "bounded_record (empty_record p)"
  by (simp add: bounded_record_def empty_record_def)

lemma undo_apply_record_of:
  assumes "valid_winner players winner" "\<And>p. bounded_record (record_of records p)"
  shows "record_of (undo_match_record_result (apply_match_record_result records players winner) players winner) p
    = record_of records p"
proof -
  let ?applied = "apply_match_record_result records players winner"
  have lookup: "fmlookup (undo_match_record_result ?applied players winner) p
      = map_option (undo_effect players winner p) (fmlookup ?applied p)"
    by (rule undo_result_lookup[OF assms(1)])
  show ?thesis
  proof (cases "p = fst players \<or> p = snd players")
    case True
    then have "fmlookup ?applied p = Some (result_effect players winner p (record_of records p))"
      by (simp add: apply_result_lookup[OF assms(1)])
    with lookup show ?thesis using undo_effect_inverse[OF assms(2)[of p]] by (simp add: record_of_def[of "undo_match_record_result _ _ _"])
  next
    case False
    then show ?thesis using lookup
      by (simp add: apply_result_lookup[OF assms(1)] undo_effect_def record_of_def option.map_ident)
  qed
qed

text \<open>
  C13. Undoing a result. Undoing a match result right after applying it restores every player's
  record, wins, losses and draws alike, as long as no counter was at its eight-bit maximum.
\<close>

theorem undo_inverts_apply:
  assumes "valid_winner players winner" "\<And>p. bounded_record (record_of records p)"
  shows "record_of (undo_match_record_result (apply_match_record_result records players winner) players winner) p
    = record_of records p"
  using undo_apply_record_of[OF assms] .

theorem undo_inverts_apply_witness:
  "record_of (undo_match_record_result (apply_match_record_result fmempty (PlayerId 0, PlayerId 1) (Some (PlayerId 1)))
     (PlayerId 0, PlayerId 1) (Some (PlayerId 1))) (PlayerId 0) = empty_record (PlayerId 0)"
  by (subst undo_inverts_apply) (simp_all add: valid_winner_def record_of_def)

lemma record_result_pairing:
  assumes "idx < length (ds_pairings s)" "pg_status (ds_pairings s ! idx) \<noteq> PairingComplete"
  shows "record_result s idx winner =
     s\<lparr>ds_pairings := (ds_pairings s)[idx := (ds_pairings s ! idx)\<lparr>pg_status := PairingComplete, pg_winner := winner\<rparr>],
       ds_match_records := apply_match_record_result (ds_match_records s) (pg_players (ds_pairings s ! idx)) winner\<rparr>"
  using assms by (simp add: record_result_def Let_def)

text \<open>
  Correcting a decided match. Reporting a winner for a pending match and then reporting
  another result for it leaves the same pairings and the same records as reporting only the
  second result: the correction replaces the first report.
\<close>

lemma correcting_a_win_replaces_it:
  assumes "idx < length (ds_pairings s)" "pg_status (ds_pairings s ! idx) \<noteq> PairingComplete"
    and "valid_winner (pg_players (ds_pairings s ! idx)) (Some w)"
    and "valid_winner (pg_players (ds_pairings s ! idx)) second"
    and "\<And>p. bounded_record (record_of (ds_match_records s) p)"
  shows "ds_pairings (record_result (record_result s idx (Some w)) idx second)
      = ds_pairings (record_result s idx second)
    \<and> fmlookup (ds_match_records (record_result (record_result s idx (Some w)) idx second)) p
      = fmlookup (ds_match_records (record_result s idx second)) p"
proof -
  let ?players = "pg_players (ds_pairings s ! idx)" and ?records = "ds_match_records s"
  let ?s1 = "record_result s idx (Some w)"
  have s1: "ds_pairings ?s1 ! idx = (ds_pairings s ! idx)\<lparr>pg_status := PairingComplete, pg_winner := Some w\<rparr>"
    "ds_match_records ?s1 = apply_match_record_result ?records ?players (Some w)"
    using assms(1) by (simp_all add: record_result_pairing[OF assms(1,2)])
  have "result_winner (ds_pairings ?s1 ! idx) (ds_match_records ?s1) = Some w"
    by (simp add: s1(1) result_winner_def)
  then have rec: "ds_match_records (record_result ?s1 idx second) =
      apply_match_record_result (undo_match_record_result (apply_match_record_result ?records ?players (Some w))
        ?players (Some w)) ?players second"
    using s1 by (simp add: record_result_def[of ?s1] Let_def)
  let ?undone = "undo_match_record_result (apply_match_record_result ?records ?players (Some w)) ?players (Some w)"
  have same: "record_of ?undone q = record_of ?records q" for q by (rule undo_apply_record_of[OF assms(3,5)])
  have "fmlookup ?undone q = fmlookup ?records q" if "q \<noteq> fst ?players" "q \<noteq> snd ?players" for q
    using that by (simp add: undo_result_lookup[OF assms(3)] apply_result_lookup[OF assms(3)] undo_effect_def option.map_ident)
  then have "fmlookup (ds_match_records (record_result ?s1 idx second)) p
      = fmlookup (ds_match_records (record_result s idx second)) p"
    unfolding rec record_result_pairing[OF assms(1,2), of second] by (simp add: apply_result_lookup[OF assms(4)] same)
  moreover have "ds_pairings (record_result ?s1 idx second) = ds_pairings (record_result s idx second)"
    using assms(1) by (simp add: record_result_pairing[OF assms(1,2)]) (simp add: record_result_def Let_def)
  ultimately show ?thesis by blast
qed

definition sample_match :: draft_session where
  "sample_match = (sample_session Premier 2)\<lparr>ds_status := MatchInProgress, ds_current_round := 2,
     ds_pairings := [mk_pairing 2 (0, PlayerId 0, PlayerId 1)],
     ds_match_records := fmap_of_list
       [(PlayerId 0, (empty_record (PlayerId 0))\<lparr>mr_match_wins := 1, mr_wins := 1\<rparr>),
        (PlayerId 1, (empty_record (PlayerId 1))\<lparr>mr_match_losses := 1, mr_losses := 1\<rparr>)]\<rparr>"

lemma sample_match_simps:
  "ds_pairings sample_match = [mk_pairing 2 (0, PlayerId 0, PlayerId 1)]"
  "fmlookup (ds_match_records sample_match) (PlayerId 0) = Some ((empty_record (PlayerId 0))\<lparr>mr_match_wins := 1, mr_wins := 1\<rparr>)"
  "fmlookup (ds_match_records sample_match) (PlayerId 1) = Some ((empty_record (PlayerId 1))\<lparr>mr_match_losses := 1, mr_losses := 1\<rparr>)"
  by (simp_all add: sample_match_def fmlookup_of_list)

lemma sample_match_bounded: "bounded_record (record_of (ds_match_records sample_match) p)"
  by (simp add: record_of_def sample_match_def fmlookup_of_list bounded_record_def empty_record_def)

text \<open>
  C14. Correcting a draw does not replace it. When a pending match is reported as a draw and the
  result is then corrected to a win of the player who trails in match wins, the draw stays on both
  records and the leading player loses a match win earned in an earlier round; reporting the win
  directly would have left that player's match wins and draws alone.
\<close>

theorem correcting_a_draw_takes_a_win:
  assumes "idx < length (ds_pairings s)" "pg_status (ds_pairings s ! idx) \<noteq> PairingComplete"
    and "pg_players (ds_pairings s ! idx) = (a, b)" "a \<noteq> b"
    and "fmlookup (ds_match_records s) a = Some ra" "fmlookup (ds_match_records s) b = Some rb"
    and "mr_match_wins rb < mr_match_wins ra" "bounded_record ra"
  shows "\<exists>corrected direct.
      fmlookup (ds_match_records (record_result (record_result s idx None) idx (Some b))) a = Some corrected
    \<and> fmlookup (ds_match_records (record_result s idx (Some b))) a = Some direct
    \<and> mr_match_wins corrected = mr_match_wins ra - 1 \<and> mr_draws corrected = mr_draws ra + 1
    \<and> mr_match_wins direct = mr_match_wins ra \<and> mr_draws direct = mr_draws ra"
proof -
  let ?s1 = "record_result s idx None"
  have valid: "valid_winner (a, b) None" "valid_winner (a, b) (Some a)" "valid_winner (a, b) (Some b)"
    using assms(4) by (auto simp: valid_winner_def)
  have s1: "ds_pairings ?s1 ! idx = (ds_pairings s ! idx)\<lparr>pg_status := PairingComplete, pg_winner := None\<rparr>"
    "ds_match_records ?s1 = apply_match_record_result (ds_match_records s) (a, b) None"
    using assms(1,3) by (simp_all add: record_result_pairing[OF assms(1,2)])
  have la: "fmlookup (ds_match_records ?s1) a = Some (record_draw ra)" "fmlookup (ds_match_records ?s1) b = Some (record_draw rb)"
    using assms(4,5,6) by (simp_all add: s1(2) apply_result_lookup[OF valid(1)] result_effect_def record_of_def)
  then have "result_winner (ds_pairings ?s1 ! idx) (ds_match_records ?s1) = Some a"
    using assms(3,7) by (simp add: s1(1) result_winner_def infer_winner_from_records_def match_wins_of_def record_draw_def)
  then have "ds_match_records (record_result ?s1 idx (Some b)) =
      apply_match_record_result (undo_match_record_result (ds_match_records ?s1) (a, b) (Some a)) (a, b) (Some b)"
    using s1(1) assms(3) by (simp add: record_result_def[of ?s1] Let_def)
  then have "fmlookup (ds_match_records (record_result ?s1 idx (Some b))) a
      = Some (record_loss (unrecord_win (record_draw ra)))"
    using la(1) assms(4)
    by (simp add: apply_result_lookup[OF valid(3)] undo_result_lookup[OF valid(2)] result_effect_def undo_effect_def record_of_def)
  moreover have "fmlookup (ds_match_records (record_result s idx (Some b))) a = Some (record_loss ra)"
    using assms(3,4,5) by (simp add: record_result_pairing[OF assms(1,2)] apply_result_lookup[OF valid(3)]
        result_effect_def record_of_def)
  ultimately show ?thesis
    using assms(8) by (simp add: record_loss_def unrecord_win_def record_draw_def bounded_record_def)
qed

theorem correcting_a_draw_takes_a_win_witness:
  "\<exists>r. fmlookup (ds_match_records (record_result (record_result sample_match 0 None) 0 (Some (PlayerId 1)))) (PlayerId 0) = Some r
     \<and> mr_match_wins r = 0 \<and> mr_draws r = 1"
  using correcting_a_draw_takes_a_win[of 0 sample_match "PlayerId 0" "PlayerId 1", OF _ _ _ _ sample_match_simps(2,3)]
  by (auto simp: sample_match_simps(1) empty_record_def bounded_record_def)

section \<open>The tournament as a reducer\<close>

datatype tournament_action = Generate | Report string "nat option" | Advance

fun tournament_step ::
  "(nat \<Rightarrow> 'r) \<Rightarrow> ('r \<Rightarrow> (player_id \<times> nat) list \<Rightarrow> (player_id \<times> nat) list \<times> 'r)
   \<Rightarrow> draft_session \<Rightarrow> tournament_action \<Rightarrow> session_step" where
  "tournament_step seed_from shuffle s Generate = apply_generate_pairings seed_from shuffle s"
| "tournament_step seed_from shuffle s (Report mid winner) = apply_report_match_result s mid winner"
| "tournament_step seed_from shuffle s Advance = apply_advance_round s"

definition round_size :: "draft_session \<Rightarrow> nat \<Rightarrow> nat" where
  "round_size s rnd = length (filter (\<lambda>p. pg_round p = rnd) (ds_pairings s))"

definition pairing_ids_ok :: "draft_session \<Rightarrow> bool" where
  "pairing_ids_ok s \<longleftrightarrow> distinct (map pg_match_id (ds_pairings s))
     \<and> (\<forall>p\<in>set (ds_pairings s). 1 \<le> pg_round p \<and> pg_round p \<le> ds_current_round s
          \<and> (\<exists>t. pg_match_id p = match_id (pg_round p) t))"

definition between_rounds :: "draft_session \<Rightarrow> bool" where
  "between_rounds s \<longleftrightarrow> ds_status s = Pairing \<or> ds_status s = RoundComplete"

definition rounds_bounded :: "draft_session \<Rightarrow> bool" where
  "rounds_bounded s \<longleftrightarrow>
     (ds_status s = Deckbuilding \<longrightarrow> ds_current_round s = 0)
     \<and> (case cf_tournament_format (ds_config s) of
          Swiss \<Rightarrow> ds_current_round s \<le> SWISS_ROUNDS
            \<and> (between_rounds s \<longrightarrow> ds_current_round s < SWISS_ROUNDS)
        | SingleElimination \<Rightarrow> ds_current_round s \<le> 7
            \<and> (1 \<le> ds_current_round s \<longrightarrow>
                 2 ^ ds_current_round s * round_size s (ds_current_round s) \<le> length (ds_seats s))
            \<and> (between_rounds s \<longrightarrow> 2 \<le> round_size s (ds_current_round s)))"

text \<open>A bracket of a single-elimination tournament at most halves from each round to the next.\<close>

definition bracket_halves :: "draft_session \<Rightarrow> bool" where
  "bracket_halves s \<longleftrightarrow> (cf_tournament_format (ds_config s) = SingleElimination \<longrightarrow>
     (\<forall>r. 1 \<le> r \<and> r \<le> ds_current_round s \<longrightarrow>
        2 * round_size s r \<le> (if r = 1 then length (ds_seats s) else round_size s (r - 1))))"

definition tournament_inv :: "draft_session \<Rightarrow> bool" where
  "tournament_inv s \<longleftrightarrow> length (ds_seats s) < 256 \<and> pairing_ids_ok s \<and> rounds_bounded s \<and> bracket_halves s"

lemma bracket_halves_status [simp]: "bracket_halves (s\<lparr>ds_status := x\<rparr>) = bracket_halves s"
  by (simp add: bracket_halves_def round_size_def)

lemma round_size_append_new:
  assumes "\<forall>p\<in>set (ds_pairings s). pg_round p < rnd"
  shows "round_size (s\<lparr>ds_pairings := ds_pairings s @ map (mk_pairing rnd) xs, ds_match_records := r,
      ds_status := st, ds_current_round := c\<rparr>) rnd = length xs"
  using assms by (auto simp: round_size_def filter_empty_conv)

lemma round_size_append_old:
  "r \<noteq> rnd \<Longrightarrow> round_size (s\<lparr>ds_pairings := ds_pairings s @ map (mk_pairing rnd) xs, ds_match_records := recs,
      ds_status := st, ds_current_round := c\<rparr>) r = round_size s r"
  by (auto simp: round_size_def filter_empty_conv)

lemma pairing_ids_append_new:
  assumes "pairing_ids_ok s" "rnd = ds_current_round s + 1"
  shows "pairing_ids_ok (s\<lparr>ds_pairings := ds_pairings s @ map (mk_pairing rnd) (List.enumerate 0 xs),
      ds_match_records := r, ds_status := st, ds_current_round := rnd\<rparr>)"
proof -
  have "pg_match_id p \<noteq> match_id rnd t" if "p \<in> set (ds_pairings s)" for p t
    using that assms by (auto simp: pairing_ids_ok_def match_id_inject)
  then have "set (map pg_match_id (ds_pairings s)) \<inter> set (map (\<lambda>e. pg_match_id (mk_pairing rnd e)) (List.enumerate 0 xs)) = {}"
    by auto
  with assms distinct_match_ids[of rnd xs] show ?thesis
    by (fastforce simp: pairing_ids_ok_def o_def)
qed

lemma adjacent_length: "length (adjacent xs) = length xs div 2"
  by (induction xs rule: adjacent.induct) auto

lemma filter_imp_length: "length (filter (\<lambda>x. P x \<and> Q x) xs) \<le> length (filter P xs)"
  by (induction xs) auto

lemma map_filter_length: "length (List.map_filter f xs) \<le> length xs"
  by (induction xs) (auto simp: List.map_filter_simps split: option.split)

lemma se_pairings_form: "\<exists>xs. generate_se_pairings s rnd = map (mk_pairing rnd) (List.enumerate 0 xs)
    \<and> (if rnd = 1 then length xs = as_u8 (length (ds_seats s)) div 2
       else length xs \<le> round_size s (as_u8 (rnd + 255)) div 2)"
proof (cases "rnd = 1")
  case True
  then show ?thesis
    by (auto simp: generate_se_pairings_def Let_def intro!: exI[of _ "map (\<lambda>(a, b). (seat_player_id (ds_seats s) a, seat_player_id (ds_seats s) b))
        (map (\<lambda>i. (i, as_u8 (length (ds_seats s)) - 1 - i)) [0..<as_u8 (length (ds_seats s)) div 2])"])
next
  case False
  let ?prev = "filter (\<lambda>p. pg_round p = as_u8 (rnd + 255) \<and> pg_status p = PairingComplete) (ds_pairings s)"
  let ?winners = "List.map_filter (\<lambda>p. result_winner p (ds_match_records s)) ?prev"
  have "length ?winners \<le> length ?prev" by (rule map_filter_length)
  moreover have "length ?prev \<le> round_size s (as_u8 (rnd + 255))"
    unfolding round_size_def by (rule filter_imp_length)
  ultimately have "length (adjacent ?winners) \<le> round_size s (as_u8 (rnd + 255)) div 2"
    by (simp add: adjacent_length div_le_mono)
  with False show ?thesis by (auto simp: generate_se_pairings_def Let_def)
qed

lemma round_le_6:
  assumes "length (ds_seats s) < 256" "rounds_bounded s" "ds_status s = Deckbuilding \<or> between_rounds s"
  shows "ds_current_round s \<le> 6"
proof (cases "cf_tournament_format (ds_config s)")
  case Swiss
  with assms(2,3) show ?thesis by (auto simp: rounds_bounded_def SWISS_ROUNDS_def)
next
  case SingleElimination
  let ?c = "ds_current_round s"
  show ?thesis
  proof (rule ccontr)
    assume "\<not> ?c \<le> 6"
    with assms(2,3) SingleElimination have c: "?c = 7" "2 ^ ?c * round_size s ?c \<le> length (ds_seats s)" "2 \<le> round_size s ?c"
      by (auto simp: rounds_bounded_def)
    from c(3) have "2 ^ ?c * 2 \<le> 2 ^ ?c * round_size s ?c" by simp
    with c(1,2) assms(1) show False by simp
  qed
qed

lemma new_round_inv:
  fixes s :: draft_session
  defines "c \<equiv> ds_current_round s"
  assumes "tournament_inv s" "ds_status s = Deckbuilding \<or> between_rounds s" "ds_current_round s \<le> 6"
    and len: "cf_tournament_format (ds_config s) = SingleElimination \<Longrightarrow>
      (if ds_current_round s = 0 then length xs = length (ds_seats s) div 2
       else length xs \<le> round_size s (ds_current_round s) div 2)"
  shows "tournament_inv (s\<lparr>ds_pairings := ds_pairings s @ map (mk_pairing (ds_current_round s + 1)) (List.enumerate 0 xs),
     ds_match_records := recs, ds_status := MatchInProgress, ds_current_round := ds_current_round s + 1\<rparr>)"
proof -
  let ?c = "ds_current_round s" and ?n = "length (ds_seats s)"
  have ids: "pairing_ids_ok s" and n: "?n < 256" and rb: "rounds_bounded s"
    using assms(2) by (auto simp: tournament_inv_def)
  have old: "\<forall>p\<in>set (ds_pairings s). pg_round p < ?c + 1" using ids by (auto simp: pairing_ids_ok_def)
  let ?s' = "s\<lparr>ds_pairings := ds_pairings s @ map (mk_pairing (?c + 1)) (List.enumerate 0 xs), ds_match_records := recs,
        ds_status := MatchInProgress, ds_current_round := ?c + 1\<rparr>"
  have "rounds_bounded ?s'"
  proof (cases "cf_tournament_format (ds_config s)")
    case Swiss
    with rb assms(3) show ?thesis by (auto simp: rounds_bounded_def between_rounds_def SWISS_ROUNDS_def)
  next
    case SingleElimination
    have "round_size ?s' (?c + 1) = length xs" using round_size_append_new[OF old] by simp
    moreover have "2 ^ (?c + 1) * length xs \<le> ?n"
    proof (cases "?c = 0")
      case True
      with len[OF SingleElimination] show ?thesis by simp
    next
      case False
      with len[OF SingleElimination] have "2 * length xs \<le> round_size s ?c" by auto
      then have "2 ^ ?c * (2 * length xs) \<le> 2 ^ ?c * round_size s ?c" by simp
      also have "\<dots> \<le> ?n" using rb SingleElimination False by (auto simp: rounds_bounded_def)
      finally show ?thesis by (simp add: ac_simps)
    qed
    ultimately show ?thesis using SingleElimination assms(4) by (simp add: rounds_bounded_def between_rounds_def)
  qed
  moreover have "bracket_halves ?s'"
    unfolding bracket_halves_def
  proof (intro impI allI)
    fix r
    assume "cf_tournament_format (ds_config ?s') = SingleElimination" and r: "1 \<le> r \<and> r \<le> ds_current_round ?s'"
    then have se: "cf_tournament_format (ds_config s) = SingleElimination" by simp
    have halves: "bracket_halves s" using assms(2) by (simp add: tournament_inv_def)
    show "2 * round_size ?s' r \<le> (if r = 1 then length (ds_seats ?s') else round_size ?s' (r - 1))"
    proof (cases "r = ?c + 1")
      case True
      with len[OF se] round_size_append_new[OF old] show ?thesis
        by (auto simp: round_size_append_old split: if_splits)
    next
      case False
      with r halves se show ?thesis by (auto simp: bracket_halves_def round_size_append_old)
    qed
  qed
  ultimately show ?thesis using pairing_ids_append_new[OF ids refl] n by (simp add: tournament_inv_def)
qed

definition may_generate :: "draft_session \<Rightarrow> bool" where
  "may_generate s \<longleftrightarrow> (ds_status s = Deckbuilding \<or> between_rounds s)
     \<and> pr_post_draft_play (procedure (ds_kind s)) = TournamentPairings
     \<and> allows_pod_size (procedure (ds_kind s)) (cf_tournament_format (ds_config s)) (as_u8 (length (ds_seats s)))"

lemma generate_status:
  "(case ds_status s of Deckbuilding \<Rightarrow> True | Pairing \<Rightarrow> True | RoundComplete \<Rightarrow> True | _ \<Rightarrow> False)
     \<longleftrightarrow> ds_status s = Deckbuilding \<or> between_rounds s"
  by (auto simp: between_rounds_def split: draft_status.splits)

lemma generate_refused:
  "\<not> may_generate s \<Longrightarrow> \<not> is_ok (fst (apply_generate_pairings seed_from shuffle s))
     \<and> snd (apply_generate_pairings seed_from shuffle s) = s"
  unfolding apply_generate_pairings_def Let_def generate_status may_generate_def
  by (cases "ds_status s = Deckbuilding \<or> between_rounds s";
      cases "pr_post_draft_play (procedure (ds_kind s)) = TournamentPairings") simp_all

lemma generate_swiss:
  assumes "may_generate s" "cf_tournament_format (ds_config s) = Swiss"
  shows "\<exists>recs xs. is_ok (fst (apply_generate_pairings seed_from shuffle s)) \<and>
     snd (apply_generate_pairings seed_from shuffle s) =
       s\<lparr>ds_pairings := ds_pairings s @ map (mk_pairing (next_pairing_round s)) (List.enumerate 0 xs),
         ds_match_records := recs, ds_status := MatchInProgress, ds_current_round := next_pairing_round s\<rparr>"
  using assms unfolding apply_generate_pairings_def Let_def generate_status may_generate_def
  by (simp add: generate_swiss_pairings_def split_beta) blast

lemma generate_bracket:
  assumes "may_generate s" "cf_tournament_format (ds_config s) = SingleElimination"
  shows "is_ok (fst (apply_generate_pairings seed_from shuffle s)) \<and>
     snd (apply_generate_pairings seed_from shuffle s) =
       s\<lparr>ds_pairings := ds_pairings s @ generate_se_pairings s (next_pairing_round s),
         ds_match_records := ds_match_records s, ds_status := MatchInProgress, ds_current_round := next_pairing_round s\<rparr>"
  using assms unfolding apply_generate_pairings_def Let_def generate_status may_generate_def by simp

lemma generate_inv:
  assumes "tournament_inv s"
  shows "tournament_inv (snd (apply_generate_pairings seed_from shuffle s))" (is "tournament_inv ?t")
proof (cases "may_generate s")
  case False
  with generate_refused[OF False, of seed_from shuffle] assms show ?thesis by simp
next
  case True
  let ?c = "ds_current_round s" and ?n = "length (ds_seats s)"
  have ids: "pairing_ids_ok s" and n: "?n < 256" and rb: "rounds_bounded s" using assms by (auto simp: tournament_inv_def)
  have st: "ds_status s = Deckbuilding \<or> between_rounds s" using True by (simp add: may_generate_def)
  have c: "?c \<le> 6" by (rule round_le_6[OF n rb st])
  then have rnd: "next_pairing_round s = ?c + 1" by (simp add: next_pairing_round_def)
  show ?thesis
  proof (cases "cf_tournament_format (ds_config s)")
    case Swiss
    from generate_swiss[OF True Swiss, of seed_from shuffle, unfolded rnd] new_round_inv[OF assms st c] Swiss
    show ?thesis by auto
  next
    case SingleElimination
    from se_pairings_form[of s "?c + 1"] obtain xs where xs:
      "generate_se_pairings s (?c + 1) = map (mk_pairing (?c + 1)) (List.enumerate 0 xs)"
      "if ?c + 1 = 1 then length xs = as_u8 ?n div 2 else length xs \<le> round_size s (as_u8 (?c + 1 + 255)) div 2"
      by blast
    moreover have "as_u8 (?c + 1 + 255) = ?c" using c by (simp add: as_u8_def)
    ultimately have "if ?c = 0 then length xs = ?n div 2 else length xs \<le> round_size s ?c div 2"
      using n by (simp add: as_u8_def split: if_splits)
    from new_round_inv[OF assms st c this, of "ds_match_records s"] generate_bracket[OF True SingleElimination, of seed_from shuffle, unfolded rnd] xs(1)
    show ?thesis by (simp only: conjunct2)
  qed
qed

lemma record_result_simps [simp]:
  "ds_seats (record_result s i w) = ds_seats s" "ds_config (record_result s i w) = ds_config s"
  "ds_current_round (record_result s i w) = ds_current_round s" "ds_status (record_result s i w) = ds_status s"
  "map pg_match_id (ds_pairings (record_result s i w)) = map pg_match_id (ds_pairings s)"
  "map pg_round (ds_pairings (record_result s i w)) = map pg_round (ds_pairings s)"
  by (auto simp: record_result_def Let_def map_update list_update_same_conv intro: list_update_id)
    (metis list_update_id map_update nth_map list_update_beyond not_le length_map)+

lemma round_size_by_map: "round_size s r = length (filter (\<lambda>x. x = r) (map pg_round (ds_pairings s)))"
  by (simp add: round_size_def filter_map o_def)

lemma report_cases:
  assumes "snd (apply_report_match_result s mid w) \<noteq> s"
  obtains idx winner where "position (\<lambda>p. pg_match_id p = mid) (ds_pairings s) = Some idx"
      "pg_round (ds_pairings s ! idx) = ds_current_round s"
      "snd (apply_report_match_result s mid w) = snd (close_round (record_result s idx winner))"
      "ds_status s = MatchInProgress \<or> ds_status s = RoundComplete"
      "reported_winner s (ds_pairings s ! idx) w = Ok winner"
proof -
  from assms obtain idx where idx: "position (\<lambda>p. pg_match_id p = mid) (ds_pairings s) = Some idx"
    and st: "ds_status s = MatchInProgress \<or> ds_status s = RoundComplete"
    unfolding apply_report_match_result_def by (auto split: if_splits option.splits)
  with assms have rnd: "pg_round (ds_pairings s ! idx) = ds_current_round s"
    and no_draw: "\<not> (cf_tournament_format (ds_config s) = SingleElimination \<and> w = None)"
    unfolding apply_report_match_result_def Let_def by (auto split: if_splits)
  with assms idx st obtain winner where "reported_winner s (ds_pairings s ! idx) w = Ok winner"
    unfolding apply_report_match_result_def Let_def by (cases "reported_winner s (ds_pairings s ! idx) w") auto
  with assms idx st rnd no_draw show thesis
    by (intro that[of idx winner]) (auto simp: apply_report_match_result_def split_beta)
qed

lemma report_inv:
  assumes "tournament_inv s"
  shows "tournament_inv (snd (apply_report_match_result s mid w))"
proof (cases "snd (apply_report_match_result s mid w) = s")
  case True
  with assms show ?thesis by simp
next
  case False
  then obtain idx winner where idx: "position (\<lambda>p. pg_match_id p = mid) (ds_pairings s) = Some idx"
      "pg_round (ds_pairings s ! idx) = ds_current_round s"
      "snd (apply_report_match_result s mid w) = snd (close_round (record_result s idx winner))"
      "ds_status s = MatchInProgress \<or> ds_status s = RoundComplete"
    by (rule report_cases)
  let ?t = "record_result s idx winner"
  from position_Some[OF idx(1)] have "idx < length (ds_pairings s)" by simp
  then have "ds_pairings s ! idx \<in> set (filter (\<lambda>p. pg_round p = ds_current_round s) (ds_pairings s))"
    using idx(2) by simp
  then have pos: "1 \<le> round_size s (ds_current_round s)"
    unfolding round_size_def by (metis One_nat_def Suc_leI length_pos_if_in_set)
  have size: "round_size ?t r = round_size s r" for r by (simp add: round_size_by_map)
  have ids: "pairing_ids_ok ?t"
  proof -
    let ?P = "\<lambda>r m. 1 \<le> r \<and> r \<le> ds_current_round s \<and> (\<exists>t. m = match_id r t)"
    have zips: "(\<forall>p\<in>set xs. ?P (pg_round p) (pg_match_id p))
        \<longleftrightarrow> (\<forall>q\<in>set (zip (map pg_round xs) (map pg_match_id xs)). ?P (fst q) (snd q))" for xs
      by (simp add: zip_map_map zip_same_conv_map)
    from assms have "distinct (map pg_match_id (ds_pairings s))" "\<forall>p\<in>set (ds_pairings s). ?P (pg_round p) (pg_match_id p)"
      by (simp_all add: tournament_inv_def pairing_ids_ok_def)
    then show ?thesis unfolding pairing_ids_ok_def record_result_simps zips by simp
  qed
  have closed: "snd (close_round ?t) = ?t \<or> snd (close_round ?t) = ?t\<lparr>ds_status := Complete\<rparr>
      \<or> (snd (close_round ?t) = ?t\<lparr>ds_status := RoundComplete\<rparr>
         \<and> (case cf_tournament_format (ds_config s) of Swiss \<Rightarrow> ds_current_round s < SWISS_ROUNDS
            | SingleElimination \<Rightarrow> round_size s (ds_current_round s) \<noteq> 1))"
    using size by (auto simp: close_round_def Let_def round_size_def split: tournament_format.splits)
  have "rounds_bounded ?t" using assms size idx(4) by (auto simp: rounds_bounded_def tournament_inv_def between_rounds_def split: tournament_format.splits)
  moreover have "rounds_bounded (?t\<lparr>ds_status := Complete\<rparr>)"
    using assms size idx(4) by (auto simp: rounds_bounded_def tournament_inv_def between_rounds_def round_size_def split: tournament_format.splits)
  moreover have "rounds_bounded (?t\<lparr>ds_status := RoundComplete\<rparr>)"
    if "case cf_tournament_format (ds_config s) of Swiss \<Rightarrow> ds_current_round s < SWISS_ROUNDS
            | SingleElimination \<Rightarrow> round_size s (ds_current_round s) \<noteq> 1"
    using that assms size pos idx(4) by (auto simp: rounds_bounded_def tournament_inv_def between_rounds_def round_size_def split: tournament_format.splits)
  ultimately have "rounds_bounded (snd (close_round ?t))" using closed by auto
  moreover have "bracket_halves ?t"
    using assms unfolding tournament_inv_def bracket_halves_def record_result_simps size by blast
  then have "bracket_halves (snd (close_round ?t))" using closed by auto
  moreover have "pairing_ids_ok (snd (close_round ?t))" "length (ds_seats (snd (close_round ?t))) < 256"
    using ids closed assms by (auto simp: pairing_ids_ok_def tournament_inv_def)
  ultimately show ?thesis using idx(3) by (simp add: tournament_inv_def)
qed

lemma advance_inv: "tournament_inv s \<Longrightarrow> tournament_inv (snd (apply_advance_round s))"
  by (auto simp: apply_advance_round_def tournament_inv_def rounds_bounded_def pairing_ids_ok_def
      between_rounds_def round_size_def split: tournament_format.splits)

lemma generate_keeps:
  "ds_config (snd (apply_generate_pairings seed_from shuffle s)) = ds_config s
   \<and> ds_seats (snd (apply_generate_pairings seed_from shuffle s)) = ds_seats s"
proof (cases "may_generate s")
  case False
  with generate_refused[OF False, of seed_from shuffle] show ?thesis by simp
next
  case True
  show ?thesis
  proof (cases "cf_tournament_format (ds_config s)")
    case Swiss
    from generate_swiss[OF True Swiss, of seed_from shuffle] show ?thesis by auto
  next
    case SingleElimination
    from generate_bracket[OF True SingleElimination, of seed_from shuffle] show ?thesis by simp
  qed
qed

lemma report_keeps:
  "ds_config (snd (apply_report_match_result s mid w)) = ds_config s
   \<and> ds_seats (snd (apply_report_match_result s mid w)) = ds_seats s"
proof (cases "snd (apply_report_match_result s mid w) = s")
  case False
  then obtain idx winner where "snd (apply_report_match_result s mid w) = snd (close_round (record_result s idx winner))"
    by (rule report_cases)
  then show ?thesis by (simp add: close_round_def Let_def)
qed simp

interpretation tournament: conserving_reducer "tournament_step seed_from shuffle" tournament_inv
    "\<lambda>s. (ds_config s, ds_seats s)"
  for seed_from :: "nat \<Rightarrow> 'r" and shuffle
proof unfold_locales
  fix s a
  assume inv: "tournament_inv s"
  show "tournament_inv (snd (tournament_step seed_from shuffle s a))"
    using inv by (cases a) (simp_all add: generate_inv report_inv advance_inv)
  show "(ds_config (snd (tournament_step seed_from shuffle s a)), ds_seats (snd (tournament_step seed_from shuffle s a)))
      = (ds_config s, ds_seats s)"
    by (cases a) (simp_all add: generate_keeps report_keeps apply_advance_round_def)
qed

text \<open>
  C12. However pairings are generated, results reported (and re-reported) and rounds advanced after
  deck building, in any order: every match id names one pairing, a Swiss tournament has at most
  three rounds, the first round of a single-elimination bracket has at most half as many matches
  as there are seats and every later round at most half as many as the round before it; round $r$
  of a bracket of $n$ seats has at most $n / 2^r$ matches, so it has at most seven rounds. In
  particular the \<open>u8\<close> round counter never wraps.
\<close>

theorem tournament_bounded:
  assumes "ds_status s = Deckbuilding" "ds_current_round s = 0" "ds_pairings s = []" "length (ds_seats s) < 256"
    and "t = run (tournament_step seed_from shuffle) s actions"
  shows "distinct (map pg_match_id (ds_pairings t))
     \<and> (cf_tournament_format (ds_config s) = Swiss \<longrightarrow> ds_current_round t \<le> 3)
     \<and> (cf_tournament_format (ds_config s) = SingleElimination \<longrightarrow> ds_current_round t \<le> 7 \<and>
          (\<forall>r. 1 \<le> r \<and> r \<le> ds_current_round t \<longrightarrow>
             2 * round_size t r \<le> (if r = 1 then length (ds_seats s) else round_size t (r - 1))) \<and>
          (1 \<le> ds_current_round t \<longrightarrow>
             2 ^ ds_current_round t * round_size t (ds_current_round t) \<le> length (ds_seats s)))"
proof -
  have "tournament_inv s"
    using assms by (auto simp: tournament_inv_def pairing_ids_ok_def rounds_bounded_def between_rounds_def
        bracket_halves_def split: tournament_format.split)
  then have "tournament_inv t" and keeps: "ds_config t = ds_config s" "ds_seats t = ds_seats s"
    using tournament.run_inv[of s seed_from shuffle actions] tournament.run_content[of s seed_from shuffle actions] assms(5)
    by simp_all
  then have "distinct (map pg_match_id (ds_pairings t))" "rounds_bounded t" "bracket_halves t"
    by (simp_all add: tournament_inv_def pairing_ids_ok_def)
  then show ?thesis
    unfolding rounds_bounded_def bracket_halves_def keeps by (auto simp: SWISS_ROUNDS_def)
qed

definition sample_bracket :: draft_session where
  "sample_bracket = (sample_session Premier 8)\<lparr>ds_status := Deckbuilding,
     ds_config := (ds_config (sample_session Premier 8))\<lparr>cf_tournament_format := SingleElimination\<rparr>\<rparr>"

definition bracket_results :: "tournament_action list" where
  "bracket_results = [Report ''r1-t0'' (Some 0), Report ''r1-t1'' (Some 1), Report ''r1-t2'' (Some 5),
     Report ''r1-t3'' (Some 3), Advance]"

definition bracket_round1 :: draft_session where
  "bracket_round1 = sample_bracket\<lparr>ds_pairings := generate_se_pairings sample_bracket 1,
     ds_status := MatchInProgress, ds_current_round := 1\<rparr>"

abbreviation sample_step :: "draft_session \<Rightarrow> tournament_action \<Rightarrow> session_step" where
  "sample_step \<equiv> tournament_step (\<lambda>n. n) (\<lambda>rng xs. (xs, rng))"

lemma sample_bracket_start:
  "ds_status sample_bracket = Deckbuilding" "ds_current_round sample_bracket = 0" "ds_pairings sample_bracket = []"
  "length (ds_seats sample_bracket) = 8" "cf_tournament_format (ds_config sample_bracket) = SingleElimination"
  "may_generate sample_bracket"
  by code_simp+

lemma sample_bracket_round1: "snd (sample_step sample_bracket Generate) = bracket_round1"
  using generate_bracket[OF sample_bracket_start(6,5), of "\<lambda>n. n" "\<lambda>rng xs. (xs, rng)"]
  by (simp add: bracket_round1_def sample_bracket_start next_pairing_round_def)

lemma sample_bracket_round2:
  "may_generate (run sample_step bracket_round1 bracket_results)"
  "next_pairing_round (run sample_step bracket_round1 bracket_results) = 2"
  "cf_tournament_format (ds_config (run sample_step bracket_round1 bracket_results)) = SingleElimination"
  by code_simp+

lemma run_snoc: "run step s (as @ [a]) = snd (step (run step s as) a)"
  by (induction as arbitrary: s) auto

theorem tournament_bounded_witness:
  "\<exists>t. t = run sample_step sample_bracket (Generate # bracket_results @ [Generate])
     \<and> ds_current_round t = 2 \<and> 2 * round_size t 2 \<le> round_size t 1 \<and> 2 * round_size t 1 \<le> 8"
proof -
  let ?t = "run sample_step sample_bracket (Generate # bracket_results @ [Generate])"
  have "?t = snd (sample_step (run sample_step bracket_round1 bracket_results) Generate)"
    by (simp add: run_snoc sample_bracket_round1 del: tournament_step.simps)
  then have two: "ds_current_round ?t = 2"
    using generate_bracket[OF sample_bracket_round2(1,3), of "\<lambda>n. n" "\<lambda>rng xs. (xs, rng)"] sample_bracket_round2(2) by simp
  have "1 \<le> r \<and> r \<le> 2 \<longrightarrow> 2 * round_size ?t r \<le> (if r = 1 then 8 else round_size ?t (r - 1))" for r
    using tournament_bounded[OF sample_bracket_start(1-3) _ refl, of "\<lambda>n. n" "\<lambda>rng xs. (xs, rng)"
        "Generate # bracket_results @ [Generate]", unfolded sample_bracket_start two]
    by (simp del: run.simps)
  from this[of 1] this[of 2] two show ?thesis by (simp del: run.simps)
qed

end
