(* ===== verification/Shared_Stack.thy ===== *)
theory Shared_Stack
  imports Draft_Session
begin

text \<open>
  \<open>crates/draft-core/src/shared_stack.rs\<close>: Winston drafting from one shared face-down stack
  dealt through take-or-decline piles. \<open>refusal_for\<close> is the legality predicate,
  \<open>forced_decision\<close> the move a stalled seat is driven with, and
  \<open>apply_shared_stack_decision\<close> the whole reducer. The lemmas give the joint invariant the
  source states in prose (while the main stack lasts every pile holds a card; some pile at or
  after the cursor holds one; the inspected counts are prefixes up to the cursor), its
  preservation, card conservation, absence of panics, deadlock freedom and termination.
\<close>

section \<open>The reducer\<close>

definition piles_needed :: "nat \<Rightarrow> nat draft_result" where
  "piles_needed n =
     (if n = 0 then Err (InvalidSharedStackConfiguration
        ''a shared-stack distribution must deal at least one pile'')
      else Ok n)"

definition refusal_for ::
  "shared_stack_state \<Rightarrow> nat \<Rightarrow> nat \<Rightarrow> shared_stack_pile_decision \<Rightarrow> shared_stack_refusal option" where
  "refusal_for st seat pile decision =
     (if seat \<noteq> ss_active_seat st \<or> pile \<noteq> ss_cursor st then Some PileNotActive
      else case nth_opt (ss_piles st) pile of
        None \<Rightarrow> Some PileNotActive
      | Some cursor_pile \<Rightarrow>
          (case decision of
             Take \<Rightarrow> if cursor_pile = [] then Some PileEmpty else None
           | Decline \<Rightarrow>
               (let later_pile_available = list_ex (\<lambda>p. p \<noteq> []) (drop (pile + 1) (ss_piles st));
                    is_final_pile = (pile + 1 = length (ss_piles st))
                in if later_pile_available \<or> (is_final_pile \<and> 2 \<le> length (ss_main_stack st))
                   then None else Some NoGuaranteedCard)))"

definition pile_decision_ALL :: "shared_stack_pile_decision list" where
  "pile_decision_ALL = [Take, Decline]"

definition forced_decision ::
  "shared_stack_state \<Rightarrow> nat \<Rightarrow> shared_stack_pile_decision option" where
  "forced_decision st seat =
     List.find (\<lambda>d. refusal_for st seat (ss_cursor st) d = None) pile_decision_ALL"

definition pop :: "'a list \<Rightarrow> ('a \<times> 'a list) option" where
  "pop xs = (if xs = [] then None else Some (last xs, butlast xs))"

definition refill_pile :: "nat \<Rightarrow> shared_stack_state \<Rightarrow> shared_stack_state" where
  "refill_pile i st =
     (case pop (ss_main_stack st) of
        None \<Rightarrow> st
      | Some (drawn, rest) \<Rightarrow>
          st\<lparr>ss_main_stack := rest, ss_piles := (ss_piles st)[i := ss_piles st ! i @ [drawn]]\<rparr>)"

type_synonym pile_outcome = "(shared_stack_state \<times> draft_card_instance list \<times> bool) draft_result"

definition take_pile ::
  "nat \<Rightarrow> shared_stack_state \<Rightarrow> draft_card_instance list \<Rightarrow> pile_outcome" where
  "take_pile i st pool =
     Ok (refill_pile i (st\<lparr>ss_piles := (ss_piles st)[i := []]\<rparr>), pool @ ss_piles st ! i, True)"

definition decline_pile ::
  "nat \<Rightarrow> nat \<Rightarrow> shared_stack_state \<Rightarrow> draft_card_instance list \<Rightarrow> pile_outcome" where
  "decline_pile seat i st0 pool =
     (let st = refill_pile i st0 in
      if i + 1 < length (ss_piles st) then
        let cursor = add_u8 (ss_cursor st) 1 in
        if cursor < length (ss_inspected st) \<and> cursor < length (ss_piles st)
        then Ok (st\<lparr>ss_cursor := cursor,
                    ss_inspected := (ss_inspected st)[cursor := length (ss_piles st ! cursor)]\<rparr>,
                 pool, False)
        else Panic
      else case pop (ss_main_stack st) of
          None \<Rightarrow> Ok (st, pool, True)
        | Some (drawn, rest) \<Rightarrow>
            Ok (st\<lparr>ss_main_stack := rest,
                   ss_forced_draws := (ss_forced_draws st)[seat := Some drawn]\<rparr>,
                pool @ [drawn], True))"

definition record_decision ::
  "shared_stack_decision_record \<Rightarrow> shared_stack_state \<Rightarrow> shared_stack_state" where
  "record_decision r st =
     st\<lparr>ss_decisions := add_u32 (ss_decisions st) 1,
        ss_history := (let h = ss_history st @ [r] in
          if SHARED_STACK_HISTORY_CAPACITY < length h
          then drop (length h - SHARED_STACK_HISTORY_CAPACITY) h else h)\<rparr>"

definition end_turn :: "nat \<Rightarrow> shared_stack_state \<Rightarrow> shared_stack_state draft_result" where
  "end_turn seat_count st =
     (if ss_inspected st = [] \<or> ss_piles st = [] then Panic
      else Ok (st\<lparr>ss_active_seat := add_u8 (ss_active_seat st) 1 mod seat_count,
                  ss_cursor := 0,
                  ss_inspected := (map (\<lambda>_. 0) (ss_inspected st))[0 := length (ss_piles st ! 0)]\<rparr>))"

definition stack_exhausted :: "shared_stack_state \<Rightarrow> bool" where
  "stack_exhausted st = (ss_main_stack st = [] \<and> list_all (\<lambda>p. p = []) (ss_piles st))"

definition prepare_notice :: "nat \<Rightarrow> nat \<Rightarrow> shared_stack_state \<Rightarrow> shared_stack_state" where
  "prepare_notice seat_count seat st =
     st\<lparr>ss_forced_draws := (resize seat_count None (ss_forced_draws st))[seat := None]\<rparr>"

definition decide_turn ::
  "nat \<Rightarrow> nat \<Rightarrow> nat \<Rightarrow> shared_stack_pile_decision \<Rightarrow> shared_stack_state \<Rightarrow> draft_card_instance list
   \<Rightarrow> (shared_stack_state \<times> draft_card_instance list) draft_result" where
  "decide_turn pod_size seat pile decision st0 pool =
     (let pile_size = length (ss_piles st0 ! pile);
          st1 = prepare_notice pod_size seat st0
      in and_then (case decision of Take \<Rightarrow> take_pile pile st1 pool
                                  | Decline \<Rightarrow> decline_pile seat pile st1 pool)
           (\<lambda>(st2, pool', turn_ends).
              let st3 = record_decision \<lparr>sr_seat = seat, sr_pile = pile, sr_decision = decision,
                          sr_pile_size = pile_size\<rparr> st2
              in and_then (if turn_ends then end_turn pod_size st3 else Ok st3)
                   (\<lambda>st4. Ok (st4, pool'))))"

definition apply_shared_stack_decision ::
  "draft_session \<Rightarrow> nat \<Rightarrow> nat \<Rightarrow> shared_stack_pile_decision \<Rightarrow> session_step" where
  "apply_shared_stack_decision s seat pile decision =
     (if ds_status s \<noteq> Drafting
      then (Err (InvalidTransition (ds_status s) ''SharedStackDecision''), s)
      else let pod_size = as_u8 (length (ds_seats s)) in
      if pod_size \<le> seat then (Err (SeatOutOfRange seat pod_size), s)
      else case shared_stack s of Err e \<Rightarrow> (Err e, s) | Panic \<Rightarrow> (Panic, s) | Ok st0 \<Rightarrow>
      (case refusal_for st0 seat pile decision of
         Some reason \<Rightarrow> (Err (SharedStackDecisionRefused seat pile reason), s)
       | None \<Rightarrow>
         if length (ds_pools s) \<le> seat then (Panic, s)
         else case decide_turn pod_size seat pile decision st0 (ds_pools s ! seat) of
              Err e \<Rightarrow> (Err e, s)
            | Panic \<Rightarrow> (Panic, s)
            | Ok (st4, pool') \<Rightarrow>
                let s' = s\<lparr>ds_shared_stack := Some st4, ds_pools := (ds_pools s)[seat := pool']\<rparr>;
                    applied = SharedStackDecisionApplied seat pile decision
                in if stack_exhausted st4
                   then (Ok [applied, TransitionedTo Deckbuilding], s'\<lparr>ds_status := Deckbuilding\<rparr>)
                   else (Ok [applied], s')))"

section \<open>The joint invariant of a pile state\<close>

text \<open>
  \<open>pile_shape n p\<close>: the state of a draft of \<open>n\<close> seats and \<open>p\<close> piles. The second group is
  the joint invariant of \<open>SharedStackState\<close>; the third is the \<open>inspected\<close> contract.
\<close>

definition pile_shape :: "nat \<Rightarrow> nat \<Rightarrow> shared_stack_state \<Rightarrow> bool" where
  "pile_shape n p st \<longleftrightarrow>
     1 \<le> n \<and> n < 256 \<and> 1 \<le> p \<and> p < 256
     \<and> length (ss_piles st) = p \<and> length (ss_inspected st) = p
     \<and> ss_active_seat st < n \<and> ss_starting_seat st < n \<and> ss_cursor st < p
     \<and> length (ss_history st) \<le> SHARED_STACK_HISTORY_CAPACITY
     \<and> (\<forall>r\<in>set (ss_history st). sr_seat r < n \<and> sr_pile r < p)
     \<and> (ss_forced_draws st = [] \<or> length (ss_forced_draws st) = n)"

definition piles_stocked :: "shared_stack_state \<Rightarrow> bool" where
  "piles_stocked st \<longleftrightarrow> (ss_main_stack st \<noteq> [] \<longrightarrow> (\<forall>pile\<in>set (ss_piles st). pile \<noteq> []))"

definition pile_ahead :: "shared_stack_state \<Rightarrow> bool" where
  "pile_ahead st \<longleftrightarrow> (\<exists>i<length (ss_piles st). ss_cursor st \<le> i \<and> ss_piles st ! i \<noteq> [])"

definition inspected_prefix :: "shared_stack_state \<Rightarrow> bool" where
  "inspected_prefix st \<longleftrightarrow>
     (\<forall>i<length (ss_piles st).
        ss_inspected st ! i \<le> length (ss_piles st ! i)
        \<and> (ss_cursor st < i \<longrightarrow> ss_inspected st ! i = 0)
        \<and> (i = ss_cursor st \<longrightarrow> ss_inspected st ! i = length (ss_piles st ! i)))"

definition winston_inv :: "draft_session \<Rightarrow> bool" where
  "winston_inv s \<longleftrightarrow>
     length (ds_pools s) = length (ds_seats s)
     \<and> (\<exists>st p. ds_shared_stack s = Some st \<and> pile_shape (length (ds_seats s)) p st
          \<and> piles_stocked st \<and> inspected_prefix st
          \<and> (ds_status s = Drafting \<longrightarrow> pile_ahead st))"

text \<open>
  The weaker invariant of a table that can be played: the shapes are right and, while drafting, the
  active seat has a legal decision. Every session of \<open>winston_inv\<close> is playable, and so is one
  restored from a snapshot, which need not have all its piles stocked.
\<close>

definition playable :: "draft_session \<Rightarrow> bool" where
  "playable s \<longleftrightarrow>
     length (ds_pools s) = length (ds_seats s)
     \<and> (\<exists>st p. ds_shared_stack s = Some st \<and> pile_shape (length (ds_seats s)) p st
          \<and> (ds_status s = Drafting \<longrightarrow> forced_decision st (ss_active_seat st) \<noteq> None))"

text \<open>The cards of a shared-stack draft, and the potential its decisions consume.\<close>

definition stack_cards :: "shared_stack_state \<Rightarrow> draft_card_instance multiset" where
  "stack_cards st = mset (ss_main_stack st) + flatten_mset (ss_piles st)"

definition winston_cards :: "draft_session \<Rightarrow> draft_card_instance multiset" where
  "winston_cards s =
     (case ds_shared_stack s of None \<Rightarrow> {#} | Some st \<Rightarrow> stack_cards st) + flatten_mset (ds_pools s)"

definition winston_potential :: "draft_session \<Rightarrow> nat" where
  "winston_potential s =
     (case ds_shared_stack s of None \<Rightarrow> 0 | Some st \<Rightarrow>
        size (stack_cards st) * length (ss_piles st) + (length (ss_piles st) - ss_cursor st))"

definition shared_stack_step ::
  "draft_session \<Rightarrow> nat \<times> nat \<times> shared_stack_pile_decision \<Rightarrow> session_step" where
  "shared_stack_step s a = (case a of (seat, pile, d) \<Rightarrow> apply_shared_stack_decision s seat pile d)"

section \<open>What one accepted decision does to the piles\<close>

definition history_after ::
  "nat \<Rightarrow> nat \<Rightarrow> shared_stack_pile_decision \<Rightarrow> shared_stack_state \<Rightarrow> shared_stack_decision_record list" where
  "history_after seat pile d st =
     last_n SHARED_STACK_HISTORY_CAPACITY
       (ss_history st @ [\<lparr>sr_seat = seat, sr_pile = pile, sr_decision = d,
                          sr_pile_size = length (ss_piles st ! pile)\<rparr>])"

lemma record_decision_simps [simp]:
  "ss_main_stack (record_decision r st) = ss_main_stack st"
  "ss_piles (record_decision r st) = ss_piles st"
  "ss_starting_seat (record_decision r st) = ss_starting_seat st"
  "ss_active_seat (record_decision r st) = ss_active_seat st"
  "ss_cursor (record_decision r st) = ss_cursor st"
  "ss_inspected (record_decision r st) = ss_inspected st"
  "ss_decisions (record_decision r st) = add_u32 (ss_decisions st) 1"
  "ss_forced_draws (record_decision r st) = ss_forced_draws st"
  "ss_history (record_decision r st) = last_n SHARED_STACK_HISTORY_CAPACITY (ss_history st @ [r])"
  by (simp_all add: record_decision_def Let_def last_n_def)

lemma prepare_notice_simps [simp]:
  "ss_main_stack (prepare_notice n seat st) = ss_main_stack st"
  "ss_piles (prepare_notice n seat st) = ss_piles st"
  "ss_starting_seat (prepare_notice n seat st) = ss_starting_seat st"
  "ss_active_seat (prepare_notice n seat st) = ss_active_seat st"
  "ss_cursor (prepare_notice n seat st) = ss_cursor st"
  "ss_inspected (prepare_notice n seat st) = ss_inspected st"
  "ss_decisions (prepare_notice n seat st) = ss_decisions st"
  "ss_history (prepare_notice n seat st) = ss_history st"
  "length (ss_forced_draws (prepare_notice n seat st)) = n"
  by (simp_all add: prepare_notice_def)

lemma refill_pile_simps [simp]:
  "ss_main_stack (refill_pile i st) = butlast (ss_main_stack st)"
  "ss_piles (refill_pile i st) =
     (if ss_main_stack st = [] then ss_piles st
      else (ss_piles st)[i := ss_piles st ! i @ [last (ss_main_stack st)]])"
  "ss_starting_seat (refill_pile i st) = ss_starting_seat st"
  "ss_active_seat (refill_pile i st) = ss_active_seat st"
  "ss_cursor (refill_pile i st) = ss_cursor st"
  "ss_inspected (refill_pile i st) = ss_inspected st"
  "ss_decisions (refill_pile i st) = ss_decisions st"
  "ss_history (refill_pile i st) = ss_history st"
  "ss_forced_draws (refill_pile i st) = ss_forced_draws st"
  by (simp_all add: refill_pile_def pop_def)

lemma decide_take:
  assumes "pile_shape n p st" "c = ss_cursor st"
  shows "\<exists>st'. decide_turn n seat c Take st pool = Ok (st', pool @ ss_piles st ! c)
    \<and> ss_main_stack st' = butlast (ss_main_stack st)
    \<and> ss_piles st' = (ss_piles st)[c := (if ss_main_stack st = [] then [] else [last (ss_main_stack st)])]
    \<and> ss_starting_seat st' = ss_starting_seat st
    \<and> ss_active_seat st' = add_u8 (ss_active_seat st) 1 mod n \<and> ss_cursor st' = 0
    \<and> ss_inspected st' = (replicate p 0)[0 := length (ss_piles st' ! 0)]
    \<and> ss_decisions st' = add_u32 (ss_decisions st) 1
    \<and> ss_history st' = history_after seat c Take st
    \<and> length (ss_forced_draws st') = n"
  using assms
  by (auto simp: decide_turn_def take_pile_def end_turn_def pile_shape_def history_after_def
      map_replicate_const Let_def)

lemma decide_decline_next:
  assumes "pile_shape n p st" "c = ss_cursor st" "c + 1 < p"
  shows "\<exists>st'. decide_turn n seat c Decline st pool = Ok (st', pool)
    \<and> ss_main_stack st' = butlast (ss_main_stack st)
    \<and> ss_piles st' = (if ss_main_stack st = [] then ss_piles st
         else (ss_piles st)[c := ss_piles st ! c @ [last (ss_main_stack st)]])
    \<and> ss_starting_seat st' = ss_starting_seat st
    \<and> ss_active_seat st' = ss_active_seat st \<and> ss_cursor st' = c + 1
    \<and> ss_inspected st' = (ss_inspected st)[c + 1 := length (ss_piles st' ! (c + 1))]
    \<and> ss_decisions st' = add_u32 (ss_decisions st) 1
    \<and> ss_history st' = history_after seat c Decline st
    \<and> length (ss_forced_draws st') = n"
proof -
  have "add_u8 c 1 = c + 1" using assms by (auto simp: pile_shape_def intro!: add_u8_id)
  with assms show ?thesis
    by (auto simp: decide_turn_def decline_pile_def pile_shape_def history_after_def Let_def)
qed

lemma decide_decline_final:
  assumes "pile_shape n p st" "c = ss_cursor st" "c + 1 = p" "ss_main_stack st = xs @ [b, a]"
  shows "\<exists>st'. decide_turn n seat c Decline st pool = Ok (st', pool @ [b])
    \<and> ss_main_stack st' = xs
    \<and> ss_piles st' = (ss_piles st)[c := ss_piles st ! c @ [a]]
    \<and> ss_starting_seat st' = ss_starting_seat st
    \<and> ss_active_seat st' = add_u8 (ss_active_seat st) 1 mod n \<and> ss_cursor st' = 0
    \<and> ss_inspected st' = (replicate p 0)[0 := length (ss_piles st' ! 0)]
    \<and> ss_decisions st' = add_u32 (ss_decisions st) 1
    \<and> ss_history st' = history_after seat c Decline st
    \<and> length (ss_forced_draws st') = n"
  using assms
  by (auto simp: decide_turn_def decline_pile_def end_turn_def pile_shape_def history_after_def
      butlast_append pop_def map_replicate_const Let_def)

section \<open>Legal decisions\<close>

lemma refusal_for_Take:
  "refusal_for st seat pile Take = None \<longleftrightarrow>
     seat = ss_active_seat st \<and> pile = ss_cursor st \<and> pile < length (ss_piles st)
     \<and> ss_piles st ! pile \<noteq> []"
  by (auto simp: refusal_for_def split: option.splits)

lemma refusal_for_Decline:
  "refusal_for st seat pile Decline = None \<longleftrightarrow>
     seat = ss_active_seat st \<and> pile = ss_cursor st \<and> pile < length (ss_piles st)
     \<and> ((\<exists>i<length (ss_piles st). pile < i \<and> ss_piles st ! i \<noteq> [])
        \<or> pile + 1 = length (ss_piles st) \<and> 2 \<le> length (ss_main_stack st))"
  by (auto simp: refusal_for_def Let_def list_ex_iff ex_set_drop Suc_le_eq split: option.splits)

lemma legal_cases:
  assumes "pile_shape n p st" "refusal_for st seat c d = None"
  obtains (take) "d = Take" "c = ss_cursor st" "c < p" "seat = ss_active_seat st" "ss_piles st ! c \<noteq> []"
  | (next_pile) "d = Decline" "c = ss_cursor st" "seat = ss_active_seat st" "c + 1 < p"
      "\<exists>i<p. c < i \<and> ss_piles st ! i \<noteq> []"
  | (final_pile) xs b a where "d = Decline" "c = ss_cursor st" "seat = ss_active_seat st" "c + 1 = p"
      "ss_main_stack st = xs @ [b, a]"
proof (cases d)
  case Take
  with assms show ?thesis by (intro that(1)) (auto simp: refusal_for_Take pile_shape_def)
next
  case Decline
  with assms have *: "seat = ss_active_seat st" "c = ss_cursor st" "c < p"
    "(\<exists>i<p. c < i \<and> ss_piles st ! i \<noteq> []) \<or> c + 1 = p \<and> 2 \<le> length (ss_main_stack st)"
    by (auto simp: refusal_for_Decline pile_shape_def)
  show ?thesis
  proof (cases "c + 1 = p")
    case False
    with * Decline show ?thesis by (intro that(2)) auto
  next
    case True
    with * have "2 \<le> length (ss_main_stack st)" by auto
    then obtain xs b a where "ss_main_stack st = xs @ [b, a]" by (rule two_at_end)
    with * True Decline show ?thesis by (intro that(3)) auto
  qed
qed

section \<open>Preservation of the pile invariants\<close>

lemma history_after_bounds:
  assumes "pile_shape n p st" "seat < n" "pile < p"
  shows "length (history_after seat pile d st) \<le> SHARED_STACK_HISTORY_CAPACITY"
    and "\<forall>r\<in>set (history_after seat pile d st). sr_seat r < n \<and> sr_pile r < p"
  using assms set_last_n[of SHARED_STACK_HISTORY_CAPACITY
      "ss_history st @ [\<lparr>sr_seat = seat, sr_pile = pile, sr_decision = d,
                          sr_pile_size = length (ss_piles st ! pile)\<rparr>]"]
  by (auto simp: history_after_def length_last_n pile_shape_def)

lemma replicate_update_prefix:
  assumes "i < p"
  shows "(replicate p 0)[0 := k] ! i = (if i = 0 then k else (0::nat))"
  using assms by (cases i) auto

lemma decide_turn_shape:
  assumes "pile_shape n p st" "refusal_for st seat c d = None"
    and "decide_turn n seat c d st pool = Ok (st', pool')"
  shows "pile_shape n p st'"
  using assms(1,2)
proof (cases rule: legal_cases)
  case take
  with assms decide_take[OF assms(1) take(2), of seat pool] history_after_bounds[OF assms(1), of seat c d]
  show ?thesis by (auto simp: pile_shape_def)
next
  case next_pile
  with assms decide_decline_next[OF assms(1) next_pile(2,4), of seat pool]
    history_after_bounds[OF assms(1), of seat c d]
  show ?thesis by (auto simp: pile_shape_def)
next
  case (final_pile xs b a)
  with assms decide_decline_final[OF assms(1) final_pile(2,4,5), of seat pool]
    history_after_bounds[OF assms(1), of seat c d]
  show ?thesis by (auto simp: pile_shape_def)
qed

lemma decide_turn_stocked:
  assumes "pile_shape n p st" "refusal_for st seat c d = None" "piles_stocked st"
    and "decide_turn n seat c d st pool = Ok (st', pool')"
  shows "piles_stocked st'"
  using assms(1,2)
proof (cases rule: legal_cases)
  case take
  with assms decide_take[OF assms(1) take(2), of seat pool] show ?thesis
    by (auto simp: piles_stocked_def dest!: set_update_subsetD)
next
  case next_pile
  with assms decide_decline_next[OF assms(1) next_pile(2,4), of seat pool] show ?thesis
    by (auto simp: piles_stocked_def dest!: set_update_subsetD)
next
  case (final_pile xs b a)
  with assms decide_decline_final[OF assms(1) final_pile(2,4,5), of seat pool] show ?thesis
    by (auto simp: piles_stocked_def dest!: set_update_subsetD)
qed

lemma decide_turn_inspected:
  assumes "pile_shape n p st" "refusal_for st seat c d = None" "inspected_prefix st"
    and "decide_turn n seat c d st pool = Ok (st', pool')"
  shows "inspected_prefix st'"
  using assms(1,2)
proof (cases rule: legal_cases)
  case take
  with assms decide_take[OF assms(1) take(2), of seat pool] show ?thesis
    by (auto simp: inspected_prefix_def replicate_update_prefix pile_shape_def)
next
  case next_pile
  from next_pile assms decide_decline_next[OF assms(1) next_pile(2,4), of seat pool]
  have st': "ss_piles st' = (if ss_main_stack st = [] then ss_piles st
         else (ss_piles st)[c := ss_piles st ! c @ [last (ss_main_stack st)]])"
    "ss_cursor st' = c + 1"
    "ss_inspected st' = (ss_inspected st)[c + 1 := length (ss_piles st' ! (c + 1))]"
    by auto
  have len: "length (ss_piles st) = p" "length (ss_inspected st) = p"
    using assms(1) by (auto simp: pile_shape_def)
  show ?thesis
    unfolding inspected_prefix_def
  proof (intro allI impI)
    fix i assume i: "i < length (ss_piles st')"
    then have "i < p" using st' len by (auto split: if_splits)
    then have "ss_inspected st ! i \<le> length (ss_piles st ! i)" "c < i \<Longrightarrow> ss_inspected st ! i = 0"
      using assms(3) next_pile len by (auto simp: inspected_prefix_def)
    then show "ss_inspected st' ! i \<le> length (ss_piles st' ! i)
        \<and> (ss_cursor st' < i \<longrightarrow> ss_inspected st' ! i = 0)
        \<and> (i = ss_cursor st' \<longrightarrow> ss_inspected st' ! i = length (ss_piles st' ! i))"
      using st' len \<open>i < p\<close> next_pile(4) by (auto simp: nth_list_update)
  qed
next
  case (final_pile xs b a)
  with assms decide_decline_final[OF assms(1) final_pile(2,4,5), of seat pool] show ?thesis
    by (auto simp: inspected_prefix_def replicate_update_prefix pile_shape_def)
qed

lemma decide_turn_ahead:
  assumes "pile_shape n p st" "refusal_for st seat c d = None"
    and "decide_turn n seat c d st pool = Ok (st', pool')" "\<not> stack_exhausted st'"
  shows "pile_ahead st'"
  using assms(1,2)
proof (cases rule: legal_cases)
  case take
  with assms decide_take[OF assms(1) take(2), of seat pool]
  have st': "ss_cursor st' = 0" "ss_main_stack st' = butlast (ss_main_stack st)" "c < length (ss_piles st)"
    "ss_piles st' = (ss_piles st)[c := (if ss_main_stack st = [] then [] else [last (ss_main_stack st)])]"
    by (auto simp: pile_shape_def)
  have "\<exists>pile\<in>set (ss_piles st'). pile \<noteq> []"
  proof (cases "ss_main_stack st = []")
    case True
    with st'(2) assms(4) show ?thesis by (auto simp: stack_exhausted_def list_all_iff)
  next
    case False
    with st'(3,4) show ?thesis by (auto simp: set_update_memI intro!: bexI[of _ "[last (ss_main_stack st)]"])
  qed
  with st'(1) show ?thesis by (auto simp: pile_ahead_def in_set_conv_nth)
next
  case next_pile
  then obtain i where i: "i < p" "c + 1 \<le> i" "ss_piles st ! i \<noteq> []" by auto
  with assms next_pile decide_decline_next[OF assms(1) next_pile(2,4), of seat pool] show ?thesis
    unfolding pile_ahead_def by (intro exI[of _ i]) (auto simp: pile_shape_def nth_list_update)
next
  case (final_pile xs b a)
  with assms decide_decline_final[OF assms(1) final_pile(2,4,5), of seat pool] show ?thesis
    unfolding pile_ahead_def by (intro exI[of _ c]) (auto simp: pile_shape_def)
qed

lemma mset_butlast_last: "xs \<noteq> [] \<Longrightarrow> add_mset (last xs) (mset (butlast xs)) = mset xs"
  by (metis append_butlast_last_id mset.simps(1) mset.simps(2) mset_append union_mset_add_mset_right
      add.right_neutral)

lemma decide_turn_cards:
  assumes "pile_shape n p st" "refusal_for st seat c d = None"
    and "decide_turn n seat c d st pool = Ok (st', pool')"
  shows "\<exists>gained. pool' = pool @ gained \<and> stack_cards st = stack_cards st' + mset gained
     \<and> (gained = [] \<longleftrightarrow> d = Decline \<and> c + 1 < p)"
  using assms(1,2)
proof (cases rule: legal_cases)
  case take
  have "c < length (ss_piles st)" using take assms(1) by (simp add: pile_shape_def)
  note upd = flatten_mset_update[OF this]
  from take assms decide_take[OF assms(1) take(2), of seat pool]
  have st': "pool' = pool @ ss_piles st ! c" "ss_main_stack st' = butlast (ss_main_stack st)"
    "ss_piles st' = (ss_piles st)[c := (if ss_main_stack st = [] then [] else [last (ss_main_stack st)])]"
    by auto
  then have "stack_cards st = stack_cards st' + mset (ss_piles st ! c)"
    using upd[of "[]"] upd[of "[last (ss_main_stack st)]"] mset_butlast_last[of "ss_main_stack st"]
    by (auto simp: stack_cards_def ac_simps)
  with st' take show ?thesis by auto
next
  case next_pile
  then have "c < length (ss_piles st)" using assms(1) by (simp add: pile_shape_def)
  note upd = flatten_mset_update[OF this]
  from next_pile assms decide_decline_next[OF assms(1) next_pile(2,4), of seat pool]
  have st': "pool' = pool" "ss_main_stack st' = butlast (ss_main_stack st)"
    "ss_piles st' = (if ss_main_stack st = [] then ss_piles st
         else (ss_piles st)[c := ss_piles st ! c @ [last (ss_main_stack st)]])"
    by auto
  then have "stack_cards st = stack_cards st'"
    using upd[of "ss_piles st ! c @ [last (ss_main_stack st)]"] mset_butlast_last[of "ss_main_stack st"]
    by (auto simp: stack_cards_def ac_simps)
  with st' next_pile show ?thesis by auto
next
  case (final_pile xs b a)
  then have "c < length (ss_piles st)" using assms(1) by (simp add: pile_shape_def)
  note upd = flatten_mset_update[OF this]
  from final_pile assms decide_decline_final[OF assms(1) final_pile(2,4,5), of seat pool]
  have st': "pool' = pool @ [b]" "ss_main_stack st' = xs"
    "ss_piles st' = (ss_piles st)[c := ss_piles st ! c @ [a]]"
    by auto
  then have "stack_cards st = stack_cards st' + mset [b]"
    using upd[of "ss_piles st ! c @ [a]"] final_pile by (auto simp: stack_cards_def ac_simps)
  with st' final_pile show ?thesis by auto
qed

lemma decide_turn_cursor:
  assumes "pile_shape n p st" "refusal_for st seat c d = None"
    and "decide_turn n seat c d st pool = Ok (st', pool')"
  shows "ss_cursor st' = (if d = Decline \<and> c + 1 < p then c + 1 else 0)"
    and "ss_active_seat st' = (if d = Decline \<and> c + 1 < p then seat else (seat + 1) mod n)"
    and "ss_starting_seat st' = ss_starting_seat st"
    and "ss_decisions st' = add_u32 (ss_decisions st) 1"
    and "c = ss_cursor st" and "seat = ss_active_seat st"
proof -
  have n: "ss_active_seat st < n" "n < 256" using assms(1) by (simp_all add: pile_shape_def)
  then have "add_u8 (ss_active_seat st) 1 mod n = (ss_active_seat st + 1) mod n" by simp
  note wrap = this
  have "ss_cursor st' = (if d = Decline \<and> c + 1 < p then c + 1 else 0)
    \<and> ss_active_seat st' = (if d = Decline \<and> c + 1 < p then seat else (seat + 1) mod n)
    \<and> ss_starting_seat st' = ss_starting_seat st \<and> ss_decisions st' = add_u32 (ss_decisions st) 1
    \<and> c = ss_cursor st \<and> seat = ss_active_seat st"
  proof (cases rule: legal_cases[OF assms(1,2), case_names take next_pile final_pile])
    case take
    with assms decide_take[OF assms(1) take(2), of seat pool] wrap show ?thesis by auto
  next
    case next_pile
    with assms decide_decline_next[OF assms(1) next_pile(2,4), of seat pool] show ?thesis by auto
  next
    case (final_pile xs b a)
    with assms decide_decline_final[OF assms(1) final_pile(2,4,5), of seat pool] wrap show ?thesis by auto
  qed
  then show "ss_cursor st' = (if d = Decline \<and> c + 1 < p then c + 1 else 0)"
    and "ss_active_seat st' = (if d = Decline \<and> c + 1 < p then seat else (seat + 1) mod n)"
    and "ss_starting_seat st' = ss_starting_seat st"
    and "ss_decisions st' = add_u32 (ss_decisions st) 1"
    and "c = ss_cursor st" and "seat = ss_active_seat st" by auto
qed

lemma decide_turn_total:
  assumes "pile_shape n p st" "refusal_for st seat c d = None"
  shows "\<exists>st' pool'. decide_turn n seat c d st pool = Ok (st', pool')"
  using assms(1,2)
proof (cases rule: legal_cases)
  case take
  with decide_take[OF assms(1) take(2), of seat pool] show ?thesis by auto
next
  case next_pile
  with decide_decline_next[OF assms(1) next_pile(2,4), of seat pool] show ?thesis by auto
next
  case (final_pile xs b a)
  with decide_decline_final[OF assms(1) final_pile(2,4,5), of seat pool] show ?thesis by auto
qed

lemma forced_decision_legal:
  assumes "pile_shape n p st" "pile_ahead st"
  shows "forced_decision st (ss_active_seat st) \<noteq> None"
proof -
  have c: "ss_cursor st < length (ss_piles st)" using assms(1) by (simp add: pile_shape_def)
  have "refusal_for st (ss_active_seat st) (ss_cursor st) Take = None
      \<or> refusal_for st (ss_active_seat st) (ss_cursor st) Decline = None"
  proof (cases "ss_piles st ! ss_cursor st = []")
    case False
    with c show ?thesis by (simp add: refusal_for_Take)
  next
    case True
    with assms(2) obtain i where "i < length (ss_piles st)" "ss_cursor st < i" "ss_piles st ! i \<noteq> []"
      by (auto simp: pile_ahead_def le_less)
    with c show ?thesis by (auto simp: refusal_for_Decline)
  qed
  then show ?thesis by (auto simp: forced_decision_def pile_decision_ALL_def)
qed

lemma forced_decision_Some:
  "forced_decision st seat = Some d \<Longrightarrow> refusal_for st seat (ss_cursor st) d = None"
  by (auto simp: forced_decision_def pile_decision_ALL_def split: if_splits)

section \<open>The session reducer\<close>

lemma apply_refused:
  "apply_shared_stack_decision s seat pile d = (r, s') \<Longrightarrow> \<not> is_ok r \<Longrightarrow> s' = s"
  by (auto simp: apply_shared_stack_decision_def Let_def
      split: outcome.splits option.splits prod.splits if_splits)

lemma apply_refused_unchanged:
  "\<not> is_ok (fst (apply_shared_stack_decision s seat pile d))
     \<Longrightarrow> snd (apply_shared_stack_decision s seat pile d) = s"
  by (rule apply_refused) (rule prod.collapse[symmetric])

lemma winston_invE:
  assumes "winston_inv s"
  obtains st p where "ds_shared_stack s = Some st" "pile_shape (length (ds_seats s)) p st"
    "piles_stocked st" "inspected_prefix st" "ds_status s = Drafting \<Longrightarrow> pile_ahead st"
    "length (ds_pools s) = length (ds_seats s)" "as_u8 (length (ds_seats s)) = length (ds_seats s)"
    "ss_active_seat st < length (ds_seats s)"
  using assms by (auto simp: winston_inv_def pile_shape_def)

lemma playableE:
  assumes "playable s"
  obtains st p where "ds_shared_stack s = Some st" "pile_shape (length (ds_seats s)) p st"
    "ds_status s = Drafting \<Longrightarrow> forced_decision st (ss_active_seat st) \<noteq> None"
    "length (ds_pools s) = length (ds_seats s)" "as_u8 (length (ds_seats s)) = length (ds_seats s)"
    "ss_active_seat st < length (ds_seats s)"
  using assms by (auto simp: playable_def pile_shape_def)

lemma winston_playable: "winston_inv s \<Longrightarrow> playable s"
  by (auto simp: winston_inv_def playable_def dest: forced_decision_legal)

lemma apply_accepted:
  assumes "playable s" "ds_shared_stack s = Some st" "ds_status s = Drafting"
    and "refusal_for st seat pile d = None"
    and "decide_turn (length (ds_seats s)) seat pile d st (ds_pools s ! seat) = Ok (st', pool')"
  shows "apply_shared_stack_decision s seat pile d =
     (if stack_exhausted st'
      then (Ok [SharedStackDecisionApplied seat pile d, TransitionedTo Deckbuilding],
            s\<lparr>ds_shared_stack := Some st', ds_pools := (ds_pools s)[seat := pool'], ds_status := Deckbuilding\<rparr>)
      else (Ok [SharedStackDecisionApplied seat pile d],
            s\<lparr>ds_shared_stack := Some st', ds_pools := (ds_pools s)[seat := pool']\<rparr>))"
proof -
  from assms(1) obtain p where p: "pile_shape (length (ds_seats s)) p st"
    "length (ds_pools s) = length (ds_seats s)" "as_u8 (length (ds_seats s)) = length (ds_seats s)"
    using assms(2) by (auto elim!: playableE)
  have "seat = ss_active_seat st"
    using p(1) assms(4) by (cases rule: legal_cases) auto
  then have "seat < length (ds_seats s)" using p(1) by (simp add: pile_shape_def)
  with assms p show ?thesis by (simp add: apply_shared_stack_decision_def Let_def shared_stack_def)
qed

lemma apply_Ok_elim:
  assumes "playable s" "is_ok (fst (apply_shared_stack_decision s seat pile d))"
  obtains st p st' gained where
    "ds_status s = Drafting" "ds_shared_stack s = Some st"
    "pile_shape (length (ds_seats s)) p st"
    "seat = ss_active_seat st" "pile = ss_cursor st" "seat < length (ds_pools s)"
    "refusal_for st seat pile d = None"
    "decide_turn (length (ds_seats s)) seat pile d st (ds_pools s ! seat) = Ok (st', ds_pools s ! seat @ gained)"
    "stack_cards st = stack_cards st' + mset gained"
    "gained = [] \<longleftrightarrow> d = Decline \<and> pile + 1 < p"
    "snd (apply_shared_stack_decision s seat pile d) =
       s\<lparr>ds_shared_stack := Some st', ds_pools := (ds_pools s)[seat := ds_pools s ! seat @ gained],
         ds_status := (if stack_exhausted st' then Deckbuilding else Drafting)\<rparr>"
proof -
  from assms(1) obtain st p where st: "ds_shared_stack s = Some st"
    "pile_shape (length (ds_seats s)) p st" "length (ds_pools s) = length (ds_seats s)"
    by (auto elim!: playableE)
  from assms(2) st(1) have drafting: "ds_status s = Drafting"
    and legal: "refusal_for st seat pile d = None"
    by (auto simp: apply_shared_stack_decision_def Let_def shared_stack_def
        split: if_splits option.splits)
  obtain st' pool' where turn:
    "decide_turn (length (ds_seats s)) seat pile d st (ds_pools s ! seat) = Ok (st', pool')"
    using decide_turn_total[OF st(2) legal] by blast
  from decide_turn_cards[OF st(2) legal turn] obtain gained where g:
    "pool' = ds_pools s ! seat @ gained" "stack_cards st = stack_cards st' + mset gained"
    "gained = [] \<longleftrightarrow> d = Decline \<and> pile + 1 < p" by blast
  have seat: "seat = ss_active_seat st" "pile = ss_cursor st" "seat < length (ds_pools s)"
    using decide_turn_cursor[OF st(2) legal turn] st by (auto simp: pile_shape_def)
  have "snd (apply_shared_stack_decision s seat pile d) =
       s\<lparr>ds_shared_stack := Some st', ds_pools := (ds_pools s)[seat := pool'],
         ds_status := (if stack_exhausted st' then Deckbuilding else Drafting)\<rparr>"
    using apply_accepted[OF assms(1) st(1) drafting legal turn] drafting by (cases s) auto
  with that[of st p st' gained] drafting st legal turn g seat show thesis by simp
qed

lemma winston_step_inv:
  assumes "winston_inv s"
  shows "winston_inv (snd (apply_shared_stack_decision s seat pile d))"
proof (cases "is_ok (fst (apply_shared_stack_decision s seat pile d))")
  case False
  with assms show ?thesis by (simp add: apply_refused_unchanged)
next
  case True
  with winston_playable[OF assms] obtain st p st' gained where *:
    "ds_shared_stack s = Some st" "pile_shape (length (ds_seats s)) p st" "refusal_for st seat pile d = None"
    "decide_turn (length (ds_seats s)) seat pile d st (ds_pools s ! seat) = Ok (st', ds_pools s ! seat @ gained)"
    "snd (apply_shared_stack_decision s seat pile d) =
       s\<lparr>ds_shared_stack := Some st', ds_pools := (ds_pools s)[seat := ds_pools s ! seat @ gained],
         ds_status := (if stack_exhausted st' then Deckbuilding else Drafting)\<rparr>"
    by (elim apply_Ok_elim)
  moreover have "length (ds_pools s) = length (ds_seats s)" "piles_stocked st" "inspected_prefix st"
    using assms *(1) by (auto simp: winston_inv_def)
  ultimately show ?thesis
    using decide_turn_shape[OF *(2,3,4)] decide_turn_stocked[OF *(2,3) _ *(4)]
      decide_turn_inspected[OF *(2,3) _ *(4)] decide_turn_ahead[OF *(2,3,4)]
    by (auto simp: winston_inv_def)
qed

lemma playable_step:
  assumes "playable s"
  shows "playable (snd (apply_shared_stack_decision s seat pile d))"
proof (cases "is_ok (fst (apply_shared_stack_decision s seat pile d))")
  case False
  with assms show ?thesis by (simp add: apply_refused_unchanged)
next
  case True
  with assms obtain st p st' gained where *:
    "pile_shape (length (ds_seats s)) p st" "refusal_for st seat pile d = None"
    "decide_turn (length (ds_seats s)) seat pile d st (ds_pools s ! seat) = Ok (st', ds_pools s ! seat @ gained)"
    "snd (apply_shared_stack_decision s seat pile d) =
       s\<lparr>ds_shared_stack := Some st', ds_pools := (ds_pools s)[seat := ds_pools s ! seat @ gained],
         ds_status := (if stack_exhausted st' then Deckbuilding else Drafting)\<rparr>"
    by (elim apply_Ok_elim)
  note shape = decide_turn_shape[OF *(1-3)]
  have "\<not> stack_exhausted st' \<Longrightarrow> forced_decision st' (ss_active_seat st') \<noteq> None"
    using decide_turn_ahead[OF *(1-3)] forced_decision_legal[OF shape] by blast
  moreover have "length (ds_pools s) = length (ds_seats s)" using assms by (simp add: playable_def)
  ultimately show ?thesis using shape *(4) by (auto simp: playable_def)
qed

lemma winston_step_cards:
  assumes "playable s"
  shows "winston_cards (snd (apply_shared_stack_decision s seat pile d)) = winston_cards s"
proof (cases "is_ok (fst (apply_shared_stack_decision s seat pile d))")
  case False
  then show ?thesis by (simp add: apply_refused_unchanged)
next
  case True
  with assms obtain st p st' gained where *:
    "ds_shared_stack s = Some st" "seat < length (ds_pools s)"
    "stack_cards st = stack_cards st' + mset gained"
    "snd (apply_shared_stack_decision s seat pile d) =
       s\<lparr>ds_shared_stack := Some st', ds_pools := (ds_pools s)[seat := ds_pools s ! seat @ gained],
         ds_status := (if stack_exhausted st' then Deckbuilding else Drafting)\<rparr>"
    by (elim apply_Ok_elim)
  from flatten_mset_update[OF *(2), of "ds_pools s ! seat @ gained"]
  have "flatten_mset ((ds_pools s)[seat := ds_pools s ! seat @ gained]) = flatten_mset (ds_pools s) + mset gained"
    by (simp add: union_assoc[symmetric] union_commute[of _ "mset gained"])
  with * show ?thesis by (simp add: winston_cards_def ac_simps)
qed

lemma winston_step_potential:
  assumes "playable s" "is_ok (fst (apply_shared_stack_decision s seat pile d))"
  shows "winston_potential (snd (apply_shared_stack_decision s seat pile d)) < winston_potential s"
proof -
  from assms obtain st p st' gained where *:
    "ds_shared_stack s = Some st" "pile_shape (length (ds_seats s)) p st" "refusal_for st seat pile d = None"
    "decide_turn (length (ds_seats s)) seat pile d st (ds_pools s ! seat) = Ok (st', ds_pools s ! seat @ gained)"
    "stack_cards st = stack_cards st' + mset gained"
    "gained = [] \<longleftrightarrow> d = Decline \<and> pile + 1 < p"
    "snd (apply_shared_stack_decision s seat pile d) =
       s\<lparr>ds_shared_stack := Some st', ds_pools := (ds_pools s)[seat := ds_pools s ! seat @ gained],
         ds_status := (if stack_exhausted st' then Deckbuilding else Drafting)\<rparr>"
    by (elim apply_Ok_elim)
  have len: "length (ss_piles st) = p" "length (ss_piles st') = p" "ss_cursor st < p"
    using *(2) decide_turn_shape[OF *(2,3,4)] by (auto simp: pile_shape_def)
  note cur = decide_turn_cursor[OF *(2,3,4)]
  show ?thesis
  proof (cases "gained = []")
    case True
    with * len cur show ?thesis by (simp add: winston_potential_def) linarith
  next
    case False
    then have "size (stack_cards st') + 1 \<le> size (stack_cards st)"
      using *(5) by (cases gained) auto
    then have "(size (stack_cards st') + 1) * p \<le> size (stack_cards st) * p" by (rule mult_le_mono1)
    moreover have "ss_cursor st' = 0" using False *(6) cur(1) by auto
    ultimately show ?thesis using * len by (simp add: winston_potential_def)
  qed
qed

lemma winston_step_enabled:
  assumes "playable s" "ds_status s = Drafting"
  shows "\<exists>st d. ds_shared_stack s = Some st \<and> forced_decision st (ss_active_seat st) = Some d
    \<and> is_ok (fst (apply_shared_stack_decision s (ss_active_seat st) (ss_cursor st) d))"
proof -
  from assms obtain st p d where st: "ds_shared_stack s = Some st" "pile_shape (length (ds_seats s)) p st"
    and d: "forced_decision st (ss_active_seat st) = Some d"
    by (auto elim!: playableE)
  note legal = forced_decision_Some[OF d]
  obtain st' pool' where "decide_turn (length (ds_seats s)) (ss_active_seat st) (ss_cursor st) d st
      (ds_pools s ! ss_active_seat st) = Ok (st', pool')"
    using decide_turn_total[OF st(2) legal] by blast
  from apply_accepted[OF assms(1) st(1) assms(2) legal this] st(1) d show ?thesis
    by (intro exI[of _ st] exI[of _ d]) simp
qed

lemma winston_step_no_panic:
  assumes "playable s"
  shows "fst (apply_shared_stack_decision s seat pile d) \<noteq> Panic"
proof -
  from assms obtain st p where st: "ds_shared_stack s = Some st"
    "pile_shape (length (ds_seats s)) p st" "length (ds_pools s) = length (ds_seats s)"
    by (auto elim!: playableE)
  show ?thesis
  proof (cases "ds_status s = Drafting \<and> refusal_for st seat pile d = None")
    case True
    then obtain st' pool' where
      "decide_turn (length (ds_seats s)) seat pile d st (ds_pools s ! seat) = Ok (st', pool')"
      using decide_turn_total[OF st(2)] by blast
    with apply_accepted[OF assms st(1)] True show ?thesis by simp
  next
    case False
    with st(1) show ?thesis
      by (auto simp: apply_shared_stack_decision_def Let_def shared_stack_def split: option.splits)
  qed
qed

section \<open>Interpretations of the reducer interfaces\<close>

lemma shared_stack_step_simp [simp]:
  "shared_stack_step s (seat, pile, d) = apply_shared_stack_decision s seat pile d"
  by (simp add: shared_stack_step_def)

interpretation table: live_reducer shared_stack_step playable winston_potential
  "\<lambda>s. ds_status s \<noteq> Drafting"
proof unfold_locales
  fix s :: draft_session and a :: "nat \<times> nat \<times> shared_stack_pile_decision"
  obtain seat pile d where a: "a = (seat, pile, d)" by (cases a)
  assume inv: "playable s"
  show "playable (snd (shared_stack_step s a))"
    using playable_step[OF inv] a by simp
  show "is_ok (fst (shared_stack_step s a)) \<Longrightarrow>
      winston_potential (snd (shared_stack_step s a)) < winston_potential s"
    using winston_step_potential[OF inv] a by simp
  show "\<not> is_ok (fst (shared_stack_step s a)) \<Longrightarrow>
      winston_potential (snd (shared_stack_step s a)) \<le> winston_potential s"
    using a by (simp add: apply_refused_unchanged)
  show "\<not> ds_status s \<noteq> Drafting \<Longrightarrow> \<exists>a. is_ok (fst (shared_stack_step s a))"
    using winston_step_enabled[OF inv] shared_stack_step_simp by (metis (full_types))
qed

interpretation winston: reducer shared_stack_step winston_inv
  by unfold_locales (auto simp: shared_stack_step_def winston_step_inv split: prod.splits)

interpretation table_cards: conserving_reducer shared_stack_step playable winston_cards
  by unfold_locales (auto simp: shared_stack_step_def winston_step_cards split: prod.splits)

interpretation table_safe: panic_free_reducer shared_stack_step playable
  by unfold_locales (auto simp: shared_stack_step_def winston_step_no_panic split: prod.splits)

section \<open>The published rules of Winston drafting as a specification\<close>

text \<open>
  The quotations of \<open>shared_stack.rs\<close> as a step relation over an abstract game, in which the
  main stack lists its top card first: a taken pile is replaced by the top card; a pile put back
  receives the top card; a player who declines the last pile takes the next top card unseen; a
  pile may be put back only if a later pile holds cards, or the last pile's two cards remain.
\<close>

record winston_game =
  wg_stack :: "draft_card_instance list"
  wg_piles :: "draft_card_instance list list"
  wg_pools :: "draft_card_instance list list"
  wg_seat :: nat
  wg_cursor :: nat

fun deal_onto :: "'a list \<Rightarrow> nat \<Rightarrow> 'a list list \<Rightarrow> 'a list \<times> 'a list list" where
  "deal_onto [] i ps = ([], ps)"
| "deal_onto (x # xs) i ps = (xs, ps[i := ps ! i @ [x]])"

inductive winston_move ::
  "nat \<Rightarrow> winston_game \<Rightarrow> shared_stack_pile_decision \<Rightarrow> winston_game \<Rightarrow> bool" for n where
  take_move: "\<lbrakk>wg_cursor g = c; wg_piles g ! c \<noteq> []; wg_seat g = i;
     deal_onto (wg_stack g) c ((wg_piles g)[c := []]) = (xs, ps)\<rbrakk> \<Longrightarrow>
     winston_move n g Take \<lparr>wg_stack = xs, wg_piles = ps,
       wg_pools = (wg_pools g)[i := wg_pools g ! i @ wg_piles g ! c],
       wg_seat = (i + 1) mod n, wg_cursor = 0\<rparr>"
| decline_move: "\<lbrakk>wg_cursor g = c; c < j; j < length (wg_piles g); wg_piles g ! j \<noteq> [];
     deal_onto (wg_stack g) c (wg_piles g) = (xs, ps)\<rbrakk> \<Longrightarrow>
     winston_move n g Decline (g\<lparr>wg_stack := xs, wg_piles := ps, wg_cursor := c + 1\<rparr>)"
| decline_last_move: "\<lbrakk>wg_cursor g = c; c + 1 = length (wg_piles g); wg_seat g = i;
     wg_stack g = x # y # xs\<rbrakk> \<Longrightarrow>
     winston_move n g Decline \<lparr>wg_stack = xs, wg_piles = (wg_piles g)[c := wg_piles g ! c @ [x]],
       wg_pools = (wg_pools g)[i := wg_pools g ! i @ [y]], wg_seat = (i + 1) mod n, wg_cursor = 0\<rparr>"

inductive_cases take_moveE: "winston_move n g Take g'"
inductive_cases decline_moveE: "winston_move n g Decline g'"

definition winston_abs :: "draft_session \<Rightarrow> shared_stack_state \<Rightarrow> winston_game" where
  "winston_abs s st = \<lparr>wg_stack = rev (ss_main_stack st), wg_piles = ss_piles st,
     wg_pools = ds_pools s, wg_seat = ss_active_seat st, wg_cursor = ss_cursor st\<rparr>"

lemma deal_onto_rev:
  "deal_onto (rev xs) c ps = (rev (butlast xs), if xs = [] then ps else ps[c := ps ! c @ [last xs]])"
  by (cases xs rule: rev_cases) simp_all

lemma winston_move_sound:
  assumes "pile_shape n p st" "refusal_for st seat c d = None"
    and "decide_turn n seat c d st (ds_pools s ! seat) = Ok (st', pool')"
    and "ds_pools s' = (ds_pools s)[seat := pool']"
  shows "winston_move n (winston_abs s st) d (winston_abs s' st')"
  using assms(1,2)
proof (cases rule: legal_cases)
  case take
  have "add_u8 (ss_active_seat st) 1 mod n = (ss_active_seat st + 1) mod n"
    using assms(1) by (simp add: pile_shape_def)
  with take assms decide_take[OF assms(1) take(2), of seat "ds_pools s ! seat"]
  have "winston_abs s' st' = \<lparr>wg_stack = rev (butlast (ss_main_stack st)),
      wg_piles = (ss_piles st)[c := (if ss_main_stack st = [] then [] else [last (ss_main_stack st)])],
      wg_pools = (ds_pools s)[seat := ds_pools s ! seat @ ss_piles st ! c],
      wg_seat = (seat + 1) mod n, wg_cursor = 0\<rparr>"
    by (auto simp: winston_abs_def)
  moreover have "winston_move n (winston_abs s st) Take \<dots>"
    using take assms(1) winston_move.take_move[of "winston_abs s st" c seat "rev (butlast (ss_main_stack st))"
        "(ss_piles st)[c := (if ss_main_stack st = [] then [] else [last (ss_main_stack st)])]" n]
    by (simp add: winston_abs_def deal_onto_rev pile_shape_def)
  ultimately show ?thesis using take by simp
next
  case next_pile
  then obtain j where j: "c < j" "j < length (ss_piles st)" "ss_piles st ! j \<noteq> []"
    using assms(1) by (auto simp: pile_shape_def)
  from next_pile assms decide_decline_next[OF assms(1) next_pile(2,4), of seat "ds_pools s ! seat"]
  have "winston_abs s' st' = (winston_abs s st)\<lparr>wg_stack := rev (butlast (ss_main_stack st)),
      wg_piles := (if ss_main_stack st = [] then ss_piles st
         else (ss_piles st)[c := ss_piles st ! c @ [last (ss_main_stack st)]]), wg_cursor := c + 1\<rparr>"
    by (auto simp: winston_abs_def)
  moreover have "winston_move n (winston_abs s st) Decline \<dots>"
    by (rule winston_move.decline_move[where j = j])
      (use next_pile j in \<open>simp_all add: winston_abs_def deal_onto_rev\<close>)
  ultimately show ?thesis using next_pile by simp
next
  case (final_pile xs b a)
  have "add_u8 (ss_active_seat st) 1 mod n = (ss_active_seat st + 1) mod n"
    using assms(1) by (simp add: pile_shape_def)
  with final_pile assms decide_decline_final[OF assms(1) final_pile(2,4,5), of seat "ds_pools s ! seat"]
  have "winston_abs s' st' = \<lparr>wg_stack = rev xs,
      wg_piles = (ss_piles st)[c := ss_piles st ! c @ [a]],
      wg_pools = (ds_pools s)[seat := ds_pools s ! seat @ [b]],
      wg_seat = (seat + 1) mod n, wg_cursor = 0\<rparr>"
    by (auto simp: winston_abs_def)
  moreover have "winston_move n (winston_abs s st) Decline \<dots>"
    using final_pile assms(1) winston_move.decline_last_move[of "winston_abs s st" c seat a b "rev xs" n]
    by (simp add: winston_abs_def pile_shape_def)
  ultimately show ?thesis using final_pile by simp
qed

lemma winston_move_complete:
  assumes "pile_shape n p st" "winston_move n (winston_abs s st) d g"
  shows "refusal_for st (ss_active_seat st) (ss_cursor st) d = None"
proof (cases d)
  case Take
  with assms show ?thesis
    by (auto simp: refusal_for_Take winston_abs_def pile_shape_def elim!: take_moveE)
next
  case Decline
  with assms have "(\<exists>j<length (ss_piles st). ss_cursor st < j \<and> ss_piles st ! j \<noteq> [])
      \<or> ss_cursor st + 1 = length (ss_piles st) \<and> (\<exists>x y xs. rev (ss_main_stack st) = x # y # xs)"
    by (auto simp: winston_abs_def elim!: decline_moveE)
  moreover have "2 \<le> length (ss_main_stack st)" if "rev (ss_main_stack st) = x # y # xs" for x y xs
    using arg_cong[OF that, of length] by simp
  ultimately show ?thesis using Decline assms(1) by (auto simp: refusal_for_Decline pile_shape_def)
qed

text \<open>
  C3. Refinement. In a drafting session that satisfies the invariant, a decision of any seat about
  any pile either is accepted, and then it is the turn of that seat, the pile is the cursor's, the
  published Winston rules allow the move and the new session is the rules' successor: the same
  cards reach the same pile, pool and turn order; or it is refused, and then the session is
  unchanged and the decision is out of turn, about another pile, or one the rules forbid. It never
  panics.
\<close>

theorem winston_refines_rules:
  assumes "winston_inv s" "ds_status s = Drafting" "ds_shared_stack s = Some st"
  shows "case apply_shared_stack_decision s seat pile d of
      (Ok ds, s') \<Rightarrow> seat = wg_seat (winston_abs s st) \<and> pile = wg_cursor (winston_abs s st)
         \<and> (\<exists>st'. ds_shared_stack s' = Some st'
              \<and> winston_move (length (ds_seats s)) (winston_abs s st) d (winston_abs s' st'))
    | (Err e, s') \<Rightarrow> s' = s
         \<and> (seat \<noteq> wg_seat (winston_abs s st) \<or> pile \<noteq> wg_cursor (winston_abs s st)
             \<or> (\<nexists>g. winston_move (length (ds_seats s)) (winston_abs s st) d g))
    | (Panic, _) \<Rightarrow> False"
proof -
  obtain r s' where rs: "apply_shared_stack_decision s seat pile d = (r, s')" by fastforce
  have abs: "wg_seat (winston_abs s st) = ss_active_seat st" "wg_cursor (winston_abs s st) = ss_cursor st"
    by (simp_all add: winston_abs_def)
  show ?thesis
  proof (cases r)
    case (Ok ds)
    with rs have "is_ok (fst (apply_shared_stack_decision s seat pile d))" by simp
    with winston_playable[OF assms(1)] obtain p st' gained where
      p: "pile_shape (length (ds_seats s)) p st" and legal: "refusal_for st seat pile d = None"
      and turn: "decide_turn (length (ds_seats s)) seat pile d st (ds_pools s ! seat) = Ok (st', ds_pools s ! seat @ gained)"
      and at: "seat = ss_active_seat st" "pile = ss_cursor st"
      by (elim apply_Ok_elim) (use assms(3) in auto)
    from winston_move_sound[OF p legal turn] apply_accepted[OF winston_playable[OF assms(1)] assms(3,2) legal turn] rs at
    show ?thesis by (auto simp: abs Ok split: if_splits)
  next
    case (Err e)
    then have same: "s' = s" using apply_refused[OF rs] by simp
    have "\<nexists>g. winston_move (length (ds_seats s)) (winston_abs s st) d g" if "seat = ss_active_seat st" "pile = ss_cursor st"
    proof
      assume "\<exists>g. winston_move (length (ds_seats s)) (winston_abs s st) d g"
      then obtain g where g: "winston_move (length (ds_seats s)) (winston_abs s st) d g" ..
      from assms(1,3) obtain p where p: "pile_shape (length (ds_seats s)) p st" by (auto elim!: winston_invE)
      from winston_move_complete[OF p g] that have legal: "refusal_for st seat pile d = None" by simp
      then obtain st' pool' where "decide_turn (length (ds_seats s)) seat pile d st (ds_pools s ! seat) = Ok (st', pool')"
        using decide_turn_total[OF p] by blast
      from apply_accepted[OF winston_playable[OF assms(1)] assms(3,2) legal this] rs Err show False
        by (auto split: if_splits)
    qed
    with rs Err same show ?thesis by (auto simp: abs)
  next
    case Panic
    with rs winston_step_no_panic[OF winston_playable[OF assms(1)], of seat pile d] show ?thesis by simp
  qed
qed

section \<open>Whole drafts\<close>

text \<open>
  A draft in which every seat is driven by \<open>forced_decision\<close>, as the pick timer and the
  disconnect path do; the fuel bounds the number of decisions.
\<close>

primrec drive_forced :: "nat \<Rightarrow> draft_session \<Rightarrow> draft_session" where
  "drive_forced 0 s = s"
| "drive_forced (Suc fuel) s =
     (case ds_shared_stack s of
        None \<Rightarrow> s
      | Some st \<Rightarrow>
          (case forced_decision st (ss_active_seat st) of
             None \<Rightarrow> s
           | Some d \<Rightarrow>
               (case apply_shared_stack_decision s (ss_active_seat st) (ss_cursor st) d of
                  (Ok _, s') \<Rightarrow> drive_forced fuel s'
                | (_, s') \<Rightarrow> s)))"

definition sample_stack :: shared_stack_state where
  "sample_stack = \<lparr>ss_main_stack = [sample_card ''d'', sample_card ''e''],
     ss_piles = [[sample_card ''a''], [sample_card ''b''], [sample_card ''c'']],
     ss_starting_seat = 0, ss_active_seat = 0, ss_cursor = 0, ss_inspected = [1, 0, 0],
     ss_decisions = 0, ss_history = [], ss_forced_draws = []\<rparr>"

definition sample_winston :: draft_session where
  "sample_winston = (sample_session Winston 2)\<lparr>ds_status := Drafting, ds_shared_stack := Some sample_stack\<rparr>"

lemma sample_winston_inv: "winston_inv sample_winston"
  by (simp add: winston_inv_def sample_winston_def sample_defs pile_shape_def piles_stocked_def
      inspected_prefix_def pile_ahead_def SHARED_STACK_HISTORY_CAPACITY_def upt_rec sample_stack_def
      All_less_Suc Ex_less_Suc numeral_eq_Suc)

lemma sample_winston_simps:
  "ds_status sample_winston = Drafting"
  "ds_shared_stack sample_winston = Some sample_stack"
  "length (ds_seats sample_winston) = 2"
  "ss_active_seat sample_stack = 0"
  "ss_cursor sample_stack = 0"
  by (simp_all add: sample_winston_def sample_stack_def sample_defs)

lemma sample_winston_take:
  "\<exists>ds s' st'. apply_shared_stack_decision sample_winston 0 0 Take = (Ok ds, s') \<and> ds_shared_stack s' = Some st'"
proof -
  have "refusal_for sample_stack 0 0 Take = None" "length (ss_piles sample_stack) = 3"
    by (simp_all add: refusal_for_Take sample_stack_def)
  moreover obtain st' pool' where "decide_turn 2 0 0 Take sample_stack (ds_pools sample_winston ! 0) = Ok (st', pool')"
    using sample_winston_inv decide_turn_total calculation(1) sample_winston_simps
    by (metis winston_invE option.inject)
  ultimately show ?thesis
    using apply_accepted[OF winston_playable[OF sample_winston_inv], of sample_stack 0 0 Take st' pool'] sample_winston_simps by auto
qed

definition drained :: "draft_session \<Rightarrow> bool" where
  "drained s \<longleftrightarrow> (\<exists>st. ds_shared_stack s = Some st \<and> stack_exhausted st)"

lemma drained_pools:
  "drained s \<Longrightarrow> flatten_mset (ds_pools s) = winston_cards s"
  by (auto simp: drained_def stack_exhausted_def winston_cards_def stack_cards_def flatten_mset_concat
      list_all_iff)

lemma apply_finishes:
  assumes "playable s" "apply_shared_stack_decision s seat pile d = (Ok ds, s')"
  shows "ds_status s' = Drafting \<or> ds_status s' = Deckbuilding \<and> drained s'"
proof -
  have "is_ok (fst (apply_shared_stack_decision s seat pile d))" using assms(2) by simp
  then obtain st' pools' where "snd (apply_shared_stack_decision s seat pile d) =
       s\<lparr>ds_shared_stack := Some st', ds_pools := pools',
         ds_status := (if stack_exhausted st' then Deckbuilding else Drafting)\<rparr>"
    using apply_Ok_elim[OF assms(1)] by metis
  with assms(2) show ?thesis by (auto simp: drained_def split: if_splits)
qed

lemma drive_forced_finishes:
  assumes "playable s" "ds_status s = Drafting" "winston_potential s \<le> fuel"
  shows "ds_status (drive_forced fuel s) = Deckbuilding \<and> drained (drive_forced fuel s)
    \<and> winston_cards (drive_forced fuel s) = winston_cards s"
  using assms
proof (induction fuel arbitrary: s)
  case 0
  then show ?case using winston_step_enabled[of s] winston_step_potential[of s] by fastforce
next
  case (Suc fuel)
  from winston_step_enabled[OF Suc.prems(1,2)] obtain st d where *: "ds_shared_stack s = Some st"
    "forced_decision st (ss_active_seat st) = Some d"
    "is_ok (fst (apply_shared_stack_decision s (ss_active_seat st) (ss_cursor st) d))" by blast
  then obtain ds s' where s': "apply_shared_stack_decision s (ss_active_seat st) (ss_cursor st) d = (Ok ds, s')"
    by (metis eq_fst_iff is_ok_iff)
  with * have drive: "drive_forced (Suc fuel) s = drive_forced fuel s'" by simp
  have inv': "playable s'" and cards: "winston_cards s' = winston_cards s"
    and pot: "winston_potential s' < winston_potential s"
    using playable_step[OF Suc.prems(1)] winston_step_cards[OF Suc.prems(1)]
      winston_step_potential[OF Suc.prems(1) *(3)] s' by (metis snd_conv)+
  from apply_finishes[OF Suc.prems(1) s'] show ?case
  proof
    assume "ds_status s' = Drafting"
    with Suc.IH[OF inv'] pot Suc.prems(3) cards drive show ?thesis by simp
  next
    assume fin: "ds_status s' = Deckbuilding \<and> drained s'"
    have "drive_forced fuel s' = s'"
    proof (cases fuel)
      case (Suc f)
      from fin have "\<not> is_ok (fst (apply_shared_stack_decision s' i c e))" for i c e
        by (simp add: apply_shared_stack_decision_def)
      with Suc show ?thesis
        by (auto split: option.splits prod.splits outcome.splits) (metis fst_conv is_ok_simps(1))
    qed simp
    with fin cards drive show ?thesis by simp
  qed
qed

theorem winston_refines_rules_witness:
  "(\<exists>s' st'. winston_move 2 (winston_abs sample_winston sample_stack) Take (winston_abs s' st'))
   \<and> (\<exists>e. apply_shared_stack_decision sample_winston 1 0 Take = (Err e, sample_winston))
   \<and> (\<exists>e. apply_shared_stack_decision sample_winston 0 1 Take = (Err e, sample_winston))"
proof (intro conjI)
  note rules = winston_refines_rules[OF sample_winston_inv sample_winston_simps(1,2)]
  have turn: "wg_seat (winston_abs sample_winston sample_stack) = 0" "wg_cursor (winston_abs sample_winston sample_stack) = 0"
    by (simp_all add: winston_abs_def sample_winston_simps)
  obtain ds s' where "apply_shared_stack_decision sample_winston 0 0 Take = (Ok ds, s')"
    using sample_winston_take by blast
  with rules[of 0 0 Take]
  show "\<exists>s' st'. winston_move 2 (winston_abs sample_winston sample_stack) Take (winston_abs s' st')"
    by (simp add: sample_winston_simps) blast
  show "\<exists>e. apply_shared_stack_decision sample_winston 1 0 Take = (Err e, sample_winston)"
    using rules[of 1 0 Take] turn by (auto split: prod.splits outcome.splits)
  show "\<exists>e. apply_shared_stack_decision sample_winston 0 1 Take = (Err e, sample_winston)"
    using rules[of 0 1 Take] turn by (auto split: prod.splits outcome.splits)
qed

text \<open>
  Conservation. Whatever decisions are sent to a Winston draft, in whatever order and by
  whatever seat, the multiset of cards in the main stack, the piles and the pools is the one the
  draft started with: no card is lost, duplicated or invented.
\<close>

lemma winston_cards_conserved:
  assumes "winston_inv s"
  shows "winston_cards (run shared_stack_step s decisions) = winston_cards s"
  using winston_playable[OF assms] by (rule table_cards.run_content)

text \<open>
  No decision deadlocks or crashes a Winston draft. After any sequence of decisions the
  reducer does not panic on the next one, and while the draft is still running the decision that
  the timer and disconnect paths submit for the active seat exists and is accepted.
\<close>

lemma winston_never_stuck:
  assumes "winston_inv s"
  shows "fst (shared_stack_step (run shared_stack_step s decisions) a) \<noteq> Panic
    \<and> (ds_status (run shared_stack_step s decisions) = Drafting \<longrightarrow>
        (\<exists>st d. ds_shared_stack (run shared_stack_step s decisions) = Some st
           \<and> forced_decision st (ss_active_seat st) = Some d
           \<and> is_ok (fst (shared_stack_step (run shared_stack_step s decisions)
                (ss_active_seat st, ss_cursor st, d)))))"
  using table_safe.run_no_panic[OF winston_playable[OF assms]] winston_step_enabled[OF table.run_inv[OF winston_playable[OF assms]]] by simp

text \<open>
  C4. Termination. A Winston draft accepts at most \<open>winston_potential\<close> decisions in any run, and
  driving the active seat with \<open>forced_decision\<close> that often always ends it: the session
  reaches \<open>Deckbuilding\<close> with the stack and every pile empty, and every card the draft
  started with is in some seat's pool.
\<close>

theorem winston_terminates:
  assumes "winston_inv s" "ds_status s = Drafting"
  shows "accepted shared_stack_step s decisions \<le> winston_potential s
    \<and> ds_status (drive_forced (winston_potential s) s) = Deckbuilding
    \<and> flatten_mset (ds_pools (drive_forced (winston_potential s) s)) = winston_cards s"
  using table.accepted_bound[OF winston_playable[OF assms(1)], of decisions] drained_pools
    drive_forced_finishes[OF winston_playable[OF assms(1)] assms(2) order.refl]
  by auto

theorem winston_terminates_witness:
  "ds_status (drive_forced (winston_potential sample_winston) sample_winston) = Deckbuilding
   \<and> size (flatten_mset (ds_pools (drive_forced (winston_potential sample_winston) sample_winston))) = 5"
  using winston_terminates[OF sample_winston_inv sample_winston_simps(1), of "[]"]
  by (simp add: sample_winston_def sample_stack_def sample_defs winston_cards_def stack_cards_def flatten_mset_concat upt_rec)

text \<open>
  Hidden information. After every accepted decision, what the next active seat may see is
  bounded: of each pile it has inspected a prefix, of the pile under the cursor all cards, and of
  the piles beyond the cursor none; the decision history stays within its capacity.
\<close>

lemma winston_inspection_bounded:
  assumes "winston_inv s" "apply_shared_stack_decision s seat pile d = (Ok ds, s')"
    and "ds_shared_stack s' = Some st'"
  shows "length (ss_history st') \<le> SHARED_STACK_HISTORY_CAPACITY
    \<and> ss_cursor st' < length (ss_piles st')
    \<and> ss_inspected st' ! ss_cursor st' = length (ss_piles st' ! ss_cursor st')
    \<and> (\<forall>i<length (ss_piles st'). ss_inspected st' ! i \<le> length (ss_piles st' ! i)
         \<and> (ss_cursor st' < i \<longrightarrow> ss_inspected st' ! i = 0))"
proof -
  have "winston_inv s'" using winston_step_inv[OF assms(1), of seat pile d] assms(2) by simp
  with assms(3) show ?thesis
    by (auto simp: winston_inv_def pile_shape_def inspected_prefix_def)
qed

text \<open>
  Every turn pays. An accepted decision either passes the turn to the next seat, and then the
  deciding seat's pool has grown by at least one card, or it keeps the turn with the cursor on
  the next pile and no pool changes; the other seats' pools never change.
\<close>

lemma winston_turn_pays:
  assumes "winston_inv s" "apply_shared_stack_decision s seat pile d = (Ok ds, s')"
    and "ds_shared_stack s = Some st" "ds_shared_stack s' = Some st'"
  shows "\<exists>gained. ds_pools s' = (ds_pools s)[seat := ds_pools s ! seat @ gained]
    \<and> (if gained = [] then ss_active_seat st' = seat \<and> ss_cursor st' = ss_cursor st + 1
       else ss_active_seat st' = (seat + 1) mod length (ds_seats s) \<and> ss_cursor st' = 0)"
proof -
  have "is_ok (fst (apply_shared_stack_decision s seat pile d))" using assms(2) by simp
  then obtain st0 p st'' gained where st0: "ds_shared_stack s = Some st0"
    and facts: "pile_shape (length (ds_seats s)) p st0" "seat = ss_active_seat st0"
    "refusal_for st0 seat pile d = None"
    "decide_turn (length (ds_seats s)) seat pile d st0 (ds_pools s ! seat) = Ok (st'', ds_pools s ! seat @ gained)"
    "gained = [] \<longleftrightarrow> d = Decline \<and> pile + 1 < p"
    "snd (apply_shared_stack_decision s seat pile d) =
       s\<lparr>ds_shared_stack := Some st'', ds_pools := (ds_pools s)[seat := ds_pools s ! seat @ gained],
         ds_status := (if stack_exhausted st'' then Deckbuilding else Drafting)\<rparr>"
    by (elim apply_Ok_elim[OF winston_playable[OF assms(1)]])
  from st0 assms(3) have eq: "st0 = st" by simp
  note * = facts[unfolded eq]
  have s': "s' = s\<lparr>ds_shared_stack := Some st'', ds_pools := (ds_pools s)[seat := ds_pools s ! seat @ gained],
         ds_status := (if stack_exhausted st'' then Deckbuilding else Drafting)\<rparr>"
    using *(6) assms(2) by simp
  have u8: "add_u8 seat 1 mod length (ds_seats s) = (seat + 1) mod length (ds_seats s)"
    using *(1,2) by (simp add: pile_shape_def)
  from *(1,3) have "if gained = [] then ss_active_seat st'' = seat \<and> ss_cursor st'' = ss_cursor st + 1
       else ss_active_seat st'' = (seat + 1) mod length (ds_seats s) \<and> ss_cursor st'' = 0"
  proof (cases rule: legal_cases)
    case take
    with decide_take[OF *(1), of pile seat "ds_pools s ! seat"] *(2,4,5) u8 show ?thesis by auto
  next
    case next_pile
    with decide_decline_next[OF *(1), of pile seat "ds_pools s ! seat"] *(2,4,5) u8 show ?thesis by auto
  next
    case (final_pile xs b a)
    with decide_decline_final[OF *(1), of pile xs b a seat "ds_pools s ! seat"] *(2,4,5) u8 show ?thesis by auto
  qed
  moreover have "st'' = st'" using s' assms(4) by simp
  ultimately show ?thesis using s' by (intro exI[of _ gained]) (simp split: if_splits)
qed

end
