(* ===== verification/Fifo_Clock.thy ===== *)
theory Fifo_Clock
  imports Draft_Session
begin

text \<open>
  \<open>crates/draft-core/src/clock.rs\<close> (all but \<open>advance\<close>, which needs the selections) and the
  round operations \<open>open_fifo_round\<close> and \<open>finish_fifo_round\<close> of \<open>session.rs\<close>: prompts
  follow the heads of the seats' pack queues, clocks run, freeze and resume with explicitly
  passed time. These functions run on the clone that \<open>apply_at\<close> stages, which is dropped when
  they fail, so they return the new session only with an \<open>Ok\<close>.
\<close>

type_synonym fifo_step = "(draft_delta list \<times> draft_session) draft_result"

section \<open>Time\<close>

definition SEAT_STEP_MS :: "nat list" where
  "SEAT_STEP_MS = [75000, 70000, 65000, 58000, 52000, 46000, 40000, 34000, 28000, 23000, 20000, 18000,
     16000, 15000]"

definition increment :: "nat \<Rightarrow> nat draft_result" where
  "increment v = ok_or InvalidClockBounds
     (option_filter (\<lambda>n. n \<le> MAX_DRAFT_JSON_INTEGER) (checked_add_u64 v 1))"

definition clamped_now :: "draft_session \<Rightarrow> nat \<Rightarrow> nat draft_result" where
  "clamped_now s now =
     (if MAX_DRAFT_JSON_INTEGER < now then Err InvalidClockBounds
      else and_then (fifo_ref s) (\<lambda>fifo. Ok (max now (ff_last_now_ms fifo))))"

definition pick_duration :: "pick_clock_policy \<Rightarrow> nat \<Rightarrow> nat option" where
  "pick_duration policy steps =
     (case policy of
        ClockOff \<Rightarrow> None
      | ClockFixed duration_ms \<Rightarrow> Some duration_ms
      | ClockSeatStep \<Rightarrow> Some (SEAT_STEP_MS ! min steps 13))"

definition deadline :: "nat \<Rightarrow> nat \<Rightarrow> nat draft_result" where
  "deadline now remaining = ok_or InvalidClockBounds
     (option_filter (\<lambda>v. v \<le> MAX_DRAFT_JSON_INTEGER) (checked_add_u64 now remaining))"

definition running :: "draft_clock_target \<Rightarrow> nat \<Rightarrow> nat \<Rightarrow> draft_clock draft_result" where
  "running target now duration =
     and_then (deadline now duration) (\<lambda>deadline_ms.
       Ok \<lparr>ck_target = target, ck_state = Running deadline_ms\<rparr>)"

section \<open>Prompts\<close>

definition issue_clock ::
  "pick_clock_policy \<Rightarrow> nat \<Rightarrow> nat \<Rightarrow> draft_prompt_id \<Rightarrow> draft_clock option draft_result" where
  "issue_clock policy steps now prompt_id =
     (case pick_duration policy steps of
        None \<Rightarrow> Ok None
      | Some duration \<Rightarrow> and_then (running (TargetPick prompt_id) now duration) (\<lambda>c. Ok (Some c)))"

definition reconcile_seat ::
  "pick_clock_policy \<Rightarrow> string \<Rightarrow> nat \<Rightarrow> nat \<times> fifo_seat_state \<Rightarrow> fifo_seat_state draft_result" where
  "reconcile_seat policy session_id now entry =
     (case entry of (idx, seat) \<Rightarrow>
       (case fs_queue seat of
          [] \<Rightarrow> Ok (seat\<lparr>fs_prompt := None\<rparr>)
        | head # _ \<Rightarrow>
            if (case fs_prompt seat of None \<Rightarrow> False | Some p \<Rightarrow> pm_pack_id p = qp_pack_id head)
            then Ok seat
            else and_then (increment (fs_generation seat)) (\<lambda>generation.
              case try_u8 idx of
                None \<Rightarrow> Panic
              | Some seat_index \<Rightarrow>
                  let prompt_id = \<lparr>pi_session_id = session_id, pi_seat = seat_index,
                                   pi_generation = generation\<rparr>
                  in and_then (issue_clock policy (fs_round_completed_steps seat) now prompt_id) (\<lambda>clock.
                       Ok (seat\<lparr>fs_generation := generation,
                                fs_prompt := Some \<lparr>pm_id = prompt_id, pm_pack_id = qp_pack_id head,
                                                   pm_clock = clock\<rparr>\<rparr>)))))"

definition reconcile_prompts :: "draft_session \<Rightarrow> nat \<Rightarrow> draft_session draft_result" where
  "reconcile_prompts s now =
     and_then (fifo_ref s) (\<lambda>fifo.
     and_then (try_map (reconcile_seat (kp_pick (cf_clock_policy (ds_config s))) (ff_session_id fifo) now)
                 (List.enumerate 0 (ff_seats fifo)))
       (\<lambda>seats. Ok (s\<lparr>ds_fifo := Some (fifo\<lparr>ff_seats := seats\<rparr>)\<rparr>)))"

section \<open>Pause and resume\<close>

definition seat_clock :: "(draft_clock \<Rightarrow> draft_clock draft_result) \<Rightarrow> fifo_seat_state \<Rightarrow> fifo_seat_state draft_result" where
  "seat_clock f seat =
     (case fs_prompt seat of
        None \<Rightarrow> Ok seat
      | Some prompt \<Rightarrow>
          (case pm_clock prompt of
             None \<Rightarrow> Ok seat
           | Some clock \<Rightarrow> and_then (f clock) (\<lambda>clock'.
               Ok (seat\<lparr>fs_prompt := Some (prompt\<lparr>pm_clock := Some clock'\<rparr>)\<rparr>))))"

definition review_clock ::
  "(draft_clock \<Rightarrow> draft_clock draft_result) \<Rightarrow> draft_review_state option \<Rightarrow> draft_review_state option draft_result" where
  "review_clock f review =
     (case review of
        None \<Rightarrow> Ok None
      | Some r \<Rightarrow> and_then (f (rv_clock r)) (\<lambda>clock'. Ok (Some (r\<lparr>rv_clock := clock'\<rparr>))))"

definition for_each_clock ::
  "(draft_clock \<Rightarrow> draft_clock draft_result) \<Rightarrow> draft_session \<Rightarrow> draft_session draft_result" where
  "for_each_clock f s =
     and_then (fifo_ref s) (\<lambda>fifo.
     and_then (try_map (seat_clock f) (ff_seats fifo)) (\<lambda>seats.
     and_then (review_clock f (ff_review fifo)) (\<lambda>review.
       Ok (s\<lparr>ds_fifo := Some (fifo\<lparr>ff_seats := seats, ff_review := review\<rparr>)\<rparr>))))"

definition freeze :: "nat \<Rightarrow> draft_clock \<Rightarrow> draft_clock draft_result" where
  "freeze now clock =
     (case ck_state clock of
        Running deadline_ms \<Rightarrow> Ok (clock\<lparr>ck_state := Frozen (deadline_ms - now)\<rparr>)
      | Frozen _ \<Rightarrow> Err (snapshot_error ''pause expected running scope''))"

definition thaw :: "nat \<Rightarrow> draft_clock \<Rightarrow> draft_clock draft_result" where
  "thaw now clock =
     (case ck_state clock of
        Frozen remaining_ms \<Rightarrow>
          and_then (deadline now remaining_ms) (\<lambda>d. Ok (clock\<lparr>ck_state := Running d\<rparr>))
      | Running _ \<Rightarrow> Err (snapshot_error ''resume expected frozen scope''))"

definition pause_phase :: "draft_status \<Rightarrow> draft_active_phase draft_result" where
  "pause_phase status =
     (case status of
        Drafting \<Rightarrow> Ok PhaseDrafting
      | Review \<Rightarrow> Ok PhaseReview
      | _ \<Rightarrow> Err (InvalidTransition status ''Pause''))"

fun phase_status :: "draft_active_phase \<Rightarrow> draft_status" where
  "phase_status PhaseDrafting = Drafting"
| "phase_status PhaseReview = Review"

definition update_fifo :: "(fifo_draft_state \<Rightarrow> fifo_draft_state) \<Rightarrow> draft_session \<Rightarrow> draft_session draft_result" where
  "update_fifo f s = and_then (fifo_ref s) (\<lambda>fifo. Ok (s\<lparr>ds_fifo := Some (f fifo)\<rparr>))"

fun control :: "draft_session \<Rightarrow> draft_control \<Rightarrow> nat \<Rightarrow> fifo_step" where
  "control s (Pause reason) now =
     and_then (pause_phase (ds_status s)) (\<lambda>phase.
     and_then (for_each_clock (freeze now) s) (\<lambda>s1.
     and_then (update_fifo (\<lambda>f. f\<lparr>ff_paused := Some \<lparr>pz_phase = phase, pz_reason = reason\<rparr>\<rparr>) s1) (\<lambda>s2.
       Ok ([TransitionedTo Paused], s2\<lparr>ds_status := Paused\<rparr>))))"
| "control s Resume now =
     (if ds_status s \<noteq> Paused then Err (InvalidTransition (ds_status s) ''Resume'')
      else and_then (fifo_ref s) (\<lambda>fifo.
        and_then (ok_or (snapshot_error ''missing paused phase'') (ff_paused fifo)) (\<lambda>paused.
        and_then (for_each_clock (thaw now) s) (\<lambda>s1.
        and_then (update_fifo (\<lambda>f. f\<lparr>ff_paused := None\<rparr>) s1) (\<lambda>s2.
          Ok ([TransitionedTo (phase_status (pz_phase paused))],
              s2\<lparr>ds_status := phase_status (pz_phase paused)\<rparr>))))))"

section \<open>Rounds\<close>

definition open_seat_pack :: "nat \<Rightarrow> nat \<Rightarrow> draft_session \<Rightarrow> draft_session draft_result" where
  "open_seat_pack rnd seat s =
     and_then (index (ds_packs_by_seat s) seat) (\<lambda>packs.
       case packs of
         [] \<Rightarrow> Err (snapshot_error ''missing unopened pack'')
       | pack # rest \<Rightarrow>
           (case try_u32 seat of
              None \<Rightarrow> Panic
            | Some seat32 \<Rightarrow>
                let pack_id = DraftPackId (add_u32 (rnd * cf_pod_size (ds_config s)) seat32) in
                and_then (fifo_ref s) (\<lambda>fifo.
                and_then (ok_or (snapshot_error ''missing pack provenance'') (fmlookup (ff_packs fifo) pack_id)) (\<lambda>original.
                and_then (index (ff_seats fifo) seat) (\<lambda>target.
                  let target' = target\<lparr>fs_round_completed_steps := 0,
                        fs_queue := fs_queue target @ [\<lparr>qp_pack_id = pack_id,
                          qp_opening_seat = pp_opening_seat original, qp_round = rnd,
                          qp_original_size = pp_original_size original, qp_pack = pack\<rparr>]\<rparr>
                  in Ok (s\<lparr>ds_packs_by_seat := (ds_packs_by_seat s)[seat := rest],
                           ds_fifo := Some (fifo\<lparr>ff_seats := (ff_seats fifo)[seat := target']\<rparr>)\<rparr>))))))"

definition open_fifo_round :: "draft_session \<Rightarrow> nat \<Rightarrow> nat \<Rightarrow> draft_session draft_result" where
  "open_fifo_round s rnd now =
     and_then (update_fifo (\<lambda>f. f\<lparr>ff_review := None\<rparr>)
                (s\<lparr>ds_current_pack_number := rnd, ds_pass_direction := for_pack rnd,
                   ds_status := Drafting\<rparr>)) (\<lambda>s1.
     and_then (try_fold (open_seat_pack rnd) [0..<length (ds_seats s1)] s1) (\<lambda>s2.
       reconcile_prompts s2 now))"

definition checked_add_u8 :: "nat \<Rightarrow> nat \<Rightarrow> nat option" where
  "checked_add_u8 a b = (if a + b < 256 then Some (a + b) else None)"

definition finish_fifo_round :: "draft_session \<Rightarrow> nat \<Rightarrow> fifo_step" where
  "finish_fifo_round s now =
     and_then (fifo_ref s) (\<lambda>fifo.
     and_then (reconcile_prompts s now) (\<lambda>s1.
       if list_ex (\<lambda>seat. fs_queue seat \<noteq> []) (ff_seats fifo) then Ok ([], s1)
       else let exhausted_round = ds_current_pack_number s1 in
         and_then (ok_or InvalidClockBounds (checked_add_u8 exhausted_round 1)) (\<lambda>next_round.
           if next_round = cf_pack_count (ds_config s1)
           then Ok ([TransitionedTo Deckbuilding],
                    s1\<lparr>ds_current_pack_number := next_round, ds_status := Deckbuilding\<rparr>)
           else let duration = kp_review_duration_ms (cf_clock_policy (ds_config s1)) in
             if duration = 0
             then and_then (open_fifo_round s1 next_round now) (\<lambda>s2. Ok ([PackExhausted next_round], s2))
             else and_then (running (TargetReview next_round) now duration) (\<lambda>clock.
                  and_then (update_fifo (\<lambda>f. f\<lparr>ff_review := Some \<lparr>rv_exhausted_round = exhausted_round,
                        rv_next_round = next_round, rv_clock = clock\<rparr>\<rparr>) s1) (\<lambda>s2.
                    Ok ([TransitionedTo Review], s2\<lparr>ds_status := Review\<rparr>))))))"

section \<open>Time stays within the interoperable integer range\<close>

lemma MAX_less_u64: "n \<le> MAX_DRAFT_JSON_INTEGER \<Longrightarrow> n < 2 ^ 64"
  by (simp add: MAX_DRAFT_JSON_INTEGER_def)

lemma deadline_Ok_iff:
  "deadline now r = Ok d \<longleftrightarrow> d = now + r \<and> now + r \<le> MAX_DRAFT_JSON_INTEGER"
  using MAX_less_u64[of "now + r"] by (auto simp: deadline_def checked_add_u64_def)

lemma increment_Ok_iff: "increment v = Ok n \<longleftrightarrow> n = v + 1 \<and> v + 1 \<le> MAX_DRAFT_JSON_INTEGER"
  using MAX_less_u64[of "v + 1"] by (auto simp: increment_def checked_add_u64_def)

lemma clock_not_Panic [simp]:
  "deadline now r \<noteq> Panic" "increment v \<noteq> Panic" "running t now r \<noteq> Panic"
  "freeze now c \<noteq> Panic" "thaw now c \<noteq> Panic" "issue_clock p st now i \<noteq> Panic"
  by (auto simp: deadline_def increment_def running_def freeze_def thaw_def issue_clock_def outcome_simps
      split: draft_clock_state.splits option.splits)

lemma running_Ok_iff:
  "running t now r = Ok c \<longleftrightarrow>
     c = \<lparr>ck_target = t, ck_state = Running (now + r)\<rparr> \<and> now + r \<le> MAX_DRAFT_JSON_INTEGER"
  by (auto simp: running_def outcome_simps deadline_Ok_iff)

section \<open>Prompts follow the queue heads\<close>

definition prompt_matches :: "fifo_seat_state \<Rightarrow> bool" where
  "prompt_matches seat \<longleftrightarrow>
     (case fs_queue seat of
        [] \<Rightarrow> fs_prompt seat = None
      | head # _ \<Rightarrow> (\<exists>p. fs_prompt seat = Some p \<and> pm_pack_id p = qp_pack_id head))"

definition prompted :: "draft_session \<Rightarrow> bool" where
  "prompted s \<longleftrightarrow> (\<exists>fifo. ds_fifo s = Some fifo \<and> (\<forall>seat\<in>set (ff_seats fifo). prompt_matches seat))"

lemma reconcile_seat_Ok:
  assumes "reconcile_seat policy sid now (i, seat) = Ok seat'"
  shows "prompt_matches seat'" "fs_queue seat' = fs_queue seat"
    "fs_completed_steps seat' = fs_completed_steps seat"
    "fs_round_completed_steps seat' = fs_round_completed_steps seat"
    "fs_generation seat \<le> fs_generation seat'"
    "prompt_matches seat \<Longrightarrow> seat' = seat"
    "fs_queue seat \<noteq> [] \<Longrightarrow> \<not> prompt_matches seat \<Longrightarrow>
       fs_generation seat' = fs_generation seat + 1
       \<and> (\<exists>c. fs_prompt seat' = Some \<lparr>pm_id = \<lparr>pi_session_id = sid, pi_seat = i,
              pi_generation = fs_generation seat + 1\<rparr>,
            pm_pack_id = qp_pack_id (hd (fs_queue seat)), pm_clock = c\<rparr>
          \<and> map_option ck_state c
              = map_option (\<lambda>duration. Running (now + duration)) (pick_duration policy (fs_round_completed_steps seat)))"
  using assms
  by (auto simp: reconcile_seat_def prompt_matches_def outcome_simps increment_Ok_iff issue_clock_def
      running_Ok_iff Let_def split: list.splits if_splits option.splits)

lemma reconcile_seat_stable: "prompt_matches seat \<Longrightarrow> reconcile_seat policy sid now (i, seat) = Ok seat"
  by (cases seat) (auto simp: reconcile_seat_def prompt_matches_def split: list.splits)

lemma reconcile_seat_not_Panic: "i < 256 \<Longrightarrow> reconcile_seat policy sid now (i, seat) \<noteq> Panic"
  by (auto simp: reconcile_seat_def try_u8_def outcome_simps Let_def split: list.splits)

lemma reconcile_prompts_Ok:
  assumes "reconcile_prompts s now = Ok s'"
  obtains fifo seats where "ds_fifo s = Some fifo" "s' = s\<lparr>ds_fifo := Some (fifo\<lparr>ff_seats := seats\<rparr>)\<rparr>"
    "length seats = length (ff_seats fifo)"
    "\<And>i. i < length seats \<Longrightarrow> reconcile_seat (kp_pick (cf_clock_policy (ds_config s))) (ff_session_id fifo) now
        (i, ff_seats fifo ! i) = Ok (seats ! i)"
proof -
  from assms obtain fifo seats where *: "ds_fifo s = Some fifo"
    "s' = s\<lparr>ds_fifo := Some (fifo\<lparr>ff_seats := seats\<rparr>)\<rparr>"
    "try_map (reconcile_seat (kp_pick (cf_clock_policy (ds_config s))) (ff_session_id fifo) now)
       (List.enumerate 0 (ff_seats fifo)) = Ok seats"
    by (auto simp: reconcile_prompts_def outcome_simps)
  from *(3) have len: "length seats = length (ff_seats fifo)" by (auto dest: try_map_length)
  show thesis
    by (rule that[OF *(1,2) len]) (use try_map_enumerate_nth[OF *(3)] len in simp)
qed

lemma reconcile_prompts_prompted:
  assumes "reconcile_prompts s now = Ok s'"
  shows "prompted s'"
  using assms
proof (rule reconcile_prompts_Ok)
  fix fifo seats
  assume *: "s' = s\<lparr>ds_fifo := Some (fifo\<lparr>ff_seats := seats\<rparr>)\<rparr>" "length seats = length (ff_seats fifo)"
    "\<And>i. i < length seats \<Longrightarrow> reconcile_seat (kp_pick (cf_clock_policy (ds_config s))) (ff_session_id fifo) now
        (i, ff_seats fifo ! i) = Ok (seats ! i)"
  then have "\<And>i. i < length seats \<Longrightarrow> prompt_matches (seats ! i)" using reconcile_seat_Ok(1) by blast
  with *(1) show ?thesis by (auto simp: prompted_def in_set_conv_nth)
qed

lemma try_map_id: "(\<And>x. x \<in> set xs \<Longrightarrow> f x = Ok (g x)) \<Longrightarrow> try_map f xs = Ok (map g xs)"
  by (induction xs) auto

lemma reconcile_prompts_stable:
  assumes "prompted s"
  shows "reconcile_prompts s now = Ok s"
proof -
  from assms obtain fifo where *: "ds_fifo s = Some fifo" "\<forall>seat\<in>set (ff_seats fifo). prompt_matches seat"
    by (auto simp: prompted_def)
  have "try_map (reconcile_seat policy sid now) (List.enumerate 0 (ff_seats fifo))
      = Ok (map snd (List.enumerate 0 (ff_seats fifo)))" for policy sid
    using *(2) by (intro try_map_id) (auto simp: in_set_enumerate_eq reconcile_seat_stable)
  with *(1) show ?thesis by (simp add: reconcile_prompts_def fifo_ref_def)
qed

section \<open>Clocks of a session\<close>

definition clocks :: "fifo_draft_state \<Rightarrow> draft_clock set" where
  "clocks fifo = {c. \<exists>seat\<in>set (ff_seats fifo). \<exists>p. fs_prompt seat = Some p \<and> pm_clock p = Some c}
     \<union> rv_clock ` set_option (ff_review fifo)"

definition map_seat_clock :: "(draft_clock \<Rightarrow> draft_clock) \<Rightarrow> fifo_seat_state \<Rightarrow> fifo_seat_state" where
  "map_seat_clock g seat = seat\<lparr>fs_prompt := map_option (\<lambda>p. p\<lparr>pm_clock := map_option g (pm_clock p)\<rparr>) (fs_prompt seat)\<rparr>"

definition map_clocks :: "(draft_clock \<Rightarrow> draft_clock) \<Rightarrow> fifo_draft_state \<Rightarrow> fifo_draft_state" where
  "map_clocks g fifo = fifo\<lparr>ff_seats := map (map_seat_clock g) (ff_seats fifo),
     ff_review := map_option (\<lambda>r. r\<lparr>rv_clock := g (rv_clock r)\<rparr>) (ff_review fifo)\<rparr>"

lemma map_seat_clock_compose: "map_seat_clock g (map_seat_clock h seat) = map_seat_clock (g \<circ> h) seat"
  by (cases "fs_prompt seat") (simp_all add: map_seat_clock_def option.map_comp)

lemma map_clocks_compose: "map_clocks g (map_clocks h fifo) = map_clocks (g \<circ> h) fifo"
  by (cases "ff_review fifo") (simp_all add: map_clocks_def map_seat_clock_compose o_def)

lemma map_clocks_paused: "map_clocks g (fifo\<lparr>ff_paused := x\<rparr>) = (map_clocks g fifo)\<lparr>ff_paused := x\<rparr>"
  by (cases fifo) (simp add: map_clocks_def)

lemma clocks_map_clocks: "clocks (map_clocks g fifo) = g ` clocks fifo"
proof -
  have "(\<exists>seat\<in>set (ff_seats fifo). \<exists>p. fs_prompt (map_seat_clock g seat) = Some p \<and> pm_clock p = Some c)
     \<longleftrightarrow> c \<in> g ` {c. \<exists>seat\<in>set (ff_seats fifo). \<exists>p. fs_prompt seat = Some p \<and> pm_clock p = Some c}" for c
    by (fastforce simp: map_seat_clock_def)
  then show ?thesis by (cases "ff_review fifo") (auto simp: clocks_def map_clocks_def image_Un)
qed

lemma map_clocks_cong:
  assumes "\<And>c. c \<in> clocks fifo \<Longrightarrow> g c = h c"
  shows "map_clocks g fifo = map_clocks h fifo"
proof -
  have "map_seat_clock g seat = map_seat_clock h seat" if seat: "seat \<in> set (ff_seats fifo)" for seat
  proof (cases "fs_prompt seat")
    case (Some p)
    with seat assms have "map_option g (pm_clock p) = map_option h (pm_clock p)"
      by (cases "pm_clock p") (auto simp: clocks_def)
    with Some show ?thesis by (simp add: map_seat_clock_def)
  qed (simp add: map_seat_clock_def)
  moreover have "map_option (\<lambda>r. r\<lparr>rv_clock := g (rv_clock r)\<rparr>) (ff_review fifo)
      = map_option (\<lambda>r. r\<lparr>rv_clock := h (rv_clock r)\<rparr>) (ff_review fifo)"
    using assms by (cases "ff_review fifo") (auto simp: clocks_def)
  ultimately show ?thesis by (simp add: map_clocks_def cong: map_cong)
qed

lemma for_each_clock_Ok:
  assumes "ds_fifo s = Some fifo" "\<And>c. c \<in> clocks fifo \<Longrightarrow> f c = Ok (g c)"
  shows "for_each_clock f s = Ok (s\<lparr>ds_fifo := Some (map_clocks g fifo)\<rparr>)"
proof -
  have "try_map (seat_clock f) (ff_seats fifo) = Ok (map (map_seat_clock g) (ff_seats fifo))"
  proof (rule try_map_id)
    fix seat assume "seat \<in> set (ff_seats fifo)"
    with assms(2) have "\<And>p c. fs_prompt seat = Some p \<Longrightarrow> pm_clock p = Some c \<Longrightarrow> f c = Ok (g c)"
      by (auto simp: clocks_def)
    then show "seat_clock f seat = Ok (map_seat_clock g seat)"
      by (cases seat) (auto simp: seat_clock_def map_seat_clock_def split: option.splits)
  qed
  moreover have "review_clock f (ff_review fifo) = Ok (map_option (\<lambda>r. r\<lparr>rv_clock := g (rv_clock r)\<rparr>) (ff_review fifo))"
    using assms(2) by (cases "ff_review fifo") (auto simp: review_clock_def clocks_def)
  ultimately show ?thesis using assms(1) by (simp add: for_each_clock_def map_clocks_def fifo_ref_def)
qed

lemma for_each_clock_all:
  assumes "for_each_clock f s = Ok s'" "ds_fifo s = Some fifo" "c \<in> clocks fifo"
  shows "\<exists>c'. f c = Ok c'"
proof -
  from assms(1,2) obtain seats review where *: "try_map (seat_clock f) (ff_seats fifo) = Ok seats"
    "review_clock f (ff_review fifo) = Ok review"
    by (auto simp: for_each_clock_def outcome_simps)
  from assms(3) consider i p where "i < length (ff_seats fifo)" "fs_prompt (ff_seats fifo ! i) = Some p"
      "pm_clock p = Some c"
    | r where "ff_review fifo = Some r" "c = rv_clock r"
    by (auto simp: clocks_def in_set_conv_nth)
  then show ?thesis
  proof cases
    case 1
    with try_map_nth[OF *(1) 1(1)] show ?thesis by (auto simp: seat_clock_def outcome_simps)
  next
    case 2
    with *(2) show ?thesis by (auto simp: review_clock_def outcome_simps)
  qed
qed

definition retime :: "(nat \<Rightarrow> nat) \<Rightarrow> draft_clock \<Rightarrow> draft_clock" where
  "retime g c = c\<lparr>ck_state := (case ck_state c of Running d \<Rightarrow> Running (g d) | Frozen r \<Rightarrow> Frozen r)\<rparr>"

definition frozen_at :: "nat \<Rightarrow> draft_clock \<Rightarrow> draft_clock" where
  "frozen_at now c = c\<lparr>ck_state := (case ck_state c of Running d \<Rightarrow> Frozen (d - now) | Frozen r \<Rightarrow> Frozen r)\<rparr>"

lemma pause_Ok:
  assumes "control s (Pause reason) now = Ok (ds, s1)"
  obtains fifo phase where "ds_fifo s = Some fifo" "pause_phase (ds_status s) = Ok phase"
    "\<And>c. c \<in> clocks fifo \<Longrightarrow> \<exists>d. ck_state c = Running d"
    "ds = [TransitionedTo Paused]"
    "s1 = s\<lparr>ds_fifo := Some ((map_clocks (frozen_at now) fifo)\<lparr>ff_paused := Some \<lparr>pz_phase = phase, pz_reason = reason\<rparr>\<rparr>),
            ds_status := Paused\<rparr>"
proof -
  from assms obtain phase t u where *: "pause_phase (ds_status s) = Ok phase"
    "for_each_clock (freeze now) s = Ok t"
    "update_fifo (\<lambda>f. f\<lparr>ff_paused := Some \<lparr>pz_phase = phase, pz_reason = reason\<rparr>\<rparr>) t = Ok u"
    "ds = [TransitionedTo Paused]" "s1 = u\<lparr>ds_status := Paused\<rparr>"
    by (auto simp: outcome_simps)
  from *(2) obtain fifo where fifo: "ds_fifo s = Some fifo" by (auto simp: for_each_clock_def outcome_simps)
  have run: "\<exists>d. ck_state c = Running d" if "c \<in> clocks fifo" for c
    using for_each_clock_all[OF *(2) fifo that] by (auto simp: freeze_def split: draft_clock_state.splits)
  then have "freeze now c = Ok (frozen_at now c)" if "c \<in> clocks fifo" for c
    using that by (fastforce simp: freeze_def frozen_at_def)
  from for_each_clock_Ok[OF fifo this] *(2) have "t = s\<lparr>ds_fifo := Some (map_clocks (frozen_at now) fifo)\<rparr>"
    by simp
  with that[OF fifo *(1) run *(4)] *(3,5) show thesis by (auto simp: update_fifo_def outcome_simps)
qed

lemma pause_phase_status: "pause_phase st = Ok phase \<Longrightarrow> phase_status phase = st"
  by (auto simp: pause_phase_def split: draft_status.splits)

text \<open>
  C20. Pausing and resuming. A pause accepted at \<open>now\<close> and a resume at \<open>later\<close> return the
  session to the phase it was paused in, with every clock owing exactly the time it had left:
  each deadline \<open>d\<close> becomes \<open>later + (d - now)\<close>, and nothing else changes.
\<close>

theorem pause_resume_roundtrip:
  assumes "control s (Pause reason) now = Ok (ds, s1)"
    and "ds_fifo s = Some fifo" "ff_paused fifo = None"
    and "\<And>c d. c \<in> clocks fifo \<Longrightarrow> ck_state c = Running d \<Longrightarrow> later + (d - now) \<le> MAX_DRAFT_JSON_INTEGER"
  shows "control s1 Resume later = Ok ([TransitionedTo (ds_status s)],
     s\<lparr>ds_fifo := Some (map_clocks (retime (\<lambda>d. later + (d - now))) fifo)\<rparr>)"
  using assms(1)
proof (rule pause_Ok)
  fix fifo' phase
  assume *: "ds_fifo s = Some fifo'" "pause_phase (ds_status s) = Ok phase"
    "\<And>c. c \<in> clocks fifo' \<Longrightarrow> \<exists>d. ck_state c = Running d"
    "s1 = s\<lparr>ds_fifo := Some ((map_clocks (frozen_at now) fifo')\<lparr>ff_paused := Some \<lparr>pz_phase = phase, pz_reason = reason\<rparr>\<rparr>),
            ds_status := Paused\<rparr>"
  define fz where "fz = (map_clocks (frozen_at now) fifo)\<lparr>ff_paused := Some \<lparr>pz_phase = phase, pz_reason = reason\<rparr>\<rparr>"
  have eq: "fifo' = fifo" using *(1) assms(2) by simp
  have s1: "ds_fifo s1 = Some fz" using *(4) eq by (simp add: fz_def)
  define g where "g c = c\<lparr>ck_state := (case ck_state c of Frozen r \<Rightarrow> Running (later + r) | Running d \<Rightarrow> Running d)\<rparr>" for c :: draft_clock
  have cl: "clocks fz = frozen_at now ` clocks fifo"
    using clocks_map_clocks[of "frozen_at now" fifo] by (simp add: fz_def clocks_def)
  have "thaw later c = Ok (g c)" if "c \<in> clocks fz" for c
  proof -
    from that cl obtain c0 where c0: "c0 \<in> clocks fifo" "c = frozen_at now c0" by blast
    with *(3) eq obtain d where "ck_state c0 = Running d" by blast
    with c0 assms(4)[OF c0(1)] show ?thesis
      by (simp add: thaw_def g_def frozen_at_def outcome_simps deadline_Ok_iff)
  qed
  from for_each_clock_Ok[OF s1 this]
  have fe: "for_each_clock (thaw later) s1 = Ok (s1\<lparr>ds_fifo := Some (map_clocks g fz)\<rparr>)" .
  have "map_clocks g fz = (map_clocks (g \<circ> frozen_at now) fifo)\<lparr>ff_paused := ff_paused fz\<rparr>"
    by (simp add: fz_def map_clocks_paused map_clocks_compose)
  moreover have "map_clocks (g \<circ> frozen_at now) fifo = map_clocks (retime (\<lambda>d. later + (d - now))) fifo"
  proof -
    have same: "(g \<circ> frozen_at now) c = retime (\<lambda>d. later + (d - now)) c" if "c \<in> clocks fifo" for c
      using *(3)[of c] that eq by (auto simp: g_def frozen_at_def retime_def)
    then show ?thesis by (rule map_clocks_cong)
  qed
  ultimately have mc: "(map_clocks g fz)\<lparr>ff_paused := None\<rparr> = map_clocks (retime (\<lambda>d. later + (d - now))) fifo"
    using assms(3) by (simp add: map_clocks_def)
  have "control s1 Resume later = Ok ([TransitionedTo (phase_status phase)],
      s1\<lparr>ds_fifo := Some ((map_clocks g fz)\<lparr>ff_paused := None\<rparr>), ds_status := phase_status phase\<rparr>)"
    using *(4) s1 fe by (simp add: fifo_ref_def fz_def update_fifo_def)
  with mc *(4) pause_phase_status[OF *(2)] show ?thesis by simp
qed

section \<open>A concrete FIFO session\<close>

definition sample_prompt :: "nat \<Rightarrow> draft_prompt" where
  "sample_prompt i = (let prompt_id = \<lparr>pi_session_id = ''S'', pi_seat = i, pi_generation = 1\<rparr>
     in \<lparr>pm_id = prompt_id, pm_pack_id = DraftPackId i,
         pm_clock = Some \<lparr>ck_target = TargetPick prompt_id, ck_state = Running 1000\<rparr>\<rparr>)"

definition sample_seat_state :: "nat \<Rightarrow> draft_pack \<Rightarrow> fifo_seat_state" where
  "sample_seat_state i pack = \<lparr>fs_queue = [\<lparr>qp_pack_id = DraftPackId i, qp_opening_seat = i, qp_round = 0,
       qp_original_size = 2, qp_pack = pack\<rparr>],
     fs_generation = 1, fs_prompt = Some (sample_prompt i), fs_completed_steps = 0,
     fs_round_completed_steps = 0\<rparr>"

definition sample_fifo_state :: fifo_draft_state where
  "sample_fifo_state = \<lparr>ff_session_id = ''S'', ff_revision = 1, ff_last_now_ms = 0,
     ff_seats = [sample_seat_state 0 [sample_card ''a'', sample_card ''b''],
                 sample_seat_state 1 [sample_card ''c'', sample_card ''d'']],
     ff_packs = fmempty, ff_cards = fmempty, ff_removed = [], ff_returned_effects = fmempty,
     ff_review = None, ff_paused = None\<rparr>"

definition sample_fifo :: draft_session where
  "sample_fifo = (sample_session Premier 2)\<lparr>ds_status := Drafting, ds_fifo := Some sample_fifo_state,
     ds_config := (sample_config Premier 2)\<lparr>cf_flow := FifoAsync, cf_cards_per_pack := 2, cf_pack_count := 1,
       cf_clock_policy := \<lparr>kp_pick = ClockFixed 1000, kp_review_duration_ms = 0\<rparr>\<rparr>\<rparr>"

lemma sample_fifo_simps [simp]:
  "ds_fifo sample_fifo = Some sample_fifo_state"
  "ds_status sample_fifo = Drafting"
  "cf_flow (ds_config sample_fifo) = FifoAsync"
  "ff_paused sample_fifo_state = None"
  "ff_review sample_fifo_state = None"
  "ff_last_now_ms sample_fifo_state = 0"
  by (simp_all add: sample_fifo_def sample_fifo_state_def)

lemma sample_fifo_clocks:
  "c \<in> clocks sample_fifo_state \<Longrightarrow> ck_state c = Running 1000"
  by (auto simp: clocks_def sample_fifo_state_def sample_seat_state_def sample_prompt_def Let_def)

lemma sample_fifo_pause: "\<exists>ds s1. control sample_fifo (Pause PausedByHost) 400 = Ok (ds, s1)"
proof -
  have "for_each_clock (freeze 400) sample_fifo
      = Ok (sample_fifo\<lparr>ds_fifo := Some (map_clocks (frozen_at 400) sample_fifo_state)\<rparr>)"
    by (rule for_each_clock_Ok) (auto dest!: sample_fifo_clocks simp: freeze_def frozen_at_def)
  then show ?thesis by (simp add: pause_phase_def update_fifo_def fifo_ref_def)
qed

theorem pause_resume_roundtrip_witness:
  "\<exists>ds s1. control sample_fifo (Pause PausedByHost) 400 = Ok (ds, s1)
     \<and> control s1 Resume 5000 = Ok ([TransitionedTo Drafting],
         sample_fifo\<lparr>ds_fifo := Some (map_clocks (retime (\<lambda>d. 5000 + (d - 400))) sample_fifo_state)\<rparr>)"
proof -
  obtain ds s1 where *: "control sample_fifo (Pause PausedByHost) 400 = Ok (ds, s1)"
    using sample_fifo_pause by blast
  have "control s1 Resume 5000 = Ok ([TransitionedTo (ds_status sample_fifo)],
      sample_fifo\<lparr>ds_fifo := Some (map_clocks (retime (\<lambda>d. 5000 + (d - 400))) sample_fifo_state)\<rparr>)"
    by (rule pause_resume_roundtrip[OF * sample_fifo_simps(1,4)])
      (auto dest!: sample_fifo_clocks simp: MAX_DRAFT_JSON_INTEGER_def)
  with * show ?thesis unfolding sample_fifo_simps(2) by blast
qed

text \<open>
  Prompts. Reconciliation gives every seat with a queued pack a prompt for the pack at the
  head of its queue, and every other seat none. A seat whose prompt already names its head keeps
  it with its clock; a seat whose head changed gets the next generation number and a fresh clock
  from the policy. Reconciling again, at any time, changes nothing.
\<close>

lemma reconcile_prompts_correct:
  assumes "reconcile_prompts s now = Ok s'" "ds_fifo s = Some fifo" "ds_fifo s' = Some fifo'"
    and "i < length (ff_seats fifo)"
  shows "prompt_matches (ff_seats fifo' ! i) \<and> fs_queue (ff_seats fifo' ! i) = fs_queue (ff_seats fifo ! i)
    \<and> (if prompt_matches (ff_seats fifo ! i) then ff_seats fifo' ! i = ff_seats fifo ! i
       else fs_queue (ff_seats fifo ! i) \<noteq> [] \<longrightarrow>
         (\<exists>p. fs_prompt (ff_seats fifo' ! i) = Some p
            \<and> pm_id p = \<lparr>pi_session_id = ff_session_id fifo, pi_seat = i,
                 pi_generation = fs_generation (ff_seats fifo ! i) + 1\<rparr>
            \<and> map_option ck_state (pm_clock p) = map_option (\<lambda>duration. Running (now + duration))
                (pick_duration (kp_pick (cf_clock_policy (ds_config s)))
                   (fs_round_completed_steps (ff_seats fifo ! i)))))
    \<and> reconcile_prompts s' later = Ok s'"
proof -
  have stable: "reconcile_prompts s' later = Ok s'"
    using reconcile_prompts_prompted[OF assms(1)] by (rule reconcile_prompts_stable)
  have seat: "reconcile_seat (kp_pick (cf_clock_policy (ds_config s))) (ff_session_id fifo) now
      (i, ff_seats fifo ! i) = Ok (ff_seats fifo' ! i)"
    using assms by (elim reconcile_prompts_Ok) auto
  note facts = reconcile_seat_Ok[OF seat]
  show ?thesis using facts(1,2,6,7) stable by (auto split: if_splits)
qed

end
