(* ===== verification/Pick_Pass.thy ===== *)
theory Pick_Pass
  imports Fifo_Clock
begin

text \<open>
  The legacy half of \<open>crates/draft-core/src/pick_pass.rs\<close>: a seat drafts its whole pick step
  from its current pack, optionally in exchange for a face-up draft-effect card, and when every
  seat that owes a pick has picked, the packs pass round the pod, the next packs are opened, or
  the draft moves on to deckbuilding. The lemmas show that a pick takes exactly the named cards,
  that no card is lost or duplicated, that a refused pick leaves the cards alone, that passing
  rotates the packs, that the reducer does not panic on a well-formed session, and that a draft
  always finishes.
\<close>

section \<open>Resolving and removing the picked cards\<close>

definition resolve_pick :: "nat \<Rightarrow> draft_pack \<Rightarrow> string \<Rightarrow> nat list \<Rightarrow> nat list draft_result" where
  "resolve_pick seat pack card_id indices =
     and_then (ok_or (CardNotInPack card_id) (position (\<lambda>c. ci_instance_id c = card_id) pack)) (\<lambda>i.
       if List.member indices i then Err (DuplicatePickCardId seat card_id) else Ok (indices @ [i]))"

definition resolve_picks :: "nat \<Rightarrow> draft_pack \<Rightarrow> string list \<Rightarrow> nat list draft_result" where
  "resolve_picks seat pack ids = try_fold (resolve_pick seat pack) ids []"

fun remove_each ::
  "(nat \<times> nat) list \<Rightarrow> draft_pack \<Rightarrow> ((nat \<times> draft_card_instance) list \<times> draft_pack) draft_result" where
  "remove_each [] pack = Ok ([], pack)"
| "remove_each ((slot, i) # rest) pack =
     and_then (index pack i) (\<lambda>c.
     and_then (remove_each rest (remove_at i pack)) (\<lambda>(picked, pack').
       Ok ((slot, c) # picked, pack')))"

definition take_picks ::
  "draft_pack \<Rightarrow> nat list \<Rightarrow> (draft_card_instance list \<times> draft_pack) draft_result" where
  "take_picks pack indices =
     (let removal_order = sort_key (\<lambda>(slot, i). - int i) (List.enumerate 0 indices)
      in and_then (remove_each removal_order pack) (\<lambda>(picked, pack').
           Ok (map snd (sort_key fst picked), pack')))"

section \<open>Finishing a pick\<close>

definition owes_pick :: "draft_pack option \<Rightarrow> bool" where
  "owes_pick p = (case p of None \<Rightarrow> False | Some pack \<Rightarrow> pack \<noteq> [])"

fun round_complete :: "seat_flags \<Rightarrow> draft_pack option list \<Rightarrow> nat list \<Rightarrow> ('e, bool) outcome" where
  "round_complete flags packs [] = Ok True"
| "round_complete flags packs (i # is) =
     and_then (index packs i) (\<lambda>p.
       if owes_pick p \<and> \<not> flags_get flags i then Ok False else round_complete flags packs is)"

definition open_next_pack :: "nat \<Rightarrow> draft_session \<Rightarrow> draft_session draft_result" where
  "open_next_pack i s =
     and_then (index (ds_packs_by_seat s) i) (\<lambda>packs.
       case packs of
         [] \<Rightarrow> Ok s
       | pack # rest \<Rightarrow>
           if i < length (ds_current_pack s) \<and> i < length (ds_current_pack_origins s)
           then Ok (s\<lparr>ds_packs_by_seat := (ds_packs_by_seat s)[i := rest],
                      ds_current_pack := (ds_current_pack s)[i := Some pack],
                      ds_current_pack_origins := (ds_current_pack_origins s)[i := Some (as_u8 i)]\<rparr>)
           else Panic)"

definition pass_slot ::
  "pass_direction \<Rightarrow> nat \<Rightarrow> draft_pack option list \<Rightarrow> nat option list \<Rightarrow> nat
   \<Rightarrow> draft_pack option list \<times> nat option list \<Rightarrow> (draft_pack option list \<times> nat option list) draft_result" where
  "pass_slot direction pod_size packs origins i acc =
     and_then (index packs i) (\<lambda>pack.
       let dest = next_seat direction i pod_size;
           origin = (case nth_opt origins i of None \<Rightarrow> None | Some o' \<Rightarrow> o')
       in Ok ((fst acc)[dest := pack], (snd acc)[dest := origin]))"

definition advance_pack_round :: "nat \<Rightarrow> draft_delta list \<Rightarrow> draft_session \<Rightarrow> session_step" where
  "advance_pack_round pod_size deltas s =
     (let s1 = s\<lparr>ds_current_pack_number := add_u8 (ds_current_pack_number s) 1\<rparr> in
      if cf_pack_count (ds_config s1) \<le> ds_current_pack_number s1
      then (Ok (deltas @ [TransitionedTo Deckbuilding]), s1\<lparr>ds_status := Deckbuilding\<rparr>)
      else let s2 = s1\<lparr>ds_pass_direction := for_pack (ds_current_pack_number s1), ds_pick_number := 0,
                      ds_current_pack_origins := map (\<lambda>_. None) (resize pod_size None (ds_current_pack_origins s1))\<rparr>
        in case try_fold open_next_pack [0..<pod_size] s2 of
             Ok s3 \<Rightarrow> (Ok (deltas @ [PackExhausted (ds_current_pack_number s3)]), s3)
           | Err e \<Rightarrow> (Err e, s2)
           | Panic \<Rightarrow> (Panic, s2))"

definition pass_packs :: "nat \<Rightarrow> draft_delta list \<Rightarrow> draft_session \<Rightarrow> session_step" where
  "pass_packs pod_size deltas s =
     (let s1 = s\<lparr>ds_pick_number := add_u8 (ds_pick_number s) 1\<rparr> in
      case try_fold (pass_slot (ds_pass_direction s1) pod_size (ds_current_pack s1) (ds_current_pack_origins s1))
             [0..<pod_size] (replicate pod_size None, replicate pod_size None) of
        Ok (new_packs, new_origins) \<Rightarrow>
          (Ok (deltas @ [PackPassed]),
           s1\<lparr>ds_current_pack := new_packs, ds_current_pack_origins := new_origins\<rparr>)
      | Err e \<Rightarrow> (Err e, s1)
      | Panic \<Rightarrow> (Panic, s1))"

definition finish_pick_barrier :: "draft_session \<Rightarrow> nat \<Rightarrow> string list \<Rightarrow> session_step" where
  "finish_pick_barrier s seat ids =
     (let pod_size = as_u8 (length (ds_seats s));
          s1 = s\<lparr>ds_current_pack_origins := resize pod_size None (ds_current_pack_origins s),
                 ds_seats_picked_this_round := flags_set seat True (ds_seats_picked_this_round s)\<rparr>;
          deltas = map (CardPicked seat) ids
      in case round_complete (ds_seats_picked_this_round s1) (ds_current_pack s1) [0..<pod_size] of
           Panic \<Rightarrow> (Panic, s1)
         | Err e \<Rightarrow> (Err e, s1)
         | Ok False \<Rightarrow> (Ok deltas, s1)
         | Ok True \<Rightarrow>
             let s2 = s1\<lparr>ds_seats_picked_this_round := flags_clear (ds_seats_picked_this_round s1)\<rparr>
             in if list_all (\<lambda>p. \<not> owes_pick p) (ds_current_pack s2)
                then advance_pack_round pod_size deltas s2
                else pass_packs pod_size deltas s2)"

definition finish_pick :: "draft_session \<Rightarrow> nat \<Rightarrow> string list \<Rightarrow> session_step" where
  "finish_pick s seat ids =
     (if cf_flow (ds_config s) = FifoAsync
      then case and_then (fifo_ref s) (\<lambda>fifo. finish_fifo_round s (ff_last_now_ms fifo)) of
             Ok (deltas, s') \<Rightarrow> (Ok (map (CardPicked seat) ids @ deltas), s')
           | Err e \<Rightarrow> (Err e, s)
           | Panic \<Rightarrow> (Panic, s)
      else finish_pick_barrier s seat ids)"

section \<open>Picks\<close>

definition reshape_flags :: "nat \<Rightarrow> draft_session \<Rightarrow> draft_session" where
  "reshape_flags pod_size s =
     s\<lparr>ds_seats_picked_this_round := flags_ensure_len pod_size False (ds_seats_picked_this_round s),
       ds_connected_seats := flags_ensure_len pod_size True (ds_connected_seats s)\<rparr>"

definition pick_cards :: "draft_session \<Rightarrow> nat \<Rightarrow> string list \<Rightarrow> draft_session draft_result" where
  "pick_cards s seat ids =
     and_then (index (ds_current_pack s) seat) (\<lambda>slot.
       case slot of
         None \<Rightarrow> Err (NoPendingPack seat)
       | Some pack \<Rightarrow>
           if pack = [] then Err (NoPendingPack seat)
           else let expected = required_pick_count s seat in
             if length ids \<noteq> expected then Err (WrongPickCardCount seat expected (length ids))
             else and_then (resolve_picks seat pack ids) (\<lambda>indices.
                  and_then (take_picks pack indices) (\<lambda>(picked, pack').
                  and_then (index (ds_pools s) seat) (\<lambda>pool.
                    Ok (s\<lparr>ds_current_pack := (ds_current_pack s)[seat := Some pack'],
                          ds_pools := (ds_pools s)[seat := pool @ picked]\<rparr>)))))"

definition apply_pick_inner :: "draft_session \<Rightarrow> nat \<Rightarrow> string list \<Rightarrow> session_step" where
  "apply_pick_inner s seat ids =
     (if ds_status s \<noteq> Drafting then (Err (InvalidTransition (ds_status s) ''Pick''), s)
      else let pod_size = as_u8 (length (ds_seats s)) in
      if pod_size \<le> seat then (Err (SeatOutOfRange seat pod_size), s)
      else let s1 = reshape_flags pod_size s in
      if flags_get (ds_seats_picked_this_round s1) seat then (Err (SeatAlreadyPickedThisRound seat), s1)
      else case pick_cards s1 seat ids of
             Err e \<Rightarrow> (Err e, s1)
           | Panic \<Rightarrow> (Panic, s1)
           | Ok s2 \<Rightarrow> finish_pick s2 seat ids)"

definition apply_pick :: "draft_session \<Rightarrow> nat \<Rightarrow> string list \<Rightarrow> session_step" where
  "apply_pick s seat ids =
     (case validate_legacy_admission s of
        Err e \<Rightarrow> (Err e, s) | Panic \<Rightarrow> (Panic, s)
      | Ok _ \<Rightarrow> apply_pick_inner s seat ids)"

fun remove_ids :: "string list \<Rightarrow> draft_pack \<Rightarrow> (draft_card_instance list \<times> draft_pack) draft_result" where
  "remove_ids [] pack = Ok ([], pack)"
| "remove_ids (card_id # ids) pack =
     (case position (\<lambda>c. ci_instance_id c = card_id) pack of
        None \<Rightarrow> Panic
      | Some i \<Rightarrow> and_then (remove_ids ids (remove_at i pack)) (\<lambda>(picked, pack').
                   Ok (pack ! i # picked, pack')))"

definition is_effect_card :: "string \<Rightarrow> draft_card_instance \<Rightarrow> bool" where
  "is_effect_card card_id c = (ci_instance_id c = card_id \<and> ci_draft_effect c = Some AdditionalPick)"

definition swap_effect_card ::
  "draft_session \<Rightarrow> nat \<Rightarrow> string \<Rightarrow> string list \<Rightarrow> draft_session draft_result" where
  "swap_effect_card s seat effect_id ids =
     and_then (index (ds_pools s) seat) (\<lambda>pool.
     and_then (ok_or (DraftEffectCardNotInPool effect_id) (position (is_effect_card effect_id) pool)) (\<lambda>effect_index.
     and_then (index (ds_current_pack s) seat) (\<lambda>slot.
     and_then (ok_or (NoPendingPack seat) slot) (\<lambda>pack.
       case List.find (\<lambda>card_id. \<not> list_ex (\<lambda>c. ci_instance_id c = card_id) pack) ids of
         Some missing \<Rightarrow> Err (CardNotInPack missing)
       | None \<Rightarrow>
           and_then (remove_ids ids pack) (\<lambda>(picked, pack').
             Ok (s\<lparr>ds_current_pack := (ds_current_pack s)[seat := Some (pack' @ [pool ! effect_index])],
                   ds_pools := (ds_pools s)[seat := remove_at effect_index pool @ picked]\<rparr>))))))"

definition apply_pick_with_effect_inner ::
  "draft_session \<Rightarrow> nat \<Rightarrow> string \<Rightarrow> string list \<Rightarrow> session_step" where
  "apply_pick_with_effect_inner s seat effect_id ids =
     (if ds_status s \<noteq> Drafting then (Err (InvalidTransition (ds_status s) ''PickWithDraftEffect''), s)
      else let pod_size = as_u8 (length (ds_seats s)) in
      if pod_size \<le> seat then (Err (SeatOutOfRange seat pod_size), s)
      else let s1 = reshape_flags pod_size s in
      if flags_get (ds_seats_picked_this_round s1) seat then (Err (SeatAlreadyPickedThisRound seat), s1)
      else case and_then (index ids 0) (\<lambda>a. and_then (index ids 1) (\<lambda>b. Ok (a = b))) of
             Panic \<Rightarrow> (Panic, s1) | Err e \<Rightarrow> (Err e, s1)
           | Ok True \<Rightarrow> (Err (InvalidDraftEffectSelection 2 1), s1)
           | Ok False \<Rightarrow>
               (case swap_effect_card s1 seat effect_id ids of
                  Err e \<Rightarrow> (Err e, s1)
                | Panic \<Rightarrow> (Panic, s1)
                | Ok s2 \<Rightarrow> finish_pick s2 seat ids))"

definition apply_pick_with_draft_effect ::
  "draft_session \<Rightarrow> nat \<Rightarrow> string \<Rightarrow> string list \<Rightarrow> session_step" where
  "apply_pick_with_draft_effect s seat effect_id ids =
     (case validate_legacy_admission s of
        Err e \<Rightarrow> (Err e, s) | Panic \<Rightarrow> (Panic, s)
      | Ok _ \<Rightarrow>
          if length ids \<noteq> 2 then (Err (InvalidDraftEffectSelection 2 (length ids)), s)
          else apply_pick_with_effect_inner s seat effect_id ids)"

section \<open>A pick takes exactly the named cards\<close>

lemma nth_remove_at_less: "i < j \<Longrightarrow> j < length xs \<Longrightarrow> remove_at j xs ! i = xs ! i"
  by (simp add: remove_at_def nth_append)

lemma remove_each_descending:
  assumes "sorted_wrt (\<lambda>a b. snd b < snd a) order" "\<And>e. e \<in> set order \<Longrightarrow> snd e < length pack"
  shows "\<exists>pack'. remove_each order pack = Ok (map (\<lambda>(slot, i). (slot, pack ! i)) order, pack')
    \<and> mset pack = mset (map (\<lambda>(slot, i). pack ! i) order) + mset pack'
    \<and> length pack' + length order = length pack"
  using assms
proof (induction order arbitrary: pack)
  case (Cons e order)
  obtain slot i where e: "e = (slot, i)" by (cases e)
  from Cons.prems(2)[of e] e have i: "i < length pack" by simp
  from Cons.prems(1) e have less: "\<And>a. a \<in> set order \<Longrightarrow> snd a < i" by auto
  have "\<And>a. a \<in> set order \<Longrightarrow> snd a < length (remove_at i pack)" using less i by fastforce
  moreover from Cons.prems e have "sorted_wrt (\<lambda>a b. snd b < snd a) order" by simp
  ultimately obtain pack' where *: "remove_each order (remove_at i pack)
      = Ok (map (\<lambda>(slot, j). (slot, remove_at i pack ! j)) order, pack')"
    "mset (remove_at i pack) = mset (map (\<lambda>(slot, j). remove_at i pack ! j) order) + mset pack'"
    "length pack' + length order = length (remove_at i pack)"
    using Cons.IH by blast
  have same: "remove_at i pack ! snd a = pack ! snd a" if "a \<in> set order" for a
    using less[OF that] i by (simp add: nth_remove_at_less)
  have m1: "map (\<lambda>(slot, j). (slot, remove_at i pack ! j)) order = map (\<lambda>(slot, j). (slot, pack ! j)) order"
    and m2: "map (\<lambda>(slot, j). remove_at i pack ! j) order = map (\<lambda>(slot, j). pack ! j) order"
    using same by (auto simp: split_beta)
  have "mset pack = add_mset (pack ! i) (mset (map (\<lambda>(slot, j). pack ! j) order) + mset pack')"
    using mset_remove_at_add[OF i] *(2) m2 by simp
  moreover have "length pack' + length (e # order) = length pack" using *(3) i by simp
  ultimately show ?case using *(1) m1 i e by (intro exI[of _ pack']) simp
qed simp

lemma enumerate_map: "List.enumerate n (map f xs) = map (\<lambda>(k, x). (k, f x)) (List.enumerate n xs)"
  by (induction xs arbitrary: n) auto

lemma sorted_wrt_distinct_key:
  assumes "sorted (map f xs)" "distinct (map f xs)"
  shows "sorted_wrt (\<lambda>a b. f a < f b) xs"
  using assms by (induction xs) (auto simp: less_le)

lemma take_picks_Ok:
  assumes "distinct indices" "\<And>i. i \<in> set indices \<Longrightarrow> i < length pack"
  shows "\<exists>pack'. take_picks pack indices = Ok (map ((!) pack) indices, pack')
    \<and> mset pack = mset (map ((!) pack) indices) + mset pack'
    \<and> length pack' + length indices = length pack"
proof -
  let ?key = "\<lambda>(slot :: nat, i :: nat). - int i"
  define order where "order = sort_key ?key (List.enumerate 0 indices)"
  have mset: "mset order = mset (List.enumerate 0 indices)" by (simp add: order_def)
  have "mset (map snd order) = mset indices"
    by (metis map_snd_enumerate mset mset_map)
  then have dist: "distinct (map snd order)" and set: "set (map snd order) = set indices"
    using assms(1) by (metis mset_eq_imp_distinct_iff, metis mset_eq_setD)
  have "sorted (map ?key order)" by (simp add: order_def)
  moreover have "distinct (map ?key order)"
    using dist by (auto simp: distinct_map inj_on_def split_beta)
  ultimately have "sorted_wrt (\<lambda>a b. ?key a < ?key b) order" by (rule sorted_wrt_distinct_key)
  then have desc: "sorted_wrt (\<lambda>a b. snd b < snd a) order" by (simp add: split_beta)
  have "\<And>e. e \<in> set order \<Longrightarrow> snd e < length pack" using set assms(2) by auto
  from remove_each_descending[OF desc this] obtain pack' where *:
    "remove_each order pack = Ok (map (\<lambda>(slot, i). (slot, pack ! i)) order, pack')"
    "mset pack = mset (map (\<lambda>(slot, i). pack ! i) order) + mset pack'"
    "length pack' + length order = length pack" by blast
  let ?picked = "map (\<lambda>(slot, i). (slot, pack ! i)) order"
  have "mset ?picked = mset (List.enumerate 0 (map ((!) pack) indices))"
    unfolding enumerate_map using mset by (metis mset_map)
  moreover have "distinct (map fst ?picked)"
  proof -
    have "mset (map fst ?picked) = mset (map fst (List.enumerate 0 (map ((!) pack) indices)))"
      using calculation by (metis mset_map)
    then have "mset (map fst ?picked) = mset [0..<length indices]" by simp
    then show ?thesis using distinct_upt mset_eq_imp_distinct_iff by blast
  qed
  then have "inj_on fst (set ?picked)" unfolding distinct_map by blast
  ultimately have "sort_key fst ?picked = List.enumerate 0 (map ((!) pack) indices)"
    by (intro sort_key_inj_key_eq) simp_all
  then have "map snd (sort_key fst ?picked) = map ((!) pack) indices" by simp
  moreover have "mset (map (\<lambda>(slot, i). pack ! i) order) = mset (map ((!) pack) indices)"
  proof -
    have "map (\<lambda>(slot, i). pack ! i) order = map ((!) pack) (map snd order)" by (simp add: split_beta)
    with \<open>mset (map snd order) = mset indices\<close> show ?thesis by (metis mset_map)
  qed
  moreover have "length order = length indices" using mset by (metis length_enumerate size_mset)
  ultimately show ?thesis using * by (simp add: take_picks_def Let_def order_def)
qed

lemma resolve_picks_inv:
  assumes "try_fold (resolve_pick seat pack) ids acc = Ok indices" "distinct acc" "\<And>i. i \<in> set acc \<Longrightarrow> i < length pack"
  shows "distinct indices \<and> (\<forall>i\<in>set indices. i < length pack)
    \<and> map (\<lambda>i. ci_instance_id (pack ! i)) indices = map (\<lambda>i. ci_instance_id (pack ! i)) acc @ ids"
  using assms
proof (induction ids arbitrary: acc)
  case (Cons c ids)
  from Cons.prems(1) obtain i where i: "position (\<lambda>x. ci_instance_id x = c) pack = Some i" "i \<notin> set acc"
    "try_fold (resolve_pick seat pack) ids (acc @ [i]) = Ok indices"
    by (auto simp: outcome_simps resolve_pick_def[of _ _ c] split: if_splits)
  from position_Some[OF i(1)] have "i < length pack" "ci_instance_id (pack ! i) = c" by auto
  with Cons.IH[OF i(3)] Cons.prems(2,3) i(2) show ?case by auto
qed auto

lemma resolve_picks_Ok:
  assumes "resolve_picks seat pack ids = Ok indices"
  shows "distinct indices" "\<And>i. i \<in> set indices \<Longrightarrow> i < length pack"
    "map (\<lambda>i. ci_instance_id (pack ! i)) indices = ids"
  using resolve_picks_inv[of seat pack ids "[]" indices] assms by (auto simp: resolve_picks_def)

lemma resolve_picks_not_Panic: "resolve_picks seat pack ids \<noteq> Panic"
  unfolding resolve_picks_def
  by (rule try_fold_not_Panic[where I = "\<lambda>_. True"]) (auto simp: resolve_pick_def outcome_simps)

lemma remove_ids_Ok:
  assumes "remove_ids ids pack = Ok (picked, pack')"
  shows "map ci_instance_id picked = ids \<and> mset pack = mset picked + mset pack'"
  using assms
proof (induction ids arbitrary: pack picked)
  case (Cons c ids)
  from Cons.prems obtain i rest where i: "position (\<lambda>x. ci_instance_id x = c) pack = Some i"
    "remove_ids ids (remove_at i pack) = Ok (rest, pack')" "picked = pack ! i # rest"
    by (auto simp: outcome_simps split: option.splits)
  from position_Some[OF i(1)] have "i < length pack" "ci_instance_id (pack ! i) = c" by auto
  with Cons.IH[OF i(2)] i(3) mset_remove_at_add[of i pack] show ?case by simp
qed simp

lemma remove_ids_total:
  assumes "distinct ids" "set ids \<subseteq> ci_instance_id ` set pack"
  shows "\<exists>picked pack'. remove_ids ids pack = Ok (picked, pack')"
  using assms
proof (induction ids arbitrary: pack)
  case (Cons c ids)
  then obtain i where i: "position (\<lambda>x. ci_instance_id x = c) pack = Some i"
    using position_ex[of pack "\<lambda>x. ci_instance_id x = c"] by auto
  from position_Some[OF i] have p: "i < length pack" "ci_instance_id (pack ! i) = c" by auto
  have "set ids \<subseteq> ci_instance_id ` set (remove_at i pack)"
  proof
    fix x assume "x \<in> set ids"
    with Cons.prems p(2) obtain card' where c: "card' \<in> set pack" "ci_instance_id card' = x" "card' \<noteq> pack ! i" by auto
    have "card' \<in># add_mset (pack ! i) (mset (remove_at i pack))"
      using c(1) mset_remove_at_add[OF p(1)] by simp
    then have "card' \<in># mset (remove_at i pack)" using c(3) by simp
    with c(2) show "x \<in> ci_instance_id ` set (remove_at i pack)" by auto
  qed
  with Cons.IH[of "remove_at i pack"] Cons.prems(1) i show ?case by (auto simp: outcome_simps)
qed simp

section \<open>The loops of a finished round\<close>

lemma round_complete_eval:
  "(\<And>i. i \<in> set is \<Longrightarrow> i < length packs) \<Longrightarrow>
     round_complete flags packs is = Ok (\<forall>i\<in>set is. owes_pick (packs ! i) \<longrightarrow> flags_get flags i)"
  by (induction "is") auto

lemma try_fold_upt_Suc:
  "try_fold f [0..<Suc k] s = and_then (try_fold f [0..<k] s) (f k)"
proof -
  have "try_fold f [k] = f k" by (rule ext) (simp add: and_then_def split: outcome.splits)
  then show ?thesis using try_fold_append[of f "[0..<k]" "[k]" s] by (simp del: try_fold.simps)
qed

lemma update_upto:
  "k < n \<Longrightarrow> (map (\<lambda>i. if i < k then a i else b i) [0..<n])[k := a k]
     = map (\<lambda>i. if i < Suc k then a i else b i) [0..<n]"
  by (intro nth_equalityI) (auto simp: nth_list_update)

lemma map_if_upt: "map (\<lambda>i. if i < n then a i else b i) [0..<n] = map a [0..<n]"
  by (rule map_cong) auto

lemma map_nth_upt: "length xs = n \<Longrightarrow> map (\<lambda>i. g (xs ! i)) [0..<n] = map g xs"
  by (auto intro: nth_equalityI)

lemma open_next_packs:
  assumes "length (ds_packs_by_seat s) = n" "length (ds_current_pack s) = n"
    "length (ds_current_pack_origins s) = n" "\<And>row. row \<in> set (ds_packs_by_seat s) \<Longrightarrow> row \<noteq> []"
  shows "try_fold open_next_pack [0..<n] s =
     Ok (s\<lparr>ds_packs_by_seat := map tl (ds_packs_by_seat s),
           ds_current_pack := map (\<lambda>row. Some (hd row)) (ds_packs_by_seat s),
           ds_current_pack_origins := map (\<lambda>i. Some (as_u8 i)) [0..<n]\<rparr>)"
proof -
  let ?rows = "ds_packs_by_seat s"
  define mid where "mid k = s\<lparr>ds_packs_by_seat := map (\<lambda>i. if i < k then tl (?rows ! i) else ?rows ! i) [0..<n],
     ds_current_pack := map (\<lambda>i. if i < k then Some (hd (?rows ! i)) else ds_current_pack s ! i) [0..<n],
     ds_current_pack_origins := map (\<lambda>i. if i < k then Some (as_u8 i) else ds_current_pack_origins s ! i) [0..<n]\<rparr>" for k
  have step: "open_next_pack k (mid k) = Ok (mid (Suc k))" if k: "k < n" for k
  proof -
    from k assms have "?rows ! k \<noteq> []" by (simp add: nth_mem)
    then obtain p ps where row: "?rows ! k = p # ps" by (cases "?rows ! k") auto
    have "open_next_pack k (mid k) = Ok ((mid k)\<lparr>
        ds_packs_by_seat := (ds_packs_by_seat (mid k))[k := tl (?rows ! k)],
        ds_current_pack := (ds_current_pack (mid k))[k := Some (hd (?rows ! k))],
        ds_current_pack_origins := (ds_current_pack_origins (mid k))[k := Some (as_u8 k)]\<rparr>)"
      using k by (simp add: open_next_pack_def mid_def row)
    with update_upto[OF k, of "\<lambda>i. tl (?rows ! i)" "\<lambda>i. ?rows ! i"]
      update_upto[OF k, of "\<lambda>i. Some (hd (?rows ! i))" "\<lambda>i. ds_current_pack s ! i"]
      update_upto[OF k, of "\<lambda>i. Some (as_u8 i)" "\<lambda>i. ds_current_pack_origins s ! i"]
    show ?thesis by (simp add: mid_def)
  qed
  have "mid 0 = s"
    using map_nth_upt[OF assms(1), of "\<lambda>x. x"] map_nth_upt[OF assms(2), of "\<lambda>x. x"]
      map_nth_upt[OF assms(3), of "\<lambda>x. x"] by (simp add: mid_def)
  moreover have "k \<le> n \<Longrightarrow> try_fold open_next_pack [0..<k] s = Ok (mid k)" for k
  proof (induction k)
    case (Suc k)
    then show ?case using step[of k] unfolding try_fold_upt_Suc by simp
  qed (use calculation in simp)
  moreover have "mid n = s\<lparr>ds_packs_by_seat := map tl ?rows,
      ds_current_pack := map (\<lambda>row. Some (hd row)) ?rows,
      ds_current_pack_origins := map (\<lambda>i. Some (as_u8 i)) [0..<n]\<rparr>"
    using map_nth_upt[OF assms(1), of tl] map_nth_upt[OF assms(1), of "\<lambda>row. Some (hd row)"]
    by (simp add: mid_def map_if_upt)
  ultimately show ?thesis by simp
qed

lemma pass_slots:
  assumes "length packs = n" "0 < n"
  shows "\<exists>np no. try_fold (pass_slot d n packs origins) [0..<n] (replicate n None, replicate n None) = Ok (np, no)
    \<and> length np = n \<and> length no = n \<and> (\<forall>i<n. np ! next_seat d i n = packs ! i)"
proof -
  have "k \<le> n \<Longrightarrow> \<exists>np no. try_fold (pass_slot d n packs origins) [0..<k] (replicate n None, replicate n None) = Ok (np, no)
    \<and> length np = n \<and> length no = n \<and> (\<forall>i<k. np ! next_seat d i n = packs ! i)" for k
  proof (induction k)
    case (Suc k)
    then obtain np no where *: "try_fold (pass_slot d n packs origins) [0..<k] (replicate n None, replicate n None) = Ok (np, no)"
      "length np = n" "length no = n" "\<forall>i<k. np ! next_seat d i n = packs ! i" by auto
    let ?np = "np[next_seat d k n := packs ! k]"
    have "?np ! next_seat d i n = packs ! i" if "i < Suc k" for i
    proof (cases "i = k")
      case True
      with *(2) assms(2) show ?thesis by (simp add: next_seat_less)
    next
      case False
      with that have "i < k" by simp
      moreover from this have "next_seat d k n \<noteq> next_seat d i n"
        using next_seat_opposite[of i n d] next_seat_opposite[of k n d] Suc.prems by auto
      ultimately show ?thesis using *(4) by simp
    qed
    moreover have "k < length packs" using assms(1) Suc.prems by simp
    ultimately show ?case unfolding try_fold_upt_Suc using *(1,2,3) by (simp add: pass_slot_def Let_def)
  qed simp
  then show ?thesis by simp
qed

lemma next_seat_permutes:
  assumes "length np = n" "length packs = n" "\<And>i. i < n \<Longrightarrow> np ! next_seat d i n = packs ! i"
  shows "mset np = mset packs"
proof -
  have "mset np = image_mset ((!) np) (mset_set {..<n})"
    by (metis assms(1) lessThan_atLeast0 map_nth mset_map mset_upt)
  also have "mset_set {..<n} = image_mset (\<lambda>i. next_seat d i n) (mset_set {..<n})"
    using next_seat_bij[of d n] image_mset_mset_set[of "\<lambda>i. next_seat d i n" "{..<n}"]
    by (simp add: bij_betw_def)
  also have "image_mset ((!) np) \<dots> = image_mset ((!) packs) (mset_set {..<n})"
    using assms(3) by (auto simp: image_mset.compositionality o_def intro!: image_mset_cong)
  also have "\<dots> = mset packs"
    by (metis assms(2) lessThan_atLeast0 map_nth mset_map mset_upt)
  finally show ?thesis .
qed

section \<open>Invariant, content and potential of a pick-and-pass draft\<close>

definition pack_list :: "draft_pack option \<Rightarrow> draft_pack" where
  "pack_list p = (case p of None \<Rightarrow> [] | Some pack \<Rightarrow> pack)"

definition table_cards :: "draft_session \<Rightarrow> draft_card_instance multiset" where
  "table_cards s = flatten_mset (map pack_list (ds_current_pack s)) + flatten_mset (map concat (ds_packs_by_seat s))"

definition pass_cards :: "draft_session \<Rightarrow> draft_card_instance multiset" where
  "pass_cards s = table_cards s + flatten_mset (ds_pools s)"

definition pick_shape :: "draft_session \<Rightarrow> bool" where
  "pick_shape s \<longleftrightarrow> (let n = length (ds_seats s) in
     1 \<le> n \<and> n < 256 \<and> length (ds_current_pack s) = n \<and> length (ds_packs_by_seat s) = n
     \<and> length (ds_pools s) = n)
     \<and> cf_flow (ds_config s) = LegacyBarrier \<and> ds_fifo s = None
     \<and> cf_selection_policy (ds_config s) = default_selection_policy
     \<and> cf_clock_policy (ds_config s) = default_clock_policy"

definition rounds_ok :: "draft_session \<Rightarrow> bool" where
  "rounds_ok s \<longleftrightarrow>
     ds_current_pack_number s < cf_pack_count (ds_config s) \<and> cf_pack_count (ds_config s) < 256
     \<and> (\<forall>row\<in>set (ds_packs_by_seat s).
          length row + ds_current_pack_number s + 1 = cf_pack_count (ds_config s) \<and> [] \<notin> set row)"

definition pick_pending :: "draft_session \<Rightarrow> bool" where
  "pick_pending s \<longleftrightarrow> (\<exists>i<length (ds_seats s).
     owes_pick (ds_current_pack s ! i) \<and> \<not> flags_get (ds_seats_picked_this_round s) i)"

definition unique_ids :: "draft_card_instance multiset \<Rightarrow> bool" where
  "unique_ids cards \<longleftrightarrow> (\<forall>x. count (image_mset ci_instance_id cards) x \<le> 1)"

definition pick_phase :: "draft_session \<Rightarrow> bool" where
  "pick_phase s \<longleftrightarrow>
     (case ds_status s of
        Drafting \<Rightarrow> rounds_ok s \<and> pick_pending s
      | Deckbuilding \<Rightarrow> table_cards s = {#}
      | _ \<Rightarrow> False)"

definition pick_inv :: "draft_session \<Rightarrow> bool" where
  "pick_inv s \<longleftrightarrow> pick_shape s \<and> unique_ids (pass_cards s) \<and> pick_phase s"

definition pick_potential :: "draft_session \<Rightarrow> nat" where
  "pick_potential s = size (table_cards s)"

lemma pack_list_simps [simp]: "pack_list None = []" "pack_list (Some p) = p"
  by (simp_all add: pack_list_def)

lemma owes_pick_iff: "owes_pick p \<longleftrightarrow> pack_list p \<noteq> []"
  by (cases p) (simp_all add: owes_pick_def)

lemma flatten_mset_cong: "mset xss = mset yss \<Longrightarrow> flatten_mset xss = flatten_mset yss"
  by (metis flatten_mset_def mset_map sum_mset_sum_list)

lemma flatten_mset_empty: "flatten_mset xss = {#} \<longleftrightarrow> (\<forall>xs\<in>set xss. xs = [])"
  by (auto simp: flatten_mset_concat)

lemma flatten_hd_tl:
  "(\<And>row. row \<in> set rows \<Longrightarrow> row \<noteq> []) \<Longrightarrow>
     flatten_mset (map hd rows) + flatten_mset (map (\<lambda>row. concat (tl row)) rows) = flatten_mset (map concat rows)"
proof (induction rows)
  case (Cons row rows)
  then obtain p ps where "row = p # ps" by (cases row) auto
  with Cons show ?case by (simp add: flatten_mset_def ac_simps)
qed (simp add: flatten_mset_def)

section \<open>Finishing a pick, case by case\<close>

text \<open>The session after a seat's cards moved, before the round is examined.\<close>

definition mark_picked :: "nat \<Rightarrow> draft_session \<Rightarrow> draft_session" where
  "mark_picked seat s =
     s\<lparr>ds_current_pack_origins := resize (length (ds_seats s)) None (ds_current_pack_origins s),
       ds_seats_picked_this_round := flags_set seat True (ds_seats_picked_this_round s)\<rparr>"

definition clear_picked :: "draft_session \<Rightarrow> draft_session" where
  "clear_picked s = s\<lparr>ds_seats_picked_this_round := flags_clear (ds_seats_picked_this_round s)\<rparr>"

lemma flags_get_clear [simp]: "\<not> flags_get (flags_clear flags) i"
  by (simp add: flags_get_def flags_clear_def nth_opt_def)

lemma finish_barrier_cases:
  assumes "pick_shape s"
  shows "finish_pick_barrier s seat ids =
    (let t = mark_picked seat s; deltas = map (CardPicked seat) ids; n = length (ds_seats s) in
     if pick_pending t then (Ok deltas, t)
     else if \<forall>p\<in>set (ds_current_pack t). \<not> owes_pick p then advance_pack_round n deltas (clear_picked t)
     else pass_packs n deltas (clear_picked t))"
proof -
  have n: "as_u8 (length (ds_seats s)) = length (ds_seats s)" "length (ds_current_pack s) = length (ds_seats s)"
    using assms by (auto simp: pick_shape_def Let_def)
  let ?t = "mark_picked seat s"
  have rc: "round_complete (ds_seats_picked_this_round ?t) (ds_current_pack ?t) [0..<length (ds_seats s)]
      = Ok (\<not> pick_pending ?t)"
    using n(2) by (subst round_complete_eval) (auto simp: pick_pending_def mark_picked_def)
  have "finish_pick_barrier s seat ids =
    (case round_complete (ds_seats_picked_this_round ?t) (ds_current_pack ?t) [0..<length (ds_seats s)] of
       Panic \<Rightarrow> (Panic, ?t) | Err e \<Rightarrow> (Err e, ?t) | Ok False \<Rightarrow> (Ok (map (CardPicked seat) ids), ?t)
     | Ok True \<Rightarrow>
         if list_all (\<lambda>p. \<not> owes_pick p) (ds_current_pack ?t)
         then advance_pack_round (length (ds_seats s)) (map (CardPicked seat) ids) (clear_picked ?t)
         else pass_packs (length (ds_seats s)) (map (CardPicked seat) ids) (clear_picked ?t))"
    unfolding finish_pick_barrier_def Let_def clear_picked_def mark_picked_def n(1)
    by (simp split: outcome.split bool.split)
  then show ?thesis unfolding rc by (simp add: Let_def list_all_iff)
qed

lemma mark_picked_simps [simp]:
  "ds_current_pack (mark_picked i s) = ds_current_pack s"
  "ds_packs_by_seat (mark_picked i s) = ds_packs_by_seat s"
  "ds_pools (mark_picked i s) = ds_pools s"
  "ds_seats (mark_picked i s) = ds_seats s"
  "ds_status (mark_picked i s) = ds_status s"
  "ds_config (mark_picked i s) = ds_config s"
  "ds_fifo (mark_picked i s) = ds_fifo s"
  "ds_current_pack_number (mark_picked i s) = ds_current_pack_number s"
  "length (ds_current_pack_origins (mark_picked i s)) = length (ds_seats s)"
  by (simp_all add: mark_picked_def)

lemma clear_picked_simps [simp]:
  "ds_current_pack (clear_picked s) = ds_current_pack s"
  "ds_packs_by_seat (clear_picked s) = ds_packs_by_seat s"
  "ds_pools (clear_picked s) = ds_pools s"
  "ds_seats (clear_picked s) = ds_seats s"
  "ds_status (clear_picked s) = ds_status s"
  "ds_config (clear_picked s) = ds_config s"
  "ds_fifo (clear_picked s) = ds_fifo s"
  "ds_current_pack_number (clear_picked s) = ds_current_pack_number s"
  "ds_current_pack_origins (clear_picked s) = ds_current_pack_origins s"
  "\<not> flags_get (ds_seats_picked_this_round (clear_picked s)) i"
  by (simp_all add: clear_picked_def)

lemma pass_packs_result:
  assumes "pick_shape s" "n = length (ds_seats s)"
  shows "\<exists>np no. pass_packs n deltas s = (Ok (deltas @ [PackPassed]),
       s\<lparr>ds_pick_number := add_u8 (ds_pick_number s) 1, ds_current_pack := np, ds_current_pack_origins := no\<rparr>)
     \<and> length np = n \<and> mset np = mset (ds_current_pack s)
     \<and> (\<forall>i<n. np ! next_seat (ds_pass_direction s) i n = ds_current_pack s ! i)"
proof -
  from assms have n: "length (ds_current_pack s) = n" "0 < n" by (auto simp: pick_shape_def Let_def)
  from pass_slots[OF n, of "ds_pass_direction s" "ds_current_pack_origins s"] obtain np no where *:
    "try_fold (pass_slot (ds_pass_direction s) n (ds_current_pack s) (ds_current_pack_origins s)) [0..<n]
       (replicate n None, replicate n None) = Ok (np, no)"
    "length np = n" "\<forall>i<n. np ! next_seat (ds_pass_direction s) i n = ds_current_pack s ! i" by blast
  moreover have "mset np = mset (ds_current_pack s)" using *(2,3) n(1) by (intro next_seat_permutes) auto
  ultimately show ?thesis by (intro exI[of _ np] exI[of _ no]) (simp add: pass_packs_def)
qed

lemma advance_round_result:
  assumes "pick_shape s" "rounds_ok s" "n = length (ds_seats s)"
  shows "if ds_current_pack_number s + 1 = cf_pack_count (ds_config s)
    then advance_pack_round n deltas s = (Ok (deltas @ [TransitionedTo Deckbuilding]),
       s\<lparr>ds_current_pack_number := ds_current_pack_number s + 1, ds_status := Deckbuilding\<rparr>)
    else advance_pack_round n deltas s = (Ok (deltas @ [PackExhausted (ds_current_pack_number s + 1)]),
       s\<lparr>ds_current_pack_number := ds_current_pack_number s + 1,
         ds_pass_direction := for_pack (ds_current_pack_number s + 1), ds_pick_number := 0,
         ds_packs_by_seat := map tl (ds_packs_by_seat s),
         ds_current_pack := map (\<lambda>row. Some (hd row)) (ds_packs_by_seat s),
         ds_current_pack_origins := map (\<lambda>i. Some (as_u8 i)) [0..<n]\<rparr>)"
proof -
  have u8: "add_u8 (ds_current_pack_number s) (Suc 0) = Suc (ds_current_pack_number s)"
    using assms(2) add_u8_id[of "ds_current_pack_number s" 1] by (simp add: rounds_ok_def)
  show ?thesis
  proof (cases "ds_current_pack_number s + 1 = cf_pack_count (ds_config s)")
    case True
    then show ?thesis by (simp add: advance_pack_round_def u8)
  next
    case False
    with assms(2) have more: "ds_current_pack_number s + 1 < cf_pack_count (ds_config s)"
      by (simp add: rounds_ok_def)
    let ?s2 = "s\<lparr>ds_current_pack_number := ds_current_pack_number s + 1,
      ds_pass_direction := for_pack (ds_current_pack_number s + 1), ds_pick_number := 0,
      ds_current_pack_origins := map (\<lambda>_. None) (resize n None (ds_current_pack_origins s))\<rparr>"
    have "row \<noteq> []" if "row \<in> set (ds_packs_by_seat s)" for row
      using that more assms(2) by (auto simp: rounds_ok_def)
    then have "try_fold open_next_pack [0..<n] ?s2 = Ok (?s2\<lparr>ds_packs_by_seat := map tl (ds_packs_by_seat ?s2),
           ds_current_pack := map (\<lambda>row. Some (hd row)) (ds_packs_by_seat ?s2),
           ds_current_pack_origins := map (\<lambda>i. Some (as_u8 i)) [0..<n]\<rparr>)"
      using assms(1,3) by (intro open_next_packs) (auto simp: pick_shape_def Let_def)
    with False more show ?thesis by (simp add: advance_pack_round_def u8 Let_def)
  qed
qed

lemma finish_barrier:
  assumes "pick_shape s" "ds_status s = Drafting" "rounds_ok s"
  obtains ds s' where "finish_pick_barrier s seat ids = (Ok ds, s')" "pick_shape s'"
    "table_cards s' = table_cards s" "ds_pools s' = ds_pools s" "pick_phase s'"
proof -
  let ?t = "mark_picked seat s" and ?ds = "map (CardPicked seat) ids" and ?n = "length (ds_seats s)"
  let ?u = "clear_picked ?t"
  have shape: "pick_shape ?t" "pick_shape ?u" and rounds: "rounds_ok ?t" "rounds_ok ?u"
    and st: "ds_status ?u = Drafting"
    using assms by (auto simp: pick_shape_def rounds_ok_def)
  note fin = finish_barrier_cases[OF assms(1), of seat ids]
  consider (wait) "pick_pending ?t"
    | (advance) "\<not> pick_pending ?t" "\<forall>p\<in>set (ds_current_pack ?t). \<not> owes_pick p"
    | (pass) "\<not> pick_pending ?t" "\<exists>p\<in>set (ds_current_pack ?t). owes_pick p" by blast
  then show thesis
  proof cases
    case wait
    with fin shape rounds assms(2) show thesis
      by (intro that[of ?ds ?t]) (simp_all add: table_cards_def pick_phase_def)
  next
    case advance
    have cur: "flatten_mset (map pack_list (ds_current_pack s)) = {#}"
      using advance(2) by (auto simp: flatten_mset_empty owes_pick_iff)
    note adv = advance_round_result[OF shape(2) rounds(2), of ?n ?ds]
    show thesis
    proof (cases "ds_current_pack_number s + 1 = cf_pack_count (ds_config s)")
      case True
      have "row = []" if "row \<in> set (ds_packs_by_seat s)" for row
      proof -
        from assms(3) that have "length row + ds_current_pack_number s + 1 = cf_pack_count (ds_config s)"
          unfolding rounds_ok_def by blast
        with True have "length row = 0" by linarith
        then show ?thesis by simp
      qed
      then have "flatten_mset (map concat (ds_packs_by_seat s)) = {#}"
        by (force simp: flatten_mset_empty)
      with True adv fin advance shape(2) cur show thesis
        by (intro that[of _ "?u\<lparr>ds_current_pack_number := ds_current_pack_number s + 1, ds_status := Deckbuilding\<rparr>"])
          (simp_all add: table_cards_def pick_shape_def pick_phase_def)
    next
      case False
      define v where "v = ?u\<lparr>ds_current_pack_number := ds_current_pack_number s + 1,
         ds_pass_direction := for_pack (ds_current_pack_number s + 1), ds_pick_number := 0,
         ds_packs_by_seat := map tl (ds_packs_by_seat s),
         ds_current_pack := map (\<lambda>row. Some (hd row)) (ds_packs_by_seat s),
         ds_current_pack_origins := map (\<lambda>i. Some (as_u8 i)) [0..<?n]\<rparr>"
      have ne: "row \<noteq> []" "hd row \<noteq> []" "length (tl row) + (ds_current_pack_number s + 1) + 1 = cf_pack_count (ds_config s)"
        "[] \<notin> set (tl row)" if "row \<in> set (ds_packs_by_seat s)" for row
      proof -
        from assms(3) that have len: "length row + ds_current_pack_number s + 1 = cf_pack_count (ds_config s)"
          and mem: "[] \<notin> set row" unfolding rounds_ok_def by blast+
        with False obtain p ps where "row = p # ps" by (cases row) auto
        with len mem show "row \<noteq> []" "hd row \<noteq> []"
          "length (tl row) + (ds_current_pack_number s + 1) + 1 = cf_pack_count (ds_config s)" "[] \<notin> set (tl row)"
          by auto
      qed
      have "rounds_ok v"
        using assms(3) False ne by (auto simp: rounds_ok_def v_def)
      moreover have "pick_pending v"
      proof -
        have "0 < ?n" "length (ds_packs_by_seat s) = ?n" using assms(1) by (auto simp: pick_shape_def Let_def)
        then show ?thesis
          using ne(2)[of "ds_packs_by_seat s ! 0"] by (auto simp: pick_pending_def v_def owes_pick_iff intro!: exI[of _ 0])
      qed
      moreover have "table_cards v = table_cards s"
        using flatten_hd_tl[of "ds_packs_by_seat s"] ne(1) cur by (simp add: table_cards_def v_def o_def)
      moreover have "pick_shape v" using shape(2) by (simp add: pick_shape_def v_def Let_def)
      ultimately show thesis
        using adv fin advance False st
        by (intro that[of _ v]) (simp_all add: pick_phase_def v_def[symmetric], simp_all add: v_def)
    qed
  next
    case pass
    from pass_packs_result[OF shape(2), of ?n ?ds] obtain np no where np:
      "pass_packs ?n ?ds ?u = (Ok (?ds @ [PackPassed]), ?u\<lparr>ds_pick_number := add_u8 (ds_pick_number ?u) 1,
         ds_current_pack := np, ds_current_pack_origins := no\<rparr>)" (is "_ = (_, ?v)")
      "length np = ?n" "mset np = mset (ds_current_pack s)" by auto
    have "mset (map pack_list np) = mset (map pack_list (ds_current_pack s))" using np(3) by simp
    then have "table_cards ?v = table_cards s" by (simp add: table_cards_def flatten_mset_cong)
    moreover have "pick_pending ?v"
    proof -
      from pass(2) np(3) obtain p where "p \<in> set np" "owes_pick p" by (metis mark_picked_simps(1) mset_eq_setD)
      with np(2) show ?thesis by (auto simp: pick_pending_def in_set_conv_nth)
    qed
    moreover have "pick_shape ?v" "rounds_ok ?v"
      using shape(2) rounds(2) np(2) by (simp_all add: pick_shape_def rounds_ok_def Let_def)
    moreover have "finish_pick_barrier s seat ids = pass_packs ?n ?ds ?u"
      using fin pass by (auto simp: Let_def)
    ultimately show thesis
      using st by (intro that[of "?ds @ [PackPassed]" ?v]) (simp_all add: np(1) pick_phase_def)
  qed
qed

text \<open>
  What the round does with the packs on the table once a seat's pick has been taken from its
  pack: they stay where they are while another seat owes a pick; when every pack is empty the next
  ones are opened, or the draft ends; otherwise every seat hands its pack to its neighbour.
\<close>

definition round_follows :: "draft_session \<Rightarrow> nat \<Rightarrow> draft_pack option list \<Rightarrow> draft_session \<Rightarrow> bool" where
  "round_follows s seat packs s' =
     (let n = length (ds_seats s) in
      if \<exists>i<n. i \<noteq> seat \<and> owes_pick (packs ! i) \<and> \<not> flags_get (ds_seats_picked_this_round s) i
      then ds_current_pack s' = packs \<and> ds_packs_by_seat s' = ds_packs_by_seat s \<and> ds_status s' = Drafting
      else if \<forall>p\<in>set packs. \<not> owes_pick p
      then if ds_current_pack_number s + 1 = cf_pack_count (ds_config s)
           then ds_current_pack s' = packs \<and> ds_packs_by_seat s' = ds_packs_by_seat s \<and> ds_status s' = Deckbuilding
           else ds_current_pack s' = map (\<lambda>row. Some (hd row)) (ds_packs_by_seat s)
             \<and> ds_packs_by_seat s' = map tl (ds_packs_by_seat s) \<and> ds_status s' = Drafting
      else length (ds_current_pack s') = n \<and> ds_packs_by_seat s' = ds_packs_by_seat s \<and> ds_status s' = Drafting
        \<and> (\<forall>i<n. ds_current_pack s' ! next_seat (ds_pass_direction s) i n = packs ! i))"

lemma flags_get_set: "seat < length flags \<Longrightarrow> flags_get (flags_set seat v flags) i = (if i = seat then v else flags_get flags i)"
  by (auto simp: flags_get_def flags_set_def nth_opt_def)

lemma finish_barrier_round:
  assumes "pick_shape s" "ds_status s = Drafting" "rounds_ok s" "finish_pick_barrier s seat ids = (r, s')"
    and "seat < length (ds_seats_picked_this_round s)"
  shows "round_follows s seat (ds_current_pack s) s'"
proof -
  let ?t = "mark_picked seat s" and ?ds = "map (CardPicked seat) ids" and ?n = "length (ds_seats s)"
  let ?u = "clear_picked ?t"
  have shape: "pick_shape ?u" and rounds: "rounds_ok ?u"
    using assms(1,3) by (auto simp: pick_shape_def rounds_ok_def)
  have pending: "pick_pending ?t \<longleftrightarrow>
      (\<exists>i<?n. i \<noteq> seat \<and> owes_pick (ds_current_pack s ! i) \<and> \<not> flags_get (ds_seats_picked_this_round s) i)"
    using assms(5) by (auto simp: pick_pending_def mark_picked_def flags_get_set)
  have dir: "ds_pass_direction ?u = ds_pass_direction s" by (simp add: mark_picked_def clear_picked_def)
  note fin = finish_barrier_cases[OF assms(1), of seat ids, unfolded assms(4) Let_def]
  show ?thesis
  proof (cases "pick_pending ?t")
    case True
    with fin assms(2) show ?thesis by (simp add: round_follows_def pending Let_def)
  next
    case wait: False
    show ?thesis
    proof (cases "\<forall>p\<in>set (ds_current_pack s). \<not> owes_pick p")
      case True
      with fin wait assms(2) advance_round_result[OF shape rounds, of ?n ?ds] show ?thesis
        unfolding round_follows_def Let_def pending[symmetric] by (simp split: if_splits)
    next
      case False
      with fin wait assms(2) pass_packs_result[OF shape, of ?n ?ds] show ?thesis
        unfolding round_follows_def Let_def pending[symmetric] by (auto simp: dir)
    qed
  qed
qed

section \<open>One pick\<close>

definition pick_step :: "draft_session \<Rightarrow> nat \<times> string option \<times> string list \<Rightarrow> session_step" where
  "pick_step s a = (case a of
     (seat, None, ids) \<Rightarrow> apply_pick s seat ids
   | (seat, Some effect_id, ids) \<Rightarrow> apply_pick_with_draft_effect s seat effect_id ids)"

lemma flags_get_ensure [simp]: "flags_get (flags_ensure_len n False flags) i = flags_get flags i"
  by (auto simp: flags_get_def flags_ensure_len_def resize_def nth_opt_def nth_append)

lemma reshape_flags_simps [simp]:
  "ds_current_pack (reshape_flags n s) = ds_current_pack s"
  "ds_packs_by_seat (reshape_flags n s) = ds_packs_by_seat s"
  "ds_pools (reshape_flags n s) = ds_pools s"
  "ds_seats (reshape_flags n s) = ds_seats s"
  "ds_status (reshape_flags n s) = ds_status s"
  "ds_config (reshape_flags n s) = ds_config s"
  "ds_fifo (reshape_flags n s) = ds_fifo s"
  "ds_kind (reshape_flags n s) = ds_kind s"
  "ds_current_pack_number (reshape_flags n s) = ds_current_pack_number s"
  "flags_get (ds_seats_picked_this_round (reshape_flags n s)) i = flags_get (ds_seats_picked_this_round s) i"
  by (simp_all add: reshape_flags_def)

lemma reshape_flags_keeps [simp]:
  "pick_shape (reshape_flags n s) = pick_shape s"
  "rounds_ok (reshape_flags n s) = rounds_ok s"
  "table_cards (reshape_flags n s) = table_cards s"
  "pass_cards (reshape_flags n s) = pass_cards s"
  "pick_phase (reshape_flags n s) = pick_phase s"
  by (simp_all add: pick_shape_def rounds_ok_def table_cards_def pass_cards_def pick_phase_def
      pick_pending_def split: draft_status.splits)

lemma round_follows_reshape:
  "round_follows (reshape_flags n s\<lparr>ds_current_pack := packs', ds_pools := pools'\<rparr>) seat packs s' = round_follows s seat packs s'"
proof -
  let ?t = "reshape_flags n s\<lparr>ds_current_pack := packs', ds_pools := pools'\<rparr>"
  have "ds_seats ?t = ds_seats s" "ds_packs_by_seat ?t = ds_packs_by_seat s" "ds_config ?t = ds_config s"
    "ds_current_pack_number ?t = ds_current_pack_number s" "ds_pass_direction ?t = ds_pass_direction s"
    "flags_get (ds_seats_picked_this_round ?t) i = flags_get (ds_seats_picked_this_round s) i" for i
    by (simp_all, simp add: reshape_flags_def)
  then show ?thesis unfolding round_follows_def by (simp only:)
qed

lemma pick_inv_reshape [simp]: "pick_inv (reshape_flags n s) = pick_inv s"
  by (simp add: pick_inv_def)

lemma pick_inv_legacy: "pick_inv s \<Longrightarrow> validate_legacy_admission s = Ok ()"
  by (auto simp: pick_inv_def pick_shape_def pick_phase_def validate_legacy_admission_Ok
      split: draft_status.splits)

text \<open>Moving cards between a seat's pack and its pool, then finishing the pick.\<close>

lemma move_then_finish:
  assumes "pick_shape s" "ds_status s = Drafting" "rounds_ok s" "seat < length (ds_seats s)"
    and "mset pack' + mset pool' = mset (pack_list (ds_current_pack s ! seat)) + mset (ds_pools s ! seat)"
    and "length pack' < length (pack_list (ds_current_pack s ! seat))"
  obtains ds s' where
    "finish_pick (s\<lparr>ds_current_pack := (ds_current_pack s)[seat := Some pack'],
       ds_pools := (ds_pools s)[seat := pool']\<rparr>) seat ids = (Ok ds, s')"
    "pick_shape s'" "pick_phase s'" "pass_cards s' = pass_cards s" "pick_potential s' < pick_potential s"
proof -
  let ?s2 = "s\<lparr>ds_current_pack := (ds_current_pack s)[seat := Some pack'], ds_pools := (ds_pools s)[seat := pool']\<rparr>"
  have len: "seat < length (ds_current_pack s)" "seat < length (ds_pools s)"
    and flow: "cf_flow (ds_config ?s2) \<noteq> FifoAsync"
    using assms(1,4) by (auto simp: pick_shape_def Let_def)
  have "pick_shape ?s2" "ds_status ?s2 = Drafting" "rounds_ok ?s2"
    using assms(1,2,3) by (simp_all add: pick_shape_def rounds_ok_def Let_def)
  then obtain ds s' where fin: "finish_pick_barrier ?s2 seat ids = (Ok ds, s')" "pick_shape s'"
    "table_cards s' = table_cards ?s2" "ds_pools s' = ds_pools ?s2" "pick_phase s'"
    by (rule finish_barrier)
  let ?old = "pack_list (ds_current_pack s ! seat)"
  have t: "table_cards ?s2 + mset ?old = table_cards s + mset pack'"
    using flatten_mset_update[of seat "map pack_list (ds_current_pack s)" pack'] len(1)
    by (simp add: table_cards_def map_update ac_simps)
  have p: "flatten_mset (ds_pools ?s2) + mset (ds_pools s ! seat) = flatten_mset (ds_pools s) + mset pool'"
    using flatten_mset_update[OF len(2), of pool'] by simp
  have "pass_cards ?s2 + (mset ?old + mset (ds_pools s ! seat)) = pass_cards s + (mset pack' + mset pool')"
    unfolding pass_cards_def by (rule add_pairwise[OF t p])
  then have "pass_cards ?s2 = pass_cards s" using assms(5) by simp
  moreover have "pass_cards s' = pass_cards ?s2" using fin(3,4) by (simp add: pass_cards_def)
  moreover have "pick_potential s' < pick_potential s"
    using arg_cong[OF t, of size] fin(3) assms(6) by (simp add: pick_potential_def)
  ultimately show thesis using that fin flow by (simp add: finish_pick_def)
qed

lemma pick_cards_Ok:
  assumes "pick_shape s" "seat < length (ds_seats s)" "pick_cards s seat ids = Ok s2"
  obtains picked pack' where "map ci_instance_id picked = ids" "picked \<noteq> []"
    "length ids = min (pr_cards_per_pick (procedure (ds_kind s))) (length (pack_list (ds_current_pack s ! seat)))"
    "mset (pack_list (ds_current_pack s ! seat)) = mset picked + mset pack'"
    "s2 = s\<lparr>ds_current_pack := (ds_current_pack s)[seat := Some pack'],
            ds_pools := (ds_pools s)[seat := ds_pools s ! seat @ picked]\<rparr>"
proof -
  have len: "seat < length (ds_current_pack s)" "seat < length (ds_pools s)"
    and flow: "cf_flow (ds_config s) = LegacyBarrier"
    using assms(1,2) by (auto simp: pick_shape_def Let_def)
  from assms(3) len obtain pack indices picked pack' where *: "ds_current_pack s ! seat = Some pack" "pack \<noteq> []"
    "length ids = required_pick_count s seat" "resolve_picks seat pack ids = Ok indices"
    "take_picks pack indices = Ok (picked, pack')"
    "s2 = s\<lparr>ds_current_pack := (ds_current_pack s)[seat := Some pack'],
            ds_pools := (ds_pools s)[seat := ds_pools s ! seat @ picked]\<rparr>"
    by (auto simp: pick_cards_def outcome_simps Let_def split: option.splits if_splits)
  from take_picks_Ok[OF resolve_picks_Ok(1,2)[OF *(4)]] *(5)
  have tp: "picked = map ((!) pack) indices" "mset pack = mset picked + mset pack'" by auto
  then have ids: "map ci_instance_id picked = ids" using resolve_picks_Ok(3)[OF *(4)] by (simp add: o_def)
  have req: "required_pick_count s seat = min (pr_cards_per_pick (procedure (ds_kind s))) (length pack)"
    using *(1) len(1) flow by (simp add: required_pick_count_def head_pack_def nth_opt_def)
  have "picked \<noteq> []"
  proof
    assume "picked = []"
    with ids *(3) req have "min (pr_cards_per_pick (procedure (ds_kind s))) (length pack) = 0" by simp
    then show False using procedure_bounds(1)[of "ds_kind s"] *(2) by (auto simp: min_def split: if_splits)
  qed
  then show thesis by (rule that[OF ids]) (use * tp(2) req in simp_all)
qed

lemma pick_cards_not_Panic:
  assumes "pick_shape s" "seat < length (ds_seats s)"
  shows "pick_cards s seat ids \<noteq> Panic"
proof -
  have len: "seat < length (ds_current_pack s)" "seat < length (ds_pools s)"
    using assms by (auto simp: pick_shape_def Let_def)
  have "take_picks pack indices \<noteq> Panic" if "resolve_picks seat pack ids = Ok indices" for pack indices
    using take_picks_Ok[OF resolve_picks_Ok(1,2)[OF that]] by auto
  then show ?thesis
    using len by (auto simp: pick_cards_def outcome_simps Let_def resolve_picks_not_Panic split: option.splits)
qed

lemma swap_effect_card_Ok:
  assumes "pick_shape s" "seat < length (ds_seats s)" "swap_effect_card s seat effect_id ids = Ok s2" "length ids = 2"
  obtains pool' pack' where
    "mset pack' + mset pool' = mset (pack_list (ds_current_pack s ! seat)) + mset (ds_pools s ! seat)"
    "length pack' < length (pack_list (ds_current_pack s ! seat))"
    "s2 = s\<lparr>ds_current_pack := (ds_current_pack s)[seat := Some pack'], ds_pools := (ds_pools s)[seat := pool']\<rparr>"
proof -
  have len: "seat < length (ds_current_pack s)" "seat < length (ds_pools s)"
    using assms(1,2) by (auto simp: pick_shape_def Let_def)
  let ?pool = "ds_pools s ! seat"
  from assms(3) len obtain i pack picked pack' where *: "position (is_effect_card effect_id) ?pool = Some i"
    "ds_current_pack s ! seat = Some pack" "remove_ids ids pack = Ok (picked, pack')"
    "s2 = s\<lparr>ds_current_pack := (ds_current_pack s)[seat := Some (pack' @ [?pool ! i])],
            ds_pools := (ds_pools s)[seat := remove_at i ?pool @ picked]\<rparr>"
    by (auto simp: swap_effect_card_def outcome_simps split: option.splits)
  have i: "i < length ?pool" using position_Some[OF *(1)] by simp
  from remove_ids_Ok[OF *(3)] have r: "map ci_instance_id picked = ids" "mset pack = mset picked + mset pack'" by auto
  then have "length picked = 2" using assms(4) by (metis length_map)
  moreover have "length pack = length picked + length pack'" using r(2) by (metis size_mset size_union)
  ultimately have "length (pack' @ [?pool ! i]) < length (pack_list (ds_current_pack s ! seat))" using *(2) by simp
  moreover have "mset (pack' @ [?pool ! i]) + mset (remove_at i ?pool @ picked)
      = mset (pack_list (ds_current_pack s ! seat)) + mset ?pool"
    using *(2) r(2) mset_remove_at_add[OF i] by (simp add: ac_simps)
  ultimately show thesis using that *(4) by blast
qed

lemma swap_effect_card_not_Panic:
  assumes "pick_shape s" "seat < length (ds_seats s)" "distinct ids"
  shows "swap_effect_card s seat effect_id ids \<noteq> Panic"
proof -
  have len: "seat < length (ds_current_pack s)" "seat < length (ds_pools s)"
    using assms by (auto simp: pick_shape_def Let_def)
  have "remove_ids ids pack \<noteq> Panic"
    if "List.find (\<lambda>card_id. \<not> list_ex (\<lambda>c. ci_instance_id c = card_id) pack) ids = None" for pack
  proof -
    from that have "set ids \<subseteq> ci_instance_id ` set pack" by (force simp: find_None_iff list_ex_iff)
    from remove_ids_total[OF assms(3) this] show ?thesis by auto
  qed
  with len show ?thesis by (auto simp: swap_effect_card_def outcome_simps split: option.splits)
qed

lemma pick_step_cases:
  assumes "pick_inv s"
  obtains (refused) e where "fst (pick_step s a) = Err e"
      "snd (pick_step s a) = s \<or> snd (pick_step s a) = reshape_flags (length (ds_seats s)) s"
  | (accepted) ds where "fst (pick_step s a) = Ok ds" "pick_inv (snd (pick_step s a))"
      "pass_cards (snd (pick_step s a)) = pass_cards s" "pick_potential (snd (pick_step s a)) < pick_potential s"
proof -
  obtain seat eff ids where a: "a = (seat, eff, ids)" by (cases a)
  let ?n = "length (ds_seats s)" and ?s1 = "reshape_flags (length (ds_seats s)) s"
  have shape: "pick_shape s" and u8: "as_u8 ?n = ?n"
    using assms by (auto simp: pick_inv_def pick_shape_def Let_def)
  have shape1: "pick_shape ?s1" using shape by simp
  have finishes: thesis if "ds_status s = Drafting" "seat < ?n"
    "pick_step s a = finish_pick (?s1\<lparr>ds_current_pack := (ds_current_pack ?s1)[seat := Some pack'],
       ds_pools := (ds_pools ?s1)[seat := pool']\<rparr>) seat ids"
    "mset pack' + mset pool' = mset (pack_list (ds_current_pack ?s1 ! seat)) + mset (ds_pools ?s1 ! seat)"
    "length pack' < length (pack_list (ds_current_pack ?s1 ! seat))" for pack' pool'
  proof -
    note moved = that
    have rounds: "rounds_ok ?s1" using assms that(1) by (simp add: pick_inv_def pick_phase_def)
    have st: "ds_status ?s1 = Drafting" "seat < length (ds_seats ?s1)" using that(1,2) by simp_all
    obtain ds s' where fin:
      "finish_pick (?s1\<lparr>ds_current_pack := (ds_current_pack ?s1)[seat := Some pack'],
         ds_pools := (ds_pools ?s1)[seat := pool']\<rparr>) seat ids = (Ok ds, s')"
      "pick_shape s'" "pick_phase s'" "pass_cards s' = pass_cards ?s1" "pick_potential s' < pick_potential ?s1"
      by (rule move_then_finish[OF shape1 st(1) rounds st(2) moved(4,5)])
    have "pick_inv s'" using fin assms by (simp add: pick_inv_def)
    with fin that(3) show thesis by (intro accepted) (simp_all add: pick_potential_def)
  qed
  have gates: thesis if "ds_status s \<noteq> Drafting \<or> ?n \<le> seat \<or> flags_get (ds_seats_picked_this_round s) seat
      \<or> (eff \<noteq> None \<and> length ids \<noteq> 2)"
  proof -
    have "\<exists>e. fst (pick_step s a) = Err e \<and> (snd (pick_step s a) = s \<or> snd (pick_step s a) = ?s1)"
      using that pick_inv_legacy[OF assms]
      by (cases eff) (auto simp: a pick_step_def apply_pick_def apply_pick_inner_def u8
          apply_pick_with_draft_effect_def apply_pick_with_effect_inner_def Let_def)
    then show thesis using refused by blast
  qed
  show thesis
  proof (cases "ds_status s \<noteq> Drafting \<or> ?n \<le> seat \<or> flags_get (ds_seats_picked_this_round s) seat
      \<or> (eff \<noteq> None \<and> length ids \<noteq> 2)")
    case True
    then show thesis by (rule gates)
  next
    case opened: False
    then have seat: "seat < length (ds_seats ?s1)" by simp
    show thesis
    proof (cases eff)
      case None
      have step: "pick_step s a = (case pick_cards ?s1 seat ids of
          Err e \<Rightarrow> (Err e, ?s1) | Panic \<Rightarrow> (Panic, ?s1) | Ok s2 \<Rightarrow> finish_pick s2 seat ids)"
        using opened None pick_inv_legacy[OF assms]
        by (simp add: a pick_step_def apply_pick_def apply_pick_inner_def u8 Let_def)
      show thesis
      proof (cases "pick_cards ?s1 seat ids")
        case (Ok s2)
        obtain picked pack' where *: "picked \<noteq> []"
          "mset (pack_list (ds_current_pack ?s1 ! seat)) = mset picked + mset pack'"
          "s2 = ?s1\<lparr>ds_current_pack := (ds_current_pack ?s1)[seat := Some pack'],
            ds_pools := (ds_pools ?s1)[seat := ds_pools ?s1 ! seat @ picked]\<rparr>"
          by (rule pick_cards_Ok[OF shape1 seat Ok]) (rule that, assumption+)
        have "length (pack_list (ds_current_pack ?s1 ! seat)) = length picked + length pack'"
          using *(2) by (metis size_mset size_union)
        then show thesis using step Ok * opened by (intro finishes[where pack' = pack' and pool' = "ds_pools ?s1 ! seat @ picked"]) (auto simp: ac_simps)
      qed (use step refused pick_cards_not_Panic[OF shape1 seat] in auto)
    next
      case (Some effect_id)
      with opened obtain x y where ids: "ids = [x, y]" by (auto simp: length_Suc_conv numeral_2_eq_2)
      show thesis
      proof (cases "x = y")
        case True
        with opened Some pick_inv_legacy[OF assms] show thesis
          by (intro refused[of "InvalidDraftEffectSelection 2 1"])
            (simp_all add: a ids pick_step_def apply_pick_with_draft_effect_def apply_pick_with_effect_inner_def u8 Let_def)
      next
        case False
        then have step: "pick_step s a = (case swap_effect_card ?s1 seat effect_id ids of
            Err e \<Rightarrow> (Err e, ?s1) | Panic \<Rightarrow> (Panic, ?s1) | Ok s2 \<Rightarrow> finish_pick s2 seat ids)"
          using opened Some pick_inv_legacy[OF assms] unfolding ids
          by (simp add: a ids pick_step_def apply_pick_with_draft_effect_def apply_pick_with_effect_inner_def u8 Let_def)
        have two: "length ids = 2" "distinct ids" using ids False by auto
        show thesis
        proof (cases "swap_effect_card ?s1 seat effect_id ids")
          case (Ok s2)
          show thesis
            by (rule swap_effect_card_Ok[OF shape1 seat Ok two(1)]) (use step Ok opened in \<open>auto intro!: finishes\<close>)
        qed (use step refused swap_effect_card_not_Panic[OF shape1 seat two(2)] in auto)
      qed
    qed
  qed
qed

section \<open>Some seat can always pick\<close>

lemma resolve_picks_total:
  assumes "distinct (map (\<lambda>i. ci_instance_id (pack ! i)) acc @ ids)" "set ids \<subseteq> ci_instance_id ` set pack"
  shows "\<exists>indices. try_fold (resolve_pick seat pack) ids acc = Ok indices"
  using assms
proof (induction ids arbitrary: acc)
  case (Cons c ids)
  then obtain i where i: "position (\<lambda>x. ci_instance_id x = c) pack = Some i"
    using position_ex[of pack "\<lambda>x. ci_instance_id x = c"] by auto
  from position_Some[OF i] have "ci_instance_id (pack ! i) = c" by auto
  with Cons.prems(1) have "i \<notin> set acc" "distinct (map (\<lambda>i. ci_instance_id (pack ! i)) (acc @ [i]) @ ids)" by auto
  with Cons.IH[of "acc @ [i]"] Cons.prems(2) i show ?case by (simp add: resolve_pick_def)
qed simp

lemma unique_ids_distinct:
  assumes "unique_ids cards" "mset pack \<subseteq># cards"
  shows "distinct (map ci_instance_id pack)"
proof -
  have "image_mset ci_instance_id (mset pack) \<subseteq># image_mset ci_instance_id cards"
    using assms(2) by (rule image_mset_subseteq_mono)
  then have "count (image_mset ci_instance_id (mset pack)) x \<le> count (image_mset ci_instance_id cards) x" for x
    by (rule mset_subset_eq_count)
  then have le: "count (mset (map ci_instance_id pack)) x \<le> 1" for x
    using assms(1) order_trans unfolding unique_ids_def mset_map by blast
  have "count (mset (map ci_instance_id pack)) x = (if x \<in> set (map ci_instance_id pack) then 1 else 0)" for x
  proof (cases "x \<in> set (map ci_instance_id pack)")
    case True
    then have "0 < count (mset (map ci_instance_id pack)) x" by (metis count_greater_zero_iff set_mset_mset)
    with le[of x] have "count (mset (map ci_instance_id pack)) x = 1" by linarith
    with True show ?thesis by presburger
  next
    case False
    then show ?thesis by (metis count_mset_0_iff)
  qed
  then show ?thesis unfolding distinct_count_atmost_1 by blast
qed

lemma pick_step_enabled:
  assumes "pick_inv s" "ds_status s = Drafting"
  shows "\<exists>a. is_ok (fst (pick_step s a))"
proof -
  from assms obtain seat where seat: "seat < length (ds_seats s)" "owes_pick (ds_current_pack s ! seat)"
    "\<not> flags_get (ds_seats_picked_this_round s) seat"
    by (auto simp: pick_inv_def pick_phase_def pick_pending_def)
  let ?s1 = "reshape_flags (length (ds_seats s)) s"
  have shape: "pick_shape s" and u8: "as_u8 (length (ds_seats s)) = length (ds_seats s)"
    and len: "seat < length (ds_current_pack s)" "seat < length (ds_pools s)"
    and flow: "cf_flow (ds_config s) = LegacyBarrier"
    using assms(1) seat(1) by (auto simp: pick_inv_def pick_shape_def Let_def)
  from seat(2) obtain pack where pack: "ds_current_pack s ! seat = Some pack" "pack \<noteq> []"
    by (cases "ds_current_pack s ! seat") (auto simp: owes_pick_def)
  have "mset pack \<subseteq># flatten_mset (map pack_list (ds_current_pack s))"
    using mset_subset_eq_flatten[of seat "map pack_list (ds_current_pack s)"] len(1) pack(1) by simp
  then have "mset pack \<subseteq># pass_cards s"
    by (simp add: pass_cards_def table_cards_def subset_mset.add_increasing2)
  then have dist: "distinct (map ci_instance_id pack)"
    using assms(1) unique_ids_distinct by (auto simp: pick_inv_def)
  define k where "k = required_pick_count ?s1 seat"
  define ids where "ids = map ci_instance_id (take k pack)"
  have k: "k \<le> length pack" using len(1) flow pack by (simp add: k_def required_pick_count_def head_pack_def)
  have "distinct ids" "set ids \<subseteq> ci_instance_id ` set pack"
    using dist set_take_subset[of k pack] unfolding ids_def by (metis distinct_take take_map) (auto dest: in_set_takeD)
  then obtain indices where r: "resolve_picks seat pack ids = Ok indices"
    using resolve_picks_total[of pack "[]" ids seat] by (auto simp: resolve_picks_def)
  from take_picks_Ok[OF resolve_picks_Ok(1,2)[OF r]] obtain pack' where
    t: "take_picks pack indices = Ok (map ((!) pack) indices, pack')" by blast
  have "length ids = required_pick_count ?s1 seat" using k by (simp add: ids_def k_def)
  then obtain s2 where s2: "pick_cards ?s1 seat ids = Ok s2"
    using len pack r t by (simp add: pick_cards_def)
  then have step: "pick_step s (seat, None, ids) = finish_pick s2 seat ids"
    using assms(2) seat pick_inv_legacy[OF assms(1)]
    by (simp add: pick_step_def apply_pick_def apply_pick_inner_def u8 Let_def)
  have shape1: "pick_shape ?s1" "seat < length (ds_seats ?s1)" "ds_status ?s1 = Drafting" "rounds_ok ?s1"
    using shape seat(1) assms by (simp_all add: pick_inv_def pick_phase_def)
  obtain picked pack'' where m: "picked \<noteq> []"
    "mset (pack_list (ds_current_pack ?s1 ! seat)) = mset picked + mset pack''"
    "s2 = ?s1\<lparr>ds_current_pack := (ds_current_pack ?s1)[seat := Some pack''],
      ds_pools := (ds_pools ?s1)[seat := ds_pools ?s1 ! seat @ picked]\<rparr>"
    by (rule pick_cards_Ok[OF shape1(1,2) s2]) (rule that, assumption+)
  have len'': "length pack'' < length (pack_list (ds_current_pack ?s1 ! seat))"
    using m(1) arg_cong[OF m(2), of size] by (cases picked) auto
  have "mset pack'' + mset (ds_pools ?s1 ! seat @ picked)
      = mset (pack_list (ds_current_pack ?s1 ! seat)) + mset (ds_pools ?s1 ! seat)"
    using m(2) by (simp add: ac_simps)
  from move_then_finish[OF shape1(1,3,4,2) this len'', of ids] obtain ds s' where
    "finish_pick s2 seat ids = (Ok ds, s')" unfolding m(3) by blast
  with step show ?thesis by (intro exI[of _ "(seat, None, ids)"]) simp
qed

section \<open>Interpretations of the reducer interfaces\<close>

interpretation picks: live_reducer pick_step pick_inv pick_potential "\<lambda>s. ds_status s \<noteq> Drafting"
proof unfold_locales
  fix s :: draft_session and a
  assume inv: "pick_inv s"
  show "pick_inv (snd (pick_step s a))"
    using inv by (cases rule: pick_step_cases[OF inv, of a]) auto
  show "is_ok (fst (pick_step s a)) \<Longrightarrow> pick_potential (snd (pick_step s a)) < pick_potential s"
    using inv by (cases rule: pick_step_cases[OF inv, of a]) auto
  show "\<not> is_ok (fst (pick_step s a)) \<Longrightarrow> pick_potential (snd (pick_step s a)) \<le> pick_potential s"
    using inv by (cases rule: pick_step_cases[OF inv, of a]) (auto simp: pick_potential_def)
  show "\<not> ds_status s \<noteq> Drafting \<Longrightarrow> \<exists>a. is_ok (fst (pick_step s a))"
    using pick_step_enabled[OF inv] by simp
qed

interpretation pick_cards: conserving_reducer pick_step pick_inv pass_cards
proof unfold_locales
  fix s :: draft_session and a
  assume inv: "pick_inv s"
  show "pass_cards (snd (pick_step s a)) = pass_cards s"
    using inv by (cases rule: pick_step_cases[OF inv, of a]) auto
qed

interpretation pick_safe: panic_free_reducer pick_step pick_inv
proof unfold_locales
  fix s :: draft_session and a
  assume inv: "pick_inv s"
  show "fst (pick_step s a) \<noteq> Panic"
    using inv by (cases rule: pick_step_cases[OF inv, of a]) auto
qed

section \<open>Properties of pick-and-pass drafting\<close>

definition sample_pick :: draft_session where
  "sample_pick = (sample_session Premier 2)\<lparr>ds_status := Drafting,
     ds_config := (sample_config Premier 2)\<lparr>cf_pack_count := 2\<rparr>,
     ds_current_pack := [Some [sample_card ''a'', sample_card ''b''], Some [sample_card ''c'', sample_card ''d'']],
     ds_packs_by_seat := [[[sample_card ''e'']], [[sample_card ''f'']]]\<rparr>"

lemma sample_pick_simps:
  "ds_status sample_pick = Drafting" "length (ds_seats sample_pick) = 2"
  "ds_pools sample_pick = [[], []]" "ds_kind sample_pick = Premier" "ds_pass_direction sample_pick = PassLeft"
  by (simp_all add: sample_pick_def sample_defs for_pack_def numeral_2_eq_2)

lemma sample_pick_inv: "pick_inv sample_pick"
proof -
  have "pick_shape sample_pick"
    by (simp add: pick_shape_def sample_pick_def sample_defs)
  moreover have "distinct (map ci_instance_id [sample_card ''a'', sample_card ''b'', sample_card ''c'',
      sample_card ''d'', sample_card ''e'', sample_card ''f''])"
    by (simp add: sample_card_def)
  moreover have "pass_cards sample_pick = mset [sample_card ''a'', sample_card ''b'', sample_card ''c'',
      sample_card ''d'', sample_card ''e'', sample_card ''f'']"
    by (simp add: pass_cards_def table_cards_def flatten_mset_def sample_pick_def sample_session_def
        new_session_def sample_seats_def numeral_2_eq_2)
  moreover have "pick_phase sample_pick"
    by (auto simp: pick_phase_def rounds_ok_def pick_pending_def owes_pick_def sample_pick_def sample_defs
        flags_all_false_def intro!: exI[of _ 0])
  ultimately show ?thesis
    unfolding pick_inv_def unique_ids_def
    by (metis (no_types, lifting) distinct_count_atmost_1 le_numeral_extra(4) mset_map zero_le_one)
qed

text \<open>
  C7. A pick drafts what it names. An accepted pick moves exactly the cards it names, in the order
  it names them, from the seat's current pack to the end of that seat's pool, and no other pool
  changes; it names as many cards as the draft kind's pick step, or the rest of a shorter pack.
  The pack keeps exactly its other cards, and with it in place of the old pack the table is left
  as it is while another seat owes a pick, is replaced by the next packs (or the draft ends) when
  every pack is empty, and is handed on by one seat otherwise.
\<close>

theorem pick_takes_named_cards:
  assumes "pick_inv s" "apply_pick s seat ids = (Ok ds, s')"
  shows "\<exists>picked rest. map ci_instance_id picked = ids
    \<and> mset (pack_list (ds_current_pack s ! seat)) = mset picked + mset rest
    \<and> ds_pools s' = (ds_pools s)[seat := ds_pools s ! seat @ picked]
    \<and> length ids = min (pr_cards_per_pick (procedure (ds_kind s))) (length (pack_list (ds_current_pack s ! seat)))
    \<and> round_follows s seat ((ds_current_pack s)[seat := Some rest]) s'
    \<and> table_cards s = table_cards s' + mset picked"
proof -
  let ?n = "length (ds_seats s)" let ?s1 = "reshape_flags ?n s"
  have u8: "as_u8 ?n = ?n" and shape: "pick_shape s"
    using assms(1) by (auto simp: pick_inv_def pick_shape_def Let_def)
  from assms pick_inv_legacy[OF assms(1)] have open_: "ds_status s = Drafting" "seat < ?n"
    and step: "(case pick_cards ?s1 seat ids of Err e \<Rightarrow> (Err e, ?s1) | Panic \<Rightarrow> (Panic, ?s1)
        | Ok s2 \<Rightarrow> finish_pick s2 seat ids) = (Ok ds, s')"
    by (auto simp: apply_pick_def apply_pick_inner_def u8 Let_def split: if_splits)
  from step obtain s2 where s2: "pick_cards ?s1 seat ids = Ok s2" "finish_pick s2 seat ids = (Ok ds, s')"
    by (auto split: outcome.splits)
  have shape1: "pick_shape ?s1" "seat < length (ds_seats ?s1)" using shape open_ by simp_all
  obtain picked pack' where m: "map ci_instance_id picked = ids"
    "length ids = min (pr_cards_per_pick (procedure (ds_kind ?s1))) (length (pack_list (ds_current_pack ?s1 ! seat)))"
    "mset (pack_list (ds_current_pack ?s1 ! seat)) = mset picked + mset pack'"
    "s2 = ?s1\<lparr>ds_current_pack := (ds_current_pack ?s1)[seat := Some pack'],
      ds_pools := (ds_pools ?s1)[seat := ds_pools ?s1 ! seat @ picked]\<rparr>"
    by (rule pick_cards_Ok[OF shape1 s2(1)]) (rule that, assumption+)
  have ok2: "pick_shape s2" "ds_status s2 = Drafting" "rounds_ok s2" "cf_flow (ds_config s2) \<noteq> FifoAsync"
    using shape open_ assms(1) by (simp_all add: m(4) pick_shape_def rounds_ok_def Let_def pick_inv_def pick_phase_def)
  from ok2(4) s2(2) have fin: "finish_pick_barrier s2 seat ids = (Ok ds, s')" by (simp add: finish_pick_def)
  from finish_barrier[OF ok2(1-3), of seat ids] fin
  have after: "ds_pools s' = ds_pools s2" "table_cards s' = table_cards s2" by (metis prod.inject)+
  have "seat < length (ds_seats_picked_this_round s2)"
    using open_(2) by (simp add: m(4) reshape_flags_def flags_ensure_len_def)
  then have "round_follows s2 seat (ds_current_pack s2) s'" by (rule finish_barrier_round[OF ok2(1-3) fin])
  then have "round_follows s seat (ds_current_pack s2) s'"
    by (simp add: round_follows_reshape m(4))
  moreover have "table_cards s = table_cards s2 + mset picked"
    using flatten_mset_update[of seat "map pack_list (ds_current_pack s)" pack'] m(3) open_(2) shape
    by (simp add: table_cards_def m(4) map_update pick_shape_def Let_def ac_simps)
  ultimately show ?thesis using m after by (intro exI[of _ picked] exI[of _ pack']) simp
qed

theorem pick_takes_named_cards_witness:
  "\<exists>picked. map ci_instance_id picked = [''b'']
     \<and> ds_pools (snd (apply_pick sample_pick 0 [''b''])) = [picked, []]
     \<and> table_cards sample_pick = table_cards (snd (apply_pick sample_pick 0 [''b''])) + mset picked"
proof -
  have "is_ok (fst (apply_pick sample_pick 0 [''b'']))" by code_simp
  then obtain ds s' where *: "apply_pick sample_pick 0 [''b''] = (Ok ds, s')"
    by (metis is_ok_iff prod.collapse)
  from pick_takes_named_cards[OF sample_pick_inv this] * show ?thesis
    by (auto simp: sample_pick_simps)
qed

text \<open>
  Conservation. Whatever picks are sent, with or without draft-effect cards, the multiset of
  cards in the packs on the table, the unopened packs and the pools never changes.
\<close>

lemma pick_cards_conserved:
  assumes "pick_inv s"
  shows "pass_cards (run pick_step s picks) = pass_cards s"
  using assms by (rule pick_cards.run_content)

text \<open>
  C6. A draft finishes. A pick-and-pass draft accepts at most as many picks as there are cards on
  the table; after any sequence of picks the reducer does not panic on the next one and, while the
  draft runs, some seat has an acceptable pick; some continuation ends it in deckbuilding with
  nothing left on the table and every card in a pool.
\<close>

theorem pick_draft_finishes:
  assumes "pick_inv s" "ds_status s = Drafting"
  shows "accepted pick_step s picks \<le> pick_potential s
    \<and> fst (pick_step (run pick_step s picks) a) \<noteq> Panic
    \<and> (ds_status (run pick_step s picks) = Drafting \<longrightarrow>
        (\<exists>b. is_ok (fst (pick_step (run pick_step s picks) b))))
    \<and> (\<exists>more. ds_status (run pick_step (run pick_step s picks) more) = Deckbuilding
        \<and> flatten_mset (ds_pools (run pick_step (run pick_step s picks) more)) = pass_cards s)"
proof -
  let ?t = "run pick_step s picks"
  have inv: "pick_inv ?t" using picks.run_inv[OF assms(1)] .
  obtain more where more: "ds_status (run pick_step ?t more) \<noteq> Drafting" using picks.reaches_final[OF inv] by blast
  have inv': "pick_inv (run pick_step ?t more)" using picks.run_inv[OF inv] .
  with more have done_: "ds_status (run pick_step ?t more) = Deckbuilding" "table_cards (run pick_step ?t more) = {#}"
    by (auto simp: pick_inv_def pick_phase_def split: draft_status.splits)
  have "pass_cards (run pick_step ?t more) = pass_cards s"
    using pick_cards.run_content[OF inv] pick_cards.run_content[OF assms(1)] by simp
  with done_ have "flatten_mset (ds_pools (run pick_step ?t more)) = pass_cards s" by (simp add: pass_cards_def)
  then show ?thesis
    using picks.accepted_bound[OF assms(1), of picks] pick_safe.run_no_panic[OF assms(1), of picks a]
      pick_step_enabled[OF inv] done_(1) by auto
qed

theorem pick_draft_finishes_witness:
  "\<exists>more. ds_status (run pick_step sample_pick more) = Deckbuilding
     \<and> size (flatten_mset (ds_pools (run pick_step sample_pick more))) = 6"
proof -
  have "size (pass_cards sample_pick) = 6"
    by (simp add: pass_cards_def table_cards_def flatten_mset_def sample_pick_def sample_session_def
        new_session_def sample_seats_def numeral_2_eq_2)
  with pick_draft_finishes[OF sample_pick_inv sample_pick_simps(1), of "[]" "(0, None, [])"] show ?thesis
    by auto
qed

text \<open>
  Refusals. A refused pick leaves the session as it was, up to the reshaping of the two
  per-seat flag vectors; a seat that has picked this round is refused until the round completes.
\<close>

lemma refused_pick_changes_nothing:
  assumes "pick_inv s" "pick_step s a = (r, s')" "\<not> is_ok r"
  shows "(\<exists>e. r = Err e)
    \<and> s'\<lparr>ds_seats_picked_this_round := ds_seats_picked_this_round s, ds_connected_seats := ds_connected_seats s\<rparr> = s
    \<and> (flags_get (ds_seats_picked_this_round s) seat \<and> seat < length (ds_seats s) \<and> ds_status s = Drafting \<longrightarrow>
        fst (apply_pick s seat ids) = Err (SeatAlreadyPickedThisRound seat))"
proof -
  have u8: "as_u8 (length (ds_seats s)) = length (ds_seats s)"
    using assms(1) by (auto simp: pick_inv_def pick_shape_def Let_def)
  have "flags_get (ds_seats_picked_this_round s) seat \<and> seat < length (ds_seats s) \<and> ds_status s = Drafting \<Longrightarrow>
      fst (apply_pick s seat ids) = Err (SeatAlreadyPickedThisRound seat)"
    using pick_inv_legacy[OF assms(1)] by (simp add: apply_pick_def apply_pick_inner_def u8 Let_def)
  moreover have "(\<exists>e. r = Err e)
    \<and> s'\<lparr>ds_seats_picked_this_round := ds_seats_picked_this_round s, ds_connected_seats := ds_connected_seats s\<rparr> = s"
    using assms(2,3) by (cases rule: pick_step_cases[OF assms(1), of a]) (auto simp: reshape_flags_def)
  ultimately show ?thesis by blast
qed

text \<open>
  Passing: when the packs pass, the pack of every seat arrives at its neighbour in the pass
  direction: the new table is a rotation of the old one, whose direction alternates by round.
\<close>

lemma packs_rotate:
  assumes "pick_shape s" "i < length (ds_seats s)"
    and "pass_packs (length (ds_seats s)) deltas s = (r, s')"
  shows "r = Ok (deltas @ [PackPassed]) \<and> mset (ds_current_pack s') = mset (ds_current_pack s)
    \<and> ds_current_pack s' ! next_seat (ds_pass_direction s) i (length (ds_seats s)) = ds_current_pack s ! i
    \<and> ds_current_pack s ! next_seat (opposite (ds_pass_direction s)) i (length (ds_seats s)) = ds_current_pack s' ! i"
proof -
  let ?n = "length (ds_seats s)" and ?d = "ds_pass_direction s"
  from pass_packs_result[OF assms(1) refl, of deltas] assms(3) have *: "r = Ok (deltas @ [PackPassed])"
    "mset (ds_current_pack s') = mset (ds_current_pack s)"
    "\<And>j. j < ?n \<Longrightarrow> ds_current_pack s' ! next_seat ?d j ?n = ds_current_pack s ! j" by auto
  have "next_seat (opposite ?d) i ?n < ?n" using assms(2) by (intro next_seat_less) auto
  from *(3)[OF this] next_seat_opposite[of i ?n "opposite ?d"] assms(2) *(1,2) *(3)[OF assms(2)] show ?thesis
    by simp
qed

end
