(* ===== verification/Fifo_Progress.thy ===== *)
theory Fifo_Progress
  imports Fifo_Select
begin

text \<open>
  The invariant of a FIFO draft and its consequences. A session is well formed when every seat
  has a queue of non-empty packs and a prompt for the head of it, every later round has its
  unopened packs and their provenance, and no card is in two places. Selections, expiry, pausing
  and resuming keep it; none of them panics, and on a well-formed session the automatic selection
  can only fail by exhausting the interoperable integer range.
\<close>

section \<open>Failing only by exhausted counters\<close>

abbreviation counters_exhausted :: "draft_error \<Rightarrow> bool" where
  "counters_exhausted e \<equiv> e = InvalidClockBounds"

lemma increment_fails_only [simp]: "fails_only counters_exhausted (increment v)"
  by (auto simp: increment_def ok_or_def split: option.split)

lemma issue_clock_fails_only [simp]: "fails_only counters_exhausted (issue_clock policy steps now i)"
  by (auto simp: issue_clock_def running_def deadline_def ok_or_def split: option.split intro!: fails_only_and_then)

lemma reconcile_seat_fails_only: "i < 256 \<Longrightarrow> fails_only counters_exhausted (reconcile_seat policy sid now (i, st))"
  by (auto simp: reconcile_seat_def try_u8_def Let_def split: list.split intro!: fails_only_and_then)

lemma reconcile_prompts_fails_only:
  "ds_fifo s = Some fifo \<Longrightarrow> length (ff_seats fifo) < 256 \<Longrightarrow> fails_only counters_exhausted (reconcile_prompts s now)"
  by (auto simp: reconcile_prompts_def fifo_ref_def in_set_enumerate_eq
      intro!: fails_only_and_then fails_only_try_map reconcile_seat_fails_only)

section \<open>Well-formed tables\<close>

definition full_packs :: "fifo_seat_state \<Rightarrow> bool" where
  "full_packs st \<longleftrightarrow> (\<forall>q\<in>set (fs_queue st). qp_pack q \<noteq> [])"

definition fifo_table :: "draft_session \<Rightarrow> fifo_draft_state \<Rightarrow> bool" where
  "fifo_table s fifo \<longleftrightarrow> cf_flow (ds_config s) = FifoAsync \<and> ds_fifo s = Some fifo
     \<and> cf_pod_size (ds_config s) = length (ds_seats s) \<and> 0 < length (ds_seats s) \<and> length (ds_seats s) < 256
     \<and> length (ff_seats fifo) = length (ds_seats s) \<and> length (ds_pools s) = length (ds_seats s)
     \<and> length (ds_packs_by_seat s) = length (ds_seats s) \<and> cf_pack_count (ds_config s) < 256
     \<and> (\<forall>st\<in>set (ff_seats fifo). full_packs st)
     \<and> (\<forall>packs\<in>set (ds_packs_by_seat s). [] \<notin> set packs)
     \<and> (\<forall>r<cf_pack_count (ds_config s). \<forall>i<length (ds_seats s).
          fmlookup (ff_packs fifo) (DraftPackId (r * length (ds_seats s) + i)) \<noteq> None)"

definition unopened :: "draft_session \<Rightarrow> nat \<Rightarrow> bool" where
  "unopened s rnd \<longleftrightarrow> (\<forall>packs\<in>set (ds_packs_by_seat s). length packs = cf_pack_count (ds_config s) - rnd)"

definition prompt_names_seat :: "fifo_draft_state \<Rightarrow> nat \<Rightarrow> fifo_seat_state \<Rightarrow> bool" where
  "prompt_names_seat fifo i st \<longleftrightarrow> (\<forall>p. fs_prompt st = Some p \<longrightarrow>
     pm_id p = \<lparr>pi_session_id = ff_session_id fifo, pi_seat = i, pi_generation = fs_generation st\<rparr>)"

definition prompts_named :: "fifo_draft_state \<Rightarrow> bool" where
  "prompts_named fifo \<longleftrightarrow> (\<forall>i<length (ff_seats fifo). prompt_names_seat fifo i (ff_seats fifo ! i))"

definition drafting_ok :: "draft_session \<Rightarrow> fifo_draft_state \<Rightarrow> bool" where
  "drafting_ok s fifo \<longleftrightarrow> ds_current_pack_number s < cf_pack_count (ds_config s)
     \<and> unopened s (Suc (ds_current_pack_number s)) \<and> (\<exists>st\<in>set (ff_seats fifo). fs_queue st \<noteq> [])
     \<and> prompts_named fifo \<and> (\<forall>st\<in>set (ff_seats fifo). prompt_matches st) \<and> ff_review fifo = None"

definition idle_seats :: "fifo_draft_state \<Rightarrow> bool" where
  "idle_seats fifo \<longleftrightarrow> (\<forall>st\<in>set (ff_seats fifo). fs_queue st = [] \<and> fs_prompt st = None)"

definition review_ok :: "draft_session \<Rightarrow> fifo_draft_state \<Rightarrow> bool" where
  "review_ok s fifo \<longleftrightarrow> Suc (ds_current_pack_number s) < cf_pack_count (ds_config s)
     \<and> unopened s (Suc (ds_current_pack_number s)) \<and> idle_seats fifo
     \<and> (\<exists>r. ff_review fifo = Some r \<and> rv_next_round r = Suc (ds_current_pack_number s))"

definition all_running :: "fifo_draft_state \<Rightarrow> bool" where
  "all_running fifo \<longleftrightarrow> (\<forall>c\<in>clocks fifo. \<exists>d. ck_state c = Running d)"

definition seat_running :: "fifo_seat_state \<Rightarrow> bool" where
  "seat_running st \<longleftrightarrow> (\<forall>p c. fs_prompt st = Some p \<longrightarrow> pm_clock p = Some c \<longrightarrow> (\<exists>d. ck_state c = Running d))"

lemma all_running_iff:
  "all_running fifo \<longleftrightarrow> (\<forall>st\<in>set (ff_seats fifo). seat_running st)
     \<and> (\<forall>r. ff_review fifo = Some r \<longrightarrow> (\<exists>d. ck_state (rv_clock r) = Running d))"
  by (auto simp: all_running_def seat_running_def clocks_def)

definition all_frozen :: "fifo_draft_state \<Rightarrow> bool" where
  "all_frozen fifo \<longleftrightarrow> (\<forall>c\<in>clocks fifo. \<exists>r. ck_state c = Frozen r)"

definition phase_ok :: "draft_active_phase \<Rightarrow> draft_session \<Rightarrow> fifo_draft_state \<Rightarrow> bool" where
  "phase_ok phase s fifo = (case phase of PhaseDrafting \<Rightarrow> drafting_ok s fifo | PhaseReview \<Rightarrow> review_ok s fifo)"

definition status_ok :: "draft_session \<Rightarrow> fifo_draft_state \<Rightarrow> bool" where
  "status_ok s fifo \<longleftrightarrow>
     (case ds_status s of
        Drafting \<Rightarrow> drafting_ok s fifo \<and> all_running fifo \<and> ff_paused fifo = None
      | Review \<Rightarrow> review_ok s fifo \<and> all_running fifo \<and> ff_paused fifo = None
      | Paused \<Rightarrow> (\<exists>p. ff_paused fifo = Some p \<and> phase_ok (pz_phase p) s fifo) \<and> all_frozen fifo
      | Deckbuilding \<Rightarrow> idle_seats fifo \<and> unopened s (cf_pack_count (ds_config s)) \<and> ff_paused fifo = None
      | _ \<Rightarrow> idle_seats fifo)"

definition fifo_inv :: "draft_session \<Rightarrow> bool" where
  "fifo_inv s \<longleftrightarrow> (\<exists>fifo. fifo_table s fifo \<and> status_ok s fifo) \<and> (\<forall>x. count (fifo_ids s) x \<le> 1)"

section \<open>Prompts after reconciliation\<close>

lemma reconcile_keeps_table:
  assumes "reconcile_prompts s now = Ok t" "fifo_table s fifo" "prompts_named fifo"
  obtains seats where "t = s\<lparr>ds_fifo := Some (fifo\<lparr>ff_seats := seats\<rparr>)\<rparr>"
    "fifo_table t (fifo\<lparr>ff_seats := seats\<rparr>)" "prompts_named (fifo\<lparr>ff_seats := seats\<rparr>)"
    "map fs_queue seats = map fs_queue (ff_seats fifo)" "\<forall>st\<in>set seats. prompt_matches st"
    "\<forall>i<length seats. fs_generation (ff_seats fifo ! i) \<le> fs_generation (seats ! i)"
    "\<forall>i<length seats. seats ! i = ff_seats fifo ! i \<or> fs_prompt (seats ! i) = None
       \<or> fs_generation (ff_seats fifo ! i) < fs_generation (seats ! i)"
    "\<forall>st\<in>set (ff_seats fifo). seat_running st \<Longrightarrow> \<forall>st\<in>set seats. seat_running st"
  using assms(1)
proof (rule reconcile_prompts_Ok)
  fix fifo' seats
  let ?P = "kp_pick (cf_clock_policy (ds_config s))"
  assume "ds_fifo s = Some fifo'" and t: "t = s\<lparr>ds_fifo := Some (fifo'\<lparr>ff_seats := seats\<rparr>)\<rparr>"
    and len: "length seats = length (ff_seats fifo')"
    and seat: "\<And>i. i < length seats \<Longrightarrow> reconcile_seat ?P (ff_session_id fifo') now (i, ff_seats fifo' ! i) = Ok (seats ! i)"
  with assms(2) have eq: "fifo' = fifo" by (simp add: fifo_table_def)
  note seat = seat[unfolded eq] and len = len[unfolded eq] and t = t[unfolded eq]
  have q: "map fs_queue seats = map fs_queue (ff_seats fifo)"
    using len reconcile_seat_Ok(2)[OF seat] by (intro nth_equalityI) auto
  have m: "\<forall>st\<in>set seats. prompt_matches st" using reconcile_seat_Ok(1)[OF seat] by (auto simp: in_set_conv_nth)
  have "full_packs st" if "st \<in> set seats" for st
  proof -
    from that obtain i where "i < length seats" "st = seats ! i" by (auto simp: in_set_conv_nth)
    with assms(2) len reconcile_seat_Ok(2)[OF seat] show ?thesis by (auto simp: fifo_table_def full_packs_def)
  qed
  then have tab: "fifo_table t (fifo\<lparr>ff_seats := seats\<rparr>)" using assms(2) t len by (simp add: fifo_table_def)
  have new: "seats ! i = ff_seats fifo ! i \<or> fs_prompt (seats ! i) = None \<or>
      (\<exists>c. fs_prompt (seats ! i) = Some \<lparr>pm_id = \<lparr>pi_session_id = ff_session_id fifo, pi_seat = i,
         pi_generation = fs_generation (seats ! i)\<rparr>, pm_pack_id = qp_pack_id (hd (fs_queue (ff_seats fifo ! i))), pm_clock = c\<rparr>
         \<and> (\<forall>k. c = Some k \<longrightarrow> (\<exists>d. ck_state k = Running d)))
         \<and> fs_generation (ff_seats fifo ! i) < fs_generation (seats ! i)" if "i < length seats" for i
  proof -
    note r = reconcile_seat_Ok[OF seat[OF that]]
    show ?thesis
    proof (cases "prompt_matches (ff_seats fifo ! i)")
      case True
      with r(6) show ?thesis by simp
    next
      case False
      show ?thesis
      proof (cases "fs_queue (ff_seats fifo ! i) = []")
        case True
        with r(1,2) show ?thesis by (simp add: prompt_matches_def)
      next
        case ne: False
        from r(7)[OF ne False] obtain c where c: "fs_generation (seats ! i) = fs_generation (ff_seats fifo ! i) + 1"
          "fs_prompt (seats ! i) = Some \<lparr>pm_id = \<lparr>pi_session_id = ff_session_id fifo, pi_seat = i,
             pi_generation = fs_generation (ff_seats fifo ! i) + 1\<rparr>,
             pm_pack_id = qp_pack_id (hd (fs_queue (ff_seats fifo ! i))), pm_clock = c\<rparr>"
          "map_option ck_state c = map_option (\<lambda>duration. Running (now + duration))
             (pick_duration ?P (fs_round_completed_steps (ff_seats fifo ! i)))" by blast
        from c(3) have "\<forall>k. c = Some k \<longrightarrow> (\<exists>d. ck_state k = Running d)"
          by (cases "pick_duration ?P (fs_round_completed_steps (ff_seats fifo ! i))") auto
        with c(1,2) show ?thesis by simp
      qed
    qed
  qed
  have named: "prompts_named (fifo\<lparr>ff_seats := seats\<rparr>)"
    unfolding prompts_named_def
  proof (intro allI impI)
    fix i assume "i < length (ff_seats (fifo\<lparr>ff_seats := seats\<rparr>))"
    then have i: "i < length seats" by simp
    with assms(3) len have "prompt_names_seat fifo i (ff_seats fifo ! i)" by (simp add: prompts_named_def)
    with new[OF i] show "prompt_names_seat (fifo\<lparr>ff_seats := seats\<rparr>) i (ff_seats (fifo\<lparr>ff_seats := seats\<rparr>) ! i)"
      by (auto simp: prompt_names_seat_def)
  qed
  have gen: "\<forall>i<length seats. fs_generation (ff_seats fifo ! i) \<le> fs_generation (seats ! i)"
    using reconcile_seat_Ok(5)[OF seat] by blast
  have fresh: "\<forall>i<length seats. seats ! i = ff_seats fifo ! i \<or> fs_prompt (seats ! i) = None
       \<or> fs_generation (ff_seats fifo ! i) < fs_generation (seats ! i)"
    using new by blast
  show thesis
  proof (rule that[OF t tab named q m gen fresh])
    assume run: "\<forall>st\<in>set (ff_seats fifo). seat_running st"
    show "\<forall>st\<in>set seats. seat_running st"
      unfolding seat_running_def
    proof (intro ballI allI impI)
      fix st p c assume a: "st \<in> set seats" "fs_prompt st = Some p" "pm_clock p = Some c"
      then obtain i where i: "i < length seats" "st = seats ! i" by (auto simp: in_set_conv_nth)
      with len have "ff_seats fifo ! i \<in> set (ff_seats fifo)" by simp
      with run new[OF i(1)] a i(2) show "\<exists>d. ck_state c = Running d" by (auto simp: seat_running_def)
    qed
  qed
qed


section \<open>Generations\<close>

text \<open>Each seat's generation only grows, and every prompt that appears carries a larger one.\<close>

definition gens_advance :: "fifo_draft_state \<Rightarrow> fifo_draft_state \<Rightarrow> bool" where
  "gens_advance f f' \<longleftrightarrow> length (ff_seats f') = length (ff_seats f) \<and> (\<forall>i<length (ff_seats f).
     fs_generation (ff_seats f ! i) \<le> fs_generation (ff_seats f' ! i)
     \<and> (\<forall>p. fs_prompt (ff_seats f' ! i) = Some p \<longrightarrow>
          fs_prompt (ff_seats f ! i) = Some p \<or> fs_generation (ff_seats f ! i) < pi_generation (pm_id p)))"

lemma gens_advance_refl [simp]: "gens_advance f f"
  by (simp add: gens_advance_def)

lemma gens_advance_trans:
  assumes "gens_advance f g" "gens_advance g h"
  shows "gens_advance f h"
  unfolding gens_advance_def
proof (intro conjI allI impI)
  show "length (ff_seats h) = length (ff_seats f)" using assms by (simp add: gens_advance_def)
  fix i assume i: "i < length (ff_seats f)"
  then have i': "i < length (ff_seats g)" using assms by (simp add: gens_advance_def)
  have le: "fs_generation (ff_seats f ! i) \<le> fs_generation (ff_seats g ! i)" using assms(1) i by (simp add: gens_advance_def)
  moreover have "fs_generation (ff_seats g ! i) \<le> fs_generation (ff_seats h ! i)" using assms(2) i' by (simp add: gens_advance_def)
  ultimately show "fs_generation (ff_seats f ! i) \<le> fs_generation (ff_seats h ! i)" by simp
  fix p assume "fs_prompt (ff_seats h ! i) = Some p"
  with assms(2) i' consider "fs_prompt (ff_seats g ! i) = Some p"
    | "fs_generation (ff_seats g ! i) < pi_generation (pm_id p)" unfolding gens_advance_def by blast
  then show "fs_prompt (ff_seats f ! i) = Some p \<or> fs_generation (ff_seats f ! i) < pi_generation (pm_id p)"
  proof cases
    case 1
    with assms(1) i show ?thesis unfolding gens_advance_def by (metis (no_types))
  next
    case 2
    with le show ?thesis by simp
  qed
qed

lemma gens_advance_simps [simp]:
  "gens_advance f (f'\<lparr>ff_review := r\<rparr>) = gens_advance f f'"
  "gens_advance f (f'\<lparr>ff_paused := z\<rparr>) = gens_advance f f'"
  "gens_advance f (f'\<lparr>ff_removed := x\<rparr>) = gens_advance f f'"
  "gens_advance (f\<lparr>ff_last_now_ms := y\<rparr>) f' = gens_advance f f'"
  by (simp_all add: gens_advance_def)

section \<open>Opening a round\<close>

definition round_opening :: "draft_session \<Rightarrow> fifo_draft_state \<Rightarrow> nat \<Rightarrow> nat \<Rightarrow> draft_session \<Rightarrow> bool" where
  "round_opening s fifo rnd k t \<longleftrightarrow> (\<exists>fifo'. fifo_table t fifo' \<and> ds_config t = ds_config s \<and> ds_seats t = ds_seats s
     \<and> ds_current_pack_number t = rnd \<and> ds_status t = Drafting \<and> ff_review fifo' = None
     \<and> ff_paused fifo' = ff_paused fifo \<and> ff_session_id fifo' = ff_session_id fifo
     \<and> (\<forall>i<length (ds_seats s). fs_prompt (ff_seats fifo' ! i) = None
          \<and> fs_generation (ff_seats fifo' ! i) = fs_generation (ff_seats fifo ! i)
          \<and> (if i < k then fs_queue (ff_seats fifo' ! i) \<noteq> []
                \<and> length (ds_packs_by_seat t ! i) = cf_pack_count (ds_config s) - Suc rnd
             else fs_queue (ff_seats fifo' ! i) = []
                \<and> length (ds_packs_by_seat t ! i) = cf_pack_count (ds_config s) - rnd)))"

lemma pack_coordinate:
  assumes "k < n" "n < 256" "rnd < 256"
  shows "add_u32 (rnd * n) k = rnd * n + k"
proof -
  have "rnd * n \<le> 255 * 255" using assms by (intro mult_mono) auto
  with assms show ?thesis by (simp add: add_u32_def)
qed

lemma opening_step:
  assumes "round_opening s fifo rnd k t" "k < length (ds_seats s)" "rnd < cf_pack_count (ds_config s)"
  shows "\<exists>t'. open_seat_pack rnd k t = Ok t' \<and> round_opening s fifo rnd (Suc k) t'"
proof -
  let ?n = "length (ds_seats s)" and ?pc = "cf_pack_count (ds_config s)"
  from assms(1) obtain f where f: "fifo_table t f" "ds_config t = ds_config s" "ds_seats t = ds_seats s"
    "ds_current_pack_number t = rnd" "ds_status t = Drafting" "ff_review f = None"
    "ff_paused f = ff_paused fifo" "ff_session_id f = ff_session_id fifo"
    and seats: "\<And>i. i < ?n \<Longrightarrow> fs_prompt (ff_seats f ! i) = None
          \<and> fs_generation (ff_seats f ! i) = fs_generation (ff_seats fifo ! i)
          \<and> (if i < k then fs_queue (ff_seats f ! i) \<noteq> [] \<and> length (ds_packs_by_seat t ! i) = ?pc - Suc rnd
             else fs_queue (ff_seats f ! i) = [] \<and> length (ds_packs_by_seat t ! i) = ?pc - rnd)"
    unfolding round_opening_def by blast
  note tab = f(1)[unfolded fifo_table_def f(2,3)]
  from seats[OF assms(2)] assms(3) obtain pack rest where pr: "ds_packs_by_seat t ! k = pack # rest" "length rest = ?pc - Suc rnd"
    by (cases "ds_packs_by_seat t ! k") auto
  have mem: "ds_packs_by_seat t ! k \<in> set (ds_packs_by_seat t)" using tab assms(2) by simp
  with tab pr(1) have ne: "pack \<noteq> []" "[] \<notin> set rest" by (metis list.set_intros(1), metis list.set_intros(2))
  from tab assms(2,3) obtain original where orig: "fmlookup (ff_packs f) (DraftPackId (rnd * ?n + k)) = Some original" by blast
  let ?head = "opened_pack rnd (DraftPackId (rnd * ?n + k)) original pack"
  let ?f = "f\<lparr>ff_seats := (ff_seats f)[k := receive_pack ?head (ff_seats f ! k)]\<rparr>"
  let ?t = "t\<lparr>ds_packs_by_seat := (ds_packs_by_seat t)[k := rest], ds_fifo := Some ?f\<rparr>"
  have opened: "open_seat_pack rnd k t = Ok ?t"
    using tab assms(2,3) pr(1) orig f(2) pack_coordinate[of k ?n rnd]
    by (simp add: open_seat_pack_def try_u32_def fifo_ref_def opened_pack_def receive_pack_def Let_def)
  have tabf: "fifo_table ?t ?f"
  proof -
    have "full_packs (receive_pack ?head (ff_seats f ! k))"
      using tab assms(2) ne(1) by (auto simp: full_packs_def receive_pack_def opened_pack_def)
    with tab ne(2) f(2,3) show ?thesis by (auto simp: fifo_table_def dest!: set_update_subsetD)
  qed
  have sts: "\<forall>i<?n. fs_prompt (ff_seats ?f ! i) = None
          \<and> fs_generation (ff_seats ?f ! i) = fs_generation (ff_seats fifo ! i)
          \<and> (if i < Suc k then fs_queue (ff_seats ?f ! i) \<noteq> [] \<and> length (ds_packs_by_seat ?t ! i) = ?pc - Suc rnd
             else fs_queue (ff_seats ?f ! i) = [] \<and> length (ds_packs_by_seat ?t ! i) = ?pc - rnd)"
  proof (intro allI impI)
    fix i assume i: "i < ?n"
    show "fs_prompt (ff_seats ?f ! i) = None
          \<and> fs_generation (ff_seats ?f ! i) = fs_generation (ff_seats fifo ! i)
          \<and> (if i < Suc k then fs_queue (ff_seats ?f ! i) \<noteq> [] \<and> length (ds_packs_by_seat ?t ! i) = ?pc - Suc rnd
             else fs_queue (ff_seats ?f ! i) = [] \<and> length (ds_packs_by_seat ?t ! i) = ?pc - rnd)"
    proof (cases "i = k")
      case True
      with i seats[OF i] tab pr(2) show ?thesis by (simp add: receive_pack_def)
    next
      case False
      with i seats[OF i] show ?thesis by (auto simp: less_Suc_eq split: if_splits)
    qed
  qed
  show ?thesis unfolding round_opening_def
    by (intro exI[of _ ?t] conjI exI[of _ ?f] opened tabf sts) (use f in simp_all)
qed

lemma open_round:
  assumes "fifo_table s fifo" "idle_seats fifo" "unopened s rnd" "rnd < cf_pack_count (ds_config s)"
  shows "fails_only counters_exhausted (open_fifo_round s rnd now)"
    and "open_fifo_round s rnd now = Ok t \<Longrightarrow> \<exists>fifo'. fifo_table t fifo' \<and> drafting_ok t fifo' \<and> all_running fifo'
      \<and> ff_paused fifo' = ff_paused fifo \<and> ds_status t = Drafting \<and> gens_advance fifo fifo'"
proof -
  let ?n = "length (ds_seats s)"
  let ?s = "s\<lparr>ds_current_pack_number := rnd, ds_pass_direction := for_pack rnd, ds_status := Drafting,
       ds_fifo := Some (fifo\<lparr>ff_review := None\<rparr>)\<rparr>"
  have upd: "update_fifo (\<lambda>f. f\<lparr>ff_review := None\<rparr>)
      (s\<lparr>ds_current_pack_number := rnd, ds_pass_direction := for_pack rnd, ds_status := Drafting\<rparr>) = Ok ?s"
    using assms(1) by (simp add: update_fifo_def fifo_ref_def fifo_table_def)
  have start: "round_opening s fifo rnd 0 ?s"
  proof -
    have "fifo_table ?s (fifo\<lparr>ff_review := None\<rparr>)" using assms(1) by (auto simp: fifo_table_def)
    moreover have "length (ds_packs_by_seat s ! i) = cf_pack_count (ds_config s) - rnd" "fs_queue (ff_seats fifo ! i) = []"
      "fs_prompt (ff_seats fifo ! i) = None" if "i < ?n" for i
      using assms(1,2,3) that by (auto simp: fifo_table_def unopened_def idle_seats_def)
    ultimately show ?thesis unfolding round_opening_def by (intro exI[of _ "fifo\<lparr>ff_review := None\<rparr>"]) simp
  qed
  have fold: "fails_only counters_exhausted (try_fold (open_seat_pack rnd) [0..<?n] ?s)"
    "\<And>t. try_fold (open_seat_pack rnd) [0..<?n] ?s = Ok t \<Longrightarrow> round_opening s fifo rnd ?n t"
    using try_fold_upto[where I = "round_opening s fifo rnd" and f = "open_seat_pack rnd" and n = ?n and s = ?s
        and E = counters_exhausted, OF start] opening_step[OF _ _ assms(4)] by fastforce+
  have unf: "open_fifo_round s rnd now = and_then (try_fold (open_seat_pack rnd) [0..<?n] ?s) (\<lambda>s2. reconcile_prompts s2 now)"
    using upd by (simp add: open_fifo_round_def)
  have fin: "fifo_table t1 f1 \<and> prompts_named f1 \<and> length (ff_seats f1) < 256"
    if "round_opening s fifo rnd ?n t1" "ds_fifo t1 = Some f1" for t1 f1
    using that by (auto simp: round_opening_def fifo_table_def prompts_named_def prompt_names_seat_def)
  have "fails_only counters_exhausted (reconcile_prompts t1 now)" if "round_opening s fifo rnd ?n t1" for t1
    using fin[OF that] that reconcile_prompts_fails_only[of t1] by (auto simp: round_opening_def fifo_table_def)
  with fold show "fails_only counters_exhausted (open_fifo_round s rnd now)"
    unfolding unf by (auto intro!: fails_only_and_then)
  assume "open_fifo_round s rnd now = Ok t"
  then obtain t1 where t1: "round_opening s fifo rnd ?n t1" "reconcile_prompts t1 now = Ok t"
    using fold(2) unfolding unf by (auto simp: outcome_simps)
  from t1(1) obtain f1 where f1: "fifo_table t1 f1" "ds_config t1 = ds_config s" "ds_seats t1 = ds_seats s"
    "ds_current_pack_number t1 = rnd" "ds_status t1 = Drafting" "ff_review f1 = None"
    "ff_paused f1 = ff_paused fifo" "ff_session_id f1 = ff_session_id fifo"
    "\<And>i. i < ?n \<Longrightarrow> fs_prompt (ff_seats f1 ! i) = None
          \<and> fs_generation (ff_seats f1 ! i) = fs_generation (ff_seats fifo ! i)
          \<and> fs_queue (ff_seats f1 ! i) \<noteq> [] \<and> length (ds_packs_by_seat t1 ! i) = cf_pack_count (ds_config s) - Suc rnd"
    by (auto simp: round_opening_def)
  have named: "prompts_named f1" using fin[OF t1(1)] f1(1) by (auto simp: fifo_table_def)
  from t1(2) f1(1) named show "\<exists>fifo'. fifo_table t fifo' \<and> drafting_ok t fifo' \<and> all_running fifo'
      \<and> ff_paused fifo' = ff_paused fifo \<and> ds_status t = Drafting \<and> gens_advance fifo fifo'"
  proof (rule reconcile_keeps_table)
    fix seats
    let ?f = "f1\<lparr>ff_seats := seats\<rparr>"
    assume *: "t = t1\<lparr>ds_fifo := Some ?f\<rparr>" "fifo_table t ?f" "prompts_named ?f"
      "map fs_queue seats = map fs_queue (ff_seats f1)" "\<forall>st\<in>set seats. prompt_matches st"
      "\<forall>i<length seats. fs_generation (ff_seats f1 ! i) \<le> fs_generation (seats ! i)"
      "\<forall>i<length seats. seats ! i = ff_seats f1 ! i \<or> fs_prompt (seats ! i) = None
         \<or> fs_generation (ff_seats f1 ! i) < fs_generation (seats ! i)"
      "\<forall>st\<in>set (ff_seats f1). seat_running st \<Longrightarrow> \<forall>st\<in>set seats. seat_running st"
    have n: "length (ff_seats f1) = ?n" "length (ds_packs_by_seat t1) = ?n" "length (ff_seats fifo) = ?n" "0 < ?n" "length seats = ?n"
      using f1(1,3) assms(1) map_eq_imp_length_eq[OF *(4)] by (auto simp: fifo_table_def)
    have "\<forall>st\<in>set (ff_seats f1). seat_running st" using f1(9) n by (auto simp: in_set_conv_nth seat_running_def)
    with *(8) f1(6) have run: "all_running ?f" by (simp add: all_running_iff)
    have "fs_queue (seats ! 0) = fs_queue (ff_seats f1 ! 0)" using *(4) n by (metis nth_map)
    with f1(9)[of 0] n have "\<exists>st\<in>set seats. fs_queue st \<noteq> []" by (intro bexI[of _ "seats ! 0"]) auto
    moreover have "unopened t (Suc rnd)" using f1(2,9) n *(1) by (auto simp: unopened_def in_set_conv_nth)
    ultimately have dr: "drafting_ok t ?f" using *(1,3,5) f1(2,4,6) assms(4) by (simp add: drafting_ok_def)
    have gens: "fs_generation (ff_seats fifo ! i) \<le> fs_generation (seats ! i)
        \<and> (\<forall>p. fs_prompt (seats ! i) = Some p \<longrightarrow> fs_generation (ff_seats fifo ! i) < pi_generation (pm_id p))" if "i < ?n" for i
    proof -
      from *(3) that n have "prompt_names_seat ?f i (seats ! i)" by (simp add: prompts_named_def)
      with *(6,7) f1(9)[OF that] n that show ?thesis by (auto simp: prompt_names_seat_def)
    qed
    show ?thesis
      by (intro exI[of _ ?f] conjI *(2) dr run) (use *(1) f1(5,7) n gens in \<open>simp_all add: gens_advance_def\<close>)
  qed
qed

section \<open>Finishing a round\<close>

definition settled :: "draft_session \<Rightarrow> fifo_draft_state \<Rightarrow> bool" where
  "settled s fifo \<longleftrightarrow> fifo_table s fifo \<and> ds_status s = Drafting
     \<and> ds_current_pack_number s < cf_pack_count (ds_config s) \<and> unopened s (Suc (ds_current_pack_number s))
     \<and> prompts_named fifo \<and> all_running fifo \<and> ff_review fifo = None \<and> ff_paused fifo = None"

lemma reconcile_settled:
  assumes "settled s fifo" "reconcile_prompts s now = Ok t"
  obtains fifo' where "settled t fifo'" "gens_advance fifo fifo'" "\<forall>st\<in>set (ff_seats fifo'). prompt_matches st"
    "map fs_queue (ff_seats fifo') = map fs_queue (ff_seats fifo)" "ds_config t = ds_config s"
    "ds_current_pack_number t = ds_current_pack_number s"
proof -
  from assms(1) have tab: "fifo_table s fifo" and named: "prompts_named fifo" by (simp_all add: settled_def)
  from assms(2) tab named show thesis
  proof (rule reconcile_keeps_table)
    fix seats
    let ?f = "fifo\<lparr>ff_seats := seats\<rparr>"
    assume *: "t = s\<lparr>ds_fifo := Some ?f\<rparr>" "fifo_table t ?f" "prompts_named ?f"
      "map fs_queue seats = map fs_queue (ff_seats fifo)" "\<forall>st\<in>set seats. prompt_matches st"
      "\<forall>i<length seats. fs_generation (ff_seats fifo ! i) \<le> fs_generation (seats ! i)"
      "\<forall>i<length seats. seats ! i = ff_seats fifo ! i \<or> fs_prompt (seats ! i) = None
         \<or> fs_generation (ff_seats fifo ! i) < fs_generation (seats ! i)"
      "\<forall>st\<in>set (ff_seats fifo). seat_running st \<Longrightarrow> \<forall>st\<in>set seats. seat_running st"
    have len: "length seats = length (ff_seats fifo)" using map_eq_imp_length_eq[OF *(4)] .
    have run: "all_running ?f" using *(8) assms(1) by (auto simp: settled_def all_running_iff)
    have set: "settled t ?f" using assms(1) *(1,2,3) run by (auto simp: settled_def unopened_def)
    have gen: "gens_advance fifo ?f" unfolding gens_advance_def
    proof (intro conjI allI impI)
      fix i p assume i: "i < length (ff_seats fifo)" and p: "fs_prompt (ff_seats ?f ! i) = Some p"
      from *(3) i len have "prompt_names_seat ?f i (seats ! i)" by (simp add: prompts_named_def)
      with *(7) i p len show "fs_prompt (ff_seats fifo ! i) = Some p \<or> fs_generation (ff_seats fifo ! i) < pi_generation (pm_id p)"
        by (auto simp: prompt_names_seat_def)
    qed (use *(6) len in simp_all)
    show thesis by (rule that[OF set gen]) (use *(1,4,5) in simp_all)
  qed
qed

lemma settled_drained:
  assumes "settled s fifo" "\<forall>st\<in>set (ff_seats fifo). prompt_matches st" "\<not> list_ex (\<lambda>st. fs_queue st \<noteq> []) (ff_seats fifo)"
  shows "idle_seats fifo"
  using assms(2,3) by (auto simp: idle_seats_def prompt_matches_def list_ex_iff)

lemma settled_live:
  assumes "settled s fifo" "\<forall>st\<in>set (ff_seats fifo). prompt_matches st" "list_ex (\<lambda>st. fs_queue st \<noteq> []) (ff_seats fifo)"
  shows "status_ok s fifo"
  using assms by (auto simp: settled_def status_ok_def drafting_ok_def list_ex_iff)

lemma settled_deckbuilding:
  assumes "settled s fifo" "idle_seats fifo" "Suc (ds_current_pack_number s) = cf_pack_count (ds_config s)"
  shows "fifo_table (s\<lparr>ds_current_pack_number := n, ds_status := Deckbuilding\<rparr>) fifo
     \<and> status_ok (s\<lparr>ds_current_pack_number := n, ds_status := Deckbuilding\<rparr>) fifo"
  using assms by (simp add: settled_def status_ok_def fifo_table_def unopened_def)

lemma settled_review:
  assumes "settled s fifo" "idle_seats fifo" "Suc (ds_current_pack_number s) < cf_pack_count (ds_config s)"
    "running (TargetReview rnd) now duration = Ok clock" "rnd = Suc (ds_current_pack_number s)"
  defines "f \<equiv> fifo\<lparr>ff_review := Some \<lparr>rv_exhausted_round = ds_current_pack_number s, rv_next_round = rnd, rv_clock = clock\<rparr>\<rparr>"
  shows "fifo_table (s\<lparr>ds_fifo := Some f, ds_status := Review\<rparr>) f \<and> status_ok (s\<lparr>ds_fifo := Some f, ds_status := Review\<rparr>) f"
  using assms(1-5)
  by (auto simp: f_def settled_def status_ok_def fifo_table_def unopened_def review_ok_def idle_seats_def all_running_iff running_Ok_iff)

lemma finish_round:
  assumes "settled s fifo"
  shows "fails_only counters_exhausted (finish_fifo_round s now)"
    and "finish_fifo_round s now = Ok (deltas, t) \<Longrightarrow>
      \<exists>fifo'. fifo_table t fifo' \<and> status_ok t fifo' \<and> gens_advance fifo fifo'"
proof -
  from assms have tab: "fifo_table s fifo" by (simp add: settled_def)
  then have fifo: "ds_fifo s = Some fifo" and n: "length (ff_seats fifo) < 256" by (simp_all add: fifo_table_def)
  have "fails_only counters_exhausted (finish_fifo_round s now) \<and>
    (\<forall>deltas t. finish_fifo_round s now = Ok (deltas, t) \<longrightarrow>
      (\<exists>fifo'. fifo_table t fifo' \<and> status_ok t fifo' \<and> gens_advance fifo fifo'))"
  proof (cases "reconcile_prompts s now")
    case (Ok s1)
    obtain f1 where f1: "settled s1 f1" "gens_advance fifo f1" "\<forall>st\<in>set (ff_seats f1). prompt_matches st"
      "map fs_queue (ff_seats f1) = map fs_queue (ff_seats fifo)" "ds_config s1 = ds_config s"
      "ds_current_pack_number s1 = ds_current_pack_number s"
      using reconcile_settled[OF assms Ok] by blast
    have tab1: "fifo_table s1 f1" and cur: "ds_current_pack_number s1 < cf_pack_count (ds_config s1)"
      and un: "unopened s1 (Suc (ds_current_pack_number s1))" using f1(1) by (simp_all add: settled_def)
    have "list_ex (\<lambda>st. fs_queue st \<noteq> []) (ff_seats fifo) = list_ex (\<lambda>q. q \<noteq> []) (map fs_queue (ff_seats fifo))"
      by (simp add: list_ex_iff)
    also have "\<dots> = list_ex (\<lambda>st. fs_queue st \<noteq> []) (ff_seats f1)" unfolding f1(4)[symmetric] by (simp add: list_ex_iff)
    finally have queues: "list_ex (\<lambda>st. fs_queue st \<noteq> []) (ff_seats fifo) = list_ex (\<lambda>st. fs_queue st \<noteq> []) (ff_seats f1)" .
    let ?next = "Suc (ds_current_pack_number s1)"
    have next_ok: "checked_add_u8 (ds_current_pack_number s1) 1 = Some ?next"
      using cur tab1 by (simp add: checked_add_u8_def fifo_table_def)
    show ?thesis
    proof (cases "list_ex (\<lambda>st. fs_queue st \<noteq> []) (ff_seats f1)")
      case True
      then have "finish_fifo_round s now = Ok ([], s1)" using Ok fifo queues by (simp add: finish_fifo_round_def fifo_ref_def)
      with settled_live[OF f1(1,3) True] tab1 f1(2) show ?thesis by auto
    next
      case False
      note idle = settled_drained[OF f1(1,3) False]
      show ?thesis
      proof (cases "?next = cf_pack_count (ds_config s1)")
        case True
        then have "finish_fifo_round s now = Ok ([TransitionedTo Deckbuilding],
            s1\<lparr>ds_current_pack_number := ?next, ds_status := Deckbuilding\<rparr>)"
          using Ok fifo queues False next_ok by (simp add: finish_fifo_round_def fifo_ref_def)
        with settled_deckbuilding[OF f1(1) idle True, of ?next] f1(2) show ?thesis by auto
      next
        case more: False
        then have lt: "?next < cf_pack_count (ds_config s1)" using cur by simp
        let ?d = "kp_review_duration_ms (cf_clock_policy (ds_config s1))"
        show ?thesis
        proof (cases "?d = 0")
          case True
          then have eq: "finish_fifo_round s now = and_then (open_fifo_round s1 ?next now) (\<lambda>s2. Ok ([PackExhausted ?next], s2))"
            using Ok fifo queues False next_ok more by (simp add: finish_fifo_round_def fifo_ref_def Let_def)
          note opened = open_round[OF tab1 idle un lt]
          have "\<exists>f'. fifo_table t f' \<and> status_ok t f' \<and> gens_advance fifo f'"
            if "open_fifo_round s1 ?next now = Ok t" for t
            using opened(2)[OF that] f1(1,2) by (auto simp: status_ok_def settled_def intro: gens_advance_trans)
          then show ?thesis using opened(1)[of now] unfolding eq by (auto simp: outcome_simps intro!: fails_only_and_then)
        next
          case nz: False
          let ?clock = "running (TargetReview ?next) now ?d"
          let ?f = "\<lambda>clock. f1\<lparr>ff_review := Some \<lparr>rv_exhausted_round = ds_current_pack_number s1, rv_next_round = ?next, rv_clock = clock\<rparr>\<rparr>"
          have eq: "finish_fifo_round s now = and_then ?clock (\<lambda>clock.
              Ok ([TransitionedTo Review], s1\<lparr>ds_fifo := Some (?f clock), ds_status := Review\<rparr>))"
            using Ok fifo queues False next_ok more nz tab1
            by (simp add: finish_fifo_round_def fifo_ref_def update_fifo_def fifo_table_def Let_def)
          have tame: "fails_only counters_exhausted ?clock"
            by (auto simp: running_def deadline_def ok_or_def split: option.split)
          have "\<exists>f'. fifo_table u f' \<and> status_ok u f' \<and> gens_advance fifo f'"
            if "?clock = Ok c" "u = s1\<lparr>ds_fifo := Some (?f c), ds_status := Review\<rparr>" for c u
            using settled_review[OF f1(1) idle lt that(1) refl] f1(2) unfolding that(2) by (intro exI[of _ "?f c"]) simp
          with tame show ?thesis unfolding eq by (auto simp: outcome_simps intro!: fails_only_and_then)
        qed
      qed
    qed
  qed (use reconcile_prompts_fails_only[OF fifo n, of now] fifo in \<open>auto simp: finish_fifo_round_def fifo_ref_def\<close>)
  then show "fails_only counters_exhausted (finish_fifo_round s now)"
    and "finish_fifo_round s now = Ok (deltas, t) \<Longrightarrow>
      \<exists>fifo'. fifo_table t fifo' \<and> status_ok t fifo' \<and> gens_advance fifo fifo'" by blast+
qed


section \<open>Settling a selection\<close>

definition selectable :: "draft_session \<Rightarrow> nat \<Rightarrow> draft_pack \<Rightarrow> string list \<Rightarrow> string list \<Rightarrow> string list \<Rightarrow> bool" where
  "selectable s seat pack picked burned effects \<longleftrightarrow> distinct (picked @ burned)
     \<and> set (picked @ burned) \<subseteq> ci_instance_id ` set pack
     \<and> distinct effects \<and> set effects \<subseteq> ci_instance_id ` set (ds_pools s ! seat)"

lemma check_selected_fold:
  assumes "try_fold (check_selected role effects pack) ids selected = Ok r"
  shows "set r = set ids \<union> set selected \<and> distinct ids \<and> set ids \<inter> set selected = {}
    \<and> set ids \<subseteq> ci_instance_id ` set pack \<and> set ids \<inter> set effects = {}"
  using assms
proof (induction ids arbitrary: selected)
  case (Cons x ids)
  from Cons.prems obtain y where y: "check_selected role effects pack x selected = Ok y"
    "try_fold (check_selected role effects pack) ids y = Ok r" by (auto simp: outcome_simps)
  from y(1) have "y = x # selected" by (auto simp: check_selected_def split: if_splits)
  with y have "check_selected role effects pack x selected = Ok (x # selected)"
    and rest: "try_fold (check_selected role effects pack) ids (x # selected) = Ok r" by simp_all
  then have "x \<notin> set selected" "x \<notin> set effects" "x \<in> ci_instance_id ` set pack"
    by (auto simp: check_selected_def list_ex_iff split: if_splits)
  with Cons.IH[OF rest] show ?case by auto
qed simp

lemma check_selected_not_Panic: "try_fold (check_selected role effects pack) ids selected \<noteq> Panic"
  by (rule try_fold_not_Panic[where I = "\<lambda>_. True"]) (auto simp: check_selected_def)

lemma check_selected_total:
  assumes "distinct ids" "set ids \<inter> set selected = {}" "set ids \<subseteq> ci_instance_id ` set pack" "set ids \<inter> set effects = {}"
  shows "try_fold (check_selected role effects pack) ids selected = Ok (rev ids @ selected)"
  using assms
proof (induction ids arbitrary: selected)
  case (Cons x ids)
  then have "check_selected role effects pack x selected = Ok (x # selected)"
    by (auto simp: check_selected_def list_ex_iff image_iff)
  with Cons show ?case by simp
qed simp

lemma check_effects_Ok:
  assumes "check_effects s seat seen effects = Ok u" "seat < length (ds_pools s)"
  shows "distinct effects \<and> set effects \<inter> set seen = {} \<and> set effects \<subseteq> ci_instance_id ` set (ds_pools s ! seat)"
  using assms
proof (induction effects arbitrary: seen)
  case (Cons x effects)
  then have "x \<notin> set seen" "x \<in> ci_instance_id ` set (ds_pools s ! seat)" "check_effects s seat (seen @ [x]) effects = Ok u"
    by (auto simp: list_ex_iff is_effect_card_def split: if_splits)
  with Cons.IH[of "seen @ [x]"] Cons.prems(2) show ?case by auto
qed simp

lemma check_effects_not_Panic: "check_effects s seat seen effects \<noteq> Panic"
  by (induction effects arbitrary: seen) auto

lemma checked_selectable:
  assumes "selection_requirements s seat effects = Ok r" "seat < length (ds_pools s)"
    "check_role RolePick picked (rq_picks r) effects pack [] = Ok sel"
    "check_role RoleBurn burned (rq_burns r) effects pack sel = Ok u"
  shows "selectable s seat pack picked burned effects"
proof -
  from assms(1) obtain v where "check_effects s seat [] effects = Ok v"
    by (auto simp: selection_requirements_def outcome_simps)
  from check_effects_Ok[OF this assms(2)] have "distinct effects" "set effects \<subseteq> ci_instance_id ` set (ds_pools s ! seat)" by auto
  moreover from check_selected_fold[of RolePick effects pack picked "[]" sel] check_selected_fold[of RoleBurn effects pack burned sel u]
    assms(3,4)
  have "distinct (picked @ burned)" "set (picked @ burned) \<subseteq> ci_instance_id ` set pack"
    by (auto simp: check_role_def split: if_splits)
  ultimately show ?thesis by (simp add: selectable_def)
qed

lemma pass_remainder_in:
  assumes "length seats = length (ds_seats s)" "cf_pod_size (ds_config s) = length (ds_seats s)" "0 < length (ds_seats s)"
  shows "\<exists>passed seats'. pass_remainder s seat head seats = Ok (passed, seats')"
  using assms next_seat_less[of "length (ds_seats s)" "ds_pass_direction s" seat]
  by (auto simp: pass_remainder_def Let_def)

lemma pass_remainder_seats:
  assumes "pass_remainder s seat head seats = Ok (passed, seats')" "i < length seats"
  shows "fs_prompt (seats' ! i) = fs_prompt (seats ! i)" "fs_generation (seats' ! i) = fs_generation (seats ! i)"
    "full_packs (seats ! i) \<Longrightarrow> full_packs (seats' ! i)"
proof -
  from assms(1) consider "seats' = seats"
    | r where "r < length seats" "qp_pack head \<noteq> []" "seats' = seats[r := (seats ! r)\<lparr>fs_queue := fs_queue (seats ! r) @ [head]\<rparr>]"
    by (auto simp: pass_remainder_def Let_def outcome_simps split: if_splits)
  then have "fs_prompt (seats' ! i) = fs_prompt (seats ! i) \<and> fs_generation (seats' ! i) = fs_generation (seats ! i)
    \<and> (full_packs (seats ! i) \<longrightarrow> full_packs (seats' ! i))"
  proof cases
    case 2
    then show ?thesis using assms(2) by (cases "i = r") (auto simp: full_packs_def)
  qed simp
  then show "fs_prompt (seats' ! i) = fs_prompt (seats ! i)" "fs_generation (seats' ! i) = fs_generation (seats ! i)"
    "full_packs (seats ! i) \<Longrightarrow> full_packs (seats' ! i)" by auto
qed

lemma settle_total:
  assumes "fifo_table s fifo" "seat < length (ds_seats s)" "fs_queue (ff_seats fifo ! seat) = head # queue"
    "selectable s seat (qp_pack head) picked burned effects"
  shows "fails_only counters_exhausted (settle_selection s fifo seat picked burned effects)"
proof -
  note sel = assms(4)[unfolded selectable_def]
  from sel obtain sc p1 where p1: "remove_ids picked (qp_pack head) = Ok (sc, p1)"
    using remove_ids_total[of picked "qp_pack head"] by auto
  note rm = remove_ids_Ok[OF p1]
  have parts: "set (qp_pack head) = set sc \<union> set p1"
    using arg_cong[OF conjunct2[OF rm], of set_mset] by simp
  have "set picked = ci_instance_id ` set sc" using conjunct1[OF rm] by auto
  with sel parts have "set burned \<inter> ci_instance_id ` set sc = {}" "set burned \<subseteq> ci_instance_id ` set sc \<union> ci_instance_id ` set p1"
    by (auto simp: image_Un)
  then have "set burned \<subseteq> ci_instance_id ` set p1" by blast
  with sel obtain bc p2 where p2: "remove_ids burned p1 = Ok (bc, p2)" using remove_ids_total[of burned p1] by auto
  from sel obtain ret pool' where p3: "remove_ids effects (ds_pools s ! seat) = Ok (ret, pool')"
    using remove_ids_total[of effects] by blast
  have "fails_only counters_exhausted (settle_pack s fifo seat st h picked burned effects)" for st h
  proof -
    have "\<exists>passed seats'. pass_remainder s seat h' ((ff_seats fifo)[seat := st]) = Ok (passed, seats')" for h'
      using assms(1) by (intro pass_remainder_in) (auto simp: fifo_table_def)
    then have "fails_only counters_exhausted (pass_remainder s seat h' ((ff_seats fifo)[seat := st]))" for h'
      by (metis fails_only_simps(1))
    then show ?thesis unfolding settle_pack_def Let_def by (auto intro!: fails_only_and_then)
  qed
  with assms p1 p2 p3 show ?thesis
    by (auto simp: settle_selection_def fifo_table_def intro!: fails_only_and_then)
qed

lemma settle_settled:
  assumes "settled s fifo" "seat < length (ds_seats s)"
    "settle_selection s fifo seat picked burned effects = Ok (discarded, passed, s1)"
  obtains fifo' where "settled s1 fifo'" "gens_advance fifo fifo'" "fs_prompt (ff_seats fifo' ! seat) = None"
    "fs_generation (ff_seats fifo' ! seat) = fs_generation (ff_seats fifo ! seat)"
  using assms(3)
proof (rule settle_selection_Ok)
  fix head queue selected_cards burned_cards returned pool' pack f
  let ?st = "(ff_seats fifo ! seat)\<lparr>fs_queue := queue, fs_completed_steps := fs_completed_steps (ff_seats fifo ! seat) + 1,
          fs_round_completed_steps := fs_round_completed_steps (ff_seats fifo ! seat) + 1, fs_prompt := None\<rparr>"
  assume *: "seat < length (ff_seats fifo)" "fs_queue (ff_seats fifo ! seat) = head # queue"
    "settle_pack s fifo seat ?st (head\<lparr>qp_pack := pack\<rparr>) picked burned effects = Ok (discarded, passed, f)"
    "s1 = s\<lparr>ds_pools := (ds_pools s)[seat := pool' @ selected_cards], ds_fifo := Some f\<rparr>"
  have tab: "fifo_table s fifo" using assms(1) by (simp add: settled_def)
  have n: "length (ff_seats fifo) = length (ds_seats s)" using tab by (simp add: fifo_table_def)
  note sp = settle_pack_Ok[OF *(3)]
  from sp(1) obtain re where "f = fifo\<lparr>ff_seats := ff_seats f, ff_removed := ff_removed f\<rparr>\<lparr>ff_returned_effects := re\<rparr>" by blast
  from arg_cong[OF this, of ff_session_id] arg_cong[OF this, of ff_review] arg_cong[OF this, of ff_paused]
    arg_cong[OF this, of ff_packs]
  have frame: "ff_session_id f = ff_session_id fifo" "ff_review f = ff_review fifo" "ff_paused f = ff_paused fifo"
    "ff_packs f = ff_packs fifo" by simp_all
  from pass_remainder_Ok(2)[OF sp(4)] have len: "length (ff_seats f) = length (ff_seats fifo)" by simp
  note seats = pass_remainder_seats[OF sp(4), simplified]
  have prompt: "fs_prompt (ff_seats f ! i) = (if i = seat then None else fs_prompt (ff_seats fifo ! i))"
    "fs_generation (ff_seats f ! i) = fs_generation (ff_seats fifo ! i)" if "i < length (ff_seats fifo)" for i
    using seats(1,2)[OF that] * that by (cases "i = seat", simp_all)+
  have full: "full_packs (ff_seats f ! i)" if "i < length (ff_seats fifo)" for i
  proof -
    have "full_packs (ff_seats fifo ! i)" using tab that by (simp add: fifo_table_def)
    then have "full_packs ((ff_seats fifo)[seat := ?st] ! i)"
      using *(1,2) that by (cases "i = seat") (auto simp: full_packs_def)
    then show ?thesis using pass_remainder_seats(3)[OF sp(4)] that by simp
  qed
  have "fifo_table s1 f"
    using tab *(4) len full frame(4) by (auto simp: fifo_table_def in_set_conv_nth)
  moreover have "prompts_named f"
    using assms(1) len prompt frame(1) by (auto simp: settled_def prompts_named_def prompt_names_seat_def split: if_splits)
  moreover have "all_running f"
    unfolding all_running_iff
  proof
    show "\<forall>st\<in>set (ff_seats f). seat_running st"
    proof
      fix st assume "st \<in> set (ff_seats f)"
      then obtain i where i: "i < length (ff_seats fifo)" "st = ff_seats f ! i" using len by (auto simp: in_set_conv_nth)
      moreover from assms(1) i(1) have "seat_running (ff_seats fifo ! i)" by (simp add: settled_def all_running_iff)
      ultimately show "seat_running st" using prompt(1)[OF i(1)] by (auto simp: seat_running_def split: if_splits)
    qed
  qed (use assms(1) frame(2) in \<open>simp add: settled_def\<close>)
  ultimately have "settled s1 f" using assms(1) *(4) frame by (simp add: settled_def unopened_def)
  moreover have "gens_advance fifo f" using len prompt by (auto simp: gens_advance_def split: if_splits)
  ultimately show thesis using prompt[OF *(1)] by (intro that[of f]) simp_all
qed

section \<open>Selections keep the invariant\<close>

lemma drafting_settled:
  assumes "fifo_table s fifo" "status_ok s fifo" "ds_status s = Drafting"
  shows "settled s fifo" "\<forall>st\<in>set (ff_seats fifo). prompt_matches st"
  using assms by (auto simp: status_ok_def settled_def drafting_ok_def)

lemma finish_pick_fifo:
  assumes "settled s fifo"
  shows "fails_only counters_exhausted (fst (finish_pick s seat ids))"
    and "finish_pick s seat ids = (Ok deltas, t) \<Longrightarrow>
      \<exists>fifo'. fifo_table t fifo' \<and> status_ok t fifo' \<and> gens_advance fifo fifo'"
proof -
  have fl: "cf_flow (ds_config s) = FifoAsync" "ds_fifo s = Some fifo" using assms by (simp_all add: settled_def fifo_table_def)
  note fr = finish_round[OF assms, of "ff_last_now_ms fifo"]
  have "fst (finish_pick s seat ids) = and_then (finish_fifo_round s (ff_last_now_ms fifo)) (\<lambda>(d, _). Ok (map (CardPicked seat) ids @ d))"
    using fl by (cases "finish_fifo_round s (ff_last_now_ms fifo)") (auto simp: finish_pick_def fifo_ref_def)
  with fr(1) show "fails_only counters_exhausted (fst (finish_pick s seat ids))" by (auto intro!: fails_only_and_then)
  show "finish_pick s seat ids = (Ok deltas, t) \<Longrightarrow>
      \<exists>fifo'. fifo_table t fifo' \<and> status_ok t fifo' \<and> gens_advance fifo fifo'"
    using fl fr(2) by (auto simp: finish_pick_def fifo_ref_def split: outcome.splits)
qed

lemma selection_requirements_not_Panic: "selection_requirements s seat effects \<noteq> Panic"
  by (auto simp: selection_requirements_def outcome_simps check_effects_not_Panic Let_def)

lemma check_role_not_Panic: "check_role role ids expected effects pack selected \<noteq> Panic"
  by (simp add: check_role_def check_selected_not_Panic)

lemma check_prompt_not_Panic: "check_prompt fifo seat head prompt prompt_id timing \<noteq> Panic"
  by (auto simp: check_prompt_def outcome_simps prompt_deadline_def check_timing_def
      split: option.splits draft_clock_state.splits selection_timing.splits)

lemma selected_commit:
  assumes "settled s fifo" "seat < length (ds_seats s)" "fs_queue (ff_seats fifo ! seat) = head # queue"
    "selectable s seat (qp_pack head) picked burned effects"
  shows "fails_only counters_exhausted (and_then (settle_selection s fifo seat picked burned effects)
      (\<lambda>(discarded, passed, s1). case finish_pick s1 seat picked of (result, s2) \<Rightarrow>
         and_then result (\<lambda>deltas. Ok (g discarded passed deltas, s2))))"
proof (rule fails_only_and_then)
  show "fails_only counters_exhausted (settle_selection s fifo seat picked burned effects)"
    using assms by (intro settle_total) (auto simp: settled_def)
  fix a assume a: "settle_selection s fifo seat picked burned effects = Ok a"
  obtain discarded passed s1 where eq: "a = (discarded, passed, s1)" by (cases a)
  obtain f1 where "settled s1 f1" using settle_settled[OF assms(1,2)] a eq by blast
  from finish_pick_fifo(1)[OF this] show "fails_only counters_exhausted (case a of (discarded, passed, s1) \<Rightarrow>
      case finish_pick s1 seat picked of (result, s2) \<Rightarrow> and_then result (\<lambda>deltas. Ok (g discarded passed deltas, s2)))"
    unfolding eq by (auto simp: split_beta intro!: fails_only_and_then)
qed

lemma select_fifo_not_Panic:
  assumes "fifo_inv s"
  shows "select_fifo s seat prompt_id picked burned effects timing \<noteq> Panic"
proof
  assume panic: "select_fifo s seat prompt_id picked burned effects timing = Panic"
  from assms obtain fifo where inv: "fifo_table s fifo" "status_ok s fifo" by (auto simp: fifo_inv_def)
  from panic have st: "ds_status s = Drafting" "seat < length (ds_seats s)" by (auto simp: select_fifo_def split: if_splits)
  have fifo: "ds_fifo s = Some fifo" "length (ff_seats fifo) = length (ds_seats s)" "length (ds_pools s) = length (ds_seats s)"
    using inv(1) by (simp_all add: fifo_table_def)
  note settled = drafting_settled(1)[OF inv st(1)]
  from panic st fifo obtain head r sel u where *: "head_metadata s seat = Some head"
    "selection_requirements s seat effects = Ok r"
    "check_role RolePick picked (rq_picks r) effects (qp_pack head) [] = Ok sel"
    "check_role RoleBurn burned (rq_burns r) effects (qp_pack head) sel = Ok u"
    "and_then (settle_selection s fifo seat picked burned effects) (\<lambda>(discarded, passed, s1).
          case finish_pick s1 seat picked of (result, s2) \<Rightarrow>
            and_then result (\<lambda>deltas.
              Ok (deltas @ passed @ [SelectionAccepted prompt_id seat picked burned effects discarded], s2))) = Panic"
    unfolding select_fifo_def
    by (auto simp: and_then_eq_Panic selection_requirements_not_Panic check_role_not_Panic check_prompt_not_Panic)
  from *(1) fifo st(2) obtain queue where q: "fs_queue (ff_seats fifo ! seat) = head # queue"
    by (cases "fs_queue (ff_seats fifo ! seat)") (auto simp: head_metadata_def)
  have "selectable s seat (qp_pack head) picked burned effects"
    using checked_selectable[OF *(2) _ *(3,4)] st(2) fifo(3) by simp
  from selected_commit[OF settled st(2) q this,
      of "\<lambda>discarded passed deltas. deltas @ passed @ [SelectionAccepted prompt_id seat picked burned effects discarded]"]
  show False unfolding *(5) by simp
qed

lemma select_fifo_inv:
  assumes "fifo_inv s" "select_fifo s seat prompt_id picked burned effects timing = Ok (deltas, t)"
  obtains fifo fifo' where "ds_fifo s = Some fifo" "ds_fifo t = Some fifo'" "fifo_inv t" "gens_advance fifo fifo'"
    "\<forall>p. fs_prompt (ff_seats fifo' ! seat) = Some p \<longrightarrow> pi_generation prompt_id < pi_generation (pm_id p)"
    "pi_generation prompt_id \<le> fs_generation (ff_seats fifo' ! seat)" "seat < length (ff_seats fifo)"
  using assms(2)
proof (rule select_fifo_Ok)
  fix fifo head prompt discarded passed s1 more
  assume *: "ds_status s = Drafting" "seat < length (ds_seats s)" "ds_fifo s = Some fifo" "seat < length (ff_seats fifo)"
    "fs_prompt (ff_seats fifo ! seat) = Some prompt"
    "check_prompt fifo seat head prompt prompt_id timing = Ok ()"
    "settle_selection s fifo seat picked burned effects = Ok (discarded, passed, s1)"
    "finish_pick s1 seat picked = (Ok more, t)"
  from assms(1) *(3) have inv: "fifo_table s fifo" "status_ok s fifo" by (auto simp: fifo_inv_def fifo_table_def)
  note settled = drafting_settled(1)[OF inv *(1)]
  obtain f1 where f1: "settled s1 f1" "gens_advance fifo f1" "fs_prompt (ff_seats f1 ! seat) = None"
    "fs_generation (ff_seats f1 ! seat) = fs_generation (ff_seats fifo ! seat)"
    using settle_settled[OF settled *(2,7)] by blast
  from finish_pick_fifo(2)[OF f1(1) *(8)] obtain f2 where f2: "fifo_table t f2" "status_ok t f2" "gens_advance f1 f2" by blast
  have gen: "pi_generation prompt_id = fs_generation (ff_seats fifo ! seat)"
    using settled *(4,5) check_prompt_Ok[OF *(6)] by (auto simp: settled_def prompts_named_def prompt_names_seat_def)
  have "cf_flow (ds_config s) = FifoAsync" using inv(1) by (simp add: fifo_table_def)
  from select_fifo_content[OF assms(2) this] have "fifo_ids t = fifo_ids s" by simp
  with assms(1) f2 have "fifo_inv t" by (auto simp: fifo_inv_def)
  moreover have len: "seat < length (ff_seats f1)" using f1(2) *(4) by (simp add: gens_advance_def)
  moreover have "\<forall>p. fs_prompt (ff_seats f2 ! seat) = Some p \<longrightarrow> pi_generation prompt_id < pi_generation (pm_id p)"
    "pi_generation prompt_id \<le> fs_generation (ff_seats f2 ! seat)"
    using f2(3) len f1(3,4) gen by (auto simp: gens_advance_def)
  moreover have "ds_fifo t = Some f2" using f2(1) by (simp add: fifo_table_def)
  ultimately show thesis using that[of fifo f2] *(3,4) gens_advance_trans[OF f1(2) f2(3)] by blast
qed


section \<open>The automatic selection\<close>

lemma head_ids_distinct:
  assumes "fifo_inv s" "ds_fifo s = Some fifo" "seat < length (ff_seats fifo)" "fs_queue (ff_seats fifo ! seat) = head # queue"
  shows "distinct (map ci_instance_id (qp_pack head))"
proof (rule distinct_of_submset)
  have "mset (qp_pack head) \<subseteq># queue_cards (ff_seats fifo ! seat)"
    using assms(4) by (simp add: queue_cards_def content_simps)
  also have "\<dots> \<subseteq># live_cards s" using sum_list_member[OF assms(3), of queue_cards] assms(2) by (simp add: live_cards_def)
  finally have "image_mset ci_instance_id (mset (qp_pack head)) \<subseteq># image_mset ci_instance_id (live_cards s)"
    by (rule image_mset_subseteq_mono)
  also have "\<dots> \<subseteq># fifo_ids s" by (auto simp: fifo_ids_def)
  finally show "mset (map ci_instance_id (qp_pack head)) \<subseteq># fifo_ids s" by simp
  show "\<forall>x. count (fifo_ids s) x \<le> 1" using assms(1) by (simp add: fifo_inv_def)
qed

definition auto_picks :: "draft_session \<Rightarrow> draft_pack \<Rightarrow> string list" where
  "auto_picks s pack = map ci_instance_id (take (pr_cards_per_pick (procedure (ds_kind s))) pack)"

definition auto_burns :: "draft_session \<Rightarrow> draft_pack \<Rightarrow> string list" where
  "auto_burns s pack = map ci_instance_id (take (sp_burns_per_pick (cf_selection_policy (ds_config s)))
     (drop (pr_cards_per_pick (procedure (ds_kind s))) pack))"

lemma auto_requirements:
  assumes "head_pack s seat = Some pack"
  shows "selection_requirements s seat [] = Ok \<lparr>rq_picks = length (auto_picks s pack), rq_burns = length (auto_burns s pack)\<rparr>"
  using assms by (simp add: selection_requirements_def required_pick_count_def auto_picks_def auto_burns_def min_def Let_def)

lemma auto_selection_form:
  assumes "fifo_table s fifo" "ds_status s = Drafting" "seat < length (ds_seats s)"
    "fs_queue (ff_seats fifo ! seat) = head # queue" "fs_prompt (ff_seats fifo ! seat) = Some prompt"
  shows "legal_auto_selection s seat =
     Some (Select seat (pm_id prompt) (auto_picks s (qp_pack head)) (auto_burns s (qp_pack head)) [])"
proof -
  have fifo: "ds_fifo s = Some fifo" "cf_flow (ds_config s) = FifoAsync" "seat < length (ff_seats fifo)"
    using assms(1,3) by (simp_all add: fifo_table_def)
  have hp: "head_pack s seat = Some (qp_pack head)" using fifo assms(4) by (simp add: head_pack_def head_metadata_def)
  have "full_packs (ff_seats fifo ! seat)" using assms(1) fifo(3) by (simp add: fifo_table_def)
  then have ne: "auto_picks s (qp_pack head) \<noteq> []"
    using assms(4) procedure_bounds(1)[of "ds_kind s"] by (auto simp: full_packs_def auto_picks_def)
  show ?thesis using fifo assms(2,5) hp ne auto_requirements[OF hp]
    by (simp add: legal_auto_selection_def) (simp add: auto_picks_def auto_burns_def min_def take_map[symmetric])
qed

lemma auto_roles:
  assumes "distinct (map ci_instance_id pack)"
  shows "\<exists>sel u. check_role RolePick (auto_picks s pack) (length (auto_picks s pack)) [] pack [] = Ok sel
     \<and> check_role RoleBurn (auto_burns s pack) (length (auto_burns s pack)) [] pack sel = Ok u"
proof -
  let ?k = "pr_cards_per_pick (procedure (ds_kind s))"
  have split: "map ci_instance_id pack = auto_picks s pack @ map ci_instance_id (drop ?k pack)"
    by (simp add: auto_picks_def flip: map_append)
  have sub: "set (auto_burns s pack) \<subseteq> set (map ci_instance_id (drop ?k pack))"
    unfolding auto_burns_def set_map by (intro image_mono set_take_subset)
  from assms split have d: "distinct (auto_picks s pack)" "distinct (map ci_instance_id (drop ?k pack))"
    "set (auto_picks s pack) \<inter> set (map ci_instance_id (drop ?k pack)) = {}" by (metis distinct_append)+
  from d(2) have db: "distinct (auto_burns s pack)"
    unfolding auto_burns_def take_map[symmetric] by (rule distinct_take)
  have mem: "set (auto_picks s pack) \<subseteq> ci_instance_id ` set pack" "set (map ci_instance_id (drop ?k pack)) \<subseteq> ci_instance_id ` set pack"
    using arg_cong[OF split, of set] by auto
  have "set (auto_burns s pack) \<inter> set (rev (auto_picks s pack)) = {}" "set (auto_burns s pack) \<subseteq> ci_instance_id ` set pack"
    using sub d(3) mem(2) by auto
  with db mem(1) d(1) check_selected_total[of "auto_picks s pack" "[]" pack "[]" RolePick]
    check_selected_total[of "auto_burns s pack" "rev (auto_picks s pack)" pack "[]" RoleBurn]
  show ?thesis by (simp add: check_role_def)
qed

lemma auto_selection_tame:
  assumes "fifo_inv s" "ds_fifo s = Some fifo" "ds_status s = Drafting" "seat < length (ds_seats s)"
    "fs_queue (ff_seats fifo ! seat) = head # queue" "fs_prompt (ff_seats fifo ! seat) = Some prompt"
    "and_then (prompt_deadline prompt) (check_timing timing (ff_last_now_ms fifo) (pm_pack_id prompt)) = Ok ()"
  shows "fails_only counters_exhausted
     (select_fifo s seat (pm_id prompt) (auto_picks s (qp_pack head)) (auto_burns s (qp_pack head)) [] timing)"
proof -
  from assms(1,2) have inv: "fifo_table s fifo" "status_ok s fifo" by (auto simp: fifo_inv_def fifo_table_def)
  note settled = drafting_settled[OF inv assms(3)]
  have fifo: "length (ff_seats fifo) = length (ds_seats s)" "cf_flow (ds_config s) = FifoAsync" "length (ds_pools s) = length (ds_seats s)"
    using inv(1) by (simp_all add: fifo_table_def)
  have hm: "head_metadata s seat = Some head" using assms(2,4,5) fifo by (simp add: head_metadata_def)
  then have hp: "head_pack s seat = Some (qp_pack head)" using fifo by (simp add: head_pack_def)
  have "prompt_matches (ff_seats fifo ! seat)" using settled(2) assms(4) fifo by simp
  then have pm: "pm_pack_id prompt = qp_pack_id head" using assms(5,6) by (simp add: prompt_matches_def)
  have "prompt_names_seat fifo seat (ff_seats fifo ! seat)"
    using settled(1) assms(4) fifo by (simp add: settled_def prompts_named_def)
  with assms(6,7) pm have cp: "check_prompt fifo seat head prompt (pm_id prompt) timing = Ok ()"
    by (simp add: check_prompt_def prompt_names_seat_def)
  obtain sel u where roles: "check_role RolePick (auto_picks s (qp_pack head)) (length (auto_picks s (qp_pack head))) [] (qp_pack head) [] = Ok sel"
    "check_role RoleBurn (auto_burns s (qp_pack head)) (length (auto_burns s (qp_pack head))) [] (qp_pack head) sel = Ok u"
    using auto_roles[OF head_ids_distinct[OF assms(1,2) _ assms(5)], of s] assms(4) fifo by auto
  have "selectable s seat (qp_pack head) (auto_picks s (qp_pack head)) (auto_burns s (qp_pack head)) []"
    by (rule checked_selectable[OF auto_requirements[OF hp]]) (use roles assms(4) fifo in simp_all)
  from selected_commit[OF settled(1) assms(4,5) this] show ?thesis
    using assms(2,3,4,6) fifo hm cp roles auto_requirements[OF hp]
    by (simp add: select_fifo_def fifo_ref_def not_le[symmetric])
qed


section \<open>Expiry\<close>

definition answered :: "draft_prompt_id \<Rightarrow> draft_session \<Rightarrow> bool" where
  "answered prompt_id s \<longleftrightarrow> (\<exists>fifo. ds_fifo s = Some fifo \<and> pi_seat prompt_id < length (ff_seats fifo)
     \<and> pi_generation prompt_id \<le> fs_generation (ff_seats fifo ! pi_seat prompt_id)
     \<and> (\<forall>p. fs_prompt (ff_seats fifo ! pi_seat prompt_id) = Some p \<longrightarrow> pi_generation prompt_id < pi_generation (pm_id p)))"

lemma answered_advance:
  assumes "answered prompt_id s" "ds_fifo s = Some f" "ds_fifo t = Some f'" "gens_advance f f'"
  shows "answered prompt_id t"
proof -
  let ?i = "pi_seat prompt_id"
  from assms(1,2) have a: "?i < length (ff_seats f)" "pi_generation prompt_id \<le> fs_generation (ff_seats f ! ?i)"
    "\<And>p. fs_prompt (ff_seats f ! ?i) = Some p \<Longrightarrow> pi_generation prompt_id < pi_generation (pm_id p)"
    by (auto simp: answered_def)
  from assms(4) a(1) have g: "length (ff_seats f') = length (ff_seats f)" "fs_generation (ff_seats f ! ?i) \<le> fs_generation (ff_seats f' ! ?i)"
    "\<And>p. fs_prompt (ff_seats f' ! ?i) = Some p \<Longrightarrow> fs_prompt (ff_seats f ! ?i) = Some p \<or> fs_generation (ff_seats f ! ?i) < pi_generation (pm_id p)"
    by (auto simp: gens_advance_def)
  have "pi_generation prompt_id < pi_generation (pm_id p)" if "fs_prompt (ff_seats f' ! ?i) = Some p" for p
    using g(3)[OF that] a(2,3) by auto
  with a g assms(3) show ?thesis by (auto simp: answered_def)
qed

definition expiring :: "draft_session \<Rightarrow> fifo_draft_state \<Rightarrow> draft_delta list \<times> draft_session \<Rightarrow> bool" where
  "expiring s fifo acc \<longleftrightarrow> fifo_inv (snd acc) \<and> fifo_ids (snd acc) = fifo_ids s \<and> ds_config (snd acc) = ds_config s
     \<and> ds_seats (snd acc) = ds_seats s \<and> ds_kind (snd acc) = ds_kind s \<and> undrafted (snd acc) \<le> undrafted s
     \<and> (\<exists>f. ds_fifo (snd acc) = Some f \<and> gens_advance fifo f \<and> ff_last_now_ms f = ff_last_now_ms fifo)"

lemma expired_prompts_seat:
  assumes "x \<in> set (expired_prompts now (ff_seats fifo))" "prompts_named fifo"
  obtains i p c d where "i < length (ff_seats fifo)" "fs_prompt (ff_seats fifo ! i) = Some p" "pm_clock p = Some c"
    "ck_state c = Running d" "d \<le> now" "x = (pm_id p, pm_pack_id p, d)" "pi_seat (pm_id p) = i"
    "pi_generation (pm_id p) = fs_generation (ff_seats fifo ! i)"
proof -
  from assms(1) obtain st p c where *: "st \<in> set (ff_seats fifo)" "fs_prompt st = Some p" "pm_clock p = Some c"
    "(case ck_state c of Running d \<Rightarrow> if d \<le> now then Some (pm_id p, pm_pack_id p, d) else None | Frozen _ \<Rightarrow> None) = Some x"
    unfolding expired_prompts_def set_map_filter bind_eq_Some_conv by blast
  from *(4) obtain d where d: "ck_state c = Running d" "d \<le> now" "x = (pm_id p, pm_pack_id p, d)"
    by (cases "ck_state c") (auto split: if_splits)
  from *(1) obtain i where i: "i < length (ff_seats fifo)" "st = ff_seats fifo ! i" by (auto simp: in_set_conv_nth)
  with assms(2) *(2) have "pi_seat (pm_id p) = i" "pi_generation (pm_id p) = fs_generation (ff_seats fifo ! i)"
    by (auto simp: prompts_named_def prompt_names_seat_def)
  with * d i show thesis by (intro that) auto
qed

lemma select_last_now:
  assumes "select_fifo s seat prompt_id picked burned effects timing = Ok (deltas, t)" "cf_flow (ds_config s) = FifoAsync"
  shows "map_option ff_last_now_ms (ds_fifo t) = map_option ff_last_now_ms (ds_fifo s)"
  using assms(1)
proof (rule select_fifo_Ok)
  fix fifo discarded passed s1 more
  assume *: "ds_fifo s = Some fifo" "settle_selection s fifo seat picked burned effects = Ok (discarded, passed, s1)"
    "finish_pick s1 seat picked = (Ok more, t)"
  from settle_selection_pools[OF *(2)] assms(2) have "cf_flow (ds_config s1) = FifoAsync" by auto
  from finish_pick_fifo_Ok[OF *(3) this] have t: "map_option ff_last_now_ms (ds_fifo t) = map_option ff_last_now_ms (ds_fifo s1)"
    by (simp add: same_table_def)
  from *(2) have "map_option ff_last_now_ms (ds_fifo s1) = Some (ff_last_now_ms fifo)"
  proof (rule settle_selection_Ok)
    fix head queue sc bc ret pool' pack f st h
    assume "settle_pack s fifo seat ((ff_seats fifo ! seat)\<lparr>fs_queue := queue, fs_completed_steps := fs_completed_steps (ff_seats fifo ! seat) + 1,
          fs_round_completed_steps := fs_round_completed_steps (ff_seats fifo ! seat) + 1, fs_prompt := None\<rparr>)
       (head\<lparr>qp_pack := pack\<rparr>) picked burned effects = Ok (discarded, passed, f)"
      "s1 = s\<lparr>ds_pools := (ds_pools s)[seat := pool' @ sc], ds_fifo := Some f\<rparr>"
    note settled = this
    from settle_pack_Ok(1)[OF settled(1)] obtain re
      where "f = fifo\<lparr>ff_seats := ff_seats f, ff_removed := ff_removed f\<rparr>\<lparr>ff_returned_effects := re\<rparr>" by blast
    from arg_cong[OF this, of ff_last_now_ms] settled(2) show ?thesis by simp
  qed
  with t *(1) show ?thesis by simp
qed

lemma running_prompt_drafting:
  assumes "fifo_table s fifo" "status_ok s fifo" "i < length (ff_seats fifo)" "fs_prompt (ff_seats fifo ! i) = Some p"
    "map_option ck_state (pm_clock p) = Some (Running d)"
  shows "ds_status s = Drafting" "\<exists>head queue. fs_queue (ff_seats fifo ! i) = head # queue"
proof -
  have not_idle: "\<not> idle_seats fifo" using assms(3,4) by (force simp: idle_seats_def)
  moreover have "\<not> all_frozen fifo"
  proof -
    from assms(5) obtain c where "pm_clock p = Some c" "ck_state c = Running d" by auto
    moreover from this assms(3,4) have "c \<in> clocks fifo" unfolding clocks_def by force
    ultimately show ?thesis by (force simp: all_frozen_def)
  qed
  ultimately show st: "ds_status s = Drafting"
    using assms(2) by (cases "ds_status s") (auto simp: status_ok_def review_ok_def)
  from drafting_settled(2)[OF assms(1,2) st] assms(3) have "prompt_matches (ff_seats fifo ! i)" by simp
  with assms(4) show "\<exists>head queue. fs_queue (ff_seats fifo ! i) = head # queue"
    by (cases "fs_queue (ff_seats fifo ! i)") (auto simp: prompt_matches_def)
qed

lemma answered_select:
  assumes "fifo_inv s" "select_fifo s seat prompt_id picked burned effects timing = Ok (deltas, t)"
  shows "answered prompt_id t" "\<forall>y. answered y s \<longrightarrow> answered y t"
proof -
  have seat: "pi_seat prompt_id = seat"
    using assms(2) by (rule select_fifo_Ok) (auto dest: check_prompt_Ok)
  obtain f f' where *: "ds_fifo s = Some f" "ds_fifo t = Some f'" "gens_advance f f'"
    "\<forall>p. fs_prompt (ff_seats f' ! seat) = Some p \<longrightarrow> pi_generation prompt_id < pi_generation (pm_id p)"
    "pi_generation prompt_id \<le> fs_generation (ff_seats f' ! seat)" "seat < length (ff_seats f)"
    using assms by (rule select_fifo_inv)
  then show "answered prompt_id t" using seat by (auto simp: answered_def gens_advance_def)
  show "\<forall>y. answered y s \<longrightarrow> answered y t" using answered_advance[OF _ *(1,2,3)] by blast
qed

lemma expiring_select:
  assumes "expiring s fifo (deltas, t)" "select_fifo t seat prompt_id (auto_picks t pack) (auto_burns t pack) [] timing = Ok (added, u)"
  shows "expiring s fifo (deltas', u)"
proof -
  from assms(1) obtain f where f: "fifo_inv t" "fifo_ids t = fifo_ids s" "ds_config t = ds_config s" "ds_seats t = ds_seats s"
    "ds_kind t = ds_kind s" "undrafted t \<le> undrafted s" "ds_fifo t = Some f" "gens_advance fifo f" "ff_last_now_ms f = ff_last_now_ms fifo"
    by (auto simp: expiring_def)
  then have flow: "cf_flow (ds_config t) = FifoAsync" by (auto simp: fifo_inv_def fifo_table_def)
  obtain f' where f': "ds_fifo u = Some f'" "fifo_inv u" "gens_advance f f'"
    using select_fifo_inv[OF f(1) assms(2)] f(7) by auto
  have "ff_last_now_ms f' = ff_last_now_ms f" using select_last_now[OF assms(2) flow] f(7) f'(1) by simp
  with select_fifo_content[OF assms(2) flow] f f' gens_advance_trans[OF f(8) f'(3)] show ?thesis
    by (auto simp: expiring_def)
qed

lemma expire_step:
  assumes "x \<in> set (expired_prompts (ff_last_now_ms fifo) (ff_seats fifo))" "prompts_named fifo" "expiring s fifo (deltas, t)"
  shows "fails_only counters_exhausted (expire_prompt x (deltas, t))"
    and "expire_prompt x (deltas, t) = Ok acc \<Longrightarrow> expiring s fifo acc \<and> answered (fst x) (snd acc)
      \<and> (\<forall>y. answered y t \<longrightarrow> answered y (snd acc))"
proof -
  from assms(1,2) obtain i p c d where x: "i < length (ff_seats fifo)" "fs_prompt (ff_seats fifo ! i) = Some p" "pm_clock p = Some c"
    "ck_state c = Running d" "d \<le> ff_last_now_ms fifo" "x = (pm_id p, pm_pack_id p, d)" "pi_seat (pm_id p) = i"
    "pi_generation (pm_id p) = fs_generation (ff_seats fifo ! i)"
    by (rule expired_prompts_seat)
  from assms(3) obtain f where f: "fifo_inv t" "ds_fifo t = Some f" "gens_advance fifo f" "ff_last_now_ms f = ff_last_now_ms fifo"
    by (auto simp: expiring_def)
  from f(1,2) have inv: "fifo_table t f" "status_ok t f" by (auto simp: fifo_inv_def fifo_table_def)
  have i: "i < length (ff_seats f)" using f(3) x(1) by (simp add: gens_advance_def)
  let ?current = "case fs_prompt (ff_seats f ! i) of None \<Rightarrow> False
    | Some q \<Rightarrow> pm_id q = pm_id p \<and> pm_pack_id q = pm_pack_id p \<and> map_option ck_state (pm_clock q) = Some (Running d)"
  have "fails_only counters_exhausted (expire_prompt x (deltas, t)) \<and>
    (\<forall>acc. expire_prompt x (deltas, t) = Ok acc \<longrightarrow> expiring s fifo acc \<and> answered (fst x) (snd acc)
      \<and> (\<forall>y. answered y t \<longrightarrow> answered y (snd acc)))"
  proof (cases ?current)
    case False
    then have "expire_prompt x (deltas, t) = Ok (deltas, t)"
      using f(2) i x(6,7) by (auto simp: expire_prompt_def fifo_ref_def)
    moreover have "answered (pm_id p) t"
    proof -
      from f(3) x(1) have "fs_generation (ff_seats fifo ! i) \<le> fs_generation (ff_seats f ! i)"
        "\<And>q. fs_prompt (ff_seats f ! i) = Some q \<Longrightarrow> fs_prompt (ff_seats fifo ! i) = Some q \<or> fs_generation (ff_seats fifo ! i) < pi_generation (pm_id q)"
        by (auto simp: gens_advance_def)
      moreover have "fs_prompt (ff_seats f ! i) \<noteq> Some p" using False x(3,4) by auto
      ultimately show ?thesis using f(2) i x(2,7,8) by (fastforce simp: answered_def)
    qed
    ultimately show ?thesis using assms(3) x(6) by simp
  next
    case True
    then obtain q where q: "fs_prompt (ff_seats f ! i) = Some q" "pm_id q = pm_id p" "pm_pack_id q = pm_pack_id p"
      "map_option ck_state (pm_clock q) = Some (Running d)" by (auto split: option.splits)
    obtain head queue where hq: "fs_queue (ff_seats f ! i) = head # queue" using running_prompt_drafting(2)[OF inv i q(1,4)] by blast
    have st: "ds_status t = Drafting" by (rule running_prompt_drafting(1)[OF inv i q(1,4)])
    have n: "i < length (ds_seats t)" using inv(1) i by (simp add: fifo_table_def)
    have timing: "and_then (prompt_deadline q) (check_timing (TimingExpiry (pm_pack_id p) d) (ff_last_now_ms f) (pm_pack_id q)) = Ok ()"
      using q(3,4) x(5) f(4) by (auto simp: prompt_deadline_def check_timing_def)
    let ?sel = "select_fifo t i (pm_id q) (auto_picks t (qp_pack head)) (auto_burns t (qp_pack head)) [] (TimingExpiry (pm_pack_id p) d)"
    have eq: "expire_prompt x (deltas, t) = and_then ?sel (\<lambda>(added, u). Ok (deltas @ added, u))"
      using f(2) i x(6,7) True auto_selection_form[OF inv(1) st n hq q(1)] by (simp add: expire_prompt_def fifo_ref_def)
    have tame: "fails_only counters_exhausted ?sel" by (rule auto_selection_tame[OF f(1,2) st n hq q(1) timing])
    have "expiring s fifo (deltas @ added, u) \<and> answered (pm_id p) u \<and> (\<forall>y. answered y t \<longrightarrow> answered y u)"
      if "?sel = Ok (added, u)" for added u
      using expiring_select[OF assms(3) that] answered_select[OF f(1) that] q(2) by simp
    with tame show ?thesis unfolding eq by (auto simp: outcome_simps x(6) intro!: fails_only_and_then)
  qed
  then show "fails_only counters_exhausted (expire_prompt x (deltas, t))"
    and "expire_prompt x (deltas, t) = Ok acc \<Longrightarrow> expiring s fifo acc \<and> answered (fst x) (snd acc)
      \<and> (\<forall>y. answered y t \<longrightarrow> answered y (snd acc))" by blast+
qed

lemma advance_drafting:
  assumes "fifo_inv s" "ds_fifo s = Some fifo" "ds_status s = Drafting" "now = ff_last_now_ms fifo"
  shows "fails_only counters_exhausted (advance s now)"
    and "advance s now = Ok (deltas, t) \<Longrightarrow> expiring s fifo (deltas, t)
      \<and> (\<forall>x\<in>set (expired_prompts now (ff_seats fifo)). answered (fst x) t) \<and> (\<forall>y. answered y s \<longrightarrow> answered y t)"
proof -
  from assms(1,2) have inv: "fifo_table s fifo" "status_ok s fifo" by (auto simp: fifo_inv_def fifo_table_def)
  have named: "prompts_named fifo" using drafting_settled(1)[OF inv assms(3)] by (simp add: settled_def)
  have start: "expiring s fifo ([], s)" using assms(1,2) by (simp add: expiring_def)
  note step = expire_step[OF _ named, of _ s]
  have "fails_only counters_exhausted (try_fold expire_prompt (expired_prompts now (ff_seats fifo)) ([], s)) \<and>
    (\<forall>acc. try_fold expire_prompt (expired_prompts now (ff_seats fifo)) ([], s) = Ok acc \<longrightarrow> expiring s fifo acc
      \<and> (\<forall>x\<in>set (expired_prompts now (ff_seats fifo)). answered (fst x) (snd acc))
      \<and> (\<forall>y :: draft_prompt_id \<times> draft_pack_id \<times> nat. answered (fst y) (snd ([] :: draft_delta list, s)) \<longrightarrow> answered (fst y) (snd acc)))"
  proof (rule try_fold_establish[where Q = "\<lambda>x acc. answered (fst x) (snd acc)" and I = "expiring s fifo" and s = "([], s)", OF start])
    fix x acc assume x: "x \<in> set (expired_prompts now (ff_seats fifo))" and acc: "expiring s fifo acc"
    show "fails_only counters_exhausted (expire_prompt x acc)"
      using step(1)[of x "fst acc" "snd acc"] x acc assms(4) by simp
    fix acc' assume "expire_prompt x acc = Ok acc'"
    then show "expiring s fifo acc' \<and> answered (fst x) (snd acc') \<and> (\<forall>y. answered (fst y) (snd acc) \<longrightarrow> answered (fst y) (snd acc'))"
      using step(2)[of x "fst acc" "snd acc" acc'] x acc assms(4) by simp
  qed
  note fold = this
  have eq: "advance s now = try_fold expire_prompt (expired_prompts now (ff_seats fifo)) ([], s)"
    using assms(2,3) by (simp add: advance_def fifo_ref_def)
  show "fails_only counters_exhausted (advance s now)" using fold eq by simp
  show "expiring s fifo (deltas, t)
      \<and> (\<forall>x\<in>set (expired_prompts now (ff_seats fifo)). answered (fst x) t) \<and> (\<forall>y. answered y s \<longrightarrow> answered y t)"
    if "advance s now = Ok (deltas, t)"
  proof (intro conjI)
    from fold that eq show "expiring s fifo (deltas, t)" "\<forall>x\<in>set (expired_prompts now (ff_seats fifo)). answered (fst x) t"
      by auto
    from fold that eq have "\<forall>y :: draft_prompt_id \<times> draft_pack_id \<times> nat. answered (fst y) s \<longrightarrow> answered (fst y) t" by auto
    then show "\<forall>y. answered y s \<longrightarrow> answered y t" by (metis fst_conv)
  qed
qed

lemma advance_review:
  assumes "fifo_inv s" "ds_fifo s = Some fifo" "ds_status s = Review"
  shows "fails_only counters_exhausted (advance s now)"
    and "advance s now = Ok (deltas, t) \<Longrightarrow> fifo_inv t \<and> same_table s t \<and> (\<forall>y. answered y s \<longrightarrow> answered y t)"
proof -
  from assms have inv: "fifo_table s fifo" "review_ok s fifo" "ff_paused fifo = None"
    by (auto simp: fifo_inv_def fifo_table_def status_ok_def)
  then obtain r where r: "ff_review fifo = Some r" "rv_next_round r = Suc (ds_current_pack_number s)" "idle_seats fifo"
    "unopened s (Suc (ds_current_pack_number s))" "Suc (ds_current_pack_number s) < cf_pack_count (ds_config s)"
    by (auto simp: review_ok_def)
  let ?due = "case ck_state (rv_clock r) of Running d \<Rightarrow> d \<le> now | Frozen _ \<Rightarrow> False"
  have eq: "advance s now = (if ?due then and_then (open_fifo_round s (rv_next_round r) now)
      (\<lambda>s'. Ok ([PackExhausted (rv_next_round r), TransitionedTo Drafting], s')) else Ok ([], s))"
    using assms(2,3) r(1) by (simp add: advance_def fifo_ref_def)
  note opened = open_round[OF inv(1) r(3,4,5)]
  show "fails_only counters_exhausted (advance s now)" unfolding eq r(2) using opened(1) by (auto intro!: fails_only_and_then)
  have "fifo_inv u \<and> same_table s u \<and> (\<forall>y. answered y s \<longrightarrow> answered y u)"
    if "open_fifo_round s (Suc (ds_current_pack_number s)) now = Ok u" for u
  proof -
    from opened(2)[OF that] obtain f where f: "fifo_table u f" "drafting_ok u f" "all_running f" "ff_paused f = ff_paused fifo"
      "ds_status u = Drafting" "gens_advance fifo f" by blast
    have same: "same_table s u" by (rule open_fifo_round_same_table[OF that])
    have "status_ok u f" using f inv(3) by (simp add: status_ok_def)
    with f(1) assms(1) same_table_content(1)[OF same] have "fifo_inv u" by (auto simp: fifo_inv_def)
    moreover have "ds_fifo u = Some f" using f(1) by (simp add: fifo_table_def)
    ultimately show ?thesis using same answered_advance[OF _ assms(2) _ f(6)] by blast
  qed
  with assms(1) show "advance s now = Ok (deltas, t) \<Longrightarrow> fifo_inv t \<and> same_table s t \<and> (\<forall>y. answered y s \<longrightarrow> answered y t)"
    unfolding eq r(2) by (auto simp: outcome_simps split: if_splits)
qed


section \<open>Pausing and resuming\<close>

lemma map_seat_clock_simps [simp]:
  "fs_queue (map_seat_clock g st) = fs_queue st" "fs_generation (map_seat_clock g st) = fs_generation st"
  "fs_prompt (map_seat_clock g st) = map_option (\<lambda>p. p\<lparr>pm_clock := map_option g (pm_clock p)\<rparr>) (fs_prompt st)"
  "full_packs (map_seat_clock g st) = full_packs st" "prompt_matches (map_seat_clock g st) = prompt_matches st"
  "queue_cards (map_seat_clock g st) = queue_cards st"
  by (auto simp: map_seat_clock_def full_packs_def prompt_matches_def queue_cards_def split: list.splits)

lemma map_clocks_simps [simp]:
  "ff_seats (map_clocks g fifo) = map (map_seat_clock g) (ff_seats fifo)" "ff_session_id (map_clocks g fifo) = ff_session_id fifo"
  "ff_packs (map_clocks g fifo) = ff_packs fifo" "ff_removed (map_clocks g fifo) = ff_removed fifo"
  "ff_paused (map_clocks g fifo) = ff_paused fifo" "ff_last_now_ms (map_clocks g fifo) = ff_last_now_ms fifo"
  "ff_review (map_clocks g fifo) = map_option (\<lambda>r. r\<lparr>rv_clock := g (rv_clock r)\<rparr>) (ff_review fifo)"
  by (simp_all add: map_clocks_def)

lemma prompt_names_map:
  "prompt_names_seat (map_clocks g fifo\<lparr>ff_paused := z\<rparr>) i (map_seat_clock g st) = prompt_names_seat fifo i st"
  by (cases "fs_prompt st") (simp_all add: prompt_names_seat_def)

lemma prompts_named_map [simp]: "prompts_named (map_clocks g fifo\<lparr>ff_paused := z\<rparr>) = prompts_named fifo"
  by (simp add: prompts_named_def prompt_names_map)

lemma idle_map [simp]: "idle_seats (map_clocks g fifo\<lparr>ff_paused := z\<rparr>) = idle_seats fifo"
  by (auto simp: idle_seats_def)

lemma retimed_table:
  fixes g z
  assumes "fifo_table s fifo"
  defines "f \<equiv> map_clocks g fifo\<lparr>ff_paused := z\<rparr>"
  shows "fifo_table (s\<lparr>ds_fifo := Some f, ds_status := st\<rparr>) f" "same_table s (s\<lparr>ds_fifo := Some f, ds_status := st\<rparr>)"
    "phase_ok phase s fifo \<Longrightarrow> phase_ok phase (s\<lparr>ds_fifo := Some f, ds_status := st\<rparr>) f"
proof -
  show "fifo_table (s\<lparr>ds_fifo := Some f, ds_status := st\<rparr>) f" using assms(1) by (auto simp: fifo_table_def f_def)
  show "same_table s (s\<lparr>ds_fifo := Some f, ds_status := st\<rparr>)"
    using assms(1) by (simp add: same_table_def fifo_table_def f_def live_cards_def unopened_cards_def removed_ids_def o_def)
  show "phase_ok phase s fifo \<Longrightarrow> phase_ok phase (s\<lparr>ds_fifo := Some f, ds_status := st\<rparr>) f"
    by (auto simp: phase_ok_def drafting_ok_def review_ok_def unopened_def f_def split: draft_active_phase.splits)
qed

lemma clocks_paused [simp]: "clocks (fifo\<lparr>ff_paused := z\<rparr>) = clocks fifo"
  by (simp add: clocks_def)

lemma answered_retimed:
  "answered y s \<Longrightarrow> ds_fifo s = Some fifo \<Longrightarrow> answered y (s\<lparr>ds_fifo := Some (map_clocks g fifo\<lparr>ff_paused := z\<rparr>), ds_status := st\<rparr>)"
  by (auto simp: answered_def)

definition thawed_at :: "nat \<Rightarrow> draft_clock \<Rightarrow> draft_clock" where
  "thawed_at now c = c\<lparr>ck_state := (case ck_state c of Frozen r \<Rightarrow> Running (now + r) | Running d \<Rightarrow> Running d)\<rparr>"

lemma resume_Ok:
  assumes "control s Resume now = Ok (ds, t)"
  obtains fifo paused where "ds_fifo s = Some fifo" "ds_status s = Paused" "ff_paused fifo = Some paused"
    "t = s\<lparr>ds_fifo := Some (map_clocks (thawed_at now) fifo\<lparr>ff_paused := None\<rparr>), ds_status := phase_status (pz_phase paused)\<rparr>"
proof -
  from assms obtain fifo paused u where *: "ds_status s = Paused" "ds_fifo s = Some fifo" "ff_paused fifo = Some paused"
    "for_each_clock (thaw now) s = Ok u"
    "t = u\<lparr>ds_fifo := map_option (\<lambda>f. f\<lparr>ff_paused := None\<rparr>) (ds_fifo u), ds_status := phase_status (pz_phase paused)\<rparr>"
    by (auto simp: outcome_simps update_fifo_def split: if_splits)
  have "thaw now c = Ok (thawed_at now c)" if "c \<in> clocks fifo" for c
    using for_each_clock_all[OF *(4,2) that]
    by (auto simp: thaw_def thawed_at_def outcome_simps deadline_Ok_iff split: draft_clock_state.splits)
  from for_each_clock_Ok[OF *(2) this] *(4) have "u = s\<lparr>ds_fifo := Some (map_clocks (thawed_at now) fifo)\<rparr>" by simp
  with * show thesis by (intro that[of fifo paused]) simp_all
qed

lemma control_not_Panic: "control s c now \<noteq> Panic"
proof -
  have "for_each_clock f u \<noteq> Panic" if "\<And>k. f k \<noteq> Panic" for f u
    using that by (auto simp: for_each_clock_def outcome_simps seat_clock_def review_clock_def
        dest!: try_map_Panic split: option.splits)
  then show ?thesis
    by (cases c) (auto simp: outcome_simps update_fifo_def pause_phase_def split: draft_status.splits)
qed

lemma control_inv:
  assumes "fifo_inv s" "control s c now = Ok (deltas, t)"
  shows "fifo_inv t \<and> same_table s t \<and> (\<forall>y. answered y s \<longrightarrow> answered y t)"
proof (cases c)
  case (Pause reason)
  from assms(2)[unfolded Pause] show ?thesis
  proof (rule pause_Ok)
    fix fifo phase
    let ?f = "map_clocks (frozen_at now) fifo\<lparr>ff_paused := Some \<lparr>pz_phase = phase, pz_reason = reason\<rparr>\<rparr>"
    assume *: "ds_fifo s = Some fifo" "pause_phase (ds_status s) = Ok phase"
      "\<And>c. c \<in> clocks fifo \<Longrightarrow> \<exists>d. ck_state c = Running d" "t = s\<lparr>ds_fifo := Some ?f, ds_status := Paused\<rparr>"
    from assms(1) *(1) have inv: "fifo_table s fifo" "status_ok s fifo" by (auto simp: fifo_inv_def fifo_table_def)
    have ph: "phase_ok phase s fifo"
      using inv(2) *(2) by (auto simp: status_ok_def pause_phase_def phase_ok_def split: draft_status.splits)
    note re = retimed_table[OF inv(1), where g = "frozen_at now" and z = "Some \<lparr>pz_phase = phase, pz_reason = reason\<rparr>" and st = Paused]
    have "all_frozen ?f" using *(3) by (fastforce simp: all_frozen_def clocks_map_clocks frozen_at_def)
    then have "status_ok t ?f" using re(3)[OF ph] unfolding *(4) by (simp add: status_ok_def)
    with re(1,2) *(4) assms(1) same_table_content(1)[OF re(2)] answered_retimed[OF _ *(1)] show ?thesis
      by (auto simp: fifo_inv_def)
  qed
next
  case Resume
  from assms(2)[unfolded Resume] show ?thesis
  proof (rule resume_Ok)
    fix fifo paused
    let ?f = "map_clocks (thawed_at now) fifo\<lparr>ff_paused := None\<rparr>"
    assume *: "ds_fifo s = Some fifo" "ds_status s = Paused" "ff_paused fifo = Some paused"
      "t = s\<lparr>ds_fifo := Some ?f, ds_status := phase_status (pz_phase paused)\<rparr>"
    from assms(1) *(1) have inv: "fifo_table s fifo" "status_ok s fifo" by (auto simp: fifo_inv_def fifo_table_def)
    have ph: "phase_ok (pz_phase paused) s fifo" "all_frozen fifo" using inv(2) *(2,3) by (auto simp: status_ok_def)
    note re = retimed_table[OF inv(1), where g = "thawed_at now" and z = None and st = "phase_status (pz_phase paused)"]
    have "all_running ?f" using ph(2) by (fastforce simp: all_running_def all_frozen_def clocks_map_clocks thawed_at_def)
    then have "status_ok t ?f" using re(3)[OF ph(1)] unfolding *(4)
      by (cases "pz_phase paused") (simp_all add: status_ok_def phase_ok_def)
    with re(1,2) *(4) assms(1) same_table_content(1)[OF re(2)] answered_retimed[OF _ *(1)] show ?thesis
      by (auto simp: fifo_inv_def)
  qed
qed

section \<open>Room in the counters\<close>

text \<open>
  How far the counters and the clock are from the end of the interoperable integer range: every
  counter can be incremented, and the longest clock a policy may set still ends within the range.
\<close>

definition counters_room :: "draft_session \<Rightarrow> bool" where
  "counters_room s = (case ds_fifo s of
     None \<Rightarrow> False
   | Some fifo \<Rightarrow> ff_last_now_ms fifo + MAX_DRAFT_DURATION_MS \<le> MAX_DRAFT_JSON_INTEGER
       \<and> list_all (\<lambda>st. fs_generation st < MAX_DRAFT_JSON_INTEGER \<and> fs_completed_steps st < MAX_DRAFT_JSON_INTEGER
             \<and> fs_round_completed_steps st < MAX_DRAFT_JSON_INTEGER) (ff_seats fifo))"

text \<open>The timing under which a seat's prompt is answered: by its owner until it is due, by the sweep from then on.\<close>

definition due_timing :: "nat \<Rightarrow> fifo_seat_state \<Rightarrow> selection_timing" where
  "due_timing now st = (case fs_prompt st of
     None \<Rightarrow> TimingHuman
   | Some p \<Rightarrow> (case map_option ck_state (pm_clock p) of
        Some (Running d) \<Rightarrow> if d \<le> now then TimingExpiry (pm_pack_id p) d else TimingHuman
      | _ \<Rightarrow> TimingHuman))"

text \<open>A step that does not run out of range.\<close>

definition in_range :: "'a draft_result \<Rightarrow> bool" where
  "in_range r \<longleftrightarrow> r \<noteq> Err InvalidClockBounds"

lemma in_range_simps [simp]:
  "in_range (Ok a)" "in_range Panic" "in_range (Err e) \<longleftrightarrow> e \<noteq> InvalidClockBounds"
  by (simp_all add: in_range_def)

lemma in_range_and_then:
  "in_range r \<Longrightarrow> (\<And>a. r = Ok a \<Longrightarrow> in_range (f a)) \<Longrightarrow> in_range (and_then r f)"
  by (cases r) (auto simp: in_range_def)

lemma in_range_try_map: "(\<And>x. x \<in> set xs \<Longrightarrow> in_range (f x)) \<Longrightarrow> in_range (try_map f xs)"
  by (induction xs) (auto intro!: in_range_and_then)

lemma in_range_try_fold:
  assumes "I s" "\<And>x t. I t \<Longrightarrow> in_range (f x t) \<and> (\<forall>t'. f x t = Ok t' \<longrightarrow> I t')"
  shows "in_range (try_fold f xs s) \<and> (\<forall>t. try_fold f xs s = Ok t \<longrightarrow> I t)"
  using assms(1)
proof (induction xs arbitrary: s)
  case (Cons x xs)
  from assms(2)[OF Cons.prems, of x] Cons.IH show ?case
    by (cases "f x s") (auto simp: in_range_def)
qed simp

lemma in_range_basics [simp]:
  "snapshot_error reason \<noteq> InvalidClockBounds"
  "in_range (index xs i)" "e \<noteq> InvalidClockBounds \<Longrightarrow> in_range (ok_or e v)" "in_range (fifo_ref s)"
  by (simp_all add: index_def ok_or_def fifo_ref_def snapshot_error_def split: option.split)

lemma in_range_counters:
  "v < MAX_DRAFT_JSON_INTEGER \<Longrightarrow> in_range (increment v)"
  "now + r \<le> MAX_DRAFT_JSON_INTEGER \<Longrightarrow> in_range (running t now r)"
proof -
  show "in_range (increment v)" if "v < MAX_DRAFT_JSON_INTEGER"
    using that increment_Ok_iff[of v "v + 1"] by simp
  show "in_range (running t now r)" if "now + r \<le> MAX_DRAFT_JSON_INTEGER"
    using that running_Ok_iff[of t now r "\<lparr>ck_target = t, ck_state = Running (now + r)\<rparr>"] by simp
qed

lemma in_set_updateD: "x \<in> set (xs[i := y]) \<Longrightarrow> x = y \<or> x \<in> set xs"
  using set_update_subset_insert[of xs i y] by auto

lemma pick_duration_bounded:
  "clock_policy_validate p = Ok () \<Longrightarrow> pick_duration (kp_pick p) steps = Some d \<Longrightarrow> d \<le> MAX_DRAFT_DURATION_MS"
proof -
  assume v: "clock_policy_validate p = Ok ()" and d: "pick_duration (kp_pick p) steps = Some d"
  have "SEAT_STEP_MS ! k \<le> MAX_DRAFT_DURATION_MS" if "k \<le> 13" for k
  proof -
    have "k < length SEAT_STEP_MS" using that by (simp add: SEAT_STEP_MS_def)
    moreover have "\<forall>x\<in>set SEAT_STEP_MS. x \<le> MAX_DRAFT_DURATION_MS"
      by (simp add: SEAT_STEP_MS_def MAX_DRAFT_DURATION_MS_def)
    ultimately show ?thesis by (meson nth_mem)
  qed
  with v d show ?thesis
    by (auto simp: clock_policy_validate_def pick_duration_def split: pick_clock_policy.splits if_splits)
qed

text \<open>What the rest of a selection needs of the counters: generations that can grow, and time to set a clock.\<close>

definition clocks_room :: "nat \<Rightarrow> draft_session \<Rightarrow> bool" where
  "clocks_room now s \<longleftrightarrow> clock_policy_validate (cf_clock_policy (ds_config s)) = Ok ()
     \<and> now + MAX_DRAFT_DURATION_MS \<le> MAX_DRAFT_JSON_INTEGER
     \<and> (\<forall>fifo. ds_fifo s = Some fifo \<longrightarrow> (\<forall>st\<in>set (ff_seats fifo). fs_generation st < MAX_DRAFT_JSON_INTEGER))"

lemma reconcile_in_range:
  assumes "clocks_room now s"
  shows "in_range (reconcile_prompts s now)"
proof -
  have "in_range (issue_clock (kp_pick (cf_clock_policy (ds_config s))) steps now i)" for steps i
    using assms pick_duration_bounded[of "cf_clock_policy (ds_config s)" steps]
    by (fastforce simp: issue_clock_def clocks_room_def split: option.split intro!: in_range_and_then in_range_counters)
  then have "in_range (reconcile_seat (kp_pick (cf_clock_policy (ds_config s))) sid now (i, st))"
    if "fs_generation st < MAX_DRAFT_JSON_INTEGER" for sid i st
    using that by (auto simp: reconcile_seat_def Let_def in_range_counters split: list.split option.split intro!: in_range_and_then)
  with assms show ?thesis
    by (auto simp: reconcile_prompts_def clocks_room_def fifo_ref_def in_set_enumerate_eq outcome_simps
        intro!: in_range_and_then in_range_try_map)
qed

lemma open_seat_pack_room:
  assumes "clocks_room now s"
  shows "in_range (open_seat_pack rnd seat s) \<and> (\<forall>t. open_seat_pack rnd seat s = Ok t \<longrightarrow> clocks_room now t)"
proof
  show "in_range (open_seat_pack rnd seat s)"
    by (auto simp: open_seat_pack_def Let_def snapshot_error_def split: list.split option.split intro!: in_range_and_then)
  show "\<forall>t. open_seat_pack rnd seat s = Ok t \<longrightarrow> clocks_room now t"
    using assms by (fastforce simp: open_seat_pack_def clocks_room_def fifo_ref_def Let_def outcome_simps
        split: list.splits option.splits dest!: in_set_updateD)
qed

lemma open_round_in_range:
  assumes "clocks_room now s"
  shows "in_range (open_fifo_round s rnd now)"
proof -
  have start: "clocks_room now s1" if "update_fifo (\<lambda>f. f\<lparr>ff_review := None\<rparr>)
      (s\<lparr>ds_current_pack_number := rnd, ds_pass_direction := for_pack rnd, ds_status := Drafting\<rparr>) = Ok s1" for s1
    using that assms by (auto simp: update_fifo_def clocks_room_def outcome_simps fifo_ref_def)
  note fold = in_range_try_fold[where I = "clocks_room now" and f = "open_seat_pack rnd", OF _ open_seat_pack_room]
  show ?thesis
    unfolding open_fifo_round_def
    using start fold reconcile_in_range by (auto simp: update_fifo_def intro!: in_range_and_then)
qed

lemma finish_round_in_range:
  assumes "clocks_room now s" "ds_current_pack_number s < 255"
  shows "in_range (finish_fifo_round s now)"
proof -
  have room1: "clocks_room now s1" "ds_current_pack_number s1 = ds_current_pack_number s"
    if "ds_fifo s = Some fifo" "reconcile_prompts s now = Ok s1" "\<not> list_ex (\<lambda>seat. fs_queue seat \<noteq> []) (ff_seats fifo)" for fifo s1
  proof -
    from that(2) have "clocks_room now s1 \<and> ds_current_pack_number s1 = ds_current_pack_number s"
    proof (rule reconcile_prompts_Ok)
      fix fifo' seats
      assume s1: "ds_fifo s = Some fifo'" "s1 = s\<lparr>ds_fifo := Some (fifo'\<lparr>ff_seats := seats\<rparr>)\<rparr>" "length seats = length (ff_seats fifo')"
        "\<And>i. i < length seats \<Longrightarrow> reconcile_seat (kp_pick (cf_clock_policy (ds_config s))) (ff_session_id fifo') now
          (i, ff_seats fifo' ! i) = Ok (seats ! i)"
      have "fs_generation (seats ! i) = fs_generation (ff_seats fifo' ! i)" if "i < length seats" for i
      proof -
        have "fs_queue (ff_seats fifo' ! i) = []" using \<open>\<not> list_ex _ _\<close> \<open>ds_fifo s = Some fifo\<close> s1(1,3) that by (auto simp: list_ex_iff)
        with s1(4)[OF that] have "seats ! i = (ff_seats fifo' ! i)\<lparr>fs_prompt := None\<rparr>" by (simp add: reconcile_seat_def)
        then show ?thesis by simp
      qed
      then have "\<forall>st\<in>set seats. fs_generation st < MAX_DRAFT_JSON_INTEGER"
        using assms(1) s1(1,3) by (fastforce simp: clocks_room_def in_set_conv_nth)
      with assms(1) s1(2) show ?thesis by (simp add: clocks_room_def)
    qed
    then show "clocks_room now s1" "ds_current_pack_number s1 = ds_current_pack_number s" by simp_all
  qed
  have review: "in_range (running (TargetReview k) now (kp_review_duration_ms (cf_clock_policy (ds_config s1))))" if "clocks_room now s1" for k s1
    using that by (intro in_range_counters) (auto simp: clocks_room_def clock_policy_validate_def split: if_splits)
  show ?thesis
    unfolding finish_fifo_round_def Let_def
    using room1 review assms(2) reconcile_in_range[OF assms(1)] open_round_in_range
    by (auto simp: update_fifo_def fifo_ref_def checked_add_u8_def outcome_simps intro!: in_range_and_then)
qed

lemma remove_ids_in_range [simp]: "in_range (remove_ids ids pack)"
  by (induction ids pack rule: remove_ids.induct) (auto split: option.split intro!: in_range_and_then)

lemma pass_remainder_gens:
  "pass_remainder s seat head seats = Ok (passed, seats') \<Longrightarrow> st' \<in> set seats' \<Longrightarrow>
     \<exists>st\<in>set seats. fs_generation st' = fs_generation st"
  by (fastforce simp: pass_remainder_def Let_def outcome_simps split: if_splits dest!: in_set_updateD)

lemma settle_pack_gens:
  assumes "settle_pack s fifo seat st head picked burned effects = Ok (discarded, passed, fifo')"
  shows "ff_last_now_ms fifo' = ff_last_now_ms fifo"
    and "st' \<in> set (ff_seats fifo') \<Longrightarrow> \<exists>x\<in>set ((ff_seats fifo)[seat := st]). fs_generation st' = fs_generation x"
  using assms pass_remainder_gens by (fastforce simp: settle_pack_def Let_def outcome_simps)+

lemma settle_in_range:
  assumes "ds_fifo s = Some fifo" "counters_room s" "clock_policy_validate (cf_clock_policy (ds_config s)) = Ok ()"
    and "seat < length (ff_seats fifo)"
  shows "in_range (settle_selection s fifo seat picked burned effects)"
    and "settle_selection s fifo seat picked burned effects = Ok (discarded, passed, s1) \<Longrightarrow>
      \<exists>fifo1. ds_fifo s1 = Some fifo1 \<and> clocks_room (ff_last_now_ms fifo1) s1 \<and> ds_config s1 = ds_config s
        \<and> ds_current_pack_number s1 = ds_current_pack_number s"
proof -
  have st: "fs_generation (ff_seats fifo ! seat) < MAX_DRAFT_JSON_INTEGER" "fs_completed_steps (ff_seats fifo ! seat) < MAX_DRAFT_JSON_INTEGER"
    "fs_round_completed_steps (ff_seats fifo ! seat) < MAX_DRAFT_JSON_INTEGER"
    using assms(1,2,4) by (auto simp: counters_room_def list_all_length)
  have pass: "in_range (pass_remainder s seat h seats)" for h seats
    by (auto simp: pass_remainder_def Let_def intro!: in_range_and_then)
  then have "in_range (settle_pack s fifo seat x h picked burned effects)" for x h
    by (auto simp: settle_pack_def Let_def intro!: in_range_and_then)
  then show "in_range (settle_selection s fifo seat picked burned effects)"
    using st by (auto simp: settle_selection_def in_range_counters split: list.split intro!: in_range_and_then)
  assume "settle_selection s fifo seat picked burned effects = Ok (discarded, passed, s1)"
  then show "\<exists>fifo1. ds_fifo s1 = Some fifo1 \<and> clocks_room (ff_last_now_ms fifo1) s1 \<and> ds_config s1 = ds_config s
        \<and> ds_current_pack_number s1 = ds_current_pack_number s"
  proof (rule settle_selection_Ok)
    fix head queue selected_cards burned_cards returned pool' pack fifo'
    assume s: "settle_pack s fifo seat
       ((ff_seats fifo ! seat)\<lparr>fs_queue := queue, fs_completed_steps := fs_completed_steps (ff_seats fifo ! seat) + 1,
          fs_round_completed_steps := fs_round_completed_steps (ff_seats fifo ! seat) + 1, fs_prompt := None\<rparr>)
       (head\<lparr>qp_pack := pack\<rparr>) picked burned effects = Ok (discarded, passed, fifo')"
      and s1: "s1 = s\<lparr>ds_pools := (ds_pools s)[seat := pool' @ selected_cards], ds_fifo := Some fifo'\<rparr>"
    have "fs_generation st' < MAX_DRAFT_JSON_INTEGER" if "st' \<in> set (ff_seats fifo')" for st'
    proof -
      from settle_pack_gens(2)[OF s that] st(1) show ?thesis
        using assms(1,2) by (auto simp: counters_room_def list_all_iff dest!: in_set_updateD)
    qed
    then have "clocks_room (ff_last_now_ms fifo') s1"
      using assms(1,2,3) settle_pack_gens(1)[OF s] s1 by (simp add: clocks_room_def counters_room_def)
    with s1 show ?thesis by simp
  qed
qed

lemma checks_in_range [simp]:
  "in_range (check_prompt fifo seat head prompt prompt_id timing)"
  "in_range (selection_requirements s seat effects)"
  "in_range (check_role role ids expected effects' pack selected)"
proof -
  show "in_range (check_prompt fifo seat head prompt prompt_id timing)"
    by (auto simp: check_prompt_def prompt_deadline_def check_timing_def split: option.split draft_clock_state.split
        selection_timing.split intro!: in_range_and_then)
  have "in_range (check_effects s seat seen effects)" for seen
    by (induction s seat seen effects rule: check_effects.induct) auto
  then show "in_range (selection_requirements s seat effects)"
    by (auto simp: selection_requirements_def Let_def intro!: in_range_and_then)
  show "in_range (check_role role ids expected effects' pack selected)"
    using in_range_try_fold[where I = "\<lambda>_. True" and f = "check_selected role effects' pack" and xs = ids and s = selected]
    by (auto simp: check_role_def check_selected_def)
qed

lemma select_in_range:
  assumes "fifo_inv s" "counters_room s" "clock_policy_validate (cf_clock_policy (ds_config s)) = Ok ()"
  shows "in_range (select_fifo s seat prompt_id picked burned effects timing)"
proof (cases "ds_status s = Drafting \<and> seat < length (ds_seats s)")
  case False
  then show ?thesis by (auto simp: select_fifo_def)
next
  case True
  from assms(1) obtain fifo where inv: "fifo_table s fifo" "status_ok s fifo" by (auto simp: fifo_inv_def)
  have f: "ds_fifo s = Some fifo" "cf_flow (ds_config s) = FifoAsync" "seat < length (ff_seats fifo)"
    "ds_current_pack_number s < 255"
    using inv True by (auto simp: fifo_table_def status_ok_def drafting_ok_def)
  note settle = settle_in_range[OF f(1) assms(2,3) f(3)]
  have fin: "in_range (fst (finish_pick s1 seat picked))"
    if "settle_selection s fifo seat picked burned effects = Ok (discarded, passed, s1)" for discarded passed s1
  proof -
    from settle(2)[OF that] obtain fifo1 where s1: "ds_fifo s1 = Some fifo1" "clocks_room (ff_last_now_ms fifo1) s1"
      "ds_config s1 = ds_config s" "ds_current_pack_number s1 = ds_current_pack_number s" by blast
    have "in_range (finish_fifo_round s1 (ff_last_now_ms fifo1))"
      using finish_round_in_range[OF s1(2)] s1(4) f(4) by simp
    with s1 f(2) show ?thesis
      by (cases "finish_fifo_round s1 (ff_last_now_ms fifo1)") (auto simp: finish_pick_def fifo_ref_def)
  qed
  show ?thesis
    using True f(1,3) settle(1) fin
    by (auto simp: select_fifo_def fifo_ref_def split_beta intro!: in_range_and_then)
qed


section \<open>Consequences\<close>

lemma answered_not_selectable:
  assumes "answered prompt_id s"
  shows "\<not> is_ok (select_fifo s seat prompt_id picked burned effects timing)"
proof
  assume "is_ok (select_fifo s seat prompt_id picked burned effects timing)"
  then obtain deltas t where "select_fifo s seat prompt_id picked burned effects timing = Ok (deltas, t)"
    by (auto simp: is_ok_iff)
  then show False
  proof (rule select_fifo_Ok)
    fix fifo head prompt
    assume "ds_fifo s = Some fifo" "fs_prompt (ff_seats fifo ! seat) = Some prompt"
      "check_prompt fifo seat head prompt prompt_id timing = Ok ()"
    with assms check_prompt_Ok[of fifo seat head prompt prompt_id timing "()"] show False
      by (auto simp: answered_def)
  qed
qed

text \<open>
  C15. A FIFO draft is never stuck. While a well-formed draft with a validated clock policy is
  running, some seat has a pack, and for every seat that has one the automatic selection exists,
  names at least one card and is accepted: by the human path before the deadline of its prompt (or
  when it has none) and by the expiry path from then on. The only possible failure is
  \<open>InvalidClockBounds\<close>, and it is excluded as long as no counter of the draft has reached the end
  of the interoperable integer range and the last reading of the clock is a day short of it.
\<close>

theorem fifo_never_stuck:
  assumes "fifo_inv s" "ds_status s = Drafting" "ds_fifo s = Some fifo"
    and "clock_policy_validate (cf_clock_policy (ds_config s)) = Ok ()"
  shows "(\<exists>seat<length (ds_seats s). head_pack s seat \<noteq> None)
    \<and> (\<forall>seat<length (ds_seats s). head_pack s seat \<noteq> None \<longrightarrow>
        (\<exists>prompt_id picked burned. legal_auto_selection s seat = Some (Select seat prompt_id picked burned [])
           \<and> picked \<noteq> []
           \<and> (let answer = select_fifo s seat prompt_id picked burned []
                  (due_timing (ff_last_now_ms fifo) (ff_seats fifo ! seat))
              in (if counters_room s then is_ok answer else is_ok answer \<or> answer = Err InvalidClockBounds))))"
proof -
  from assms(1,3) have inv: "fifo_table s fifo" "status_ok s fifo" by (auto simp: fifo_inv_def fifo_table_def)
  have fifo: "length (ff_seats fifo) = length (ds_seats s)" "cf_flow (ds_config s) = FifoAsync"
    using inv(1) by (simp_all add: fifo_table_def)
  note settled = drafting_settled[OF inv assms(2)]
  have hp: "head_pack s seat = map_option qp_pack (nth_opt (fs_queue (ff_seats fifo ! seat)) 0)" if "seat < length (ds_seats s)" for seat
    using fifo assms(3) that by (simp add: head_pack_def head_metadata_def)
  from inv(2) assms(2) obtain st where "st \<in> set (ff_seats fifo)" "fs_queue st \<noteq> []" by (auto simp: status_ok_def drafting_ok_def)
  then obtain i where "i < length (ff_seats fifo)" "fs_queue (ff_seats fifo ! i) \<noteq> []" by (auto simp: in_set_conv_nth)
  then have "\<exists>seat<length (ds_seats s). head_pack s seat \<noteq> None" using hp fifo(1) by (intro exI[of _ i]) auto
  moreover have "\<exists>prompt_id picked burned. legal_auto_selection s seat = Some (Select seat prompt_id picked burned [])
           \<and> picked \<noteq> []
           \<and> (let answer = select_fifo s seat prompt_id picked burned []
                  (due_timing (ff_last_now_ms fifo) (ff_seats fifo ! seat))
              in (if counters_room s then is_ok answer else is_ok answer \<or> answer = Err InvalidClockBounds))"
    if seat: "seat < length (ds_seats s)" "head_pack s seat \<noteq> None" for seat
  proof -
    from seat hp obtain head queue where hq: "fs_queue (ff_seats fifo ! seat) = head # queue"
      by (cases "fs_queue (ff_seats fifo ! seat)") (auto simp: nth_opt_def)
    have mem: "ff_seats fifo ! seat \<in> set (ff_seats fifo)" using seat fifo(1) by simp
    with settled(2) hq obtain p where p: "fs_prompt (ff_seats fifo ! seat) = Some p" by (fastforce simp: prompt_matches_def)
    have run: "seat_running (ff_seats fifo ! seat)" using settled(1) mem by (simp add: settled_def all_running_iff)
    let ?answer = "select_fifo s seat (pm_id p) (auto_picks s (qp_pack head)) (auto_burns s (qp_pack head)) []
      (due_timing (ff_last_now_ms fifo) (ff_seats fifo ! seat))"
    have "and_then (prompt_deadline p) (check_timing (due_timing (ff_last_now_ms fifo) (ff_seats fifo ! seat))
        (ff_last_now_ms fifo) (pm_pack_id p)) = Ok ()"
      using run p by (auto simp: due_timing_def prompt_deadline_def check_timing_def seat_running_def split: option.splits draft_clock_state.splits)
    from auto_selection_tame[OF assms(1,3,2) seat(1) hq p this]
    have "is_ok ?answer \<or> ?answer = Err InvalidClockBounds" by (auto simp: fails_only_def split: outcome.splits)
    moreover have "?answer \<noteq> Err InvalidClockBounds" if "counters_room s"
      using select_in_range[OF assms(1) that assms(4)] by (simp add: in_range_def)
    moreover have "full_packs (ff_seats fifo ! seat)" using inv(1) mem by (simp add: fifo_table_def)
    then have "auto_picks s (qp_pack head) \<noteq> []"
      using hq procedure_bounds(1)[of "ds_kind s"] by (auto simp: full_packs_def auto_picks_def)
    ultimately show ?thesis using auto_selection_form[OF inv(1) assms(2) seat(1) hq p] by (auto simp: Let_def)
  qed
  ultimately show ?thesis by blast
qed

section \<open>A concrete well-formed draft\<close>

definition sample_draft_fifo :: fifo_draft_state where
  "sample_draft_fifo = sample_fifo_state\<lparr>ff_packs := fmap_of_list (map (\<lambda>i. (DraftPackId i,
     \<lparr>pp_pack_id = DraftPackId i, pp_opening_seat = i, pp_round = 0, pp_original_size = 2,
      pp_original_card_ids = []\<rparr>)) [0..<2])\<rparr>"

definition sample_draft :: draft_session where
  "sample_draft = sample_fifo\<lparr>ds_fifo := Some sample_draft_fifo\<rparr>"

lemma sample_draft_simps [simp]:
  "ds_fifo sample_draft = Some sample_draft_fifo" "ds_status sample_draft = Drafting"
  "cf_flow (ds_config sample_draft) = FifoAsync" "length (ds_seats sample_draft) = 2"
  "ds_current_pack_number sample_draft = 0" "cf_pack_count (ds_config sample_draft) = 1"
  "ff_seats sample_draft_fifo = [sample_seat_state 0 [sample_card ''a'', sample_card ''b''],
     sample_seat_state 1 [sample_card ''c'', sample_card ''d'']]"
  "ds_packs_by_seat sample_draft = [[], []]" "ds_pools sample_draft = [[], []]" "cf_pod_size (ds_config sample_draft) = 2"
  "ff_session_id sample_draft_fifo = ''S''" "ff_review sample_draft_fifo = None" "ff_paused sample_draft_fifo = None"
  "ff_removed sample_draft_fifo = []" "ff_last_now_ms sample_draft_fifo = 0"
  by (simp_all add: sample_draft_def sample_fifo_def sample_draft_fifo_def sample_fifo_state_def sample_session_def
      new_session_def sample_config_def sample_seats_def numeral_2_eq_2)

lemma sample_draft_inv: "fifo_inv sample_draft"
proof -
  have packs: "fmlookup (ff_packs sample_draft_fifo) (DraftPackId i) \<noteq> None" if "i < 2" for i
    using that by (auto simp: sample_draft_fifo_def fmlookup_of_list numeral_2_eq_2 less_Suc_eq)
  have tab: "fifo_table sample_draft sample_draft_fifo"
    using packs by (auto simp: fifo_table_def full_packs_def sample_seat_state_def)
  have all: "all_running sample_draft_fifo"
    by (auto simp: all_running_iff seat_running_def sample_seat_state_def sample_prompt_def Let_def)
  have dr: "drafting_ok sample_draft sample_draft_fifo"
    by (auto simp: drafting_ok_def unopened_def prompts_named_def prompt_names_seat_def less_Suc_eq numeral_2_eq_2
        sample_seat_state_def sample_prompt_def prompt_matches_def Let_def)
  have "fifo_ids sample_draft = {#''a'', ''b'', ''c'', ''d''#}"
    by (simp add: fifo_ids_def live_cards_def unopened_cards_def removed_ids_def queue_cards_def flatten_mset_def
        sample_seat_state_def sample_card_def)
  then have "\<forall>x. count (fifo_ids sample_draft) x \<le> 1" by auto
  with tab all dr show ?thesis by (auto simp: fifo_inv_def status_ok_def intro!: exI[of _ sample_draft_fifo])
qed

lemma sample_draft_head: "head_pack sample_draft 0 = Some [sample_card ''a'', sample_card ''b'']"
  by (simp add: head_pack_def head_metadata_def sample_seat_state_def)

theorem fifo_never_stuck_witness:
  "\<exists>prompt_id picked burned. legal_auto_selection sample_draft 0 = Some (Select 0 prompt_id picked burned [])
     \<and> picked \<noteq> [] \<and> is_ok (select_fifo sample_draft 0 prompt_id picked burned [] TimingHuman)"
proof -
  have room: "counters_room sample_draft"
    by (simp add: counters_room_def sample_seat_state_def MAX_DRAFT_JSON_INTEGER_def MAX_DRAFT_DURATION_MS_def)
  have policy: "clock_policy_validate (cf_clock_policy (ds_config sample_draft)) = Ok ()"
    by (simp add: sample_draft_def sample_fifo_def clock_policy_validate_def MAX_DRAFT_DURATION_MS_def)
  have "due_timing (ff_last_now_ms sample_draft_fifo) (ff_seats sample_draft_fifo ! 0) = TimingHuman"
    by (simp add: due_timing_def sample_seat_state_def sample_prompt_def Let_def)
  with fifo_never_stuck[OF sample_draft_inv _ _ policy, of sample_draft_fifo, THEN conjunct2, THEN spec, of 0]
    room sample_draft_head show ?thesis
    by (simp add: Let_def)
qed

text \<open>
  Selections are safe and single-use. On a well-formed draft a selection, whatever it names,
  never panics; when it is accepted, the draft is still well formed, holds the same cards, and no
  selection under the answered prompt id is accepted again.
\<close>

lemma selection_safe:
  assumes "fifo_inv s"
  shows "select_fifo s seat prompt_id picked burned effects timing \<noteq> Panic
    \<and> (\<forall>deltas t. select_fifo s seat prompt_id picked burned effects timing = Ok (deltas, t) \<longrightarrow>
        fifo_inv t \<and> fifo_ids t = fifo_ids s \<and> \<not> is_ok (select_fifo t seat' prompt_id picked' burned' effects' timing'))"
proof (intro conjI allI impI select_fifo_not_Panic[OF assms])
  fix deltas t assume sel: "select_fifo s seat prompt_id picked burned effects timing = Ok (deltas, t)"
  show "fifo_inv t" using select_fifo_inv[OF assms sel] by blast
  from assms have "cf_flow (ds_config s) = FifoAsync" by (auto simp: fifo_inv_def fifo_table_def)
  with select_fifo_content[OF sel] show "fifo_ids t = fifo_ids s" by simp
  show "\<not> is_ok (select_fifo t seat' prompt_id picked' burned' effects' timing')"
    by (rule answered_not_selectable[OF answered_select(1)[OF assms sel]])
qed

definition sample_pid :: draft_prompt_id where
  "sample_pid = \<lparr>pi_session_id = ''S'', pi_seat = 0, pi_generation = 1\<rparr>"

lemma sample_select: "is_ok (select_fifo sample_draft 0 sample_pid [''b''] [] [] TimingHuman)"
proof -
  have inc: "increment 0 = Ok 1" "increment 1 = Ok 2" by (simp_all add: increment_def checked_add_u64_def option_filter_def MAX_DRAFT_JSON_INTEGER_def)
  have head: "head_metadata sample_draft 0 = Some \<lparr>qp_pack_id = DraftPackId 0, qp_opening_seat = 0, qp_round = 0,
       qp_original_size = 2, qp_pack = [sample_card ''a'', sample_card ''b'']\<rparr>"
    by (simp add: head_metadata_def sample_seat_state_def)
  have policy: "sp_burns_per_pick (cf_selection_policy (ds_config sample_draft)) = 0"
    "sp_discard_threshold (cf_selection_policy (ds_config sample_draft)) = 0" "ds_kind sample_draft = Premier"
    "ds_pass_direction sample_draft = PassLeft" "cf_clock_policy (ds_config sample_draft) = \<lparr>kp_pick = ClockFixed 1000, kp_review_duration_ms = 0\<rparr>"
    by (simp_all add: sample_draft_def sample_fifo_def sample_defs default_selection_policy_def for_pack_def)
  have req: "selection_requirements sample_draft 0 [] = Ok \<lparr>rq_picks = 1, rq_burns = 0\<rparr>"
    using policy sample_draft_head by (simp add: selection_requirements_def required_pick_count_def premier_procedure_def)
  show ?thesis
    using inc head policy req
    by (simp add: select_fifo_def fifo_ref_def sample_seat_state_def sample_prompt_def sample_pid_def check_prompt_def
      prompt_deadline_def check_timing_def check_role_def check_selected_def sample_card_def settle_selection_def
      settle_pack_def pass_remainder_def Let_def remove_at_def split_beta finish_pick_def finish_fifo_round_def
      reconcile_prompts_def reconcile_seat_def)
qed

text \<open>
  Expiry. The clock sweep, run on a well-formed draft at its current time, can fail only by
  exhausting the integer range. Otherwise the draft stays well formed with the same cards, none
  of the prompts that had expired can be answered any more, no prompt answered before becomes
  answerable, and nothing is put back: the cards still to draft do not grow.
\<close>

lemma expiry_answers_prompts:
  assumes "fifo_inv s" "ds_fifo s = Some fifo" "now = ff_last_now_ms fifo"
  shows "(is_ok (advance s now) \<or> advance s now = Err InvalidClockBounds)
    \<and> (\<forall>deltas t. advance s now = Ok (deltas, t) \<longrightarrow>
        fifo_inv t \<and> fifo_ids t = fifo_ids s \<and> undrafted t \<le> undrafted s
        \<and> (\<forall>y. answered y s \<longrightarrow> answered y t)
        \<and> (ds_status s = Drafting \<longrightarrow> (\<forall>x\<in>set (expired_prompts now (ff_seats fifo)).
             \<not> is_ok (select_fifo t seat (fst x) picked burned effects timing))))"
proof -
  have tame: "is_ok r \<or> r = Err InvalidClockBounds" if "fails_only counters_exhausted r" for r :: fifo_step
    using that by (cases r) auto
  consider (drafting) "ds_status s = Drafting" | (review) "ds_status s = Review"
    | (other) "advance s now = Ok ([], s)" "ds_status s \<noteq> Drafting"
    by (cases "ds_status s") (auto simp: advance_def)
  then show ?thesis
  proof cases
    case drafting
    show ?thesis using tame[OF advance_drafting(1)[OF assms(1,2) drafting assms(3)]] advance_drafting(2)[OF assms(1,2) drafting assms(3)]
        answered_not_selectable unfolding expiring_def by fastforce
  next
    case review
    show ?thesis using tame[OF advance_review(1)[OF assms(1,2) review]] advance_review(2)[OF assms(1,2) review]
        same_table_content review by fastforce
  next
    case other
    with assms(1) show ?thesis by simp
  qed
qed

text \<open>
  A selection moves exactly what it names. An accepted selection takes the named picks, in
  order, from the head pack to the end of the seat's pool, returns the named draft-effect cards
  from the pool, and touches no other pool; the picks number one pick step plus one for each
  effect card (or the whole pack, when it is smaller than a step), and the burns number what the
  policy asks, as far as the pack reaches. No card is lost or duplicated: the ids in pools,
  queues, unopened packs and the removal record are the same before and after. The cards still
  to draft shrink by at least one pick step, or by the whole pack.
\<close>

lemma selection_moves_named_cards:
  assumes "select_fifo s seat prompt_id picked burned effects timing = Ok (deltas, t)"
    and "cf_flow (ds_config s) = FifoAsync" "head_pack s seat = Some pack"
  shows "(\<exists>selected returned pool'. map ci_instance_id selected = picked \<and> map ci_instance_id returned = effects
        \<and> mset (ds_pools s ! seat) = mset pool' + mset returned
        \<and> ds_pools t = (ds_pools s)[seat := pool' @ selected])
     \<and> length picked = (if effects = [] then min (pr_cards_per_pick (procedure (ds_kind s))) (length pack)
          else pr_cards_per_pick (procedure (ds_kind s)) + length effects)
     \<and> length burned = min (sp_burns_per_pick (cf_selection_policy (ds_config s))) (length pack - length picked)
     \<and> fifo_ids t = fifo_ids s
     \<and> undrafted t + min (pr_cards_per_pick (procedure (ds_kind s))) (length pack) \<le> undrafted s"
  using assms(1)
proof (rule select_fifo_Ok)
  fix fifo head requirements selected u discarded passed s1 more
  assume *: "ds_fifo s = Some fifo" "selection_requirements s seat effects = Ok requirements"
    "check_role RolePick picked (rq_picks requirements) effects (qp_pack head) [] = Ok selected"
    "check_role RoleBurn burned (rq_burns requirements) effects (qp_pack head) selected = Ok u"
    "settle_selection s fifo seat picked burned effects = Ok (discarded, passed, s1)"
    "finish_pick s1 seat picked = (Ok more, t)"
  note counts = check_role_Ok[OF *(3)] check_role_Ok[OF *(4)]
  note req = selection_requirements_Ok[OF *(2) assms(3)]
  note content = select_fifo_content[OF assms(1,2)]
  from settle_selection_pools[OF *(5)] assms(2) have "cf_flow (ds_config s1) = FifoAsync" by auto
  from finish_pick_fifo_Ok[OF *(6) this] have "ds_pools t = ds_pools s1" by (simp add: same_table_def)
  moreover have "rq_picks requirements = (if effects = [] then min (pr_cards_per_pick (procedure (ds_kind s))) (length pack)
      else pr_cards_per_pick (procedure (ds_kind s)) + length effects)"
    using *(2) assms(3) by (auto simp: selection_requirements_def outcome_simps required_pick_count_def Let_def
        draft_effect_step_size_def split: if_splits)
  moreover have "undrafted t + min (pr_cards_per_pick (procedure (ds_kind s))) (length pack) \<le> undrafted s"
    using content counts(1) req(1) by linarith
  ultimately show ?thesis using settle_selection_pools[OF *(5)] counts req(4) content by metis
qed

end
