(* ===== verification/Pack_Sources.thy ===== *)
theory Pack_Sources
  imports Draft_Session
begin

text \<open>
  The pack sources of \<open>crates/draft-core/src/pack_source.rs\<close> and \<open>cube.rs\<close>. The trait
  \<open>PackSource\<close> is a record of its two methods; the fixture source and the cube source are
  instances of it, and the random generator with its \<open>shuffle\<close> is a parameter. The lemmas show
  that both deal a full matrix of packs whose cards all have different ids, and that the cube
  source deals cards of the cube and refuses a cube that is too small.
\<close>

record 'r pack_source =
  ps_booster_pack_pool :: "string list option"
  ps_generate_packs :: "'r \<Rightarrow> draft_config \<Rightarrow> nat \<Rightarrow> draft_pack list list draft_result \<times> 'r"

section \<open>The default method and the fixture source\<close>

type_synonym 'r pack_opener = "'r \<Rightarrow> nat \<Rightarrow> nat \<Rightarrow> draft_pack draft_result \<times> 'r"

definition generate_seat_packs ::
  "'r pack_opener \<Rightarrow> nat \<Rightarrow> nat list \<Rightarrow> 'r \<Rightarrow> draft_pack list draft_result \<times> 'r" where
  "generate_seat_packs generate_pack seat pack_nums rng =
     draw_map (\<lambda>pack_num rng. generate_pack rng seat pack_num) pack_nums rng"

definition generate_all_packs ::
  "'r pack_opener \<Rightarrow> nat \<Rightarrow> nat list \<Rightarrow> 'r \<Rightarrow> draft_pack list list draft_result \<times> 'r" where
  "generate_all_packs generate_pack pack_count seats rng =
     draw_map (\<lambda>seat rng. generate_seat_packs generate_pack seat [0..<pack_count] rng) seats rng"

definition default_generate_packs ::
  "'r pack_opener \<Rightarrow> 'r \<Rightarrow> draft_config \<Rightarrow> nat \<Rightarrow> draft_pack list list draft_result \<times> 'r" where
  "default_generate_packs generate_pack rng config seat_count =
     generate_all_packs generate_pack (cf_pack_count config) [0..<seat_count] rng"

definition fixture_card :: "string \<Rightarrow> nat \<Rightarrow> nat \<Rightarrow> nat \<Rightarrow> draft_card_instance" where
  "fixture_card set_code seat pack_number i = \<lparr>
     ci_instance_id = set_code @ ''-'' @ show_nat seat @ ''-'' @ show_nat pack_number @ ''-'' @ show_nat i,
     ci_name = set_code @ '' Card '' @ show_nat seat @ ''-'' @ show_nat pack_number @ ''-'' @ show_nat i,
     ci_set_code = set_code, ci_collector_number = show_nat (i + 1),
     ci_rarity = (if i = 0 then ''rare'' else if i < 4 then ''uncommon'' else ''common''),
     ci_colors = [], ci_cmc = 0, ci_type_line = [], ci_draft_effect = None\<rparr>"

definition fixture_generate_pack :: "string \<Rightarrow> nat \<Rightarrow> 'r pack_opener" where
  "fixture_generate_pack set_code cards_per_pack rng seat pack_number =
     (Ok (map (fixture_card set_code seat pack_number) [0..<cards_per_pack]), rng)"

definition fixture_pack_source :: "string \<Rightarrow> nat \<Rightarrow> 'r pack_source" where
  "fixture_pack_source set_code cards_per_pack = \<lparr>ps_booster_pack_pool = None,
     ps_generate_packs = default_generate_packs (fixture_generate_pack set_code cards_per_pack)\<rparr>"

section \<open>The cube source\<close>

definition cube_card :: "nat \<Rightarrow> nat \<Rightarrow> draft_card_instance list \<Rightarrow> nat \<Rightarrow> nat \<Rightarrow> draft_card_instance" where
  "cube_card seat pack_number cards cursor card_index =
     (cards ! cursor)\<lparr>ci_instance_id := ''cube-'' @ show_nat seat @ ''-'' @ show_nat pack_number @ ''-'' @ show_nat card_index,
       ci_collector_number := show_nat (cursor + 1)\<rparr>"

definition cube_pack :: "draft_card_instance list \<Rightarrow> nat \<Rightarrow> nat \<Rightarrow> nat \<Rightarrow> nat \<Rightarrow> draft_pack" where
  "cube_pack cards cards_per_pack cursor seat pack_number =
     map (\<lambda>i. cube_card seat pack_number cards (cursor + i) i) [0..<cards_per_pack]"

definition deal_cube_pack ::
  "draft_card_instance list \<Rightarrow> nat \<Rightarrow> draft_pack list list \<times> nat \<Rightarrow> nat \<times> nat \<Rightarrow> draft_pack list list \<times> nat" where
  "deal_cube_pack cards cards_per_pack acc coordinate =
     (case (acc, coordinate) of ((packs, cursor), (pack_number, seat)) \<Rightarrow>
        (packs[seat := packs ! seat @ [cube_pack cards cards_per_pack cursor seat pack_number]], cursor + cards_per_pack))"

definition cube_generate_packs ::
  "('r \<Rightarrow> draft_card_instance list \<Rightarrow> draft_card_instance list \<times> 'r) \<Rightarrow> draft_card_instance list
   \<Rightarrow> 'r \<Rightarrow> draft_config \<Rightarrow> nat \<Rightarrow> draft_pack list list draft_result \<times> 'r" where
  "cube_generate_packs shuffle cards rng config seat_count =
     (let required = seat_count * cf_pack_count config * cf_cards_per_pack config in
      if length cards < required then (Err (InsufficientCards (length cards) required), rng)
      else case shuffle rng cards of (shuffled, rng') \<Rightarrow>
        (Ok (fst (foldl (deal_cube_pack shuffled (cf_cards_per_pack config)) (replicate seat_count [], 0)
           (List.product [0..<cf_pack_count config] [0..<seat_count]))), rng'))"

definition cube_pack_source ::
  "('r \<Rightarrow> draft_card_instance list \<Rightarrow> draft_card_instance list \<times> 'r) \<Rightarrow> draft_card_instance list \<Rightarrow> 'r pack_source" where
  "cube_pack_source shuffle cards = \<lparr>ps_booster_pack_pool = Some (map ci_name cards),
     ps_generate_packs = cube_generate_packs shuffle cards\<rparr>"

section \<open>What the sources deal\<close>

definition pack_matrix :: "nat \<Rightarrow> nat \<Rightarrow> nat \<Rightarrow> (nat \<Rightarrow> nat \<Rightarrow> nat \<Rightarrow> draft_card_instance) \<Rightarrow> draft_pack list list" where
  "pack_matrix n q k f = map (\<lambda>i. map (\<lambda>p. map (f i p) [0..<k]) [0..<q]) [0..<n]"

lemma pack_matrix_dims:
  "length (pack_matrix n q k f) = n"
  "row \<in> set (pack_matrix n q k f) \<Longrightarrow> length row = q"
  "row \<in> set (pack_matrix n q k f) \<Longrightarrow> pack \<in> set row \<Longrightarrow> length pack = k"
  by (auto simp: pack_matrix_def)

lemma pack_matrix_concat:
  "concat (concat (pack_matrix n q k f))
     = map (\<lambda>(i, p, j). f i p j) (List.product [0..<n] (List.product [0..<q] [0..<k]))"
proof -
  have "concat (concat xss) = concat (map concat xss)" for xss :: "draft_pack list list"
    by (induction xss) auto
  then show ?thesis by (simp add: pack_matrix_def product_concat_map map_concat o_def)
qed

lemma pack_matrix_distinct:
  assumes "\<And>i p j i' p' j'. ci_instance_id (f i p j) = ci_instance_id (f i' p' j') \<Longrightarrow> i = i' \<and> p = p' \<and> j = j'"
  shows "distinct (map ci_instance_id (concat (concat (pack_matrix n q k f))))"
  unfolding pack_matrix_concat map_map
  by (subst distinct_map) (auto simp: distinct_product inj_on_def dest: assms)

lemma fixture_seat:
  "generate_seat_packs (fixture_generate_pack set_code k) seat ps rng
     = (Ok (map (\<lambda>p. map (fixture_card set_code seat p) [0..<k]) ps), rng)"
  unfolding generate_seat_packs_def by (induction ps arbitrary: rng) (simp_all add: fixture_generate_pack_def)

lemma fixture_matrix:
  "generate_all_packs (fixture_generate_pack set_code k) q seats rng
     = (Ok (map (\<lambda>i. map (\<lambda>p. map (fixture_card set_code i p) [0..<k]) [0..<q]) seats), rng)"
  unfolding generate_all_packs_def by (induction seats arbitrary: rng) (simp_all add: fixture_seat)

lemma deal_cube_pack_simps [simp]:
  "deal_cube_pack cards k (packs, c) (p, i) = (packs[i := packs ! i @ [cube_pack cards k c i p]], c + k)"
  by (simp add: deal_cube_pack_def)

lemma deal_cube_row:
  assumes "length packs = n" "m \<le> n"
  shows "foldl (deal_cube_pack cards k) (packs, c) (map (Pair p) [0..<m])
    = (map (\<lambda>i. packs ! i @ (if i < m then [cube_pack cards k (c + i * k) i p] else [])) [0..<n], c + m * k)"
  using assms(2)
proof (induction m)
  case 0
  show ?case using assms(1) map_nth[of packs] by simp
next
  case (Suc m)
  let ?row = "\<lambda>m. map (\<lambda>i. packs ! i @ (if i < m then [cube_pack cards k (c + i * k) i p] else [])) [0..<n]"
  have "(?row m)[m := ?row m ! m @ [cube_pack cards k (c + m * k) m p]] = ?row (Suc m)"
    using Suc.prems by (intro nth_equalityI) (auto simp: nth_list_update less_Suc_eq)
  with Suc show ?case by simp
qed

lemma deal_cube_all:
  "foldl (deal_cube_pack cards k) (replicate n [], 0) (List.product [0..<q] [0..<n])
    = (pack_matrix n q k (\<lambda>i p j. cube_card i p cards ((p * n + i) * k + j) j), q * n * k)"
proof (induction q)
  case 0
  then show ?case by (auto simp: pack_matrix_def intro: nth_equalityI)
next
  case (Suc q)
  have "List.product [0..<Suc q] [0..<n] = List.product [0..<q] [0..<n] @ map (Pair q) [0..<n]"
    by (simp add: product_concat_map)
  with Suc deal_cube_row[of "pack_matrix n q k (\<lambda>i p j. cube_card i p cards ((p * n + i) * k + j) j)" n n cards k "q * n * k" q]
  show ?case by (simp add: pack_matrix_dims) (simp add: pack_matrix_def cube_pack_def algebra_simps)
qed

lemma deal_cube_names:
  assumes "foldl (deal_cube_pack cards k) (packs, c) xs = (packs', c')" "c' \<le> length cards"
    "\<forall>x\<in>set xs. snd x < length packs"
  shows "mset (map ci_name (concat (concat packs'))) + mset (map ci_name (take c cards))
     = mset (map ci_name (concat (concat packs))) + mset (map ci_name (take c' cards))"
  using assms
proof (induction xs arbitrary: packs c)
  case (Cons x xs)
  obtain p i where x: "x = (p, i)" by (cases x)
  let ?pack = "cube_pack cards k c i p"
  let ?packs = "packs[i := packs ! i @ [?pack]]"
  have fold: "foldl (deal_cube_pack cards k) (?packs, c + k) xs = (packs', c')"
    using Cons.prems(1) x by simp
  have mono: "b \<le> snd (foldl (deal_cube_pack cards k) (a, b) ys)" for a b ys
  proof (induction ys arbitrary: a b)
    case (Cons y ys)
    show ?case using Cons[of "b + k"] by (cases y) (auto intro: add_leD1)
  qed simp
  from mono[of "c + k" ?packs xs] fold have ck: "c + k \<le> c'" by simp
  from Cons.IH[OF fold Cons.prems(2)] Cons.prems(3) have
    "mset (map ci_name (concat (concat packs'))) + mset (map ci_name (take (c + k) cards))
      = mset (map ci_name (concat (concat ?packs))) + mset (map ci_name (take c' cards))" by simp
  moreover have "map ci_name (take (c + k) cards) = map ci_name (take c cards) @ map ci_name ?pack"
    using ck Cons.prems(2) by (intro nth_equalityI) (auto simp: cube_pack_def cube_card_def nth_append)
  moreover have "mset (map ci_name (concat (concat ?packs))) = mset (map ci_name (concat (concat packs))) + mset (map ci_name ?pack)"
  proof -
    have "i < length packs" using Cons.prems(3) x by simp
    from id_take_nth_drop[OF this] obtain l r where "packs = l @ packs ! i # r" "length l = i"
      using \<open>i < length packs\<close> by auto
    then obtain row where "packs = l @ row # r" "length l = i" by blast
    then show ?thesis by (simp add: nth_append list_update_append ac_simps)
  qed
  ultimately show ?case by (simp add: ac_simps)
qed simp

text \<open>
  The cube source deals a full matrix: one row of \<open>pack_count\<close> packs for each seat, every pack
  with \<open>cards_per_pack\<close> cards, all with different instance ids; by name they are cards of the cube,
  none used more often than the cube holds it. A cube with too few cards is refused.
\<close>

lemma cube_deals_matrix:
  assumes "permutes shuffle" "cube_generate_packs shuffle cards rng config n = (result, rng')"
  shows "if length cards < n * cf_pack_count config * cf_cards_per_pack config
     then result = Err (InsufficientCards (length cards) (n * cf_pack_count config * cf_cards_per_pack config))
     else \<exists>packs. result = Ok packs \<and> length packs = n
       \<and> (\<forall>row\<in>set packs. length row = cf_pack_count config \<and> (\<forall>pack\<in>set row. length pack = cf_cards_per_pack config))
       \<and> distinct (map ci_instance_id (concat (concat packs)))
       \<and> mset (map ci_name (concat (concat packs))) \<subseteq># mset (map ci_name cards)"
proof (cases "length cards < n * cf_pack_count config * cf_cards_per_pack config")
  case True
  with assms(2) show ?thesis by (auto simp: cube_generate_packs_def)
next
  case False
  let ?q = "cf_pack_count config" and ?k = "cf_cards_per_pack config"
  obtain shuffled where sh: "shuffle rng cards = (shuffled, rng')"
    using assms(2) False by (cases "shuffle rng cards") (auto simp: cube_generate_packs_def)
  have m: "mset shuffled = mset cards" using assms(1) sh by (metis fst_conv permutes_def)
  let ?m = "pack_matrix n ?q ?k (\<lambda>i p j. cube_card i p shuffled ((p * n + i) * ?k + j) j)"
  have result: "result = Ok ?m" using assms(2) False sh by (simp add: cube_generate_packs_def deal_cube_all)
  have dist: "distinct (map ci_instance_id (concat (concat ?m)))"
    by (rule pack_matrix_distinct) (simp add: cube_card_def show_nat_dash show_nat_inject)
  have empty: "concat (concat (replicate n ([] :: draft_pack list))) = []" by (induction n) auto
  have "mset (map ci_name (concat (concat ?m))) = mset (map ci_name (take (?q * n * ?k) shuffled))"
    using deal_cube_names[OF deal_cube_all[of shuffled ?k n ?q]] False mset_eq_length[OF m] empty
    by (simp add: mult.commute[of n])
  also have "\<dots> \<subseteq># mset (map ci_name shuffled)"
    by (metis append_take_drop_id map_append mset_append mset_subset_eq_add_left)
  finally have "mset (map ci_name (concat (concat ?m))) \<subseteq># mset (map ci_name cards)" using m by simp
  with False result dist show ?thesis by (auto simp: pack_matrix_dims)
qed

end
