(* ===== verification/Draft_Start.thy ===== *)
theory Draft_Start
  imports Shared_Stack Fifo_Progress Pack_Sources "HOL-Library.Code_Target_Nat"
begin

text \<open>
  Starting a draft, from \<open>crates/draft-core/src/session.rs\<close>: \<open>generate_start_packs\<close>,
  \<open>apply_start_draft\<close> with its three distributions, \<open>validate_fifo_config\<close>, \<open>new_fifo\<close> and
  \<open>start_fifo\<close>. The generator, its shuffle and its bounded draw are parameters, and so is the
  \<open>PackSource\<close>. The lemmas show that a start establishes the invariant of the distribution it
  starts: the pick-and-pass and shared-stack ones for any source that deals a full matrix of
  packs, the FIFO one for every source, because \<open>start_fifo\<close> checks what the source dealt.
\<close>

section \<open>Legacy start\<close>

definition map_err :: "('e \<Rightarrow> 'f) \<Rightarrow> ('e, 'a) outcome \<Rightarrow> ('f, 'a) outcome" where
  "map_err f r = (case r of Ok a \<Rightarrow> Ok a | Err e \<Rightarrow> Err (f e) | Panic \<Rightarrow> Panic)"

definition validate_layout :: "draft_source \<Rightarrow> nat \<Rightarrow> nat \<Rightarrow> unit draft_result" where
  "validate_layout source seat_count pack_count =
     (case source of
        SetSource layout \<Rightarrow> map_err InvalidPackSequence (validate_for_draft layout seat_count pack_count)
      | Cube _ _ \<Rightarrow> Ok ())"

definition start_distribution_checks :: "draft_session \<Rightarrow> unit draft_result" where
  "start_distribution_checks s =
     (let p = procedure (ds_kind s) in
      case pr_distribution p of
        AllAtOnce \<Rightarrow> admit_all_at_once (ds_kind s) (ds_config s) (Some (ds_set_code s)) AdmitConfiguration
      | SharedStackPiles n_piles \<Rightarrow>
          and_then (piles_needed n_piles) (\<lambda>_.
            if cf_pack_count (ds_config s) \<noteq> pr_packs_per_player p
               \<or> cf_min_deck_size (ds_config s) \<noteq> pr_min_deck_size p
            then Err (InvalidSharedStackConfiguration
              (''shared-stack drafts require '' @ show_nat (pr_packs_per_player p) @ '' packs per seat and a ''
               @ show_nat (pr_min_deck_size p) @ ''-card minimum deck''))
            else Ok ())
      | PickAndPass \<Rightarrow> Ok ())"

definition start_checks :: "draft_session \<Rightarrow> unit draft_result" where
  "start_checks s =
     (if ds_status s \<noteq> Lobby then Err (InvalidTransition (ds_status s) ''StartDraft'')
      else let seat_count = as_u8 (length (ds_seats s)); p = procedure (ds_kind s) in
        and_then (validate_layout (cf_source (ds_config s)) seat_count (cf_pack_count (ds_config s))) (\<lambda>_.
        and_then (validate_source p (cf_source (ds_config s))) (\<lambda>_.
        and_then (admit_pod_size (ds_kind s) (cf_source (ds_config s)) (cf_tournament_format (ds_config s)) seat_count
                    AdmitConfiguration) (\<lambda>_.
          if pr_distribution p \<noteq> pr_distribution (procedure (cf_kind (ds_config s)))
          then Err (InvalidSealedConfiguration ''session kind does not match configuration'')
          else start_distribution_checks s))))"

definition generate_start_packs ::
  "'r pack_source \<Rightarrow> 'r \<Rightarrow> nat \<Rightarrow> draft_session \<Rightarrow> draft_pack list list draft_result \<times> 'r \<times> draft_session" where
  "generate_start_packs source rng seat_count s =
     (case ps_generate_packs source rng (ds_config s) seat_count of
        (Ok packs, rng') \<Rightarrow> (Ok packs, rng', s\<lparr>ds_booster_pack_pool := ps_booster_pack_pool source\<rparr>)
      | (r, rng') \<Rightarrow> (r, rng', s))"

definition recorded_pack_sizes :: "draft_pack list list \<Rightarrow> nat list" where
  "recorded_pack_sizes all_packs =
     (case all_packs of [] \<Rightarrow> [] | packs # _ \<Rightarrow> map (\<lambda>pack. min (length pack) 255) packs)"

definition wrong_dimensions :: "draft_session \<Rightarrow> draft_pack list list \<Rightarrow> bool" where
  "wrong_dimensions s all_packs \<longleftrightarrow> length all_packs \<noteq> length (ds_seats s)
     \<or> list_ex (\<lambda>packs. length packs \<noteq> pr_packs_per_player (procedure (ds_kind s))) all_packs"

definition start_all_at_once :: "draft_session \<Rightarrow> draft_pack list list \<Rightarrow> session_step" where
  "start_all_at_once s all_packs =
     (if wrong_dimensions s all_packs
      then (Err (InvalidSealedConfiguration ''pack source did not generate six packs per seat''), s)
      else (Ok [DraftStarted, TransitionedTo Deckbuilding],
            s\<lparr>ds_pools := map concat all_packs, ds_current_pack := map (\<lambda>_. None) (ds_current_pack s),
              ds_current_pack_origins := map (\<lambda>_. None) (ds_current_pack_origins s),
              ds_packs_by_seat := map (\<lambda>_. []) (ds_packs_by_seat s), ds_status := Deckbuilding\<rparr>))"

fun deal_piles :: "nat \<Rightarrow> draft_card_instance list \<Rightarrow> (draft_card_instance list list \<times> draft_card_instance list) draft_result" where
  "deal_piles 0 stack = Ok ([], stack)"
| "deal_piles (Suc n) stack =
     (if stack = [] then Panic
      else and_then (deal_piles n (butlast stack)) (\<lambda>(piles, rest). Ok ([last stack] # piles, rest)))"

definition start_shared_stack ::
  "('r \<Rightarrow> draft_card_instance list \<Rightarrow> draft_card_instance list \<times> 'r) \<Rightarrow> ('r \<Rightarrow> nat \<Rightarrow> nat \<times> 'r)
   \<Rightarrow> nat \<Rightarrow> 'r \<Rightarrow> draft_session \<Rightarrow> draft_pack list list \<Rightarrow> session_step" where
  "start_shared_stack shuffle random_range n_piles rng s all_packs =
     (if wrong_dimensions s all_packs
      then (Err (InvalidSharedStackConfiguration (''pack source did not generate ''
              @ show_nat (pr_packs_per_player (procedure (ds_kind s))) @ '' packs per seat'')), s)
      else let main_stack = concat (map concat all_packs) in
        case piles_needed n_piles of
          Err e \<Rightarrow> (Err e, s) | Panic \<Rightarrow> (Panic, s)
        | Ok needed \<Rightarrow>
            if length main_stack < needed then (Err (InsufficientCards (length main_stack) needed), s)
            else case shuffle rng main_stack of (stack, rng1) \<Rightarrow>
              let seat_count = as_u8 (length (ds_seats s)); starting_seat = fst (random_range rng1 seat_count) in
              (case deal_piles needed stack of
                 Err e \<Rightarrow> (Err e, s) | Panic \<Rightarrow> (Panic, s)
               | Ok (piles, rest) \<Rightarrow>
                   (Ok [DraftStarted],
                    s\<lparr>ds_shared_stack := Some \<lparr>ss_main_stack = rest, ss_piles = piles,
                         ss_starting_seat = starting_seat, ss_active_seat = starting_seat, ss_cursor = 0,
                         ss_inspected = (replicate needed 0)[0 := length (piles ! 0)], ss_decisions = 0,
                         ss_history = [], ss_forced_draws = replicate seat_count None\<rparr>,
                      ds_status := Drafting\<rparr>)))"

definition deal_seat :: "nat \<times> draft_pack list \<Rightarrow> draft_session \<Rightarrow> draft_session draft_result" where
  "deal_seat entry s =
     (case entry of (seat, seat_packs) \<Rightarrow>
        (case seat_packs of
           [] \<Rightarrow> Panic
         | pack # rest \<Rightarrow>
             if seat < length (ds_current_pack s) \<and> seat < length (ds_current_pack_origins s)
                \<and> seat < length (ds_packs_by_seat s)
             then Ok (s\<lparr>ds_current_pack := (ds_current_pack s)[seat := Some pack],
                        ds_current_pack_origins := (ds_current_pack_origins s)[seat := Some (as_u8 seat)],
                        ds_packs_by_seat := (ds_packs_by_seat s)[seat := rest]\<rparr>)
             else Panic))"

definition start_pick_and_pass :: "draft_session \<Rightarrow> draft_pack list list \<Rightarrow> session_step" where
  "start_pick_and_pass s all_packs =
     (let pod_size = as_u8 (length (ds_seats s));
          s1 = s\<lparr>ds_current_pack_origins := resize pod_size None (ds_current_pack_origins s)\<rparr>
      in case try_fold deal_seat (List.enumerate 0 all_packs) s1 of
           Err e \<Rightarrow> (Err e, s1) | Panic \<Rightarrow> (Panic, s1)
         | Ok s2 \<Rightarrow> (Ok [DraftStarted],
             s2\<lparr>ds_status := Drafting, ds_pass_direction := for_pack 0, ds_current_pack_number := 0,
                ds_pick_number := 0, ds_seats_picked_this_round := flags_all_false pod_size\<rparr>))"

definition apply_start_draft ::
  "(nat \<Rightarrow> 'r) \<Rightarrow> ('r \<Rightarrow> draft_card_instance list \<Rightarrow> draft_card_instance list \<times> 'r) \<Rightarrow> ('r \<Rightarrow> nat \<Rightarrow> nat \<times> 'r)
   \<Rightarrow> 'r pack_source option \<Rightarrow> draft_session \<Rightarrow> session_step" where
  "apply_start_draft seed_from shuffle random_range pack_source s =
     (case start_checks s of
        Err e \<Rightarrow> (Err e, s) | Panic \<Rightarrow> (Panic, s)
      | Ok _ \<Rightarrow>
          (case pack_source of
             None \<Rightarrow> (Panic, s)
           | Some source \<Rightarrow>
               (case generate_start_packs source (seed_from (cf_rng_seed (ds_config s))) (as_u8 (length (ds_seats s))) s of
                  (Err e, rng, s1) \<Rightarrow> (Err e, s1) | (Panic, rng, s1) \<Rightarrow> (Panic, s1)
                | (Ok all_packs, rng, s1) \<Rightarrow>
                    let s2 = s1\<lparr>ds_pack_sizes := recorded_pack_sizes all_packs\<rparr> in
                    (case pr_distribution (procedure (ds_kind s2)) of
                       AllAtOnce \<Rightarrow> start_all_at_once s2 all_packs
                     | SharedStackPiles n_piles \<Rightarrow> start_shared_stack shuffle random_range n_piles rng s2 all_packs
                     | PickAndPass \<Rightarrow> start_pick_and_pass s2 all_packs))))"

section \<open>FIFO configuration and start\<close>

definition SHARED_STACK_HAS_NO_FIFO :: string where
  "SHARED_STACK_HAS_NO_FIFO = ''a shared-stack distribution never runs the FIFO flow''"

definition validate_fifo_config :: "draft_config \<Rightarrow> nat \<Rightarrow> admission_context \<Rightarrow> unit draft_result" where
  "validate_fifo_config config seat_count context =
     (case try_u8 seat_count of
        None \<Rightarrow> Err (InvalidConfiguration ''seat count exceeds u8'')
      | Some seats \<Rightarrow>
          if seats = 0 \<or> seats \<noteq> cf_pod_size config then Err (InvalidConfiguration ''pod size mismatch'')
          else and_then (admit_pod_size (cf_kind config) (cf_source config) (cf_tournament_format config) seats context) (\<lambda>_.
            if cf_pack_count config = 0 \<or> MAX_PACK_COUNT < cf_pack_count config \<or> cf_cards_per_pack config = 0
            then Err (InvalidConfiguration ''invalid pack dimensions'')
            else if source_set_code (cf_source config) \<noteq> cf_set_code config
            then Err (InvalidConfiguration ''source code mismatch'')
            else and_then (validate_layout (cf_source config) seats (cf_pack_count config)) (\<lambda>_.
              and_then (clock_policy_validate (cf_clock_policy config)) (\<lambda>_.
                case pr_distribution (procedure (cf_kind config)) of
                  PickAndPass \<Rightarrow> Ok ()
                | AllAtOnce \<Rightarrow>
                    and_then (admit_all_at_once (cf_kind config) config None context) (\<lambda>_.
                      if \<not> selection_policy_is_default (cf_selection_policy config)
                         \<or> kp_review_duration_ms (cf_clock_policy config) \<noteq> 0
                      then Err (InvalidConfiguration ''AllAtOnce policy'') else Ok ())
                | SharedStackPiles _ \<Rightarrow> Err (InvalidConfiguration SHARED_STACK_HAS_NO_FIFO)))))"

definition default_fifo_seat :: fifo_seat_state where
  "default_fifo_seat = \<lparr>fs_queue = [], fs_generation = 0, fs_prompt = None, fs_completed_steps = 0,
     fs_round_completed_steps = 0\<rparr>"

definition register_card ::
  "draft_pack_id \<Rightarrow> draft_card_instance \<Rightarrow> (string, draft_card_provenance) fmap
   \<Rightarrow> (string, draft_card_provenance) fmap draft_result" where
  "register_card pack_id c cards =
     (if \<not> valid_draft_id (ci_instance_id c) \<or> fmlookup cards (ci_instance_id c) \<noteq> None
      then Err (snapshot_error ''generated invalid or duplicate physical id'')
      else Ok (fmupd (ci_instance_id c) \<lparr>cv_pack_id = pack_id, cv_card = c\<rparr> cards))"

definition register_pack :: "nat \<Rightarrow> nat \<Rightarrow> nat \<times> draft_pack \<Rightarrow> fifo_draft_state \<Rightarrow> fifo_draft_state draft_result" where
  "register_pack seat_count seat entry fifo =
     (case entry of (rnd, pack) \<Rightarrow>
        and_then (ok_or (snapshot_error ''generated empty or oversized pack'')
                    (option_filter (\<lambda>size. 0 < size) (try_u8 (length pack)))) (\<lambda>size.
        and_then (ok_or (snapshot_error ''pack id overflow'') (try_u32 (rnd * seat_count + seat))) (\<lambda>coordinate.
        and_then (try_fold (register_card (DraftPackId coordinate)) pack (ff_cards fifo)) (\<lambda>cards.
          case (try_u8 seat, try_u8 rnd) of
            (Some opening_seat, Some rnd8) \<Rightarrow>
              Ok (fifo\<lparr>ff_cards := cards,
                ff_packs := fmupd (DraftPackId coordinate)
                  \<lparr>pp_pack_id = DraftPackId coordinate, pp_opening_seat = opening_seat, pp_round = rnd8,
                   pp_original_size = size, pp_original_card_ids = map ci_instance_id pack\<rparr> (ff_packs fifo)\<rparr>)
          | _ \<Rightarrow> Panic))))"

definition register_row :: "nat \<Rightarrow> nat \<times> draft_pack list \<Rightarrow> fifo_draft_state \<Rightarrow> fifo_draft_state draft_result" where
  "register_row seat_count entry fifo =
     (case entry of (seat, row) \<Rightarrow> try_fold (register_pack seat_count seat) (List.enumerate 0 row) fifo)"

definition distribute_fifo :: "draft_session \<Rightarrow> nat \<Rightarrow> fifo_step" where
  "distribute_fifo s now =
     (case pr_distribution (procedure (ds_kind s)) of
        AllAtOnce \<Rightarrow>
          Ok ([DraftStarted, TransitionedTo Deckbuilding],
              s\<lparr>ds_pools := map concat (ds_packs_by_seat s), ds_packs_by_seat := map (\<lambda>_. []) (ds_packs_by_seat s),
                ds_current_pack_number := cf_pack_count (ds_config s), ds_status := Deckbuilding\<rparr>)
      | PickAndPass \<Rightarrow> and_then (open_fifo_round s 0 now) (\<lambda>s'. Ok ([DraftStarted], s'))
      | SharedStackPiles _ \<Rightarrow> Err (InvalidConfiguration SHARED_STACK_HAS_NO_FIFO))"

definition start_fifo :: "(nat \<Rightarrow> 'r) \<Rightarrow> 'r pack_source option \<Rightarrow> draft_session \<Rightarrow> nat \<Rightarrow> fifo_step" where
  "start_fifo seed_from pack_source s now =
     (if ds_status s \<noteq> Lobby then Err (InvalidTransition (ds_status s) ''StartDraft'')
      else and_then (validate_fifo_config (ds_config s) (length (ds_seats s)) AdmitConfiguration) (\<lambda>_.
        and_then (ok_or (InvalidConfiguration ''StartDraft requires a PackSource'') pack_source) (\<lambda>source.
          case generate_start_packs source (seed_from (cf_rng_seed (ds_config s))) (cf_pod_size (ds_config s)) s of
            (r, rng, s1) \<Rightarrow> and_then r (\<lambda>packs.
              if length packs \<noteq> length (ds_seats s1)
                 \<or> list_ex (\<lambda>row. length row \<noteq> cf_pack_count (ds_config s1)) packs
              then Err (snapshot_error ''generated matrix dimensions'')
              else and_then (fifo_ref s1) (\<lambda>fifo.
                and_then (try_fold (register_row (length (ds_seats s1))) (List.enumerate 0 packs) fifo) (\<lambda>fifo'.
                and_then (index packs 0) (\<lambda>first.
                and_then (try_map (\<lambda>pack. case try_u8 (length pack) of None \<Rightarrow> Panic | Some n \<Rightarrow> Ok n) first) (\<lambda>sizes.
                  distribute_fifo (s1\<lparr>ds_fifo := Some fifo', ds_pack_sizes := sizes, ds_packs_by_seat := packs\<rparr>) now))))))))"

section \<open>FIFO start\<close>

lemma mem_enumerate: "i < length xs \<Longrightarrow> (i, xs ! i) \<in> set (List.enumerate 0 xs)"
  by (simp add: in_set_enumerate_eq)

text \<open>Registering fresh cards: what a fold of registrations does to the two provenance maps.\<close>

definition registers :: "fifo_draft_state \<Rightarrow> string list \<Rightarrow> fifo_draft_state \<Rightarrow> bool" where
  "registers f ids f' \<longleftrightarrow> distinct ids \<and> set ids \<inter> fmdom' (ff_cards f) = {}
     \<and> fmdom' (ff_cards f') = fmdom' (ff_cards f) \<union> set ids \<and> fmdom' (ff_packs f) \<subseteq> fmdom' (ff_packs f')
     \<and> (\<exists>cards packs. f' = f\<lparr>ff_cards := cards, ff_packs := packs\<rparr>)"

lemma registers_refl [simp]: "registers f [] f"
  unfolding registers_def by (auto intro!: exI[of _ "ff_cards f"] exI[of _ "ff_packs f"])

lemma registers_append:
  assumes "registers f a g" "registers g b h"
  shows "registers f (a @ b) h"
proof -
  from assms obtain c p c' p' where "g = f\<lparr>ff_cards := c, ff_packs := p\<rparr>" "h = g\<lparr>ff_cards := c', ff_packs := p'\<rparr>"
    by (auto simp: registers_def)
  then have "h = f\<lparr>ff_cards := c', ff_packs := p'\<rparr>" by simp
  with assms show ?thesis unfolding registers_def by (auto intro: exI[of _ c'] exI[of _ p'])
qed

lemma registers_fold:
  assumes "try_fold step xs f = Ok f'" "\<And>x g g'. x \<in> set xs \<Longrightarrow> step x g = Ok g' \<Longrightarrow> registers g (ids x) g'"
  shows "registers f (concat (map ids xs)) f'"
  using assms by (rule try_fold_concat) (auto intro: registers_append)

lemma register_cards_Ok:
  assumes "try_fold (register_card pack_id) pack cards = Ok cards'"
  shows "distinct (map ci_instance_id pack) \<and> set (map ci_instance_id pack) \<inter> fmdom' cards = {}
    \<and> fmdom' cards' = fmdom' cards \<union> set (map ci_instance_id pack)"
  using assms
proof (induction pack arbitrary: cards)
  case (Cons c pack)
  then obtain mid where mid: "register_card pack_id c cards = Ok mid" "try_fold (register_card pack_id) pack mid = Ok cards'"
    by (auto simp: outcome_simps)
  from mid(1) have "ci_instance_id c \<notin> fmdom' cards" "fmdom' mid = insert (ci_instance_id c) (fmdom' cards)"
    by (auto simp: register_card_def fmdom'_notI split: if_splits)
  with Cons.IH[OF mid(2)] show ?case by auto
qed simp

lemma register_pack_Ok:
  assumes "register_pack n seat (rnd, pack) f = Ok f'"
  shows "registers f (map ci_instance_id pack) f'" "pack \<noteq> []" "length pack < 256"
    "DraftPackId (rnd * n + seat) \<in> fmdom' (ff_packs f')"
proof -
  from assms obtain cards prov where *: "0 < length pack" "length pack < 256"
    "try_fold (register_card (DraftPackId (rnd * n + seat))) pack (ff_cards f) = Ok cards"
    "f' = f\<lparr>ff_cards := cards, ff_packs := fmupd (DraftPackId (rnd * n + seat)) prov (ff_packs f)\<rparr>"
    by (auto simp: register_pack_def outcome_simps try_u32_def split: option.splits if_splits)
  show "pack \<noteq> []" "length pack < 256" using *(1,2) by auto
  show "DraftPackId (rnd * n + seat) \<in> fmdom' (ff_packs f')" using *(4) by simp
  show "registers f (map ci_instance_id pack) f'"
    using register_cards_Ok[OF *(3)] unfolding registers_def *(4) by (auto)
qed

lemma register_row_Ok:
  assumes "register_row n (seat, row) f = Ok f'"
  shows "registers f (map ci_instance_id (concat row)) f'" "[] \<notin> set row" "\<forall>pack\<in>set row. length pack < 256"
    "\<forall>rnd<length row. DraftPackId (rnd * n + seat) \<in> fmdom' (ff_packs f')"
proof -
  from assms have fold: "try_fold (register_pack n seat) (List.enumerate 0 row) f = Ok f'" by (simp add: register_row_def)
  have "registers f (concat (map (\<lambda>(rnd, pack). map ci_instance_id pack) (List.enumerate 0 row))) f'"
    by (rule registers_fold[OF fold]) (auto dest: register_pack_Ok(1))
  moreover have "concat (map (\<lambda>(rnd, pack). map ci_instance_id pack) (List.enumerate k row)) = map ci_instance_id (concat row)" for k
    by (induction row arbitrary: k) auto
  ultimately show "registers f (map ci_instance_id (concat row)) f'" by simp
  let ?Q = "\<lambda>x g. snd x \<noteq> [] \<and> length (snd x) < 256 \<and> DraftPackId (fst x * n + seat) \<in> fmdom' (ff_packs g)"
  have "?Q x g' \<and> (\<forall>y. ?Q y g \<longrightarrow> ?Q y g')" if "register_pack n seat x g = Ok g'" for x :: "nat \<times> draft_pack" and g g'
    using register_pack_Ok[of n seat "fst x" "snd x" g g'] that by (auto simp: registers_def)
  from try_fold_each[where Q = ?Q, OF fold this] have each: "\<forall>x\<in>set (List.enumerate 0 row). ?Q x f'" by blast
  then have at: "row ! i \<noteq> [] \<and> length (row ! i) < 256 \<and> DraftPackId (i * n + seat) \<in> fmdom' (ff_packs f')" if "i < length row" for i
    using bspec[OF each mem_enumerate[OF that]] by simp
  then show "[] \<notin> set row" "\<forall>pack\<in>set row. length pack < 256"
    "\<forall>rnd<length row. DraftPackId (rnd * n + seat) \<in> fmdom' (ff_packs f')"
    by (auto simp: in_set_conv_nth)
qed

lemma register_rows_Ok:
  assumes "try_fold (register_row n) (List.enumerate 0 packs) f = Ok f'"
  shows "registers f (map ci_instance_id (concat (concat packs))) f'"
    "\<forall>row\<in>set packs. [] \<notin> set row \<and> (\<forall>pack\<in>set row. length pack < 256)"
    "\<forall>i<length packs. \<forall>rnd<length (packs ! i). DraftPackId (rnd * n + i) \<in> fmdom' (ff_packs f')"
proof -
  have "registers f (concat (map (\<lambda>x. map ci_instance_id (concat (snd x))) (List.enumerate 0 packs))) f'"
    by (rule registers_fold[OF assms]) (metis prod.collapse register_row_Ok(1))
  moreover have "concat (map (\<lambda>x. map ci_instance_id (concat (snd x))) (List.enumerate k packs)) = map ci_instance_id (concat (concat packs))" for k
    by (induction packs arbitrary: k) auto
  ultimately show "registers f (map ci_instance_id (concat (concat packs))) f'" by simp
  let ?Q = "\<lambda>x g. [] \<notin> set (snd x) \<and> (\<forall>pack\<in>set (snd x). length pack < 256)
    \<and> (\<forall>rnd<length (snd x). DraftPackId (rnd * n + fst x) \<in> fmdom' (ff_packs g))"
  have "?Q x g' \<and> (\<forall>y. ?Q y g \<longrightarrow> ?Q y g')" if "register_row n x g = Ok g'" for x :: "nat \<times> draft_pack list" and g g'
    using register_row_Ok[of n "fst x" "snd x" g g'] that by (auto simp: registers_def)
  from try_fold_each[where Q = ?Q, OF assms this] have each: "\<forall>x\<in>set (List.enumerate 0 packs). ?Q x f'" by blast
  then have "[] \<notin> set (packs ! i) \<and> (\<forall>pack\<in>set (packs ! i). length pack < 256)
    \<and> (\<forall>rnd<length (packs ! i). DraftPackId (rnd * n + i) \<in> fmdom' (ff_packs f'))" if "i < length packs" for i
    using bspec[OF each mem_enumerate[OF that]] by simp
  note at = this
  show "\<forall>row\<in>set packs. [] \<notin> set row \<and> (\<forall>pack\<in>set row. length pack < 256)"
    using at by (metis in_set_conv_nth)
  show "\<forall>i<length packs. \<forall>rnd<length (packs ! i). DraftPackId (rnd * n + i) \<in> fmdom' (ff_packs f')"
    using at by blast
qed

definition fresh_fifo :: "draft_session \<Rightarrow> bool" where
  "fresh_fifo s \<longleftrightarrow> cf_flow (ds_config s) = FifoAsync \<and> ds_status s = Lobby
     \<and> (\<exists>fifo. ds_fifo s = Some fifo \<and> ff_seats fifo = replicate (length (ds_seats s)) default_fifo_seat
          \<and> ff_cards fifo = fmempty \<and> ff_packs fifo = fmempty \<and> ff_removed fifo = [] \<and> ff_review fifo = None
          \<and> ff_paused fifo = None)
     \<and> ds_pools s = replicate (length (ds_seats s)) [] \<and> ds_packs_by_seat s = replicate (length (ds_seats s)) []"

lemma validate_fifo_config_Ok:
  assumes "validate_fifo_config config n context = Ok u"
  shows "0 < n" "n < 256" "cf_pod_size config = n" "0 < cf_pack_count config" "cf_pack_count config \<le> MAX_PACK_COUNT"
    "validate_layout (cf_source config) n (cf_pack_count config) = Ok ()"
  using assms by (auto simp: validate_fifo_config_def outcome_simps split: option.splits if_splits)

lemma sum_list_empties: "sum_list (replicate n {#}) = {#}"
  by (induction n) simp_all

lemma distinct_count_le: "distinct xs \<Longrightarrow> count (mset xs) x \<le> 1"
  by (simp add: distinct_count_atmost_1)

lemma start_fifo_Ok:
  assumes "start_fifo seed_from source s now = Ok (deltas, t)" "fresh_fifo s"
  obtains packs fifo fifo' src rng rng' pool sizes where "ds_fifo s = Some fifo" "source = Some src"
    "ps_generate_packs src rng (ds_config s) (length (ds_seats s)) = (Ok packs, rng')"
    "length packs = length (ds_seats s)" "\<forall>row\<in>set packs. length row = cf_pack_count (ds_config s)"
    "try_fold (register_row (length (ds_seats s))) (List.enumerate 0 packs) fifo = Ok fifo'"
    "distribute_fifo (s\<lparr>ds_booster_pack_pool := pool, ds_fifo := Some fifo', ds_pack_sizes := sizes, ds_packs_by_seat := packs\<rparr>) now
       = Ok (deltas, t)"
    "0 < length (ds_seats s)" "length (ds_seats s) < 256" "cf_pod_size (ds_config s) = length (ds_seats s)"
    "0 < cf_pack_count (ds_config s)" "cf_pack_count (ds_config s) \<le> MAX_PACK_COUNT"
proof -
  from assms(1) obtain u src where *: "ds_status s = Lobby" "validate_fifo_config (ds_config s) (length (ds_seats s)) AdmitConfiguration = Ok u"
    "source = Some src"
    by (auto simp: start_fifo_def outcome_simps split: if_splits)
  note cfg = validate_fifo_config_Ok[OF *(2)]
  obtain r rng' where gen: "ps_generate_packs src (seed_from (cf_rng_seed (ds_config s))) (ds_config s) (length (ds_seats s)) = (r, rng')"
    by (cases "ps_generate_packs src (seed_from (cf_rng_seed (ds_config s))) (ds_config s) (length (ds_seats s))")
  from assms(1) * cfg gen obtain packs where r: "r = Ok packs"
    by (cases r) (auto simp: start_fifo_def generate_start_packs_def)
  from assms(2) obtain fifo where fifo: "ds_fifo s = Some fifo" by (auto simp: fresh_fifo_def)
  from assms(1) * cfg gen r fifo obtain fifo' sizes where
    "length packs = length (ds_seats s)" "\<not> list_ex (\<lambda>row. length row \<noteq> cf_pack_count (ds_config s)) packs"
    "try_fold (register_row (length (ds_seats s))) (List.enumerate 0 packs) fifo = Ok fifo'"
    "distribute_fifo (s\<lparr>ds_booster_pack_pool := ps_booster_pack_pool src, ds_fifo := Some fifo', ds_pack_sizes := sizes, ds_packs_by_seat := packs\<rparr>) now
       = Ok (deltas, t)"
    by (auto simp: start_fifo_def generate_start_packs_def outcome_simps fifo_ref_def split: if_splits)
  then show thesis using that[OF fifo *(3) gen[unfolded r]] cfg by (auto simp: list_ex_iff)
qed

lemma start_table:
  fixes pool sizes
  assumes "fresh_fifo s" "ds_fifo s = Some fifo" "length packs = length (ds_seats s)"
    "\<forall>row\<in>set packs. length row = cf_pack_count (ds_config s)"
    "try_fold (register_row (length (ds_seats s))) (List.enumerate 0 packs) fifo = Ok f"
    "0 < length (ds_seats s)" "length (ds_seats s) < 256" "cf_pod_size (ds_config s) = length (ds_seats s)"
    "cf_pack_count (ds_config s) \<le> MAX_PACK_COUNT"
  defines "u \<equiv> s\<lparr>ds_booster_pack_pool := pool, ds_fifo := Some f, ds_pack_sizes := sizes, ds_packs_by_seat := packs\<rparr>"
  shows "fifo_table u f" "idle_seats f" "unopened u 0" "ff_removed f = []" "ff_paused f = None"
    "live_cards u = {#}"
proof -
  let ?n = "length (ds_seats s)"
  note reg = register_rows_Ok[OF assms(5)]
  from reg(1) obtain c p where "f = fifo\<lparr>ff_cards := c, ff_packs := p\<rparr>" by (auto simp: registers_def)
  with assms(1,2) have f: "ff_seats f = replicate ?n default_fifo_seat" "ff_removed f = []" "ff_paused f = None"
    by (auto simp: fresh_fifo_def)
  show "ff_removed f = []" "ff_paused f = None" by (fact f)+
  have "cf_flow (ds_config s) = FifoAsync" "ds_pools s = replicate ?n []" using assms(1) by (simp_all add: fresh_fifo_def)
  then show "fifo_table u f"
    using f assms(3,4,6-9) reg(2,3)
    by (auto simp: u_def fifo_table_def MAX_PACK_COUNT_def full_packs_def default_fifo_seat_def fmlookup_dom'_iff)
  show "idle_seats f" using f(1) by (auto simp: idle_seats_def default_fifo_seat_def)
  show "unopened u 0" using assms(4) by (simp add: unopened_def u_def)
  show "live_cards u = {#}"
    using f(1) by (simp add: u_def live_cards_def queue_cards_def default_fifo_seat_def flatten_mset_def sum_list_empties)
qed

lemma start_fifo_inv:
  assumes "start_fifo seed_from source s now = Ok (deltas, t)" "fresh_fifo s"
  shows "fifo_inv t \<and> (\<exists>src rng packs rng'. source = Some src
      \<and> ps_generate_packs src rng (ds_config s) (length (ds_seats s)) = (Ok packs, rng')
      \<and> fifo_ids t = mset (map ci_instance_id (concat (concat packs)))
      \<and> distinct (map ci_instance_id (concat (concat packs))))"
  using assms
proof (rule start_fifo_Ok)
  fix packs fifo f src rng rng' pool sizes
  let ?n = "length (ds_seats s)" and ?pc = "cf_pack_count (ds_config s)"
  let ?s = "s\<lparr>ds_booster_pack_pool := pool, ds_fifo := Some f, ds_pack_sizes := sizes, ds_packs_by_seat := packs\<rparr>"
  assume *: "ds_fifo s = Some fifo" "source = Some src" "ps_generate_packs src rng (ds_config s) ?n = (Ok packs, rng')"
    "length packs = ?n" "\<forall>row\<in>set packs. length row = ?pc"
    "try_fold (register_row ?n) (List.enumerate 0 packs) fifo = Ok f" "distribute_fifo ?s now = Ok (deltas, t)"
    "0 < ?n" "?n < 256" "cf_pod_size (ds_config s) = ?n" "0 < ?pc" "?pc \<le> MAX_PACK_COUNT"
  note reg = register_rows_Ok[OF *(6)]
  note st = start_table(1,3,6)[OF assms(2) *(1,4,5,6,8,9,10,12), where pool = pool and sizes = sizes]
    start_table(2,4,5)[OF assms(2) *(1,4,5,6,8,9,10,12)]
  have dist: "distinct (map ci_instance_id (concat (concat packs)))" using reg(1) by (simp add: registers_def)
  have un: "unopened_cards ?s = mset (concat (concat packs))"
    by (simp add: unopened_cards_def) (induction packs, simp_all add: flatten_mset_concat)
  have pools: "flatten_mset (ds_pools s) = {#}" using assms(2) by (simp add: fresh_fifo_def flatten_mset_concat)
  have ids: "fifo_ids ?s = mset (map ci_instance_id (concat (concat packs)))"
    using st(3,5) un pools by (simp add: fifo_ids_def removed_ids_def)
  have "fifo_inv t \<and> fifo_ids t = mset (map ci_instance_id (concat (concat packs)))"
  proof (cases "pr_distribution (procedure (ds_kind s))")
    case PickAndPass
    with *(7) have opened: "open_fifo_round ?s 0 now = Ok t" by (auto simp: distribute_fifo_def outcome_simps)
    from open_round(2)[OF st(1,4,2) _ opened] *(11) st(6) obtain f' where
      "fifo_table t f'" "drafting_ok t f'" "all_running f'" "ff_paused f' = None" "ds_status t = Drafting" by auto
    moreover have "fifo_ids t = fifo_ids ?s" by (rule same_table_content(1)[OF open_fifo_round_same_table[OF opened]])
    ultimately show ?thesis using ids distinct_count_le[OF dist] by (auto simp: fifo_inv_def status_ok_def)
  next
    case AllAtOnce
    with *(7) have t: "t = ?s\<lparr>ds_pools := map concat packs, ds_packs_by_seat := map (\<lambda>_. []) packs,
        ds_current_pack_number := ?pc, ds_status := Deckbuilding\<rparr>" by (simp add: distribute_fifo_def)
    have "fifo_table t f" using st(1) *(4) unfolding t by (auto simp: fifo_table_def)
    moreover have "status_ok t f" using st(4,6) unfolding t by (auto simp: status_ok_def unopened_def)
    moreover have "fifo_ids t = mset (map ci_instance_id (concat (concat packs)))"
    proof -
      have "live_cards t = {#}" "removed_ids t = {#}" using st(3,5) unfolding t by (simp_all add: live_cards_def removed_ids_def)
      moreover have "unopened_cards t = {#}" unfolding t by (simp add: unopened_cards_def) (induction packs, simp_all add: flatten_mset_def)
      moreover have "flatten_mset (ds_pools t) = mset (concat (concat packs))"
        unfolding t by (simp add: flatten_mset_concat) (induction packs, simp_all)
      ultimately show ?thesis by (simp add: fifo_ids_def)
    qed
    ultimately show ?thesis using distinct_count_le[OF dist] by (auto simp: fifo_inv_def)
  next
    case (SharedStackPiles k)
    with *(7) show ?thesis by (simp add: distribute_fifo_def)
  qed
  with *(2,3) dist show ?thesis by blast
qed

text \<open>
  Starting a FIFO draft. Whatever the pack source deals, if \<open>start_fifo\<close> accepts it the draft is
  well formed and holds exactly the dealt cards: each id once, in the opened packs, the unopened
  packs or, for a sealed event, the pools. A source that deals a wrong matrix, an empty or
  oversized pack or a repeated id is refused.
\<close>

lemma start_fifo_establishes:
  assumes "start_fifo seed_from source s now = Ok (deltas, t)" "fresh_fifo s"
  shows "fifo_inv t \<and> (\<exists>src rng packs rng'. source = Some src
      \<and> ps_generate_packs src rng (ds_config s) (length (ds_seats s)) = (Ok packs, rng')
      \<and> fifo_ids t = mset (map ci_instance_id (concat (concat packs)))
      \<and> distinct (map ci_instance_id (concat (concat packs))))"
  using assms by (rule start_fifo_inv)

definition sample_lobby :: draft_session where
  "sample_lobby = (let s = sample_session Premier 2 in
     s\<lparr>ds_config := (ds_config s)\<lparr>cf_flow := FifoAsync, cf_pack_count := 1\<rparr>,
       ds_fifo := Some \<lparr>ff_session_id = ''S'', ff_revision = 0, ff_last_now_ms = 0,
         ff_seats = replicate 2 default_fifo_seat, ff_packs = fmempty, ff_cards = fmempty, ff_removed = [],
         ff_returned_effects = fmempty, ff_review = None, ff_paused = None\<rparr>\<rparr>)"

lemma sample_start: "is_ok (start_fifo (\<lambda>_. ()) (Some (fixture_pack_source ''SET'' 1)) sample_lobby 0)"
  by code_simp

lemma sample_lobby_fresh: "fresh_fifo sample_lobby"
  by (simp add: fresh_fifo_def sample_lobby_def sample_defs Let_def)

section \<open>What a legacy start establishes\<close>

text \<open>
  The promise of a pack source: a full matrix of non-empty packs, every id once, for every pod
  size that the layout of the configuration admits.
\<close>

definition full_matrix :: "nat \<Rightarrow> nat \<Rightarrow> draft_pack list list \<Rightarrow> bool" where
  "full_matrix n q packs \<longleftrightarrow> length packs = n \<and> (\<forall>row\<in>set packs. length row = q \<and> [] \<notin> set row)
     \<and> distinct (map ci_instance_id (concat (concat packs)))"

definition deals_full :: "'r pack_source \<Rightarrow> draft_config \<Rightarrow> bool" where
  "deals_full src config \<longleftrightarrow> (\<forall>rng n. validate_layout (cf_source config) n (cf_pack_count config) = Ok () \<longrightarrow>
     (case ps_generate_packs src rng config n of
        (Ok packs, _) \<Rightarrow> full_matrix n (cf_pack_count config) packs | (Err _, _) \<Rightarrow> True | (Panic, _) \<Rightarrow> False))"

lemma deals_fullD:
  assumes "deals_full src config" "validate_layout (cf_source config) n (cf_pack_count config) = Ok ()"
    "ps_generate_packs src rng config n = (r, rng')"
  shows "case r of Ok packs \<Rightarrow> full_matrix n (cf_pack_count config) packs | Err _ \<Rightarrow> True | Panic \<Rightarrow> False"
  using assms(1)[unfolded deals_full_def, rule_format, OF assms(2), of rng] unfolding assms(3) prod.case .

lemma fixture_deals_full:
  assumes "0 < k"
  shows "deals_full (fixture_pack_source set_code k) config"
proof -
  let ?m = "\<lambda>n. pack_matrix n (cf_pack_count config) k (fixture_card set_code)"
  have "distinct (map ci_instance_id (concat (concat (?m n))))" for n
    by (rule pack_matrix_distinct) (simp add: fixture_card_def show_nat_dash show_nat_inject)
  then have "full_matrix n (cf_pack_count config) (?m n)" for n
    using assms by (auto simp: full_matrix_def pack_matrix_dims dest: pack_matrix_dims(3))
  then show ?thesis
    by (simp add: deals_full_def fixture_pack_source_def default_generate_packs_def fixture_matrix pack_matrix_def)
qed

lemma cube_deals_full:
  assumes "permutes shuffle" "0 < cf_cards_per_pack config"
  shows "deals_full (cube_pack_source shuffle cards) config"
proof -
  have "full_matrix n (cf_pack_count config) (pack_matrix n (cf_pack_count config) (cf_cards_per_pack config)
      (\<lambda>i p j. cube_card i p shuffled ((p * n + i) * cf_cards_per_pack config + j) j))" (is "full_matrix _ _ ?m") for n shuffled
  proof -
    have "distinct (map ci_instance_id (concat (concat ?m)))"
      by (rule pack_matrix_distinct) (simp add: cube_card_def show_nat_dash show_nat_inject)
    with assms(2) show ?thesis by (auto simp: full_matrix_def pack_matrix_dims dest: pack_matrix_dims(3))
  qed
  then show ?thesis
    by (simp add: deals_full_def cube_pack_source_def cube_generate_packs_def deal_cube_all Let_def split: prod.split)
qed

lemma deal_piles_Ok:
  "n \<le> length stack \<Longrightarrow> deal_piles n stack
     = Ok (map (\<lambda>c. [c]) (take n (rev stack)), take (length stack - n) stack)"
proof (induction n arbitrary: stack)
  case (Suc n)
  then have ne: "stack \<noteq> []" by auto
  with Suc.prems Suc.IH[of "butlast stack"] have
    "deal_piles n (butlast stack) = Ok (map (\<lambda>c. [c]) (take n (rev (butlast stack))), take (length stack - Suc n) (butlast stack))"
    by simp
  moreover have "take (length stack - Suc n) (butlast stack) = take (length stack - Suc n) stack"
    using ne by (intro take_butlast) simp
  moreover have "take (Suc n) (rev stack) = last stack # take n (rev (butlast stack))"
    using ne by (cases stack rule: rev_cases) simp_all
  ultimately show ?case using ne by simp
qed simp

lemma in_set_tl: "x \<in> set (tl xs) \<Longrightarrow> x \<in> set xs"
  by (cases xs) simp_all

lemma take_Suc_update: "k < length xs \<Longrightarrow> take (Suc k) (xs[k := x]) = take k xs @ [x]"
  by (simp add: take_Suc_conv_app_nth)

lemma deal_seats:
  assumes "\<forall>row\<in>set rows. row \<noteq> []" "k + length rows \<le> n"
    "length (ds_current_pack s) = n" "length (ds_current_pack_origins s) = n" "length (ds_packs_by_seat s) = n"
  shows "\<exists>origins. try_fold deal_seat (List.enumerate k rows) s
    = Ok (s\<lparr>ds_current_pack := take k (ds_current_pack s) @ map (\<lambda>row. Some (hd row)) rows @ drop (k + length rows) (ds_current_pack s),
            ds_current_pack_origins := origins,
            ds_packs_by_seat := take k (ds_packs_by_seat s) @ map tl rows @ drop (k + length rows) (ds_packs_by_seat s)\<rparr>)"
  using assms
proof (induction rows arbitrary: k s)
  case Nil
  show ?case by (intro exI[of _ "ds_current_pack_origins s"]) (cases s, simp)
next
  case (Cons row rows)
  let ?s = "s\<lparr>ds_current_pack := (ds_current_pack s)[k := Some (hd row)],
      ds_current_pack_origins := (ds_current_pack_origins s)[k := Some (as_u8 k)],
      ds_packs_by_seat := (ds_packs_by_seat s)[k := tl row]\<rparr>"
  have step: "deal_seat (k, row) s = Ok ?s"
    using Cons.prems by (cases row) (simp_all add: deal_seat_def)
  have "\<exists>origins. try_fold deal_seat (List.enumerate (Suc k) rows) ?s
      = Ok (?s\<lparr>ds_current_pack := take (Suc k) (ds_current_pack ?s) @ map (\<lambda>row. Some (hd row)) rows @ drop (Suc k + length rows) (ds_current_pack ?s),
            ds_current_pack_origins := origins,
            ds_packs_by_seat := take (Suc k) (ds_packs_by_seat ?s) @ map tl rows @ drop (Suc k + length rows) (ds_packs_by_seat ?s)\<rparr>)"
    by (rule Cons.IH) (use Cons.prems in simp_all)
  then obtain origins where
    "try_fold deal_seat (List.enumerate (Suc k) rows) ?s
      = Ok (?s\<lparr>ds_current_pack := take (Suc k) (ds_current_pack ?s) @ map (\<lambda>row. Some (hd row)) rows @ drop (Suc k + length rows) (ds_current_pack ?s),
            ds_current_pack_origins := origins,
            ds_packs_by_seat := take (Suc k) (ds_packs_by_seat ?s) @ map tl rows @ drop (Suc k + length rows) (ds_packs_by_seat ?s)\<rparr>)" ..
  with step Cons.prems show ?case by (intro exI[of _ origins]) (simp add: take_Suc_update)
qed

lemma concat_map_concat: "concat (map concat xsss) = concat (concat xsss)"
  by (induction xsss) simp_all

lemma flatten_hd_tl_full:
  "\<forall>row\<in>set packs. row \<noteq> [] \<Longrightarrow> flatten_mset (map hd packs) + flatten_mset (map (\<lambda>row. concat (tl row)) packs)
     = mset (concat (concat packs))"
  using flatten_hd_tl[of packs] by (simp add: flatten_mset_concat concat_map_concat)

lemma start_pick_and_pass_inv:
  assumes "full_matrix (length (ds_seats s)) (cf_pack_count (ds_config s)) packs" "pick_shape s"
    "length (ds_current_pack_origins s) = length (ds_seats s)" "ds_pools s = replicate (length (ds_seats s)) []"
    "0 < cf_pack_count (ds_config s)" "cf_pack_count (ds_config s) < 256"
  shows "\<exists>t. start_pick_and_pass s packs = (Ok [DraftStarted], t) \<and> ds_status t = Drafting \<and> pick_inv t
    \<and> pass_cards t = mset (concat (concat packs))"
proof -
  let ?n = "length (ds_seats s)"
  have n: "1 \<le> ?n" "?n < 256" "length packs = ?n" "length (ds_current_pack s) = ?n" "length (ds_packs_by_seat s) = ?n"
    using assms(1,2) by (auto simp: full_matrix_def pick_shape_def Let_def)
  have rows: "\<forall>row\<in>set packs. row \<noteq> []" using assms(1,5) by (auto simp: full_matrix_def)
  have as: "as_u8 ?n = ?n" using n(2) by (simp add: as_u8_def)
  from deal_seats[OF rows, of 0 ?n s] n(3-) assms(3) obtain origins where
    deal: "try_fold deal_seat (List.enumerate 0 packs) s = Ok (s\<lparr>ds_current_pack := map (\<lambda>row. Some (hd row)) packs,
      ds_current_pack_origins := origins, ds_packs_by_seat := map tl packs\<rparr>)" by auto
  define t where "t = s\<lparr>ds_current_pack := map (\<lambda>row. Some (hd row)) packs, ds_current_pack_origins := origins,
      ds_packs_by_seat := map tl packs, ds_status := Drafting, ds_pass_direction := for_pack 0,
      ds_current_pack_number := 0, ds_pick_number := 0, ds_seats_picked_this_round := flags_all_false ?n\<rparr>"
  have "start_pick_and_pass s packs = (Ok [DraftStarted], t)"
    using deal as assms(3) by (simp add: start_pick_and_pass_def Let_def t_def resize_same)
  moreover have cards: "pass_cards t = mset (concat (concat packs))"
    using flatten_hd_tl_full[OF rows] assms(4) by (simp add: pass_cards_def table_cards_def t_def o_def flatten_mset_empty)
  moreover have "pick_inv t"
  proof -
    have "packs ! 0 \<in> set packs" using n(1,3) by (intro nth_mem) linarith
    with assms(1) rows have "hd (packs ! 0) \<in> set (packs ! 0)" "[] \<notin> set (packs ! 0)" by (auto simp: full_matrix_def)
    then have "hd (packs ! 0) \<noteq> []" by metis
    moreover have "0 < ?n" using n(1) by linarith
    ultimately have "pick_pending t" using n(3-)
      by (simp add: pick_pending_def t_def owes_pick_def flags_all_false_def flags_get_def) (auto intro!: exI[of _ 0])
    moreover have "rounds_ok t" using assms(1,5,6) by (auto simp: rounds_ok_def t_def full_matrix_def dest: in_set_tl)
    moreover have "pick_shape t" using assms(2) n by (simp add: pick_shape_def t_def Let_def)
    moreover have "unique_ids (pass_cards t)" using assms(1) unfolding cards by (auto simp: full_matrix_def unique_ids_def distinct_count_atmost_1 simp flip: mset_map)
    ultimately show ?thesis by (simp add: pick_inv_def pick_phase_def t_def)
  qed
  ultimately show ?thesis by (auto simp: t_def)
qed

lemma start_shared_stack_inv:
  assumes "length packs = length (ds_seats s)" "\<forall>row\<in>set packs. length row = pr_packs_per_player (procedure (ds_kind s))"
    "permutes shuffle" "ranges random_range" "0 < length (ds_seats s)" "length (ds_seats s) < 256" "p < 256"
    "ds_pools s = replicate (length (ds_seats s)) []"
  shows "\<exists>r t. start_shared_stack shuffle random_range p rng s packs = (r, t) \<and> r \<noteq> Panic
    \<and> (is_ok r \<longrightarrow> r = Ok [DraftStarted] \<and> ds_status t = Drafting \<and> winston_inv t
        \<and> winston_cards t = mset (concat (concat packs)))"
proof -
  let ?main = "concat (map concat packs)" and ?n = "length (ds_seats s)"
  obtain stack rng1 where sh: "shuffle rng ?main = (stack, rng1)" by (cases "shuffle rng ?main")
  have m: "mset stack = mset ?main" using assms(3) sh by (metis fst_conv permutes_def)
  then have len: "length stack = length ?main" by (rule mset_eq_length)
  have as: "as_u8 ?n = ?n" using assms(6) by (simp add: as_u8_def)
  have dims: "\<not> wrong_dimensions s packs" using assms(1,2) by (auto simp: wrong_dimensions_def list_ex_iff)
  show ?thesis
  proof (cases "p = 0 \<or> length ?main < p")
    case True
    then show ?thesis using dims by (auto simp: start_shared_stack_def Let_def piles_needed_def)
  next
    case False
    let ?piles = "map (\<lambda>c. [c]) (take p (rev stack))" and ?rest = "take (length stack - p) stack"
    define st where "st = \<lparr>ss_main_stack = ?rest, ss_piles = ?piles,
        ss_starting_seat = fst (random_range rng1 ?n), ss_active_seat = fst (random_range rng1 ?n), ss_cursor = 0,
        ss_inspected = (replicate p 0)[0 := length (?piles ! 0)], ss_decisions = 0,
        ss_history = [], ss_forced_draws = replicate ?n None\<rparr>"
    define t where "t = s\<lparr>ds_shared_stack := Some st, ds_status := Drafting\<rparr>"
    have deal: "deal_piles p stack = Ok (?piles, ?rest)" using False len by (intro deal_piles_Ok) linarith
    have run: "start_shared_stack shuffle random_range p rng s packs = (Ok [DraftStarted], t)"
      using dims False sh as deal by (simp add: start_shared_stack_def Let_def piles_needed_def t_def st_def)
    have pl: "length ?piles = p" using False len by simp
    have "mset ?rest + flatten_mset ?piles = mset stack"
    proof -
      have "concat ?piles = take p (rev stack)" by simp
      moreover have "take p (rev stack) = rev (drop (length stack - p) stack)" by (simp add: take_rev)
      ultimately show ?thesis by (metis append_take_drop_id flatten_mset_concat mset_append mset_rev)
    qed
    then have cards: "winston_cards t = mset (concat (concat packs))"
      using m assms(8) by (simp add: winston_cards_def t_def st_def stack_cards_def concat_map_concat flatten_mset_empty)
    have seat: "fst (random_range rng1 ?n) < ?n" using assms(4,5) by (simp add: ranges_def)
    have "pile_shape ?n p st" using assms(5-7) False pl seat by (auto simp: pile_shape_def st_def)
    moreover have "piles_stocked st" "inspected_prefix st" "pile_ahead st" using False pl
      by (auto simp: piles_stocked_def inspected_prefix_def pile_ahead_def st_def nth_list_update)
    ultimately have "winston_inv t" using assms(8) by (auto simp: winston_inv_def t_def)
    with run cards show ?thesis by (simp add: t_def)
  qed
qed

lemma validate_for_draft_not_Panic: "validate_for_draft layout n q \<noteq> Panic"
proof (cases layout)
  case (Chaos candidates assignments)
  have code: "try_fold (validate_chaos_code candidates seat) rounds u \<noteq> Panic" for seat rounds u
    by (rule try_fold_not_Panic[where I = "\<lambda>_. True"]) (auto simp: validate_chaos_code_def)
  have "try_fold (validate_chaos_seat candidates q) entries u \<noteq> Panic" for entries u
    by (rule try_fold_not_Panic[where I = "\<lambda>_. True"]) (auto simp: validate_chaos_seat_def outcome_simps code split: prod.splits)
  with Chaos show ?thesis by (auto simp: outcome_simps)
qed simp

lemma start_checks_not_Panic [simp]: "start_checks s \<noteq> Panic"
proof -
  have "validate_layout src n q \<noteq> Panic" for src n q
    by (cases src) (auto simp: validate_layout_def map_err_def validate_for_draft_not_Panic split: outcome.splits)
  moreover have "start_distribution_checks s \<noteq> Panic"
    by (auto simp: start_distribution_checks_def Let_def admit_all_at_once_def piles_needed_def outcome_simps split: pack_distribution.splits)
  ultimately show ?thesis
    by (auto simp: start_checks_def Let_def outcome_simps validate_source_def admit_pod_size_not_Panic
        split: draft_source.splits set_layout.splits if_splits)
qed

lemma start_checks_Ok:
  assumes "start_checks s = Ok u" "length (ds_seats s) < 256"
  shows "0 < length (ds_seats s)" "ds_status s = Lobby"
    "validate_layout (cf_source (ds_config s)) (length (ds_seats s)) (cf_pack_count (ds_config s)) = Ok ()"
    "pr_distribution (procedure (ds_kind s)) \<noteq> PickAndPass \<longrightarrow> cf_pack_count (ds_config s) = pr_packs_per_player (procedure (ds_kind s))"
proof -
  from assms obtain v w where *: "ds_status s = Lobby" "start_distribution_checks s = Ok v"
    "admit_pod_size (ds_kind s) (cf_source (ds_config s)) (cf_tournament_format (ds_config s)) (length (ds_seats s)) AdmitConfiguration = Ok w"
    by (auto simp: start_checks_def Let_def outcome_simps as_u8_def split: if_splits)
  then show "ds_status s = Lobby" "0 < length (ds_seats s)" using admitted_pod_size_positive[OF *(3)] by auto
  show "validate_layout (cf_source (ds_config s)) (length (ds_seats s)) (cf_pack_count (ds_config s)) = Ok ()"
    using assms by (auto simp: start_checks_def Let_def outcome_simps as_u8_def split: if_splits)
  show "pr_distribution (procedure (ds_kind s)) \<noteq> PickAndPass \<longrightarrow> cf_pack_count (ds_config s) = pr_packs_per_player (procedure (ds_kind s))"
    using *(2) by (auto simp: start_distribution_checks_def Let_def admit_all_at_once_def outcome_simps split: pack_distribution.splits if_splits)
qed

definition lobby_session :: "draft_session \<Rightarrow> bool" where
  "lobby_session s \<longleftrightarrow> ds_status s = Lobby \<and> ds_kind s = cf_kind (ds_config s) \<and> ds_shared_stack s = None
     \<and> ds_pools s = replicate (length (ds_seats s)) [] \<and> ds_current_pack s = replicate (length (ds_seats s)) None
     \<and> ds_packs_by_seat s = replicate (length (ds_seats s)) []
     \<and> length (ds_current_pack_origins s) = length (ds_seats s)"

lemma new_session_lobby: "lobby_session (new_session config seats code)"
  by (simp add: lobby_session_def new_session_def Let_def)

lemma start_lobby:
  assumes "lobby_session s" "ds_config s = config" "ds_seats s = seats" "length seats < 256" "validate_legacy_admission s = Ok ()"
    "deals_full src config" "0 < cf_pack_count config" "cf_pack_count config < 256"
    "permutes shuffle" "ranges random_range"
    "apply_start_draft seed_from shuffle random_range (Some src) s = (r, t)"
  shows "r \<noteq> Panic \<and> (is_ok r \<longrightarrow> (\<exists>packs rng rng'.
      ps_generate_packs src rng config (length seats) = (Ok packs, rng')
      \<and> full_matrix (length seats) (cf_pack_count config) packs
      \<and> (case pr_distribution (procedure (cf_kind config)) of
            PickAndPass \<Rightarrow> ds_status t = Drafting \<and> pick_inv t \<and> pass_cards t = mset (concat (concat packs))
          | SharedStackPiles _ \<Rightarrow> ds_status t = Drafting \<and> winston_inv t \<and> winston_cards t = mset (concat (concat packs))
          | AllAtOnce \<Rightarrow> ds_status t = Deckbuilding \<and> ds_pools t = map concat packs)))"
proof (cases "start_checks s")
  case (Ok u)
  have f: "ds_config s = config" "ds_seats s = seats" "ds_kind s = cf_kind config" "ds_pools s = replicate (length seats) []"
    "length (ds_current_pack s) = length seats" "length (ds_current_pack_origins s) = length seats"
    "length (ds_packs_by_seat s) = length seats"
    using assms(1-3) by (simp_all add: lobby_session_def)
  note ck = start_checks_Ok[OF Ok, unfolded f, OF assms(4)]
  have as: "as_u8 (length seats) = length seats" using assms(4) by (simp add: as_u8_def)
  obtain g rng' where gen: "ps_generate_packs src (seed_from (cf_rng_seed config)) config (length seats) = (g, rng')"
    by (cases "ps_generate_packs src (seed_from (cf_rng_seed config)) config (length seats)")
  show ?thesis
  proof (cases g)
    case (Ok packs)
    have full: "full_matrix (length seats) (cf_pack_count config) packs"
      using deals_fullD[OF assms(6) ck(3) gen] Ok by simp
    let ?s = "s\<lparr>ds_booster_pack_pool := ps_booster_pack_pool src, ds_pack_sizes := recorded_pack_sizes packs\<rparr>"
    have run: "(r, t) = (case pr_distribution (procedure (cf_kind config)) of
         AllAtOnce \<Rightarrow> start_all_at_once ?s packs
       | SharedStackPiles p \<Rightarrow> start_shared_stack shuffle random_range p rng' ?s packs
       | PickAndPass \<Rightarrow> start_pick_and_pass ?s packs)"
      using assms(11) \<open>start_checks s = Ok u\<close> gen Ok f as by (simp add: apply_start_draft_def generate_start_packs_def Let_def)
    have shape: "pick_shape ?s"
      using assms(4,5) ck(1) f by (auto simp: pick_shape_def validate_legacy_admission_Ok Let_def Suc_le_eq)
    have goal: ?thesis if "r \<noteq> Panic" "is_ok r \<longrightarrow> (case pr_distribution (procedure (cf_kind config)) of
            PickAndPass \<Rightarrow> ds_status t = Drafting \<and> pick_inv t \<and> pass_cards t = mset (concat (concat packs))
          | SharedStackPiles _ \<Rightarrow> ds_status t = Drafting \<and> winston_inv t \<and> winston_cards t = mset (concat (concat packs))
          | AllAtOnce \<Rightarrow> ds_status t = Deckbuilding \<and> ds_pools t = map concat packs)"
      using that full gen Ok by blast
    show ?thesis
    proof (cases "pr_distribution (procedure (cf_kind config))")
      case PickAndPass
      with start_pick_and_pass_inv[of ?s packs] run full shape f assms(7,8) show ?thesis by (intro goal) auto
    next
      case (SharedStackPiles p)
      then have "p < 256" using procedure_pile_bounds by fastforce
      with start_shared_stack_inv[of packs ?s shuffle random_range p rng'] SharedStackPiles run full f assms(4,9,10) ck
      show ?thesis by (intro goal) (auto simp: full_matrix_def)
    next
      case AllAtOnce
      with run full f ck show ?thesis
        by (intro goal) (auto simp: start_all_at_once_def wrong_dimensions_def list_ex_iff full_matrix_def)
    qed
  next
    case (Err e)
    with assms(11) \<open>start_checks s = Ok u\<close> gen f as show ?thesis by (auto simp: apply_start_draft_def generate_start_packs_def)
  next
    case Panic
    with deals_fullD[OF assms(6) ck(3) gen] show ?thesis by simp
  qed
qed (use assms(11) in \<open>auto simp: apply_start_draft_def\<close>)

text \<open>
  Starting a legacy draft. On a fresh session whose configuration is admitted, with a source that
  deals a full matrix of packs, a shuffle that permutes and a draw that stays in range, a start
  never panics, and when it is accepted the session satisfies the invariant of its distribution and
  holds exactly the dealt cards: in the packs of a pick-and-pass draft, in the stack and the piles
  of a shared-stack draft, in the pools of a sealed event.
\<close>

lemma start_establishes_invariant:
  assumes "s = new_session config seats code" "length seats < 256" "validate_legacy_admission s = Ok ()"
    "deals_full src config" "0 < cf_pack_count config" "cf_pack_count config < 256"
    "permutes shuffle" "ranges random_range"
    "apply_start_draft seed_from shuffle random_range (Some src) s = (r, t)"
  shows "r \<noteq> Panic \<and> (is_ok r \<longrightarrow> (\<exists>packs rng rng'.
      ps_generate_packs src rng config (length seats) = (Ok packs, rng')
      \<and> full_matrix (length seats) (cf_pack_count config) packs
      \<and> (case pr_distribution (procedure (cf_kind config)) of
            PickAndPass \<Rightarrow> ds_status t = Drafting \<and> pick_inv t \<and> pass_cards t = mset (concat (concat packs))
          | SharedStackPiles _ \<Rightarrow> ds_status t = Drafting \<and> winston_inv t \<and> winston_cards t = mset (concat (concat packs))
          | AllAtOnce \<Rightarrow> ds_status t = Deckbuilding \<and> ds_pools t = map concat packs)))"
proof -
  have "lobby_session s" "ds_config s = config" "ds_seats s = seats"
    unfolding assms(1) by (rule new_session_lobby) (simp_all add: new_session_def Let_def)
  from start_lobby[OF this assms(2-)] show ?thesis .
qed

end
