(* ===== verification/Session.thy ===== *)
theory Session
  imports Deck_Validation Pairings Draft_Start
begin

text \<open>
  The legacy reducer of \<open>crates/draft-core/src/session.rs\<close>: deck submission with its set
  concessions, the two seat operations, and the dispatchers \<open>apply_existing\<close> and \<open>apply\<close> that
  put the pick-and-pass, shared-stack, tournament and start reducers behind one entry point. What
  the code takes from outside (the random generator, its shuffles and its bounded draw, and the
  iteration order of a hash map) is the record \<open>draft_env\<close>. The lemmas show what a submission
  accepts and records, and that a session driven through \<open>apply\<close> never panics, keeps its
  invariant in every status, and never loses or duplicates a card.
\<close>

section \<open>Deck submission\<close>

definition concession_set_codes :: "draft_session \<Rightarrow> string list" where
  "concession_set_codes s =
     (case ds_kind s of
        CommanderDraft \<Rightarrow>
          (case cf_source (ds_config s) of
             SetSource _ \<Rightarrow> actual_set_codes (cf_source (ds_config s))
           | Cube _ _ \<Rightarrow> [])
      | _ \<Rightarrow> [])"

definition session_concessions :: "draft_session \<Rightarrow> draft_set_concessions" where
  "session_concessions s = draft_set_concessions_for (concession_set_codes s)"

definition human_submitted :: "draft_session \<Rightarrow> draft_seat \<Rightarrow> bool" where
  "human_submitted s seat =
     (case seat of Human pid _ \<Rightarrow> fmlookup (ds_submitted_decks s) pid \<noteq> None | Bot _ \<Rightarrow> False)"

definition close_deckbuilding :: "nat \<Rightarrow> draft_session \<Rightarrow> session_step" where
  "close_deckbuilding seat s =
     (let human_count = length (filter (\<lambda>seat. \<not> is_bot seat) (ds_seats s));
          submitted_human_count = length (filter (human_submitted s) (ds_seats s));
          next_status = (case pr_post_draft_play (procedure (ds_kind s)) of
             CompleteImmediately \<Rightarrow> Complete | TournamentPairings \<Rightarrow> Pairing)
      in if human_count \<le> submitted_human_count
         then (Ok [DeckSubmitted seat, TransitionedTo next_status], s\<lparr>ds_status := next_status\<rparr>)
         else (Ok [DeckSubmitted seat], s))"

definition apply_submit_deck ::
  "(name_counts \<Rightarrow> string list) \<Rightarrow> draft_session \<Rightarrow> nat \<Rightarrow> string list \<Rightarrow> string list \<Rightarrow> deck_printing list
   \<Rightarrow> session_step" where
  "apply_submit_deck keys s seat main_deck commanders printings =
     (if ds_status s \<noteq> Deckbuilding then (Err (InvalidTransition (ds_status s) ''SubmitDeck''), s)
      else let pod_size = as_u8 (length (ds_seats s)) in
      if pod_size \<le> seat then (Err (SeatOutOfRange seat pod_size), s)
      else if MAX_COMMANDER_DESIGNATIONS < length commanders
      then (Err (ValidationFailed [TooManyCommanders (length commanders) MAX_COMMANDER_DESIGNATIONS]), s)
      else case index (ds_pools s) seat of
          Err e \<Rightarrow> (Err e, s) | Panic \<Rightarrow> (Panic, s)
        | Ok pool \<Rightarrow>
            (case validate_limited_deck keys main_deck (map ci_name pool) (cf_addable_cards (ds_config s))
                    (cf_min_deck_size (ds_config s)) (dc_fillers (session_concessions s)) commanders
                    (pr_commanders_required (procedure (ds_kind s))) of
               Err errors \<Rightarrow> (Err (ValidationFailed errors), s) | Panic \<Rightarrow> (Panic, s)
             | Ok _ \<Rightarrow>
                 close_deckbuilding seat
                   (s\<lparr>ds_submitted_decks := fmupd (seat_player_id (ds_seats s) seat)
                        \<lparr>sb_seat = seat, sb_main_deck = main_deck, sb_commanders = commanders,
                         sb_printings = printings\<rparr> (ds_submitted_decks s)\<rparr>)))"

section \<open>Seats\<close>

definition apply_replace_seat_with_bot :: "draft_session \<Rightarrow> nat \<Rightarrow> string option \<Rightarrow> session_step" where
  "apply_replace_seat_with_bot s seat name =
     (let pod_size = as_u8 (length (ds_seats s)) in
      if pod_size \<le> seat then (Err (SeatOutOfRange seat pod_size), s)
      else (Ok [SeatReplacedWithBot seat],
            s\<lparr>ds_seats := (ds_seats s)[seat := Bot (case name of Some n \<Rightarrow> n
                 | None \<Rightarrow> ''Seat '' @ show_nat (add_u8 seat 1))]\<rparr>))"

definition apply_set_seat_connected :: "draft_session \<Rightarrow> nat \<Rightarrow> bool \<Rightarrow> session_step" where
  "apply_set_seat_connected s seat connected =
     (let pod_size = as_u8 (length (ds_seats s)) in
      if pod_size \<le> seat then (Err (SeatOutOfRange seat pod_size), s)
      else if is_bot (ds_seats s ! seat) then (Err (SeatIsBot seat), s)
      else (Ok [SeatConnectionChanged seat connected],
            s\<lparr>ds_connected_seats := flags_set seat connected (flags_ensure_len pod_size True (ds_connected_seats s))\<rparr>))"

section \<open>The dispatchers\<close>

record 'r draft_env =
  env_seed_from :: "nat \<Rightarrow> 'r"
  env_shuffle :: "'r \<Rightarrow> draft_card_instance list \<Rightarrow> draft_card_instance list \<times> 'r"
  env_shuffle_records :: "'r \<Rightarrow> (player_id \<times> nat) list \<Rightarrow> (player_id \<times> nat) list \<times> 'r"
  env_random_range :: "'r \<Rightarrow> nat \<Rightarrow> nat \<times> 'r"
  env_keys :: "name_counts \<Rightarrow> string list"

fun apply_existing :: "'r draft_env \<Rightarrow> draft_session \<Rightarrow> draft_action \<Rightarrow> 'r pack_source option \<Rightarrow> session_step" where
  "apply_existing env s (Select _ _ _ _ _) source = (Err IncompatibleFlow, s)"
| "apply_existing env s (Control _) source = (Err IncompatibleFlow, s)"
| "apply_existing env s AdvanceClock source = (Err IncompatibleFlow, s)"
| "apply_existing env s StartDraft source =
     apply_start_draft (env_seed_from env) (env_shuffle env) (env_random_range env) source s"
| "apply_existing env s (Pick seat ids) source = apply_pick s seat ids"
| "apply_existing env s (PickWithDraftEffect seat effect_id ids) source =
     apply_pick_with_draft_effect s seat effect_id ids"
| "apply_existing env s (SubmitDeck seat main_deck commanders printings) source =
     apply_submit_deck (env_keys env) s seat main_deck commanders printings"
| "apply_existing env s GeneratePairings source =
     apply_generate_pairings (env_seed_from env) (env_shuffle_records env) s"
| "apply_existing env s (ReportMatchResult reported winner_seat) source =
     apply_report_match_result s reported winner_seat"
| "apply_existing env s AdvanceRound source = apply_advance_round s"
| "apply_existing env s (ReplaceSeatWithBot seat name) source = apply_replace_seat_with_bot s seat name"
| "apply_existing env s (SetSeatConnected seat connected) source = apply_set_seat_connected s seat connected"
| "apply_existing env s (SharedStackDecision seat pile decision) source =
     apply_shared_stack_decision s seat pile decision"

definition apply_legacy :: "'r draft_env \<Rightarrow> draft_session \<Rightarrow> draft_action \<Rightarrow> 'r pack_source option \<Rightarrow> session_step" where
  "apply_legacy env s action source =
     (if cf_flow (ds_config s) = FifoAsync then (Err ExplicitTimeRequired, s)
      else case validate_legacy_admission s of
          Err e \<Rightarrow> (Err e, s) | Panic \<Rightarrow> (Panic, s)
        | Ok _ \<Rightarrow>
            if is_fifo_only action then (Err IncompatibleFlow, s)
            else apply_existing env s action source)"

section \<open>What a submission accepts and records\<close>

definition legal_submission :: "draft_session \<Rightarrow> nat \<Rightarrow> string list \<Rightarrow> string list \<Rightarrow> bool" where
  "legal_submission s seat main_deck commanders \<longleftrightarrow>
     length commanders \<le> MAX_COMMANDER_DESIGNATIONS
     \<and> legal_limited_deck main_deck (map ci_name (ds_pools s ! seat)) (cf_addable_cards (ds_config s))
         (cf_min_deck_size (ds_config s)) (dc_fillers (session_concessions s)) commanders
         (pr_commanders_required (procedure (ds_kind s)))"

definition all_humans_submitted :: "draft_session \<Rightarrow> bool" where
  "all_humans_submitted s \<longleftrightarrow>
     (\<forall>pid name. Human pid name \<in> set (ds_seats s) \<longrightarrow> pid \<in> fmdom' (ds_submitted_decks s))"

lemma length_filter_le_iff:
  assumes "\<And>x. x \<in> set xs \<Longrightarrow> Q x \<Longrightarrow> P x"
  shows "length (filter P xs) \<le> length (filter Q xs) \<longleftrightarrow> (\<forall>x\<in>set xs. P x \<longrightarrow> Q x)"
  using assms
proof (induction xs)
  case (Cons x xs)
  have "\<forall>x\<in>set ys. Q x \<longrightarrow> P x \<Longrightarrow> length (filter Q ys) \<le> length (filter P ys)" for ys
    by (induction ys) (simp_all add: le_SucI)
  with Cons.prems have le: "length (filter Q xs) \<le> length (filter P xs)" by simp
  have IH: "length (filter P xs) \<le> length (filter Q xs) \<longleftrightarrow> (\<forall>x\<in>set xs. P x \<longrightarrow> Q x)" using Cons by auto
  show ?case
  proof (cases "P x")
    case True
    then show ?thesis using IH le by (cases "Q x") auto
  next
    case False
    then show ?thesis using IH Cons.prems[of x] by auto
  qed
qed simp

lemma close_deckbuilding_spec:
  "close_deckbuilding seat s =
     (if all_humans_submitted s
      then let next = (if pr_post_draft_play (procedure (ds_kind s)) = CompleteImmediately then Complete else Pairing)
        in (Ok [DeckSubmitted seat, TransitionedTo next], s\<lparr>ds_status := next\<rparr>)
      else (Ok [DeckSubmitted seat], s))"
proof -
  have "human_submitted s x \<Longrightarrow> \<not> is_bot x" for x by (cases x) (auto simp: human_submitted_def)
  then have "length (filter (\<lambda>seat. \<not> is_bot seat) (ds_seats s)) \<le> length (filter (human_submitted s) (ds_seats s))
    \<longleftrightarrow> (\<forall>x\<in>set (ds_seats s). \<not> is_bot x \<longrightarrow> human_submitted s x)" by (intro length_filter_le_iff)
  also have "\<dots> \<longleftrightarrow> all_humans_submitted s"
    unfolding all_humans_submitted_def
    by (auto simp: human_submitted_def fmlookup_dom'_iff split: draft_seat.splits elim!: is_bot.elims)
  finally show ?thesis
    by (auto simp: close_deckbuilding_def Let_def split: post_draft_play.splits)
qed

text \<open>
  Deck submission. During deckbuilding a seat's submission is accepted exactly when it
  designates at most two commanders and the deck is legal for the seat's pool, the concessions of
  the sets the draft contained and the commander floor of the kind. It is then recorded under the
  seat's player, and the session leaves deckbuilding exactly when every human seat has submitted:
  for the tournament, or to completion when the kind plays no tournament. A refused submission
  changes nothing.
\<close>

lemma submit_deck_correct:
  assumes "lists_keys keys" "ds_status s = Deckbuilding" "length (ds_seats s) < 256" "seat < length (ds_seats s)"
    "seat < length (ds_pools s)" "length main_deck < 2 ^ 32" "length (ds_pools s ! seat) < 2 ^ 32"
    "apply_submit_deck keys s seat main_deck commanders printings = (r, t)"
  shows "is_ok r = legal_submission s seat main_deck commanders
     \<and> (if is_ok r then ds_submitted_decks t = fmupd (seat_player_id (ds_seats s) seat) \<lparr>sb_seat = seat, sb_main_deck = main_deck,
             sb_commanders = commanders, sb_printings = printings\<rparr> (ds_submitted_decks s)
           \<and> t = s\<lparr>ds_submitted_decks := ds_submitted_decks t, ds_status := ds_status t\<rparr>
           \<and> ds_status t = (if \<not> all_humans_submitted t then Deckbuilding
              else if pr_post_draft_play (procedure (ds_kind s)) = CompleteImmediately then Complete else Pairing)
         else t = s)"
proof -
  let ?sub = "\<lparr>sb_seat = seat, sb_main_deck = main_deck, sb_commanders = commanders, sb_printings = printings\<rparr>"
  let ?s = "s\<lparr>ds_submitted_decks := fmupd (seat_player_id (ds_seats s) seat) ?sub (ds_submitted_decks s)\<rparr>"
  let ?v = "validate_limited_deck keys main_deck (map ci_name (ds_pools s ! seat)) (cf_addable_cards (ds_config s))
       (cf_min_deck_size (ds_config s)) (dc_fillers (session_concessions s)) commanders
       (pr_commanders_required (procedure (ds_kind s)))"
  have *: "length commanders \<le> MAX_COMMANDER_DESIGNATIONS \<Longrightarrow> ?v = Ok () \<longleftrightarrow> legal_submission s seat main_deck commanders"
    using validate_Ok_iff[OF assms(1,6), of "map ci_name (ds_pools s ! seat)" commanders] assms(7)
    by (auto simp: legal_submission_def MAX_COMMANDER_DESIGNATIONS_def)
  have "apply_submit_deck keys s seat main_deck commanders printings = (if MAX_COMMANDER_DESIGNATIONS < length commanders
      then (Err (ValidationFailed [TooManyCommanders (length commanders) MAX_COMMANDER_DESIGNATIONS]), s)
      else case ?v of Err errors \<Rightarrow> (Err (ValidationFailed errors), s) | Panic \<Rightarrow> (Panic, s) | Ok _ \<Rightarrow> close_deckbuilding seat ?s)"
    using assms(2-5) by (simp add: apply_submit_deck_def Let_def)
  note run = this[unfolded assms(8)]
  show ?thesis
  proof (cases "legal_submission s seat main_deck commanders")
    case True
    then have "length commanders \<le> MAX_COMMANDER_DESIGNATIONS" by (simp add: legal_submission_def)
    with True * run have "(r, t) = close_deckbuilding seat ?s" by simp
    then show ?thesis using True assms(2)
      by (auto simp: close_deckbuilding_spec Let_def all_humans_submitted_def split: if_splits)
  next
    case False
    then have "\<not> is_ok r \<and> t = s"
      using * run by (cases ?v; cases "MAX_COMMANDER_DESIGNATIONS < length commanders") auto
    with False show ?thesis by simp
  qed
qed

definition sample_building :: draft_session where
  "sample_building = (sample_session Quick 1)\<lparr>ds_status := Deckbuilding, ds_pools := [[sample_card ''a'']],
     ds_config := (sample_config Quick 1)\<lparr>cf_min_deck_size := 2\<rparr>\<rparr>"

section \<open>The session invariant\<close>

definition stack_content :: "draft_session \<Rightarrow> draft_card_instance multiset" where
  "stack_content s = (case ds_shared_stack s of None \<Rightarrow> {#} | Some st \<Rightarrow> stack_cards st)"

definition session_cards :: "draft_session \<Rightarrow> draft_card_instance multiset" where
  "session_cards s = pass_cards s + stack_content s"

definition table_clear :: "draft_session \<Rightarrow> bool" where
  "table_clear s \<longleftrightarrow> table_cards s = {#} \<and> stack_content s = {#}"

definition drafting_inv :: "draft_session \<Rightarrow> bool" where
  "drafting_inv s \<longleftrightarrow>
     (case pr_distribution (procedure (ds_kind s)) of
        PickAndPass \<Rightarrow> pick_inv s \<and> ds_shared_stack s = None
      | SharedStackPiles _ \<Rightarrow> winston_inv s \<and> ds_current_pack s = replicate (length (ds_seats s)) None
          \<and> ds_packs_by_seat s = replicate (length (ds_seats s)) []
      | AllAtOnce \<Rightarrow> False)"

definition session_inv :: "draft_session \<Rightarrow> bool" where
  "session_inv s \<longleftrightarrow> length (ds_seats s) < 256 \<and> length (ds_pools s) = length (ds_seats s)
     \<and> validate_legacy_admission s = Ok ()
     \<and> (case ds_status s of
          Lobby \<Rightarrow> lobby_session s
        | Drafting \<Rightarrow> drafting_inv s
        | Paused \<Rightarrow> False
        | _ \<Rightarrow> table_clear s)"

text \<open>The fields that hold cards or decide how a session is dealt.\<close>

definition same_cards :: "draft_session \<Rightarrow> draft_session \<Rightarrow> bool" where
  "same_cards s t \<longleftrightarrow> length (ds_seats t) = length (ds_seats s) \<and> ds_pools t = ds_pools s \<and> ds_config t = ds_config s
     \<and> ds_kind t = ds_kind s \<and> ds_fifo t = ds_fifo s \<and> ds_shared_stack t = ds_shared_stack s
     \<and> ds_current_pack t = ds_current_pack s \<and> ds_packs_by_seat t = ds_packs_by_seat s
     \<and> length (ds_current_pack_origins t) = length (ds_current_pack_origins s)"

definition same_turn :: "draft_session \<Rightarrow> draft_session \<Rightarrow> bool" where
  "same_turn s t \<longleftrightarrow> same_cards s t \<and> ds_status t = ds_status s \<and> ds_current_pack_number t = ds_current_pack_number s
     \<and> (\<forall>i<length (ds_seats s). flags_get (ds_seats_picked_this_round t) i = flags_get (ds_seats_picked_this_round s) i)"

lemma same_cards_content:
  assumes "same_cards s t"
  shows "session_cards t = session_cards s" "table_clear t = table_clear s" "pick_shape t = pick_shape s"
  using assms
  by (simp_all add: same_cards_def session_cards_def stack_content_def pass_cards_def table_cards_def table_clear_def
      pick_shape_def Let_def)

lemma same_turn_inv:
  assumes "same_turn s t" "session_inv s"
  shows "session_inv t" "session_cards t = session_cards s"
proof -
  from assms(1) have c: "same_cards s t" by (simp add: same_turn_def)
  note content = same_cards_content[OF c]
  show "session_cards t = session_cards s" by (rule content)
  have pick: "pick_inv t = pick_inv s"
    using assms(1) content unfolding same_turn_def same_cards_def
    by (auto simp: pick_inv_def pick_phase_def pass_cards_def table_cards_def rounds_ok_def pick_pending_def split: draft_status.splits)
  have "winston_inv t = winston_inv s" using assms(1) by (simp add: same_turn_def same_cards_def winston_inv_def)
  with pick have "drafting_inv t = drafting_inv s"
    using assms(1) by (simp add: drafting_inv_def same_turn_def same_cards_def split: pack_distribution.splits)
  moreover have "lobby_session t = lobby_session s"
    using assms(1) by (simp add: lobby_session_def same_turn_def same_cards_def)
  ultimately show "session_inv t"
    using assms content by (simp add: session_inv_def same_turn_def same_cards_def validate_legacy_admission_Ok split: draft_status.splits)
qed

lemma same_cards_inv:
  assumes "same_cards s t" "session_inv s" "table_clear s" "ds_status t \<notin> {Lobby, Drafting, Paused, Review}"
  shows "session_inv t" "session_cards t = session_cards s"
proof -
  note content = same_cards_content[OF assms(1)]
  show "session_cards t = session_cards s" by (rule content)
  show "session_inv t"
    using assms content by (auto simp: session_inv_def same_cards_def validate_legacy_admission_Ok split: draft_status.splits)
qed

lemma session_inv_post:
  assumes "session_inv s" "ds_status s \<notin> {Lobby, Drafting}"
  shows "table_clear s"
  using assms by (auto simp: session_inv_def split: draft_status.splits)

section \<open>Every action keeps the session invariant\<close>

definition keeps :: "draft_session \<Rightarrow> session_step \<Rightarrow> bool" where
  "keeps s res \<longleftrightarrow> fst res \<noteq> Panic \<and> session_inv (snd res) \<and> session_cards (snd res) = session_cards s
     \<and> ds_config (snd res) = ds_config s"

lemma keeps_turn: "session_inv s \<Longrightarrow> r \<noteq> Panic \<Longrightarrow> same_turn s t \<Longrightarrow> keeps s (r, t)"
  using same_turn_inv by (simp add: keeps_def same_turn_def same_cards_def)

lemma keeps_post:
  "session_inv s \<Longrightarrow> r \<noteq> Panic \<Longrightarrow> same_cards s t \<Longrightarrow> ds_status s \<notin> {Lobby, Drafting}
     \<Longrightarrow> ds_status t \<notin> {Lobby, Drafting, Paused, Review} \<Longrightarrow> keeps s (r, t)"
  using same_cards_inv[OF _ _ session_inv_post] by (simp add: keeps_def) (simp add: same_cards_def)

lemma same_turn_refl [simp]: "same_turn s s"
  by (simp add: same_turn_def same_cards_def)

lemma keeps_refused: "session_inv s \<Longrightarrow> r \<noteq> Panic \<Longrightarrow> keeps s (r, s)"
  by (simp add: keeps_turn)

lemma session_inv_u8: "session_inv s \<Longrightarrow> as_u8 (length (ds_seats s)) = length (ds_seats s)"
  by (simp add: session_inv_def as_u8_def)

lemma keeps_seat_ops:
  assumes "session_inv s"
  shows "keeps s (apply_replace_seat_with_bot s seat name)" "keeps s (apply_set_seat_connected s seat connected)"
  using assms
  by (auto simp: apply_replace_seat_with_bot_def apply_set_seat_connected_def Let_def session_inv_u8
      intro!: keeps_refused keeps_turn) (simp_all add: same_turn_def same_cards_def)

lemma validate_limited_deck_not_Panic [simp]: "validate_limited_deck keys d p a m f c r \<noteq> Panic"
  by (simp add: validate_limited_deck_def Let_def)

lemma keeps_submit:
  assumes "session_inv s"
  shows "keeps s (apply_submit_deck keys s seat main_deck commanders printings)"
proof (cases "ds_status s = Deckbuilding \<and> seat < length (ds_seats s)")
  case True
  then have "index (ds_pools s) seat = Ok (ds_pools s ! seat)" using assms by (simp add: session_inv_def)
  then show ?thesis using True assms
    by (auto simp: apply_submit_deck_def Let_def session_inv_u8 close_deckbuilding_def same_cards_def
        split: outcome.split post_draft_play.split intro!: keeps_refused keeps_post)
next
  case False
  then show ?thesis using assms by (auto simp: apply_submit_deck_def Let_def session_inv_u8 intro!: keeps_refused)
qed

lemma keeps_tournament:
  assumes "session_inv s"
  shows "keeps s (apply_generate_pairings seed_from shuffle s)" "keeps s (apply_advance_round s)"
    "keeps s (apply_report_match_result s reported winner_seat)"
proof -
  show "keeps s (apply_generate_pairings seed_from shuffle s)"
    using assms unfolding apply_generate_pairings_def Let_def split_beta
    by (auto simp: same_cards_def split: draft_status.splits intro!: keeps_refused keeps_post)
  show "keeps s (apply_advance_round s)"
    using assms by (auto simp: apply_advance_round_def same_cards_def intro!: keeps_refused keeps_post)
  have frame: "same_cards s (record_result s idx w)" "ds_status (record_result s idx w) = ds_status s" for idx w
    by (simp_all add: record_result_def Let_def same_cards_def)
  have close: "same_cards s (snd (close_round u)) \<and> ds_status (snd (close_round u)) \<in> {Complete, RoundComplete, ds_status u}"
    if "same_cards s u" for u
    using that by (auto simp: close_round_def Let_def same_cards_def split: tournament_format.splits)
  have rep: "reported_winner s pairing winner_seat \<noteq> Panic" for pairing
    by (auto simp: reported_winner_def Let_def split: option.splits)
  have rec: "keeps s (Ok ds, snd (close_round (record_result s idx w)))" if "ds_status s \<in> {MatchInProgress, RoundComplete}" for ds idx w
    by (rule keeps_post[OF assms]) (use close[OF frame(1)[of idx w]] frame(2)[of idx w] that in auto)
  show "keeps s (apply_report_match_result s reported winner_seat)"
    using assms rep
    by (auto simp: apply_report_match_result_def Let_def split_beta split: option.splits outcome.splits intro!: keeps_refused rec)
qed

definition pick_frame :: "draft_session \<Rightarrow> draft_session \<Rightarrow> bool" where
  "pick_frame s t \<longleftrightarrow> ds_seats t = ds_seats s \<and> ds_config t = ds_config s \<and> ds_kind t = ds_kind s \<and> ds_fifo t = ds_fifo s
     \<and> ds_shared_stack t = ds_shared_stack s"

lemma open_next_pack_frame:
  assumes "try_fold open_next_pack xs s = Ok t"
  shows "pick_frame s t"
  by (rule try_fold_invariant[OF assms, where I = "pick_frame s"])
     (auto simp: pick_frame_def open_next_pack_def outcome_simps split: list.splits if_splits option.splits)

lemma finish_pick_frame:
  assumes "cf_flow (ds_config s) = LegacyBarrier"
  shows "pick_frame s (snd (finish_pick s seat ids))"
proof -
  have adv: "pick_frame s (snd (advance_pack_round n deltas u))" if "pick_frame s u" for u deltas n
    using that by (auto simp: advance_pack_round_def Let_def pick_frame_def split: outcome.split dest: open_next_pack_frame)
  have pass: "pick_frame s (snd (pass_packs n deltas u))" if "pick_frame s u" for u deltas n
    using that by (auto simp: pass_packs_def Let_def pick_frame_def split: outcome.split)
  show ?thesis
    using assms adv pass
    by (auto simp: finish_pick_def finish_pick_barrier_def Let_def pick_frame_def split: outcome.split bool.split)
qed

lemma pick_step_frame:
  assumes "session_inv s"
  shows "pick_frame s (snd (pick_step s a))"
proof -
  have flow: "cf_flow (ds_config s) = LegacyBarrier" "validate_legacy_admission s = Ok ()"
    using assms by (auto simp: session_inv_def validate_legacy_admission_Ok)
  have fin: "pick_frame s (snd (finish_pick u seat ids))" if "pick_frame s u" for u seat ids
    using finish_pick_frame[of u seat ids] that flow by (auto simp: pick_frame_def)
  have cards: "pick_frame u t" if "pick_cards u seat ids = Ok t" for u t seat ids
    using that by (auto simp: pick_cards_def pick_frame_def outcome_simps Let_def split: option.splits if_splits)
  have swap: "pick_frame u t" if "swap_effect_card u seat e ids = Ok t" for u t seat e ids
    using that by (auto simp: swap_effect_card_def pick_frame_def outcome_simps Let_def split: option.splits if_splits)
  have re: "pick_frame s (reshape_flags n s)" for n by (simp add: pick_frame_def reshape_flags_def)
  have trans: "pick_frame s t" if "pick_frame (reshape_flags n s) t" for n t
    using that by (simp add: pick_frame_def reshape_flags_def)
  have "pick_frame s s" by (simp add: pick_frame_def)
  with re flow show ?thesis
    by (auto simp: pick_step_def apply_pick_def apply_pick_inner_def apply_pick_with_draft_effect_def
        apply_pick_with_effect_inner_def Let_def split: prod.split option.split outcome.split bool.split
        dest!: cards swap intro!: fin intro: trans)
qed

lemma reshape_same_turn: "same_turn s (reshape_flags n s)"
  by (simp add: same_turn_def same_cards_def) (simp add: reshape_flags_def)

lemma no_pack_pick:
  assumes "session_inv s" "ds_current_pack s = replicate (length (ds_seats s)) None"
  shows "\<exists>e. fst (pick_step s a) = Err e \<and> (snd (pick_step s a) = s \<or> snd (pick_step s a) = reshape_flags (length (ds_seats s)) s)"
proof -
  let ?u = "reshape_flags (length (ds_seats s)) s"
  have flow: "validate_legacy_admission s = Ok ()" and len: "length (ds_pools s) = length (ds_seats s)"
    using assms by (auto simp: session_inv_def)
  have "pick_cards ?u seat ids = Err (NoPendingPack seat)" if "seat < length (ds_seats s)" for seat ids
    using that assms(2) by (simp add: pick_cards_def)
  moreover have "swap_effect_card ?u seat e' ids = Err (if position (is_effect_card e') (ds_pools s ! seat) = None
      then DraftEffectCardNotInPool e' else NoPendingPack seat)" if "seat < length (ds_seats s)" for seat e' ids
    using that assms(2) len by (cases "position (is_effect_card e') (ds_pools s ! seat)") (simp_all add: swap_effect_card_def)
  ultimately show ?thesis
    using flow session_inv_u8[OF assms(1)]
    by (auto simp: pick_step_def apply_pick_def apply_pick_inner_def apply_pick_with_draft_effect_def
        apply_pick_with_effect_inner_def Let_def not_le split: prod.split option.split outcome.split bool.split)
qed

lemma idle_pick: "session_inv s \<Longrightarrow> ds_status s \<noteq> Drafting \<Longrightarrow> \<exists>e. pick_step s a = (Err e, s)"
  by (auto simp: session_inv_def pick_step_def apply_pick_def apply_pick_inner_def apply_pick_with_draft_effect_def
        apply_pick_with_effect_inner_def split: prod.split option.split)

lemma session_drafting: "session_inv s \<Longrightarrow> ds_status s = Drafting \<Longrightarrow> drafting_inv s"
  by (simp add: session_inv_def)

lemma keeps_pick:
  assumes "session_inv s"
  shows "keeps s (pick_step s a)"
proof (cases "ds_status s = Drafting")
  case True
  note dr = session_drafting[OF assms True]
  show ?thesis
  proof (cases "pr_distribution (procedure (ds_kind s))")
    case PickAndPass
    with dr have inv: "pick_inv s" "ds_shared_stack s = None" by (simp_all add: drafting_inv_def)
    let ?t = "snd (pick_step s a)"
    have frame: "pick_frame s ?t" by (rule pick_step_frame[OF assms])
    have t: "pick_inv ?t" "pass_cards ?t = pass_cards s" "fst (pick_step s a) \<noteq> Panic"
      using picks.step_inv pick_cards.step_content pick_safe.step_no_panic inv(1) by blast+
    have "session_inv ?t"
      using t(1) frame assms PickAndPass inv(2)
      by (auto simp: session_inv_def pick_frame_def drafting_inv_def validate_legacy_admission_Ok pick_inv_def pick_shape_def
          pick_phase_def table_clear_def stack_content_def Let_def split: draft_status.splits)
    with t frame inv(2) show ?thesis by (simp add: keeps_def session_cards_def stack_content_def pick_frame_def)
  next
    case (SharedStackPiles p)
    with dr have "ds_current_pack s = replicate (length (ds_seats s)) None" by (simp add: drafting_inv_def)
    from no_pack_pick[OF assms this, of a] show ?thesis
      by (metis assms keeps_turn outcome.distinct(5) prod.collapse reshape_same_turn same_turn_refl)
  qed (use dr in \<open>simp add: drafting_inv_def\<close>)
next
  case False
  with idle_pick[OF assms, of a] keeps_refused[OF assms] show ?thesis by auto
qed

lemma keeps_shared_stack:
  assumes "session_inv s"
  shows "keeps s (apply_shared_stack_decision s seat pile d)"
proof (cases "ds_status s = Drafting")
  case True
  note dr = session_drafting[OF assms True]
  show ?thesis
  proof (cases "pr_distribution (procedure (ds_kind s))")
    case PickAndPass
    with dr have "ds_shared_stack s = None" by (simp add: drafting_inv_def)
    then show ?thesis using assms
      by (auto simp: apply_shared_stack_decision_def Let_def shared_stack_def intro!: keeps_refused)
  next
    case (SharedStackPiles p)
    with dr have inv: "winston_inv s" "ds_current_pack s = replicate (length (ds_seats s)) None"
      "ds_packs_by_seat s = replicate (length (ds_seats s)) []" by (simp_all add: drafting_inv_def)
    let ?res = "apply_shared_stack_decision s seat pile d"
    show ?thesis
    proof (cases "is_ok (fst ?res)")
      case ok: True
      have w: "winston_inv (snd ?res)" "winston_cards (snd ?res) = winston_cards s"
        using winston_step_inv[OF inv(1)] winston_step_cards[OF winston_playable[OF inv(1)]] by blast+
      obtain st' gained where t: "snd ?res = s\<lparr>ds_shared_stack := Some st', ds_pools := (ds_pools s)[seat := ds_pools s ! seat @ gained],
         ds_status := (if stack_exhausted st' then Deckbuilding else Drafting)\<rparr>"
        by (rule apply_Ok_elim[OF winston_playable[OF inv(1)] ok])
      have clear: "table_cards (snd ?res) = {#}" "table_cards s = {#}"
        using inv(2,3) by (simp_all add: t table_cards_def flatten_mset_empty)
      have "stack_exhausted st' \<Longrightarrow> stack_cards st' = {#}" by (auto simp: stack_exhausted_def stack_cards_def list_all_iff flatten_mset_empty)
      then have "session_inv (snd ?res)"
        using assms w inv SharedStackPiles clear(1)
        by (auto simp: session_inv_def drafting_inv_def validate_legacy_admission_Ok t table_clear_def stack_content_def)
      moreover have "session_cards (snd ?res) = session_cards s"
        using w(2) clear by (simp add: session_cards_def pass_cards_def winston_cards_def stack_content_def ac_simps)
      ultimately show ?thesis using ok t by (auto simp: keeps_def)
    next
      case False
      then have "snd ?res = s" by (rule apply_refused_unchanged)
      moreover have "fst ?res \<noteq> Panic" by (rule winston_step_no_panic[OF winston_playable[OF inv(1)]])
      ultimately show ?thesis using assms by (simp add: keeps_def)
    qed
  qed (use dr in \<open>simp add: drafting_inv_def\<close>)
next
  case False
  with assms show ?thesis by (simp add: apply_shared_stack_decision_def keeps_refused)
qed

lemma deal_seat_frame:
  assumes "try_fold deal_seat xs s = Ok t"
  shows "pick_frame s t"
  by (rule try_fold_invariant[OF assms, where I = "pick_frame s"])
     (auto simp: pick_frame_def deal_seat_def split: list.splits if_splits)

definition start_effect :: "draft_session \<Rightarrow> draft_delta list draft_result \<Rightarrow> draft_session \<Rightarrow> bool" where
  "start_effect s r t \<longleftrightarrow> ds_seats t = ds_seats s \<and> ds_config t = ds_config s \<and> ds_kind t = ds_kind s \<and> ds_fifo t = ds_fifo s
    \<and> (\<not> is_ok r \<longrightarrow> same_cards s t \<and> ds_status t = ds_status s)
    \<and> (case pr_distribution (procedure (ds_kind s)) of
          PickAndPass \<Rightarrow> ds_shared_stack t = ds_shared_stack s
        | SharedStackPiles p \<Rightarrow> ds_pools t = ds_pools s \<and> ds_current_pack t = ds_current_pack s \<and> ds_packs_by_seat t = ds_packs_by_seat s
        | AllAtOnce \<Rightarrow> is_ok r \<longrightarrow> table_cards t = {#} \<and> ds_shared_stack t = ds_shared_stack s)"

lemma start_frame:
  assumes "apply_start_draft seed_from shuffle random_range source s = (r, t)"
    "length (ds_current_pack_origins s) = as_u8 (length (ds_seats s))"
  shows "start_effect s r t"
proof -
  have err: "start_effect s r' s" if "\<not> is_ok r'" for r' using that by (simp add: start_effect_def same_cards_def split: pack_distribution.split)
  show ?thesis
  proof (cases "is_ok (start_checks s) \<and> source \<noteq> None")
    case False
    then show ?thesis using assms(1) err by (cases "start_checks s") (auto simp: apply_start_draft_def)
  next
    case True
    then obtain src u where src: "source = Some src" "start_checks s = Ok u" by (auto simp: is_ok_iff)
    obtain g rng s1 where gen: "generate_start_packs src (seed_from (cf_rng_seed (ds_config s))) (as_u8 (length (ds_seats s))) s = (g, rng, s1)"
      by (cases "generate_start_packs src (seed_from (cf_rng_seed (ds_config s))) (as_u8 (length (ds_seats s))) s")
    have s1: "\<exists>pool. s1 = s\<lparr>ds_booster_pack_pool := pool\<rparr>"
      using gen by (auto simp: generate_start_packs_def split: outcome.splits prod.splits intro: exI[of _ "ds_booster_pack_pool s"])
    show ?thesis
    proof (cases g)
      case (Ok packs)
      let ?s = "s1\<lparr>ds_pack_sizes := recorded_pack_sizes packs\<rparr>"
      have run: "(r, t) = (case pr_distribution (procedure (ds_kind s)) of
         AllAtOnce \<Rightarrow> start_all_at_once ?s packs
       | SharedStackPiles p \<Rightarrow> start_shared_stack shuffle random_range p rng ?s packs
       | PickAndPass \<Rightarrow> start_pick_and_pass ?s packs)"
        using assms(1) src gen Ok s1 by (auto simp: apply_start_draft_def Let_def)
      show ?thesis
      proof (cases "pr_distribution (procedure (ds_kind s))")
        case PickAndPass
        then show ?thesis using run s1 assms(2)
          by (auto simp: start_pick_and_pass_def Let_def start_effect_def same_cards_def pick_frame_def resize_same
              split: outcome.splits dest!: deal_seat_frame)
      next
        case AllAtOnce
        then show ?thesis using run s1
          by (auto simp: start_all_at_once_def start_effect_def same_cards_def table_cards_def flatten_mset_empty split: if_splits)
      next
        case (SharedStackPiles p)
        then show ?thesis using run s1
          by (auto simp: start_shared_stack_def Let_def start_effect_def same_cards_def split: if_splits outcome.splits prod.splits)
      qed
    next
      case (Err e)
      with assms(1) src gen s1 show ?thesis by (auto simp: apply_start_draft_def start_effect_def same_cards_def split: pack_distribution.split)
    next
      case Panic
      with assms(1) src gen s1 show ?thesis by (auto simp: apply_start_draft_def start_effect_def same_cards_def split: pack_distribution.split)
    qed
  qed
qed

text \<open>What the theorems assume of the environment: shuffles permute and draws stay in range.\<close>

definition env_ok :: "'r draft_env \<Rightarrow> bool" where
  "env_ok env \<longleftrightarrow> permutes (env_shuffle env) \<and> ranges (env_random_range env)"

definition source_ok :: "'r pack_source \<Rightarrow> draft_config \<Rightarrow> bool" where
  "source_ok src config \<longleftrightarrow> deals_full src config \<and> 0 < cf_pack_count config \<and> cf_pack_count config < 256"

lemma flatten_mset_replicate: "flatten_mset (replicate n []) = {#}"
  by (simp add: flatten_mset_empty)

lemma start_session:
  assumes "session_inv s" "ds_status s = Lobby" "permutes shuffle" "ranges random_range" "source_ok src (ds_config s)"
    "apply_start_draft seed_from shuffle random_range (Some src) s = (r, t)"
  shows "r \<noteq> Panic \<and> session_inv t \<and> ds_config t = ds_config s \<and> unique_ids (session_cards t)"
proof -
  from assms(1,2) have lob: "lobby_session s" and n: "length (ds_seats s) < 256" and adm: "validate_legacy_admission s = Ok ()"
    by (simp_all add: session_inv_def)
  have cards: "session_cards s = {#}"
    using lob by (simp add: lobby_session_def session_cards_def pass_cards_def table_cards_def stack_content_def flatten_mset_empty)
  have eff: "start_effect s r t"
    by (rule start_frame[OF assms(6)]) (use lob session_inv_u8[OF assms(1)] in \<open>simp add: lobby_session_def\<close>)
  have kind: "ds_kind s = cf_kind (ds_config s)" using lob by (simp add: lobby_session_def)
  note st = start_lobby[OF lob refl refl n adm _ _ _ assms(3,4,6)]
  show ?thesis
  proof (cases "is_ok r")
    case False
    with eff have "same_turn s t \<or> (same_cards s t \<and> ds_status t = Lobby)" using assms(2) by (simp add: start_effect_def)
    with eff False assms(2) have "same_cards s t" "ds_status t = Lobby" by (simp_all add: start_effect_def)
    with assms(1) lob have "session_inv t" by (simp add: session_inv_def same_cards_def lobby_session_def validate_legacy_admission_Ok assms(2))
    moreover have "session_cards t = {#}" using same_cards_content(1)[OF \<open>same_cards s t\<close>] cards by simp
    ultimately show ?thesis using st assms(5) eff by (simp add: source_ok_def start_effect_def unique_ids_def)
  next
    case True
    with st assms(5) obtain packs where packs: "full_matrix (length (ds_seats s)) (cf_pack_count (ds_config s)) packs"
      and post: "case pr_distribution (procedure (ds_kind s)) of
            PickAndPass \<Rightarrow> ds_status t = Drafting \<and> pick_inv t \<and> pass_cards t = mset (concat (concat packs))
          | SharedStackPiles _ \<Rightarrow> ds_status t = Drafting \<and> winston_inv t \<and> winston_cards t = mset (concat (concat packs))
          | AllAtOnce \<Rightarrow> ds_status t = Deckbuilding \<and> ds_pools t = map concat packs"
      by (auto simp: source_ok_def kind)
    have uniq: "unique_ids (mset (concat (concat packs)))"
      using packs by (auto simp: full_matrix_def unique_ids_def distinct_count_atmost_1 simp flip: mset_map)
    have "session_inv t \<and> session_cards t = mset (concat (concat packs))"
    proof (cases "pr_distribution (procedure (ds_kind s))")
      case PickAndPass
      with post eff adm n lob show ?thesis
        by (auto simp: session_inv_def start_effect_def drafting_inv_def validate_legacy_admission_Ok lobby_session_def
            session_cards_def stack_content_def pick_inv_def pick_shape_def Let_def)
    next
      case (SharedStackPiles p)
      with post eff adm n lob show ?thesis
        by (auto simp: session_inv_def start_effect_def drafting_inv_def validate_legacy_admission_Ok lobby_session_def
            session_cards_def stack_content_def winston_cards_def pass_cards_def table_cards_def flatten_mset_replicate)
    next
      case AllAtOnce
      with post eff adm n lob packs True show ?thesis
        by (auto simp: session_inv_def start_effect_def validate_legacy_admission_Ok lobby_session_def full_matrix_def table_clear_def
            session_cards_def stack_content_def pass_cards_def flatten_mset_concat concat_map_concat)
    qed
    then show ?thesis using uniq st assms(5) eff by (simp add: source_ok_def start_effect_def)
  qed
qed

lemma legacy_action:
  assumes "session_inv s" "env_ok env" "source_ok src (ds_config s)" "unique_ids (session_cards s)"
    "apply_legacy env s action (Some src) = (r, t)"
  shows "r \<noteq> Panic \<and> session_inv t \<and> ds_config t = ds_config s \<and> unique_ids (session_cards t)
    \<and> (ds_status s \<noteq> Lobby \<longrightarrow> session_cards t = session_cards s)"
proof -
  have adm: "validate_legacy_admission s = Ok ()" "cf_flow (ds_config s) \<noteq> FifoAsync"
    using assms(1) by (auto simp: session_inv_def validate_legacy_admission_Ok)
  have keep: ?thesis if "keeps s (r, t)" using that assms(4) by (simp add: keeps_def)
  have run: "(r, t) = (if is_fifo_only action then (Err IncompatibleFlow, s) else apply_existing env s action (Some src))"
    using assms(5) adm by (simp add: apply_legacy_def)
  show ?thesis
  proof (cases action)
    case StartDraft
    then have st: "apply_start_draft (env_seed_from env) (env_shuffle env) (env_random_range env) (Some src) s = (r, t)"
      using run by simp
    show ?thesis
    proof (cases "ds_status s = Lobby")
      case True
      with start_session[OF assms(1) True _ _ assms(3) st] assms(2) show ?thesis by (simp add: env_ok_def)
    next
      case False
      with st have "(r, t) = (Err (InvalidTransition (ds_status s) ''StartDraft''), s)"
        by (auto simp: apply_start_draft_def start_checks_def)
      with keeps_refused[OF assms(1)] show ?thesis by (intro keep) simp
    qed
  next
    case (Pick seat ids)
    with run keeps_pick[OF assms(1), of "(seat, None, ids)"] show ?thesis by (intro keep) (simp add: pick_step_def)
  next
    case (PickWithDraftEffect seat e ids)
    with run keeps_pick[OF assms(1), of "(seat, Some e, ids)"] show ?thesis by (intro keep) (simp add: pick_step_def)
  next
    case GeneratePairings
    with run keeps_tournament(1)[OF assms(1), of "env_seed_from env" "env_shuffle_records env"] show ?thesis by (intro keep) simp
  qed (use run keep keeps_refused[OF assms(1)] keeps_submit[OF assms(1)] keeps_tournament(2,3)[OF assms(1)]
      keeps_seat_ops[OF assms(1)] keeps_shared_stack[OF assms(1)] in auto)
qed

definition legacy_inv :: "draft_config \<Rightarrow> draft_session \<Rightarrow> bool" where
  "legacy_inv config s \<longleftrightarrow> session_inv s \<and> ds_config s = config \<and> unique_ids (session_cards s)"

definition legacy_step :: "'r draft_env \<Rightarrow> 'r pack_source \<Rightarrow> draft_config \<Rightarrow> draft_session \<Rightarrow> draft_action \<Rightarrow> session_step" where
  "legacy_step env src config s action =
     (if env_ok env \<and> source_ok src config then apply_legacy env s action (Some src) else (Err IncompatibleFlow, s))"

interpretation legacy: panic_free_reducer "legacy_step env src config" "legacy_inv config"
  for env :: "'r draft_env" and src :: "'r pack_source" and config
proof unfold_locales
  fix s action
  assume inv: "legacy_inv config s"
  have "env_ok env \<Longrightarrow> source_ok src config \<Longrightarrow> legacy_inv config (snd (apply_legacy env s action (Some src)))
      \<and> fst (apply_legacy env s action (Some src)) \<noteq> Panic"
    using legacy_action[of s env src action "fst (apply_legacy env s action (Some src))" "snd (apply_legacy env s action (Some src))"] inv
    by (simp add: legacy_inv_def)
  with inv show "legacy_inv config (snd (legacy_step env src config s action))" "fst (legacy_step env src config s action) \<noteq> Panic"
    by (auto simp: legacy_step_def)
qed

lemma new_session_inv:
  assumes "length seats < 256" "validate_legacy_admission (new_session config seats code) = Ok ()"
  shows "legacy_inv config (new_session config seats code)"
proof -
  have "session_cards (new_session config seats code) = {#}"
    by (simp add: session_cards_def pass_cards_def table_cards_def stack_content_def new_session_def Let_def flatten_mset_replicate
        flatten_mset_empty)
  with assms new_session_lobby[of config seats code] show ?thesis
    by (auto simp: legacy_inv_def session_inv_def unique_ids_def) (simp_all add: new_session_def Let_def)
qed

text \<open>
  C1. A legacy session is safe from its creation to its end. Whatever actions arrive, in whatever
  order, valid or not, \<open>apply\<close> never panics and the session invariant holds after every one of
  them: each status has the state it needs, every card of the session is in one place and has an
  id of its own. Once the draft is dealt no action adds or removes a card, and after the draft
  every card is in a pool.
\<close>

theorem legacy_session_safe:
  assumes "env_ok env" "source_ok src config" "length seats < 256"
    "validate_legacy_admission (new_session config seats code) = Ok ()"
    "s = run (\<lambda>s action. apply_legacy env s action (Some src)) (new_session config seats code) actions"
    "apply_legacy env s action (Some src) = (r, t)"
  shows "r \<noteq> Panic \<and> session_inv s \<and> session_inv t \<and> unique_ids (session_cards s)
    \<and> (ds_status s \<noteq> Lobby \<longrightarrow> session_cards t = session_cards s)
    \<and> (ds_status s \<notin> {Lobby, Drafting} \<longrightarrow> session_cards s = flatten_mset (ds_pools s))"
proof -
  have step: "legacy_step env src config = (\<lambda>s action. apply_legacy env s action (Some src))"
    using assms(1,2) by (intro ext) (simp add: legacy_step_def)
  have "legacy_inv config s"
    using legacy.run_inv[OF new_session_inv[OF assms(3,4)], of env src actions] unfolding step assms(5) .
  then have inv: "session_inv s" "ds_config s = config" "unique_ids (session_cards s)" by (simp_all add: legacy_inv_def)
  have "session_cards s = flatten_mset (ds_pools s)" if "ds_status s \<notin> {Lobby, Drafting}"
    using session_inv_post[OF inv(1) that] by (simp add: session_cards_def table_clear_def pass_cards_def)
  with legacy_action[OF inv(1) assms(1) _ inv(3) assms(6)] inv assms(2) show ?thesis by simp
qed

definition sample_env :: "unit draft_env" where
  "sample_env = \<lparr>env_seed_from = (\<lambda>_. ()), env_shuffle = (\<lambda>rng xs. (rev xs, rng)),
     env_shuffle_records = (\<lambda>rng xs. (xs, rng)), env_random_range = (\<lambda>rng n. (n - 1, rng)), env_keys = sorted_keys\<rparr>"

lemma sample_env_ok: "env_ok sample_env"
  by (simp add: env_ok_def sample_env_def permutes_def ranges_def)

theorem legacy_session_safe_witness:
  "\<exists>s. s = run (\<lambda>s action. apply_legacy sample_env s action (Some (fixture_pack_source ''SET'' 1)))
      (sample_session Winston 2) [StartDraft, SharedStackDecision 1 0 Take, Pick 0 [''SET-0-0-0'']]
    \<and> ds_status s = Drafting \<and> session_inv s \<and> unique_ids (session_cards s)"
proof -
  let ?run = "run (\<lambda>s action. apply_legacy sample_env s action (Some (fixture_pack_source ''SET'' 1)))
      (sample_session Winston 2) [StartDraft, SharedStackDecision 1 0 Take, Pick 0 [''SET-0-0-0'']]"
  have adm: "validate_legacy_admission (new_session (sample_config Winston 2) (sample_seats 2) ''CODE'') = Ok ()" by code_simp
  have src: "source_ok (fixture_pack_source ''SET'' 1) (sample_config Winston 2)"
    using fixture_deals_full[of 1] by (simp add: source_ok_def sample_config_def)
  have "ds_status ?run = Drafting" by code_simp
  with legacy_session_safe[OF sample_env_ok src _ adm _ prod.collapse[symmetric],
      where s = ?run and actions = "[StartDraft, SharedStackDecision 1 0 Take, Pick 0 [''SET-0-0-0'']]"]
  show ?thesis by (simp add: sample_session_def sample_seats_def)
qed

end
