(* ===== verification/Snapshot.thy ===== *)
theory Snapshot
  imports Session
begin

text \<open>
  The restore boundary and the atomic FIFO reducer of \<open>crates/draft-core/src/session.rs\<close>:
  \<open>validate_persisted_snapshot\<close> with its shared-stack, sealed and FIFO rules, \<open>new_fifo\<close>, and
  \<open>apply_at\<close>, which stages an action on a clone and commits it only when the result validates. A
  Rust \<open>HashSet\<close> that only collects is an \<open>fset\<close>. The lemmas show that the validator panics on no
  snapshot whatever, that an accepted FIFO snapshot has exactly one owner for every card of its
  manifest, that an accepted shared-stack snapshot can be played to the end, and that \<open>apply_at\<close>
  changes nothing when it fails and moves revision and time forward when it commits.
\<close>

section \<open>Legacy snapshots\<close>

definition stack_error :: "string \<Rightarrow> draft_error" where
  "stack_error reason = InvalidSharedStackConfiguration reason"

definition validate_stack_state :: "draft_session \<Rightarrow> nat \<Rightarrow> shared_stack_state \<Rightarrow> unit draft_result" where
  "validate_stack_state s piles st =
     (let n = length (ds_seats s) in
      if length (ss_piles st) \<noteq> piles \<or> length (ss_inspected st) \<noteq> piles
      then Err (stack_error (''a shared-stack session has exactly '' @ show_nat piles @ '' piles''))
      else if n \<le> ss_active_seat st \<or> piles \<le> ss_cursor st
      then Err (stack_error ''active seat and cursor must be in range'')
      else if list_ex (\<lambda>(seen, pile). length pile < seen) (zip (ss_inspected st) (ss_piles st))
      then Err (stack_error ''a seat cannot have inspected more cards than a pile holds'')
      else if ss_forced_draws st \<noteq> [] \<and> length (ss_forced_draws st) \<noteq> n
      then Err (stack_error ''a shared-stack session keeps one forced-draw notice per seat'')
      else if SHARED_STACK_HISTORY_CAPACITY < length (ss_history st)
      then Err (stack_error (''a shared-stack history keeps at most '' @ show_nat SHARED_STACK_HISTORY_CAPACITY @ '' decisions''))
      else if list_ex (\<lambda>r. piles \<le> sr_pile r) (ss_history st)
      then Err (stack_error ''a history record names a pile the session does not have'')
      else if list_ex (\<lambda>r. n \<le> sr_seat r) (ss_history st)
      then Err (stack_error ''a history record names a seat the session does not have'')
      else if length (ds_pools s) \<noteq> n \<or> cf_pod_size (ds_config s) \<noteq> n
      then Err (stack_error ''per-seat vectors do not match the core seats'')
      else if n \<le> ss_starting_seat st
      then Err (stack_error ''the starting seat must be a seat the session has'')
      else if list_ex (\<lambda>seen. seen \<noteq> 0) (drop (ss_cursor st + 1) (ss_inspected st))
      then Err (stack_error ''a seat cannot have inspected a pile beyond its cursor'')
      else if ds_status s = Drafting \<and> forced_decision st (ss_active_seat st) = None
      then Err (stack_error ''a drafting shared-stack session must admit a legal decision'')
      else Ok ())"

definition validate_shared_stack_snapshot :: "draft_session \<Rightarrow> nat \<Rightarrow> unit draft_result" where
  "validate_shared_stack_snapshot s n_piles =
     and_then (piles_needed n_piles) (\<lambda>piles.
       case ds_shared_stack s of
         None \<Rightarrow> if ds_status s = Drafting
                 then Err (stack_error ''a drafting shared-stack session must carry its stack'') else Ok ()
       | Some st \<Rightarrow> validate_stack_state s piles st)"

definition validate_sealed_snapshot :: "draft_session \<Rightarrow> unit draft_result" where
  "validate_sealed_snapshot s =
     and_then (admit_all_at_once (ds_kind s) (ds_config s) (Some (ds_set_code s)) (AdmitSnapshot LegacyBarrier)) (\<lambda>_.
       let n = length (ds_seats s); expected_pool_size = total_pack_cards s in
       if ds_status s = Drafting
       then Err (InvalidSealedSnapshot ''sealed sessions cannot be in drafting status'')
       else if cf_pod_size (ds_config s) \<noteq> n \<or> length (ds_pools s) \<noteq> n \<or> length (ds_current_pack s) \<noteq> n
               \<or> length (ds_packs_by_seat s) \<noteq> n
       then Err (InvalidSealedSnapshot ''per-seat vectors do not match the core seats'')
       else if ds_status s \<noteq> Lobby \<and> list_ex (\<lambda>pool. length pool \<noteq> expected_pool_size) (ds_pools s)
       then Err (InvalidSealedSnapshot
         ''started sealed pools must contain exactly one card from each configured pack'')
       else if ds_status s \<noteq> Lobby \<and> (list_ex (\<lambda>p. p \<noteq> None) (ds_current_pack s)
               \<or> list_ex (\<lambda>packs. packs \<noteq> []) (ds_packs_by_seat s))
       then Err (InvalidSealedSnapshot ''sealed packs must be retained only in player pools'')
       else Ok ())"

definition validate_legacy_snapshot :: "draft_session \<Rightarrow> unit draft_result" where
  "validate_legacy_snapshot s =
     (if ds_kind s \<noteq> cf_kind (ds_config s)
      then Err (InvalidSealedSnapshot ''session kind does not match configuration'')
      else let pod_size = as_u8 (length (ds_seats s)); p = procedure (ds_kind s) in
        and_then (validate_layout (cf_source (ds_config s)) pod_size (cf_pack_count (ds_config s))) (\<lambda>_.
        and_then (validate_source p (cf_source (ds_config s))) (\<lambda>_.
        and_then (admit_pod_size (ds_kind s) (cf_source (ds_config s)) (cf_tournament_format (ds_config s)) pod_size
                    (AdmitSnapshot LegacyBarrier)) (\<lambda>_.
          case pr_distribution p of
            PickAndPass \<Rightarrow> Ok ()
          | AllAtOnce \<Rightarrow> validate_sealed_snapshot s
          | SharedStackPiles n_piles \<Rightarrow> validate_shared_stack_snapshot s n_piles))))"

section \<open>FIFO snapshots: shape\<close>

definition live_phase :: "draft_session \<Rightarrow> fifo_draft_state \<Rightarrow> draft_active_phase option draft_result" where
  "live_phase s fifo =
     (case ds_status s of
        Drafting \<Rightarrow> Ok (Some PhaseDrafting)
      | Review \<Rightarrow> Ok (Some PhaseReview)
      | Paused \<Rightarrow> and_then (ok_or (snapshot_error ''paused phase missing'') (ff_paused fifo)) (\<lambda>p. Ok (Some (pz_phase p)))
      | _ \<Rightarrow> Ok None)"

definition validate_fifo_shape :: "draft_session \<Rightarrow> fifo_draft_state \<Rightarrow> unit draft_result" where
  "validate_fifo_shape s fifo =
     (let n = length (ds_seats s) in
      if \<not> valid_draft_id (ff_session_id fifo) \<or> MAX_DRAFT_JSON_INTEGER < ff_revision fifo
         \<or> MAX_DRAFT_JSON_INTEGER < ff_last_now_ms fifo
      then Err (snapshot_error ''invalid FIFO identity/counter/time'')
      else if list_ex (\<lambda>len. len \<noteq> n) [length (ff_seats fifo), length (ds_pools s), length (ds_packs_by_seat s),
              length (ds_current_pack s), length (ds_current_pack_origins s), length (ds_connected_seats s),
              length (ds_seats_picked_this_round s)]
      then Err (snapshot_error ''per-seat dimensions'')
      else if list_ex (\<lambda>p. p \<noteq> None) (ds_current_pack s) \<or> list_ex (\<lambda>p. p \<noteq> None) (ds_current_pack_origins s)
              \<or> list_ex (\<lambda>seat. flags_get (ds_seats_picked_this_round s) seat) [0..<cf_pod_size (ds_config s)]
              \<or> ds_pick_number s \<noteq> 0 \<or> ds_shared_stack s \<noteq> None
      then Err (snapshot_error ''FIFO contains legacy live authority'')
      else Ok ())"

definition generated_lobby_state :: "draft_session \<Rightarrow> fifo_draft_state \<Rightarrow> bool" where
  "generated_lobby_state s fifo \<longleftrightarrow>
     ff_packs fifo \<noteq> fmempty \<or> ff_cards fifo \<noteq> fmempty \<or> ff_removed fifo \<noteq> [] \<or> ff_returned_effects fifo \<noteq> fmempty
     \<or> ff_review fifo \<noteq> None \<or> ds_pack_sizes s \<noteq> [] \<or> ds_current_pack_number s \<noteq> 0
     \<or> list_ex (\<lambda>pool. pool \<noteq> []) (ds_pools s) \<or> list_ex (\<lambda>packs. packs \<noteq> []) (ds_packs_by_seat s)
     \<or> list_ex (\<lambda>seat. fs_queue seat \<noteq> [] \<or> fs_prompt seat \<noteq> None \<or> fs_generation seat \<noteq> 0
          \<or> fs_completed_steps seat \<noteq> 0 \<or> fs_round_completed_steps seat \<noteq> 0) (ff_seats fifo)"

section \<open>FIFO snapshots: the manifest\<close>

definition validate_manifest_card ::
  "fifo_draft_state \<Rightarrow> draft_pack_id \<Rightarrow> string \<Rightarrow> string fset \<Rightarrow> string fset draft_result" where
  "validate_manifest_card fifo pack_id card_id catalog_ids =
     and_then (ok_or (snapshot_error ''manifest physical card missing'') (fmlookup (ff_cards fifo) card_id)) (\<lambda>c.
       if \<not> valid_draft_id card_id \<or> ci_instance_id (cv_card c) \<noteq> card_id \<or> cv_pack_id c \<noteq> pack_id
          \<or> card_id |\<in>| catalog_ids
       then Err (snapshot_error ''manifest physical identity/origin'')
       else Ok (finsert card_id catalog_ids))"

definition validate_manifest_pack ::
  "draft_session \<Rightarrow> fifo_draft_state \<Rightarrow> nat \<times> nat \<Rightarrow> string fset \<Rightarrow> string fset draft_result" where
  "validate_manifest_pack s fifo coordinate catalog_ids =
     (case coordinate of (rnd, seat) \<Rightarrow>
        let pack_id = DraftPackId (rnd * cf_pod_size (ds_config s) + seat) in
        and_then (ok_or (snapshot_error ''manifest coordinate missing'') (fmlookup (ff_packs fifo) pack_id)) (\<lambda>pack.
          if pp_pack_id pack \<noteq> pack_id \<or> pp_opening_seat pack \<noteq> seat \<or> pp_round pack \<noteq> rnd
             \<or> pp_original_size pack = 0 \<or> pp_original_size pack \<noteq> length (pp_original_card_ids pack)
          then Err (snapshot_error ''manifest pack identity/size'')
          else and_then (if seat = 0 then index (ds_pack_sizes s) rnd else Ok (pp_original_size pack)) (\<lambda>size.
            if size \<noteq> pp_original_size pack
            then Err (snapshot_error ''compatibility pack size differs from manifest'')
            else try_fold (validate_manifest_card fifo pack_id) (pp_original_card_ids pack) catalog_ids)))"

definition validate_manifest :: "draft_session \<Rightarrow> fifo_draft_state \<Rightarrow> string fset draft_result" where
  "validate_manifest s fifo =
     (if fcard (fmdom (ff_packs fifo)) \<noteq> length (ds_seats s) * cf_pack_count (ds_config s)
         \<or> length (ds_pack_sizes s) \<noteq> cf_pack_count (ds_config s)
      then Err (snapshot_error ''manifest dimensions'')
      else and_then (try_fold (validate_manifest_pack s fifo)
              (List.product [0..<cf_pack_count (ds_config s)] [0..<cf_pod_size (ds_config s)]) {||}) (\<lambda>catalog_ids.
        if fcard catalog_ids \<noteq> fcard (fmdom (ff_cards fifo))
        then Err (snapshot_error ''unregistered catalog card'')
        else Ok catalog_ids))"

section \<open>FIFO snapshots: owners of cards\<close>

definition validate_owned_card ::
  "fifo_draft_state \<Rightarrow> draft_card_instance \<Rightarrow> string fset \<Rightarrow> string fset draft_result" where
  "validate_owned_card fifo c owned =
     (if \<not> (case fmlookup (ff_cards fifo) (ci_instance_id c) of None \<Rightarrow> False | Some original \<Rightarrow> cv_card original = c)
         \<or> ci_instance_id c |\<in>| owned
      then Err (snapshot_error ''duplicate/mismatched physical ownership'')
      else Ok (finsert (ci_instance_id c) owned))"

definition validate_scope ::
  "draft_clock \<Rightarrow> draft_clock_target \<Rightarrow> draft_paused_state option \<Rightarrow> nat \<Rightarrow> nat \<Rightarrow> unit draft_result" where
  "validate_scope clock target paused duration now =
     (if ck_target clock \<noteq> target then Err (snapshot_error ''clock scope mismatch'')
      else case (ck_state clock, paused) of
        (Running deadline_ms, None) \<Rightarrow>
          ensure (deadline_ms \<le> MAX_DRAFT_JSON_INTEGER \<and> deadline_ms - now \<le> duration)
            (snapshot_error ''clock status/bounds mismatch'')
      | (Frozen remaining_ms, Some _) \<Rightarrow>
          ensure (remaining_ms \<le> duration) (snapshot_error ''clock status/bounds mismatch'')
      | _ \<Rightarrow> Err (snapshot_error ''clock status/bounds mismatch''))"

definition validate_future_pack ::
  "fifo_draft_state \<Rightarrow> nat \<Rightarrow> nat \<Rightarrow> nat \<Rightarrow> nat \<times> draft_pack \<Rightarrow> string fset \<Rightarrow> string fset draft_result" where
  "validate_future_pack fifo n next_unopened seat_index entry owned =
     (case entry of (offset, pack) \<Rightarrow>
        (case try_u32 ((next_unopened + offset) * n + seat_index) of
           None \<Rightarrow> Panic
         | Some coordinate \<Rightarrow>
             (case fmlookup (ff_packs fifo) (DraftPackId coordinate) of
                None \<Rightarrow> Panic
              | Some original \<Rightarrow>
                  if map ci_instance_id pack \<noteq> pp_original_card_ids original
                  then Err (snapshot_error ''future pack order/origin'')
                  else try_fold (validate_owned_card fifo) pack owned)))"

definition validate_future_row ::
  "draft_session \<Rightarrow> fifo_draft_state \<Rightarrow> nat \<Rightarrow> nat \<times> draft_pack list \<Rightarrow> string fset \<Rightarrow> string fset draft_result" where
  "validate_future_row s fifo next_unopened entry owned =
     (case entry of (seat_index, future) \<Rightarrow>
        if length future \<noteq> cf_pack_count (ds_config s) - next_unopened
        then Err (snapshot_error ''future pack dimensions'')
        else try_fold (validate_future_pack fifo (length (ds_seats s)) next_unopened seat_index)
               (List.enumerate 0 future) owned)"

record snapshot_scan =
  sc_owned :: "string fset"
  sc_origins :: "nat fset"
  sc_pack_ids :: "draft_pack_id fset"
  sc_returns :: "string fset"

definition validate_live_card ::
  "fifo_draft_state \<Rightarrow> queued_draft_pack \<Rightarrow> draft_card_instance \<Rightarrow> snapshot_scan \<Rightarrow> snapshot_scan draft_result" where
  "validate_live_card fifo head c scan =
     and_then (validate_owned_card fifo c (sc_owned scan)) (\<lambda>owned.
       let scan1 = scan\<lparr>sc_owned := owned\<rparr> in
       case fmlookup (ff_returned_effects fifo) (ci_instance_id c) of
         Some assignment \<Rightarrow>
           if assignment \<noteq> qp_pack_id head \<or> ci_draft_effect c \<noteq> Some AdditionalPick
           then Err (snapshot_error ''counterfeit return membership'')
           else Ok (scan1\<lparr>sc_returns := finsert (ci_instance_id c) (sc_returns scan1)\<rparr>)
       | None \<Rightarrow>
           (case fmlookup (ff_cards fifo) (ci_instance_id c) of
              None \<Rightarrow> Panic
            | Some original \<Rightarrow>
                if cv_pack_id original \<noteq> qp_pack_id head
                then Err (snapshot_error ''foreign card without return membership'')
                else Ok scan1))"

definition validate_live_pack ::
  "draft_session \<Rightarrow> fifo_draft_state \<Rightarrow> queued_draft_pack \<Rightarrow> snapshot_scan \<Rightarrow> snapshot_scan draft_result" where
  "validate_live_pack s fifo head scan =
     and_then (ok_or (snapshot_error ''unregistered live pack'') (fmlookup (ff_packs fifo) (qp_pack_id head))) (\<lambda>original.
       let size = length (qp_pack head) in
       if qp_opening_seat head \<noteq> pp_opening_seat original \<or> qp_round head \<noteq> pp_round original
          \<or> qp_original_size head \<noteq> pp_original_size original \<or> qp_round head \<noteq> ds_current_pack_number s
          \<or> qp_opening_seat head |\<in>| sc_origins scan \<or> qp_pack_id head |\<in>| sc_pack_ids scan
       then Err (snapshot_error ''live pack origin/round/identity'')
       else if size = 0 \<or> qp_original_size head < size
               \<or> (size < qp_original_size head \<and> size \<le> sp_discard_threshold (cf_selection_policy (ds_config s)))
       then Err (snapshot_error ''empty/oversized/discardable live pack'')
       else try_fold (validate_live_card fifo head) (qp_pack head)
              (scan\<lparr>sc_origins := finsert (qp_opening_seat head) (sc_origins scan),
                 sc_pack_ids := finsert (qp_pack_id head) (sc_pack_ids scan)\<rparr>))"

section \<open>FIFO snapshots: seats and prompts\<close>

definition validate_progress :: "fifo_draft_state \<Rightarrow> nat \<Rightarrow> nat \<Rightarrow> bool \<Rightarrow> nat \<Rightarrow> fifo_seat_state \<Rightarrow> unit draft_result" where
  "validate_progress fifo current_pack_number pack_count live_drafting n seat =
     (let round_supply = (\<Sum>pack_id\<in>fmdom' (ff_packs fifo). case fmlookup (ff_packs fifo) pack_id of
            None \<Rightarrow> 0
          | Some pack \<Rightarrow> if pp_round pack = min current_pack_number (pack_count - 1) then pp_original_size pack else 0)
      in if MAX_DRAFT_JSON_INTEGER < fs_generation seat \<or> fcard (fmdom (ff_cards fifo)) < fs_completed_steps seat
            \<or> fs_completed_steps seat < fs_round_completed_steps seat \<or> fs_completed_steps seat + 1 < fs_generation seat
         then Err (snapshot_error ''progress/generation bounds'')
         else if round_supply < fs_round_completed_steps seat
         then Err (snapshot_error ''round progress exceeds supply'')
         else if (\<not> live_drafting \<and> fs_queue seat \<noteq> []) \<or> n < length (fs_queue seat)
         then Err (snapshot_error ''queue/status mismatch'')
         else Ok ())"

definition validate_prompt ::
  "draft_session \<Rightarrow> fifo_draft_state \<Rightarrow> nat \<Rightarrow> fifo_seat_state \<Rightarrow> queued_draft_pack \<Rightarrow> unit draft_result" where
  "validate_prompt s fifo seat_index seat head =
     and_then (ok_or (snapshot_error ''missing head prompt'') (fs_prompt seat)) (\<lambda>prompt.
       if pi_session_id (pm_id prompt) \<noteq> ff_session_id fifo \<or> pi_seat (pm_id prompt) \<noteq> seat_index
          \<or> pi_generation (pm_id prompt) = 0 \<or> pi_generation (pm_id prompt) \<noteq> fs_generation seat
          \<or> pm_pack_id prompt \<noteq> qp_pack_id head
       then Err (snapshot_error ''prompt/head binding'')
       else case (pick_duration (kp_pick (cf_clock_policy (ds_config s))) (fs_round_completed_steps seat), pm_clock prompt) of
         (None, None) \<Rightarrow> Ok ()
       | (Some duration, Some clock) \<Rightarrow>
           validate_scope clock (TargetPick (pm_id prompt)) (ff_paused fifo) duration (ff_last_now_ms fifo)
       | _ \<Rightarrow> Err (snapshot_error ''pick clock policy mismatch''))"

definition validate_seat ::
  "draft_session \<Rightarrow> fifo_draft_state \<Rightarrow> bool \<Rightarrow> nat \<times> fifo_seat_state \<Rightarrow> snapshot_scan \<Rightarrow> snapshot_scan draft_result" where
  "validate_seat s fifo live_drafting entry scan =
     (case entry of (seat_index, seat) \<Rightarrow>
        and_then (validate_progress fifo (ds_current_pack_number s) (cf_pack_count (ds_config s)) live_drafting
                    (length (ds_seats s)) seat) (\<lambda>_.
        and_then (try_fold (validate_live_pack s fifo) (fs_queue seat) scan) (\<lambda>scan1.
          case try_u8 seat_index of
            None \<Rightarrow> Panic
          | Some idx \<Rightarrow>
              (case (live_drafting, head_metadata s idx) of
                 (True, Some head) \<Rightarrow> and_then (validate_prompt s fifo seat_index seat head) (\<lambda>_. Ok scan1)
               | _ \<Rightarrow>
                   if fs_prompt seat \<noteq> None then Err (snapshot_error ''prompt without actionable/frozen head'')
                   else Ok scan1))))"

section \<open>FIFO snapshots: removed cards, pools and review\<close>

definition validate_removed ::
  "draft_session \<Rightarrow> fifo_draft_state \<Rightarrow> nat \<Rightarrow> removed_draft_card \<Rightarrow> string fset \<Rightarrow> string fset draft_result" where
  "validate_removed s fifo next_unopened r owned =
     and_then (ok_or (snapshot_error ''unknown removed card'') (fmlookup (ff_cards fifo) (rm_card_instance_id r))) (\<lambda>c.
       case fmlookup (ff_packs fifo) (rm_pack_id r) of
         None \<Rightarrow> Err (snapshot_error ''invalid removed ownership/source'')
       | Some pack \<Rightarrow>
           if (rm_pack_id r \<noteq> cv_pack_id c \<and> ci_draft_effect (cv_card c) \<noteq> Some AdditionalPick)
              \<or> next_unopened \<le> pp_round pack \<or> rm_card_instance_id r |\<in>| owned
           then Err (snapshot_error ''invalid removed ownership/source'')
           else case pr_distribution (procedure (ds_kind s)) of
             AllAtOnce \<Rightarrow> Err (snapshot_error ''AllAtOnce cannot remove cards'')
           | PickAndPass \<Rightarrow>
               (let enabled = (case rm_reason r of
                    Burn \<Rightarrow> 0 < sp_burns_per_pick (cf_selection_policy (ds_config s))
                  | Threshold \<Rightarrow> 0 < sp_discard_threshold (cf_selection_policy (ds_config s)))
                in if \<not> enabled then Err (snapshot_error ''removal reason is disabled by policy'')
                   else Ok (finsert (rm_card_instance_id r) owned))
           | SharedStackPiles _ \<Rightarrow> Err (InvalidConfiguration SHARED_STACK_HAS_NO_FIFO))"

fun any_foreign :: "fifo_draft_state \<Rightarrow> nat \<Rightarrow> draft_card_instance list \<Rightarrow> bool draft_result" where
  "any_foreign fifo seat_index [] = Ok False"
| "any_foreign fifo seat_index (c # cs) =
     (case fmlookup (ff_cards fifo) (ci_instance_id c) of
        None \<Rightarrow> Panic
      | Some original \<Rightarrow>
          (case fmlookup (ff_packs fifo) (cv_pack_id original) of
             None \<Rightarrow> Panic
           | Some pack \<Rightarrow> if pp_opening_seat pack \<noteq> seat_index then Ok True else any_foreign fifo seat_index cs))"

definition validate_pool ::
  "draft_session \<Rightarrow> fifo_draft_state \<Rightarrow> nat \<times> fifo_seat_state \<times> draft_card_instance list \<Rightarrow> unit \<Rightarrow> unit draft_result" where
  "validate_pool s fifo entry u =
     (case entry of (seat_index, seat, pool) \<Rightarrow>
        (case pr_distribution (procedure (ds_kind s)) of
           PickAndPass \<Rightarrow>
             ensure (fs_completed_steps seat \<le> length pool
                     \<and> length pool \<le> fs_completed_steps seat * pr_cards_per_pick (procedure (ds_kind s)))
               (snapshot_error ''pool/progress contradiction'')
         | AllAtOnce \<Rightarrow>
             and_then (any_foreign fifo seat_index pool) (\<lambda>foreign.
               if foreign then Err (snapshot_error ''AllAtOnce pool origin mismatch'')
               else ensure (fs_completed_steps seat = 0 \<and> fs_round_completed_steps seat = 0 \<and> fs_generation seat = 0)
                      (snapshot_error ''AllAtOnce contains pick progress''))
         | SharedStackPiles _ \<Rightarrow> Err (InvalidConfiguration SHARED_STACK_HAS_NO_FIFO)))"

definition validate_review :: "draft_session \<Rightarrow> fifo_draft_state \<Rightarrow> bool \<Rightarrow> nat \<Rightarrow> unit draft_result" where
  "validate_review s fifo reviewing next_unopened =
     (case (reviewing, ff_review fifo) of
        (True, Some review) \<Rightarrow>
          if kp_review_duration_ms (cf_clock_policy (ds_config s)) = 0
             \<or> rv_exhausted_round review \<noteq> ds_current_pack_number s \<or> rv_next_round review \<noteq> next_unopened
             \<or> cf_pack_count (ds_config s) \<le> rv_next_round review
          then Err (snapshot_error ''Review round mismatch'')
          else validate_scope (rv_clock review) (TargetReview (rv_next_round review)) (ff_paused fifo)
                 (kp_review_duration_ms (cf_clock_policy (ds_config s))) (ff_last_now_ms fifo)
      | (False, None) \<Rightarrow> Ok ()
      | _ \<Rightarrow> Err (snapshot_error ''Review status mismatch''))"

section \<open>FIFO snapshots: the validator\<close>

definition validate_rounds :: "draft_session \<Rightarrow> draft_active_phase option \<Rightarrow> nat draft_result" where
  "validate_rounds s phase =
     (let current = ds_current_pack_number s; pack_count = cf_pack_count (ds_config s);
          distribution = pr_distribution (procedure (ds_kind s));
          direction_round = (if current = pack_count then current - 1 else current)
      in if distribution = AllAtOnce \<and> phase \<noteq> None then Err (snapshot_error ''AllAtOnce has live draft phase'')
         else if phase \<noteq> None \<and> pack_count \<le> current then Err (snapshot_error ''live round outside manifest'')
         else if phase = None \<and> current \<noteq> pack_count then Err (snapshot_error ''postdraft round is not exhausted'')
         else if distribution = PickAndPass \<and> ds_pass_direction s \<noteq> for_pack direction_round
         then Err (snapshot_error ''pass direction/round mismatch'')
         else Ok (if phase \<noteq> None then current + 1 else pack_count))"

definition validate_ownership ::
  "draft_session \<Rightarrow> fifo_draft_state \<Rightarrow> draft_active_phase option \<Rightarrow> nat \<Rightarrow> string fset draft_result" where
  "validate_ownership s fifo phase next_unopened =
     (let live_drafting = (phase = Some PhaseDrafting) in
      and_then (try_fold (validate_future_row s fifo next_unopened) (List.enumerate 0 (ds_packs_by_seat s)) {||}) (\<lambda>future.
      and_then (try_fold (validate_seat s fifo live_drafting) (List.enumerate 0 (ff_seats fifo))
                 \<lparr>sc_owned = future, sc_origins = {||}, sc_pack_ids = {||}, sc_returns = {||}\<rparr>) (\<lambda>scan.
        if live_drafting \<and> sc_pack_ids scan = {||} then Err (snapshot_error ''undrained transition missing'')
        else if fcard (sc_returns scan) \<noteq> fcard (fmdom (ff_returned_effects fifo))
        then Err (snapshot_error ''return membership has no live owner'')
        else and_then (try_fold (validate_owned_card fifo) (concat (ds_pools s)) (sc_owned scan)) (\<lambda>pooled.
          try_fold (validate_removed s fifo next_unopened) (ff_removed fifo) pooled))))"

definition validate_started :: "draft_session \<Rightarrow> fifo_draft_state \<Rightarrow> draft_active_phase option \<Rightarrow> unit draft_result" where
  "validate_started s fifo phase =
     and_then (validate_manifest s fifo) (\<lambda>catalog_ids.
     and_then (validate_rounds s phase) (\<lambda>next_unopened.
     and_then (validate_ownership s fifo phase next_unopened) (\<lambda>owned.
       if owned \<noteq> catalog_ids then Err (snapshot_error ''physical card conservation'')
       else and_then (try_fold (validate_pool s fifo) (List.enumerate 0 (zip (ff_seats fifo) (ds_pools s))) ()) (\<lambda>_.
         validate_review s fifo (phase = Some PhaseReview) next_unopened))))"

definition validate_fifo_snapshot :: "draft_session \<Rightarrow> unit draft_result" where
  "validate_fifo_snapshot s =
     and_then (validate_fifo_config (ds_config s) (length (ds_seats s)) (AdmitSnapshot FifoAsync)) (\<lambda>_.
       if ds_kind s \<noteq> cf_kind (ds_config s) \<or> ds_set_code s \<noteq> cf_set_code (ds_config s)
       then Err (snapshot_error ''session/config mismatch'')
       else and_then (fifo_ref s) (\<lambda>fifo.
         and_then (validate_fifo_shape s fifo) (\<lambda>_.
         and_then (live_phase s fifo) (\<lambda>phase.
           if (ds_status s = Paused) \<noteq> (ff_paused fifo \<noteq> None) then Err (snapshot_error ''paused status mismatch'')
           else if ds_status s = Lobby
           then (if generated_lobby_state s fifo then Err (snapshot_error ''Lobby contains generated draft state'') else Ok ())
           else validate_started s fifo phase))))"

definition validate_persisted_snapshot :: "draft_session \<Rightarrow> unit draft_result" where
  "validate_persisted_snapshot s =
     (case cf_flow (ds_config s) of
        FifoAsync \<Rightarrow> validate_fifo_snapshot s
      | LegacyBarrier \<Rightarrow> and_then (validate_legacy_admission s) (\<lambda>_. validate_legacy_snapshot s))"

section \<open>Creating and driving a FIFO session\<close>

definition new_fifo :: "draft_config \<Rightarrow> draft_seat list \<Rightarrow> string \<Rightarrow> string \<Rightarrow> draft_session draft_result" where
  "new_fifo config seats draft_code session_id =
     (if cf_flow config \<noteq> FifoAsync then Err IncompatibleFlow
      else and_then (validate_fifo_config config (length seats) AdmitConfiguration) (\<lambda>_.
        if \<not> valid_draft_id session_id then Err (snapshot_error ''invalid session id'')
        else let s = (new_session config seats draft_code)\<lparr>ds_fifo := Some
                 \<lparr>ff_session_id = session_id, ff_revision = 0, ff_last_now_ms = 0,
                  ff_seats = replicate (length seats) default_fifo_seat, ff_packs = fmempty, ff_cards = fmempty,
                  ff_removed = [], ff_returned_effects = fmempty, ff_review = None, ff_paused = None\<rparr>\<rparr>
             in and_then (validate_fifo_snapshot s) (\<lambda>_. Ok s)))"

definition of_step :: "session_step \<Rightarrow> fifo_step" where
  "of_step res = and_then (fst res) (\<lambda>deltas. Ok (deltas, snd res))"

fun fifo_action ::
  "'r draft_env \<Rightarrow> draft_session \<Rightarrow> draft_action \<Rightarrow> 'r pack_source option \<Rightarrow> nat \<Rightarrow> fifo_step" where
  "fifo_action env s StartDraft source now = start_fifo (env_seed_from env) source s now"
| "fifo_action env s (Select seat prompt_id picked burned effects) source now =
     select_fifo s seat prompt_id picked burned effects TimingHuman"
| "fifo_action env s (Control c) source now = control s c now"
| "fifo_action env s AdvanceClock source now = advance s now"
| "fifo_action env s (Pick _ _) source now = Err IncompatibleFlow"
| "fifo_action env s (PickWithDraftEffect _ _ _) source now = Err IncompatibleFlow"
| "fifo_action env s (SharedStackDecision _ _ _) source now = Err IncompatibleFlow"
| "fifo_action env s (SubmitDeck seat main_deck commanders printings) source now =
     of_step (apply_existing env s (SubmitDeck seat main_deck commanders printings) source)"
| "fifo_action env s GeneratePairings source now = of_step (apply_existing env s GeneratePairings source)"
| "fifo_action env s (ReportMatchResult reported winner_seat) source now =
     of_step (apply_existing env s (ReportMatchResult reported winner_seat) source)"
| "fifo_action env s AdvanceRound source now = of_step (apply_existing env s AdvanceRound source)"
| "fifo_action env s (ReplaceSeatWithBot seat name) source now =
     of_step (apply_existing env s (ReplaceSeatWithBot seat name) source)"
| "fifo_action env s (SetSeatConnected seat connected) source now =
     of_step (apply_existing env s (SetSeatConnected seat connected) source)"

definition commit_candidate :: "draft_session \<Rightarrow> draft_delta list \<times> draft_session \<Rightarrow> fifo_step" where
  "commit_candidate s result =
     (case result of (deltas, candidate) \<Rightarrow>
        if candidate = s then Ok (deltas, s)
        else and_then (fifo_ref candidate) (\<lambda>fifo.
          and_then (increment (ff_revision fifo)) (\<lambda>revision.
            let committed = candidate\<lparr>ds_fifo := Some (fifo\<lparr>ff_revision := revision\<rparr>)\<rparr> in
            and_then (validate_persisted_snapshot committed) (\<lambda>_. Ok (deltas, committed)))))"

definition apply_at ::
  "'r draft_env \<Rightarrow> draft_session \<Rightarrow> draft_action \<Rightarrow> 'r pack_source option \<Rightarrow> nat \<Rightarrow> session_step" where
  "apply_at env s action source now_ms =
     (if cf_flow (ds_config s) = LegacyBarrier then apply_legacy env s action source
      else case and_then (validate_persisted_snapshot s) (\<lambda>_.
                and_then (clamped_now s now_ms) (\<lambda>now.
                and_then (fifo_ref s) (\<lambda>fifo.
                and_then (fifo_action env (s\<lparr>ds_fifo := Some (fifo\<lparr>ff_last_now_ms := now\<rparr>)\<rparr>) action source now)
                  (commit_candidate s)))) of
             Ok (deltas, t) \<Rightarrow> (Ok deltas, t)
           | Err e \<Rightarrow> (Err e, s)
           | Panic \<Rightarrow> (Panic, s))"

section \<open>What the folds of the validator collect\<close>

definition collects :: "string fset \<Rightarrow> string list \<Rightarrow> string fset \<Rightarrow> bool" where
  "collects a ids b \<longleftrightarrow> distinct ids \<and> set ids \<inter> fset a = {} \<and> fset b = fset a \<union> set ids"

lemma collects_refl: "collects a [] a"
  by (simp add: collects_def)

lemma collects_append: "collects a u b \<Longrightarrow> collects b v c \<Longrightarrow> collects a (u @ v) c"
  by (auto simp: collects_def)

lemma collects_one: "x |\<notin>| a \<Longrightarrow> collects a [x] (finsert x a)"
  by (auto simp: collects_def)

lemmas collects_fold = try_fold_concat[where R = collects, OF _ _ collects_refl collects_append]

definition registered :: "fifo_draft_state \<Rightarrow> draft_card_instance \<Rightarrow> bool" where
  "registered fifo c \<longleftrightarrow> (\<exists>original. fmlookup (ff_cards fifo) (ci_instance_id c) = Some original \<and> cv_card original = c)"

lemma validate_owned_card_Ok:
  "validate_owned_card fifo c owned = Ok owned' \<longleftrightarrow>
     registered fifo c \<and> ci_instance_id c |\<notin>| owned \<and> owned' = finsert (ci_instance_id c) owned"
  by (auto simp: validate_owned_card_def registered_def split: option.splits if_splits)

lemma validate_owned_card_not_Panic [simp]: "validate_owned_card fifo c owned \<noteq> Panic"
  by (simp add: validate_owned_card_def)

lemma owned_cards_Ok:
  assumes "try_fold (validate_owned_card fifo) cards owned = Ok owned'"
  shows "collects owned (map ci_instance_id cards) owned'" "\<forall>c\<in>set cards. registered fifo c"
proof -
  have "collects owned (concat (map (\<lambda>c. [ci_instance_id c]) cards)) owned'"
    by (rule collects_fold[OF assms]) (auto simp: validate_owned_card_Ok intro: collects_one)
  moreover have "concat (map (\<lambda>c. [ci_instance_id c]) cards) = map ci_instance_id cards" by (induction cards) auto
  ultimately show "collects owned (map ci_instance_id cards) owned'" by simp
  show "\<forall>c\<in>set cards. registered fifo c"
    using try_fold_each[OF assms, of "\<lambda>c _. registered fifo c"] by (auto simp: validate_owned_card_Ok)
qed

lemma owned_cards_not_Panic: "try_fold (validate_owned_card fifo) cards owned \<noteq> Panic"
  by (rule try_fold_not_Panic[where I = "\<lambda>_. True"]) auto

lemma validate_future_pack_Ok:
  assumes "validate_future_pack fifo n next seat_index (offset, pack) owned = Ok owned'"
  shows "collects owned (map ci_instance_id pack) owned'" "\<forall>c\<in>set pack. registered fifo c"
proof -
  from assms have "try_fold (validate_owned_card fifo) pack owned = Ok owned'"
    by (auto simp: validate_future_pack_def split: option.splits if_splits)
  from owned_cards_Ok[OF this] show "collects owned (map ci_instance_id pack) owned'" "\<forall>c\<in>set pack. registered fifo c" .
qed

lemma ball_enumerate: "(\<forall>x\<in>set (List.enumerate k xs). P (snd x)) \<longleftrightarrow> (\<forall>x\<in>set xs. P x)"
  using list.set_map[of snd "List.enumerate k xs"] by (simp add: map_snd_enumerate ball_simps)

lemma concat_enumerate: "concat (map (\<lambda>(i, x). f x) (List.enumerate k xs)) = concat (map f xs)"
  by (induction xs arbitrary: k) auto

lemma validate_future_row_Ok:
  assumes "validate_future_row s fifo next (seat_index, future) owned = Ok owned'"
  shows "collects owned (map ci_instance_id (concat future)) owned'" "\<forall>c\<in>set (concat future). registered fifo c"
    "length future = cf_pack_count (ds_config s) - next"
proof -
  from assms have fold: "try_fold (validate_future_pack fifo (length (ds_seats s)) next seat_index) (List.enumerate 0 future) owned = Ok owned'"
    and len: "length future = cf_pack_count (ds_config s) - next"
    by (auto simp: validate_future_row_def split: if_splits)
  have "collects owned (concat (map (\<lambda>(i, pack). map ci_instance_id pack) (List.enumerate 0 future))) owned'"
    by (rule collects_fold[OF fold]) (auto dest: validate_future_pack_Ok(1))
  then show "collects owned (map ci_instance_id (concat future)) owned'" by (simp add: concat_enumerate map_concat)
  have "\<forall>x\<in>set (List.enumerate 0 future). \<forall>c\<in>set (snd x). registered fifo c"
    using try_fold_each[OF fold, of "\<lambda>x _. \<forall>c\<in>set (snd x). registered fifo c"] validate_future_pack_Ok(2) by fastforce
  then show "\<forall>c\<in>set (concat future). registered fifo c"
    by (simp add: ball_enumerate[where P = "\<lambda>pack. \<forall>c\<in>set pack. registered fifo c"])
  show "length future = cf_pack_count (ds_config s) - next" by (rule len)
qed

lemma future_Ok:
  assumes "try_fold (validate_future_row s fifo next) (List.enumerate 0 rows) owned = Ok owned'"
  shows "collects owned (map ci_instance_id (concat (concat rows))) owned'" "\<forall>c\<in>set (concat (concat rows)). registered fifo c"
proof -
  have "collects owned (concat (map (\<lambda>(i, row). map ci_instance_id (concat row)) (List.enumerate 0 rows))) owned'"
    by (rule collects_fold[OF assms]) (auto dest: validate_future_row_Ok(1))
  moreover have "concat (map (\<lambda>row. map ci_instance_id (concat row)) rows) = map ci_instance_id (concat (concat rows))"
    by (induction rows) auto
  ultimately show "collects owned (map ci_instance_id (concat (concat rows))) owned'" by (simp add: concat_enumerate)
  have "\<forall>x\<in>set (List.enumerate 0 rows). \<forall>c\<in>set (concat (snd x)). registered fifo c"
    using try_fold_each[OF assms, of "\<lambda>x _. \<forall>c\<in>set (concat (snd x)). registered fifo c"] validate_future_row_Ok(2) by fastforce
  then show "\<forall>c\<in>set (concat (concat rows)). registered fifo c"
    unfolding ball_enumerate[where P = "\<lambda>row. \<forall>c\<in>set (concat row). registered fifo c"] by auto
qed

text \<open>The seat scan: it collects the queued cards and touches the owned set in no other way.\<close>

lemma validate_live_card_Ok:
  assumes "validate_live_card fifo head c scan = Ok scan'"
  shows "collects (sc_owned scan) [ci_instance_id c] (sc_owned scan')" "registered fifo c"
  using assms by (auto simp: validate_live_card_def outcome_simps validate_owned_card_Ok Let_def collects_one
      split: option.splits if_splits)

lemma validate_live_card_not_Panic: "validate_live_card fifo head c scan \<noteq> Panic"
  by (auto simp: validate_live_card_def outcome_simps validate_owned_card_Ok registered_def Let_def split: option.splits)

lemma scan_fold:
  assumes "try_fold step xs scan = Ok scan'"
    "\<And>x scan scan'. x \<in> set xs \<Longrightarrow> step x scan = Ok scan' \<Longrightarrow> collects (sc_owned scan) (items x) (sc_owned scan')"
  shows "collects (sc_owned scan) (concat (map items xs)) (sc_owned scan')"
  using try_fold_concat[where R = "\<lambda>a ids b. collects (sc_owned a) ids (sc_owned b)", OF assms(1)] assms(2)
  by (blast intro: collects_refl collects_append)

lemma validate_live_pack_Ok:
  assumes "validate_live_pack s fifo head scan = Ok scan'"
  shows "collects (sc_owned scan) (map ci_instance_id (qp_pack head)) (sc_owned scan')" "\<forall>c\<in>set (qp_pack head). registered fifo c"
    "qp_pack head \<noteq> []"
proof -
  from assms obtain scan1 where fold: "try_fold (validate_live_card fifo head) (qp_pack head) scan1 = Ok scan'"
    and own: "sc_owned scan1 = sc_owned scan" and ne: "qp_pack head \<noteq> []"
    by (auto simp: validate_live_pack_def outcome_simps Let_def split: if_splits)
  show "qp_pack head \<noteq> []" by (rule ne)
  have "collects (sc_owned scan1) (concat (map (\<lambda>c. [ci_instance_id c]) (qp_pack head))) (sc_owned scan')"
    by (rule scan_fold[OF fold]) (rule validate_live_card_Ok(1))
  moreover have "concat (map (\<lambda>c. [ci_instance_id c]) cs) = map ci_instance_id cs" for cs by (induction cs) auto
  ultimately show "collects (sc_owned scan) (map ci_instance_id (qp_pack head)) (sc_owned scan')" by (simp add: own)
  show "\<forall>c\<in>set (qp_pack head). registered fifo c"
    using try_fold_each[OF fold, of "\<lambda>c _. registered fifo c"] validate_live_card_Ok(2) by fastforce
qed

lemma validate_live_pack_not_Panic: "validate_live_pack s fifo head scan \<noteq> Panic"
proof -
  have "try_fold (validate_live_card fifo head) cs scan \<noteq> Panic" for cs scan
    by (rule try_fold_not_Panic[where I = "\<lambda>_. True"]) (auto simp: validate_live_card_not_Panic)
  then show ?thesis by (auto simp: validate_live_pack_def outcome_simps Let_def)
qed

definition seat_items :: "fifo_seat_state \<Rightarrow> string list" where
  "seat_items seat = concat (map (\<lambda>q. map ci_instance_id (qp_pack q)) (fs_queue seat))"

lemma validate_seat_Ok:
  assumes "validate_seat s fifo live (i, seat) scan = Ok scan'"
  shows "collects (sc_owned scan) (seat_items seat) (sc_owned scan')"
    "\<forall>q\<in>set (fs_queue seat). qp_pack q \<noteq> [] \<and> (\<forall>c\<in>set (qp_pack q). registered fifo c)"
proof -
  from assms have fold: "try_fold (validate_live_pack s fifo) (fs_queue seat) scan = Ok scan'"
    by (auto simp: validate_seat_def outcome_simps split: option.splits bool.splits if_splits)
  show "collects (sc_owned scan) (seat_items seat) (sc_owned scan')"
    unfolding seat_items_def by (rule scan_fold[OF fold]) (rule validate_live_pack_Ok(1))
  show "\<forall>q\<in>set (fs_queue seat). qp_pack q \<noteq> [] \<and> (\<forall>c\<in>set (qp_pack q). registered fifo c)"
    using try_fold_each[OF fold, of "\<lambda>q _. qp_pack q \<noteq> [] \<and> (\<forall>c\<in>set (qp_pack q). registered fifo c)"] validate_live_pack_Ok(2,3) by fastforce
qed

lemma validate_scope_not_Panic [simp]: "validate_scope c target paused duration now \<noteq> Panic"
  by (auto simp: validate_scope_def split: draft_clock_state.splits option.splits)

lemma validate_seat_not_Panic:
  assumes "i < 256"
  shows "validate_seat s fifo live (i, seat) scan \<noteq> Panic"
proof -
  have "try_fold (validate_live_pack s fifo) (fs_queue seat) scan \<noteq> Panic"
    by (rule try_fold_not_Panic[where I = "\<lambda>_. True"]) (auto simp: validate_live_pack_not_Panic)
  moreover have "validate_prompt s fifo i seat head \<noteq> Panic" for head
    by (auto simp: validate_prompt_def outcome_simps split: option.splits)
  ultimately show ?thesis
    using assms by (auto simp: validate_seat_def validate_progress_def outcome_simps Let_def try_u8_def split: option.splits bool.splits)
qed

section \<open>What the manifest promises\<close>

lemma validate_manifest_card_Ok:
  "validate_manifest_card fifo pack_id card_id catalog = Ok catalog' \<longleftrightarrow>
     valid_draft_id card_id \<and> card_id |\<notin>| catalog \<and> catalog' = finsert card_id catalog
     \<and> (\<exists>c. fmlookup (ff_cards fifo) card_id = Some c \<and> ci_instance_id (cv_card c) = card_id \<and> cv_pack_id c = pack_id)"
  by (auto simp: validate_manifest_card_def outcome_simps split: if_splits)

definition catalogued :: "fifo_draft_state \<Rightarrow> string \<Rightarrow> bool" where
  "catalogued fifo card_id \<longleftrightarrow> (\<exists>c. fmlookup (ff_cards fifo) card_id = Some c \<and> fmlookup (ff_packs fifo) (cv_pack_id c) \<noteq> None)"

lemma validate_manifest_pack_Ok:
  assumes "validate_manifest_pack s fifo (rnd, seat) catalog = Ok catalog'"
  shows "fmlookup (ff_packs fifo) (DraftPackId (rnd * cf_pod_size (ds_config s) + seat)) \<noteq> None"
    "(\<forall>x\<in>fset catalog. catalogued fifo x) \<Longrightarrow> (\<forall>x\<in>fset catalog'. catalogued fifo x)"
proof -
  let ?id = "DraftPackId (rnd * cf_pod_size (ds_config s) + seat)"
  from assms obtain pack where pack: "fmlookup (ff_packs fifo) ?id = Some pack"
    and fold: "try_fold (validate_manifest_card fifo ?id) (pp_original_card_ids pack) catalog = Ok catalog'"
    by (auto simp: validate_manifest_pack_def outcome_simps Let_def split: if_splits)
  show "fmlookup (ff_packs fifo) ?id \<noteq> None" using pack by simp
  assume "\<forall>x\<in>fset catalog. catalogued fifo x"
  then show "\<forall>x\<in>fset catalog'. catalogued fifo x"
    by (rule try_fold_invariant[OF fold, where I = "\<lambda>c. \<forall>x\<in>fset c. catalogued fifo x"])
       (auto simp: validate_manifest_card_Ok catalogued_def pack)
qed

lemma validate_manifest_Ok:
  assumes "validate_manifest s fifo = Ok catalog" "cf_pod_size (ds_config s) = length (ds_seats s)"
  shows "\<forall>r<cf_pack_count (ds_config s). \<forall>i<length (ds_seats s).
      fmlookup (ff_packs fifo) (DraftPackId (r * length (ds_seats s) + i)) \<noteq> None"
    "\<forall>x\<in>fset catalog. catalogued fifo x" "fset catalog = fmdom' (ff_cards fifo)"
proof -
  let ?xs = "List.product [0..<cf_pack_count (ds_config s)] [0..<cf_pod_size (ds_config s)]"
  from assms(1) have fold: "try_fold (validate_manifest_pack s fifo) ?xs {||} = Ok catalog"
    and len: "fcard catalog = fcard (fmdom (ff_cards fifo))"
    by (auto simp: validate_manifest_def outcome_simps split: if_splits)
  let ?Q = "\<lambda>x _. fmlookup (ff_packs fifo) (DraftPackId (fst x * cf_pod_size (ds_config s) + snd x)) \<noteq> None"
  have "\<forall>x\<in>set ?xs. ?Q x catalog"
    using try_fold_each[OF fold, of ?Q] validate_manifest_pack_Ok(1)[of s fifo] by fastforce
  then show "\<forall>r<cf_pack_count (ds_config s). \<forall>i<length (ds_seats s).
      fmlookup (ff_packs fifo) (DraftPackId (r * length (ds_seats s) + i)) \<noteq> None" using assms(2) by auto
  show cat: "\<forall>x\<in>fset catalog. catalogued fifo x"
    by (rule try_fold_invariant[OF fold, where I = "\<lambda>c. \<forall>x\<in>fset c. catalogued fifo x"])
       (simp, metis prod.collapse validate_manifest_pack_Ok(2))
  have "fset catalog \<subseteq> fmdom' (ff_cards fifo)" using cat by (auto simp: catalogued_def fmlookup_dom'_iff)
  moreover have "card (fset catalog) = card (fmdom' (ff_cards fifo))"
    using len by (simp add: fcard.rep_eq fmdom'_alt_def)
  ultimately show "fset catalog = fmdom' (ff_cards fifo)"
    by (intro card_subset_eq) (simp_all add: fmdom'_alt_def)
qed

lemma validate_manifest_not_Panic: "validate_manifest s fifo \<noteq> Panic"
proof -
  have card: "try_fold (validate_manifest_card fifo pack_id) ids catalog \<noteq> Panic" for pack_id ids catalog
    by (rule try_fold_not_Panic[where I = "\<lambda>_. True"]) (auto simp: validate_manifest_card_def outcome_simps)
  have "try_fold (validate_manifest_pack s fifo) (List.product [0..<cf_pack_count (ds_config s)] [0..<cf_pod_size (ds_config s)]) {||} \<noteq> Panic"
    if "length (ds_pack_sizes s) = cf_pack_count (ds_config s)"
    by (rule try_fold_not_Panic[where I = "\<lambda>_. True"])
       (use that card in \<open>auto simp: validate_manifest_pack_def outcome_simps Let_def split: if_splits\<close>)
  then show ?thesis by (auto simp: validate_manifest_def outcome_simps)
qed

section \<open>Ownership\<close>

lemma validate_removed_Ok:
  "validate_removed s fifo next r owned = Ok owned' \<Longrightarrow> collects owned [rm_card_instance_id r] owned'"
  by (auto simp: validate_removed_def outcome_simps Let_def intro: collects_one
      split: option.splits if_splits pack_distribution.splits draft_removal_reason.splits)

lemma validate_removed_not_Panic: "validate_removed s fifo next r owned \<noteq> Panic"
  by (auto simp: validate_removed_def outcome_simps Let_def
      split: option.splits pack_distribution.splits draft_removal_reason.splits)

definition queued_ids :: "fifo_draft_state \<Rightarrow> string list" where
  "queued_ids fifo = concat (map seat_items (ff_seats fifo))"

lemma validate_ownership_Ok:
  assumes "validate_ownership s fifo phase next = Ok owned"
  shows "collects {||} (map ci_instance_id (concat (concat (ds_packs_by_seat s))) @ queued_ids fifo
      @ map ci_instance_id (concat (ds_pools s)) @ map rm_card_instance_id (ff_removed fifo)) owned"
    "\<forall>c\<in>set (concat (ds_pools s)). registered fifo c"
proof -
  from assms obtain future scan pooled where
    fut: "try_fold (validate_future_row s fifo next) (List.enumerate 0 (ds_packs_by_seat s)) {||} = Ok future"
    and seats: "try_fold (validate_seat s fifo (phase = Some PhaseDrafting)) (List.enumerate 0 (ff_seats fifo))
        \<lparr>sc_owned = future, sc_origins = {||}, sc_pack_ids = {||}, sc_returns = {||}\<rparr> = Ok scan"
    and pool: "try_fold (validate_owned_card fifo) (concat (ds_pools s)) (sc_owned scan) = Ok pooled"
    and rem: "try_fold (validate_removed s fifo next) (ff_removed fifo) pooled = Ok owned"
    by (auto simp: validate_ownership_def outcome_simps Let_def split: if_splits)
  have "collects future (queued_ids fifo) (sc_owned scan)"
    using scan_fold[OF seats, of "\<lambda>(i, seat). seat_items seat"] validate_seat_Ok(1)
    by (force simp: concat_enumerate queued_ids_def)
  moreover have "collects pooled (map rm_card_instance_id (ff_removed fifo)) owned"
    using collects_fold[OF rem, of "\<lambda>r. [rm_card_instance_id r]"] validate_removed_Ok by simp
  ultimately show "collects {||} (map ci_instance_id (concat (concat (ds_packs_by_seat s))) @ queued_ids fifo
      @ map ci_instance_id (concat (ds_pools s)) @ map rm_card_instance_id (ff_removed fifo)) owned"
    using future_Ok(1)[OF fut] owned_cards_Ok(1)[OF pool] collects_append by metis
  show "\<forall>c\<in>set (concat (ds_pools s)). registered fifo c" by (rule owned_cards_Ok(2)[OF pool])
qed

lemma try_u32_bounded: "r < 256 \<Longrightarrow> n < 256 \<Longrightarrow> i < n \<Longrightarrow> try_u32 (r * n + i) = Some (r * n + i)"
proof -
  assume a: "r < 256" "n < 256" "i < n"
  then have "r * n \<le> 255 * 255" by (intro mult_le_mono) simp_all
  with a show ?thesis by (simp add: try_u32_def)
qed

lemma validate_ownership_not_Panic:
  assumes "\<forall>r<cf_pack_count (ds_config s). \<forall>i<length (ds_seats s).
      fmlookup (ff_packs fifo) (DraftPackId (r * length (ds_seats s) + i)) \<noteq> None"
    "cf_pack_count (ds_config s) \<le> MAX_PACK_COUNT" "length (ds_seats s) < 256"
    "length (ds_packs_by_seat s) = length (ds_seats s)" "length (ff_seats fifo) = length (ds_seats s)"
  shows "validate_ownership s fifo phase next \<noteq> Panic"
proof -
  let ?n = "length (ds_seats s)" and ?pc = "cf_pack_count (ds_config s)"
  have pack: "validate_future_pack fifo ?n next i (j, pack) owned \<noteq> Panic"
    if i: "i < ?n" and j: "next + j < ?pc" for i j pack owned
  proof -
    have "try_u32 ((next + j) * ?n + i) = Some ((next + j) * ?n + i)"
      using that assms(2,3) by (intro try_u32_bounded) (simp_all add: MAX_PACK_COUNT_def)
    moreover obtain p where "fmlookup (ff_packs fifo) (DraftPackId ((next + j) * ?n + i)) = Some p"
      using assms(1) i j by blast
    ultimately show ?thesis by (simp add: validate_future_pack_def owned_cards_not_Panic)
  qed
  have row: "validate_future_row s fifo next x owned \<noteq> Panic" if "x \<in> set (List.enumerate 0 (ds_packs_by_seat s))" for x owned
  proof -
    obtain i future where x: "x = (i, future)" by (cases x)
    have "try_fold (validate_future_pack fifo ?n next i) (List.enumerate 0 future) owned \<noteq> Panic" if "length future = ?pc - next"
      by (rule try_fold_not_Panic[where I = "\<lambda>_. True"])
         (use that \<open>x \<in> _\<close> x assms(4) pack in \<open>auto simp: in_set_enumerate_eq\<close>)
    then show ?thesis using x by (simp add: validate_future_row_def)
  qed
  have "try_fold (validate_future_row s fifo next) (List.enumerate 0 (ds_packs_by_seat s)) a \<noteq> Panic" for a
    by (rule try_fold_not_Panic[where I = "\<lambda>_. True"]) (use row in auto)
  moreover have "try_fold (validate_seat s fifo live) (List.enumerate 0 (ff_seats fifo)) scan \<noteq> Panic" for live scan
    by (rule try_fold_not_Panic[where I = "\<lambda>_. True"])
       (use assms(3,5) in \<open>auto simp: in_set_enumerate_eq intro!: validate_seat_not_Panic\<close>)
  moreover have "try_fold (validate_removed s fifo next) rs a \<noteq> Panic" for rs a
    by (rule try_fold_not_Panic[where I = "\<lambda>_. True"]) (auto simp: validate_removed_not_Panic)
  ultimately show ?thesis
    by (auto simp: validate_ownership_def outcome_simps Let_def owned_cards_not_Panic)
qed

lemma any_foreign_not_Panic:
  "\<forall>c\<in>set cs. catalogued fifo (ci_instance_id c) \<Longrightarrow> any_foreign fifo i cs \<noteq> Panic"
  by (induction cs) (auto simp: catalogued_def split: if_splits)

lemma validate_started_not_Panic:
  assumes "cf_pod_size (ds_config s) = length (ds_seats s)"
    "cf_pack_count (ds_config s) \<le> MAX_PACK_COUNT" "length (ds_seats s) < 256"
    "length (ds_packs_by_seat s) = length (ds_seats s)" "length (ff_seats fifo) = length (ds_seats s)"
  shows "validate_started s fifo phase \<noteq> Panic"
proof
  assume panic: "validate_started s fifo phase = Panic"
  have "validate_rounds s phase \<noteq> Panic" by (simp add: validate_rounds_def Let_def)
  with panic validate_manifest_not_Panic[of s fifo] obtain catalog nxt where
    manifest: "validate_manifest s fifo = Ok catalog"
    and rest: "and_then (validate_ownership s fifo phase nxt) (\<lambda>owned.
       if owned \<noteq> catalog then Err (snapshot_error ''physical card conservation'')
       else and_then (try_fold (validate_pool s fifo) (List.enumerate 0 (zip (ff_seats fifo) (ds_pools s))) ()) (\<lambda>_.
         validate_review s fifo (phase = Some PhaseReview) nxt)) = Panic"
    by (auto simp: validate_started_def outcome_simps)
  note m = validate_manifest_Ok[OF manifest assms(1)]
  have "validate_ownership s fifo phase nxt \<noteq> Panic" by (rule validate_ownership_not_Panic[OF m(1) assms(2-5)])
  with rest obtain owned where own: "validate_ownership s fifo phase nxt = Ok owned" "owned = catalog"
    and tail: "and_then (try_fold (validate_pool s fifo) (List.enumerate 0 (zip (ff_seats fifo) (ds_pools s))) ()) (\<lambda>_.
         validate_review s fifo (phase = Some PhaseReview) nxt) = Panic"
    by (auto simp: outcome_simps split: if_splits)
  have pools: "\<forall>c\<in>set (concat (ds_pools s)). catalogued fifo (ci_instance_id c)"
    using validate_ownership_Ok(1)[OF own(1)] own(2) m(2) by (auto simp: collects_def)
  have "validate_pool s fifo x u \<noteq> Panic" if "x \<in> set (List.enumerate 0 (zip (ff_seats fifo) (ds_pools s)))" for x u
  proof -
    obtain i seat pool where x: "x = (i, seat, pool)" by (cases x)
    with that have "pool \<in> set (ds_pools s)" by (auto simp: in_set_enumerate_eq)
    with pools have "any_foreign fifo i pool \<noteq> Panic" by (intro any_foreign_not_Panic) auto
    then show ?thesis by (auto simp: validate_pool_def x outcome_simps split: pack_distribution.splits)
  qed
  then have "try_fold (validate_pool s fifo) (List.enumerate 0 (zip (ff_seats fifo) (ds_pools s))) () \<noteq> Panic"
    by (intro try_fold_not_Panic[where I = "\<lambda>_. True"]) auto
  moreover have "validate_review s fifo (phase = Some PhaseReview) nxt \<noteq> Panic"
    by (auto simp: validate_review_def split: option.splits bool.splits)
  ultimately show False using tail by (auto simp: outcome_simps)
qed

section \<open>Properties of the restore boundary\<close>

lemma validate_layout_not_Panic: "validate_layout src n q \<noteq> Panic"
  by (cases src) (auto simp: validate_layout_def map_err_def validate_for_draft_not_Panic split: outcome.splits)

lemma validate_source_not_Panic: "validate_source p src \<noteq> Panic"
  by (auto simp: validate_source_def split: draft_source.splits set_layout.splits)

lemma validate_fifo_config_not_Panic: "validate_fifo_config config n context \<noteq> Panic"
  by (auto simp: validate_fifo_config_def outcome_simps validate_layout_not_Panic admit_pod_size_not_Panic
      admit_all_at_once_def clock_policy_validate_def Let_def split: option.splits pack_distribution.splits pick_clock_policy.splits)

lemma validate_legacy_snapshot_not_Panic: "validate_legacy_snapshot s \<noteq> Panic"
proof -
  have "validate_sealed_snapshot s \<noteq> Panic"
    by (auto simp: validate_sealed_snapshot_def admit_all_at_once_def outcome_simps Let_def)
  moreover have "validate_shared_stack_snapshot s p \<noteq> Panic" for p
    by (auto simp: validate_shared_stack_snapshot_def validate_stack_state_def piles_needed_def outcome_simps Let_def split: option.splits)
  ultimately show ?thesis
    by (auto simp: validate_legacy_snapshot_def outcome_simps Let_def validate_layout_not_Panic validate_source_not_Panic
        admit_pod_size_not_Panic split: pack_distribution.splits)
qed

lemma validate_fifo_shape_Ok:
  "validate_fifo_shape s fifo = Ok u \<Longrightarrow> length (ff_seats fifo) = length (ds_seats s) \<and> length (ds_pools s) = length (ds_seats s)
     \<and> length (ds_packs_by_seat s) = length (ds_seats s) \<and> ff_revision fifo \<le> MAX_DRAFT_JSON_INTEGER
     \<and> ff_last_now_ms fifo \<le> MAX_DRAFT_JSON_INTEGER"
  by (auto simp: validate_fifo_shape_def Let_def split: if_splits)

lemma validate_fifo_not_Panic: "validate_fifo_snapshot s \<noteq> Panic"
proof
  assume panic: "validate_fifo_snapshot s = Panic"
  have "validate_fifo_shape s fifo \<noteq> Panic" "live_phase s fifo \<noteq> Panic" for fifo
    by (auto simp: validate_fifo_shape_def live_phase_def Let_def outcome_simps split: draft_status.splits)
  with panic obtain u fifo phase where
    "validate_fifo_config (ds_config s) (length (ds_seats s)) (AdmitSnapshot FifoAsync) = Ok u"
    "validate_fifo_shape s fifo = Ok ()" "validate_started s fifo phase = Panic"
    by (auto simp: validate_fifo_snapshot_def outcome_simps validate_fifo_config_not_Panic split: if_splits)
  with validate_started_not_Panic[of s fifo phase] validate_fifo_config_Ok validate_fifo_shape_Ok show False by metis
qed

lemma validate_persisted_not_Panic: "validate_persisted_snapshot s \<noteq> Panic"
  by (auto simp: validate_persisted_snapshot_def outcome_simps validate_fifo_not_Panic validate_legacy_snapshot_not_Panic
      split: draft_flow.split)

text \<open>
  C18. The restore boundary is total. \<open>validate_persisted_snapshot\<close> returns on every session whatever:
  no snapshot, however malformed its vectors, ids, counters or manifest, makes it index out of
  bounds, miss a map key or fail an \<open>expect\<close>.
\<close>

theorem validation_never_panics: "validate_persisted_snapshot s \<noteq> Panic"
  by (rule validate_persisted_not_Panic)

lemma validate_fifo_started:
  assumes "validate_fifo_snapshot s = Ok ()" "ds_status s \<noteq> Lobby" "ds_fifo s = Some fifo"
  obtains phase catalog owned nxt where "live_phase s fifo = Ok phase" "validate_manifest s fifo = Ok catalog"
    "validate_rounds s phase = Ok nxt" "validate_ownership s fifo phase nxt = Ok owned" "owned = catalog"
    "cf_pod_size (ds_config s) = length (ds_seats s)"
  using assms
  by (auto simp: validate_fifo_snapshot_def validate_started_def outcome_simps dest!: validate_fifo_config_Ok(3) split: if_splits)

lemma mset_queue: "mset (concat (map (\<lambda>q. map ci_instance_id (qp_pack q)) qs)) = image_mset ci_instance_id (flatten_mset (map qp_pack qs))"
  by (induction qs) (simp_all add: flatten_mset_def)

lemma mset_queues: "mset (concat (map seat_items seats)) = image_mset ci_instance_id (sum_list (map queue_cards seats))"
  by (induction seats) (simp_all add: seat_items_def queue_cards_def mset_queue)

lemma sum_list_flatten: "sum_list (map flatten_mset rows) = mset (concat (concat rows))"
  by (induction rows) (simp_all add: flatten_mset_concat)

text \<open>
  C19. An accepted FIFO snapshot conserves its cards. If the validator accepts a started FIFO session,
  every card of the catalogue has exactly one owner among the unopened packs, the queues, the pools
  and the removed cards, nothing else is owned, and every drafted card is the catalogued card.
\<close>

theorem accepted_snapshot_conserves:
  assumes "validate_persisted_snapshot s = Ok ()" "cf_flow (ds_config s) = FifoAsync" "ds_status s \<noteq> Lobby" "ds_fifo s = Some fifo"
  shows "fifo_ids s = mset_set (fmdom' (ff_cards fifo))
    \<and> (\<forall>pool\<in>set (ds_pools s). \<forall>c\<in>set pool. map_option cv_card (fmlookup (ff_cards fifo) (ci_instance_id c)) = Some c)"
proof -
  from assms(1,2) have "validate_fifo_snapshot s = Ok ()" by (simp add: validate_persisted_snapshot_def)
  from this assms(3,4) obtain phase catalog owned nxt where *: "validate_manifest s fifo = Ok catalog"
    "validate_ownership s fifo phase nxt = Ok owned" "owned = catalog" "cf_pod_size (ds_config s) = length (ds_seats s)"
    by (rule validate_fifo_started)
  let ?ids = "map ci_instance_id (concat (concat (ds_packs_by_seat s))) @ queued_ids fifo
      @ map ci_instance_id (concat (ds_pools s)) @ map rm_card_instance_id (ff_removed fifo)"
  have "distinct ?ids" "set ?ids = fmdom' (ff_cards fifo)"
    using validate_ownership_Ok(1)[OF *(2)] validate_manifest_Ok(3)[OF *(1,4)] *(3) by (auto simp: collects_def)
  then have "mset ?ids = mset_set (fmdom' (ff_cards fifo))" by (metis mset_set_set)
  moreover have "unopened_cards s = mset (concat (concat (ds_packs_by_seat s)))"
    by (simp add: unopened_cards_def sum_list_flatten)
  ultimately have "fifo_ids s = mset_set (fmdom' (ff_cards fifo))"
    using mset_queues[of "ff_seats fifo"] assms(4)
    by (simp add: fifo_ids_def live_cards_def removed_ids_def queued_ids_def flatten_mset_concat ac_simps)
  moreover have "\<forall>c\<in>set (concat (ds_pools s)). registered fifo c" by (rule validate_ownership_Ok(2)[OF *(2)])
  ultimately show ?thesis by (auto simp: registered_def)
qed

section \<open>What a FIFO action leaves alone\<close>

text \<open>No action touches the session id, the revision, the clock reading or the configuration.\<close>

definition stamp :: "draft_session \<Rightarrow> draft_config \<times> (string \<times> nat \<times> nat) option" where
  "stamp s = (ds_config s, map_option (\<lambda>f. (ff_session_id f, ff_revision f, ff_last_now_ms f)) (ds_fifo s))"

lemma stamp_fifo_update:
  "ds_fifo s = Some f \<Longrightarrow> ff_session_id f' = ff_session_id f \<Longrightarrow> ff_revision f' = ff_revision f
     \<Longrightarrow> ff_last_now_ms f' = ff_last_now_ms f \<Longrightarrow> ds_config t = ds_config s \<Longrightarrow> ds_fifo t = Some f' \<Longrightarrow> stamp t = stamp s"
  by (simp add: stamp_def)

lemma stamp_reconcile: "reconcile_prompts s now = Ok t \<Longrightarrow> stamp t = stamp s"
  by (auto simp: reconcile_prompts_def outcome_simps stamp_def)

lemma stamp_for_each_clock: "for_each_clock g s = Ok t \<Longrightarrow> stamp t = stamp s"
  by (auto simp: for_each_clock_def outcome_simps stamp_def)

lemma stamp_control: "control s c now = Ok (deltas, t) \<Longrightarrow> stamp t = stamp s"
  by (induction s c now rule: control.induct)
     (auto simp: outcome_simps update_fifo_def stamp_def dest!: stamp_for_each_clock split: if_splits)

lemma stamp_open_seat_pack: "open_seat_pack rnd seat s = Ok t \<Longrightarrow> stamp t = stamp s"
  by (auto simp: open_seat_pack_def outcome_simps stamp_def Let_def split: list.splits option.splits)

lemma stamp_fold:
  assumes "try_fold f xs s = Ok t" "\<And>x s t. f x s = Ok t \<Longrightarrow> stamp t = stamp s"
  shows "stamp t = stamp s"
  using try_fold_invariant[where I = "\<lambda>t. stamp t = stamp s", OF assms(1)] assms(2) by auto

lemma stamp_open_round:
  assumes "open_fifo_round s rnd now = Ok t"
  shows "stamp t = stamp s"
proof -
  from assms obtain s1 s2 where s1: "update_fifo (\<lambda>f. f\<lparr>ff_review := None\<rparr>) (s\<lparr>ds_current_pack_number := rnd,
      ds_pass_direction := for_pack rnd, ds_status := Drafting\<rparr>) = Ok s1"
    and *: "try_fold (open_seat_pack rnd) [0..<length (ds_seats s1)] s1 = Ok s2" "reconcile_prompts s2 now = Ok t"
    by (auto simp: open_fifo_round_def outcome_simps)
  from s1 have "stamp s1 = stamp s" by (auto simp: update_fifo_def outcome_simps stamp_def)
  with stamp_fold[OF *(1) stamp_open_seat_pack] stamp_reconcile[OF *(2)] show ?thesis by simp
qed

lemma stamp_finish_round:
  assumes "finish_fifo_round s now = Ok (deltas, t)"
  shows "stamp t = stamp s"
proof -
  from assms obtain fifo s1 where s1: "ds_fifo s = Some fifo" "reconcile_prompts s now = Ok s1"
    by (auto simp: finish_fifo_round_def outcome_simps)
  from stamp_reconcile[OF s1(2)] assms s1 show ?thesis
    by (auto simp: finish_fifo_round_def outcome_simps Let_def update_fifo_def stamp_def dest!: stamp_open_round split: if_splits)
qed

lemma stamp_settle:
  assumes "settle_selection s fifo seat picked burned effects = Ok (discarded, passed, t)" "ds_fifo s = Some fifo"
  shows "stamp t = stamp s"
  using assms
  by (auto simp: settle_selection_def settle_pack_def outcome_simps Let_def stamp_def split: list.splits prod.splits)

lemma stamp_select:
  assumes "select_fifo s seat prompt_id picked burned effects timing = Ok (deltas, t)" "cf_flow (ds_config s) = FifoAsync"
  shows "stamp t = stamp s"
  using assms(1)
proof (rule select_fifo_Ok)
  fix fifo discarded passed s1 more
  assume *: "ds_fifo s = Some fifo" "settle_selection s fifo seat picked burned effects = Ok (discarded, passed, s1)"
    "finish_pick s1 seat picked = (Ok more, t)"
  note st = stamp_settle[OF *(2,1)]
  with assms(2) have "cf_flow (ds_config s1) = FifoAsync" by (simp add: stamp_def)
  with *(3) have "\<exists>now ds. finish_fifo_round s1 now = Ok (ds, t)"
    by (auto simp: finish_pick_def outcome_simps split: outcome.splits)
  with st show ?thesis by (auto dest: stamp_finish_round)
qed

lemma stamp_advance:
  assumes "advance s now = Ok (deltas, t)" "cf_flow (ds_config s) = FifoAsync"
  shows "stamp t = stamp s"
proof (cases "ds_status s = Drafting")
  case True
  with assms(1) obtain xs where fold: "try_fold expire_prompt xs ([], s) = Ok (deltas, t)"
    by (auto simp: advance_def outcome_simps)
  have "stamp (snd acc') = stamp s" if "stamp (snd acc) = stamp s" "expire_prompt x acc = Ok acc'" for x acc acc'
  proof -
    have "cf_flow (ds_config (snd acc)) = FifoAsync" using that(1) assms(2) by (simp add: stamp_def)
    then show ?thesis using that
      by (cases x; cases acc; cases acc')
         (auto simp: expire_prompt_def outcome_simps split: if_splits option.splits draft_action.splits dest!: stamp_select)
  qed
  from try_fold_invariant[where I = "\<lambda>acc. stamp (snd acc) = stamp s", OF fold _ this] show ?thesis by simp
next
  case False
  with assms(1) show ?thesis
    by (auto simp: advance_def outcome_simps split: draft_status.splits if_splits dest!: stamp_open_round)
qed

lemma stamp_distribute: "distribute_fifo s now = Ok (deltas, t) \<Longrightarrow> stamp t = stamp s"
  by (auto simp: distribute_fifo_def outcome_simps split: pack_distribution.splits dest!: stamp_open_round) (simp add: stamp_def)

lemma stamp_start:
  assumes "start_fifo seed_from source s now = Ok (deltas, t)"
  shows "stamp t = stamp s"
proof -
  from assms obtain src where src: "source = Some src" by (auto simp: start_fifo_def outcome_simps split: if_splits)
  obtain r rng s1 where gen: "generate_start_packs src (seed_from (cf_rng_seed (ds_config s))) (cf_pod_size (ds_config s)) s = (r, rng, s1)"
    by (cases "generate_start_packs src (seed_from (cf_rng_seed (ds_config s))) (cf_pod_size (ds_config s)) s")
  have s1: "stamp s1 = stamp s"
    using gen by (auto simp: generate_start_packs_def stamp_def split: outcome.splits prod.splits)
  from assms src gen obtain packs fifo fifo' sizes where "ds_fifo s1 = Some fifo"
    and reg: "try_fold (register_row (length (ds_seats s1))) (List.enumerate 0 packs) fifo = Ok fifo'"
    and dist: "distribute_fifo (s1\<lparr>ds_fifo := Some fifo', ds_pack_sizes := sizes, ds_packs_by_seat := packs\<rparr>) now = Ok (deltas, t)"
    by (auto simp: start_fifo_def outcome_simps split: if_splits)
  moreover obtain c p where "fifo' = fifo\<lparr>ff_cards := c, ff_packs := p\<rparr>"
    using register_rows_Ok(1)[OF reg] by (auto simp: registers_def)
  ultimately show ?thesis using stamp_distribute[OF dist] s1 by (auto simp: stamp_def)
qed

definition tournament_action :: "draft_action \<Rightarrow> bool" where
  "tournament_action action \<longleftrightarrow> (case action of
     SubmitDeck _ _ _ _ \<Rightarrow> True | GeneratePairings \<Rightarrow> True | ReportMatchResult _ _ \<Rightarrow> True | AdvanceRound \<Rightarrow> True
   | ReplaceSeatWithBot _ _ \<Rightarrow> True | SetSeatConnected _ _ \<Rightarrow> True | _ \<Rightarrow> False)"

lemma tournament_same_cards:
  assumes "tournament_action action" "apply_existing env s action source = (Ok deltas, t)"
  shows "same_cards s t \<and> ds_current_pack_number t = ds_current_pack_number s
    \<and> (ds_status t = ds_status s \<or> ds_status s \<in> {Deckbuilding, Pairing, MatchInProgress, RoundComplete}
        \<and> ds_status t \<notin> {Lobby, Drafting, Review, Paused, Deckbuilding})"
proof -
  have close: "same_cards s (snd (close_round (record_result s idx w)))
     \<and> ds_current_pack_number (snd (close_round (record_result s idx w))) = ds_current_pack_number s
     \<and> ds_status (snd (close_round (record_result s idx w))) \<in> {Complete, RoundComplete, ds_status s}" for idx w
    by (auto simp: close_round_def record_result_def Let_def same_cards_def split: tournament_format.splits)
  have sub: "same_cards s (snd (close_deckbuilding seat u)) \<and> ds_current_pack_number (snd (close_deckbuilding seat u)) = ds_current_pack_number u
      \<and> ds_status (snd (close_deckbuilding seat u)) \<in> {Complete, Pairing, ds_status s}"
    if "same_cards s u" "ds_status u = ds_status s" for seat u
    using that by (auto simp: close_deckbuilding_def Let_def same_cards_def split: post_draft_play.splits)
  show ?thesis
  proof (cases action)
    case (SubmitDeck seat main_deck commanders printings)
    with assms(2) obtain d where "ds_status s = Deckbuilding"
      "close_deckbuilding seat (s\<lparr>ds_submitted_decks := d\<rparr>) = (Ok deltas, t)"
      by (auto simp: apply_submit_deck_def Let_def split: if_splits outcome.splits)
    with sub[of "s\<lparr>ds_submitted_decks := d\<rparr>" seat] show ?thesis by (auto simp: same_cards_def)
  next
    case (ReportMatchResult reported w)
    with assms(2) obtain idx p where "ds_status s \<in> {MatchInProgress, RoundComplete}" "t = snd (close_round (record_result s idx p))"
      by (auto simp: apply_report_match_result_def Let_def split_beta split: if_splits outcome.splits option.splits)
    with close[of idx p] show ?thesis by (auto simp: same_cards_def)
  next
    case GeneratePairings
    with assms(2) show ?thesis
      by (auto simp: apply_generate_pairings_def Let_def split_beta same_cards_def split: if_splits draft_status.splits)
  qed (use assms in \<open>auto simp: tournament_action_def apply_advance_round_def apply_replace_seat_with_bot_def
      apply_set_seat_connected_def Let_def same_cards_def split: if_splits\<close>)
qed

lemma fifo_action_cases:
  assumes "fifo_action env s action source now = Ok (deltas, t)"
  obtains (start) "action = StartDraft" "start_fifo (env_seed_from env) source s now = Ok (deltas, t)"
  | (select) seat prompt_id picked burned effects where "action = Select seat prompt_id picked burned effects"
      "select_fifo s seat prompt_id picked burned effects TimingHuman = Ok (deltas, t)"
  | (control) c where "action = Control c" "control s c now = Ok (deltas, t)"
  | (advance) "action = AdvanceClock" "advance s now = Ok (deltas, t)"
  | (tournament) "tournament_action action" "apply_existing env s action source = (Ok deltas, t)"
  using assms by (cases action) (auto simp: tournament_action_def of_step_def outcome_simps prod_eq_iff)

lemma stamp_action:
  assumes "fifo_action env s action source now = Ok (deltas, t)" "cf_flow (ds_config s) = FifoAsync"
  shows "stamp t = stamp s"
  using assms(1)
proof (cases rule: fifo_action_cases)
  case tournament
  from tournament_same_cards[OF this] show ?thesis by (simp add: same_cards_def stamp_def)
qed (use assms(2) in \<open>auto dest: stamp_start stamp_select stamp_control stamp_advance\<close>)

text \<open>
  C17. Atomicity of a FIFO action. An action that is refused, whatever it had already staged, leaves the
  session exactly as it was. An accepted action either changes nothing, or commits a session that
  passes the snapshot validator, with the revision one higher, the clock reading not earlier than
  before and not earlier than the given time, the same session id and the same configuration; both
  counters stay within the interoperable integer range.
\<close>

theorem apply_at_atomic:
  assumes "cf_flow (ds_config s) = FifoAsync" "ds_fifo s = Some fifo" "apply_at env s action source now_ms = (r, t)"
  shows "if is_ok r then t = s \<or> (\<exists>fifo'. ds_fifo t = Some fifo' \<and> validate_persisted_snapshot t = Ok ()
        \<and> ds_config t = ds_config s \<and> ff_session_id fifo' = ff_session_id fifo \<and> ff_revision fifo' = ff_revision fifo + 1
        \<and> ff_last_now_ms fifo' = max now_ms (ff_last_now_ms fifo)
        \<and> ff_revision fifo' \<le> MAX_DRAFT_JSON_INTEGER \<and> ff_last_now_ms fifo' \<le> MAX_DRAFT_JSON_INTEGER)
     else t = s"
proof -
  define staged where "staged = and_then (validate_persisted_snapshot s) (\<lambda>_.
                and_then (clamped_now s now_ms) (\<lambda>now.
                and_then (fifo_ref s) (\<lambda>fifo.
                and_then (fifo_action env (s\<lparr>ds_fifo := Some (fifo\<lparr>ff_last_now_ms := now\<rparr>)\<rparr>) action source now)
                  (commit_candidate s))))"
  have run: "(r, t) = (case staged of Ok (deltas, t) \<Rightarrow> (Ok deltas, t) | Err e \<Rightarrow> (Err e, s) | Panic \<Rightarrow> (Panic, s))"
    using assms(1,3) by (simp add: apply_at_def staged_def)
  show ?thesis
  proof (cases "is_ok r")
    case False
    with run show ?thesis by (cases staged) auto
  next
    case True
    with run obtain deltas where "staged = Ok (deltas, t)" by (cases staged) auto
    then obtain ds cand now where now: "clamped_now s now_ms = Ok now"
      and act: "fifo_action env (s\<lparr>ds_fifo := Some (fifo\<lparr>ff_last_now_ms := now\<rparr>)\<rparr>) action source now = Ok (ds, cand)"
      and commit: "commit_candidate s (ds, cand) = Ok (deltas, t)"
      using assms(2) by (auto simp: staged_def outcome_simps)
    have nw: "now = max now_ms (ff_last_now_ms fifo)" using now assms(2) by (auto simp: clamped_now_def outcome_simps split: if_splits)
    from stamp_action[OF act] assms(1) obtain f where f: "ds_fifo cand = Some f" "ff_session_id f = ff_session_id fifo"
      "ff_revision f = ff_revision fifo" "ff_last_now_ms f = now" "ds_config cand = ds_config s"
      by (auto simp: stamp_def)
    show ?thesis
    proof (cases "cand = s")
      case True
      with commit have "t = s" by (simp add: commit_candidate_def)
      then show ?thesis by simp
    next
      case False
      with commit f(1) obtain rev where rev: "increment (ff_revision f) = Ok rev" "t = cand\<lparr>ds_fifo := Some (f\<lparr>ff_revision := rev\<rparr>)\<rparr>"
        "validate_persisted_snapshot t = Ok ()"
        by (auto simp: commit_candidate_def outcome_simps Let_def)
      have "ff_last_now_ms (f\<lparr>ff_revision := rev\<rparr>) \<le> MAX_DRAFT_JSON_INTEGER"
        using rev(2,3) f(5) assms(1) validate_fifo_shape_Ok[of t "f\<lparr>ff_revision := rev\<rparr>"]
        by (auto simp: validate_persisted_snapshot_def validate_fifo_snapshot_def outcome_simps split: if_splits)
      with rev f nw True show ?thesis by (auto simp: increment_Ok_iff)
    qed
  qed
qed

section \<open>Concrete FIFO sessions\<close>

definition sample_fifo_config :: draft_config where
  "sample_fifo_config = (sample_config Premier 2)\<lparr>cf_flow := FifoAsync, cf_pack_count := 1\<rparr>"

definition sample_new_fifo :: draft_session where
  "sample_new_fifo = (case new_fifo sample_fifo_config (sample_seats 2) ''CODE'' ''S'' of Ok s \<Rightarrow> s | _ \<Rightarrow> sample_lobby)"

definition sample_source :: "unit pack_source" where
  "sample_source = fixture_pack_source ''SET'' 2"

definition sample_prompt_id :: "nat \<Rightarrow> draft_prompt_id" where
  "sample_prompt_id seat = \<lparr>pi_session_id = ''S'', pi_seat = seat, pi_generation = 1\<rparr>"

lemma sample_new_fifo_Ok: "new_fifo sample_fifo_config (sample_seats 2) ''CODE'' ''S'' = Ok sample_new_fifo"
proof -
  have "is_ok (new_fifo sample_fifo_config (sample_seats 2) ''CODE'' ''S'')" by code_simp
  then show ?thesis by (auto simp: sample_new_fifo_def is_ok_iff)
qed

definition sample_started :: draft_session where
  "sample_started = snd (apply_at sample_env sample_new_fifo StartDraft (Some sample_source) 5)"

theorem accepted_snapshot_conserves_witness:
  "\<exists>fifo. ds_fifo sample_started = Some fifo \<and> fifo_ids sample_started = mset_set (fmdom' (ff_cards fifo))"
proof -
  have "validate_persisted_snapshot sample_started = Ok ()" by code_simp
  moreover have "ds_status sample_started = Drafting" by code_simp
  moreover have "cf_flow (ds_config sample_started) = FifoAsync" by code_simp
  moreover have "ds_fifo sample_started \<noteq> None" by code_simp
  ultimately show ?thesis using accepted_snapshot_conserves[of sample_started] by auto
qed

theorem apply_at_atomic_witness:
  "\<exists>deltas t fifo. apply_at sample_env sample_new_fifo StartDraft (Some sample_source) 5 = (Ok deltas, t)
     \<and> ds_fifo t = Some fifo \<and> ff_revision fifo = 1 \<and> ff_last_now_ms fifo = 5"
proof -
  let ?res = "apply_at sample_env sample_new_fifo StartDraft (Some sample_source) 5"
  have ok: "is_ok (fst ?res)" by code_simp
  have ne: "ds_status (snd ?res) \<noteq> ds_status sample_new_fifo" by code_simp
  have flow: "cf_flow (ds_config sample_new_fifo) = FifoAsync" by code_simp
  have "map_option (\<lambda>f. (ff_revision f, ff_last_now_ms f)) (ds_fifo sample_new_fifo) = Some (0, 0)" by code_simp
  then obtain f where f: "ds_fifo sample_new_fifo = Some f" "ff_revision f = 0" "ff_last_now_ms f = 0" by auto
  from apply_at_atomic[OF flow f(1) prod.collapse[symmetric], of sample_env StartDraft "Some sample_source" 5] ok ne f(2,3)
  show ?thesis by (auto simp: is_ok_iff prod_eq_iff)
qed

section \<open>Restored shared stacks\<close>

lemma validated_stack_playable:
  assumes "validate_persisted_snapshot s = Ok ()" "ds_kind s = Winston" "ds_status s = Drafting"
    and "cf_pod_size (ds_config s) < 256"
  shows "playable s"
proof -
  have "cf_flow (ds_config s) = LegacyBarrier"
  proof (rule ccontr)
    assume "cf_flow (ds_config s) \<noteq> LegacyBarrier"
    then have "validate_fifo_snapshot s = Ok ()"
      using assms(1) by (cases "cf_flow (ds_config s)") (auto simp: validate_persisted_snapshot_def)
    then have "validate_fifo_config (ds_config s) (length (ds_seats s)) (AdmitSnapshot FifoAsync) = Ok ()"
      "cf_kind (ds_config s) = Winston"
      using assms(2) unfolding validate_fifo_snapshot_def and_then_eq_Ok by (auto split: if_splits)
    then show False
      by (auto simp: validate_fifo_config_def and_then_eq_Ok winston_procedure_def split: option.splits if_splits)
  qed
  then have "validate_legacy_snapshot s = Ok ()"
    using assms(1) by (auto simp: validate_persisted_snapshot_def and_then_eq_Ok)
  then have "validate_shared_stack_snapshot s 3 = Ok ()"
    using assms(2) by (auto simp: validate_legacy_snapshot_def and_then_eq_Ok Let_def winston_procedure_def split: if_splits)
  then obtain st where st: "ds_shared_stack s = Some st" "validate_stack_state s 3 st = Ok ()"
    using assms(3) by (auto simp: validate_shared_stack_snapshot_def piles_needed_def and_then_eq_Ok winston_procedure_def split: option.splits if_splits)
  then have "pile_shape (length (ds_seats s)) 3 st" "length (ds_pools s) = length (ds_seats s)"
    "forced_decision st (ss_active_seat st) \<noteq> None"
    using assms(3,4) by (auto simp: validate_stack_state_def Let_def pile_shape_def list_ex_iff not_le split: if_splits)
  with st(1) show ?thesis by (auto simp: playable_def)
qed

text \<open>
  C5. A restored Winston draft can be played to its end. If the validator accepts the snapshot of a
  drafting Winston session, then no sequence of decisions makes the reducer panic or changes the
  cards of the session, boundedly many decisions are accepted, and driving the active seat by
  \<open>forced_decision\<close> reaches \<open>Deckbuilding\<close> with every card of the snapshot in a pool, although
  the validator admits states, such as an empty pile beside a stocked stack, that no draft reaches.
\<close>

theorem restored_stack_plays:
  assumes "validate_persisted_snapshot s = Ok ()" "ds_kind s = Winston" "ds_status s = Drafting"
    and "cf_pod_size (ds_config s) < 256"
  shows "fst (shared_stack_step (run shared_stack_step s decisions) a) \<noteq> Panic
    \<and> winston_cards (run shared_stack_step s decisions) = winston_cards s
    \<and> accepted shared_stack_step s decisions \<le> winston_potential s
    \<and> ds_status (drive_forced (winston_potential s) s) = Deckbuilding
    \<and> flatten_mset (ds_pools (drive_forced (winston_potential s) s)) = winston_cards s"
proof -
  note play = validated_stack_playable[OF assms]
  from drive_forced_finishes[OF play assms(3) order.refl] drained_pools
  have "ds_status (drive_forced (winston_potential s) s) = Deckbuilding
    \<and> flatten_mset (ds_pools (drive_forced (winston_potential s) s)) = winston_cards s" by auto
  with table_safe.run_no_panic[OF play] table_cards.run_content[OF play] table.accepted_bound[OF play, of decisions]
  show ?thesis by simp
qed

definition sample_restored :: draft_session where
  "sample_restored = sample_winston\<lparr>ds_shared_stack := Some (sample_stack\<lparr>
     ss_piles := [[sample_card ''a''], [], []]\<rparr>)\<rparr>"

theorem restored_stack_plays_witness:
  "\<not> winston_inv sample_restored
   \<and> ds_status (drive_forced (winston_potential sample_restored) sample_restored) = Deckbuilding
   \<and> size (flatten_mset (ds_pools (drive_forced (winston_potential sample_restored) sample_restored))) = 3"
proof -
  have "validate_persisted_snapshot sample_restored = Ok ()" "ds_kind sample_restored = Winston"
    "ds_status sample_restored = Drafting" "cf_pod_size (ds_config sample_restored) < 256"
    by code_simp+
  from restored_stack_plays[OF this, of "[]" "(0, 0, Take)"]
  have fin: "ds_status (drive_forced (winston_potential sample_restored) sample_restored) = Deckbuilding"
    "flatten_mset (ds_pools (drive_forced (winston_potential sample_restored) sample_restored)) = winston_cards sample_restored"
    by simp_all
  have "\<not> winston_inv sample_restored"
    by (simp add: winston_inv_def sample_restored_def sample_stack_def piles_stocked_def)
  moreover have "size (winston_cards sample_restored) = 3"
    by (simp add: sample_restored_def sample_winston_def sample_stack_def sample_defs winston_cards_def
        stack_cards_def flatten_mset_concat upt_rec)
  ultimately show ?thesis by (simp add: fin)
qed

end
