(* ===== verification/Fifo_Session.thy ===== *)
theory Fifo_Session
  imports Snapshot
begin

text \<open>
  A FIFO session under \<open>apply_at\<close> (\<open>crates/draft-core/src/session.rs\<close>), from \<open>new_fifo\<close> to its
  end. The invariant says that the session is a fresh lobby or a well-formed FIFO draft. The lemmas
  carry it through the start, selections, the clock, pausing, deck submission and the tournament,
  and through the commit of \<open>apply_at\<close>; the properties are that no sequence of actions makes the
  reducer panic, that the cards are conserved, and that a prompt is answered at most once.
\<close>

section \<open>What the FIFO invariant depends on\<close>

definition same_fifo :: "draft_session \<Rightarrow> draft_session \<Rightarrow> bool" where
  "same_fifo s t \<longleftrightarrow> ds_config t = ds_config s \<and> length (ds_seats t) = length (ds_seats s) \<and> ds_pools t = ds_pools s
     \<and> ds_packs_by_seat t = ds_packs_by_seat s \<and> ds_current_pack_number t = ds_current_pack_number s
     \<and> (\<exists>f rev now. ds_fifo s = Some f \<and> ds_fifo t = Some (f\<lparr>ff_revision := rev, ff_last_now_ms := now\<rparr>))"

lemma same_fifoI:
  assumes "ds_fifo s = Some f" "ds_fifo t = Some (f\<lparr>ff_revision := revision, ff_last_now_ms := now\<rparr>)" "ds_config t = ds_config s"
    "length (ds_seats t) = length (ds_seats s)" "ds_pools t = ds_pools s" "ds_packs_by_seat t = ds_packs_by_seat s"
    "ds_current_pack_number t = ds_current_pack_number s"
  shows "same_fifo s t"
  unfolding same_fifo_def using assms by blast

lemma same_fifo_content:
  assumes "same_fifo s t"
  shows "fifo_ids t = fifo_ids s" "answered y t = answered y s"
  using assms by (auto simp: same_fifo_def fifo_ids_def live_cards_def unopened_cards_def removed_ids_def answered_def)

lemma same_fifo_inv:
  assumes "same_fifo s t" "fifo_inv s"
    "ds_status t = ds_status s \<or> ds_status s \<in> {Deckbuilding, Pairing, MatchInProgress, RoundComplete}
       \<and> ds_status t \<notin> {Lobby, Drafting, Review, Paused, Deckbuilding}"
  shows "fifo_inv t"
proof -
  from assms(1) obtain f rev now where f: "ds_fifo s = Some f" "ds_fifo t = Some (f\<lparr>ff_revision := rev, ff_last_now_ms := now\<rparr>)"
    by (auto simp: same_fifo_def)
  let ?f = "f\<lparr>ff_revision := rev, ff_last_now_ms := now\<rparr>"
  from assms(2) f(1) have inv: "fifo_table s f" "status_ok s f" by (auto simp: fifo_inv_def fifo_table_def)
  have tab: "fifo_table t ?f" using inv(1) assms(1) f by (simp add: fifo_table_def same_fifo_def)
  have parts: "drafting_ok t ?f = drafting_ok s f" "review_ok t ?f = review_ok s f" "idle_seats ?f = idle_seats f"
    "all_running ?f = all_running f" "all_frozen ?f = all_frozen f" "\<And>p. phase_ok p t ?f = phase_ok p s f" "\<And>r. unopened t r = unopened s r"
    using assms(1)
    by (auto simp: same_fifo_def drafting_ok_def review_ok_def unopened_def idle_seats_def all_running_def all_frozen_def clocks_def
        prompts_named_def prompt_names_seat_def phase_ok_def split: draft_active_phase.splits)
  have "status_ok t ?f"
  proof (cases "ds_status t = ds_status s")
    case True
    with inv(2) parts assms(1) show ?thesis by (simp add: status_ok_def same_fifo_def split: draft_status.splits)
  next
    case False
    with assms(3) have "idle_seats f" "ds_status t \<notin> {Lobby, Drafting, Review, Paused, Deckbuilding}"
      using inv(2) by (auto simp: status_ok_def)
    with parts show ?thesis by (auto simp: status_ok_def split: draft_status.splits)
  qed
  with tab assms(2) same_fifo_content(1)[OF assms(1)] show ?thesis by (auto simp: fifo_inv_def)
qed

lemma same_fifo_fresh:
  assumes "same_fifo s t" "fresh_fifo s" "ds_status t = ds_status s"
  shows "fresh_fifo t"
  using assms by (auto simp: same_fifo_def fresh_fifo_def)

section \<open>Starting does not panic\<close>

lemma register_cards_not_Panic: "try_fold (register_card pack_id) pack cards \<noteq> Panic"
  by (rule try_fold_not_Panic[where I = "\<lambda>_. True"]) (auto simp: register_card_def)

lemma register_rows_not_Panic:
  assumes "length packs < 256" "\<forall>row\<in>set packs. length row < 256"
  shows "try_fold (register_row n) (List.enumerate 0 packs) fifo \<noteq> Panic"
proof (rule try_fold_not_Panic[where I = "\<lambda>_. True"])
  fix x f assume x: "x \<in> set (List.enumerate 0 packs)"
  obtain i row where [simp]: "x = (i, row)" by (cases x)
  have i: "i < 256" "length row < 256" using x assms by (auto simp: in_set_enumerate_eq)
  have "register_pack n i y g \<noteq> Panic" if "y \<in> set (List.enumerate 0 row)" for y g
  proof -
    obtain rnd pack where y: "y = (rnd, pack)" by (cases y)
    have "rnd < 256" using that i y by (auto simp: in_set_enumerate_eq)
    then show ?thesis using i by (auto simp: y register_pack_def outcome_simps register_cards_not_Panic try_u8_def)
  qed
  then have "try_fold (register_pack n i) (List.enumerate 0 row) f \<noteq> Panic"
    by (intro try_fold_not_Panic[where I = "\<lambda>_. True"]) auto
  then show "register_row n x f \<noteq> Panic" by (simp add: register_row_def)
qed auto

lemma try_map_not_Panic: "(\<And>x. x \<in> set xs \<Longrightarrow> f x \<noteq> Panic) \<Longrightarrow> try_map f xs \<noteq> Panic"
  using try_map_Panic by metis

definition source_total :: "'r pack_source \<Rightarrow> draft_config \<Rightarrow> bool" where
  "source_total src config \<longleftrightarrow> (\<forall>rng n. validate_layout (cf_source config) n (cf_pack_count config) = Ok ()
     \<longrightarrow> fst (ps_generate_packs src rng config n) \<noteq> Panic)"

lemma start_fifo_not_Panic:
  assumes "fresh_fifo s" "source_total src (ds_config s)"
  shows "start_fifo seed_from (Some src) s now \<noteq> Panic"
proof
  assume panic: "start_fifo seed_from (Some src) s now = Panic"
  obtain r rng' where gen: "ps_generate_packs src (seed_from (cf_rng_seed (ds_config s))) (ds_config s) (cf_pod_size (ds_config s)) = (r, rng')"
    by (cases "ps_generate_packs src (seed_from (cf_rng_seed (ds_config s))) (ds_config s) (cf_pod_size (ds_config s))")
  from assms(1) obtain fifo where fifo: "ds_fifo s = Some fifo" and st: "ds_status s = Lobby" by (auto simp: fresh_fifo_def)
  from panic st obtain u where v: "validate_fifo_config (ds_config s) (length (ds_seats s)) AdmitConfiguration = Ok u"
    by (auto simp: start_fifo_def outcome_simps validate_fifo_config_not_Panic)
  note c = validate_fifo_config_Ok[OF v]
  have r: "r \<noteq> Panic" using assms(2) c(3,6) gen unfolding source_total_def by (metis fst_conv)
  from panic gen r st v obtain packs where cfg: "validate_fifo_config (ds_config s) (length (ds_seats s)) AdmitConfiguration = Ok u" "r = Ok packs"
    by (cases r) (auto simp: start_fifo_def outcome_simps generate_start_packs_def)
  from panic gen cfg c st fifo have dims: "length packs = length (ds_seats s)" "\<forall>row\<in>set packs. length row = cf_pack_count (ds_config s)"
    by (auto simp: start_fifo_def generate_start_packs_def list_ex_iff split: if_splits)
  have reg: "try_fold (register_row (length (ds_seats s))) (List.enumerate 0 packs) fifo \<noteq> Panic"
    by (rule register_rows_not_Panic) (use dims c in \<open>auto simp: MAX_PACK_COUNT_def\<close>)
  let ?size = "\<lambda>pack. case try_u8 (length pack) of None \<Rightarrow> Panic | Some n \<Rightarrow> (Ok n :: nat draft_result)"
  from panic gen cfg c st fifo dims reg obtain fifo' where reg': "try_fold (register_row (length (ds_seats s))) (List.enumerate 0 packs) fifo = Ok fifo'"
    and rest: "and_then (index packs 0) (\<lambda>first. and_then (try_map ?size first) (\<lambda>sizes. distribute_fifo
       (s\<lparr>ds_booster_pack_pool := ps_booster_pack_pool src, ds_fifo := Some fifo', ds_pack_sizes := sizes, ds_packs_by_seat := packs\<rparr>) now)) = Panic"
    by (auto simp: start_fifo_def generate_start_packs_def outcome_simps fifo_ref_def list_ex_iff)
  note rows = register_rows_Ok[OF reg']
  have p0: "packs ! 0 \<in> set packs" using dims c(1) by simp
  have "try_map ?size (packs ! 0) \<noteq> Panic"
    by (rule try_map_not_Panic) (use rows(2) p0 in \<open>auto simp: try_u8_def\<close>)
  with rest dims c(1) obtain sizes where dist: "distribute_fifo
       (s\<lparr>ds_booster_pack_pool := ps_booster_pack_pool src, ds_fifo := Some fifo', ds_pack_sizes := sizes, ds_packs_by_seat := packs\<rparr>) now = Panic"
    by (auto simp: outcome_simps)
  note st = start_table(1,3)[OF assms(1) fifo dims reg' c(1-3,5), where pool = "ps_booster_pack_pool src" and sizes = sizes]
    start_table(2)[OF assms(1) fifo dims reg' c(1-3,5)]
  have "fails_only counters_exhausted (open_fifo_round (s\<lparr>ds_booster_pack_pool := ps_booster_pack_pool src,
      ds_fifo := Some fifo', ds_pack_sizes := sizes, ds_packs_by_seat := packs\<rparr>) 0 now)"
    by (rule open_round(1)[OF st(1,3,2)]) (use c(4) in simp)
  with dist show False by (auto simp: distribute_fifo_def outcome_simps split: pack_distribution.splits)
qed

section \<open>A FIFO session from its creation\<close>

definition fifo_session_inv :: "draft_session \<Rightarrow> bool" where
  "fifo_session_inv s \<longleftrightarrow> (if ds_status s = Lobby then fresh_fifo s else fifo_inv s)"

lemma fifo_session_flow: "fifo_session_inv s \<Longrightarrow> cf_flow (ds_config s) = FifoAsync"
  by (auto simp: fifo_session_inv_def fresh_fifo_def fifo_inv_def fifo_table_def split: if_splits)

lemma fifo_session_fifo: "fifo_session_inv s \<Longrightarrow> \<exists>f. ds_fifo s = Some f"
  by (auto simp: fifo_session_inv_def fresh_fifo_def fifo_inv_def fifo_table_def split: if_splits)

lemma same_fifo_session:
  assumes "same_fifo s t" "fifo_session_inv s" "ds_status t = ds_status s"
  shows "fifo_session_inv t"
  using assms same_fifo_fresh[OF assms(1) _ assms(3)] same_fifo_inv[OF assms(1)] by (auto simp: fifo_session_inv_def)

lemma new_fifo_fresh:
  assumes "new_fifo config seats code sid = Ok s"
  shows "fresh_fifo s"
  using assms by (auto simp: new_fifo_def outcome_simps fresh_fifo_def new_session_def Let_def split: if_splits)

lemma new_fifo_config:
  "new_fifo config seats code sid = Ok s \<Longrightarrow> ds_config s = config \<and> ds_status s = Lobby"
  by (auto simp: new_fifo_def outcome_simps new_session_def Let_def split: if_splits)

text \<open>What one accepted action does to a session under the invariant.\<close>

definition fifo_moves :: "draft_session \<Rightarrow> draft_session \<Rightarrow> bool" where
  "fifo_moves s t \<longleftrightarrow> fifo_session_inv t
     \<and> (ds_status s \<noteq> Lobby \<longrightarrow> ds_status t \<noteq> Lobby \<and> fifo_ids t = fifo_ids s \<and> (\<forall>y. answered y s \<longrightarrow> answered y t))
     \<and> (ds_status s = Lobby \<longrightarrow> ds_status t = Lobby \<longrightarrow> ds_config t = ds_config s)"

lemma fifo_moves_trans: "fifo_moves s t \<Longrightarrow> fifo_moves t u \<Longrightarrow> fifo_moves s u"
  by (auto simp: fifo_moves_def)

lemma same_fifo_moves: "same_fifo s t \<Longrightarrow> fifo_session_inv s \<Longrightarrow> ds_status t = ds_status s \<Longrightarrow> fifo_moves s t"
  using same_fifo_session same_fifo_content by (simp add: fifo_moves_def) (simp add: same_fifo_def)

lemma advance_moves:
  assumes "fifo_inv s" "ds_fifo s = Some f" "now = ff_last_now_ms f"
  shows "advance s now \<noteq> Panic"
    and "advance s now = Ok (deltas, t) \<Longrightarrow> fifo_inv t \<and> fifo_ids t = fifo_ids s \<and> (\<forall>y. answered y s \<longrightarrow> answered y t)"
proof -
  have tame: "r \<noteq> Panic" if "fails_only counters_exhausted r" for r :: fifo_step using that by auto
  consider (drafting) "ds_status s = Drafting" | (review) "ds_status s = Review" | (other) "advance s now = Ok ([], s)"
    by (cases "ds_status s") (auto simp: advance_def)
  note cases = this
  from cases show "advance s now \<noteq> Panic"
  proof cases
    case drafting
    then show ?thesis using tame advance_drafting(1)[OF assms(1,2) _ assms(3)] by blast
  next
    case review
    then show ?thesis using tame advance_review(1)[OF assms(1,2)] by blast
  qed simp
  from cases show "advance s now = Ok (deltas, t) \<Longrightarrow> fifo_inv t \<and> fifo_ids t = fifo_ids s \<and> (\<forall>y. answered y s \<longrightarrow> answered y t)"
  proof cases
    case drafting
    then show "advance s now = Ok (deltas, t) \<Longrightarrow> ?thesis" using advance_drafting(2)[OF assms(1,2) _ assms(3)] unfolding expiring_def by fastforce
  next
    case review
    then show "advance s now = Ok (deltas, t) \<Longrightarrow> ?thesis" using advance_review(2)[OF assms(1,2)] same_table_content(1) by metis
  qed (use assms(1) in auto)
qed

text \<open>No FIFO action returns to the lobby.\<close>

lemma reconcile_status: "reconcile_prompts s now = Ok t \<Longrightarrow> ds_status t = ds_status s"
  by (auto simp: reconcile_prompts_def outcome_simps)

lemma open_round_status:
  assumes "open_fifo_round s rnd now = Ok t"
  shows "ds_status t = Drafting"
proof -
  from assms obtain s1 s2 where s1: "update_fifo (\<lambda>f. f\<lparr>ff_review := None\<rparr>) (s\<lparr>ds_current_pack_number := rnd,
      ds_pass_direction := for_pack rnd, ds_status := Drafting\<rparr>) = Ok s1"
    and fold: "try_fold (open_seat_pack rnd) [0..<length (ds_seats s1)] s1 = Ok s2" and rec: "reconcile_prompts s2 now = Ok t"
    by (auto simp: open_fifo_round_def outcome_simps)
  from s1 have "ds_status s1 = Drafting" by (auto simp: update_fifo_def outcome_simps)
  moreover have "ds_status s2 = ds_status s1"
    by (rule try_fold_invariant[OF fold, where I = "\<lambda>u. ds_status u = ds_status s1"])
       (auto simp: open_seat_pack_def outcome_simps Let_def split: list.splits option.splits)
  ultimately show ?thesis using reconcile_status[OF rec] by simp
qed

lemma distribute_status: "distribute_fifo s now = Ok (deltas, t) \<Longrightarrow> ds_status t \<noteq> Lobby"
  by (cases "pr_distribution (procedure (ds_kind s))") (auto simp: distribute_fifo_def outcome_simps dest!: open_round_status)

lemma finish_round_status:
  assumes "finish_fifo_round s now = Ok (deltas, t)"
  shows "ds_status t \<in> {ds_status s, Drafting, Review, Deckbuilding}"
proof -
  from assms obtain fifo s1 where s1: "ds_fifo s = Some fifo" "reconcile_prompts s now = Ok s1"
    by (auto simp: finish_fifo_round_def outcome_simps)
  from reconcile_status[OF s1(2)] assms s1 show ?thesis
    by (auto simp: finish_fifo_round_def outcome_simps Let_def update_fifo_def dest!: open_round_status split: if_splits)
qed

lemma select_status:
  assumes "select_fifo s seat prompt_id picked burned effects timing = Ok (deltas, t)" "cf_flow (ds_config s) = FifoAsync"
  shows "ds_status s = Drafting" "ds_status t \<in> {Drafting, Review, Deckbuilding}"
proof -
  show st: "ds_status s = Drafting" using assms(1) by (simp add: select_fifo_def split: if_splits)
  show "ds_status t \<in> {Drafting, Review, Deckbuilding}"
    using assms(1)
  proof (rule select_fifo_Ok)
    fix fifo discarded passed s1 more
    assume *: "ds_fifo s = Some fifo" "settle_selection s fifo seat picked burned effects = Ok (discarded, passed, s1)"
      "finish_pick s1 seat picked = (Ok more, t)"
    from stamp_settle[OF *(2,1)] assms(2) have "cf_flow (ds_config s1) = FifoAsync" by (simp add: stamp_def)
    with *(3) obtain now ds where "finish_fifo_round s1 now = Ok (ds, t)"
      by (auto simp: finish_pick_def outcome_simps split: outcome.splits)
    moreover have "ds_status s1 = Drafting"
      using *(2) st by (auto simp: settle_selection_def outcome_simps Let_def split: list.splits prod.splits)
    ultimately show ?thesis using finish_round_status by fastforce
  qed
qed

lemma advance_status:
  assumes "advance s now = Ok (deltas, t)" "cf_flow (ds_config s) = FifoAsync" "ds_status s \<noteq> Lobby"
  shows "ds_status t \<noteq> Lobby"
proof (cases "ds_status s = Drafting")
  case True
  with assms(1) obtain xs where fold: "try_fold expire_prompt xs ([], s) = Ok (deltas, t)" by (auto simp: advance_def outcome_simps)
  let ?I = "\<lambda>acc. stamp (snd acc) = stamp s \<and> ds_status (snd acc) \<noteq> Lobby"
  have "?I acc'" if "?I acc" "expire_prompt x acc = Ok acc'" for x acc acc'
  proof -
    have "cf_flow (ds_config (snd acc)) = FifoAsync" using that(1) assms(2) by (simp add: stamp_def)
    then show ?thesis using that
      by (cases x; cases acc; cases acc')
         (auto simp: expire_prompt_def outcome_simps split: if_splits option.splits draft_action.splits dest: stamp_select select_status(2))
  qed
  from try_fold_invariant[where I = ?I, OF fold _ this] assms(3) show ?thesis by simp
next
  case False
  with assms show ?thesis by (auto simp: advance_def outcome_simps split: draft_status.splits if_splits dest!: open_round_status)
qed

lemma control_status: "control s c now = Ok (deltas, t) \<Longrightarrow> ds_status s \<noteq> Lobby \<and> ds_status t \<noteq> Lobby"
proof (induction s c now rule: control.induct)
  case (2 s now)
  then show ?case by (auto simp: outcome_simps split: if_splits) (metis phase_status.elims draft_status.distinct(1,3))
qed (auto simp: outcome_simps pause_phase_def split: draft_status.splits)

section \<open>Every action keeps the invariant\<close>

lemma fifo_action_moves:
  assumes "fifo_session_inv s" "ds_fifo s = Some f" "now = ff_last_now_ms f"
    "fifo_action env s action (Some src) now = Ok (deltas, t)"
  shows "fifo_moves s t" "\<And>seat y picked burned effects. action = Select seat y picked burned effects \<Longrightarrow> answered y t"
proof -
  note flow = fifo_session_flow[OF assms(1)]
  have inv: "fifo_inv s" if "ds_status s \<noteq> Lobby" using assms(1) that by (simp add: fifo_session_inv_def)
  from assms(4) have "fifo_moves s t \<and> (\<forall>seat y picked burned effects. action = Select seat y picked burned effects \<longrightarrow> answered y t)"
  proof (cases rule: fifo_action_cases)
    case start
    then have lob: "ds_status s = Lobby" by (simp add: start_fifo_def split: if_splits)
    with assms(1) have "fresh_fifo s" by (simp add: fifo_session_inv_def)
    from start_fifo_inv[OF start(2) this] have "fifo_inv t" by blast
    moreover have "ds_status t \<noteq> Lobby"
      using start(2) by (auto simp: start_fifo_def outcome_simps split: if_splits prod.splits dest: distribute_status)
    ultimately show ?thesis using start(1) lob by (simp add: fifo_moves_def fifo_session_inv_def)
  next
    case (select seat y picked burned effects)
    note st = select_status[OF select(2) flow]
    with inv have i: "fifo_inv s" by simp
    have "fifo_inv t" using select_fifo_inv[OF i select(2)] by blast
    moreover have "fifo_ids t = fifo_ids s" using select_fifo_content[OF select(2) flow] by blast
    ultimately show ?thesis using st answered_select[OF i select(2)] select(1) by (auto simp: fifo_moves_def fifo_session_inv_def)
  next
    case (control c)
    note st = control_status[OF control(2)]
    with control_inv[OF inv control(2)] same_table_content(1) control(1) show ?thesis
      by (auto simp: fifo_moves_def fifo_session_inv_def)
  next
    case advance
    show ?thesis
    proof (cases "ds_status s = Lobby")
      case True
      with advance(2) have "t = s" by (simp add: advance_def)
      with assms(1) advance(1) show ?thesis by (simp add: fifo_moves_def)
    next
      case False
      with advance_moves(2)[OF inv assms(2,3) advance(2)] advance_status[OF advance(2) flow] advance(1) show ?thesis
        by (simp add: fifo_moves_def fifo_session_inv_def)
    qed
  next
    case tournament
    note tr = tournament_same_cards[OF tournament]
    have "f = f\<lparr>ff_revision := ff_revision f, ff_last_now_ms := ff_last_now_ms f\<rparr>" by simp
    with tr assms(2) have same: "same_fifo s t" unfolding same_fifo_def same_cards_def by metis
    have "fifo_moves s t"
    proof (cases "ds_status t = ds_status s")
      case True
      with same_fifo_moves[OF same assms(1)] show ?thesis .
    next
      case False
      with tr have st: "ds_status s \<in> {Deckbuilding, Pairing, MatchInProgress, RoundComplete}"
        "ds_status t \<notin> {Lobby, Drafting, Review, Paused, Deckbuilding}" by auto
      with inv same_fifo_inv[OF same] same_fifo_content[OF same] show ?thesis
        by (auto simp: fifo_moves_def fifo_session_inv_def)
    qed
    with tournament(1) show ?thesis by (auto simp: tournament_action_def)
  qed
  then show "fifo_moves s t" "\<And>seat y picked burned effects. action = Select seat y picked burned effects \<Longrightarrow> answered y t" by blast+
qed

lemma tournament_not_Panic:
  assumes "tournament_action action" "length (ds_pools s) = length (ds_seats s)" "length (ds_seats s) < 256"
  shows "fst (apply_existing env s action source) \<noteq> Panic"
proof (cases action)
  case (SubmitDeck seat main_deck commanders printings)
  have "fst (close_deckbuilding seat u) \<noteq> Panic" for u by (simp add: close_deckbuilding_def Let_def)
  with SubmitDeck assms(2,3) show ?thesis
    by (auto simp: apply_submit_deck_def Let_def as_u8_def split: outcome.split)
next
  case (ReportMatchResult reported w)
  have "reported_winner s pairing w \<noteq> Panic" for pairing
    by (auto simp: reported_winner_def Let_def split: option.splits)
  with ReportMatchResult show ?thesis
    by (auto simp: apply_report_match_result_def Let_def split_beta split: option.split outcome.split)
qed (use assms in \<open>auto simp: tournament_action_def apply_advance_round_def apply_replace_seat_with_bot_def
      apply_set_seat_connected_def apply_generate_pairings_def Let_def split_beta split: draft_status.split\<close>)

lemma fifo_action_not_Panic:
  assumes "fifo_session_inv s" "ds_fifo s = Some f" "now = ff_last_now_ms f" "ds_status s = Lobby \<Longrightarrow> source_total src (ds_config s)"
  shows "fifo_action env s action (Some src) now \<noteq> Panic"
proof -
  have inv: "fifo_inv s" if "ds_status s \<noteq> Lobby" using assms(1) that by (simp add: fifo_session_inv_def)
  have sel: "select_fifo s seat y picked burned effects timing \<noteq> Panic" for seat y picked burned effects timing
    using select_fifo_not_Panic[OF inv] by (cases "ds_status s = Lobby") (simp_all add: select_fifo_def)
  have adv: "advance s now \<noteq> Panic"
    using advance_moves(1)[OF inv assms(2,3)] by (cases "ds_status s = Lobby") (simp_all add: advance_def)
  have st: "start_fifo (env_seed_from env) (Some src) s now \<noteq> Panic"
  proof (cases "ds_status s = Lobby")
    case True
    with assms(1) start_fifo_not_Panic[OF _ assms(4)[OF True]] show ?thesis by (simp add: fifo_session_inv_def)
  qed (simp add: start_fifo_def)
  have dims: "length (ds_pools s) = length (ds_seats s)"
    using assms(1) by (auto simp: fifo_session_inv_def fresh_fifo_def fifo_inv_def fifo_table_def split: if_splits)
  have tour: "fst (apply_existing env s action (Some src)) \<noteq> Panic" if "tournament_action action"
  proof (cases "ds_status s = Lobby")
    case True
    then show ?thesis using that
      by (cases action) (auto simp: tournament_action_def apply_submit_deck_def apply_generate_pairings_def
         apply_report_match_result_def apply_advance_round_def apply_replace_seat_with_bot_def apply_set_seat_connected_def Let_def)
  next
    case False
    then show ?thesis using tournament_not_Panic[OF that dims] inv by (auto simp: fifo_inv_def fifo_table_def)
  qed
  show ?thesis
    using sel adv st control_not_Panic tour
    by (cases action) (auto simp: tournament_action_def of_step_def outcome_simps)
qed

lemma commit_candidate_Ok:
  assumes "commit_candidate s (ds, cand) = Ok (deltas, t)"
  obtains "t = s" "cand = s" | f rev where "ds_fifo cand = Some f" "t = cand\<lparr>ds_fifo := Some (f\<lparr>ff_revision := rev\<rparr>)\<rparr>"
proof (cases "cand = s")
  case True
  with assms have "t = s" by (simp add: commit_candidate_def)
  with True that(1) show thesis by blast
next
  case False
  with assms have "and_then (fifo_ref cand) (\<lambda>fifo. and_then (increment (ff_revision fifo)) (\<lambda>rev.
      and_then (validate_persisted_snapshot (cand\<lparr>ds_fifo := Some (fifo\<lparr>ff_revision := rev\<rparr>)\<rparr>)) (\<lambda>_.
        Ok (ds, cand\<lparr>ds_fifo := Some (fifo\<lparr>ff_revision := rev\<rparr>)\<rparr>)))) = Ok (deltas, t)"
    by (simp add: commit_candidate_def Let_def)
  then obtain f rev where "ds_fifo cand = Some f" "cand\<lparr>ds_fifo := Some (f\<lparr>ff_revision := rev\<rparr>)\<rparr> = t"
    unfolding and_then_eq_Ok fifo_ref_simps by blast
  with that(2) show thesis by blast
qed

lemma apply_at_moves:
  assumes "fifo_session_inv s" "apply_at env s action (Some src) now_ms = (r, t)"
  shows "fifo_moves s t" "(ds_status s = Lobby \<Longrightarrow> source_total src (ds_config s)) \<Longrightarrow> r \<noteq> Panic"
    "is_ok r \<Longrightarrow> action = Select seat y picked burned effects \<Longrightarrow> answered y t"
proof -
  note flow = fifo_session_flow[OF assms(1)]
  from fifo_session_fifo[OF assms(1)] obtain f where f: "ds_fifo s = Some f" by blast
  let ?c = "\<lambda>now. s\<lparr>ds_fifo := Some (f\<lparr>ff_last_now_ms := now\<rparr>)\<rparr>"
  have c: "same_fifo s (?c now)" for now
    using f by (intro same_fifoI[where f = f and revision = "ff_revision f" and now = now]) simp_all
  have cinv: "fifo_session_inv (?c now)" for now by (rule same_fifo_session[OF c assms(1)]) simp
  define staged where "staged = and_then (validate_persisted_snapshot s) (\<lambda>_. and_then (clamped_now s now_ms) (\<lambda>now.
      and_then (fifo_action env (?c now) action (Some src) now) (commit_candidate s)))"
  have run: "(r, t) = (case staged of Ok (deltas, t) \<Rightarrow> (Ok deltas, t) | Err e \<Rightarrow> (Err e, s) | Panic \<Rightarrow> (Panic, s))"
    using assms(2) flow f by (simp add: apply_at_def staged_def fifo_ref_def)
  have refl: "fifo_moves s s" using assms(1) by (simp add: fifo_moves_def)
  have ok: "fifo_moves s t \<and> (action = Select seat y picked burned effects \<longrightarrow> answered y t)" if "is_ok r"
  proof -
    from run that obtain deltas where "staged = Ok (deltas, t)" by (cases staged) auto
    then obtain ds cand now where act: "fifo_action env (?c now) action (Some src) now = Ok (ds, cand)"
      and commit: "commit_candidate s (ds, cand) = Ok (deltas, t)"
      by (auto simp: staged_def outcome_simps)
    note mv = fifo_action_moves[OF cinv _ _ act, of "f\<lparr>ff_last_now_ms := now\<rparr>"]
    have "fifo_moves (?c now) cand" by (rule mv(1)) simp_all
    with same_fifo_moves[OF c assms(1)] have m: "fifo_moves s cand" by (auto intro: fifo_moves_trans)
    have a: "answered y cand" if "action = Select seat y picked burned effects" using mv(2)[OF _ _ that] by simp
    from commit_candidate_Ok[OF commit] show ?thesis
    proof cases
      case 1
      with m a show ?thesis by simp
    next
      case (2 f' rev)
      then have same: "same_fifo cand t"
        by (intro same_fifoI[where f = f' and revision = rev and now = "ff_last_now_ms f'"]) simp_all
      have "fifo_session_inv cand" "ds_status t = ds_status cand" using m 2 by (simp_all add: fifo_moves_def)
      with fifo_moves_trans[OF m same_fifo_moves[OF same]] have "fifo_moves s t" by blast
      with a same_fifo_content(2)[OF same] show ?thesis by simp
    qed
  qed
  show "is_ok r \<Longrightarrow> action = Select seat y picked burned effects \<Longrightarrow> answered y t" using ok by blast
  show "fifo_moves s t"
  proof (cases "is_ok r")
    case False
    with run have "t = s" by (cases staged) auto
    with refl show ?thesis by simp
  qed (use ok in blast)
  show "r \<noteq> Panic" if tot: "ds_status s = Lobby \<Longrightarrow> source_total src (ds_config s)"
  proof
    assume "r = Panic"
    with run have "staged = Panic" by (cases staged) auto
    moreover have "commit_candidate s res \<noteq> Panic" for res
      by (auto simp: commit_candidate_def outcome_simps Let_def validate_persisted_not_Panic split: prod.split)
    moreover have "clamped_now s now_ms \<noteq> Panic" by (auto simp: clamped_now_def outcome_simps)
    ultimately obtain now where "fifo_action env (?c now) action (Some src) now = Panic"
      by (auto simp: staged_def outcome_simps validate_persisted_not_Panic)
    with fifo_action_not_Panic[OF cinv _ _ _, of now "f\<lparr>ff_last_now_ms := now\<rparr>" now src env action] tot show False by simp
  qed
qed

definition fifo_step_at :: "'r draft_env \<Rightarrow> 'r pack_source \<Rightarrow> draft_session \<Rightarrow> draft_action \<times> nat \<Rightarrow> session_step" where
  "fifo_step_at env src s a = apply_at env s (fst a) (Some src) (snd a)"

interpretation fifo_runs: reducer "fifo_step_at env src" fifo_session_inv
  for env :: "'r draft_env" and src :: "'r pack_source"
proof unfold_locales
  fix s a assume "fifo_session_inv s"
  from apply_at_moves(1)[OF this prod.collapse[symmetric], of env "fst a" src "snd a"]
  show "fifo_session_inv (snd (fifo_step_at env src s a))" by (simp add: fifo_step_at_def fifo_moves_def)
qed

lemma run_moves:
  "fifo_session_inv s \<Longrightarrow> fifo_moves s (run (fifo_step_at env src) s actions)"
proof (induction actions arbitrary: s)
  case Nil
  then show ?case by (simp add: fifo_moves_def)
next
  case (Cons a actions)
  from apply_at_moves(1)[OF Cons.prems prod.collapse[symmetric], of env "fst a" src "snd a"]
  have "fifo_moves s (snd (fifo_step_at env src s a))" by (simp add: fifo_step_at_def)
  moreover from this Cons.IH have "fifo_moves (snd (fifo_step_at env src s a)) (run (fifo_step_at env src) (snd (fifo_step_at env src s a)) actions)"
    by (simp add: fifo_moves_def)
  ultimately show ?case by (auto intro: fifo_moves_trans)
qed

lemma apply_at_select:
  assumes "fifo_session_inv s" "is_ok (fst (apply_at env s (Select seat y picked burned effects) source now_ms))"
  shows "\<exists>now f. ds_fifo s = Some f
    \<and> is_ok (select_fifo (s\<lparr>ds_fifo := Some (f\<lparr>ff_last_now_ms := now\<rparr>)\<rparr>) seat y picked burned effects TimingHuman)"
  using assms(2) fifo_session_flow[OF assms(1)]
  by (auto simp: apply_at_def outcome_simps is_ok_iff split: outcome.splits)

lemma new_fifo_inv: "new_fifo config seats code sid = Ok s \<Longrightarrow> fifo_session_inv s"
  using new_fifo_fresh by (simp add: fifo_session_inv_def fresh_fifo_def)

section \<open>Properties of a FIFO session\<close>

lemma sample_source_total: "source_total sample_source config"
  by (simp add: source_total_def sample_source_def fixture_pack_source_def default_generate_packs_def fixture_matrix)

text \<open>
  C2. A FIFO session is safe from its creation to its end. Whatever actions arrive at whatever times,
  \<open>apply_at\<close> never panics (with a source that does not), the session is a fresh lobby or a
  well-formed draft after every action, and once it is dealt no action changes the multiset of
  physical cards it holds.
\<close>

theorem fifo_session_safe:
  assumes "new_fifo config seats code sid = Ok s0" "source_total src config" "s = run (fifo_step_at env src) s0 actions"
    "apply_at env s action (Some src) now_ms = (r, t)"
  shows "r \<noteq> Panic \<and> fifo_session_inv s \<and> fifo_session_inv t
    \<and> (ds_status s \<noteq> Lobby \<longrightarrow> fifo_inv t \<and> fifo_ids t = fifo_ids s)"
proof -
  have inv: "fifo_session_inv s" unfolding assms(3) by (rule fifo_runs.run_inv[OF new_fifo_inv[OF assms(1)]])
  have "source_total src (ds_config s)" if "ds_status s = Lobby"
    using run_moves[OF new_fifo_inv[OF assms(1)], of env src actions] new_fifo_config[OF assms(1)] that assms(2)
    unfolding assms(3) by (simp add: fifo_moves_def)
  from apply_at_moves(1,2)[OF inv assms(4)] this inv show ?thesis by (auto simp: fifo_moves_def fifo_session_inv_def)
qed

theorem fifo_session_safe_witness:
  "\<exists>s. s = run (fifo_step_at sample_env sample_source) sample_new_fifo [(StartDraft, 5), (Select 0 (sample_prompt_id 0) [''SET-0-0-1''] [] [], 6)]
     \<and> ds_status s = Drafting \<and> fifo_session_inv s \<and> fifo_inv (snd (apply_at sample_env s AdvanceClock (Some sample_source) 9))"
proof -
  let ?actions = "[(StartDraft, 5), (Select 0 (sample_prompt_id 0) [''SET-0-0-1''] [] [], 6)]"
  have "ds_status (run (fifo_step_at sample_env sample_source) sample_new_fifo ?actions) = Drafting" by code_simp
  with fifo_session_safe[OF sample_new_fifo_Ok sample_source_total refl prod.collapse[symmetric], of sample_env ?actions AdvanceClock 9]
  show ?thesis by simp
qed

text \<open>
  C16. A prompt is answered once. After a selection under a prompt id is accepted, no selection under
  the same id is ever accepted again, by any seat, at any time, after any further actions: a
  replayed or late message cannot take a second card.
\<close>

theorem prompt_answered_once:
  assumes "new_fifo config seats code sid = Ok s0" "s1 = run (fifo_step_at env src) s0 before"
    "apply_at env s1 (Select seat y picked burned effects) (Some src) now1 = (Ok deltas, t1)"
    "s2 = run (fifo_step_at env src) t1 later"
  shows "\<not> is_ok (fst (apply_at env s2 (Select seat' y picked' burned' effects') (Some src) now2))"
proof
  have inv1: "fifo_session_inv s1" unfolding assms(2) by (rule fifo_runs.run_inv[OF new_fifo_inv[OF assms(1)]])
  note mv = apply_at_moves[OF inv1 assms(3)]
  have t1: "fifo_session_inv t1" "answered y t1" using mv(1,3) by (auto simp: fifo_moves_def)
  have "is_ok (fst (apply_at env s1 (Select seat y picked burned effects) (Some src) now1))" using assms(3) by simp
  from apply_at_select[OF inv1 this] have "ds_status s1 \<noteq> Lobby" by (auto simp: select_fifo_def split: if_splits)
  with mv(1) have "ds_status t1 \<noteq> Lobby" by (simp add: fifo_moves_def)
  with run_moves[OF t1(1)] t1(2) have s2: "answered y s2" "fifo_session_inv s2" unfolding assms(4) by (auto simp: fifo_moves_def)
  assume "is_ok (fst (apply_at env s2 (Select seat' y picked' burned' effects') (Some src) now2))"
  from apply_at_select[OF s2(2) this] obtain now f where f: "ds_fifo s2 = Some f"
    "is_ok (select_fifo (s2\<lparr>ds_fifo := Some (f\<lparr>ff_last_now_ms := now\<rparr>)\<rparr>) seat' y picked' burned' effects' TimingHuman)" by blast
  have "answered y (s2\<lparr>ds_fifo := Some (f\<lparr>ff_last_now_ms := now\<rparr>)\<rparr>)" using s2(1) f(1) by (simp add: answered_def)
  with answered_not_selectable f(2) show False by blast
qed

theorem prompt_answered_once_witness:
  "is_ok (fst (apply_at sample_env (run (fifo_step_at sample_env sample_source) sample_new_fifo [(StartDraft, 5)])
       (Select 0 (sample_prompt_id 0) [''SET-0-0-1''] [] []) (Some sample_source) 6))
   \<and> \<not> is_ok (fst (apply_at sample_env (snd (apply_at sample_env (run (fifo_step_at sample_env sample_source) sample_new_fifo [(StartDraft, 5)])
       (Select 0 (sample_prompt_id 0) [''SET-0-0-1''] [] []) (Some sample_source) 6))
       (Select 0 (sample_prompt_id 0) [''SET-0-0-0''] [] []) (Some sample_source) 7))"
proof -
  let ?s1 = "run (fifo_step_at sample_env sample_source) sample_new_fifo [(StartDraft, 5)]"
  let ?res = "apply_at sample_env ?s1 (Select 0 (sample_prompt_id 0) [''SET-0-0-1''] [] []) (Some sample_source) 6"
  have ok: "is_ok (fst ?res)" by code_simp
  then obtain deltas where "?res = (Ok deltas, snd ?res)" by (metis is_ok_iff prod.collapse)
  from prompt_answered_once[OF sample_new_fifo_Ok refl this, of "snd ?res" "[]" 0 "[''SET-0-0-0'']" "[]" "[]" 7] ok
  show ?thesis by simp
qed

end
