(* ===== verification/Pool_View.thy ===== *)
theory Pool_View
  imports Draft_Session "HOL-Library.Product_Lexorder" "HOL-Library.Sublist"
begin

text \<open>
  The presentation of a drafted pool, from \<open>crates/draft-core/src/view.rs\<close>: the classifiers of
  a card by color, type, rarity and mana value, the ordered groups with collapsed duplicates, the
  filter of a listing and the option lists a filter control offers, the pack in rarity order and
  the boosters of a sealed pool. \<open>str::trim\<close> and \<open>str::to_lowercase\<close> follow the Unicode tables and
  are arguments; the ASCII case mapping is written out. The lemmas show that no presentation drops
  or duplicates a card and that exactly the useful filter options are offered.
\<close>

section \<open>Groups\<close>

datatype draft_pool_group_kind =
    White | Blue | Black | Red | Green | Multicolor | Colorless
  | Creature | Instant | Sorcery | Enchantment | Artifact | Planeswalker | Land | Other
  | Mythic | Rare | Uncommon | Common | RarityOther
  | ManaValue0 | ManaValue1 | ManaValue2 | ManaValue3 | ManaValue4 | ManaValue5 | ManaValue6Plus

datatype draft_rarity_group_kind = MythicGroup | RareGroup | UncommonGroup | CommonGroup | RarityOtherGroup

record draft_pool_entry =
  pe_card :: draft_card_instance
  pe_count :: nat
  pe_instance_ids :: "string list"

record draft_pool_group =
  gr_kind :: draft_pool_group_kind
  gr_total :: nat
  gr_cards :: "draft_pool_entry list"

record draft_pool_color_counts =
  cc_white :: nat
  cc_blue :: nat
  cc_black :: nat
  cc_red :: nat
  cc_green :: nat

record draft_pool_groups =
  dg_color_groups :: "draft_pool_group list"
  dg_type_groups :: "draft_pool_group list"
  dg_cmc_groups :: "draft_pool_group list"
  dg_rarity_groups :: "draft_pool_group list"
  dg_type_filter_options :: "draft_pool_group_kind list"
  dg_color_filter_options :: "draft_pool_group_kind list"
  dg_color_counts :: draft_pool_color_counts
  dg_rarity_group_order :: "draft_rarity_group_kind list option"
  dg_creature_instance_ids :: "string list"
  dg_noncreature_instance_ids :: "string list"

definition COLOR_GROUP_ORDER :: "draft_pool_group_kind list" where
  "COLOR_GROUP_ORDER = [White, Blue, Black, Red, Green, Multicolor, Colorless]"

definition TYPE_GROUP_ORDER :: "draft_pool_group_kind list" where
  "TYPE_GROUP_ORDER = [Creature, Instant, Sorcery, Enchantment, Artifact, Planeswalker, Land, Other]"

definition RARITY_GROUP_ORDER :: "draft_pool_group_kind list" where
  "RARITY_GROUP_ORDER = [Mythic, Rare, Uncommon, Common, RarityOther]"

definition RARITY_CAPABILITY_ORDER :: "draft_rarity_group_kind list" where
  "RARITY_CAPABILITY_ORDER = [MythicGroup, RareGroup, UncommonGroup, CommonGroup, RarityOtherGroup]"

definition CMC_GROUP_ORDER :: "draft_pool_group_kind list" where
  "CMC_GROUP_ORDER = [ManaValue0, ManaValue1, ManaValue2, ManaValue3, ManaValue4, ManaValue5, ManaValue6Plus]"

section \<open>Classifiers\<close>

definition to_ascii_lowercase :: "string \<Rightarrow> string" where
  "to_ascii_lowercase s = map ascii_lower s"

definition str_contains :: "string \<Rightarrow> string \<Rightarrow> bool" where
  "str_contains s needle \<longleftrightarrow> sublist needle s"

definition color_group :: "draft_card_instance \<Rightarrow> draft_pool_group_kind" where
  "color_group c =
     (case ci_colors c of
        [] \<Rightarrow> Colorless
      | [color] \<Rightarrow>
          if color = ''W'' then White else if color = ''U'' then Blue else if color = ''B'' then Black
          else if color = ''R'' then Red else if color = ''G'' then Green else Colorless
      | _ # _ # _ \<Rightarrow> Multicolor)"

definition color_symbols :: "(draft_pool_group_kind \<times> string) list" where
  "color_symbols = [(White, ''W''), (Blue, ''U''), (Black, ''B''), (Red, ''R''), (Green, ''G'')]"

definition color_memberships :: "draft_card_instance \<Rightarrow> draft_pool_group_kind list" where
  "color_memberships c =
     (if ci_colors c = [] then [Colorless]
      else let memberships = map fst (filter (\<lambda>(_, symbol). list_ex (\<lambda>color. color = symbol) (ci_colors c)) color_symbols)
                 @ (if 2 \<le> length (ci_colors c) then [Multicolor] else [])
           in if memberships = [] then [Colorless] else memberships)"

definition type_needles :: "(draft_pool_group_kind \<times> string) list" where
  "type_needles = [(Creature, ''creature''), (Instant, ''instant''), (Sorcery, ''sorcery''),
     (Enchantment, ''enchantment''), (Artifact, ''artifact''), (Planeswalker, ''planeswalker''), (Land, ''land'')]"

definition type_memberships :: "draft_card_instance \<Rightarrow> draft_pool_group_kind list" where
  "type_memberships c =
     (let type_line = to_ascii_lowercase (ci_type_line c);
          memberships = map fst (filter (\<lambda>(_, needle). str_contains type_line needle) type_needles)
      in if memberships = [] then [Other] else memberships)"

text \<open>The \<open>expect\<close> on the first element cannot fail: the list of memberships is never empty.\<close>

definition type_group :: "draft_card_instance \<Rightarrow> draft_pool_group_kind" where
  "type_group c = hd (type_memberships c)"

definition rarity_group :: "draft_card_instance \<Rightarrow> draft_pool_group_kind" where
  "rarity_group c =
     (let rarity = to_ascii_lowercase (ci_rarity c) in
      if rarity = ''mythic'' then Mythic else if rarity = ''rare'' then Rare
      else if rarity = ''uncommon'' then Uncommon else if rarity = ''common'' then Common else RarityOther)"

definition mana_value_group :: "draft_card_instance \<Rightarrow> draft_pool_group_kind" where
  "mana_value_group c =
     (if ci_cmc c = 0 then ManaValue0 else if ci_cmc c = 1 then ManaValue1 else if ci_cmc c = 2 then ManaValue2
      else if ci_cmc c = 3 then ManaValue3 else if ci_cmc c = 4 then ManaValue4 else if ci_cmc c = 5 then ManaValue5
      else ManaValue6Plus)"

section \<open>Entries and groups\<close>

definition push_entry :: "draft_pool_entry list \<Rightarrow> draft_card_instance \<Rightarrow> draft_pool_entry list" where
  "push_entry entries c =
     (if entries \<noteq> [] \<and> ci_name (pe_card (last entries)) = ci_name c
      then butlast entries @ [(last entries)\<lparr>pe_count := pe_count (last entries) + 1,
             pe_instance_ids := pe_instance_ids (last entries) @ [ci_instance_id c]\<rparr>]
      else entries @ [\<lparr>pe_card = c, pe_count = 1, pe_instance_ids = [ci_instance_id c]\<rparr>])"

definition source_order_entries :: "draft_card_instance list \<Rightarrow> draft_pool_entry list" where
  "source_order_entries cards = foldl push_entry [] cards"

definition sorted_entries :: "draft_card_instance list \<Rightarrow> bool \<Rightarrow> draft_pool_entry list" where
  "sorted_entries cards sort_by_cmc =
     foldl push_entry [] (if sort_by_cmc then sort_key (\<lambda>c. (ci_cmc c, ci_name c)) cards else sort_key ci_name cards)"

definition groups_for ::
  "draft_card_instance list \<Rightarrow> draft_pool_group_kind list \<Rightarrow> (draft_card_instance \<Rightarrow> draft_pool_group_kind) \<Rightarrow> bool
   \<Rightarrow> draft_pool_group list" where
  "groups_for pool order classify sort_by_cmc =
     List.map_filter (\<lambda>kind.
       let cards = filter (\<lambda>c. classify c = kind) pool in
       if cards = [] then None
       else Some \<lparr>gr_kind = kind, gr_total = length cards, gr_cards = sorted_entries cards sort_by_cmc\<rparr>) order"

definition source_order_groups_for ::
  "draft_card_instance list \<Rightarrow> draft_pool_group_kind list \<Rightarrow> (draft_card_instance \<Rightarrow> draft_pool_group_kind)
   \<Rightarrow> draft_pool_group list" where
  "source_order_groups_for pool order classify =
     List.map_filter (\<lambda>kind.
       let cards = filter (\<lambda>c. classify c = kind) pool in
       if cards = [] then None
       else Some \<lparr>gr_kind = kind, gr_total = length cards, gr_cards = source_order_entries cards\<rparr>) order"

definition set_pack_in_rarity_order :: "draft_card_instance list \<Rightarrow> draft_card_instance list" where
  "set_pack_in_rarity_order pack =
     concat (map (\<lambda>kind. filter (\<lambda>c. rarity_group c = kind) pack) RARITY_GROUP_ORDER)"

section \<open>Filter options and counts\<close>

definition present_kinds ::
  "(draft_card_instance \<Rightarrow> draft_pool_group_kind list) \<Rightarrow> draft_card_instance list \<Rightarrow> draft_pool_group_kind list" where
  "present_kinds memberships pool =
     foldl (\<lambda>present kind. if kind \<in> set present then present else present @ [kind]) []
       (concat (map memberships pool))"

definition color_filter_options :: "draft_card_instance list \<Rightarrow> draft_pool_group_kind list" where
  "color_filter_options pool =
     (let present = present_kinds color_memberships pool in filter (\<lambda>kind. kind \<in> set present) COLOR_GROUP_ORDER)"

definition type_filter_options :: "draft_card_instance list \<Rightarrow> draft_pool_group_kind list" where
  "type_filter_options pool =
     (let present = present_kinds type_memberships pool in filter (\<lambda>kind. kind \<in> set present) TYPE_GROUP_ORDER)"

definition rarity_filter_options :: "draft_card_instance list \<Rightarrow> draft_pool_group_kind list" where
  "rarity_filter_options pool = filter (\<lambda>kind. list_ex (\<lambda>c. rarity_group c = kind) pool) RARITY_GROUP_ORDER"

record pool_filter_options_data =
  po_types :: "draft_pool_group_kind list"
  po_colors :: "draft_pool_group_kind list"
  po_rarities :: "draft_pool_group_kind list"

definition pool_filter_options :: "draft_card_instance list \<Rightarrow> pool_filter_options_data" where
  "pool_filter_options pool = \<lparr>po_types = type_filter_options pool, po_colors = color_filter_options pool,
     po_rarities = rarity_filter_options pool\<rparr>"

definition count_color :: "draft_pool_color_counts \<Rightarrow> string \<Rightarrow> draft_pool_color_counts" where
  "count_color counts color =
     (if color = ''W'' then counts\<lparr>cc_white := cc_white counts + 1\<rparr>
      else if color = ''U'' then counts\<lparr>cc_blue := cc_blue counts + 1\<rparr>
      else if color = ''B'' then counts\<lparr>cc_black := cc_black counts + 1\<rparr>
      else if color = ''R'' then counts\<lparr>cc_red := cc_red counts + 1\<rparr>
      else if color = ''G'' then counts\<lparr>cc_green := cc_green counts + 1\<rparr>
      else counts)"

definition color_counts :: "draft_card_instance list \<Rightarrow> draft_pool_color_counts" where
  "color_counts pool =
     foldl count_color \<lparr>cc_white = 0, cc_blue = 0, cc_black = 0, cc_red = 0, cc_green = 0\<rparr> (concat (map ci_colors pool))"

definition from_pool :: "draft_card_instance list \<Rightarrow> draft_source \<Rightarrow> draft_pool_groups" where
  "from_pool pool source =
     (let is_creature = (\<lambda>c. Creature \<in> set (type_memberships c)) in
      \<lparr>dg_color_groups = groups_for pool COLOR_GROUP_ORDER color_group True,
       dg_type_groups = groups_for pool TYPE_GROUP_ORDER type_group True,
       dg_cmc_groups = groups_for pool CMC_GROUP_ORDER mana_value_group False,
       dg_rarity_groups = (case source of
          SetSource _ \<Rightarrow> source_order_groups_for pool RARITY_GROUP_ORDER rarity_group | Cube _ _ \<Rightarrow> []),
       dg_type_filter_options = type_filter_options pool,
       dg_color_filter_options = color_filter_options pool,
       dg_color_counts = color_counts pool,
       dg_rarity_group_order = (case source of SetSource _ \<Rightarrow> Some RARITY_CAPABILITY_ORDER | Cube _ _ \<Rightarrow> None),
       dg_creature_instance_ids = map ci_instance_id (filter is_creature pool),
       dg_noncreature_instance_ids = map ci_instance_id (filter (\<lambda>c. \<not> is_creature c) pool)\<rparr>)"

section \<open>Filtering a listing\<close>

record pool_filter =
  pf_query :: string
  pf_types :: "draft_pool_group_kind list"
  pf_colors :: "draft_pool_group_kind list"
  pf_rarities :: "draft_pool_group_kind list"

definition is_active :: "(string \<Rightarrow> string) \<Rightarrow> pool_filter \<Rightarrow> bool" where
  "is_active trim f \<longleftrightarrow> trim (pf_query f) \<noteq> [] \<or> pf_types f \<noteq> [] \<or> pf_colors f \<noteq> [] \<or> pf_rarities f \<noteq> []"

definition axis_matches :: "draft_pool_group_kind list \<Rightarrow> draft_pool_group_kind \<Rightarrow> bool" where
  "axis_matches selected kind \<longleftrightarrow> selected = [] \<or> kind \<in> set selected"

definition filter_pool_listing ::
  "(string \<Rightarrow> string) \<Rightarrow> (string \<Rightarrow> string) \<Rightarrow> draft_card_instance list \<Rightarrow> pool_filter \<Rightarrow> string list" where
  "filter_pool_listing trim to_lowercase listing f =
     (if \<not> is_active trim f then map ci_instance_id listing
      else let query = to_lowercase (trim (pf_query f)) in
        map ci_instance_id (filter (\<lambda>c.
          (query = [] \<or> str_contains (to_lowercase (ci_name c)) query)
          \<and> (pf_types f = [] \<or> list_ex (\<lambda>kind. kind \<in> set (pf_types f)) (type_memberships c))
          \<and> (pf_colors f = [] \<or> list_ex (\<lambda>kind. kind \<in> set (pf_colors f)) (color_memberships c))
          \<and> axis_matches (pf_rarities f) (rarity_group c)) listing))"

section \<open>Boosters of a sealed pool\<close>

fun split_sizes :: "nat list \<Rightarrow> 'a list \<Rightarrow> 'a list list" where
  "split_sizes [] rest = (if rest = [] then [] else [rest])"
| "split_sizes (n # sizes) rest =
     (if rest = [] then []
      else take (min n (length rest)) rest # split_sizes sizes (drop (min n (length rest)) rest))"

definition split_by_pack_size :: "draft_card_instance list \<Rightarrow> draft_session \<Rightarrow> draft_card_instance list list" where
  "split_by_pack_size pool s = split_sizes (pack_size_sequence s) pool"

definition face_up_draft_cards :: "draft_card_instance list \<Rightarrow> draft_card_instance list" where
  "face_up_draft_cards pool = filter (\<lambda>c. ci_draft_effect c \<noteq> None) pool"

section \<open>Nothing is lost in a presentation\<close>

definition entry_of :: "draft_card_instance list \<Rightarrow> draft_pool_entry" where
  "entry_of block = \<lparr>pe_card = hd block, pe_count = length block, pe_instance_ids = map ci_instance_id block\<rparr>"

definition same_name :: "draft_card_instance list \<Rightarrow> bool" where
  "same_name block \<longleftrightarrow> block \<noteq> [] \<and> (\<forall>c\<in>set block. ci_name c = ci_name (hd block))"

text \<open>Entries that collapse \<open>cards\<close>: blocks of equally named cards, each card in one block.\<close>

definition collapses :: "draft_card_instance list \<Rightarrow> draft_pool_entry list \<Rightarrow> bool" where
  "collapses cards entries \<longleftrightarrow> (\<exists>blocks. mset (concat blocks) = mset cards \<and> entries = map entry_of blocks
     \<and> (\<forall>block\<in>set blocks. same_name block))"

text \<open>Groups that present a pool on one axis: the classes that occur, in order, with all their cards.\<close>

definition presents ::
  "draft_card_instance list \<Rightarrow> draft_pool_group_kind list \<Rightarrow> (draft_card_instance \<Rightarrow> draft_pool_group_kind)
   \<Rightarrow> draft_pool_group list \<Rightarrow> bool" where
  "presents pool order classify groups \<longleftrightarrow>
     map gr_kind groups = filter (\<lambda>kind. kind \<in> classify ` set pool) order
     \<and> sum_list (map gr_total groups) = length pool
     \<and> (\<forall>g\<in>set groups. let cards = filter (\<lambda>c. classify c = gr_kind g) pool
          in gr_total g = length cards \<and> collapses cards (gr_cards g))"

lemma push_entry_blocks:
  assumes "\<forall>block\<in>set blocks. same_name block"
  shows "\<exists>blocks'. push_entry (map entry_of blocks) c = map entry_of blocks' \<and> concat blocks' = concat blocks @ [c]
    \<and> (\<forall>block\<in>set blocks'. same_name block)"
proof (cases "blocks \<noteq> [] \<and> ci_name (hd (last blocks)) = ci_name c")
  case True
  then obtain bs b where b: "blocks = bs @ [b]" by (metis append_butlast_last_id)
  with True assms have "same_name (b @ [c])" "b \<noteq> []" by (auto simp: same_name_def)
  with True assms b show ?thesis
    by (intro exI[of _ "bs @ [b @ [c]]"]) (simp add: push_entry_def entry_of_def)
next
  case False
  then have "push_entry (map entry_of blocks) c = map entry_of (blocks @ [[c]])"
    by (auto simp: push_entry_def entry_of_def last_map)
  moreover have "same_name [c]" by (simp add: same_name_def)
  ultimately show ?thesis using assms by (intro exI[of _ "blocks @ [[c]]"]) auto
qed

lemma foldl_push_entry:
  assumes "\<forall>block\<in>set blocks. same_name block"
  shows "\<exists>blocks'. foldl push_entry (map entry_of blocks) cards = map entry_of blocks'
    \<and> concat blocks' = concat blocks @ cards
    \<and> (\<forall>block\<in>set blocks'. same_name block)"
  using assms
proof (induction cards arbitrary: blocks)
  case Nil
  then show ?case by (intro exI[of _ blocks]) simp
next
  case (Cons c cards)
  from push_entry_blocks[OF Cons.prems, of c] obtain bs where
    "push_entry (map entry_of blocks) c = map entry_of bs" "concat bs = concat blocks @ [c]"
    "\<forall>block\<in>set bs. same_name block" by blast
  with Cons.IH[of bs] show ?case by simp
qed

lemma collapses_entries:
  "collapses cards (source_order_entries cards)" "collapses cards (sorted_entries cards sort_by_cmc)"
proof -
  have "collapses cards (foldl push_entry [] xs)" if "mset xs = mset cards" for xs
    using foldl_push_entry[of "[]" xs] that unfolding collapses_def by auto
  then show "collapses cards (source_order_entries cards)" "collapses cards (sorted_entries cards sort_by_cmc)"
    by (simp_all add: source_order_entries_def sorted_entries_def)
qed

lemma sum_filter_lengths:
  assumes "distinct order" "\<forall>c\<in>set pool. f c \<in> set order"
  shows "sum_list (map (\<lambda>k. length (filter (\<lambda>c. f c = k) pool)) order) = length pool"
  using assms(2)
proof (induction pool)
  case (Cons c pool)
  have "sum_list (map (\<lambda>k. length (filter (\<lambda>c. f c = k) (c # pool))) order)
      = sum_list (map (\<lambda>k. (if f c = k then 1 else 0) + length (filter (\<lambda>c. f c = k) pool)) order)"
    by (intro arg_cong[of _ _ sum_list] map_cong) auto
  also have "\<dots> = sum_list (map (\<lambda>k. if f c = k then 1 else 0) order) + length pool"
    using Cons by (simp add: sum_list_addf)
  also have "sum_list (map (\<lambda>k. if f c = k then 1 else (0::nat)) order) = 1"
    using assms(1) Cons.prems by (simp add: sum_list_distinct_conv_sum_set)
  finally show ?case by simp
qed simp

lemma sum_list_map_filter_nonempty:
  "sum_list (map length (filter (\<lambda>xs. xs \<noteq> []) xss)) = sum_list (map length xss)"
  by (induction xss) auto

text \<open>The interface of a presentation axis: an order without repetitions that covers every class.\<close>

locale pool_axis =
  fixes order :: "draft_pool_group_kind list" and classify :: "draft_card_instance \<Rightarrow> draft_pool_group_kind"
  assumes distinct_order: "distinct order" and classify_in_order: "classify c \<in> set order"
begin

lemma grouping_presents:
  assumes "\<And>cards. collapses cards (entries cards)"
  shows "presents pool order classify (List.map_filter (\<lambda>kind.
       let cards = filter (\<lambda>c. classify c = kind) pool in
       if cards = [] then None
       else Some \<lparr>gr_kind = kind, gr_total = length cards, gr_cards = entries cards\<rparr>) order)"
proof -
  let ?cards = "\<lambda>kind. filter (\<lambda>c. classify c = kind) pool"
  let ?present = "filter (\<lambda>kind. ?cards kind \<noteq> []) order"
  let ?groups = "map (\<lambda>kind. \<lparr>gr_kind = kind, gr_total = length (?cards kind), gr_cards = entries (?cards kind)\<rparr>) ?present"
  have eq: "List.map_filter (\<lambda>kind. let cards = ?cards kind in if cards = [] then None
       else Some \<lparr>gr_kind = kind, gr_total = length cards, gr_cards = entries cards\<rparr>) order = ?groups"
    by (induction order) (auto simp: List.map_filter_simps Let_def)
  have "sum_list (map (\<lambda>kind. length (?cards kind)) ?present) = sum_list (map (\<lambda>kind. length (?cards kind)) order)"
    using sum_list_map_filter_nonempty[of "map ?cards order"] by (simp add: filter_map o_def)
  also have "\<dots> = length pool"
    using distinct_order classify_in_order by (intro sum_filter_lengths) auto
  finally have "sum_list (map gr_total ?groups) = length pool" by (simp add: o_def)
  moreover have "map gr_kind ?groups = filter (\<lambda>kind. kind \<in> classify ` set pool) order"
    by (auto simp: o_def filter_empty_conv intro!: filter_cong)
  moreover have "\<forall>g\<in>set ?groups. let cards = filter (\<lambda>c. classify c = gr_kind g) pool
          in gr_total g = length cards \<and> collapses cards (gr_cards g)"
    using assms by (auto simp: Let_def)
  ultimately show ?thesis unfolding eq presents_def by blast
qed

lemma groups_for_presents: "presents pool order classify (groups_for pool order classify sort_by_cmc)"
  unfolding groups_for_def by (rule grouping_presents) (rule collapses_entries)

lemma source_order_groups_for_presents: "presents pool order classify (source_order_groups_for pool order classify)"
  unfolding source_order_groups_for_def by (rule grouping_presents) (rule collapses_entries)

lemma flattening_permutes: "mset (concat (map (\<lambda>kind. filter (\<lambda>c. classify c = kind) pool) order)) = mset pool"
proof -
  have "mset (concat (map (\<lambda>kind. filter (\<lambda>c. classify c = kind) pool) ks)) = mset (filter (\<lambda>c. classify c \<in> set ks) pool)"
    if "distinct ks" for ks
    using that
  proof (induction ks)
    case (Cons k ks)
    have "mset (filter (\<lambda>c. classify c \<in> set (k # ks)) pool)
        = mset (filter (\<lambda>c. classify c = k) pool) + mset (filter (\<lambda>c. classify c \<in> set ks) pool)"
      using Cons.prems by (induction pool) auto
    with Cons show ?case by simp
  qed simp
  with distinct_order show ?thesis using classify_in_order by simp
qed

end

lemma type_memberships_cases:
  "type_memberships c \<noteq> []" "set (type_memberships c) \<subseteq> set TYPE_GROUP_ORDER"
  by (auto simp: type_memberships_def Let_def type_needles_def TYPE_GROUP_ORDER_def split: if_splits)

lemma color_memberships_cases:
  "color_memberships c \<noteq> []" "set (color_memberships c) \<subseteq> set COLOR_GROUP_ORDER"
  by (auto simp: color_memberships_def Let_def color_symbols_def COLOR_GROUP_ORDER_def split: if_splits)

interpretation color_axis: pool_axis COLOR_GROUP_ORDER color_group
  by unfold_locales (auto simp: COLOR_GROUP_ORDER_def color_group_def split: list.splits)

interpretation type_axis: pool_axis TYPE_GROUP_ORDER type_group
  using type_memberships_cases
  by unfold_locales (auto simp: TYPE_GROUP_ORDER_def type_group_def intro: hd_in_set)

interpretation rarity_axis: pool_axis RARITY_GROUP_ORDER rarity_group
  by unfold_locales (auto simp: RARITY_GROUP_ORDER_def rarity_group_def Let_def)

interpretation cmc_axis: pool_axis CMC_GROUP_ORDER mana_value_group
  by unfold_locales (auto simp: CMC_GROUP_ORDER_def mana_value_group_def)

lemma split_sizes_concat: "concat (split_sizes sizes xs) = xs"
  by (induction sizes xs rule: split_sizes.induct) auto

lemma count_colors:
  "foldl count_color counts colors = \<lparr>cc_white = cc_white counts + count_list colors ''W'',
     cc_blue = cc_blue counts + count_list colors ''U'', cc_black = cc_black counts + count_list colors ''B'',
     cc_red = cc_red counts + count_list colors ''R'', cc_green = cc_green counts + count_list colors ''G''\<rparr>"
  by (induction colors arbitrary: counts) (auto simp: count_color_def)

lemma mset_partition: "mset (map f (filter P xs)) + mset (map f (filter (\<lambda>x. \<not> P x) xs)) = mset (map f xs)"
  by (induction xs) auto

text \<open>
  A pool is presented whole. On the color, type and mana-value axes, and on the rarity axis of a
  set draft, the groups are the classes that occur in the pool, in the fixed order, their totals add
  up to the pool, and every card of a class is in exactly one entry of its group, an entry that
  collapses equally named cards and lists the id of each. Creature and noncreature rows split the
  pool, the color counts count every symbol, a pack in rarity order is a permutation of the pack,
  and the boosters of a sealed pool concatenate to the pool.
\<close>

lemma pool_presented_whole:
  "let groups = from_pool pool source in
     presents pool COLOR_GROUP_ORDER color_group (dg_color_groups groups)
     \<and> presents pool TYPE_GROUP_ORDER type_group (dg_type_groups groups)
     \<and> presents pool CMC_GROUP_ORDER mana_value_group (dg_cmc_groups groups)
     \<and> (case source of SetSource _ \<Rightarrow> presents pool RARITY_GROUP_ORDER rarity_group (dg_rarity_groups groups)
         | Cube _ _ \<Rightarrow> dg_rarity_groups groups = [])
     \<and> mset (dg_creature_instance_ids groups @ dg_noncreature_instance_ids groups) = mset (map ci_instance_id pool)
     \<and> cc_white (dg_color_counts groups) = count_list (concat (map ci_colors pool)) ''W''
     \<and> mset (set_pack_in_rarity_order pool) = mset pool
     \<and> concat (split_by_pack_size pool s) = pool"
  using mset_partition[of ci_instance_id "\<lambda>c. Creature \<in> set (type_memberships c)" pool]
  by (simp add: from_pool_def Let_def color_axis.groups_for_presents type_axis.groups_for_presents
      cmc_axis.groups_for_presents rarity_axis.source_order_groups_for_presents split_by_pack_size_def split_sizes_concat
      color_counts_def count_colors set_pack_in_rarity_order_def rarity_axis.flattening_permutes[unfolded set_pack_in_rarity_order_def]
      split: draft_source.split)

section \<open>Filters and their options\<close>

lemma foldl_present:
  "set (foldl (\<lambda>present kind. if kind \<in> set present then present else present @ [kind]) acc ks) = set acc \<union> set ks"
  by (induction ks arbitrary: acc) auto

lemma set_present_kinds: "set (present_kinds memberships pool) = (\<Union>c\<in>set pool. set (memberships c))"
  by (simp add: present_kinds_def foldl_present)

lemma filter_options_set:
  "set (color_filter_options pool) = (\<Union>c\<in>set pool. set (color_memberships c))"
  "set (type_filter_options pool) = (\<Union>c\<in>set pool. set (type_memberships c))"
  "set (rarity_filter_options pool) = rarity_group ` set pool"
  using color_memberships_cases(2) type_memberships_cases(2) rarity_axis.classify_in_order
  by (auto simp: color_filter_options_def type_filter_options_def rarity_filter_options_def set_present_kinds Let_def list_ex_iff)

definition no_filter :: pool_filter where
  "no_filter = \<lparr>pf_query = [], pf_types = [], pf_colors = [], pf_rarities = []\<rparr>"

lemma filter_pool_single:
  assumes "trim [] = []" "to_lowercase [] = []"
  shows "filter_pool_listing trim to_lowercase pool (no_filter\<lparr>pf_types := [kind]\<rparr>)
      = map ci_instance_id (filter (\<lambda>c. kind \<in> set (type_memberships c)) pool)"
    "filter_pool_listing trim to_lowercase pool (no_filter\<lparr>pf_colors := [kind]\<rparr>)
      = map ci_instance_id (filter (\<lambda>c. kind \<in> set (color_memberships c)) pool)"
    "filter_pool_listing trim to_lowercase pool (no_filter\<lparr>pf_rarities := [kind]\<rparr>)
      = map ci_instance_id (filter (\<lambda>c. rarity_group c = kind) pool)"
  using assms
  by (auto simp: filter_pool_listing_def no_filter_def is_active_def axis_matches_def list_ex_iff intro!: filter_cong)

lemma filter_pool_subseq: "subseq (filter_pool_listing trim to_lowercase pool f) (map ci_instance_id pool)"
  by (auto simp: filter_pool_listing_def Let_def intro: subseq_map)

text \<open>
  Exactly the useful filter options are offered. For every pool, a color, type or rarity is offered
  as a filter option exactly when filtering the pool by it alone keeps a card, each option is offered
  once and in the fixed order; the result of any filter is in listing order, and the empty filter keeps
  everything. (Trimming and lower-casing are assumed to leave the empty string empty.)
\<close>

lemma filter_options_exact:
  assumes "trim [] = []" "to_lowercase [] = []"
  shows "(kind \<in> set (po_types (pool_filter_options pool)) \<longleftrightarrow>
        filter_pool_listing trim to_lowercase pool (no_filter\<lparr>pf_types := [kind]\<rparr>) \<noteq> [])
     \<and> (kind \<in> set (po_colors (pool_filter_options pool)) \<longleftrightarrow>
        filter_pool_listing trim to_lowercase pool (no_filter\<lparr>pf_colors := [kind]\<rparr>) \<noteq> [])
     \<and> (kind \<in> set (po_rarities (pool_filter_options pool)) \<longleftrightarrow>
        filter_pool_listing trim to_lowercase pool (no_filter\<lparr>pf_rarities := [kind]\<rparr>) \<noteq> [])
     \<and> subseq (po_types (pool_filter_options pool)) TYPE_GROUP_ORDER
     \<and> subseq (po_colors (pool_filter_options pool)) COLOR_GROUP_ORDER
     \<and> subseq (filter_pool_listing trim to_lowercase pool f) (map ci_instance_id pool)
     \<and> filter_pool_listing trim to_lowercase pool no_filter = map ci_instance_id pool"
proof -
  note single = filter_pool_single[of trim to_lowercase, OF assms]
  have "filter_pool_listing trim to_lowercase pool no_filter = map ci_instance_id pool"
    using assms(1) by (simp add: filter_pool_listing_def no_filter_def is_active_def)
  moreover have "subseq (type_filter_options pool) TYPE_GROUP_ORDER" "subseq (color_filter_options pool) COLOR_GROUP_ORDER"
    by (simp_all add: type_filter_options_def color_filter_options_def Let_def)
  ultimately show ?thesis
    using filter_pool_subseq[of trim to_lowercase pool f]
    by (auto simp: pool_filter_options_def filter_options_set single filter_empty_conv)
qed

definition sample_artifact_creature :: draft_card_instance where
  "sample_artifact_creature = (sample_card ''x'')\<lparr>ci_type_line := ''Artifact Creature'', ci_colors := [''W'', ''U'']\<rparr>"

end
