(* ===== verification/Player_View.thy ===== *)
theory Player_View
  imports Fifo_Session Pool_View
begin

text \<open>
  What a player or a spectator is told, from \<open>crates/draft-core/src/view.rs\<close>: the projections of
  the FIFO state, of the source and of the shared stack, the public seat list, standings and
  pairings, and the two builders \<open>filter_for_player\<close> and \<open>filter_for_spectator\<close>. A builder indexes
  the pools, divides by the pick size and converts a queue length, so its result is an outcome.
  The lemmas show that a view is a function of the session with every secret erased, that the
  legality it publishes is the verdict of the reducer, and that no reachable session makes a
  builder panic.
\<close>

section \<open>Views of the FIFO state\<close>

record fifo_progress_data =
  fp_completed_steps :: nat
  fp_round_completed_steps :: nat

record fifo_public_data =
  fb_session_id :: string
  fb_revision :: nat
  fb_paused :: "draft_paused_state option"
  fb_review_clock :: "draft_clock option"

record fifo_head_data =
  fh_pack_id :: draft_pack_id
  fh_opening_seat :: nat
  fh_round :: nat
  fh_original_size :: nat

record fifo_effect_data =
  fe_card_instance_ids :: "string list"
  fe_requirements :: "draft_selection_requirements list"

record fifo_player_data =
  fv_state :: fifo_public_data
  fv_progress :: fifo_progress_data
  fv_queue_count :: nat
  fv_head :: "fifo_head_data option"
  fv_prompt_id :: "draft_prompt_id option"
  fv_requirements :: draft_selection_requirements
  fv_effects :: "fifo_effect_data option"
  fv_clock :: "draft_clock option"

definition fifo_public_view :: "draft_session \<Rightarrow> fifo_public_data option" where
  "fifo_public_view s =
     map_option (\<lambda>fifo. \<lparr>fb_session_id = ff_session_id fifo, fb_revision = ff_revision fifo,
       fb_paused = ff_paused fifo, fb_review_clock = map_option rv_clock (ff_review fifo)\<rparr>) (ds_fifo s)"

definition fifo_progress_view :: "draft_session \<Rightarrow> nat \<Rightarrow> fifo_progress_data option" where
  "fifo_progress_view s i =
     Option.bind (ds_fifo s) (\<lambda>fifo. map_option (\<lambda>st. \<lparr>fp_completed_steps = fs_completed_steps st,
       fp_round_completed_steps = fs_round_completed_steps st\<rparr>) (nth_opt (ff_seats fifo) i))"

fun effect_requirements :: "draft_session \<Rightarrow> nat \<Rightarrow> string list \<Rightarrow> string list \<Rightarrow> draft_selection_requirements list" where
  "effect_requirements s seat used [] = []"
| "effect_requirements s seat used (card_id # rest) =
     (case selection_requirements s seat (used @ [card_id]) of
        Ok requirements \<Rightarrow> requirements # effect_requirements s seat (used @ [card_id]) rest
      | _ \<Rightarrow> [])"

definition fifo_effect_options :: "draft_session \<Rightarrow> nat \<Rightarrow> fifo_effect_data option" where
  "fifo_effect_options s seat =
     Option.bind (nth_opt (ds_pools s) seat) (\<lambda>pool.
       let card_instance_ids = map ci_instance_id
             (filter (\<lambda>c. is_ok (selection_requirements s seat [ci_instance_id c])) pool);
           requirements = effect_requirements s seat [] card_instance_ids
       in if requirements = [] then None
          else Some \<lparr>fe_card_instance_ids = card_instance_ids, fe_requirements = requirements\<rparr>)"

definition default_requirements :: draft_selection_requirements where
  "default_requirements = \<lparr>rq_picks = 0, rq_burns = 0\<rparr>"

definition fifo_player_view :: "draft_session \<Rightarrow> nat \<Rightarrow> fifo_player_data option" where
  "fifo_player_view s seat_index =
     Option.bind (ds_fifo s) (\<lambda>fifo.
     Option.bind (nth_opt (ff_seats fifo) seat_index) (\<lambda>seat.
       let active = (ds_status s = Drafting);
           prompt = fs_prompt seat;
           requirements = (if active
             then (case selection_requirements s seat_index [] of Ok r \<Rightarrow> r | _ \<Rightarrow> default_requirements)
             else default_requirements);
           effects = (if active then fifo_effect_options s seat_index else None)
       in Option.bind (fifo_public_view s) (\<lambda>state.
          Option.bind (fifo_progress_view s seat_index) (\<lambda>progress.
            Some \<lparr>fv_state = state, fv_progress = progress, fv_queue_count = length (fs_queue seat),
              fv_head = map_option (\<lambda>head. \<lparr>fh_pack_id = qp_pack_id head, fh_opening_seat = qp_opening_seat head,
                 fh_round = qp_round head, fh_original_size = qp_original_size head\<rparr>) (head_metadata s seat_index),
              fv_prompt_id = (if active then map_option pm_id prompt else None),
              fv_requirements = requirements, fv_effects = effects,
              fv_clock = Option.bind prompt pm_clock\<rparr>))))"

definition active_pack_count :: "draft_session \<Rightarrow> nat \<Rightarrow> nat draft_result" where
  "active_pack_count s seat =
     (case cf_flow (ds_config s) of
        FifoAsync \<Rightarrow>
          (case Option.bind (ds_fifo s) (\<lambda>fifo. nth_opt (ff_seats fifo) seat) of
             None \<Rightarrow> Ok 0
           | Some st \<Rightarrow> (case try_u8 (length (fs_queue st)) of None \<Rightarrow> Panic | Some n \<Rightarrow> Ok n))
      | LegacyBarrier \<Rightarrow>
          Ok (if ds_status s = Drafting \<and> (case head_pack s seat of None \<Rightarrow> False | Some pack \<Rightarrow> pack \<noteq> [])
                 \<and> \<not> flags_get (ds_seats_picked_this_round s) seat then 1 else 0))"

fun is_chaos :: "draft_source \<Rightarrow> bool" where
  "is_chaos (SetSource (Chaos _ _)) = True"
| "is_chaos _ = False"

definition private_chaos_sizes :: "draft_session \<Rightarrow> bool" where
  "private_chaos_sizes s \<longleftrightarrow> cf_flow (ds_config s) = FifoAsync \<and> is_chaos (cf_source (ds_config s))"

definition visible_pack_size :: "draft_session \<Rightarrow> nat option \<Rightarrow> nat" where
  "visible_pack_size s viewer =
     (case cf_flow (ds_config s) of
        LegacyBarrier \<Rightarrow> cards_in_pack s (ds_current_pack_number s)
      | FifoAsync \<Rightarrow>
          (case viewer of
             Some seat \<Rightarrow> (case head_metadata s seat of None \<Rightarrow> 0 | Some head \<Rightarrow> qp_original_size head)
           | None \<Rightarrow> if private_chaos_sizes s then 0 else cards_in_pack s (ds_current_pack_number s)))"

section \<open>Views of the source\<close>

datatype set_layout_view =
    UniformView "string list"
  | ChaosView "string list" "string option" "string list option" "string list option"

datatype draft_source_view = SetView set_layout_view | CubeView string string

fun chaos_assignments_are_complete :: "draft_status \<Rightarrow> bool" where
  "chaos_assignments_are_complete Deckbuilding = True"
| "chaos_assignments_are_complete Pairing = True"
| "chaos_assignments_are_complete MatchInProgress = True"
| "chaos_assignments_are_complete RoundComplete = True"
| "chaos_assignments_are_complete Complete = True"
| "chaos_assignments_are_complete Lobby = False"
| "chaos_assignments_are_complete Drafting = False"
| "chaos_assignments_are_complete Review = False"
| "chaos_assignments_are_complete Paused = False"
| "chaos_assignments_are_complete Abandoned = False"

fun set_source_view_for_player ::
  "set_layout \<Rightarrow> draft_status \<Rightarrow> nat \<Rightarrow> nat \<Rightarrow> nat option \<Rightarrow> set_layout_view" where
  "set_source_view_for_player (UniformByRound codes) status seat_index pack_number origin = UniformView codes"
| "set_source_view_for_player (Chaos candidates assignments) status seat_index pack_number origin =
     (let complete = chaos_assignments_are_complete status in
      ChaosView candidates
        (if status = Drafting
         then Option.bind origin (\<lambda>i. Option.bind (nth_opt assignments i) (\<lambda>rounds. nth_opt rounds pack_number))
         else None)
        (if complete then nth_opt assignments seat_index else None)
        (if complete then Some (layout_actual_set_codes (Chaos candidates assignments)) else None))"

definition current_pack_origin :: "draft_session \<Rightarrow> nat \<Rightarrow> nat option" where
  "current_pack_origin s seat_index =
     (if cf_flow (ds_config s) = FifoAsync then map_option qp_opening_seat (head_metadata s seat_index)
      else case Option.bind (nth_opt (ds_current_pack s) seat_index) (\<lambda>p. p) of
             None \<Rightarrow> None
           | Some pack \<Rightarrow>
               if pack = [] then None
               else Option.bind (nth_opt (ds_current_pack_origins s) seat_index) (\<lambda>origin. origin))"

definition effective_status :: "draft_session \<Rightarrow> draft_status" where
  "effective_status s =
     (if cf_flow (ds_config s) = FifoAsync
         \<and> (case Option.bind (ds_fifo s) ff_paused of None \<Rightarrow> False | Some paused \<Rightarrow> pz_phase paused = PhaseDrafting)
      then Drafting else ds_status s)"

definition source_view_for_player :: "draft_session \<Rightarrow> nat \<Rightarrow> draft_source_view" where
  "source_view_for_player s seat_index =
     (case cf_source (ds_config s) of
        SetSource layout \<Rightarrow>
          SetView (set_source_view_for_player layout (effective_status s) seat_index (ds_current_pack_number s)
                     (current_pack_origin s seat_index))
      | Cube cube_id name \<Rightarrow> CubeView cube_id name)"

definition source_view_for_spectator :: "draft_session \<Rightarrow> draft_source_view" where
  "source_view_for_spectator s =
     (case cf_source (ds_config s) of
        SetSource layout \<Rightarrow>
          SetView (case layout of UniformByRound codes \<Rightarrow> UniformView codes
                   | Chaos candidates _ \<Rightarrow> ChaosView candidates None None None)
      | Cube cube_id name \<Rightarrow> CubeView cube_id name)"

definition visible_pack_set_codes :: "draft_session \<Rightarrow> string list" where
  "visible_pack_set_codes s = (if is_chaos (cf_source (ds_config s)) then [] else pack_set_code_sequence s)"

definition visible_chaos_concessions :: "draft_session \<Rightarrow> bool" where
  "visible_chaos_concessions s \<longleftrightarrow> \<not> is_chaos (cf_source (ds_config s)) \<or> chaos_assignments_are_complete (ds_status s)"

section \<open>Views of the shared stack\<close>

record shared_stack_decision_data =
  dv_decision :: shared_stack_pile_decision
  dv_refusal :: "shared_stack_refusal option"

record shared_stack_pile_data =
  pl_index :: nat
  pl_total :: nat
  pl_revealed :: "draft_card_instance list"
  pl_legality :: "shared_stack_decision_data list"

record shared_stack_data =
  sk_main_stack_remaining :: nat
  sk_total_cards :: nat
  sk_active_seat :: nat
  sk_active_pile :: nat
  sk_piles :: "shared_stack_pile_data list"
  sk_decisions :: nat
  sk_history :: "shared_stack_decision_record list"
  sk_forced_draw :: "draft_card_instance option"

definition seen_prefix :: "shared_stack_state \<Rightarrow> nat \<Rightarrow> draft_card_instance list \<Rightarrow> nat" where
  "seen_prefix st i pile =
     min (case nth_opt (ss_inspected st) i of None \<Rightarrow> 0 | Some n \<Rightarrow> n) (length pile)"

definition shared_stack_pile_view ::
  "shared_stack_state \<Rightarrow> bool \<Rightarrow> nat \<times> draft_card_instance list \<Rightarrow> shared_stack_pile_data" where
  "shared_stack_pile_view st is_active_viewer entry =
     (case entry of (i, pile) \<Rightarrow>
        \<lparr>pl_index = as_u8 i, pl_total = length pile,
         pl_revealed = (if is_active_viewer then take (seen_prefix st i pile) pile else []),
         pl_legality = map (\<lambda>d. \<lparr>dv_decision = d, dv_refusal = refusal_for st (ss_active_seat st) (as_u8 i) d\<rparr>)
           pile_decision_ALL\<rparr>)"

definition shared_stack_view :: "shared_stack_state \<Rightarrow> nat option \<Rightarrow> shared_stack_data" where
  "shared_stack_view st viewer =
     (let piles = map (shared_stack_pile_view st (viewer = Some (ss_active_seat st))) (List.enumerate 0 (ss_piles st))
      in \<lparr>sk_main_stack_remaining = length (ss_main_stack st),
          sk_total_cards = length (ss_main_stack st) + sum_list (map pl_total piles),
          sk_active_seat = ss_active_seat st, sk_active_pile = ss_cursor st, sk_piles = piles,
          sk_decisions = ss_decisions st, sk_history = ss_history st,
          sk_forced_draw = Option.bind (Option.bind viewer (\<lambda>seat. nth_opt (ss_forced_draws st) seat)) (\<lambda>d. d)\<rparr>)"

definition shared_stack_view_for :: "draft_session \<Rightarrow> bool \<Rightarrow> nat option \<Rightarrow> shared_stack_data option" where
  "shared_stack_view_for s is_drafting viewer =
     Option.bind (ds_shared_stack s) (\<lambda>st. if is_drafting then Some (shared_stack_view st viewer) else None)"

definition play_first_chooser :: "draft_session \<Rightarrow> nat option" where
  "play_first_chooser s =
     Option.bind (ds_shared_stack s) (\<lambda>st.
       if length (ds_seats s) = 2 then Some (add_u8 (ss_starting_seat st) 1 mod 2) else None)"

section \<open>Seats, standings and pairings\<close>

datatype pick_status = PickPending | Picked | PickWaiting | TimedOut | NotDrafting

definition pick_status_for :: "draft_session \<Rightarrow> nat \<Rightarrow> bool \<Rightarrow> pick_status" where
  "pick_status_for s seat_index is_drafting =
     (if \<not> is_drafting then NotDrafting
      else case pr_distribution (procedure (ds_kind s)) of
        SharedStackPiles _ \<Rightarrow>
          (case ds_shared_stack s of
             Some st \<Rightarrow> if ss_active_seat st = as_u8 seat_index then PickPending else PickWaiting
           | None \<Rightarrow> NotDrafting)
      | _ \<Rightarrow> if head_pack s (as_u8 seat_index) \<noteq> None then PickPending else Picked)"

record seat_public_data =
  sv_fifo_progress :: "fifo_progress_data option"
  sv_seat_index :: nat
  sv_display_name :: string
  sv_is_bot :: bool
  sv_connected :: bool
  sv_has_submitted_deck :: bool
  sv_pick_status :: pick_status
  sv_active_pack_count :: nat
  sv_drafted_card_count :: nat
  sv_face_up_draft_cards :: "draft_card_instance list"

fun seat_display_name :: "draft_seat \<Rightarrow> string" where
  "seat_display_name (Human _ display_name) = display_name"
| "seat_display_name (Bot name) = name"

definition seat_public_view :: "draft_session \<Rightarrow> bool \<Rightarrow> nat \<times> draft_seat \<Rightarrow> seat_public_data draft_result" where
  "seat_public_view s is_drafting entry =
     (case entry of (i, seat) \<Rightarrow>
        and_then (active_pack_count s (as_u8 i)) (\<lambda>packs.
        and_then (index (ds_pools s) i) (\<lambda>pool.
          Ok \<lparr>sv_fifo_progress = fifo_progress_view s i, sv_seat_index = as_u8 i,
              sv_display_name = seat_display_name seat, sv_is_bot = is_bot seat,
              sv_connected = (case seat of Human _ _ \<Rightarrow> flags_get_or (ds_connected_seats s) (as_u8 i) True | Bot _ \<Rightarrow> True),
              sv_has_submitted_deck = (case seat of
                 Human player_id _ \<Rightarrow> fmlookup (ds_submitted_decks s) player_id \<noteq> None | Bot _ \<Rightarrow> False),
              sv_pick_status = pick_status_for s i is_drafting, sv_active_pack_count = packs,
              sv_drafted_card_count = length pool, sv_face_up_draft_cards = face_up_draft_cards pool\<rparr>)))"

definition seat_public_views :: "draft_session \<Rightarrow> bool \<Rightarrow> seat_public_data list draft_result" where
  "seat_public_views s is_drafting = try_map (seat_public_view s is_drafting) (List.enumerate 0 (ds_seats s))"

record standing_entry =
  se_seat_index :: nat
  se_display_name :: string
  se_match_wins :: nat
  se_match_losses :: nat
  se_game_wins :: nat
  se_game_losses :: nat

definition standing_for :: "draft_session \<Rightarrow> nat \<times> draft_seat \<Rightarrow> standing_entry" where
  "standing_for s entry =
     (case entry of (i, seat) \<Rightarrow>
        let pid = (case seat of Human player_id _ \<Rightarrow> player_id | Bot _ \<Rightarrow> PlayerId (as_u8 i));
            field = (\<lambda>f. case fmlookup (ds_match_records s) pid of None \<Rightarrow> 0 | Some r \<Rightarrow> f r)
        in \<lparr>se_seat_index = as_u8 i, se_display_name = seat_display_name seat,
            se_match_wins = field mr_match_wins, se_match_losses = field mr_match_losses,
            se_game_wins = field mr_wins, se_game_losses = field mr_losses\<rparr>)"

definition compute_standings :: "draft_session \<Rightarrow> standing_entry list" where
  "compute_standings s =
     (if ds_pairings s = [] then []
      else sort_key (\<lambda>e. - int (se_match_wins e)) (map (standing_for s) (List.enumerate 0 (ds_seats s))))"

record pairing_data =
  pv_round :: nat
  pv_table :: nat
  pv_seat_a :: nat
  pv_name_a :: string
  pv_seat_b :: nat
  pv_name_b :: string
  pv_match_id :: string
  pv_status :: pairing_status
  pv_winner_seat :: "nat option"
  pv_score_a :: "nat option"
  pv_score_b :: "nat option"

definition player_seats :: "draft_session \<Rightarrow> (player_id \<times> nat \<times> string) list" where
  "player_seats s = map (\<lambda>(i, seat).
     (case seat of Human player_id _ \<Rightarrow> player_id | Bot _ \<Rightarrow> PlayerId (as_u8 i), as_u8 i, seat_display_name seat))
     (List.enumerate 0 (ds_seats s))"

definition pairing_view :: "draft_session \<Rightarrow> draft_pairing \<Rightarrow> pairing_data" where
  "pairing_view s p =
     (let lookup = (\<lambda>pid. case map_of (rev (player_seats s)) pid of None \<Rightarrow> (0, ''Unknown'') | Some e \<Rightarrow> e);
          a = fst (pg_players p); b = snd (pg_players p)
      in \<lparr>pv_round = pg_round p, pv_table = pg_table p, pv_seat_a = fst (lookup a), pv_name_a = snd (lookup a),
          pv_seat_b = fst (lookup b), pv_name_b = snd (lookup b), pv_match_id = pg_match_id p, pv_status = pg_status p,
          pv_winner_seat = Option.bind (result_winner p (ds_match_records s)) (\<lambda>winner.
             if winner = a then Some (fst (lookup a)) else if winner = b then Some (fst (lookup b)) else None),
          pv_score_a = None, pv_score_b = None\<rparr>)"

definition compute_pairing_views :: "draft_session \<Rightarrow> pairing_data list" where
  "compute_pairing_views s =
     (if ds_current_round s = 0 then []
      else map (pairing_view s) (filter (\<lambda>p. pg_round p = ds_current_round s) (ds_pairings s)))"

section \<open>The two builders\<close>

record draft_player_view =
  dp_flow :: draft_flow
  dp_fifo :: "fifo_player_data option"
  dp_status :: draft_status
  dp_kind :: draft_kind
  dp_source :: draft_source_view
  dp_launch_capability :: draft_launch_capability
  dp_distribution :: pack_distribution
  dp_commanders_required :: nat
  dp_current_pack_number :: nat
  dp_pick_number :: nat
  dp_pass_direction :: pass_direction
  dp_current_pack :: "draft_card_instance list option"
  dp_required_pick_count :: nat
  dp_pick_selection_mode :: pick_selection_mode
  dp_pool :: "draft_card_instance list"
  dp_draft_effects :: "draft_card_instance list"
  dp_pool_groups :: draft_pool_groups
  dp_sealed_packs :: "draft_card_instance list list option"
  dp_seats :: "seat_public_data list"
  dp_cards_per_pack :: nat
  dp_pack_sizes :: "nat list"
  dp_pack_set_codes :: "string list"
  dp_pack_pick_steps :: "nat list"
  dp_pick_steps_per_pack :: nat
  dp_pack_count :: nat
  dp_min_deck_size :: nat
  dp_addable_cards :: "string list"
  dp_grantable_commander_fillers :: "grantable_commander_filler list"
  dp_draft_set_codes :: "string list"
  dp_timer_remaining_ms :: "nat option"
  dp_standings :: "standing_entry list"
  dp_current_round :: nat
  dp_next_pairing_round :: nat
  dp_tournament_format :: tournament_format
  dp_pod_policy :: pod_policy
  dp_pairings :: "pairing_data list"
  dp_match_config :: match_config
  dp_shared_stack :: "shared_stack_data option"
  dp_play_first_chooser :: "nat option"

record spectator_draft_view =
  dz_flow :: draft_flow
  dz_fifo :: "fifo_public_data option"
  dz_status :: draft_status
  dz_kind :: draft_kind
  dz_source :: draft_source_view
  dz_current_pack_number :: nat
  dz_pick_number :: nat
  dz_pass_direction :: pass_direction
  dz_seats :: "seat_public_data list"
  dz_cards_per_pack :: nat
  dz_pack_sizes :: "nat list"
  dz_pack_set_codes :: "string list"
  dz_pack_pick_steps :: "nat list"
  dz_pick_steps_per_pack :: nat
  dz_pack_count :: nat
  dz_min_deck_size :: nat
  dz_addable_cards :: "string list"
  dz_grantable_commander_fillers :: "grantable_commander_filler list"
  dz_standings :: "standing_entry list"
  dz_current_round :: nat
  dz_tournament_format :: tournament_format
  dz_pod_policy :: pod_policy
  dz_pairings :: "pairing_data list"
  dz_match_config :: match_config
  dz_pools :: "draft_card_instance list list option"
  dz_current_packs :: "draft_card_instance list option list option"
  dz_shared_stack :: "shared_stack_data option"

definition visible_pack_sizes :: "draft_session \<Rightarrow> nat list" where
  "visible_pack_sizes s = (if private_chaos_sizes s then [] else pack_size_sequence s)"

definition visible_pick_steps :: "draft_session \<Rightarrow> nat list draft_result" where
  "visible_pick_steps s = (if private_chaos_sizes s then Ok [] else pack_pick_step_sequence s)"

definition filter_for_player :: "draft_session \<Rightarrow> nat \<Rightarrow> draft_player_view draft_result" where
  "filter_for_player s seat_index =
     (let source = cf_source (ds_config s);
          p = procedure (ds_kind s);
          current_pack = map_option (\<lambda>pack. if is_cube source then pack else set_pack_in_rarity_order pack) (head_pack s seat_index);
          pool = (case nth_opt (ds_pools s) seat_index of None \<Rightarrow> [] | Some pool \<Rightarrow> pool);
          is_drafting = (ds_status s = Drafting)
      in and_then (seat_public_views s is_drafting) (\<lambda>seats.
         and_then (visible_pick_steps s) (\<lambda>pick_steps.
         and_then (pick_steps_per_pack p (visible_pack_size s (Some seat_index))) (\<lambda>steps_per_pack.
           Ok \<lparr>dp_flow = cf_flow (ds_config s), dp_fifo = fifo_player_view s seat_index, dp_status = ds_status s,
             dp_kind = ds_kind s, dp_source = source_view_for_player s seat_index,
             dp_launch_capability = launch_capability p, dp_distribution = pr_distribution p,
             dp_commanders_required = pr_commanders_required p, dp_current_pack_number = ds_current_pack_number s,
             dp_pick_number = ds_pick_number s, dp_pass_direction = ds_pass_direction s, dp_current_pack = current_pack,
             dp_required_pick_count = (if cf_flow (ds_config s) = FifoAsync \<and> \<not> is_drafting then 0
                else required_pick_count s seat_index),
             dp_pick_selection_mode = pr_pick_selection_mode p, dp_pool = pool,
             dp_draft_effects = face_up_draft_cards pool, dp_pool_groups = from_pool pool source,
             dp_sealed_packs = (case pr_distribution p of
                AllAtOnce \<Rightarrow> Some (split_by_pack_size pool s) | PickAndPass \<Rightarrow> None | SharedStackPiles _ \<Rightarrow> None),
             dp_seats = seats, dp_cards_per_pack = visible_pack_size s (Some seat_index),
             dp_pack_sizes = visible_pack_sizes s, dp_pack_set_codes = visible_pack_set_codes s,
             dp_pack_pick_steps = pick_steps, dp_pick_steps_per_pack = steps_per_pack,
             dp_pack_count = cf_pack_count (ds_config s), dp_min_deck_size = cf_min_deck_size (ds_config s),
             dp_addable_cards = display_names (cf_addable_cards (ds_config s)),
             dp_grantable_commander_fillers = (if visible_chaos_concessions s then dc_fillers (session_concessions s) else []),
             dp_draft_set_codes = (if visible_chaos_concessions s then concession_set_codes s else []),
             dp_timer_remaining_ms = None, dp_standings = compute_standings s, dp_current_round = ds_current_round s,
             dp_next_pairing_round = next_pairing_round s, dp_tournament_format = cf_tournament_format (ds_config s),
             dp_pod_policy = cf_pod_policy (ds_config s), dp_pairings = compute_pairing_views s,
             dp_match_config = kind_match_config (ds_kind s),
             dp_shared_stack = shared_stack_view_for s is_drafting (Some seat_index),
             dp_play_first_chooser = play_first_chooser s\<rparr>))))"

definition filter_for_spectator :: "draft_session \<Rightarrow> spectator_visibility \<Rightarrow> spectator_draft_view draft_result" where
  "filter_for_spectator s visibility =
     (let source = cf_source (ds_config s);
          p = procedure (ds_kind s);
          is_drafting = (ds_status s = Drafting);
          omniscient = (visibility = Omniscient \<and> \<not> is_chaos source)
      in and_then (seat_public_views s is_drafting) (\<lambda>seats.
         and_then (visible_pick_steps s) (\<lambda>pick_steps.
         and_then (pick_steps_per_pack p (visible_pack_size s None)) (\<lambda>steps_per_pack.
           Ok \<lparr>dz_flow = cf_flow (ds_config s), dz_fifo = fifo_public_view s, dz_status = ds_status s, dz_kind = ds_kind s,
             dz_source = source_view_for_spectator s, dz_current_pack_number = ds_current_pack_number s,
             dz_pick_number = ds_pick_number s, dz_pass_direction = ds_pass_direction s, dz_seats = seats,
             dz_cards_per_pack = visible_pack_size s None, dz_pack_sizes = visible_pack_sizes s,
             dz_pack_set_codes = visible_pack_set_codes s, dz_pack_pick_steps = pick_steps,
             dz_pick_steps_per_pack = steps_per_pack, dz_pack_count = cf_pack_count (ds_config s),
             dz_min_deck_size = cf_min_deck_size (ds_config s),
             dz_addable_cards = display_names (cf_addable_cards (ds_config s)),
             dz_grantable_commander_fillers = (if is_chaos source then [] else dc_fillers (session_concessions s)),
             dz_standings = compute_standings s, dz_current_round = ds_current_round s,
             dz_tournament_format = cf_tournament_format (ds_config s), dz_pod_policy = cf_pod_policy (ds_config s),
             dz_pairings = compute_pairing_views s, dz_match_config = kind_match_config (ds_kind s),
             dz_pools = (if omniscient then Some (ds_pools s) else None),
             dz_current_packs = (if omniscient
                then Some (map (\<lambda>seat. Option.bind (try_u8 seat) (head_pack s)) [0..<length (ds_seats s)]) else None),
             dz_shared_stack = shared_stack_view_for s is_drafting None\<rparr>))))"

section \<open>Erasing secrets\<close>

definition mapi :: "(nat \<Rightarrow> 'a \<Rightarrow> 'b) \<Rightarrow> 'a list \<Rightarrow> 'b list" where
  "mapi f xs = map (\<lambda>(i, x). f i x) (List.enumerate 0 xs)"

lemma length_mapi [simp]: "length (mapi f xs) = length xs"
  by (simp add: mapi_def)

lemma nth_mapi [simp]: "i < length xs \<Longrightarrow> mapi f xs ! i = f i (xs ! i)"
  by (simp add: mapi_def)

lemma nth_opt_mapi [simp]: "nth_opt (mapi f xs) i = map_option (f i) (nth_opt xs i)"
  by (simp add: nth_opt_def)

lemma map_enumerate_mapi: "map f (List.enumerate 0 (mapi g xs)) = map (\<lambda>(i, x). f (i, g i x)) (List.enumerate 0 xs)"
  by (rule nth_equalityI) auto

text \<open>
  \<open>redact viewer s\<close> erases what the viewer must not learn: the seed, the code and the pool of the
  source, the unopened packs, the packs, origins and hidden pool cards of the other seats, the
  contents of decks, the order of the main stack, the cards of the piles that the viewer has not
  inspected, the notices of the other seats, the queues, prompts and provenance of the FIFO state
  other than the viewer's head and prompt, and the Chaos assignments other than the pack being
  drafted, until the draft is over. \<open>None\<close> is a spectator.
\<close>

definition blank_card :: draft_card_instance where
  "blank_card = \<lparr>ci_instance_id = [], ci_name = [], ci_set_code = [], ci_collector_number = [], ci_rarity = [],
     ci_colors = [], ci_cmc = 0, ci_type_line = [], ci_draft_effect = None\<rparr>"

definition hide_pool :: "draft_card_instance list \<Rightarrow> draft_card_instance list" where
  "hide_pool pool = map (\<lambda>c. if ci_draft_effect c = None then blank_card else c) pool"

definition redact_stack :: "nat option \<Rightarrow> shared_stack_state \<Rightarrow> shared_stack_state" where
  "redact_stack viewer st =
     (let active = (viewer = Some (ss_active_seat st)) in
      st\<lparr>ss_main_stack := replicate (length (ss_main_stack st)) blank_card,
         ss_piles := mapi (\<lambda>i pile. if active
             then take (seen_prefix st i pile) pile @ replicate (length pile - seen_prefix st i pile) blank_card
             else replicate (length pile) blank_card) (ss_piles st),
         ss_inspected := (if active then ss_inspected st else []),
         ss_forced_draws := mapi (\<lambda>i notice. if viewer = Some i then notice else None) (ss_forced_draws st)\<rparr>)"

definition hide_queued :: "queued_draft_pack \<Rightarrow> queued_draft_pack" where
  "hide_queued q = \<lparr>qp_pack_id = DraftPackId 0, qp_opening_seat = 0, qp_round = 0, qp_original_size = 0, qp_pack = []\<rparr>"

definition redact_fifo :: "nat option \<Rightarrow> fifo_draft_state \<Rightarrow> fifo_draft_state" where
  "redact_fifo viewer fifo =
     fifo\<lparr>ff_last_now_ms := 0, ff_packs := fmempty, ff_cards := fmempty, ff_removed := [], ff_returned_effects := fmempty,
       ff_seats := mapi (\<lambda>i st. st\<lparr>fs_generation := 0,
         fs_prompt := (if viewer = Some i then fs_prompt st else None),
         fs_queue := mapi (\<lambda>j q. if viewer = Some i \<and> j = 0 then q else hide_queued q) (fs_queue st)\<rparr>) (ff_seats fifo)\<rparr>"

definition redact_assignments :: "(nat \<times> nat) option \<Rightarrow> string list list \<Rightarrow> string list list" where
  "redact_assignments shown assignments =
     mapi (\<lambda>i rounds. mapi (\<lambda>j code. if shown = Some (i, j) then code else []) rounds) assignments"

definition shown_assignment :: "nat option \<Rightarrow> draft_session \<Rightarrow> (nat \<times> nat) option" where
  "shown_assignment viewer s =
     (if effective_status s = Drafting
      then Option.bind viewer (\<lambda>seat. map_option (\<lambda>origin. (origin, ds_current_pack_number s)) (current_pack_origin s seat))
      else None)"

definition redact_source :: "nat option \<Rightarrow> draft_session \<Rightarrow> draft_source" where
  "redact_source viewer s =
     (case cf_source (ds_config s) of
        SetSource (Chaos candidates assignments) \<Rightarrow>
          if chaos_assignments_are_complete (ds_status s) \<and> viewer \<noteq> None then cf_source (ds_config s)
          else SetSource (Chaos candidates (redact_assignments (shown_assignment viewer s) assignments))
      | source \<Rightarrow> source)"

definition redact :: "nat option \<Rightarrow> draft_session \<Rightarrow> draft_session" where
  "redact viewer s =
     s\<lparr>ds_booster_pack_pool := None, ds_draft_code := [], ds_set_code := [],
       ds_shared_stack := map_option (redact_stack viewer) (ds_shared_stack s),
       ds_fifo := map_option (redact_fifo viewer) (ds_fifo s),
       ds_config := (ds_config s)\<lparr>cf_rng_seed := 0, cf_set_code := [], cf_source := redact_source viewer s\<rparr>,
       ds_packs_by_seat := [],
       ds_current_pack := mapi (\<lambda>i pack. if viewer = Some i then pack
          else map_option (\<lambda>cs. if cs = [] then [] else [blank_card]) pack) (ds_current_pack s),
       ds_current_pack_origins := mapi (\<lambda>i origin. if viewer = Some i then origin else None) (ds_current_pack_origins s),
       ds_pools := mapi (\<lambda>i pool. if viewer = Some i then pool else hide_pool pool) (ds_pools s),
       ds_submitted_decks := fmmap (\<lambda>_. \<lparr>sb_seat = 0, sb_main_deck = [], sb_commanders = [], sb_printings = []\<rparr>)
          (ds_submitted_decks s)\<rparr>"

section \<open>A view is a function of the redacted session\<close>

lemma redact_simps [simp]:
  "ds_kind (redact v s) = ds_kind s" "ds_status (redact v s) = ds_status s" "ds_seats (redact v s) = ds_seats s"
  "ds_current_pack_number (redact v s) = ds_current_pack_number s" "ds_pack_sizes (redact v s) = ds_pack_sizes s"
  "ds_pick_number (redact v s) = ds_pick_number s" "ds_pass_direction (redact v s) = ds_pass_direction s"
  "ds_seats_picked_this_round (redact v s) = ds_seats_picked_this_round s"
  "ds_connected_seats (redact v s) = ds_connected_seats s" "ds_match_records (redact v s) = ds_match_records s"
  "ds_pairings (redact v s) = ds_pairings s" "ds_current_round (redact v s) = ds_current_round s"
  "ds_fifo (redact v s) = map_option (redact_fifo v) (ds_fifo s)"
  "ds_shared_stack (redact v s) = map_option (redact_stack v) (ds_shared_stack s)"
  "ds_config (redact v s) = (ds_config s)\<lparr>cf_rng_seed := 0, cf_set_code := [], cf_source := redact_source v s\<rparr>"
  by (simp_all add: redact_def)

lemma redact_fifo_simps [simp]:
  "ff_session_id (redact_fifo v f) = ff_session_id f" "ff_revision (redact_fifo v f) = ff_revision f"
  "ff_paused (redact_fifo v f) = ff_paused f" "ff_review (redact_fifo v f) = ff_review f"
  by (simp_all add: redact_fifo_def)

lemma nth_opt_0 [simp]: "nth_opt xs 0 = None \<longleftrightarrow> xs = []"
  by (auto simp: nth_opt_def)

lemma redact_seat:
  "nth_opt (ff_seats (redact_fifo v f)) i = map_option (\<lambda>st. st\<lparr>fs_generation := 0,
     fs_prompt := (if v = Some i then fs_prompt st else None),
     fs_queue := mapi (\<lambda>j q. if v = Some i \<and> j = 0 then q else hide_queued q) (fs_queue st)\<rparr>) (nth_opt (ff_seats f) i)"
  by (simp add: redact_fifo_def)

lemma redact_public [simp]: "fifo_public_view (redact v s) = fifo_public_view s"
  by (simp add: fifo_public_view_def option.map_comp o_def)

lemma redact_progress [simp]: "fifo_progress_view (redact v s) i = fifo_progress_view s i"
  by (cases "ds_fifo s") (simp_all add: fifo_progress_view_def redact_seat option.map_comp o_def)

lemma redact_head_metadata:
  "head_metadata (redact v s) i = map_option (\<lambda>q. if v = Some i then q else hide_queued q) (head_metadata s i)"
  by (auto simp: head_metadata_def redact_seat split: bind_splits option.splits)

lemma redact_own_head [simp]: "head_metadata (redact (Some seat) s) seat = head_metadata s seat"
  by (simp add: redact_head_metadata option.map_ident)

lemma redact_current_pack: "nth_opt (ds_current_pack (redact v s)) i = map_option (\<lambda>pack. if v = Some i then pack
     else map_option (\<lambda>cs. if cs = [] then [] else [blank_card]) pack) (nth_opt (ds_current_pack s) i)"
  by (simp add: redact_def)

lemma redact_head_pack_own [simp]: "head_pack (redact (Some seat) s) seat = head_pack s seat"
  by (auto simp: head_pack_def redact_current_pack option.map_ident split: draft_flow.split)

lemma redact_head_pack_shape:
  "head_pack (redact v s) i = None \<longleftrightarrow> head_pack s i = None"
  "cf_flow (ds_config s) = LegacyBarrier \<Longrightarrow>
     (case head_pack (redact v s) i of None \<Rightarrow> False | Some pack \<Rightarrow> pack \<noteq> [])
       = (case head_pack s i of None \<Rightarrow> False | Some pack \<Rightarrow> pack \<noteq> [])"
proof -
  show "head_pack (redact v s) i = None \<longleftrightarrow> head_pack s i = None"
    by (auto simp: head_pack_def redact_current_pack redact_head_metadata split: draft_flow.split bind_splits if_splits)
  show "cf_flow (ds_config s) = LegacyBarrier \<Longrightarrow>
     (case head_pack (redact v s) i of None \<Rightarrow> False | Some pack \<Rightarrow> pack \<noteq> [])
       = (case head_pack s i of None \<Rightarrow> False | Some pack \<Rightarrow> pack \<noteq> [])"
    by (auto simp: head_pack_def redact_current_pack split: bind_splits if_splits option.splits)
qed

lemma redact_pools: "nth_opt (ds_pools (redact v s)) i = map_option (\<lambda>pool. if v = Some i then pool else hide_pool pool) (nth_opt (ds_pools s) i)"
  by (simp add: redact_def)

lemma redact_own_pool [simp]: "nth_opt (ds_pools (redact (Some seat) s)) seat = nth_opt (ds_pools s) seat"
  by (simp add: redact_pools option.map_ident)

lemma redact_active_pack_count [simp]: "active_pack_count (redact v s) i = active_pack_count s i"
proof (cases "cf_flow (ds_config s)")
  case LegacyBarrier
  then show ?thesis using redact_head_pack_shape(2)[of s v i] by (simp add: active_pack_count_def)
next
  case FifoAsync
  then show ?thesis by (cases "ds_fifo s") (auto simp: active_pack_count_def redact_seat split: option.split)
qed

lemma redact_stack_simps [simp]:
  "length (ss_main_stack (redact_stack v st)) = length (ss_main_stack st)"
  "ss_active_seat (redact_stack v st) = ss_active_seat st" "ss_cursor (redact_stack v st) = ss_cursor st"
  "ss_decisions (redact_stack v st) = ss_decisions st" "ss_history (redact_stack v st) = ss_history st"
  "ss_starting_seat (redact_stack v st) = ss_starting_seat st"
  "length (ss_piles (redact_stack v st)) = length (ss_piles st)"
  by (simp_all add: redact_stack_def Let_def)

lemma redact_pile_length: "i < length (ss_piles st) \<Longrightarrow> length (ss_piles (redact_stack v st) ! i) = length (ss_piles st ! i)"
  by (auto simp: redact_stack_def Let_def seen_prefix_def)

lemma redact_refusal [simp]: "refusal_for (redact_stack v st) seat pile d = refusal_for st seat pile d"
proof -
  have empty: "ss_piles (redact_stack v st) ! i = [] \<longleftrightarrow> ss_piles st ! i = []" if "i < length (ss_piles st)" for i
    using redact_pile_length[OF that, of v] by (metis length_0_conv)
  show ?thesis
    by (cases d) (auto simp: refusal_for_def Let_def list_ex_iff ex_set_drop empty split: option.splits)
qed

lemma redact_piles_own:
  "map (shared_stack_pile_view (redact_stack v st) (v = Some (ss_active_seat st))) (List.enumerate 0 (ss_piles (redact_stack v st)))
   = map (shared_stack_pile_view st (v = Some (ss_active_seat st))) (List.enumerate 0 (ss_piles st))"
proof (rule nth_equalityI; simp)
  fix i assume i: "i < length (ss_piles st)"
  have seen: "seen_prefix (redact_stack v st) i (ss_piles (redact_stack v st) ! i) = seen_prefix st i (ss_piles st ! i)"
    if "v = Some (ss_active_seat st)"
    using that redact_pile_length[OF i, of v] by (simp add: seen_prefix_def) (simp add: redact_stack_def Let_def)
  have "take (seen_prefix st i (ss_piles st ! i)) (ss_piles (redact_stack v st) ! i) = take (seen_prefix st i (ss_piles st ! i)) (ss_piles st ! i)"
    if "v = Some (ss_active_seat st)"
    using that i by (simp add: redact_stack_def Let_def seen_prefix_def)
  with seen redact_pile_length[OF i, of v]
  show "shared_stack_pile_view (redact_stack v st) (v = Some (ss_active_seat st)) (i, ss_piles (redact_stack v st) ! i)
      = shared_stack_pile_view st (v = Some (ss_active_seat st)) (i, ss_piles st ! i)"
    by (auto simp: shared_stack_pile_view_def)
qed

lemma redact_stack_view [simp]: "shared_stack_view (redact_stack v st) v = shared_stack_view st v"
proof -
  have "Option.bind (Option.bind v (\<lambda>seat. nth_opt (ss_forced_draws (redact_stack v st)) seat)) (\<lambda>d. d)
      = Option.bind (Option.bind v (\<lambda>seat. nth_opt (ss_forced_draws st) seat)) (\<lambda>d. d)"
    by (cases v) (simp_all add: redact_stack_def Let_def option.map_ident)
  then show ?thesis by (simp add: shared_stack_view_def Let_def redact_piles_own[of v st, simplified])
qed

lemma redact_stack_view_for [simp]: "shared_stack_view_for (redact v s) d v = shared_stack_view_for s d v"
  by (cases "ds_shared_stack s") (simp_all add: shared_stack_view_for_def)

lemma redact_play_first [simp]: "play_first_chooser (redact v s) = play_first_chooser s"
  by (cases "ds_shared_stack s") (simp_all add: play_first_chooser_def)

lemma redact_pick_status [simp]: "pick_status_for (redact v s) i d = pick_status_for s i d"
  by (cases "ds_shared_stack s") (auto simp: pick_status_for_def redact_head_pack_shape split: pack_distribution.split)

lemma hide_pool_simps [simp]:
  "length (hide_pool pool) = length pool" "face_up_draft_cards (hide_pool pool) = face_up_draft_cards pool"
proof -
  show "face_up_draft_cards (hide_pool pool) = face_up_draft_cards pool"
    by (induction pool) (auto simp: face_up_draft_cards_def hide_pool_def blank_card_def)
qed (simp add: hide_pool_def)

lemma redact_submitted [simp]: "fmlookup (ds_submitted_decks (redact v s)) p = None \<longleftrightarrow> fmlookup (ds_submitted_decks s) p = None"
  by (simp add: redact_def)

lemma redact_all_pools: "ds_pools (redact v s) = mapi (\<lambda>i pool. if v = Some i then pool else hide_pool pool) (ds_pools s)"
  by (simp add: redact_def)

lemma redact_seat_public [simp]: "seat_public_view (redact v s) d e = seat_public_view s d e"
proof (cases e)
  case (Pair i seat)
  show ?thesis
    by (cases "i < length (ds_pools s)"; cases seat) (simp_all add: Pair seat_public_view_def redact_all_pools index_def)
qed

lemma redact_seat_public_fun: "seat_public_view (redact v s) d = seat_public_view s d"
  by (rule ext) (rule redact_seat_public)

lemma redact_seat_views [simp]: "seat_public_views (redact v s) d = seat_public_views s d"
  by (simp add: seat_public_views_def redact_seat_public_fun)

lemma redact_check_effects [simp]: "check_effects (redact (Some seat) s) seat seen effects = check_effects s seat seen effects"
  by (induction effects arbitrary: seen) auto

lemma redact_required_picks [simp]: "required_pick_count (redact (Some seat) s) seat = required_pick_count s seat"
  by (simp add: required_pick_count_def)

lemma redact_selection [simp]: "selection_requirements (redact (Some seat) s) seat effects = selection_requirements s seat effects"
  by (cases "effects = []") (simp_all add: selection_requirements_def Let_def)

lemma redact_effect_requirements [simp]:
  "effect_requirements (redact (Some seat) s) seat used ids = effect_requirements s seat used ids"
  by (induction ids arbitrary: used) (auto split: outcome.split)

lemma redact_effect_options [simp]: "fifo_effect_options (redact (Some seat) s) seat = fifo_effect_options s seat"
  by (simp add: fifo_effect_options_def)

lemma redact_player_fifo [simp]: "fifo_player_view (redact (Some seat) s) seat = fifo_player_view s seat"
proof (cases "ds_fifo s")
  case (Some f)
  note f = this
  show ?thesis
  proof (cases "nth_opt (ff_seats f) seat")
    case None
    show ?thesis unfolding fifo_player_view_def by (simp only: redact_simps f option.map bind.simps redact_seat None)
  next
    case (Some st)
    show ?thesis unfolding fifo_player_view_def Let_def redact_simps f option.map bind.simps redact_seat Some
      by (simp cong: if_cong)
  qed
qed (simp add: fifo_player_view_def)

lemma redact_effective_status [simp]: "effective_status (redact v s) = effective_status s"
  by (cases "ds_fifo s") (simp_all add: effective_status_def)

lemma redact_own_origin [simp]: "current_pack_origin (redact (Some seat) s) seat = current_pack_origin s seat"
proof -
  have "nth_opt (ds_current_pack_origins (redact (Some seat) s)) seat = nth_opt (ds_current_pack_origins s) seat"
    by (simp add: redact_def option.map_ident)
  then show ?thesis by (simp add: current_pack_origin_def redact_current_pack option.map_ident split: option.split)
qed

lemma redact_source_kind [simp]:
  "is_chaos (redact_source v s) = is_chaos (cf_source (ds_config s))"
  "is_cube (redact_source v s) = is_cube (cf_source (ds_config s))"
  "from_pool pool (redact_source v s) = from_pool pool (cf_source (ds_config s))"
  by (auto simp: redact_source_def from_pool_def split: draft_source.split set_layout.split)

lemma redact_source_plain: "\<not> is_chaos (cf_source (ds_config s)) \<Longrightarrow> redact_source v s = cf_source (ds_config s)"
  by (auto simp: redact_source_def split: draft_source.split set_layout.split)

lemma redact_source_complete:
  "visible_chaos_concessions s \<Longrightarrow> redact_source (Some seat) s = cf_source (ds_config s)"
  by (auto simp: visible_chaos_concessions_def redact_source_plain)
    (auto simp: redact_source_def split: draft_source.split set_layout.split)

lemma redact_source_view_player [simp]: "source_view_for_player (redact (Some seat) s) seat = source_view_for_player s seat"
proof (cases "\<exists>candidates assignments. cf_source (ds_config s) = SetSource (Chaos candidates assignments)
    \<and> \<not> chaos_assignments_are_complete (ds_status s)")
  case False
  then have "redact_source (Some seat) s = cf_source (ds_config s)"
    by (auto simp: redact_source_def split: draft_source.split set_layout.split)
  then show ?thesis by (simp add: source_view_for_player_def split: draft_source.split)
next
  case True
  then obtain cs as where src: "cf_source (ds_config s) = SetSource (Chaos cs as)"
    and inc: "\<not> chaos_assignments_are_complete (ds_status s)" by blast
  have status: "\<not> chaos_assignments_are_complete (effective_status s)"
    using inc by (simp add: effective_status_def split: if_splits)
  have "Option.bind origin (\<lambda>i. Option.bind (nth_opt (redact_assignments (map_option (\<lambda>i. (i, k)) origin) as) i) (\<lambda>rounds. nth_opt rounds k))
      = Option.bind origin (\<lambda>i. Option.bind (nth_opt as i) (\<lambda>rounds. nth_opt rounds k))" for origin k
    by (cases origin) (auto simp: redact_assignments_def nth_opt_def)
  with src inc status show ?thesis
    by (simp add: source_view_for_player_def redact_source_def Let_def shown_assignment_def)
qed

lemma redact_source_view_spectator [simp]: "source_view_for_spectator (redact None s) = source_view_for_spectator s"
  by (auto simp: source_view_for_spectator_def redact_source_def split: draft_source.split set_layout.split)

lemma redact_pack_shapes [simp]:
  "cards_in_pack (redact v s) k = cards_in_pack s k"
  "pack_size_sequence (redact v s) = pack_size_sequence s"
  "visible_pack_sizes (redact v s) = visible_pack_sizes s"
  "split_by_pack_size pool (redact v s) = split_by_pack_size pool s"
  "private_chaos_sizes (redact v s) = private_chaos_sizes s"
  "next_pairing_round (redact v s) = next_pairing_round s"
  "visible_chaos_concessions (redact v s) = visible_chaos_concessions s"
proof -
  show cards: "cards_in_pack (redact v s) k = cards_in_pack s k" for k by (simp add: cards_in_pack_def split: option.split)
  show sizes: "pack_size_sequence (redact v s) = pack_size_sequence s" by (simp add: pack_size_sequence_def cards)
  show chaos: "private_chaos_sizes (redact v s) = private_chaos_sizes s" by (simp add: private_chaos_sizes_def)
  show "visible_pack_sizes (redact v s) = visible_pack_sizes s" by (simp add: visible_pack_sizes_def sizes chaos)
  show "split_by_pack_size pool (redact v s) = split_by_pack_size pool s" by (simp add: split_by_pack_size_def sizes)
  show "next_pairing_round (redact v s) = next_pairing_round s" by (simp add: next_pairing_round_def)
  show "visible_chaos_concessions (redact v s) = visible_chaos_concessions s" by (simp add: visible_chaos_concessions_def)
qed

lemma redact_pick_steps [simp]: "visible_pick_steps (redact v s) = visible_pick_steps s"
  by (simp add: visible_pick_steps_def pack_pick_step_sequence_Ok)

lemma redact_visible_pack_size [simp]:
  "visible_pack_size (redact (Some seat) s) (Some seat) = visible_pack_size s (Some seat)"
  "visible_pack_size (redact v s) None = visible_pack_size s None"
  by (simp_all add: visible_pack_size_def split: draft_flow.split)

lemma redact_set_codes [simp]: "visible_pack_set_codes (redact v s) = visible_pack_set_codes s"
  by (simp add: visible_pack_set_codes_def pack_set_code_sequence_def redact_source_plain)

lemma concession_set_codes_cong:
  assumes "ds_kind t = ds_kind s" "cf_source (ds_config t) = cf_source (ds_config s)"
  shows "concession_set_codes t = concession_set_codes s"
  unfolding concession_set_codes_def assms ..

lemma redact_concessions:
  "visible_chaos_concessions s \<Longrightarrow> concession_set_codes (redact (Some seat) s) = concession_set_codes s"
  "\<not> is_chaos (cf_source (ds_config s)) \<Longrightarrow> concession_set_codes (redact v s) = concession_set_codes s"
  by (rule concession_set_codes_cong; simp add: redact_source_complete redact_source_plain)+

lemma redact_records [simp]:
  "compute_standings (redact v s) = compute_standings s" "compute_pairing_views (redact v s) = compute_pairing_views s"
proof -
  have "standing_for (redact v s) = standing_for s" by (rule ext) (simp add: standing_for_def)
  then show "compute_standings (redact v s) = compute_standings s" by (simp add: compute_standings_def)
  have "pairing_view (redact v s) = pairing_view s" by (rule ext) (simp add: pairing_view_def player_seats_def)
  then show "compute_pairing_views (redact v s) = compute_pairing_views s" by (simp add: compute_pairing_views_def)
qed

lemma and_then_assoc: "and_then (and_then r f) g = and_then r (\<lambda>a. and_then (f a) g)"
  by (cases r) simp_all

text \<open>
  C8. Views keep secrets. The view of a seat is the view of the session from which everything the seat
  must not know has been erased, and so is the public spectator's: no view depends on the seed, the
  unopened packs, another seat's pack, hidden pool cards, queue, prompt or deck, the order of the main
  stack, an uninspected pile card, another seat's forced draw, or, before the draft is over, on a Chaos
  assignment other than that of the booster the seat is drafting. The omniscient spectator is told
  what the public one is told and the pools and head packs, but nothing of the table's face-down cards.
\<close>

theorem views_keep_secrets:
  "filter_for_player (redact (Some seat) s) seat = filter_for_player s seat
   \<and> filter_for_spectator (redact None s) PublicVisibility = filter_for_spectator s PublicVisibility
   \<and> filter_for_spectator s PublicVisibility
       = and_then (filter_for_spectator s Omniscient) (\<lambda>v. Ok (v\<lparr>dz_pools := None, dz_current_packs := None\<rparr>))"
proof (intro conjI)
  let ?t = "redact (Some seat) s"
  have conc: "(if visible_chaos_concessions s then dc_fillers (session_concessions ?t) else [])
      = (if visible_chaos_concessions s then dc_fillers (session_concessions s) else [])"
    "(if visible_chaos_concessions s then concession_set_codes ?t else [])
      = (if visible_chaos_concessions s then concession_set_codes s else [])"
    by (simp_all add: session_concessions_def redact_concessions)
  show "filter_for_player (redact (Some seat) s) seat = filter_for_player s seat"
    unfolding filter_for_player_def Let_def redact_simps
    by (simp add: conc cong: option.case_cong pack_distribution.case_cong if_cong)
  have "(if is_chaos (cf_source (ds_config s)) then [] else dc_fillers (session_concessions (redact None s)))
      = (if is_chaos (cf_source (ds_config s)) then [] else dc_fillers (session_concessions s))"
    by (simp add: session_concessions_def redact_concessions)
  then show "filter_for_spectator (redact None s) PublicVisibility = filter_for_spectator s PublicVisibility"
    by (simp add: filter_for_spectator_def Let_def)
  show "filter_for_spectator s PublicVisibility
       = and_then (filter_for_spectator s Omniscient) (\<lambda>v. Ok (v\<lparr>dz_pools := None, dz_current_packs := None\<rparr>))"
    by (simp add: filter_for_spectator_def Let_def and_then_assoc)
qed

section \<open>Published legality\<close>

lemma refused_decision:
  assumes "playable s" "ds_status s = Drafting" "ds_shared_stack s = Some st"
    and "refusal_for st (ss_active_seat st) pile d = Some r"
  shows "apply_shared_stack_decision s (ss_active_seat st) pile d
      = (Err (SharedStackDecisionRefused (ss_active_seat st) pile r), s)"
proof -
  have "ss_active_seat st < length (ds_seats s)" "as_u8 (length (ds_seats s)) = length (ds_seats s)"
    using assms(1,3) by (auto elim!: playableE)
  with assms show ?thesis by (simp add: apply_shared_stack_decision_def Let_def shared_stack_def)
qed

lemma accepted_decision:
  assumes "playable s" "ds_status s = Drafting" "ds_shared_stack s = Some st"
    and "refusal_for st (ss_active_seat st) pile d = None"
  shows "is_ok (fst (apply_shared_stack_decision s (ss_active_seat st) pile d))"
proof -
  obtain p where "pile_shape (length (ds_seats s)) p st" using assms(1,3) by (auto elim!: playableE)
  from decide_turn_total[OF this assms(4)] obtain st' pool' where
    "decide_turn (length (ds_seats s)) (ss_active_seat st) pile d st (ds_pools s ! ss_active_seat st) = Ok (st', pool')" by blast
  from apply_accepted[OF assms(1,3,2,4) this] show ?thesis by simp
qed

text \<open>
  C9. The published legality is the enforced one. In a playable shared-stack draft every view shows the
  piles with a verdict on each decision; the reducer accepts the active seat's decision exactly when the
  verdict is legal, and otherwise refuses it with the published reason and changes nothing.
\<close>

theorem published_legality_enforced:
  assumes "playable s" "ds_status s = Drafting" "filter_for_player s seat = Ok v"
  shows "\<exists>table. dp_shared_stack v = Some table \<and> sk_piles table \<noteq> []
    \<and> (\<forall>pile\<in>set (sk_piles table). map dv_decision (pl_legality pile) = pile_decision_ALL
        \<and> (\<forall>verdict\<in>set (pl_legality pile).
            case dv_refusal verdict of
              None \<Rightarrow> is_ok (fst (apply_shared_stack_decision s (sk_active_seat table) (pl_index pile) (dv_decision verdict)))
            | Some r \<Rightarrow> apply_shared_stack_decision s (sk_active_seat table) (pl_index pile) (dv_decision verdict)
                = (Err (SharedStackDecisionRefused (sk_active_seat table) (pl_index pile) r), s)))"
proof -
  from assms(1) obtain st p where st: "ds_shared_stack s = Some st" "pile_shape (length (ds_seats s)) p st"
    by (auto elim!: playableE)
  let ?table = "shared_stack_view st (Some seat)"
  have active: "sk_active_seat ?table = ss_active_seat st" by (simp add: shared_stack_view_def Let_def)
  have "dp_shared_stack v = Some ?table"
    using assms(2,3) st(1) by (auto simp: filter_for_player_def Let_def outcome_simps shared_stack_view_for_def)
  moreover have "sk_piles ?table \<noteq> []"
    using st(2) by (cases "ss_piles st") (auto simp: shared_stack_view_def Let_def pile_shape_def)
  moreover have "case dv_refusal verdict of
      None \<Rightarrow> is_ok (fst (apply_shared_stack_decision s (ss_active_seat st) (pl_index pile) (dv_decision verdict)))
    | Some r \<Rightarrow> apply_shared_stack_decision s (ss_active_seat st) (pl_index pile) (dv_decision verdict)
        = (Err (SharedStackDecisionRefused (ss_active_seat st) (pl_index pile) r), s)"
    if "pile \<in> set (sk_piles ?table)" "verdict \<in> set (pl_legality pile)" for pile verdict
    using that refused_decision[OF assms(1,2) st(1)] accepted_decision[OF assms(1,2) st(1)]
    by (auto simp: shared_stack_view_def Let_def shared_stack_pile_view_def split: option.split)
  moreover have "map dv_decision (pl_legality pile) = pile_decision_ALL" if "pile \<in> set (sk_piles ?table)" for pile
    using that by (auto simp: shared_stack_view_def Let_def shared_stack_pile_view_def o_def)
  ultimately show ?thesis unfolding active[symmetric] by blast
qed

section \<open>Views never panic\<close>

definition viewable :: "draft_session \<Rightarrow> bool" where
  "viewable s \<longleftrightarrow> length (ds_pools s) = length (ds_seats s)
     \<and> (cf_flow (ds_config s) = FifoAsync \<longrightarrow>
          (case ds_fifo s of None \<Rightarrow> True | Some fifo \<Rightarrow> \<forall>st\<in>set (ff_seats fifo). length (fs_queue st) < 256))"

lemma pick_steps_Ok: "pick_steps_per_pack (procedure k) n = Ok (div_ceil n (pr_cards_per_pick (procedure k)))"
  using procedure_bounds(1)[of k] by (simp add: pick_steps_per_pack_def)

lemma visible_pick_steps_Ok: "\<exists>steps. visible_pick_steps s = Ok steps"
  by (simp add: visible_pick_steps_def pack_pick_step_sequence_Ok)

lemma active_pack_count_Ok:
  assumes "viewable s"
  shows "\<exists>n. active_pack_count s i = Ok n"
proof (cases "cf_flow (ds_config s)")
  case FifoAsync
  have "length (fs_queue st) < 256" if "ds_fifo s = Some fifo" "nth_opt (ff_seats fifo) i = Some st" for fifo st
    using assms FifoAsync that by (auto simp: viewable_def nth_opt_def split: if_splits)
  then show ?thesis using FifoAsync
    by (auto simp: active_pack_count_def try_u8_def bind_eq_Some_conv split: option.split)
qed (simp add: active_pack_count_def)

lemma seat_public_views_Ok:
  assumes "viewable s"
  shows "\<exists>views. seat_public_views s d = Ok views"
proof -
  have "\<exists>view. seat_public_view s d e = Ok view" if "e \<in> set (List.enumerate 0 (ds_seats s))" for e
  proof -
    obtain i seat where e: "e = (i, seat)" by fastforce
    with that have "i < length (ds_pools s)" using assms by (auto simp: viewable_def in_set_enumerate_eq)
    with active_pack_count_Ok[OF assms, of "as_u8 i"] e show ?thesis by (auto simp: seat_public_view_def)
  qed
  then have "\<exists>ys. try_map (seat_public_view s d) xs = Ok ys" if "set xs \<subseteq> set (List.enumerate 0 (ds_seats s))" for xs
    using that by (induction xs) (auto simp: outcome_simps)
  then show ?thesis unfolding seat_public_views_def by blast
qed

lemma views_Ok:
  assumes "viewable s"
  shows "is_ok (filter_for_player s seat)" "is_ok (filter_for_spectator s visibility)"
proof -
  obtain views where "seat_public_views s (ds_status s = Drafting) = Ok views" using seat_public_views_Ok[OF assms] by blast
  moreover obtain steps where "visible_pick_steps s = Ok steps" using visible_pick_steps_Ok by blast
  ultimately show "is_ok (filter_for_player s seat)" "is_ok (filter_for_spectator s visibility)"
    by (simp_all add: filter_for_player_def filter_for_spectator_def Let_def pick_steps_Ok)
qed

lemma legacy_viewable: "session_inv s \<Longrightarrow> viewable s"
  by (auto simp: session_inv_def viewable_def validate_legacy_admission_Ok)

lemma validate_progress_queue: "validate_progress fifo current q live n seat = Ok u \<Longrightarrow> length (fs_queue seat) \<le> n"
  by (simp add: validate_progress_def Let_def not_less split: if_splits)

lemma validate_seat_queue: "validate_seat s fifo live x scan = Ok scan' \<Longrightarrow> length (fs_queue (snd x)) \<le> length (ds_seats s)"
  by (cases x) (auto simp: validate_seat_def and_then_eq_Ok dest: validate_progress_queue)

lemma validated_seat_queues:
  assumes "try_fold (validate_seat s fifo live) (List.enumerate 0 seats) scan = Ok scan'"
  shows "\<forall>st\<in>set seats. length (fs_queue st) \<le> length (ds_seats s)"
proof -
  have "\<forall>x\<in>set (List.enumerate 0 seats). length (fs_queue (snd x)) \<le> length (ds_seats s)"
    using try_fold_each[OF assms, where Q = "\<lambda>x _. length (fs_queue (snd x)) \<le> length (ds_seats s)"] validate_seat_queue by blast
  then show ?thesis using ball_enumerate[of 0 seats "\<lambda>st. length (fs_queue st) \<le> length (ds_seats s)"] by blast
qed

lemma validated_viewable:
  assumes "cf_flow (ds_config s) = FifoAsync" "validate_persisted_snapshot s = Ok ()"
  shows "viewable s"
proof -
  from assms have v: "validate_fifo_snapshot s = Ok ()" by (simp add: validate_persisted_snapshot_def)
  then obtain fifo phase where f: "ds_fifo s = Some fifo" "validate_fifo_shape s fifo = Ok ()"
    "validate_fifo_config (ds_config s) (length (ds_seats s)) (AdmitSnapshot FifoAsync) = Ok ()"
    "ds_status s = Lobby \<Longrightarrow> \<not> generated_lobby_state s fifo" "ds_status s \<noteq> Lobby \<Longrightarrow> validate_started s fifo phase = Ok ()"
    by (cases "ds_status s = Lobby") (auto simp: validate_fifo_snapshot_def and_then_eq_Ok split: if_splits)
  have n: "length (ds_seats s) < 256" by (rule validate_fifo_config_Ok(2)[OF f(3)])
  have pools: "length (ds_pools s) = length (ds_seats s)"
    using f(2) by (auto simp: validate_fifo_shape_def Let_def split: if_splits)
  have "\<forall>st\<in>set (ff_seats fifo). length (fs_queue st) < 256"
  proof (cases "ds_status s = Lobby")
    case True
    with f(4)[OF True] show ?thesis by (auto simp: generated_lobby_state_def list_ex_iff)
  next
    case False
    from f(5)[OF False] obtain scan scan' where
      "try_fold (validate_seat s fifo (phase = Some PhaseDrafting)) (List.enumerate 0 (ff_seats fifo)) scan = Ok scan'"
      by (auto simp: validate_started_def validate_ownership_def Let_def outcome_simps)
    from validated_seat_queues[OF this] n show ?thesis by force
  qed
  with f(1) pools show ?thesis by (simp add: viewable_def)
qed

text \<open>
  A view can always be built. For every legacy session that satisfies the session invariant, hence
  after any sequence of actions, and for every FIFO session that passes the snapshot validator, hence
  after every committed or restored state, both builders return a view for any seat number and either
  spectator visibility: no pool is indexed out of bounds, no queue length overflows a byte and no pick
  size is zero.
\<close>

lemma views_never_panic:
  assumes "session_inv s \<or> cf_flow (ds_config s) = FifoAsync \<and> validate_persisted_snapshot s = Ok ()"
  shows "is_ok (filter_for_player s seat) \<and> is_ok (filter_for_spectator s visibility)"
  using assms views_Ok[of s] legacy_viewable[of s] validated_viewable[of s] by blast

theorem published_legality_enforced_witness:
  "\<exists>v table. filter_for_player sample_winston 1 = Ok v \<and> dp_shared_stack v = Some table \<and> sk_piles table \<noteq> []"
proof -
  have "viewable sample_winston" by code_simp
  then obtain v where "filter_for_player sample_winston 1 = Ok v" using views_Ok(1) by (auto simp: is_ok_iff)
  with published_legality_enforced[OF winston_playable[OF sample_winston_inv] sample_winston_simps(1) this]
  show ?thesis by blast
qed

end
