(* ===== verification/Rust_Strings.thy ===== *)
theory Rust_Strings
  imports Prelude
begin

text \<open>
  The string operations of the Rust library that the parsers of the development use, on UTF-8 byte
  strings: \<open>trim\<close> for the white space of Unicode, \<open>lines\<close>, \<open>split\<close>, \<open>split_once\<close>, \<open>rsplit_once\<close> and
  \<open>parse::<u32>\<close>, with the lemmas that evaluate them on printed text.
\<close>

section \<open>Operations\<close>

definition byte_of :: "char \<Rightarrow> nat" where
  "byte_of c = of_char c"

definition ascii_ws :: "char \<Rightarrow> bool" where
  "ascii_ws c \<longleftrightarrow> byte_of c = 32 \<or> 9 \<le> byte_of c \<and> byte_of c \<le> 13"

definition two_byte_ws :: "char \<Rightarrow> char \<Rightarrow> bool" where
  "two_byte_ws c d \<longleftrightarrow> byte_of c = 0xC2 \<and> (byte_of d = 0x85 \<or> byte_of d = 0xA0)"

definition three_byte_ws :: "char \<Rightarrow> char \<Rightarrow> char \<Rightarrow> bool" where
  "three_byte_ws c d e \<longleftrightarrow>
     byte_of c = 0xE1 \<and> byte_of d = 0x9A \<and> byte_of e = 0x80
   \<or> byte_of c = 0xE2 \<and> byte_of d = 0x80 \<and> (0x80 \<le> byte_of e \<and> byte_of e \<le> 0x8A \<or> byte_of e = 0xA8 \<or> byte_of e = 0xA9 \<or> byte_of e = 0xAF)
   \<or> byte_of c = 0xE2 \<and> byte_of d = 0x81 \<and> byte_of e = 0x9F
   \<or> byte_of c = 0xE3 \<and> byte_of d = 0x80 \<and> byte_of e = 0x80"

fun ws_lead :: "string \<Rightarrow> nat" where
  "ws_lead [] = 0"
| "ws_lead (c # s) =
     (if ascii_ws c then 1
      else case s of [] \<Rightarrow> 0 | d # s' \<Rightarrow>
        if two_byte_ws c d then 2
        else case s' of [] \<Rightarrow> 0 | e # _ \<Rightarrow> if three_byte_ws c d e then 3 else 0)"

fun ws_trail :: "string \<Rightarrow> nat" where
  "ws_trail [] = 0"
| "ws_trail (c # s) =
     (if ascii_ws c then 1
      else case s of [] \<Rightarrow> 0 | d # s' \<Rightarrow>
        if two_byte_ws d c then 2
        else case s' of [] \<Rightarrow> 0 | e # _ \<Rightarrow> if three_byte_ws e d c then 3 else 0)"

lemma ws_bounds: "ws_lead s \<le> length s" "ws_trail s \<le> length s"
  by (cases s; auto split: list.splits)+

function skip_ws :: "(string \<Rightarrow> nat) \<Rightarrow> string \<Rightarrow> string" where
  "skip_ws w s = (if w s = 0 \<or> length s < w s then s else skip_ws w (drop (w s) s))"
  by auto
termination by (relation "measure (\<lambda>(w, s). length s)") auto

declare skip_ws.simps [simp del]

definition trim_start :: "string \<Rightarrow> string" where
  "trim_start s = skip_ws ws_lead s"

definition trim_end :: "string \<Rightarrow> string" where
  "trim_end s = rev (skip_ws ws_trail (rev s))"

definition str_trim :: "string \<Rightarrow> string" where
  "str_trim s = trim_end (trim_start s)"

fun split_once_ws :: "string \<Rightarrow> string \<Rightarrow> (string \<times> string) option" where
  "split_once_ws before [] = None"
| "split_once_ws before (c # s) =
     (if ws_lead (c # s) = 0 then split_once_ws (before @ [c]) s else Some (before, drop (ws_lead (c # s)) (c # s)))"

definition NEWLINE :: char where
  "NEWLINE = CHR 0x0A"

definition strip_cr :: "string \<Rightarrow> string" where
  "strip_cr line = (if line \<noteq> [] \<and> last line = CHR 0x0D then butlast line else line)"

function str_lines :: "string \<Rightarrow> string list" where
  "str_lines s =
     (if s = [] then []
      else case dropWhile (\<lambda>c. c \<noteq> NEWLINE) s of
        [] \<Rightarrow> [s]
      | _ # rest \<Rightarrow> strip_cr (takeWhile (\<lambda>c. c \<noteq> NEWLINE) s) # str_lines rest)"
  by auto
termination
proof (relation "measure length")
  fix s x rest assume "dropWhile (\<lambda>c. c \<noteq> NEWLINE) s = x # rest"
  then have "length (x # rest) \<le> length s" by (metis length_dropWhile_le)
  then show "(rest, s) \<in> measure length" by simp
qed simp

declare str_lines.simps [simp del]

definition is_digit :: "char \<Rightarrow> bool" where
  "is_digit c \<longleftrightarrow> 48 \<le> byte_of c \<and> byte_of c \<le> 57"

definition parse_u32 :: "string \<Rightarrow> nat option" where
  "parse_u32 s =
     (let digits = (if s \<noteq> [] \<and> hd s = CHR ''+'' then tl s else s) in
      if digits = [] \<or> \<not> list_all is_digit digits then None
      else if read_nat digits < 2 ^ 32 then Some (read_nat digits) else None)"

definition rsplit_once :: "char \<Rightarrow> string \<Rightarrow> (string \<times> string) option" where
  "rsplit_once c s =
     (case dropWhile (\<lambda>x. x \<noteq> c) (rev s) of
        [] \<Rightarrow> None
      | _ # before \<Rightarrow> Some (rev before, rev (takeWhile (\<lambda>x. x \<noteq> c) (rev s))))"

fun str_split :: "char \<Rightarrow> string \<Rightarrow> string list" where
  "str_split c [] = [[]]"
| "str_split c (x # s) =
     (if x = c then [] # str_split c s
      else case str_split c s of seg # segs \<Rightarrow> (x # seg) # segs | [] \<Rightarrow> [[x]])"

definition trim_end_matches :: "char \<Rightarrow> string \<Rightarrow> string" where
  "trim_end_matches c s = rev (dropWhile (\<lambda>x. x = c) (rev s))"

definition ascii_upper :: "char \<Rightarrow> char" where
  "ascii_upper c = (if 97 \<le> byte_of c \<and> byte_of c \<le> 122 then char_of (byte_of c - 32) else c)"

section \<open>Text without white space at its ends\<close>

definition is_ascii :: "char \<Rightarrow> bool" where
  "is_ascii c \<longleftrightarrow> byte_of c < 128"

lemma ws_lead_append: "xs \<noteq> [] \<Longrightarrow> is_ascii y \<Longrightarrow> ws_lead (xs @ y # ys) = ws_lead xs"
  by (cases xs) (auto simp: is_ascii_def two_byte_ws_def three_byte_ws_def split: list.splits)

lemma ws_trail_append: "xs \<noteq> [] \<Longrightarrow> is_ascii y \<Longrightarrow> ws_trail (xs @ y # ys) = ws_trail xs"
  by (cases xs) (auto simp: is_ascii_def two_byte_ws_def three_byte_ws_def split: list.splits)

lemma ws_ascii:
  "is_ascii c \<Longrightarrow> ws_lead (c # s) = (if ascii_ws c then 1 else 0)"
  "is_ascii c \<Longrightarrow> ws_trail (c # s) = (if ascii_ws c then 1 else 0)"
  by (auto simp: is_ascii_def two_byte_ws_def three_byte_ws_def split: list.splits)

declare ws_lead.simps(2) [simp del] ws_trail.simps(2) [simp del]

lemma skip_ws_none: "w s = 0 \<Longrightarrow> skip_ws w s = s"
  by (subst skip_ws.simps) simp

lemma skip_ws_one: "w (c # s) = 1 \<Longrightarrow> skip_ws w (c # s) = skip_ws w s"
  by (subst skip_ws.simps) simp

definition clean :: "string \<Rightarrow> bool" where
  "clean s \<longleftrightarrow> s \<noteq> [] \<and> ws_lead s = 0 \<and> ws_trail (rev s) = 0"

lemma trim_clean: "clean s \<Longrightarrow> str_trim s = s" "clean s \<Longrightarrow> trim_end s = s"
  by (simp_all add: clean_def str_trim_def trim_start_def trim_end_def skip_ws_none)

lemma clean_append:
  assumes "clean a" "clean b" "is_ascii x"
  shows "clean (a @ x # b)"
proof -
  have "ws_trail (rev (a @ x # b)) = ws_trail (rev b)"
    using ws_trail_append[of "rev b" x "rev a"] assms by (simp add: clean_def)
  with assms ws_lead_append[of a x b] show ?thesis by (simp add: clean_def)
qed

lemma clean_ascii:
  assumes "s \<noteq> []" "\<forall>c\<in>set s. is_ascii c \<and> \<not> ascii_ws c"
  shows "clean s"
proof -
  from assms obtain c r where c: "s = c # r" by (cases s) auto
  from assms(1) obtain d l where d: "rev s = d # l" by (cases "rev s") auto
  then have "d \<in> set s" by (metis list.set_intros(1) set_rev)
  with assms(2) have "ws_trail (d # l) = 0" by (simp add: ws_ascii(2))
  moreover have "ws_lead s = 0" using assms(2) c by (simp add: ws_ascii(1))
  ultimately show ?thesis using assms(1) d by (simp add: clean_def)
qed

lemma split_once_skip:
  assumes "\<forall>c\<in>set a. is_ascii c \<and> \<not> ascii_ws c"
  shows "split_once_ws before (a @ CHR '' '' # r) = Some (before @ a, r)"
  using assms
proof (induction a arbitrary: before)
  case Nil
  have "is_ascii (CHR '' '')" "ascii_ws (CHR '' '')" by (simp_all add: is_ascii_def ascii_ws_def byte_of_def)
  then have "ws_lead (CHR '' '' # r) = 1" using ws_ascii(1) by metis
  then show ?case by simp
next
  case (Cons c a)
  then have "ws_lead (c # a @ CHR '' '' # r) = 0" using ws_ascii(1) by simp
  with Cons show ?case by simp
qed

lemma digit_byte: "d < 10 \<Longrightarrow> byte_of (digit d) = 48 + d"
  by (simp add: byte_of_def of_char_digit)

lemma show_nat_bytes: "c \<in> set (show_nat n) \<Longrightarrow> is_digit c \<and> is_ascii c \<and> \<not> ascii_ws c"
  using show_nat_digits[of c n] by (auto simp: is_digit_def is_ascii_def ascii_ws_def digit_byte)

lemma show_nat_nonempty: "show_nat n \<noteq> []"
  by (subst show_nat.simps) simp

lemma parse_u32_show: "n < 2 ^ 32 \<Longrightarrow> parse_u32 (show_nat n) = Some n"
proof -
  have "hd (show_nat n) \<noteq> CHR ''+''"
  proof -
    have "is_digit (hd (show_nat n))" using show_nat_bytes[of "hd (show_nat n)" n] show_nat_nonempty by simp
    moreover have "\<not> is_digit (CHR ''+'')" by (simp add: is_digit_def byte_of_def)
    ultimately show ?thesis by metis
  qed
  moreover have "list_all is_digit (show_nat n)" using show_nat_bytes by (simp add: list_all_iff)
  ultimately show "n < 2 ^ 32 \<Longrightarrow> parse_u32 (show_nat n) = Some n"
    by (simp add: parse_u32_def show_nat_nonempty read_show_nat)
qed

end
