(* ===== verification/Mana_Cost.thy ===== *)
theory Mana_Cost
  imports Rust_Strings "HOL-Library.Word"
begin

text \<open>
  Mana costs, from \<open>crates/phase-ast/src/types/mana.rs\<close>: the symbols of a cost, the mana that pays
  them, the mana value and its arithmetic, and the parser of printed costs. A set of mana types is
  the \<open>u8\<close> bit mask of the source. Amounts of mana are \<open>u32\<close>, which wrap around. The lemmas give
  the round trip of printing and parsing and the laws of the mana value.
\<close>

unbundle bit_operations_syntax

section \<open>Mana\<close>

datatype mana_color = White | Blue | Black | Red | Green

definition ALL_COLORS :: "mana_color list" where
  "ALL_COLORS = [White, Blue, Black, Red, Green]"

datatype mana_type = ManaWhite | ManaBlue | ManaBlack | ManaRed | ManaGreen | ManaColorless

fun type_of_color :: "mana_color \<Rightarrow> mana_type" where
  "type_of_color White = ManaWhite"
| "type_of_color Blue = ManaBlue"
| "type_of_color Black = ManaBlack"
| "type_of_color Red = ManaRed"
| "type_of_color Green = ManaGreen"

fun mana_type_index :: "mana_type \<Rightarrow> nat" where
  "mana_type_index ManaWhite = 0"
| "mana_type_index ManaBlue = 1"
| "mana_type_index ManaBlack = 2"
| "mana_type_index ManaRed = 3"
| "mana_type_index ManaGreen = 4"
| "mana_type_index ManaColorless = 5"

type_synonym mana_type_set = "8 word"

definition type_set_of :: "mana_type \<Rightarrow> mana_type_set" where
  "type_set_of t = push_bit (mana_type_index t) 1"

definition type_set_with :: "mana_type_set \<Rightarrow> mana_type \<Rightarrow> mana_type_set" where
  "type_set_with s t = s OR push_bit (mana_type_index t) 1"

definition type_set_contains :: "mana_type_set \<Rightarrow> mana_type \<Rightarrow> bool" where
  "type_set_contains s t \<longleftrightarrow> s AND push_bit (mana_type_index t) 1 \<noteq> 0"

definition type_set_is_empty :: "mana_type_set \<Rightarrow> bool" where
  "type_set_is_empty s \<longleftrightarrow> s = 0"

definition is_subset_of :: "mana_type_set \<Rightarrow> mana_type_set \<Rightarrow> bool" where
  "is_subset_of s other \<longleftrightarrow> s AND NOT other = 0"

definition type_set_from_iter :: "mana_type list \<Rightarrow> mana_type_set" where
  "type_set_from_iter ts = foldl type_set_with 0 ts"

section \<open>The symbols of a cost\<close>

datatype mana_cost_shard =
  ShardWhite | ShardBlue | ShardBlack | ShardRed | ShardGreen | ShardColorless | ShardSnow | ShardX |
  TwoOrMoreColorSource | WhiteBlue | WhiteBlack | BlueBlack | BlueRed | BlackRed | BlackGreen | RedWhite | RedGreen |
  GreenWhite | GreenBlue | TwoWhite | TwoBlue | TwoBlack | TwoRed | TwoGreen | PhyrexianWhite | PhyrexianBlue |
  PhyrexianBlack | PhyrexianRed | PhyrexianGreen | PhyrexianWhiteBlue | PhyrexianWhiteBlack | PhyrexianBlueBlack |
  PhyrexianBlueRed | PhyrexianBlackRed | PhyrexianBlackGreen | PhyrexianRedWhite | PhyrexianRedGreen |
  PhyrexianGreenWhite | PhyrexianGreenBlue | ColorlessWhite | ColorlessBlue | ColorlessBlack | ColorlessRed |
  ColorlessGreen

primrec symbol :: "mana_cost_shard \<Rightarrow> string" where
  "symbol ShardWhite = ''W''"
| "symbol ShardBlue = ''U''"
| "symbol ShardBlack = ''B''"
| "symbol ShardRed = ''R''"
| "symbol ShardGreen = ''G''"
| "symbol ShardColorless = ''C''"
| "symbol ShardSnow = ''S''"
| "symbol ShardX = ''X''"
| "symbol TwoOrMoreColorSource = ''Z''"
| "symbol WhiteBlue = ''W/U''"
| "symbol WhiteBlack = ''W/B''"
| "symbol BlueBlack = ''U/B''"
| "symbol BlueRed = ''U/R''"
| "symbol BlackRed = ''B/R''"
| "symbol BlackGreen = ''B/G''"
| "symbol RedWhite = ''R/W''"
| "symbol RedGreen = ''R/G''"
| "symbol GreenWhite = ''G/W''"
| "symbol GreenBlue = ''G/U''"
| "symbol TwoWhite = ''2/W''"
| "symbol TwoBlue = ''2/U''"
| "symbol TwoBlack = ''2/B''"
| "symbol TwoRed = ''2/R''"
| "symbol TwoGreen = ''2/G''"
| "symbol PhyrexianWhite = ''W/P''"
| "symbol PhyrexianBlue = ''U/P''"
| "symbol PhyrexianBlack = ''B/P''"
| "symbol PhyrexianRed = ''R/P''"
| "symbol PhyrexianGreen = ''G/P''"
| "symbol PhyrexianWhiteBlue = ''W/U/P''"
| "symbol PhyrexianWhiteBlack = ''W/B/P''"
| "symbol PhyrexianBlueBlack = ''U/B/P''"
| "symbol PhyrexianBlueRed = ''U/R/P''"
| "symbol PhyrexianBlackRed = ''B/R/P''"
| "symbol PhyrexianBlackGreen = ''B/G/P''"
| "symbol PhyrexianRedWhite = ''R/W/P''"
| "symbol PhyrexianRedGreen = ''R/G/P''"
| "symbol PhyrexianGreenWhite = ''G/W/P''"
| "symbol PhyrexianGreenBlue = ''G/U/P''"
| "symbol ColorlessWhite = ''C/W''"
| "symbol ColorlessBlue = ''C/U''"
| "symbol ColorlessBlack = ''C/B''"
| "symbol ColorlessRed = ''C/R''"
| "symbol ColorlessGreen = ''C/G''"

fun announceable_halves :: "mana_cost_shard \<Rightarrow> (mana_cost_shard \<times> mana_cost_shard) option" where
  "announceable_halves WhiteBlue = Some (ShardWhite, ShardBlue)"
| "announceable_halves WhiteBlack = Some (ShardWhite, ShardBlack)"
| "announceable_halves BlueBlack = Some (ShardBlue, ShardBlack)"
| "announceable_halves BlueRed = Some (ShardBlue, ShardRed)"
| "announceable_halves BlackRed = Some (ShardBlack, ShardRed)"
| "announceable_halves BlackGreen = Some (ShardBlack, ShardGreen)"
| "announceable_halves RedWhite = Some (ShardRed, ShardWhite)"
| "announceable_halves RedGreen = Some (ShardRed, ShardGreen)"
| "announceable_halves GreenWhite = Some (ShardGreen, ShardWhite)"
| "announceable_halves GreenBlue = Some (ShardGreen, ShardBlue)"
| "announceable_halves ColorlessWhite = Some (ShardColorless, ShardWhite)"
| "announceable_halves ColorlessBlue = Some (ShardColorless, ShardBlue)"
| "announceable_halves ColorlessBlack = Some (ShardColorless, ShardBlack)"
| "announceable_halves ColorlessRed = Some (ShardColorless, ShardRed)"
| "announceable_halves ColorlessGreen = Some (ShardColorless, ShardGreen)"
| "announceable_halves _ = None"

fun single_mana_payment_types :: "mana_cost_shard \<Rightarrow> mana_type_set option" where
  "single_mana_payment_types ShardWhite = Some (type_set_of ManaWhite)"
| "single_mana_payment_types ShardBlue = Some (type_set_of ManaBlue)"
| "single_mana_payment_types ShardBlack = Some (type_set_of ManaBlack)"
| "single_mana_payment_types ShardRed = Some (type_set_of ManaRed)"
| "single_mana_payment_types ShardGreen = Some (type_set_of ManaGreen)"
| "single_mana_payment_types ShardColorless = Some (type_set_of ManaColorless)"
| "single_mana_payment_types WhiteBlue = Some (type_set_with (type_set_of ManaWhite) ManaBlue)"
| "single_mana_payment_types WhiteBlack = Some (type_set_with (type_set_of ManaWhite) ManaBlack)"
| "single_mana_payment_types BlueBlack = Some (type_set_with (type_set_of ManaBlue) ManaBlack)"
| "single_mana_payment_types BlueRed = Some (type_set_with (type_set_of ManaBlue) ManaRed)"
| "single_mana_payment_types BlackRed = Some (type_set_with (type_set_of ManaBlack) ManaRed)"
| "single_mana_payment_types BlackGreen = Some (type_set_with (type_set_of ManaBlack) ManaGreen)"
| "single_mana_payment_types RedWhite = Some (type_set_with (type_set_of ManaRed) ManaWhite)"
| "single_mana_payment_types RedGreen = Some (type_set_with (type_set_of ManaRed) ManaGreen)"
| "single_mana_payment_types GreenWhite = Some (type_set_with (type_set_of ManaGreen) ManaWhite)"
| "single_mana_payment_types GreenBlue = Some (type_set_with (type_set_of ManaGreen) ManaBlue)"
| "single_mana_payment_types ColorlessWhite = Some (type_set_with (type_set_of ManaColorless) ManaWhite)"
| "single_mana_payment_types ColorlessBlue = Some (type_set_with (type_set_of ManaColorless) ManaBlue)"
| "single_mana_payment_types ColorlessBlack = Some (type_set_with (type_set_of ManaColorless) ManaBlack)"
| "single_mana_payment_types ColorlessRed = Some (type_set_with (type_set_of ManaColorless) ManaRed)"
| "single_mana_payment_types ColorlessGreen = Some (type_set_with (type_set_of ManaColorless) ManaGreen)"
| "single_mana_payment_types _ = None"

fun contributes_to :: "mana_cost_shard \<Rightarrow> mana_color \<Rightarrow> bool" where
  "contributes_to shard White \<longleftrightarrow> shard \<in> set [
     ShardWhite, WhiteBlue, WhiteBlack, RedWhite, GreenWhite, TwoWhite, PhyrexianWhite, PhyrexianWhiteBlue,
     PhyrexianWhiteBlack, PhyrexianRedWhite, PhyrexianGreenWhite, ColorlessWhite]"
| "contributes_to shard Blue \<longleftrightarrow> shard \<in> set [
     ShardBlue, WhiteBlue, BlueBlack, BlueRed, GreenBlue, TwoBlue, PhyrexianBlue, PhyrexianWhiteBlue,
     PhyrexianBlueBlack, PhyrexianBlueRed, PhyrexianGreenBlue, ColorlessBlue]"
| "contributes_to shard Black \<longleftrightarrow> shard \<in> set [
     ShardBlack, WhiteBlack, BlueBlack, BlackRed, BlackGreen, TwoBlack, PhyrexianBlack, PhyrexianWhiteBlack,
     PhyrexianBlueBlack, PhyrexianBlackRed, PhyrexianBlackGreen, ColorlessBlack]"
| "contributes_to shard Red \<longleftrightarrow> shard \<in> set [
     ShardRed, BlueRed, BlackRed, RedWhite, RedGreen, TwoRed, PhyrexianRed, PhyrexianBlueRed, PhyrexianBlackRed,
     PhyrexianRedWhite, PhyrexianRedGreen, ColorlessRed]"
| "contributes_to shard Green \<longleftrightarrow> shard \<in> set [
     ShardGreen, BlackGreen, RedGreen, GreenWhite, GreenBlue, TwoGreen, PhyrexianGreen, PhyrexianBlackGreen,
     PhyrexianRedGreen, PhyrexianGreenWhite, PhyrexianGreenBlue, ColorlessGreen]"

fun mana_value_contribution :: "mana_cost_shard \<Rightarrow> nat" where
  "mana_value_contribution TwoWhite = 2"
| "mana_value_contribution TwoBlue = 2"
| "mana_value_contribution TwoBlack = 2"
| "mana_value_contribution TwoRed = 2"
| "mana_value_contribution TwoGreen = 2"
| "mana_value_contribution ShardX = 0"
| "mana_value_contribution _ = 1"

definition shard_symbols :: "(string \<times> mana_cost_shard) list" where
  "shard_symbols = [
     (''W'', ShardWhite), (''U'', ShardBlue), (''B'', ShardBlack), (''R'', ShardRed), (''G'', ShardGreen),
     (''C'', ShardColorless), (''S'', ShardSnow), (''X'', ShardX), (''Z'', TwoOrMoreColorSource),
     (''W/U'', WhiteBlue), (''W/B'', WhiteBlack), (''U/B'', BlueBlack), (''U/R'', BlueRed), (''B/R'', BlackRed),
     (''B/G'', BlackGreen), (''R/W'', RedWhite), (''R/G'', RedGreen), (''G/W'', GreenWhite), (''G/U'', GreenBlue),
     (''2/W'', TwoWhite), (''2/U'', TwoBlue), (''2/B'', TwoBlack), (''2/R'', TwoRed), (''2/G'', TwoGreen),
     (''W/P'', PhyrexianWhite), (''U/P'', PhyrexianBlue), (''B/P'', PhyrexianBlack), (''R/P'', PhyrexianRed),
     (''G/P'', PhyrexianGreen), (''W/U/P'', PhyrexianWhiteBlue), (''W/B/P'', PhyrexianWhiteBlack),
     (''U/B/P'', PhyrexianBlueBlack), (''U/R/P'', PhyrexianBlueRed), (''B/R/P'', PhyrexianBlackRed),
     (''B/G/P'', PhyrexianBlackGreen), (''R/W/P'', PhyrexianRedWhite), (''R/G/P'', PhyrexianRedGreen),
     (''G/W/P'', PhyrexianGreenWhite), (''G/U/P'', PhyrexianGreenBlue), (''C/W'', ColorlessWhite),
     (''C/U'', ColorlessBlue), (''C/B'', ColorlessBlack), (''C/R'', ColorlessRed), (''C/G'', ColorlessGreen)]"

definition shard_from_str :: "string \<Rightarrow> (string, mana_cost_shard) outcome" where
  "shard_from_str s =
     (case map_of shard_symbols s of
        Some shard \<Rightarrow> Ok shard
      | None \<Rightarrow> Err (''Unknown mana cost shard: '' @ s))"

section \<open>Mana costs\<close>

datatype mana_cost = NoCost | Cost "mana_cost_shard list" nat | SelfManaCost | SelfManaValue | SelfManaCostReduced nat

datatype zone = Library | Hand | Battlefield | Graveyard | Stack | Exile | Command

definition mana_zero :: mana_cost where
  "mana_zero = Cost [] 0"

fun is_without_paying_mana :: "mana_cost \<Rightarrow> bool" where
  "is_without_paying_mana NoCost = True"
| "is_without_paying_mana (Cost shards generic) = (shards = [] \<and> generic = 0)"
| "is_without_paying_mana _ = False"

fun reduced_by_generic :: "mana_cost \<Rightarrow> nat \<Rightarrow> mana_cost" where
  "reduced_by_generic (Cost shards generic) reduction = Cost shards (generic - reduction)"
| "reduced_by_generic other reduction = other"

definition generic_cost :: "nat \<Rightarrow> mana_cost" where
  "generic_cost amount = Cost [] amount"

definition shard_total :: "mana_cost_shard list \<Rightarrow> nat" where
  "shard_total shards = foldl (\<lambda>n s. add_u32 n (mana_value_contribution s)) 0 shards"

fun mana_value :: "mana_cost \<Rightarrow> nat" where
  "mana_value (Cost shards generic) = add_u32 (shard_total shards) generic"
| "mana_value _ = 0"

fun reduced_generic_by :: "mana_cost \<Rightarrow> mana_cost \<Rightarrow> mana_cost" where
  "reduced_generic_by (Cost shards generic) reduction = Cost shards (generic - mana_value reduction)"
| "reduced_generic_by other reduction = other"

fun has_x :: "mana_cost \<Rightarrow> bool" where
  "has_x (Cost shards _) = (ShardX \<in> set shards)"
| "has_x _ = False"

definition I32_MAX :: nat where
  "I32_MAX = 2 ^ 31 - 1"

fun count_colored_pips :: "mana_cost \<Rightarrow> mana_color option \<Rightarrow> nat" where
  "count_colored_pips (Cost shards _) color =
     (let n = length (filter (\<lambda>shard. case color of
                Some c \<Rightarrow> contributes_to shard c
              | None \<Rightarrow> \<exists>c\<in>set ALL_COLORS. contributes_to shard c) shards)
      in if n \<le> I32_MAX then n else I32_MAX)"
| "count_colored_pips _ _ = 0"

fun x_symbol_count :: "mana_cost \<Rightarrow> nat" where
  "x_symbol_count (Cost shards _) = length (filter (\<lambda>s. s = ShardX) shards) mod 2 ^ 32"
| "x_symbol_count _ = 0"

definition mul_u32 :: "nat \<Rightarrow> nat \<Rightarrow> nat" where
  "mul_u32 a b = a * b mod 2 ^ 32"

definition mana_value_with_x :: "mana_cost \<Rightarrow> zone \<Rightarrow> nat option \<Rightarrow> nat" where
  "mana_value_with_x cost z cost_x_paid =
     add_u32 (mana_value cost)
       (case z of
          Stack \<Rightarrow> mul_u32 (case cost_x_paid of None \<Rightarrow> 0 | Some x \<Rightarrow> x) (x_symbol_count cost)
        | _ \<Rightarrow> 0)"

fun cost_parts :: "mana_cost \<Rightarrow> mana_cost_shard list \<times> nat" where
  "cost_parts (Cost shards generic) = (shards, generic)"
| "cost_parts _ = ([], 0)"

definition mana_plus :: "mana_cost \<Rightarrow> mana_cost \<Rightarrow> mana_cost" where
  "mana_plus a b =
     (case (cost_parts a, cost_parts b) of ((a_shards, a_generic), (b_shards, b_generic)) \<Rightarrow>
        if a_shards = [] \<and> b_shards = [] \<and> a_generic = 0 \<and> b_generic = 0 then mana_zero
        else Cost (a_shards @ b_shards) (add_u32 a_generic b_generic))"

definition mana_scaled :: "mana_cost \<Rightarrow> nat \<Rightarrow> mana_cost" where
  "mana_scaled cost factor =
     (if factor = 0 then mana_zero
      else case cost of
        Cost shards generic \<Rightarrow> Cost (concat (replicate factor shards)) (mul_u32 generic factor)
      | other \<Rightarrow> other)"

fun concretize_x :: "mana_cost \<Rightarrow> nat \<Rightarrow> mana_cost" where
  "concretize_x (Cost shards generic) v =
     (let x_count = length (filter (\<lambda>s. s = ShardX) shards) in
      if x_count = 0 then Cost shards generic
      else Cost (filter (\<lambda>s. s \<noteq> ShardX) shards) (add_u32 generic (mul_u32 v (x_count mod 2 ^ 32))))"
| "concretize_x other v = other"

definition parse_symbol :: "mana_cost_shard list \<times> nat \<Rightarrow> string \<Rightarrow> mana_cost_shard list \<times> nat" where
  "parse_symbol acc segment = (case acc of (shards, generic) \<Rightarrow>
     let sym = map ascii_upper (trim_end_matches (CHR ''}'') segment) in
     case shard_from_str sym of
       Ok shard \<Rightarrow> (shards @ [shard], generic)
     | _ \<Rightarrow> (case parse_u32 sym of
         Some n \<Rightarrow> (shards, add_u32 generic n)
       | None \<Rightarrow> (shards, generic)))"

definition parse_mtgjson_mana_cost :: "string \<Rightarrow> mana_cost" where
  "parse_mtgjson_mana_cost text =
     (let s = str_trim text in
      if s = [] then NoCost
      else case foldl parse_symbol ([], 0) (filter (\<lambda>seg. seg \<noteq> []) (str_split (CHR ''{'') s)) of
        (shards, generic) \<Rightarrow> Cost shards generic)"

section \<open>Mana spent by colour\<close>

record colored_mana_count =
  mc_white :: nat
  mc_blue :: nat
  mc_black :: nat
  mc_red :: nat
  mc_green :: nat

fun spent_get :: "colored_mana_count \<Rightarrow> mana_color \<Rightarrow> nat" where
  "spent_get n White = mc_white n"
| "spent_get n Blue = mc_blue n"
| "spent_get n Black = mc_black n"
| "spent_get n Red = mc_red n"
| "spent_get n Green = mc_green n"

fun spent_add :: "colored_mana_count \<Rightarrow> mana_color \<Rightarrow> nat \<Rightarrow> colored_mana_count" where
  "spent_add n White k = n\<lparr>mc_white := add_u32 (mc_white n) k\<rparr>"
| "spent_add n Blue k = n\<lparr>mc_blue := add_u32 (mc_blue n) k\<rparr>"
| "spent_add n Black k = n\<lparr>mc_black := add_u32 (mc_black n) k\<rparr>"
| "spent_add n Red k = n\<lparr>mc_red := add_u32 (mc_red n) k\<rparr>"
| "spent_add n Green k = n\<lparr>mc_green := add_u32 (mc_green n) k\<rparr>"

fun add_unit :: "colored_mana_count \<Rightarrow> mana_type \<Rightarrow> colored_mana_count" where
  "add_unit n ManaWhite = spent_add n White 1"
| "add_unit n ManaBlue = spent_add n Blue 1"
| "add_unit n ManaBlack = spent_add n Black 1"
| "add_unit n ManaRed = spent_add n Red 1"
| "add_unit n ManaGreen = spent_add n Green 1"
| "add_unit n ManaColorless = n"

definition spent_is_empty :: "colored_mana_count \<Rightarrow> bool" where
  "spent_is_empty n \<longleftrightarrow> mc_white n = 0 \<and> mc_blue n = 0 \<and> mc_black n = 0 \<and> mc_red n = 0 \<and> mc_green n = 0"

definition distinct_colors :: "colored_mana_count \<Rightarrow> nat" where
  "distinct_colors n = length (filter (\<lambda>c. 0 < spent_get n c) ALL_COLORS)"

section \<open>The laws of the mana value\<close>

lemma add_u32_mod: "add_u32 (a mod 2 ^ 32) b = (a + b) mod 2 ^ 32" "add_u32 a (b mod 2 ^ 32) = (a + b) mod 2 ^ 32"
  by (simp_all add: add_u32_def mod_simps)

lemma shard_total_sum: "shard_total shards = sum_list (map mana_value_contribution shards) mod 2 ^ 32"
proof -
  have "foldl (\<lambda>n s. add_u32 n (mana_value_contribution s)) (k mod 2 ^ 32) shards
      = (k + sum_list (map mana_value_contribution shards)) mod 2 ^ 32" for k
  proof (induction shards arbitrary: k)
    case (Cons s shards)
    then show ?case unfolding foldl_Cons add_u32_mod(1) by (simp add: add.assoc)
  qed simp
  from this[of 0] show ?thesis by (simp add: shard_total_def)
qed

definition full_value :: "mana_cost \<Rightarrow> nat" where
  "full_value c = (case cost_parts c of (shards, generic) \<Rightarrow> sum_list (map mana_value_contribution shards) + generic)"

lemma mana_value_full: "mana_value c = full_value c mod 2 ^ 32"
  by (cases c) (simp_all add: full_value_def shard_total_sum add_u32_def mod_add_left_eq)

lemma no_x_filtered: "ShardX \<notin> set shards \<Longrightarrow> filter (\<lambda>s. s = ShardX) shards = []"
  by (induction shards) auto

lemma contribution_without_x:
  "sum_list (map mana_value_contribution (filter (\<lambda>s. s \<noteq> ShardX) shards)) = sum_list (map mana_value_contribution shards)"
  by (induction shards) auto

lemma full_value_plus: "full_value (mana_plus a b) mod 2 ^ 32 = (full_value a + full_value b) mod 2 ^ 32"
proof -
  obtain xs m ys n where parts: "cost_parts a = (xs, m)" "cost_parts b = (ys, n)" by (metis surj_pair)
  let ?v = "\<lambda>zs. sum_list (map mana_value_contribution zs)"
  have "full_value (mana_plus a b) = (?v xs + ?v ys) + (m + n) mod 2 ^ 32"
    by (auto simp: mana_plus_def parts full_value_def mana_zero_def add_u32_def)
  then show ?thesis by (simp only: mod_add_right_eq) (simp add: full_value_def parts add_ac)
qed

lemma sum_list_concat_replicate: "sum_list (map f (concat (replicate k xs))) = k * sum_list (map f xs)" for f :: "'a \<Rightarrow> nat"
  by (induction k) (simp_all add: algebra_simps)

lemma full_value_scaled: "full_value (mana_scaled c k) mod 2 ^ 32 = full_value c * k mod 2 ^ 32"
proof (cases "\<exists>shards generic. c = Cost shards generic")
  case True
  then obtain shards generic where c: "c = Cost shards generic" by blast
  have "full_value (mana_scaled c k) = k * sum_list (map mana_value_contribution shards) + generic * k mod 2 ^ 32"
    by (simp add: c mana_scaled_def full_value_def mana_zero_def mul_u32_def sum_list_concat_replicate)
  then show ?thesis by (simp only: mod_add_right_eq) (simp add: c full_value_def algebra_simps)
next
  case False
  then show ?thesis by (cases c) (auto simp: mana_scaled_def full_value_def mana_zero_def)
qed

lemma full_value_concretized:
  "full_value (concretize_x c v) mod 2 ^ 32 = (full_value c + v * length (filter (\<lambda>s. s = ShardX) (fst (cost_parts c)))) mod 2 ^ 32"
proof (cases "\<exists>shards generic. c = Cost shards generic")
  case True
  then obtain shards generic where c: "c = Cost shards generic" by blast
  let ?k = "length (filter (\<lambda>s. s = ShardX) shards)" and ?t = "sum_list (map mana_value_contribution shards)"
  have "add_u32 generic (mul_u32 v (?k mod 2 ^ 32)) = (generic + v * ?k) mod 2 ^ 32"
    by (simp only: add_u32_def mul_u32_def mod_mult_right_eq mod_add_right_eq)
  then have "full_value (concretize_x c v) = (if ?k = 0 then ?t + generic else ?t + (generic + v * ?k) mod 2 ^ 32)"
    by (simp add: c full_value_def Let_def contribution_without_x)
  then show ?thesis by (simp only: mod_add_right_eq split: if_split) (simp add: c full_value_def add_ac)
next
  case False
  then show ?thesis by (cases c) (auto simp: full_value_def)
qed

text \<open>
  The arithmetic of mana costs agrees with the mana value: adding costs adds their values,
  scaling multiplies, and fixing X to a number gives the value the cost has on the stack with that
  X and leaves no X behind, all modulo the width of the counter.
\<close>

lemma mana_value_laws:
  shows "mana_value (mana_plus a b) = add_u32 (mana_value a) (mana_value b)
    \<and> mana_value (mana_scaled a k) = mul_u32 (mana_value a) k
    \<and> mana_value (concretize_x a v) = mana_value_with_x a Stack (Some v)
    \<and> \<not> has_x (concretize_x a v)
    \<and> (\<forall>paid. mana_value_with_x (concretize_x a v) Stack paid = mana_value (concretize_x a v))"
proof (intro conjI allI)
  show "mana_value (mana_plus a b) = add_u32 (mana_value a) (mana_value b)"
    by (simp only: mana_value_full full_value_plus add_u32_def mod_add_eq)
  show "mana_value (mana_scaled a k) = mul_u32 (mana_value a) k"
    by (simp only: mana_value_full full_value_scaled mul_u32_def mod_mult_left_eq)
  have x: "x_symbol_count a = length (filter (\<lambda>s. s = ShardX) (fst (cost_parts a))) mod 2 ^ 32" by (cases a) auto
  show "mana_value (concretize_x a v) = mana_value_with_x a Stack (Some v)"
    by (simp only: mana_value_full full_value_concretized mana_value_with_x_def zone.case option.case x
        add_u32_def mul_u32_def mod_add_left_eq mod_add_right_eq mod_mult_right_eq)
  show no: "\<not> has_x (concretize_x a v)" by (cases a) (auto simp: Let_def filter_empty_conv)
  have "x_symbol_count (concretize_x a v) = 0" using no by (cases "concretize_x a v") (auto simp: no_x_filtered)
  then show "mana_value_with_x (concretize_x a v) Stack paid = mana_value (concretize_x a v)" for paid
    by (simp add: mana_value_with_x_def mul_u32_def add_u32_def mana_value_full)
qed

section \<open>Printed costs\<close>

datatype cost_symbol = Symbol mana_cost_shard | Numeral nat

fun print_symbol :: "cost_symbol \<Rightarrow> string" where
  "print_symbol (Symbol shard) = symbol shard"
| "print_symbol (Numeral n) = show_nat n"

definition print_symbols :: "cost_symbol list \<Rightarrow> string" where
  "print_symbols syms = concat (map (\<lambda>t. ''{'' @ print_symbol t @ ''}'') syms)"

definition print_mana_cost :: "mana_cost_shard list \<Rightarrow> nat \<Rightarrow> string" where
  "print_mana_cost shards generic =
     print_symbols ((if generic = 0 \<and> shards \<noteq> [] then [] else [Numeral generic]) @ map Symbol shards)"

fun symbol_shards :: "cost_symbol \<Rightarrow> mana_cost_shard list" where
  "symbol_shards (Symbol shard) = [shard]"
| "symbol_shards (Numeral n) = []"

fun symbol_generic :: "cost_symbol \<Rightarrow> nat" where
  "symbol_generic (Symbol shard) = 0"
| "symbol_generic (Numeral n) = n"

definition token :: "string \<Rightarrow> bool" where
  "token t \<longleftrightarrow> list_all (\<lambda>c. c \<noteq> CHR ''{'' \<and> c \<noteq> CHR ''}'' \<and> ascii_upper c = c) t"

lemma shard_from_symbol: "shard_from_str (symbol shard) = Ok shard"
  by (cases shard; simp add: shard_from_str_def shard_symbols_def)

lemma symbol_of_parsed: "shard_from_str s = Ok shard \<Longrightarrow> symbol shard = s"
proof -
  have all: "list_all (\<lambda>(t, shard). symbol shard = t) shard_symbols" by (simp add: shard_symbols_def)
  assume "shard_from_str s = Ok shard"
  then have "(s, shard) \<in> set shard_symbols" by (auto simp: shard_from_str_def split: option.splits dest: map_of_SomeD)
  with all show ?thesis by (auto simp: list_all_iff)
qed

lemma symbol_token: "token (symbol shard)"
  by (cases shard; simp add: token_def ascii_upper_def byte_of_def)

lemma symbol_not_number: "\<exists>c\<in>set (symbol shard). \<not> is_digit c"
  by (cases shard; simp add: is_digit_def byte_of_def)

lemma digits_token:
  assumes "\<forall>c\<in>set t. is_digit c"
  shows "token t"
proof -
  have "\<not> is_digit (CHR ''{'')" "\<not> is_digit (CHR ''}'')" by (simp_all add: is_digit_def byte_of_def)
  moreover have "ascii_upper c = c" if "is_digit c" for c using that by (simp add: is_digit_def ascii_upper_def)
  ultimately have "c \<noteq> CHR ''{'' \<and> c \<noteq> CHR ''}'' \<and> ascii_upper c = c" if "c \<in> set t" for c using assms that by blast
  then show ?thesis by (simp add: token_def list_all_iff)
qed

lemma show_nat_no_shard: "shard_from_str (show_nat n) = Err (''Unknown mana cost shard: '' @ show_nat n)"
proof (cases "map_of shard_symbols (show_nat n)")
  case (Some shard)
  then have "symbol shard = show_nat n" using symbol_of_parsed by (simp add: shard_from_str_def)
  with symbol_not_number[of shard] show_nat_bytes[of _ n] show ?thesis by auto
qed (simp add: shard_from_str_def)

lemma print_symbol_token: "token (print_symbol t)"
  using symbol_token digits_token show_nat_bytes by (cases t) auto

lemma trim_end_token:
  assumes "token t"
  shows "map ascii_upper (trim_end_matches (CHR ''}'') (t @ ''}'')) = t"
proof -
  have "hd (rev t) \<noteq> CHR ''}''" if "t \<noteq> []"
    using that assms hd_in_set[of "rev t"] by (auto simp: token_def list_all_iff)
  then have "dropWhile (\<lambda>x. x = CHR ''}'') (rev t) = rev t" by (auto simp: dropWhile_eq_self_iff)
  with assms show ?thesis by (simp add: trim_end_matches_def token_def list_all_iff map_idI)
qed

lemma parse_printed_symbol:
  assumes "symbol_generic t < 2 ^ 32" "generic < 2 ^ 32"
  shows "parse_symbol (shards, generic) (print_symbol t @ ''}'') = (shards @ symbol_shards t, (generic + symbol_generic t) mod 2 ^ 32)"
proof (cases t)
  case (Symbol shard)
  with assms trim_end_token[OF symbol_token, of shard] show ?thesis by (simp add: parse_symbol_def shard_from_symbol)
next
  case (Numeral n)
  with assms trim_end_token[OF print_symbol_token, of t] show ?thesis
    by (simp add: parse_symbol_def show_nat_no_shard parse_u32_show add_u32_def)
qed

lemma parse_printed_symbols:
  assumes "list_all (\<lambda>t. symbol_generic t < 2 ^ 32) syms" "generic < 2 ^ 32"
  shows "foldl parse_symbol (shards, generic) (map (\<lambda>t. print_symbol t @ ''}'') syms)
    = (shards @ concat (map symbol_shards syms), (generic + sum_list (map symbol_generic syms)) mod 2 ^ 32)"
  using assms
proof (induction syms arbitrary: shards generic)
  case (Cons t syms)
  then have "symbol_generic t < 2 ^ 32" by simp
  from parse_printed_symbol[OF this Cons.prems(2)] Cons.IH[of "(generic + symbol_generic t) mod 2 ^ 32"] Cons.prems(1)
  show ?case by (simp add: mod_add_left_eq add.assoc)
qed simp

lemma split_at: "c \<notin> set t \<Longrightarrow> str_split c (t @ c # s) = t # str_split c s"
  by (induction t) auto

lemma split_whole: "c \<notin> set t \<Longrightarrow> str_split c t = [t]"
  by (induction t) auto

lemma split_printed:
  "str_split (CHR ''{'') (print_symbols syms) = [] # map (\<lambda>t. print_symbol t @ ''}'') syms"
proof -
  have no: "CHR ''{'' \<notin> set (print_symbol t @ ''}'')" for t
    using print_symbol_token[of t] by (auto simp: token_def list_all_iff)
  have "str_split (CHR ''{'') (p @ print_symbols syms) = p # map (\<lambda>t. print_symbol t @ ''}'') syms" if "CHR ''{'' \<notin> set p" for p
    using that
  proof (induction syms arbitrary: p)
    case Nil
    then show ?case by (simp add: print_symbols_def split_whole)
  next
    case (Cons t syms)
    from split_at[OF Cons.prems, of "(print_symbol t @ ''}'') @ print_symbols syms"] Cons.IH[OF no, of t] show ?case
      by (simp add: print_symbols_def)
  qed
  from this[of "[]"] show ?thesis by simp
qed

lemma print_symbols_clean:
  assumes "syms \<noteq> []"
  shows "clean (print_symbols syms)"
proof -
  obtain t ts where t: "syms = t # ts" using assms by (cases syms) auto
  obtain u us where u: "syms = us @ [u]" using assms by (metis rev_exhaust)
  have br: "is_ascii (CHR ''{'')" "is_ascii (CHR ''}'')" "\<not> ascii_ws (CHR ''{'')" "\<not> ascii_ws (CHR ''}'')"
    by (simp_all add: is_ascii_def ascii_ws_def byte_of_def)
  have "ws_lead (print_symbols syms) = 0" by (simp add: t print_symbols_def ws_ascii(1)[OF br(1)] br)
  moreover have "ws_trail (rev (print_symbols syms)) = 0" by (simp add: u print_symbols_def ws_ascii(2)[OF br(2)] br)
  ultimately show ?thesis by (simp add: clean_def t print_symbols_def)
qed

lemma parse_printed:
  assumes "list_all (\<lambda>t. symbol_generic t < 2 ^ 32) syms" "syms \<noteq> []"
  shows "parse_mtgjson_mana_cost (print_symbols syms)
    = Cost (concat (map symbol_shards syms)) (sum_list (map symbol_generic syms) mod 2 ^ 32)"
proof -
  have "print_symbols syms \<noteq> []" using print_symbols_clean[OF assms(2)] by (simp add: clean_def)
  moreover have "filter (\<lambda>seg. seg \<noteq> []) (map (\<lambda>t. print_symbol t @ ''}'') syms) = map (\<lambda>t. print_symbol t @ ''}'') syms"
    by (simp add: filter_id_conv)
  ultimately show ?thesis using parse_printed_symbols[OF assms(1), of 0 "[]"]
    by (simp add: parse_mtgjson_mana_cost_def trim_clean(1)[OF print_symbols_clean[OF assms(2)]] split_printed)
qed

text \<open>
  C40. Printed mana costs. A symbol string is accepted for exactly one symbol, its printed form; a
  printed sequence of symbols and numbers parses to the symbols in their order and the sum of the
  numbers, wherever the numbers stand; so a cost is recovered from its printed form, and only an
  empty text is no cost at all.
\<close>

theorem mana_cost_roundtrip:
  assumes "list_all (\<lambda>t. symbol_generic t < 2 ^ 32) syms" "syms \<noteq> []" "generic < 2 ^ 32"
  shows "(shard_from_str s = Ok shard \<longleftrightarrow> s = symbol shard)
    \<and> parse_mtgjson_mana_cost (print_symbols syms)
        = Cost (concat (map symbol_shards syms)) (sum_list (map symbol_generic syms) mod 2 ^ 32)
    \<and> parse_mtgjson_mana_cost (print_mana_cost shards generic) = Cost shards generic
    \<and> parse_mtgjson_mana_cost [] = NoCost"
proof -
  have z: "sum_list (map (symbol_generic \<circ> Symbol) shards) = 0" by (induction shards) auto
  have "concat (map symbol_shards (map Symbol shards)) = shards" "list_all (\<lambda>t. symbol_generic t < 2 ^ 32) (map Symbol shards)" by (induction shards) auto
  with assms(3) parse_printed[of "(if generic = 0 \<and> shards \<noteq> [] then [] else [Numeral generic]) @ map Symbol shards"]
  have "parse_mtgjson_mana_cost (print_mana_cost shards generic) = Cost shards generic" by (auto simp: print_mana_cost_def z)
  moreover have "parse_mtgjson_mana_cost [] = NoCost" by code_simp
  ultimately show ?thesis using parse_printed[OF assms(1,2)] shard_from_symbol symbol_of_parsed by blast
qed

theorem mana_cost_roundtrip_witness:
  "parse_mtgjson_mana_cost ''{2}{W/U/P}{X}{3}'' = Cost [PhyrexianWhiteBlue, ShardX] 5
   \<and> parse_mtgjson_mana_cost (print_mana_cost [GreenBlue] 4) = Cost [GreenBlue] 4"
proof -
  let ?syms = "[Numeral 2, Symbol PhyrexianWhiteBlue, Symbol ShardX, Numeral 3]"
  have "print_symbols ?syms = ''{2}{W/U/P}{X}{3}''" by code_simp
  with mana_cost_roundtrip[of ?syms 4 "[]" ShardX "[GreenBlue]"] show ?thesis by simp
qed

end
