(* ===== verification/Booster.thy ===== *)
theory Booster
  imports Fifo_Session
begin

text \<open>
  Booster generation: the set pools of \<open>crates/draft-core/src/set_pool.rs\<close> and the generator of
  \<open>pack_generator.rs\<close>, a \<open>PackSource\<close>. A pool names weighted pack variants whose slots draw cards
  from weighted sheets; a generator holds the pools of a draft and the pool of every booster, one per
  round or, for a Chaos draft, one per seat and round. The random draw is the parameter
  \<open>random_range\<close>; a draw from an empty range and every index out of bounds is a panic. The lemmas
  show what the weighted selections return, that a generator built by one of its constructors opens
  boosters of the declared size from the right set, and that it keeps the promise of a pack source.
\<close>

section \<open>Set pools\<close>

datatype rarity = RarityCommon | RarityUncommon | RarityRare | RarityMythic | RaritySpecial | RarityBonus

record weighted_sheet_choice =
  wc_sheet :: string
  wc_weight :: nat

record pack_slot =
  sl_slot :: string
  sl_count :: nat
  sl_choices :: "weighted_sheet_choice list"

record sheet_card =
  sc_name :: string
  sc_set_code :: string
  sc_collector_number :: string
  sc_rarity :: rarity
  sc_weight :: nat
  sc_colors :: "string list"
  sc_cmc :: nat
  sc_type_line :: string
  sc_draft_effect :: "draft_effect option"

record sheet_definition =
  sh_cards :: "sheet_card list"
  sh_total_weight :: nat
  sh_allow_duplicates :: bool
  sh_fixed :: bool
  sh_foil :: bool
  sh_balance_colors :: bool

record pack_variant =
  pv_contents :: "pack_slot list"
  pv_weight :: nat

record limited_card_print =
  pp_print_id :: string
  pp_name :: string
  pp_set_code :: string
  pp_collector_number :: string
  pp_rarity :: rarity
  pp_booster_eligible :: bool

record limited_set_pool =
  lp_code :: string
  lp_name :: string
  lp_release_date :: "string option"
  lp_pack_variants :: "pack_variant list"
  lp_pack_variants_total_weight :: nat
  lp_sheets :: "(string, sheet_definition) fmap"
  lp_prints :: "limited_card_print list"
  lp_basic_lands :: "string list"

definition normalize_slot :: "pack_slot \<Rightarrow> pack_slot" where
  "normalize_slot slot = (if sl_slot slot = ''uncommon'' \<and> sl_count slot < 2 then slot\<lparr>sl_count := 2\<rparr> else slot)"

definition normalize_pack_variants :: "string \<Rightarrow> pack_variant list \<Rightarrow> pack_variant list" where
  "normalize_pack_variants set_code pack_variants =
     (if eq_ignore_ascii_case set_code ''UGL''
      then map (\<lambda>variant. variant\<lparr>pv_contents := map normalize_slot (pv_contents variant)\<rparr>) pack_variants
      else pack_variants)"

definition normalize_pool :: "limited_set_pool \<Rightarrow> limited_set_pool" where
  "normalize_pool pool = pool\<lparr>lp_pack_variants := normalize_pack_variants (lp_code pool) (lp_pack_variants pool)\<rparr>"

definition sum_u16 :: "nat list \<Rightarrow> nat" where
  "sum_u16 ns = foldl (\<lambda>a b. (a + b) mod 2 ^ 16) 0 ns"

definition cards_per_pack :: "limited_set_pool \<Rightarrow> nat option" where
  "cards_per_pack pool =
     (case map (\<lambda>variant. sum_u16 (map sl_count (pv_contents variant))) (lp_pack_variants pool) of
        [] \<Rightarrow> None
      | declared # sizes \<Rightarrow> if list_all (\<lambda>other. other = declared) sizes then try_u8 declared else None)"

section \<open>Weighted selection\<close>

definition sub_u64 :: "nat \<Rightarrow> nat \<Rightarrow> nat" where
  "sub_u64 a b = (a + 2 ^ 64 - b) mod 2 ^ 64"

definition sum_u64 :: "nat list \<Rightarrow> nat" where
  "sum_u64 ws = foldl add_u64 0 ws"

fun weighted_scan :: "nat \<Rightarrow> nat \<Rightarrow> (nat \<times> nat) list \<Rightarrow> nat" where
  "weighted_scan roll cumulative [] = 0"
| "weighted_scan roll cumulative ((idx, w) # weights) =
     (let cumulative' = add_u64 cumulative w in
      if roll < cumulative' then idx else weighted_scan roll cumulative' weights)"

definition weighted_select ::
  "('r \<Rightarrow> nat \<Rightarrow> nat \<times> 'r) \<Rightarrow> nat \<Rightarrow> (nat \<times> nat) list \<Rightarrow> 'r \<Rightarrow> nat draft_result \<times> 'r" where
  "weighted_select random_range total_weight weights rng =
     draw_then (random_below random_range total_weight rng) (\<lambda>roll rng1. (Ok (weighted_scan roll 0 weights), rng1))"

definition swap_remove :: "nat \<Rightarrow> 'a list \<Rightarrow> 'a list" where
  "swap_remove i xs = butlast (xs[i := last xs])"

fun draw_positions ::
  "('r \<Rightarrow> nat \<Rightarrow> nat \<times> 'r) \<Rightarrow> nat \<Rightarrow> (nat \<times> nat) list \<Rightarrow> nat \<Rightarrow> 'r \<Rightarrow> nat list draft_result \<times> 'r" where
  "draw_positions random_range 0 pool remaining rng = (Ok [], rng)"
| "draw_positions random_range (Suc n) pool remaining rng =
     draw_then (random_below random_range remaining rng) (\<lambda>roll rng1.
       let pick_pos = weighted_scan roll 0 (map (\<lambda>(pos, entry). (pos, snd entry)) (List.enumerate 0 pool)) in
       draw_then (index pool pick_pos, rng1) (\<lambda>(orig_idx, weight) rng2.
       draw_then (draw_positions random_range n (swap_remove pick_pos pool) (sub_u64 remaining weight) rng2) (\<lambda>result rng3.
         (Ok (orig_idx # result), rng3))))"

definition printing :: "sheet_card \<Rightarrow> string \<times> string" where
  "printing c = (sc_set_code c, sc_collector_number c)"

definition weighted_select_n_excluding ::
  "('r \<Rightarrow> nat \<Rightarrow> nat \<times> 'r) \<Rightarrow> sheet_definition \<Rightarrow> nat \<Rightarrow> (string \<times> string) list \<Rightarrow> 'r \<Rightarrow> nat list draft_result \<times> 'r" where
  "weighted_select_n_excluding random_range sheet cnt exclude rng =
     (let pool = map (\<lambda>(i, c). (i, sc_weight c))
            (filter (\<lambda>(_, c). printing c \<notin> set exclude) (List.enumerate 0 (sh_cards sheet)))
      in draw_positions random_range (min cnt (length pool)) pool (sum_u64 (map snd pool)) rng)"

definition weighted_select_n ::
  "('r \<Rightarrow> nat \<Rightarrow> nat \<times> 'r) \<Rightarrow> sheet_definition \<Rightarrow> nat \<Rightarrow> 'r \<Rightarrow> nat list draft_result \<times> 'r" where
  "weighted_select_n random_range sheet cnt rng = weighted_select_n_excluding random_range sheet cnt [] rng"

definition select_sheet_cards ::
  "('r \<Rightarrow> nat \<Rightarrow> nat \<times> 'r) \<Rightarrow> sheet_definition \<Rightarrow> nat \<Rightarrow> 'r \<Rightarrow> nat list draft_result \<times> 'r" where
  "select_sheet_cards random_range sheet cnt rng =
     (if sh_fixed sheet
      then (Ok (concat (map (\<lambda>(i, c). replicate (sc_weight c) i) (List.enumerate 0 (sh_cards sheet)))), rng)
      else if sh_allow_duplicates sheet
      then draw_map (\<lambda>_. weighted_select random_range (sh_total_weight sheet)
             (map (\<lambda>(i, c). (i, sc_weight c)) (List.enumerate 0 (sh_cards sheet)))) [0..<cnt] rng
      else weighted_select_n random_range sheet cnt rng)"

section \<open>The generator\<close>

datatype generator_layout = UniformPools "nat list" | ChaosPools "nat list list"

record pack_generator =
  pg_pools :: "limited_set_pool list"
  pg_layout :: generator_layout

definition generator_new :: "limited_set_pool \<Rightarrow> pack_generator" where
  "generator_new set_pool = \<lparr>pg_pools = [normalize_pool set_pool], pg_layout = UniformPools [0]\<rparr>"

definition pool_index :: "limited_set_pool list \<Rightarrow> string \<Rightarrow> nat draft_result" where
  "pool_index pools code =
     ok_or (InvalidPackSequence (''no pool data was supplied for set '' @ [CHR 0x27] @ code @ [CHR 0x27]))
       (position (\<lambda>pool. eq_ignore_ascii_case (lp_code pool) code) pools)"

definition for_sequence :: "limited_set_pool list \<Rightarrow> string list \<Rightarrow> pack_generator draft_result" where
  "for_sequence pools0 sequence =
     (let pools = map normalize_pool pools0 in
      and_then (ensure (sequence \<noteq> []) (InvalidPackSequence ''a draft must open at least one pack'')) (\<lambda>_.
      and_then (try_map (pool_index pools) sequence) (\<lambda>resolved.
        Ok \<lparr>pg_pools = pools, pg_layout = UniformPools resolved\<rparr>)))"

definition chaos_assignments ::
  "(nat \<Rightarrow> 'r) \<Rightarrow> ('r \<Rightarrow> nat \<Rightarrow> nat \<times> 'r) \<Rightarrow> string list \<Rightarrow> nat \<Rightarrow> nat \<Rightarrow> nat \<Rightarrow> string list list draft_result" where
  "chaos_assignments seed_from random_range candidate_codes seat_count pack_count rng_seed =
     (if candidate_codes = [] then Err (InvalidPackSequence ''a Chaos draft must name at least one candidate set'')
      else fst (draw_map (\<lambda>_. draw_map (\<lambda>_ rng.
             draw_then (random_below random_range (length candidate_codes) rng) (\<lambda>i rng1. (index candidate_codes i, rng1)))
             [0..<pack_count]) [0..<seat_count] (seed_from rng_seed)))"

definition check_candidate ::
  "limited_set_pool list \<Rightarrow> string \<Rightarrow> nat option \<Rightarrow> nat option draft_result" where
  "check_candidate pools candidate declared_pack_size =
     and_then (pool_index pools candidate) (\<lambda>i.
     and_then (index pools i) (\<lambda>pool.
     and_then (ok_or (InvalidPackSequence (''Chaos candidate set '' @ [CHR 0x27] @ lp_code pool @ [CHR 0x27]
            @ '' has no single MTGJSON pack size across its booster variants'')) (cards_per_pack pool)) (\<lambda>declared.
       case declared_pack_size of
         Some expected \<Rightarrow>
           if expected \<noteq> declared
           then Err (InvalidPackSequence (''Chaos candidate sets must share one MTGJSON pack size; '' @ lp_code pool
                  @ '' has '' @ show_nat declared @ '', expected '' @ show_nat expected))
           else Ok (Some expected)
       | None \<Rightarrow> Ok (Some declared))))"

definition resolve_assignment ::
  "limited_set_pool list \<Rightarrow> string list \<Rightarrow> nat \<Rightarrow> string \<Rightarrow> nat draft_result" where
  "resolve_assignment pools candidate_codes seat code =
     (if \<not> list_ex (\<lambda>candidate. eq_ignore_ascii_case candidate code) candidate_codes
      then Err (InvalidPackSequence (''Chaos assignment '' @ [CHR 0x27] @ code @ [CHR 0x27] @ '' for seat ''
             @ show_nat seat @ '' is not a candidate set''))
      else pool_index pools code)"

definition for_chaos ::
  "limited_set_pool list \<Rightarrow> string list \<Rightarrow> string list list \<Rightarrow> nat \<Rightarrow> nat \<Rightarrow> pack_generator draft_result" where
  "for_chaos pools0 candidate_codes assignments seat_count pack_count =
     (let pools = map normalize_pool pools0 in
      and_then (ensure (candidate_codes \<noteq> [])
        (InvalidPackSequence ''a Chaos draft must name at least one candidate set'')) (\<lambda>_.
      and_then (ensure (length assignments = seat_count \<and> list_all (\<lambda>rounds. length rounds = pack_count) assignments)
        (InvalidPackSequence ''Chaos assignments must be exact seat-by-round entries'')) (\<lambda>_.
      and_then (try_fold (check_candidate pools) candidate_codes None) (\<lambda>_.
      and_then (try_map (\<lambda>(seat, rounds). try_map (resolve_assignment pools candidate_codes seat) rounds)
        (List.enumerate 0 assignments)) (\<lambda>resolved.
        Ok \<lparr>pg_pools = pools, pg_layout = ChaosPools resolved\<rparr>)))))"

definition pool_for_pack :: "pack_generator \<Rightarrow> nat \<Rightarrow> nat \<Rightarrow> limited_set_pool draft_result" where
  "pool_for_pack gen seat pack_number =
     (case (case pg_layout gen of
              UniformPools sequence \<Rightarrow> entry_for_pack sequence pack_number
            | ChaosPools assignments \<Rightarrow> Option.bind (nth_opt assignments seat) (\<lambda>rounds. nth_opt rounds pack_number)) of
        None \<Rightarrow> Panic
      | Some i \<Rightarrow> index (pg_pools gen) i)"

definition select_variant ::
  "('r \<Rightarrow> nat \<Rightarrow> nat \<times> 'r) \<Rightarrow> limited_set_pool \<Rightarrow> 'r \<Rightarrow> pack_variant draft_result \<times> 'r" where
  "select_variant random_range pool rng =
     draw_then (weighted_select random_range (lp_pack_variants_total_weight pool)
       (map (\<lambda>(i, v). (i, pv_weight v)) (List.enumerate 0 (lp_pack_variants pool))) rng) (\<lambda>idx rng1.
         (index (lp_pack_variants pool) idx, rng1))"

definition resolve_sheet_name ::
  "('r \<Rightarrow> nat \<Rightarrow> nat \<times> 'r) \<Rightarrow> weighted_sheet_choice list \<Rightarrow> 'r \<Rightarrow> string draft_result \<times> 'r" where
  "resolve_sheet_name random_range choices rng =
     (if length choices = 1 then (Ok (wc_sheet (choices ! 0)), rng)
      else draw_then (weighted_select random_range (sum_u64 (map wc_weight choices))
        (map (\<lambda>(i, c). (i, wc_weight c)) (List.enumerate 0 choices)) rng) (\<lambda>idx rng1.
          draw_then (index choices idx, rng1) (\<lambda>choice rng2. (Ok (wc_sheet choice), rng2))))"

fun last_max :: "('a \<Rightarrow> nat) \<Rightarrow> 'a list \<Rightarrow> 'a option" where
  "last_max key [] = None"
| "last_max key (x # xs) =
     (case last_max key xs of None \<Rightarrow> Some x | Some y \<Rightarrow> if key x \<le> key y then Some y else Some x)"

definition backfill_sheet :: "limited_set_pool \<Rightarrow> pack_variant \<Rightarrow> sheet_definition option" where
  "backfill_sheet pool variant =
     last_max (\<lambda>sheet. length (sh_cards sheet))
       (filter (\<lambda>sheet. \<not> sh_foil sheet \<and> sh_cards sheet \<noteq> [])
         (List.map_filter (\<lambda>choice. fmlookup (lp_sheets pool) (wc_sheet choice))
           (concat (map sl_choices (pv_contents variant)))))"

definition draw_slot ::
  "('r \<Rightarrow> nat \<Rightarrow> nat \<times> 'r) \<Rightarrow> limited_set_pool \<Rightarrow> pack_slot \<Rightarrow> 'r \<Rightarrow> sheet_card list draft_result \<times> 'r" where
  "draw_slot random_range pool slot rng =
     draw_then (resolve_sheet_name random_range (sl_choices slot) rng) (\<lambda>sheet_name rng1.
       case fmlookup (lp_sheets pool) sheet_name of
         None \<Rightarrow> (Ok [], rng1)
       | Some sheet \<Rightarrow>
           draw_then (select_sheet_cards random_range sheet (sl_count slot) rng1) (\<lambda>idxs rng2.
             (try_map (index (sh_cards sheet)) idxs, rng2)))"

definition top_up ::
  "('r \<Rightarrow> nat \<Rightarrow> nat \<times> 'r) \<Rightarrow> limited_set_pool \<Rightarrow> pack_variant \<Rightarrow> nat \<Rightarrow> sheet_card list \<Rightarrow> 'r
   \<Rightarrow> sheet_card list draft_result \<times> 'r" where
  "top_up random_range pool variant target_size picks rng =
     (if length picks < target_size
      then case backfill_sheet pool variant of
        None \<Rightarrow> (Ok picks, rng)
      | Some sheet \<Rightarrow>
          draw_then (weighted_select_n_excluding random_range sheet (target_size - length picks) (map printing picks) rng)
            (\<lambda>extra rng1. draw_then (try_map (index (sh_cards sheet)) extra, rng1) (\<lambda>cards rng2. (Ok (picks @ cards), rng2)))
      else (Ok picks, rng))"

fun rarity_name :: "rarity \<Rightarrow> string" where
  "rarity_name RarityCommon = ''common''"
| "rarity_name RarityUncommon = ''uncommon''"
| "rarity_name RarityRare = ''rare''"
| "rarity_name RarityMythic = ''mythic''"
| "rarity_name RaritySpecial = ''special''"
| "rarity_name RarityBonus = ''bonus''"

definition booster_card :: "string \<Rightarrow> nat \<Rightarrow> nat \<Rightarrow> nat \<times> sheet_card \<Rightarrow> draft_card_instance" where
  "booster_card code seat pack_number entry = (case entry of (card_index, c) \<Rightarrow> \<lparr>
     ci_instance_id = code @ ''-'' @ show_nat seat @ ''-'' @ show_nat pack_number @ ''-'' @ show_nat card_index,
     ci_name = sc_name c, ci_set_code = sc_set_code c, ci_collector_number = sc_collector_number c,
     ci_rarity = rarity_name (sc_rarity c), ci_colors = sc_colors c, ci_cmc = sc_cmc c,
     ci_type_line = sc_type_line c, ci_draft_effect = sc_draft_effect c\<rparr>)"

definition generator_generate_pack ::
  "('r \<Rightarrow> nat \<Rightarrow> nat \<times> 'r) \<Rightarrow> pack_generator \<Rightarrow> 'r pack_opener" where
  "generator_generate_pack random_range gen rng seat pack_number =
     draw_then (pool_for_pack gen seat pack_number, rng) (\<lambda>pool rng0.
     draw_then (select_variant random_range pool rng0) (\<lambda>variant rng1.
     let target_size = sum_list (map sl_count (pv_contents variant)) in
     draw_then (draw_map (draw_slot random_range pool) (pv_contents variant) rng1) (\<lambda>slots rng2.
     draw_then (top_up random_range pool variant target_size (concat slots) rng2) (\<lambda>picks rng3.
       (Ok (map (booster_card (lp_code pool) seat pack_number) (List.enumerate 0 picks)), rng3)))))"

definition generator_source :: "('r \<Rightarrow> nat \<Rightarrow> nat \<times> 'r) \<Rightarrow> pack_generator \<Rightarrow> 'r pack_source" where
  "generator_source random_range gen = \<lparr>ps_booster_pack_pool = None,
     ps_generate_packs = default_generate_packs (generator_generate_pack random_range gen)\<rparr>"

section \<open>What the weighted selections return\<close>

lemma sub_u64_id [simp]: "b \<le> a \<Longrightarrow> a < 2 ^ 64 \<Longrightarrow> sub_u64 a b = a - b"
  by (simp add: sub_u64_def mod_if)

lemma sum_u64_id: "sum_list ws < 2 ^ 64 \<Longrightarrow> sum_u64 ws = sum_list ws"
proof -
  have "c + sum_list ws < 2 ^ 64 \<Longrightarrow> foldl add_u64 c ws = c + sum_list ws" for c
    by (induction ws arbitrary: c) simp_all
  from this[of 0] show "sum_list ws < 2 ^ 64 \<Longrightarrow> sum_u64 ws = sum_list ws" by (simp add: sum_u64_def)
qed

lemma weighted_scan_in: "weighted_scan roll c ws \<in> insert 0 (fst ` set ws)"
  by (induction roll c ws rule: weighted_scan.induct) (auto simp: Let_def)

lemma weighted_scan_less:
  "xs \<noteq> [] \<Longrightarrow> weighted_scan roll 0 (map (\<lambda>(i, x). (i, f x)) (List.enumerate 0 xs)) < length xs"
  using weighted_scan_in[of roll 0 "map (\<lambda>(i, x). (i, f x)) (List.enumerate 0 xs)"]
  by (auto simp: in_set_enumerate_eq)

lemma weighted_scan_at:
  assumes "c + sum_list ws < 2 ^ 64" "i < length ws" "c + sum_list (take i ws) \<le> roll" "roll < c + sum_list (take (Suc i) ws)"
  shows "weighted_scan roll c (List.enumerate k ws) = k + i"
  using assms
proof (induction ws arbitrary: c k i)
  case (Cons w ws)
  have w: "add_u64 c w = c + w" using Cons.prems(1) by simp
  show ?case
  proof (cases i)
    case 0
    then show ?thesis using w Cons.prems by simp
  next
    case (Suc j)
    then have "\<not> roll < c + w" using Cons.prems(3) by simp
    then show ?thesis using w Suc Cons.IH[of "c + w" j "Suc k"] Cons.prems by (simp add: add.assoc)
  qed
qed simp

lemma roll_interval:
  "roll < sum_list ws \<Longrightarrow> \<exists>i<length ws. sum_list (take i ws) \<le> roll \<and> roll < sum_list (take (Suc i) ws)" for roll :: nat
proof (induction ws arbitrary: roll)
  case (Cons w ws)
  show ?case
  proof (cases "roll < w")
    case False
    with Cons.prems have "roll - w < sum_list ws" by simp
    from Cons.IH[OF this] obtain i where "i < length ws" "sum_list (take i ws) \<le> roll - w" "roll - w < sum_list (take (Suc i) ws)"
      by blast
    with False show ?thesis by (intro exI[of _ "Suc i"]) auto
  qed (auto intro!: exI[of _ 0])
qed simp

lemma draws_weighted_select:
  "ranges random_range \<Longrightarrow> 0 < n \<Longrightarrow> xs \<noteq> []
   \<Longrightarrow> draws (\<lambda>i. i < length xs) (weighted_select random_range n (map (\<lambda>(i, x). (i, f x)) (List.enumerate 0 xs)) rng)"
  unfolding weighted_select_def
  by (rule draws_then[OF draws_random_below]) (auto intro: weighted_scan_less)

lemma swap_remove_set:
  assumes "i < length xs"
  shows "mset (swap_remove i xs) = mset xs - {#xs ! i#}" "length (swap_remove i xs) = length xs - 1"
proof -
  from assms obtain ys z where xs: "xs = ys @ [z]" by (cases xs rule: rev_cases) auto
  show "mset (swap_remove i xs) = mset xs - {#xs ! i#}"
  proof (cases "i = length ys")
    case False
    with assms xs have i: "i < length ys" by simp
    then have "mset (ys[i := z]) = add_mset z (mset ys - {#ys ! i#})" by (rule mset_update)
    with i xs show ?thesis by (simp add: swap_remove_def list_update_append nth_append)
  qed (simp add: xs swap_remove_def list_update_append)
  show "length (swap_remove i xs) = length xs - 1" by (simp add: swap_remove_def)
qed

lemma draws_positions:
  assumes "ranges random_range" "\<forall>e\<in>set pool. 0 < snd e" "sum_list (map snd pool) < 2 ^ 64" "n \<le> length pool" "distinct (map fst pool)"
  shows "draws (\<lambda>is. length is = n \<and> distinct is \<and> set is \<subseteq> fst ` set pool)
    (draw_positions random_range n pool (sum_list (map snd pool)) rng)"
  using assms(2-)
proof (induction n arbitrary: pool rng)
  case (Suc n)
  let ?weights = "map (\<lambda>(pos, entry). (pos, snd entry)) (List.enumerate 0 pool)"
  have pool: "pool \<noteq> []" using Suc.prems(3) by auto
  then have "0 < sum_list (map snd pool)" using Suc.prems(1) by (cases pool) auto
  from draws_random_below[OF assms(1) this]
  show ?case unfolding draw_positions.simps Let_def
  proof (rule draws_then)
    fix roll rng1
    let ?pos = "weighted_scan roll 0 ?weights"
    let ?rest = "swap_remove ?pos pool"
    have pos: "?pos < length pool" by (rule weighted_scan_less[OF pool])
    obtain i w where e: "pool ! ?pos = (i, w)" by (cases "pool ! ?pos")
    have ms: "mset pool = add_mset (i, w) (mset ?rest)" using swap_remove_set(1)[OF pos] nth_mem[OF pos] e
      by (simp add: in_multiset_in_set)
    from arg_cong[OF ms, of "\<lambda>m. sum_mset (image_mset snd m)"]
    have total: "sum_list (map snd pool) = w + sum_list (map snd ?rest)"
      by (simp add: sum_mset_sum_list[symmetric])
    from arg_cong[OF ms, of "image_mset fst"] have "mset (map fst pool) = mset (i # map fst ?rest)" by simp
    from mset_eq_imp_distinct_iff[OF this] Suc.prems(4)
    have dist: "i \<notin> fst ` set ?rest" "distinct (map fst ?rest)" by simp_all
    from arg_cong[OF ms, of set_mset] have sub: "set pool = insert (i, w) (set ?rest)" by simp
    have rem: "sub_u64 (sum_list (map snd pool)) w = sum_list (map snd ?rest)" using total Suc.prems(2) by simp
    have "draws (\<lambda>is. length is = n \<and> distinct is \<and> set is \<subseteq> fst ` set ?rest)
        (draw_positions random_range n ?rest (sum_list (map snd ?rest)) rng1)"
      by (rule Suc.IH) (use Suc.prems sub total dist swap_remove_set(2)[OF pos] in auto)
    then have "draws (\<lambda>is. length is = Suc n \<and> distinct is \<and> set is \<subseteq> fst ` set pool)
        (draw_then (draw_positions random_range n ?rest (sum_list (map snd ?rest)) rng1) (\<lambda>result rng3. (Ok (i # result), rng3)))"
      by (rule draws_then) (use dist sub in auto)
    then show "draws (\<lambda>is. length is = Suc n \<and> distinct is \<and> set is \<subseteq> fst ` set pool)
       (draw_then (index pool ?pos, rng1) (\<lambda>(orig_idx, weight) rng2.
         draw_then (draw_positions random_range n ?rest (sub_u64 (sum_list (map snd pool)) weight) rng2)
           (\<lambda>result rng3. (Ok (orig_idx # result), rng3))))"
      using pos e rem by simp
  qed
qed simp

text \<open>The demands on the data: positive weights that fit the counter, and no draw from nothing.\<close>

definition weights_ok :: "sheet_definition \<Rightarrow> bool" where
  "weights_ok sheet \<longleftrightarrow> (\<forall>c\<in>set (sh_cards sheet). 0 < sc_weight c) \<and> sum_list (map sc_weight (sh_cards sheet)) < 2 ^ 64"

definition sheet_ok :: "sheet_definition \<Rightarrow> bool" where
  "sheet_ok sheet \<longleftrightarrow> weights_ok sheet
     \<and> (sh_allow_duplicates sheet \<and> \<not> sh_fixed sheet \<longrightarrow> sh_cards sheet \<noteq> [] \<and> 0 < sh_total_weight sheet)"

lemma sum_list_filter_le: "sum_list (map f (filter P xs)) \<le> sum_list (map f xs)" for f :: "'a \<Rightarrow> nat"
  by (induction xs) auto

lemma map_snd_filter_enumerate: "map snd (filter (\<lambda>(_, c). P c) (List.enumerate k xs)) = filter P xs"
  by (induction xs arbitrary: k) simp_all

text \<open>
  Drawing without replacement: as many positions as are asked for and available, all different,
  none of an excluded printing, and never a draw from an empty range.
\<close>

lemma draws_excluding:
  assumes "ranges random_range" "weights_ok sheet"
  shows "draws (\<lambda>is. length is = min cnt (length (filter (\<lambda>c. printing c \<notin> set exclude) (sh_cards sheet))) \<and> distinct is
      \<and> (\<forall>i\<in>set is. i < length (sh_cards sheet) \<and> printing (sh_cards sheet ! i) \<notin> set exclude))
    (weighted_select_n_excluding random_range sheet cnt exclude rng)"
proof -
  let ?kept = "filter (\<lambda>(_, c). printing c \<notin> set exclude) (List.enumerate 0 (sh_cards sheet))"
  let ?pool = "map (\<lambda>(i, c). (i, sc_weight c)) ?kept"
  have snd: "map snd ?kept = filter (\<lambda>c. printing c \<notin> set exclude) (sh_cards sheet)"
    by (rule map_snd_filter_enumerate)
  then have len: "length ?pool = length (filter (\<lambda>c. printing c \<notin> set exclude) (sh_cards sheet))"
    by (metis length_map)
  have w: "map snd ?pool = map sc_weight (filter (\<lambda>c. printing c \<notin> set exclude) (sh_cards sheet))"
    unfolding snd[symmetric] by (simp add: o_def split_beta)
  have total: "sum_list (map snd ?pool) < 2 ^ 64"
    unfolding w using assms(2) sum_list_filter_le[of sc_weight _ "sh_cards sheet"] by (auto simp: weights_ok_def intro: le_less_trans)
  have pos: "\<forall>e\<in>set ?pool. 0 < snd e"
    using assms(2) by (auto simp: weights_ok_def in_set_enumerate_eq)
  have dist: "distinct (map fst ?pool)"
  proof -
    have "map fst ?pool = map fst ?kept" by (simp add: o_def split_beta)
    moreover have "distinct (map fst ?kept)" by (rule distinct_map_filter) simp
    ultimately show ?thesis by (simp only:)
  qed
  have "draws (\<lambda>is. length is = min cnt (length ?pool) \<and> distinct is \<and> set is \<subseteq> fst ` set ?pool)
      (draw_positions random_range (min cnt (length ?pool)) ?pool (sum_list (map snd ?pool)) rng)"
    by (rule draws_positions[OF assms(1) pos total _ dist]) simp
  then show ?thesis
    unfolding weighted_select_n_excluding_def Let_def sum_u64_id[OF total] len
    by (rule draws_mono) (auto simp: in_set_enumerate_eq)
qed

text \<open>A slot returns cards of one of its sheets, at most as many as it asks for.\<close>

definition slot_ok :: "limited_set_pool \<Rightarrow> pack_slot \<Rightarrow> bool" where
  "slot_ok pool slot \<longleftrightarrow> (length (sl_choices slot) = 1 \<or> 0 < sum_u64 (map wc_weight (sl_choices slot)))
     \<and> (\<forall>choice\<in>set (sl_choices slot). case fmlookup (lp_sheets pool) (wc_sheet choice) of
          None \<Rightarrow> True
        | Some sheet \<Rightarrow> sheet_ok sheet \<and> (sh_fixed sheet \<longrightarrow> sum_list (map sc_weight (sh_cards sheet)) \<le> sl_count slot))"

definition variant_size :: "pack_variant \<Rightarrow> nat" where
  "variant_size variant = sum_list (map sl_count (pv_contents variant))"

definition variant_ok :: "limited_set_pool \<Rightarrow> pack_variant \<Rightarrow> bool" where
  "variant_ok pool variant \<longleftrightarrow> list_all (slot_ok pool) (pv_contents variant)
     \<and> 0 < variant_size variant \<and> variant_size variant < 2 ^ 16
     \<and> (case backfill_sheet pool variant of
          None \<Rightarrow> False
        | Some sheet \<Rightarrow> weights_ok sheet \<and> distinct (map printing (sh_cards sheet)) \<and> variant_size variant \<le> length (sh_cards sheet))"

definition pool_ok :: "limited_set_pool \<Rightarrow> bool" where
  "pool_ok pool \<longleftrightarrow> 0 < lp_pack_variants_total_weight pool \<and> lp_pack_variants pool \<noteq> []
     \<and> list_all (variant_ok pool) (lp_pack_variants pool)"

definition on_sheets :: "limited_set_pool \<Rightarrow> sheet_card \<Rightarrow> bool" where
  "on_sheets pool c \<longleftrightarrow> (\<exists>name sheet. fmlookup (lp_sheets pool) name = Some sheet \<and> c \<in> set (sh_cards sheet))"

lemma try_map_index:
  "\<forall>i\<in>set is. i < length xs \<Longrightarrow> try_map (index xs) is = Ok (map ((!) xs) is)"
  by (induction "is") simp_all

lemma draws_resolve:
  assumes "ranges random_range" "slot_ok pool slot"
  shows "draws (\<lambda>name. \<exists>choice\<in>set (sl_choices slot). wc_sheet choice = name) (resolve_sheet_name random_range (sl_choices slot) rng)"
proof (cases "length (sl_choices slot) = 1")
  case True
  then have "sl_choices slot ! 0 \<in> set (sl_choices slot)" by (intro nth_mem) simp
  with True show ?thesis by (auto simp: resolve_sheet_name_def)
next
  case False
  let ?cs = "sl_choices slot"
  from False assms(2) have pos: "0 < sum_u64 (map wc_weight ?cs)" by (auto simp: slot_ok_def)
  then have "?cs \<noteq> []" by (auto simp: sum_u64_def)
  from draws_weighted_select[OF assms(1) pos this]
  have "draws (\<lambda>i. i < length ?cs) (weighted_select random_range (sum_u64 (map wc_weight ?cs)) (map (\<lambda>(i, c). (i, wc_weight c)) (List.enumerate 0 ?cs)) rng)" .
  then have "draws (\<lambda>name. \<exists>choice\<in>set ?cs. wc_sheet choice = name)
      (draw_then (weighted_select random_range (sum_u64 (map wc_weight ?cs)) (map (\<lambda>(i, c). (i, wc_weight c)) (List.enumerate 0 ?cs)) rng)
        (\<lambda>idx rng1. draw_then (index ?cs idx, rng1) (\<lambda>choice rng2. (Ok (wc_sheet choice), rng2))))"
    by (rule draws_then) auto
  then show ?thesis using False by (simp add: resolve_sheet_name_def)
qed

lemma draws_sheet_cards:
  assumes "ranges random_range" "sheet_ok sheet" "sh_fixed sheet \<longrightarrow> sum_list (map sc_weight (sh_cards sheet)) \<le> cnt"
  shows "draws (\<lambda>is. length is \<le> cnt \<and> (\<forall>i\<in>set is. i < length (sh_cards sheet))) (select_sheet_cards random_range sheet cnt rng)"
proof -
  consider (fixed) "sh_fixed sheet" | (dup) "\<not> sh_fixed sheet" "sh_allow_duplicates sheet" | (distinct) "\<not> sh_fixed sheet" "\<not> sh_allow_duplicates sheet" by blast
  then show ?thesis
  proof cases
    case fixed
    have "length (concat (map (\<lambda>(i, c). replicate (sc_weight c) i) (List.enumerate k cs))) = sum_list (map sc_weight cs)" for k and cs :: "sheet_card list"
      by (induction cs arbitrary: k) simp_all
    with fixed assms(3) show ?thesis by (auto simp: select_sheet_cards_def in_set_enumerate_eq)
  next
    case dup
    with assms(2) have "sh_cards sheet \<noteq> []" "0 < sh_total_weight sheet" by (auto simp: sheet_ok_def)
    note one = draws_weighted_select[OF assms(1) this(2,1), of sc_weight]
    have "draws (list_all2 (\<lambda>_ i. i < length (sh_cards sheet)) [0..<cnt]) (draw_map (\<lambda>_. weighted_select random_range (sh_total_weight sheet)
             (map (\<lambda>(i, c). (i, sc_weight c)) (List.enumerate 0 (sh_cards sheet)))) [0..<cnt] rng)"
      by (rule draws_map) (rule one)
    with dup show ?thesis
      by (auto simp: select_sheet_cards_def list_all2_conv_all_nth in_set_conv_nth elim!: draws_mono)
  next
    case distinct
    from assms(2) have "weights_ok sheet" by (simp add: sheet_ok_def)
    from draws_excluding[OF assms(1) this, of cnt "[]" rng] distinct show ?thesis
      by (auto simp: select_sheet_cards_def weighted_select_n_def elim!: draws_mono)
  qed
qed

lemma draws_slot:
  assumes "ranges random_range" "slot_ok pool slot"
  shows "draws (\<lambda>cards. length cards \<le> sl_count slot \<and> (\<forall>c\<in>set cards. on_sheets pool c)) (draw_slot random_range pool slot rng)"
  unfolding draw_slot_def
proof (rule draws_then[OF draws_resolve[OF assms]])
  fix name rng1
  assume "\<exists>choice\<in>set (sl_choices slot). wc_sheet choice = name"
  then obtain choice where choice: "choice \<in> set (sl_choices slot)" "wc_sheet choice = name" by blast
  show "draws (\<lambda>cards. length cards \<le> sl_count slot \<and> (\<forall>c\<in>set cards. on_sheets pool c))
     (case fmlookup (lp_sheets pool) name of None \<Rightarrow> (Ok [], rng1) | Some sheet \<Rightarrow>
        draw_then (select_sheet_cards random_range sheet (sl_count slot) rng1) (\<lambda>idxs rng2. (try_map (index (sh_cards sheet)) idxs, rng2)))"
  proof (cases "fmlookup (lp_sheets pool) name")
    case (Some sheet)
    with assms(2) choice have ok: "sheet_ok sheet" "sh_fixed sheet \<longrightarrow> sum_list (map sc_weight (sh_cards sheet)) \<le> sl_count slot"
      by (auto simp: slot_ok_def split: option.splits)
    have "draws (\<lambda>cards. length cards \<le> sl_count slot \<and> (\<forall>c\<in>set cards. on_sheets pool c))
       (draw_then (select_sheet_cards random_range sheet (sl_count slot) rng1) (\<lambda>idxs rng2. (try_map (index (sh_cards sheet)) idxs, rng2)))"
      by (rule draws_then[OF draws_sheet_cards[OF assms(1) ok]]) (use Some in \<open>auto simp: try_map_index on_sheets_def intro: nth_mem\<close>)
    with Some show ?thesis by simp
  qed simp
qed

lemma last_max_in: "last_max key xs = Some y \<Longrightarrow> y \<in> set xs"
  by (induction xs) (auto split: option.splits if_splits)

lemma backfill_on_sheets:
  assumes "backfill_sheet pool variant = Some sheet" "c \<in> set (sh_cards sheet)"
  shows "on_sheets pool c"
  using last_max_in[OF assms(1)[unfolded backfill_sheet_def]] assms(2) by (auto simp: set_map_filter on_sheets_def)

lemma draws_top_up:
  assumes "ranges random_range" "variant_ok pool variant" "length picks \<le> variant_size variant"
  shows "draws (\<lambda>cards. length cards = variant_size variant \<and> (\<exists>extra. cards = picks @ extra \<and> distinct (map printing extra)
        \<and> set (map printing extra) \<inter> set (map printing picks) = {} \<and> (\<forall>c\<in>set extra. on_sheets pool c)))
    (top_up random_range pool variant (variant_size variant) picks rng)"
proof (cases "length picks < variant_size variant")
  case True
  from assms(2) obtain sheet where sheet: "backfill_sheet pool variant = Some sheet" "weights_ok sheet"
    "distinct (map printing (sh_cards sheet))" "variant_size variant \<le> length (sh_cards sheet)"
    by (auto simp: variant_ok_def split: option.splits)
  let ?free = "filter (\<lambda>c. printing c \<notin> set (map printing picks)) (sh_cards sheet)"
  have "length (sh_cards sheet) \<le> length picks + length ?free"
  proof -
    have "set (map printing (sh_cards sheet)) \<subseteq> set (map printing picks) \<union> set (map printing ?free)" by auto
    then have "card (set (map printing (sh_cards sheet))) \<le> card (set (map printing picks)) + card (set (map printing ?free))"
      by (meson List.finite_set card_Un_le card_mono finite_UnI le_trans)
    also have "\<dots> \<le> length picks + length ?free" by (intro add_mono) (metis card_length length_map)+
    finally show ?thesis unfolding distinct_card[OF sheet(3)] by simp
  qed
  then have enough: "variant_size variant - length picks \<le> length ?free" using sheet(4) by simp
  have "draws (\<lambda>cards. length cards = variant_size variant \<and> (\<exists>extra. cards = picks @ extra \<and> distinct (map printing extra)
        \<and> set (map printing extra) \<inter> set (map printing picks) = {} \<and> (\<forall>c\<in>set extra. on_sheets pool c)))
     (draw_then (weighted_select_n_excluding random_range sheet (variant_size variant - length picks) (map printing picks) rng)
       (\<lambda>extra rng1. draw_then (try_map (index (sh_cards sheet)) extra, rng1) (\<lambda>cards rng2. (Ok (picks @ cards), rng2))))"
  proof (rule draws_then[OF draws_excluding[OF assms(1) sheet(2)]])
    fix "is" rng1
    assume A: "length is = min (variant_size variant - length picks) (length ?free) \<and> distinct is
      \<and> (\<forall>i\<in>set is. i < length (sh_cards sheet) \<and> printing (sh_cards sheet ! i) \<notin> set (map printing picks))"
    let ?extra = "map ((!) (sh_cards sheet)) is"
    have len: "length is = variant_size variant - length picks" using A enough by simp
    have "map printing ?extra = map ((!) (map printing (sh_cards sheet))) is" using A by simp
    moreover have "distinct (map ((!) (map printing (sh_cards sheet))) is)"
      using A sheet(3) by (subst distinct_map) (auto simp: inj_on_def nth_eq_iff_index_eq simp del: nth_map)
    ultimately have d: "distinct (map printing ?extra)" by (simp only:)
    have s: "set (map printing ?extra) \<inter> set (map printing picks) = {}" "\<forall>c\<in>set ?extra. on_sheets pool c"
      using A backfill_on_sheets[OF sheet(1)] by (simp_all add: disjoint_iff image_iff) metis
    show "draws (\<lambda>cards. length cards = variant_size variant \<and> (\<exists>extra. cards = picks @ extra \<and> distinct (map printing extra)
        \<and> set (map printing extra) \<inter> set (map printing picks) = {} \<and> (\<forall>c\<in>set extra. on_sheets pool c)))
      (draw_then (try_map (index (sh_cards sheet)) is, rng1) (\<lambda>cards rng2. (Ok (picks @ cards), rng2)))"
      using A d s len True by (simp add: try_map_index image_image)
  qed
  with True sheet(1) show ?thesis by (simp add: top_up_def)
qed (use assms(3) in \<open>auto simp: top_up_def\<close>)

section \<open>Opening a booster\<close>

lemma sum_u16_id: "sum_list ns < 2 ^ 16 \<Longrightarrow> sum_u16 ns = sum_list ns"
proof -
  have "c + sum_list ns < 2 ^ 16 \<Longrightarrow> foldl (\<lambda>a b. (a + b) mod 2 ^ 16) c ns = c + sum_list ns" for c
    by (induction ns arbitrary: c) simp_all
  from this[of 0] show "sum_list ns < 2 ^ 16 \<Longrightarrow> sum_u16 ns = sum_list ns" by (simp add: sum_u16_def)
qed

lemma cards_per_pack_variant:
  assumes "pool_ok pool" "cards_per_pack pool = Some k" "variant \<in> set (lp_pack_variants pool)"
  shows "variant_size variant = k" "variant_ok pool variant"
proof -
  show ok: "variant_ok pool variant" using assms(1,3) by (simp add: pool_ok_def list_all_iff)
  have "sum_u16 (map sl_count (pv_contents variant)) = k"
    using assms(2,3) by (auto simp: cards_per_pack_def list_all_iff split: list.splits if_splits)
  with ok show "variant_size variant = k" by (simp add: variant_ok_def variant_size_def sum_u16_id)
qed

definition printed_in :: "limited_set_pool \<Rightarrow> draft_card_instance \<Rightarrow> bool" where
  "printed_in pool ci \<longleftrightarrow> (\<exists>c. on_sheets pool c \<and> ci_name ci = sc_name c \<and> ci_set_code ci = sc_set_code c
     \<and> ci_collector_number ci = sc_collector_number c \<and> ci_rarity ci = rarity_name (sc_rarity c) \<and> ci_cmc ci = sc_cmc c
     \<and> ci_colors ci = sc_colors c \<and> ci_type_line ci = sc_type_line c \<and> ci_draft_effect ci = sc_draft_effect c)"

definition booster_id :: "string \<Rightarrow> nat \<Rightarrow> nat \<Rightarrow> nat \<Rightarrow> string" where
  "booster_id code seat pack_number i = code @ ''-'' @ show_nat seat @ ''-'' @ show_nat pack_number @ ''-'' @ show_nat i"

lemma draws_booster:
  assumes "ranges random_range" "pool_for_pack gen seat pack_number = Ok pool" "pool_ok pool" "cards_per_pack pool = Some k"
  shows "draws (\<lambda>pack. map ci_instance_id pack = map (booster_id (lp_code pool) seat pack_number) [0..<k]
      \<and> (\<forall>ci\<in>set pack. printed_in pool ci)) (generator_generate_pack random_range gen rng seat pack_number)"
    (is "draws ?good _")
proof -
  let ?vs = "lp_pack_variants pool"
  have "draws (\<lambda>variant. variant \<in> set ?vs) (select_variant random_range pool rng)"
    unfolding select_variant_def
    by (rule draws_then[OF draws_weighted_select]) (use assms(1,3) in \<open>auto simp: pool_ok_def\<close>)
  then have "draws ?good (draw_then (select_variant random_range pool rng) (\<lambda>variant rng1.
     let target_size = sum_list (map sl_count (pv_contents variant)) in
     draw_then (draw_map (draw_slot random_range pool) (pv_contents variant) rng1) (\<lambda>slots rng2.
     draw_then (top_up random_range pool variant target_size (concat slots) rng2) (\<lambda>picks rng3.
       (Ok (map (booster_card (lp_code pool) seat pack_number) (List.enumerate 0 picks)), rng3)))))"
  proof (rule draws_then)
    fix variant rng1 assume "variant \<in> set ?vs"
    note v = cards_per_pack_variant[OF assms(3,4) this]
    let ?part = "\<lambda>slot cards. length cards \<le> sl_count slot \<and> (\<forall>c\<in>set cards. on_sheets pool c)"
    have "draws (list_all2 ?part (pv_contents variant)) (draw_map (draw_slot random_range pool) (pv_contents variant) rng1)"
      by (rule draws_map, rule draws_slot[OF assms(1)]) (use v(2) in \<open>simp add: variant_ok_def list_all_iff\<close>)
    then have "draws ?good (draw_then (draw_map (draw_slot random_range pool) (pv_contents variant) rng1) (\<lambda>slots rng2.
       draw_then (top_up random_range pool variant (variant_size variant) (concat slots) rng2) (\<lambda>picks rng3.
         (Ok (map (booster_card (lp_code pool) seat pack_number) (List.enumerate 0 picks)), rng3))))"
    proof (rule draws_then)
      fix slots rng2 assume slots: "list_all2 ?part (pv_contents variant) slots"
      have size: "length (concat slots) \<le> variant_size variant" "\<forall>c\<in>set (concat slots). on_sheets pool c"
        using slots unfolding variant_size_def by (induction rule: list_all2_induct) auto
      show "draws ?good (draw_then (top_up random_range pool variant (variant_size variant) (concat slots) rng2) (\<lambda>picks rng3.
          (Ok (map (booster_card (lp_code pool) seat pack_number) (List.enumerate 0 picks)), rng3)))"
      proof (rule draws_then[OF draws_top_up[OF assms(1) v(2) size(1)]])
        fix picks rng3
        assume "length picks = variant_size variant \<and> (\<exists>extra. picks = concat slots @ extra \<and> distinct (map printing extra)
          \<and> set (map printing extra) \<inter> set (map printing (concat slots)) = {} \<and> (\<forall>c\<in>set extra. on_sheets pool c))"
        then have p: "length picks = k" "\<forall>c\<in>set picks. on_sheets pool c" using size(2) v(1) by auto
        have "map ci_instance_id (map (booster_card (lp_code pool) seat pack_number) (List.enumerate 0 picks))
            = map (booster_id (lp_code pool) seat pack_number) [0..<k]"
          using p(1) by (intro nth_equalityI) (simp_all add: booster_card_def booster_id_def)
        moreover have "printed_in pool (booster_card (lp_code pool) seat pack_number (i, c))" if "on_sheets pool c" for i c
          using that by (auto simp: printed_in_def booster_card_def)
        ultimately show "draws ?good (Ok (map (booster_card (lp_code pool) seat pack_number) (List.enumerate 0 picks)), rng3)"
          using p(2) by (auto simp: in_set_enumerate_eq simp del: map_map)
      qed
    qed
    then show "draws ?good (let target_size = sum_list (map sl_count (pv_contents variant)) in
     draw_then (draw_map (draw_slot random_range pool) (pv_contents variant) rng1) (\<lambda>slots rng2.
     draw_then (top_up random_range pool variant target_size (concat slots) rng2) (\<lambda>picks rng3.
       (Ok (map (booster_card (lp_code pool) seat pack_number) (List.enumerate 0 picks)), rng3))))"
      by (simp add: variant_size_def)
  qed
  then show ?thesis using assms(2) by (simp add: generator_generate_pack_def)
qed

section \<open>Constructing a generator\<close>

lemma booster_id_inject:
  assumes "booster_id code i p j = booster_id code' i' p' j'"
  shows "code = code' \<and> i = i' \<and> p = p' \<and> j = j'"
proof -
  have tail: "xs = ys \<and> a = b" if "xs @ ''-'' @ show_nat a = ys @ ''-'' @ show_nat b" for xs ys a b
  proof -
    have no: "CHR ''-'' \<notin> set (rev (show_nat n))" for n
      using show_nat_digits digit_not_dash by fastforce
    have tw: "takeWhile (\<lambda>c. c \<noteq> CHR ''-'') (rev (show_nat n) @ CHR ''-'' # zs) = rev (show_nat n)" for n zs
      using no[of n] by (subst takeWhile_append2) auto
    from arg_cong[OF that, of rev] have eq: "rev (show_nat a) @ CHR ''-'' # rev xs = rev (show_nat b) @ CHR ''-'' # rev ys" by simp
    from arg_cong[OF this, of "takeWhile (\<lambda>c. c \<noteq> CHR ''-'')"] have "rev (show_nat a) = rev (show_nat b)" unfolding tw .
    with eq show ?thesis by (simp add: show_nat_inject)
  qed
  have shape: "booster_id code i p j = (((code @ ''-'' @ show_nat i) @ ''-'' @ show_nat p) @ ''-'' @ show_nat j)" for code i p j
    by (simp add: booster_id_def)
  from tail[OF assms[unfolded shape]] have j: "j = j'"
    and "(code @ ''-'' @ show_nat i) @ ''-'' @ show_nat p = (code' @ ''-'' @ show_nat i') @ ''-'' @ show_nat p'" by blast+
  from tail[OF this(2)] have p: "p = p'" and "code @ ''-'' @ show_nat i = code' @ ''-'' @ show_nat i'" by blast+
  from tail[OF this(2)] j p show ?thesis by simp
qed

lemma pool_index_Ok:
  assumes "pool_index pools code = Ok i"
  shows "i < length pools \<and> eq_ignore_ascii_case (lp_code (pools ! i)) code"
  using assms position_Some by (auto simp: pool_index_def)

lemma normalize_pool_code [simp]: "lp_code (normalize_pool pool) = lp_code pool"
  by (simp add: normalize_pool_def)

text \<open>
  The pool of a booster carries the set code that the layout of the configuration names for the
  seat and round.
\<close>

definition generator_for :: "set_layout \<Rightarrow> limited_set_pool list \<Rightarrow> nat \<Rightarrow> nat \<Rightarrow> pack_generator draft_result" where
  "generator_for layout pools n q = (case layout of
     UniformByRound codes \<Rightarrow> for_sequence pools codes
   | Chaos candidates assignments \<Rightarrow> for_chaos pools candidates assignments n q)"

lemma try_map_pool:
  assumes "try_map f codes = Ok is" "i < length codes" "\<And>code k. f code = Ok k \<Longrightarrow> pool_index pools code = Ok k"
  shows "i < length is \<and> is ! i < length pools \<and> eq_ignore_ascii_case (lp_code (pools ! (is ! i))) (codes ! i)"
  using pool_index_Ok[OF assms(3)[OF try_map_nth[OF assms(1,2)]]] assms(2) try_map_length[OF assms(1)] by simp

lemma pool_of_layout:
  assumes "generator_for layout pools n q = Ok gen" "seat < n" "p < q"
  shows "\<exists>pool\<in>set pools. pool_for_pack gen seat p = Ok (normalize_pool pool)
    \<and> eq_ignore_ascii_case (lp_code pool) (set_code_for_seat_and_pack (SetSource layout) seat p)"
proof (cases layout)
  case (UniformByRound codes)
  let ?pools = "map normalize_pool pools"
  from assms(1) UniformByRound obtain resolved where r: "codes \<noteq> []" "try_map (pool_index ?pools) codes = Ok resolved"
    "gen = \<lparr>pg_pools = ?pools, pg_layout = UniformPools resolved\<rparr>"
    by (auto simp: generator_for_def for_sequence_def outcome_simps Let_def)
  let ?e = "min p (length codes - 1)"
  have e: "?e < length codes" using r(1) by (cases codes) auto
  from try_map_pool[OF r(2) e, of ?pools] have pool: "?e < length resolved" "resolved ! ?e < length pools"
    "eq_ignore_ascii_case (lp_code (pools ! (resolved ! ?e))) (codes ! ?e)" by auto
  have "length resolved = length codes" by (rule try_map_length[OF r(2)])
  with r e pool UniformByRound show ?thesis
    by (intro bexI[of _ "pools ! (resolved ! ?e)"]) (auto simp: pool_for_pack_def entry_for_pack_def)
next
  case (Chaos candidates assignments)
  let ?pools = "map normalize_pool pools"
  from assms(1) Chaos obtain resolved where r: "length assignments = n" "list_all (\<lambda>rounds. length rounds = q) assignments"
    "try_map (\<lambda>(seat, rounds). try_map (resolve_assignment ?pools candidates seat) rounds) (List.enumerate 0 assignments) = Ok resolved"
    "gen = \<lparr>pg_pools = ?pools, pg_layout = ChaosPools resolved\<rparr>"
    by (auto simp: generator_for_def for_chaos_def outcome_simps Let_def)
  from try_map_enumerate_nth[OF r(3), of seat] assms(2) r(1)
  have row: "try_map (resolve_assignment ?pools candidates seat) (assignments ! seat) = Ok (resolved ! seat)" by simp
  have q: "p < length (assignments ! seat)" using r(1,2) assms(2,3) by (simp add: list_all_iff)
  have "pool_index ?pools code = Ok k" if "resolve_assignment ?pools candidates seat code = Ok k" for code k
    using that by (simp add: resolve_assignment_def split: if_splits)
  from try_map_pool[OF row q this] have pool: "p < length (resolved ! seat)" "resolved ! seat ! p < length pools"
    "eq_ignore_ascii_case (lp_code (pools ! (resolved ! seat ! p))) (assignments ! seat ! p)" by auto
  have "length resolved = n" using try_map_length[OF r(3)] r(1) by simp
  with r q pool assms(2) Chaos show ?thesis
    by (intro bexI[of _ "pools ! (resolved ! seat ! p)"]) (auto simp: pool_for_pack_def)
qed

lemma list_all2_upt: "list_all2 R [0..<n] ys \<longleftrightarrow> length ys = n \<and> (\<forall>i<n. R i (ys ! i))"
  by (auto simp: list_all2_conv_all_nth)

text \<open>A generator of well-formed pools deals the matrix its layout asks for.\<close>

definition pools_ok :: "limited_set_pool list \<Rightarrow> bool" where
  "pools_ok pools \<longleftrightarrow> (\<forall>pool\<in>set pools. pool_ok (normalize_pool pool)
     \<and> (case cards_per_pack (normalize_pool pool) of None \<Rightarrow> False | Some _ \<Rightarrow> True))"

lemma pools_okD:
  assumes "pools_ok pools" "pool \<in> set pools"
  obtains k where "pool_ok (normalize_pool pool)" "cards_per_pack (normalize_pool pool) = Some k" "0 < k"
proof -
  from assms obtain k where *: "pool_ok (normalize_pool pool)" "cards_per_pack (normalize_pool pool) = Some k"
    by (auto simp: pools_ok_def split: option.splits)
  from *(1) obtain v where v: "v \<in> set (lp_pack_variants (normalize_pool pool))"
    by (cases "lp_pack_variants (normalize_pool pool)") (auto simp: pool_ok_def)
  from cards_per_pack_variant[OF * v] have "0 < k" by (auto simp: variant_ok_def)
  with * that show thesis by blast
qed

definition booster_of :: "nat \<Rightarrow> nat \<Rightarrow> draft_pack \<Rightarrow> bool" where
  "booster_of seat p pack \<longleftrightarrow> (\<exists>code k. 0 < k \<and> map ci_instance_id pack = map (booster_id code seat p) [0..<k])"

lemma draws_opened:
  assumes "ranges random_range" "generator_for layout pools n q = Ok gen" "pools_ok pools" "seat < n" "p < q"
  shows "draws (booster_of seat p) (generator_generate_pack random_range gen rng seat p)"
proof -
  from pool_of_layout[OF assms(2,4,5)] obtain pool where pool: "pool \<in> set pools" "pool_for_pack gen seat p = Ok (normalize_pool pool)" by blast
  from pools_okD[OF assms(3) pool(1)] obtain k where "pool_ok (normalize_pool pool)" "cards_per_pack (normalize_pool pool) = Some k" "0 < k" .
  from draws_booster[OF assms(1) pool(2) this(1,2), of rng] this(3) show ?thesis
    by (auto simp: booster_of_def elim!: draws_mono) blast
qed

lemma distinct_concat_map:
  assumes "distinct xs" "\<And>x. x \<in> set xs \<Longrightarrow> distinct (g x)"
    "\<And>x y z. x \<in> set xs \<Longrightarrow> y \<in> set xs \<Longrightarrow> z \<in> set (g x) \<Longrightarrow> z \<in> set (g y) \<Longrightarrow> x = y"
  shows "distinct (concat (map g xs))"
  using assms
proof (induction xs)
  case (Cons x xs)
  have "distinct (concat (map g xs))" by (rule Cons.IH) (use Cons.prems in auto)
  moreover have "set (g x) \<inter> set (concat (map g xs)) = {}" using Cons.prems(1,3) by fastforce
  ultimately show ?case using Cons.prems(2) by simp
qed simp

lemma concat_concat: "concat (concat xss) = concat (map concat xss)"
  by (induction xss) auto

lemma booster_of_ids:
  assumes "booster_of i p pack"
  shows "pack \<noteq> []" "distinct (map ci_instance_id pack)"
    "x \<in> ci_instance_id ` set pack \<Longrightarrow> \<exists>code j. x = booster_id code i p j"
proof -
  from assms obtain code k where ids: "0 < k" "map ci_instance_id pack = map (booster_id code i p) [0..<k]"
    by (auto simp: booster_of_def)
  show "pack \<noteq> []" using ids by auto
  show "distinct (map ci_instance_id pack)" unfolding ids(2) by (auto simp: distinct_map inj_on_def dest: booster_id_inject)
  show "\<exists>code j. x = booster_id code i p j" if "x \<in> ci_instance_id ` set pack"
    using that arg_cong[OF ids(2), of set] by auto
qed

lemma booster_matrix_full:
  assumes "length packs = n" "\<And>i. i < n \<Longrightarrow> length (packs ! i) = q" "\<And>i p. i < n \<Longrightarrow> p < q \<Longrightarrow> booster_of i p (packs ! i ! p)"
  shows "full_matrix n q packs"
proof -
  let ?ids = "\<lambda>i p. map ci_instance_id (packs ! i ! p)"
  have row: "length (packs ! i) = q \<and> [] \<notin> set (packs ! i)" if "i < n" for i
    using that assms(2)[OF that] booster_of_ids(1)[OF assms(3)[OF that]] by (auto simp: in_set_conv_nth)
  have dims: "\<forall>r\<in>set packs. length r = q \<and> [] \<notin> set r"
    using row assms(1) by (metis in_set_conv_nth)
  have shape: "packs = map (\<lambda>i. map (\<lambda>p. packs ! i ! p) [0..<q]) [0..<n]"
    using assms(1,2) by (intro nth_equalityI) (simp_all add: map_nth[symmetric] flip: assms(2))
  have "map ci_instance_id (concat (concat packs)) = concat (map (\<lambda>i. concat (map (?ids i) [0..<q])) [0..<n])"
    by (subst shape) (simp add: map_concat o_def concat_concat)
  moreover have "distinct (concat (map (\<lambda>i. concat (map (?ids i) [0..<q])) [0..<n]))"
  proof (rule distinct_concat_map)
    show "distinct (concat (map (?ids i) [0..<q]))" if "i \<in> set [0..<n]" for i
    proof (rule distinct_concat_map)
      show "distinct (?ids i p)" if "p \<in> set [0..<q]" for p
        using booster_of_ids(2)[OF assms(3)] that \<open>i \<in> set [0..<n]\<close> by simp
      show "p = p'" if "p \<in> set [0..<q]" "p' \<in> set [0..<q]" "z \<in> set (?ids i p)" "z \<in> set (?ids i p')" for p p' z
      proof -
        from that \<open>i \<in> set [0..<n]\<close> have "\<exists>code j. z = booster_id code i p j" "\<exists>code j. z = booster_id code i p' j"
          using booster_of_ids(3)[OF assms(3), of i] by simp_all
        then show ?thesis using booster_id_inject by metis
      qed
    qed simp
    show "i = i'" if i: "i \<in> set [0..<n]" "i' \<in> set [0..<n]" and z: "z \<in> set (concat (map (?ids i) [0..<q]))"
      "z \<in> set (concat (map (?ids i') [0..<q]))" for i i' z
    proof -
      from z obtain p p' where p: "p < q" "z \<in> ci_instance_id ` set (packs ! i ! p)" "p' < q" "z \<in> ci_instance_id ` set (packs ! i' ! p')"
        unfolding set_concat set_map by (elim UN_E imageE) auto
      from booster_of_ids(3)[OF assms(3) p(2)] booster_of_ids(3)[OF assms(3) p(4)] i p(1,3)
      show ?thesis by (auto dest: booster_id_inject)
    qed
  qed simp
  ultimately show ?thesis using assms(1) dims by (simp add: full_matrix_def)
qed

lemma draws_packs:
  assumes "ranges random_range" "generator_for layout pools n q = Ok gen" "pools_ok pools" "cf_pack_count config = q"
  shows "draws (full_matrix n q) (ps_generate_packs (generator_source random_range gen) rng config n)"
proof -
  let ?open = "generator_generate_pack random_range gen"
  have seat: "draws (\<lambda>packs. length packs = q \<and> (\<forall>p<q. booster_of i p (packs ! p))) (generate_seat_packs ?open i [0..<q] rng)"
    if "i < n" for i rng
  proof -
    have "draws (list_all2 (booster_of i) [0..<q]) (draw_map (\<lambda>p rng. ?open rng i p) [0..<q] rng)"
      by (rule draws_map) (use draws_opened[OF assms(1-3) that] in auto)
    then show ?thesis unfolding generate_seat_packs_def by (rule draws_mono) (simp add: list_all2_upt)
  qed
  have "draws (list_all2 (\<lambda>i packs. length packs = q \<and> (\<forall>p<q. booster_of i p (packs ! p))) [0..<n])
      (draw_map (\<lambda>i rng. generate_seat_packs ?open i [0..<q] rng) [0..<n] rng)"
    by (rule draws_map) (use seat in auto)
  then show ?thesis
    unfolding generator_source_def pack_source.simps default_generate_packs_def generate_all_packs_def assms(4)
    by (rule draws_mono) (auto simp: list_all2_upt intro!: booster_matrix_full)
qed

section \<open>Chaos drafts\<close>

lemma check_candidate_Ok:
  "check_candidate pools candidate declared = Ok d
   \<longleftrightarrow> (\<exists>i k. pool_index pools candidate = Ok i \<and> cards_per_pack (pools ! i) = Some k \<and> d = Some k \<and> (declared = None \<or> declared = Some k))"
  using pool_index_Ok[of pools candidate]
  by (cases declared) (auto simp: check_candidate_def outcome_simps split: if_splits)

definition shares_size :: "limited_set_pool list \<Rightarrow> nat \<Rightarrow> string \<Rightarrow> bool" where
  "shares_size pools k code \<longleftrightarrow> (case position (\<lambda>pool. eq_ignore_ascii_case (lp_code pool) code) pools of
     None \<Rightarrow> False | Some i \<Rightarrow> cards_per_pack (pools ! i) = Some k)"

lemma shares_size_iff: "shares_size pools k code \<longleftrightarrow> (\<exists>i. pool_index pools code = Ok i \<and> cards_per_pack (pools ! i) = Some k)"
  by (auto simp: shares_size_def pool_index_def split: option.splits)

lemma check_candidates_Ok:
  "try_fold (check_candidate pools) candidates (Some k) = Ok d \<longleftrightarrow> list_all (shares_size pools k) candidates \<and> d = Some k"
proof (induction candidates)
  case (Cons c cs)
  show ?case using Cons by (auto simp: outcome_simps check_candidate_Ok shares_size_iff)
qed auto

lemma is_ok_try_map: "is_ok (try_map f xs) \<longleftrightarrow> (\<forall>x\<in>set xs. is_ok (f x))"
  by (induction xs) (auto simp: is_ok_iff outcome_simps)

lemma is_ok_and_then: "is_ok (and_then r f) \<longleftrightarrow> (\<exists>a. r = Ok a \<and> is_ok (f a))"
  by (cases r) auto

lemma resolve_assignment_ok:
  assumes "list_all (shares_size pools k) candidates"
  shows "is_ok (resolve_assignment pools candidates seat code) \<longleftrightarrow> (\<exists>c\<in>set candidates. eq_ignore_ascii_case c code)"
proof -
  have "is_ok (pool_index pools code)" if "c \<in> set candidates" "eq_ignore_ascii_case c code" for c
  proof -
    from assms that(1) obtain i where "pool_index pools c = Ok i" by (auto simp: list_all_iff shares_size_iff)
    from pool_index_Ok[OF this] eq_ignore_ascii_case_trans[OF _ that(2)] have "\<exists>pool\<in>set pools. eq_ignore_ascii_case (lp_code pool) code"
      by (metis nth_mem)
    from position_ex[OF this] show ?thesis by (auto simp: pool_index_def)
  qed
  then show ?thesis by (auto simp: resolve_assignment_def list_ex_iff)
qed

lemma for_chaos_ok_iff:
  "is_ok (for_chaos pools candidates assignments n q)
   \<longleftrightarrow> (\<exists>k. list_all (shares_size (map normalize_pool pools) k) candidates)
     \<and> validate_for_draft (Chaos candidates assignments) n q = Ok ()"
proof -
  let ?pools = "map normalize_pool pools"
  have sizes: "is_ok (try_fold (check_candidate ?pools) candidates None) \<longleftrightarrow> (\<exists>k. list_all (shares_size ?pools k) candidates)"
    if "candidates \<noteq> []"
    using that by (cases candidates) (auto simp: is_ok_and_then check_candidate_Ok check_candidates_Ok shares_size_iff is_ok_iff outcome_simps)
  have rows: "is_ok (try_map (\<lambda>(seat, rounds). try_map (resolve_assignment ?pools candidates seat) rounds) (List.enumerate 0 assignments))
      \<longleftrightarrow> (\<forall>rounds\<in>set assignments. \<forall>code\<in>set rounds. \<exists>c\<in>set candidates. eq_ignore_ascii_case c code)"
    if "list_all (shares_size ?pools k) candidates" for k
  proof -
    have "is_ok (try_map (\<lambda>(seat, rounds). try_map (resolve_assignment ?pools candidates seat) rounds) es)
      \<longleftrightarrow> (\<forall>rounds\<in>set (map snd es). \<forall>code\<in>set rounds. \<exists>c\<in>set candidates. eq_ignore_ascii_case c code)" for es
      unfolding is_ok_try_map by (auto simp: is_ok_try_map resolve_assignment_ok[OF that])
    from this[of "List.enumerate 0 assignments"] show ?thesis by simp
  qed
  have lhs: "is_ok (for_chaos pools candidates assignments n q) \<longleftrightarrow> candidates \<noteq> []
      \<and> (length assignments = n \<and> (\<forall>rounds\<in>set assignments. length rounds = q)) \<and> is_ok (try_fold (check_candidate ?pools) candidates None)
      \<and> is_ok (try_map (\<lambda>(seat, rounds). try_map (resolve_assignment ?pools candidates seat) rounds) (List.enumerate 0 assignments))"
    unfolding for_chaos_def Let_def is_ok_iff and_then_eq_Ok ensure_eq_Ok list_all_iff by simp
  show ?thesis unfolding lhs validate_chaos_Ok using sizes rows by blast
qed

lemma draws_assignments:
  fixes seed_from :: "nat \<Rightarrow> 'r"
  assumes "ranges random_range" "candidates \<noteq> []"
  shows "\<exists>assignments. chaos_assignments seed_from random_range candidates n q seed = Ok assignments
     \<and> length assignments = n \<and> (\<forall>rounds\<in>set assignments. length rounds = q \<and> set rounds \<subseteq> set candidates)"
proof -
  let ?one = "\<lambda>_ rng. draw_then (random_below random_range (length candidates) rng) (\<lambda>i rng1. (index candidates i, rng1)) :: string draft_result \<times> 'r"
  have one: "draws (\<lambda>code. code \<in> set candidates) (?one x rng)" for x :: nat and rng
    by (rule draws_then[OF draws_random_below]) (use assms in auto)
  have row: "draws (list_all2 (\<lambda>_ code. code \<in> set candidates) [0..<q]) (draw_map ?one [0..<q] rng)" for rng
    by (rule draws_map) (rule one)
  have "draws (list_all2 (\<lambda>_ rounds. list_all2 (\<lambda>_ code. code \<in> set candidates) [0..<q] rounds) [0..<n])
      (draw_map (\<lambda>_. draw_map ?one [0..<q]) [0..<n] (seed_from seed))"
    by (rule draws_map) (rule row)
  then obtain assignments rng' where "draw_map (\<lambda>_. draw_map ?one [0..<q]) [0..<n] (seed_from seed) = (Ok assignments, rng')"
    "list_all2 (\<lambda>_ rounds. list_all2 (\<lambda>_ code. code \<in> set candidates) [0..<q] rounds) [0..<n] assignments" by (rule drawsE)
  moreover from this(2) have "length assignments = n" "\<forall>rounds\<in>set assignments. length rounds = q \<and> set rounds \<subseteq> set candidates"
    unfolding list_all2_upt by (auto simp: in_set_conv_nth subset_iff)
  ultimately show ?thesis using assms(2) by (simp add: chaos_assignments_def)
qed

section \<open>Properties of booster generation\<close>

text \<open>
  C23. Weighted selection is fair: of the equally likely rolls below the total weight, exactly
  \<open>w\<close> select the entry of weight \<open>w\<close>, provided the total fits the 64-bit counter. So a card (or a
  pack variant, or a sheet choice) comes up with the probability its weight states.
\<close>

theorem weighted_scan_fair:
  assumes "sum_list ws < 2 ^ 64" "i < length ws"
  shows "card {roll. roll < sum_list ws \<and> weighted_scan roll 0 (List.enumerate 0 ws) = i} = ws ! i"
proof -
  have "{roll. roll < sum_list ws \<and> weighted_scan roll 0 (List.enumerate 0 ws) = i}
      = {sum_list (take i ws) ..< sum_list (take (Suc i) ws)}" (is "?rolls = ?interval")
  proof (intro set_eqI iffI)
    fix roll assume "roll \<in> ?rolls"
    moreover from this obtain j where "j < length ws" "sum_list (take j ws) \<le> roll" "roll < sum_list (take (Suc j) ws)"
      using roll_interval[of roll ws] by blast
    ultimately show "roll \<in> ?interval" using weighted_scan_at[of 0 ws j roll 0] assms(1) by simp
  next
    fix roll assume roll: "roll \<in> ?interval"
    have "sum_list (take (Suc i) ws) + sum_list (drop (Suc i) ws) = sum_list ws"
      by (metis append_take_drop_id sum_list_append)
    with roll weighted_scan_at[of 0 ws i roll 0] assms show "roll \<in> ?rolls" by simp
  qed
  then show ?thesis using assms(2) by (simp add: take_Suc_conv_app_nth)
qed

theorem weighted_scan_fair_witness:
  "card {roll. roll < (10 :: nat) \<and> weighted_scan roll 0 (List.enumerate 0 [3, 0, 7]) = 2} = 7"
  using weighted_scan_fair[of "[3, 0, 7]" 2] by simp

definition sample_sheet_card :: "string \<Rightarrow> nat \<Rightarrow> sheet_card" where
  "sample_sheet_card number w = \<lparr>sc_name = ''Card '' @ number, sc_set_code = ''TST'', sc_collector_number = number,
     sc_rarity = RarityCommon, sc_weight = w, sc_colors = [], sc_cmc = 0, sc_type_line = [], sc_draft_effect = None\<rparr>"

definition sample_sheet :: sheet_definition where
  "sample_sheet = \<lparr>sh_cards = [sample_sheet_card ''1'' 2, sample_sheet_card ''2'' 1, sample_sheet_card ''3'' 4],
     sh_total_weight = 7, sh_allow_duplicates = False, sh_fixed = False, sh_foil = False, sh_balance_colors = False\<rparr>"

lemma last_ranges: "ranges (\<lambda>rng n. (n - 1, rng))"
  by (simp add: ranges_def)

text \<open>
  C22. Every booster comes from the right set and has the declared size. With pools of well-formed
  data, whichever constructor built the generator, opening the booster of a seat and round returns
  a pack, without a panic, for every random draw: its set is the one the layout of the draft names
  there, it has exactly the number of cards that set declares, every card is printed on a sheet of
  the set with all its attributes, and the ids are numbered by seat, round and position.
\<close>

theorem boosters_from_their_set:
  assumes "ranges random_range" "generator_for layout pools n q = Ok gen" "pools_ok pools" "seat < n" "p < q"
  shows "\<exists>pool\<in>set pools. \<exists>k pack rng'. generator_generate_pack random_range gen rng seat p = (Ok pack, rng')
     \<and> eq_ignore_ascii_case (lp_code pool) (set_code_for_seat_and_pack (SetSource layout) seat p)
     \<and> cards_per_pack (normalize_pool pool) = Some k \<and> length pack = k \<and> (\<forall>ci\<in>set pack. printed_in pool ci)
     \<and> map ci_instance_id pack = map (booster_id (lp_code pool) seat p) [0..<k]"
proof -
  from pool_of_layout[OF assms(2,4,5)] obtain pool where pool: "pool \<in> set pools" "pool_for_pack gen seat p = Ok (normalize_pool pool)"
    "eq_ignore_ascii_case (lp_code pool) (set_code_for_seat_and_pack (SetSource layout) seat p)" by blast
  from pools_okD[OF assms(3) pool(1)] obtain k where k: "pool_ok (normalize_pool pool)" "cards_per_pack (normalize_pool pool) = Some k" .
  from draws_booster[OF assms(1) pool(2) k, of rng] obtain pack rng'
    where r: "generator_generate_pack random_range gen rng seat p = (Ok pack, rng')"
      "map ci_instance_id pack = map (booster_id (lp_code pool) seat p) [0..<k]" "\<forall>ci\<in>set pack. printed_in (normalize_pool pool) ci"
    by (auto elim: drawsE)
  have "printed_in (normalize_pool pool) = printed_in pool"
    by (simp add: printed_in_def[abs_def] on_sheets_def normalize_pool_def)
  moreover have "length pack = k" using arg_cong[OF r(2), of length] by simp
  ultimately show ?thesis using pool(1,3) k(2) r by (intro bexI[of _ pool]) auto
qed

definition sample_slot :: "string \<Rightarrow> nat \<Rightarrow> pack_slot" where
  "sample_slot name n = \<lparr>sl_slot = name, sl_count = n, sl_choices = [\<lparr>wc_sheet = name, wc_weight = 1\<rparr>]\<rparr>"

definition sample_pool :: "string \<Rightarrow> limited_set_pool" where
  "sample_pool code = \<lparr>lp_code = code, lp_name = code, lp_release_date = None,
     lp_pack_variants = [\<lparr>pv_contents = [sample_slot ''common'' 2, sample_slot ''theList'' 1], pv_weight = 1\<rparr>],
     lp_pack_variants_total_weight = 1,
     lp_sheets = fmap_of_list [(''common'', sample_sheet), (''theList'', sample_sheet\<lparr>sh_cards := []\<rparr>)],
     lp_prints = [], lp_basic_lands = []\<rparr>"

lemma sample_pools_ok: "pools_ok [sample_pool ''TST'', sample_pool ''ALT'']"
  by code_simp

lemma sample_generator_Ok:
  "is_ok (generator_for (Chaos [''TST'', ''alt''] [[''ALT''], [''TST'']]) [sample_pool ''TST'', sample_pool ''ALT''] 2 1)"
  by code_simp

theorem boosters_from_their_set_witness:
  "\<exists>gen pack rng'. generator_for (Chaos [''TST'', ''alt''] [[''ALT''], [''TST'']]) [sample_pool ''TST'', sample_pool ''ALT''] 2 1 = Ok gen
     \<and> generator_generate_pack (\<lambda>rng n. (n - 1, rng)) gen () 0 0 = (Ok pack, rng')"
proof -
  from sample_generator_Ok obtain gen where gen: "generator_for (Chaos [''TST'', ''alt''] [[''ALT''], [''TST'']]) [sample_pool ''TST'', sample_pool ''ALT''] 2 1 = Ok gen"
    unfolding is_ok_iff by blast
  from boosters_from_their_set[OF last_ranges gen sample_pools_ok, of 0 0 "()"] gen show ?thesis by auto
qed

text \<open>
  C21. A generator keeps the promise of a pack source. Built from well-formed pools for the layout of
  the configuration, it deals, for every pod size the layout admits, one row of \<open>pack_count\<close>
  non-empty boosters per seat with all instance ids different, and never panics. This is what the
  safety of legacy sessions and of FIFO sessions asks of a source.
\<close>

theorem booster_source_keeps_promise:
  assumes "ranges random_range" "generator_for layout pools n (cf_pack_count config) = Ok gen" "pools_ok pools"
    "cf_source config = SetSource layout"
  shows "deals_full (generator_source random_range gen) config \<and> source_total (generator_source random_range gen) config"
proof -
  have all: "draws (full_matrix m (cf_pack_count config)) (ps_generate_packs (generator_source random_range gen) rng config m)"
    if "validate_layout (cf_source config) m (cf_pack_count config) = Ok ()" for m rng
  proof -
    have "generator_for layout pools m (cf_pack_count config) = Ok gen"
    proof (cases layout)
      case (Chaos candidates assignments)
      from assms(2) Chaos have "is_ok (for_chaos pools candidates assignments n (cf_pack_count config))" by (simp add: generator_for_def)
      then have "length assignments = n" using for_chaos_ok_iff validate_chaos_Ok by blast
      moreover from that assms(4) Chaos have "length assignments = m"
        by (auto simp: validate_layout_def map_err_def outcome_simps split: outcome.splits)
      ultimately show ?thesis using assms(2) by simp
    qed (use assms(2) in \<open>simp add: generator_for_def\<close>)
    from draws_packs[OF assms(1) this assms(3) refl] show ?thesis .
  qed
  have "case ps_generate_packs (generator_source random_range gen) rng config m of (Ok packs, _) \<Rightarrow> full_matrix m (cf_pack_count config) packs
      | (Err _, _) \<Rightarrow> True | (Panic, _) \<Rightarrow> False" "fst (ps_generate_packs (generator_source random_range gen) rng config m) \<noteq> Panic"
    if "validate_layout (cf_source config) m (cf_pack_count config) = Ok ()" for m rng
    by (rule drawsE[OF all[OF that, of rng]], simp)+
  then show ?thesis by (simp add: deals_full_def source_total_def)
qed

theorem booster_source_keeps_promise_witness:
  "\<exists>gen. generator_for (UniformByRound [''tst'']) [sample_pool ''TST'', sample_pool ''ALT''] 2 1 = Ok gen
     \<and> source_total (generator_source (\<lambda>(rng :: unit) n. (n - 1, rng)) gen) ((sample_config Premier 2)\<lparr>cf_source := SetSource (UniformByRound [''tst'']), cf_pack_count := 1\<rparr>)"
proof -
  let ?config = "(sample_config Premier 2)\<lparr>cf_source := SetSource (UniformByRound [''tst'']), cf_pack_count := 1\<rparr>"
  have "is_ok (generator_for (UniformByRound [''tst'']) [sample_pool ''TST'', sample_pool ''ALT''] 2 1)" by code_simp
  then obtain gen where gen: "generator_for (UniformByRound [''tst'']) [sample_pool ''TST'', sample_pool ''ALT''] 2 1 = Ok gen"
    unfolding is_ok_iff by blast
  then have "generator_for (UniformByRound [''tst'']) [sample_pool ''TST'', sample_pool ''ALT''] 2 (cf_pack_count ?config) = Ok gen" by simp
  from booster_source_keeps_promise[OF _ this sample_pools_ok, of "\<lambda>(rng :: unit) n. (n - 1, rng)"] gen show ?thesis by (simp add: ranges_def)
qed

text \<open>
  Setting up a Chaos draft. When every candidate names a supplied set and these sets declare one
  common pack size, the drawn assignments are accepted by the layout check of the session and by
  the generator; and the generator refuses every assignment that the layout check refuses, and every
  candidate list without such a size.
\<close>

lemma chaos_setup:
  assumes "ranges random_range" "candidates \<noteq> []"
  shows "\<exists>assignments. chaos_assignments seed_from random_range candidates n q seed = Ok assignments
     \<and> validate_for_draft (Chaos candidates assignments) n q = Ok ()
     \<and> (is_ok (for_chaos pools candidates assignments n q)
          \<longleftrightarrow> (\<exists>k. list_all (shares_size (map normalize_pool pools) k) candidates))
     \<and> (\<forall>other. is_ok (for_chaos pools candidates other n q)
          \<longleftrightarrow> is_ok (for_chaos pools candidates assignments n q) \<and> validate_for_draft (Chaos candidates other) n q = Ok ())"
proof -
  from draws_assignments[OF assms, of seed_from n q seed] obtain assignments
    where a: "chaos_assignments seed_from random_range candidates n q seed = Ok assignments" "length assignments = n"
      "\<forall>rounds\<in>set assignments. length rounds = q \<and> set rounds \<subseteq> set candidates" by blast
  have "\<exists>c\<in>set candidates. eq_ignore_ascii_case c code" if "rounds \<in> set assignments" "code \<in> set rounds" for rounds code
    using a(3) that eq_ignore_ascii_case_refl by blast
  with a(2,3) assms(2) have "validate_for_draft (Chaos candidates assignments) n q = Ok ()" unfolding validate_chaos_Ok by blast
  with a(1) show ?thesis unfolding for_chaos_ok_iff by blast
qed

section \<open>Sheets that cannot be drawn\<close>

definition never_err :: "('e, 'a) outcome \<times> 'r \<Rightarrow> bool" where
  "never_err d \<longleftrightarrow> (case fst d of Ok _ \<Rightarrow> True | Err _ \<Rightarrow> False | Panic \<Rightarrow> True)"

lemma never_err_simps [simp]: "never_err (Ok a, rng)" "\<not> never_err (Err e, rng)" "never_err (Panic, rng)"
  by (simp_all add: never_err_def)

lemma never_err_then: "never_err d \<Longrightarrow> (\<And>a rng. never_err (f a rng)) \<Longrightarrow> never_err (draw_then d f)"
  by (cases d; cases "fst d") auto

lemma never_err_map: "(\<And>x rng. never_err (f x rng)) \<Longrightarrow> never_err (draw_map f xs rng)"
  by (induction xs arbitrary: rng) (auto intro!: never_err_then)

lemma never_err_outcome: "(\<And>e. r \<noteq> Err e) \<Longrightarrow> never_err (r, rng)"
  by (cases r) auto

lemma never_err_below: "never_err (random_below random_range n rng)"
  by (simp add: random_below_def split: prod.split)

lemma never_err_select: "never_err (weighted_select random_range n ws rng)"
  by (auto simp: weighted_select_def intro!: never_err_then never_err_below)

lemma never_err_index: "never_err (index xs i, rng)"
  by (rule never_err_outcome) simp

lemma never_err_indices: "never_err (try_map (index xs) is, rng)"
  using try_map_Err[of "index xs" "is"] by (intro never_err_outcome) auto

lemma never_err_positions: "never_err (draw_positions random_range n pool remaining rng)"
  by (induction n arbitrary: pool remaining rng)
     (auto simp: Let_def intro!: never_err_then never_err_below never_err_index split: prod.split)

lemma never_err_slot: "never_err (draw_slot random_range pool slot rng)"
proof -
  have "never_err (select_sheet_cards random_range sheet n rng)" for sheet n rng
    by (auto simp: select_sheet_cards_def weighted_select_n_def weighted_select_n_excluding_def Let_def
        intro!: never_err_map never_err_select never_err_positions)
  moreover have "never_err (resolve_sheet_name random_range cs rng)" for cs rng
    by (auto simp: resolve_sheet_name_def intro!: never_err_then never_err_select never_err_index)
  ultimately show ?thesis
    by (auto simp: draw_slot_def intro!: never_err_then never_err_indices split: option.split)
qed

lemma panics_then: "never_err d \<Longrightarrow> (\<And>a rng. d = (Ok a, rng) \<Longrightarrow> fst (f a rng) = Panic) \<Longrightarrow> fst (draw_then d f) = Panic"
  by (cases d; cases "fst d") auto

lemma draw_then_Panic: "fst d = Panic \<Longrightarrow> fst (draw_then d f) = Panic"
  by (cases d) simp

lemma panics_map:
  assumes "x \<in> set xs" "\<And>rng. fst (f x rng) = Panic" "\<And>y rng. never_err (f y rng)"
  shows "fst (draw_map f xs rng) = Panic"
  using assms(1)
proof (induction xs arbitrary: rng)
  case (Cons y ys)
  show ?case
  proof (cases "y = x")
    case True
    then show ?thesis unfolding draw_map.simps using assms(2)[of rng] assms(3)[of x rng] by (intro panics_then) auto
  next
    case False
    with Cons have "fst (draw_map f ys r) = Panic" for r by simp
    then show ?thesis unfolding draw_map.simps
      by (intro panics_then assms(3)) (auto intro!: panics_then never_err_map assms(3), metis fst_conv outcome.distinct(3))
  qed
qed simp

lemma empty_duplicate_slot_panics:
  assumes "sl_choices slot = [choice]" "fmlookup (lp_sheets pool) (wc_sheet choice) = Some sheet"
    "sh_cards sheet = []" "sh_allow_duplicates sheet" "\<not> sh_fixed sheet" "0 < sl_count slot"
  shows "fst (draw_slot random_range pool slot rng) = Panic"
proof -
  obtain n where n: "sl_count slot = Suc n" using assms(6) by (cases "sl_count slot") auto
  show ?thesis
  proof (cases "sh_total_weight sheet = 0")
    case True
    with assms n show ?thesis
      by (simp add: draw_slot_def resolve_sheet_name_def select_sheet_cards_def weighted_select_def random_below_def upt_rec[of 0])
  next
    case False
    let ?f = "\<lambda>_ :: nat. weighted_select random_range (sh_total_weight sheet) []"
    have "draws (list_all2 (\<lambda>_ i. i = 0) [0..<Suc n]) (draw_map ?f [0..<Suc n] rng)"
      by (rule draws_map) (use False in \<open>simp add: weighted_select_def random_below_def split: prod.split\<close>)
    then obtain idxs rng2 where "draw_map ?f [0..<Suc n] rng = (Ok idxs, rng2)" "list_all2 (\<lambda>_ i. i = 0) [0..<Suc n] idxs" by (rule drawsE)
    moreover from this(2) obtain rest where "idxs = 0 # rest" by (auto simp: upt_conv_Cons list_all2_Cons1 simp del: upt_Suc)
    ultimately show ?thesis using assms n by (simp add: draw_slot_def resolve_sheet_name_def select_sheet_cards_def index_def del: upt_Suc)
  qed
qed

lemma empty_duplicate_sheet_panics:
  assumes "pool_for_pack gen seat p = Ok pool"
    "\<And>variant. variant \<in> set (lp_pack_variants pool) \<Longrightarrow> \<exists>slot\<in>set (pv_contents variant). 0 < sl_count slot
       \<and> (\<exists>choice sheet. sl_choices slot = [choice] \<and> fmlookup (lp_sheets pool) (wc_sheet choice) = Some sheet
            \<and> sh_cards sheet = [] \<and> sh_allow_duplicates sheet \<and> \<not> sh_fixed sheet)"
  shows "fst (generator_generate_pack random_range gen rng seat p) = Panic"
proof -
  have "fst (draw_map (draw_slot random_range pool) (pv_contents variant) rng1) = Panic"
    if "variant \<in> set (lp_pack_variants pool)" for variant rng1
  proof -
    from assms(2)[OF that] obtain slot where slot: "slot \<in> set (pv_contents variant)" "\<And>r. fst (draw_slot random_range pool slot r) = Panic"
      using empty_duplicate_slot_panics by meson
    show ?thesis by (rule panics_map[where f = "draw_slot random_range pool", OF slot never_err_slot])
  qed
  moreover have "never_err (select_variant random_range pool rng)"
    by (auto simp: select_variant_def intro!: never_err_then never_err_select never_err_index)
  moreover have "variant \<in> set (lp_pack_variants pool)" if "select_variant random_range pool rng = (Ok variant, rng1)" for variant rng1
    using that by (auto simp: select_variant_def draw_then_def index_def split: prod.splits outcome.splits if_splits)
  ultimately show ?thesis
    unfolding generator_generate_pack_def assms(1) draw_then_simps Let_def by - (rule panics_then, auto intro: draw_then_Panic)
qed

end
