(* ===== verification/Set_Extraction.thy ===== *)
theory Set_Extraction
  imports Complex_Main Booster Pool_View
begin

text \<open>
  The offline extraction of set pools from card data, \<open>crates/draft-core/src/extraction.rs\<close>, on the
  parsed records (reading files and decoding JSON is left out), and the recogniser of draft-time
  effects in card text that it calls, \<open>draft_effect_from_oracle_text\<close> of
  \<open>crates/phase-parser/src/parser/oracle.rs\<close>. A \<open>HashMap\<close> is the list of its entries in iteration
  order, so that what depends on that order is visible. Strings are byte strings; \<open>to_lowercase\<close>
  follows the Unicode tables and is an argument. The lemmas show what an extracted pool contains,
  when it does not depend on the iteration order, and what a generator does with it.
\<close>

section \<open>Draft effects in card text\<close>

definition nom_tag :: "string \<Rightarrow> string \<Rightarrow> string option" where
  "nom_tag t input = (if take (length t) input = t then Some (drop (length t) input) else None)"

definition multispace :: "char \<Rightarrow> bool" where
  "multispace c \<longleftrightarrow> c = CHR '' '' \<or> c = CHR 0x09 \<or> c = CHR 0x0D \<or> c = CHR 0x0A"

definition multispace0 :: "string \<Rightarrow> string" where
  "multispace0 input = dropWhile multispace input"

definition FACE_UP :: string where
  "FACE_UP = ''draft this card face up''"

definition ADDITIONAL_CARD :: string where
  "ADDITIONAL_CARD = ''as you draft a card, you may draft an additional card from that booster pack''"

definition PUT_BACK :: string where
  "PUT_BACK = ''if you do, put this card into that booster pack''"

definition additional_pick_text :: "string \<Rightarrow> string option" where
  "additional_pick_text input =
     Option.bind (nom_tag FACE_UP input) (\<lambda>r1.
     Option.bind (nom_tag ''.'' r1) (\<lambda>r2.
     Option.bind (nom_tag ADDITIONAL_CARD (multispace0 r2)) (\<lambda>r3.
     Option.bind (nom_tag ''.'' r3) (\<lambda>r4.
     Option.bind (nom_tag PUT_BACK (multispace0 r4)) (\<lambda>r5.
       let r6 = (case nom_tag ''.'' r5 of None \<Rightarrow> r5 | Some r \<Rightarrow> r); r7 = multispace0 r6 in
       if r7 = [] then Some r7 else None)))))"

definition is_char_boundary :: "string \<Rightarrow> nat \<Rightarrow> bool" where
  "is_char_boundary s i \<longleftrightarrow> i = 0 \<or> i = length s
     \<or> i < length s \<and> \<not> (128 \<le> (of_char (s ! i) :: nat) \<and> (of_char (s ! i) :: nat) < 192)"

definition draft_effect_from_oracle_text :: "(string \<Rightarrow> string) \<Rightarrow> string \<Rightarrow> ('e, draft_effect option) outcome" where
  "draft_effect_from_oracle_text to_lowercase oracle_text =
     (let lower = to_lowercase oracle_text in
      case additional_pick_text lower of
        None \<Rightarrow> Ok None
      | Some rest \<Rightarrow>
          if is_char_boundary oracle_text (length lower - length rest) then Ok (Some AdditionalPick) else Panic)"

section \<open>Card data\<close>

record mtgjson_card =
  mc_uuid :: string
  mc_name :: string
  mc_rarity :: string
  mc_number :: string
  mc_set_code :: string
  mc_booster_types :: "string list"
  mc_supertypes :: "string list"
  mc_colors :: "string list"
  mc_mana_value :: rat
  mc_type_line :: string
  mc_text :: "string option"

record mtgjson_sheet =
  ms_cards :: "(string \<times> nat) list"
  ms_total_weight :: nat
  ms_allow_duplicates :: bool
  ms_fixed :: bool
  ms_foil :: bool
  ms_balance_colors :: bool

record mtgjson_booster_variant =
  mv_contents :: "(string \<times> nat) list"
  mv_weight :: nat

record mtgjson_booster_config =
  mb_sheets :: "(string \<times> mtgjson_sheet) list"
  mb_boosters :: "mtgjson_booster_variant list"
  mb_boosters_total_weight :: nat

record mtgjson_booster =
  bo_play :: "mtgjson_booster_config option"
  bo_draft :: "mtgjson_booster_config option"
  bo_default :: "mtgjson_booster_config option"

record mtgjson_set_data =
  sd_code :: string
  sd_name :: string
  sd_release_date :: "string option"
  sd_booster :: "mtgjson_booster option"
  sd_cards :: "mtgjson_card list"

definition draftable :: "mtgjson_booster \<Rightarrow> mtgjson_booster_config option" where
  "draftable b = (case bo_play b of Some c \<Rightarrow> Some c | None \<Rightarrow>
     (case bo_draft b of Some c \<Rightarrow> Some c | None \<Rightarrow> bo_default b))"

definition parse_rarity :: "string \<Rightarrow> rarity" where
  "parse_rarity s =
     (if s = ''common'' then RarityCommon else if s = ''uncommon'' then RarityUncommon
      else if s = ''rare'' then RarityRare else if s = ''mythic'' then RarityMythic
      else if s = ''special'' then RaritySpecial else if s = ''bonus'' then RarityBonus else RaritySpecial)"

definition f64_as_u8 :: "rat \<Rightarrow> nat" where
  "f64_as_u8 v = (if v < 0 then 0 else if 255 < v then 255 else nat \<lfloor>v\<rfloor>)"

section \<open>Extraction\<close>

datatype extraction_error = ParseError string | ExtractionOther string

type_synonym 'a extracted = "(extraction_error, 'a) outcome"

type_synonym card_index = "(string, mtgjson_card) fmap"

definition build_card_index :: "mtgjson_set_data list \<Rightarrow> card_index" where
  "build_card_index sets = foldl (\<lambda>m c. fmupd (mc_uuid c) c m) fmempty (concat (map sd_cards sets))"

definition card_effect :: "(string \<Rightarrow> string) \<Rightarrow> mtgjson_card \<Rightarrow> draft_effect option extracted" where
  "card_effect to_lowercase c =
     (case mc_text c of None \<Rightarrow> Ok None | Some oracle_text \<Rightarrow> draft_effect_from_oracle_text to_lowercase oracle_text)"

definition extract_card :: "(string \<Rightarrow> string) \<Rightarrow> mtgjson_card \<times> nat \<Rightarrow> sheet_card extracted" where
  "extract_card to_lowercase entry = (case entry of (c, weight) \<Rightarrow>
     and_then (card_effect to_lowercase c) (\<lambda>effect.
       Ok \<lparr>sc_name = mc_name c, sc_set_code = mc_set_code c, sc_collector_number = mc_number c,
           sc_rarity = parse_rarity (mc_rarity c), sc_weight = weight, sc_colors = mc_colors c,
           sc_cmc = f64_as_u8 (mc_mana_value c), sc_type_line = mc_type_line c, sc_draft_effect = effect\<rparr>))"

definition resolved_entries :: "card_index \<Rightarrow> mtgjson_sheet \<Rightarrow> (mtgjson_card \<times> nat) list" where
  "resolved_entries idx sheet =
     List.map_filter (\<lambda>(uuid, weight). map_option (\<lambda>card. (card, weight)) (fmlookup idx uuid)) (ms_cards sheet)"

definition extract_sheet ::
  "(string \<Rightarrow> string) \<Rightarrow> card_index \<Rightarrow> string \<times> mtgjson_sheet \<Rightarrow> (string \<times> sheet_definition) extracted" where
  "extract_sheet to_lowercase idx entry = (case entry of (sheet_name, sheet) \<Rightarrow>
     and_then (try_map (extract_card to_lowercase) (resolved_entries idx sheet)) (\<lambda>cards.
       Ok (sheet_name, \<lparr>sh_cards = sort_key sc_name cards, sh_total_weight = ms_total_weight sheet,
         sh_allow_duplicates = ms_allow_duplicates sheet, sh_fixed = ms_fixed sheet, sh_foil = ms_foil sheet,
         sh_balance_colors = ms_balance_colors sheet\<rparr>)))"

definition insert_all :: "('k \<times> 'v) list \<Rightarrow> ('k, 'v) fmap" where
  "insert_all entries = foldl (\<lambda>m (k, v). fmupd k v m) fmempty entries"

definition extract_slot :: "string \<times> nat \<Rightarrow> pack_slot" where
  "extract_slot entry = (case entry of (sheet_name, cnt) \<Rightarrow>
     \<lparr>sl_slot = sheet_name, sl_count = cnt, sl_choices = [\<lparr>wc_sheet = sheet_name, wc_weight = 1\<rparr>]\<rparr>)"

definition extract_variant :: "mtgjson_booster_variant \<Rightarrow> pack_variant" where
  "extract_variant variant = \<lparr>pv_contents = sort_key sl_slot (map extract_slot (mv_contents variant)), pv_weight = mv_weight variant\<rparr>"

definition uuids_in_sheets :: "mtgjson_booster_config \<Rightarrow> string list" where
  "uuids_in_sheets booster = concat (map (\<lambda>(_, sheet). map fst (ms_cards sheet)) (mb_sheets booster))"

definition extract_print :: "string list \<Rightarrow> mtgjson_card \<Rightarrow> limited_card_print" where
  "extract_print uuids c = \<lparr>pp_print_id = mc_uuid c, pp_name = mc_name c, pp_set_code = mc_set_code c,
     pp_collector_number = mc_number c, pp_rarity = parse_rarity (mc_rarity c), pp_booster_eligible = mc_uuid c \<in> set uuids\<rparr>"

definition extract_prints :: "string list \<Rightarrow> mtgjson_card list \<Rightarrow> limited_card_print list" where
  "extract_prints uuids cards =
     map (extract_print uuids) (filter (\<lambda>c. ''play'' \<in> set (mc_booster_types c) \<or> mc_uuid c \<in> set uuids) cards)"

definition sort_dedup :: "string list \<Rightarrow> string list" where
  "sort_dedup names = remdups_adj (sort names)"

definition land_sheet_names :: "(string \<Rightarrow> string) \<Rightarrow> (string, sheet_definition) fmap \<Rightarrow> string list" where
  "land_sheet_names to_lowercase sheets =
     concat (map (\<lambda>name. case fmlookup sheets name of None \<Rightarrow> [] | Some sheet \<Rightarrow>
         map sc_name (filter (\<lambda>c. sc_rarity c = RarityCommon) (sh_cards sheet)))
       (filter (\<lambda>name. str_contains (to_lowercase name) ''land'') (sorted_list_of_fset (fmdom sheets))))"

definition extract_basic_lands ::
  "(string \<Rightarrow> string) \<Rightarrow> mtgjson_card list \<Rightarrow> (string, sheet_definition) fmap \<Rightarrow> string list" where
  "extract_basic_lands to_lowercase cards sheets =
     (let basic_lands = sort_dedup (map mc_name (filter (\<lambda>c. ''Basic'' \<in> set (mc_supertypes c)) cards)) in
      if basic_lands = [] then sort_dedup (land_sheet_names to_lowercase sheets) else basic_lands)"

definition extract_set_pool_indexed ::
  "(string \<Rightarrow> string) \<Rightarrow> mtgjson_set_data \<Rightarrow> card_index \<Rightarrow> limited_set_pool option extracted" where
  "extract_set_pool_indexed to_lowercase data idx =
     (case Option.bind (sd_booster data) draftable of
        None \<Rightarrow> Ok None
      | Some booster \<Rightarrow>
          and_then (try_map (extract_sheet to_lowercase idx) (mb_sheets booster)) (\<lambda>entries.
            let sheets = insert_all entries in
            Ok (Some \<lparr>lp_code = sd_code data, lp_name = sd_name data, lp_release_date = sd_release_date data,
              lp_pack_variants = normalize_pack_variants (sd_code data) (map extract_variant (mb_boosters booster)),
              lp_pack_variants_total_weight = mb_boosters_total_weight booster, lp_sheets = sheets,
              lp_prints = extract_prints (uuids_in_sheets booster) (sd_cards data),
              lp_basic_lands = extract_basic_lands to_lowercase (sd_cards data) sheets\<rparr>)))"

definition extract_set_pool :: "(string \<Rightarrow> string) \<Rightarrow> mtgjson_set_data \<Rightarrow> limited_set_pool option extracted" where
  "extract_set_pool to_lowercase data = extract_set_pool_indexed to_lowercase data (build_card_index [data])"

definition extract_pools :: "(string \<Rightarrow> string) \<Rightarrow> mtgjson_set_data list \<Rightarrow> (string, limited_set_pool) fmap extracted" where
  "extract_pools to_lowercase datas =
     try_fold (\<lambda>data pools. and_then (extract_set_pool_indexed to_lowercase data (build_card_index datas)) (\<lambda>found.
       Ok (case found of None \<Rightarrow> pools | Some pool \<Rightarrow> fmupd (to_lowercase (lp_code pool)) pool pools))) datas fmempty"

section \<open>The recogniser accepts a grammar\<close>

lemma nom_tag_Some: "nom_tag t input = Some r \<longleftrightarrow> input = t @ r"
  by (auto simp: nom_tag_def) (metis append_take_drop_id)

lemma multispace0_skip:
  assumes "list_all multispace w" "r = [] \<or> \<not> multispace (hd r)"
  shows "multispace0 (w @ r) = r"
  using assms by (induction w) (auto simp: multispace0_def dropWhile_eq_self_iff)

lemma multispace0_split: "\<exists>w. input = w @ multispace0 input \<and> list_all multispace w"
  by (intro exI[of _ "takeWhile multispace input"]) (auto simp: multispace0_def list_all_iff dest: set_takeWhileD)

definition additional_pick_grammar :: "string \<Rightarrow> bool" where
  "additional_pick_grammar input \<longleftrightarrow> (\<exists>w1 w2 w3 stop. list_all multispace w1 \<and> list_all multispace w2 \<and> list_all multispace w3
     \<and> (stop = [] \<or> stop = ''.'') \<and> input = FACE_UP @ ''.'' @ w1 @ ADDITIONAL_CARD @ ''.'' @ w2 @ PUT_BACK @ stop @ w3)"

lemma additional_pick_text_sound:
  assumes "additional_pick_text input = Some r"
  shows "r = [] \<and> additional_pick_grammar input"
proof -
  from assms obtain r2 r4 r5 where r: "input = FACE_UP @ ''.'' @ r2" "multispace0 r2 = ADDITIONAL_CARD @ ''.'' @ r4"
    "multispace0 r4 = PUT_BACK @ r5" "multispace0 (case nom_tag ''.'' r5 of None \<Rightarrow> r5 | Some u \<Rightarrow> u) = []" "r = []"
    unfolding additional_pick_text_def bind_eq_Some_conv nom_tag_Some Let_def by (auto split: if_splits)
  from multispace0_split[of r2] r(2) obtain w1 where w1: "r2 = w1 @ ADDITIONAL_CARD @ ''.'' @ r4" "list_all multispace w1" by auto
  from multispace0_split[of r4] r(3) obtain w2 where w2: "r4 = w2 @ PUT_BACK @ r5" "list_all multispace w2" by auto
  have "\<exists>stop w3. r5 = stop @ w3 \<and> (stop = [] \<or> stop = ''.'') \<and> list_all multispace w3"
  proof (cases "nom_tag ''.'' r5")
    case None
    with r(4) multispace0_split[of r5] show ?thesis by auto
  next
    case (Some u)
    with r(4) multispace0_split[of u] have "r5 = ''.'' @ u" "list_all multispace u" by (auto simp: nom_tag_Some)
    then show ?thesis by blast
  qed
  with r(1,5) w1 w2 show ?thesis unfolding additional_pick_grammar_def by auto
qed

lemma additional_pick_text_complete:
  assumes "additional_pick_grammar input"
  shows "additional_pick_text input = Some []"
proof -
  from assms obtain w1 w2 w3 stop where w: "list_all multispace w1" "list_all multispace w2" "list_all multispace w3"
    "stop = [] \<or> stop = ''.''" "input = FACE_UP @ ''.'' @ w1 @ ADDITIONAL_CARD @ ''.'' @ w2 @ PUT_BACK @ stop @ w3"
    unfolding additional_pick_grammar_def by blast
  have tag: "nom_tag t (t @ r) = Some r" for t r by (simp add: nom_tag_Some)
  have s1: "multispace0 (w1 @ ADDITIONAL_CARD @ r) = ADDITIONAL_CARD @ r" for r
    by (rule multispace0_skip[OF w(1)]) (simp add: ADDITIONAL_CARD_def multispace_def)
  have s2: "multispace0 (w2 @ PUT_BACK @ r) = PUT_BACK @ r" for r
    by (rule multispace0_skip[OF w(2)]) (simp add: PUT_BACK_def multispace_def)
  have s3: "multispace0 w3 = []" using multispace0_skip[OF w(3), of "[]"] by simp
  have stop: "(case nom_tag ''.'' (stop @ w3) of None \<Rightarrow> stop @ w3 | Some u \<Rightarrow> u) = w3"
  proof (cases "stop = ''.''")
    case True
    then show ?thesis using tag[of "''.''" w3] by simp
  next
    case False
    with w(4) have "stop = []" by simp
    moreover have "nom_tag ''.'' w3 = None" using w(3) by (cases w3) (auto simp: nom_tag_def multispace_def)
    ultimately show ?thesis by simp
  qed
  show ?thesis
    using tag[of "''.''"] by (simp add: w(5) additional_pick_text_def tag s1 s2 stop s3)
qed

text \<open>
  C25. The draft effect of a card text is recognised exactly when the text, in lower case, consists of
  the three sentences of the effect in order, with any white space between them, an optional last
  full stop and trailing white space. For a text whose lower-case form has the same number of bytes,
  recognition never slices outside it.
\<close>

theorem draft_effect_recognised_exactly:
  assumes "length (to_lowercase text) = length text"
  shows "draft_effect_from_oracle_text to_lowercase text
    = Ok (if additional_pick_grammar (to_lowercase text) then Some AdditionalPick else None)"
proof (cases "additional_pick_text (to_lowercase text)")
  case None
  then show ?thesis using additional_pick_text_complete by (auto simp: draft_effect_from_oracle_text_def)
next
  case (Some r)
  with additional_pick_text_sound[OF Some] assms show ?thesis
    by (simp add: draft_effect_from_oracle_text_def is_char_boundary_def)
qed

theorem draft_effect_recognised_exactly_witness:
  "(draft_effect_from_oracle_text (map ascii_lower)
     ''Draft this card face up. As you draft a card, you may draft an additional card from that booster pack. If you do, put this card into that booster pack.''
     :: draft_effect option extracted) = Ok (Some AdditionalPick)
   \<and> additional_pick_grammar (map ascii_lower
     ''Draft this card face up. As you draft a card, you may draft an additional card from that booster pack. If you do, put this card into that booster pack.'')"
proof -
  let ?t = "''Draft this card face up. As you draft a card, you may draft an additional card from that booster pack. If you do, put this card into that booster pack.''"
  have "(draft_effect_from_oracle_text (map ascii_lower) ?t :: draft_effect option extracted) = Ok (Some AdditionalPick)" by code_simp
  with draft_effect_recognised_exactly[of "map ascii_lower" ?t, where 'a = extraction_error] show ?thesis by (simp split: if_splits)
qed

section \<open>What an extracted pool holds\<close>

lemma insert_all_lookup: "distinct (map fst es) \<Longrightarrow> fmlookup (insert_all es) k = map_of es k"
proof -
  have "distinct (map fst es) \<Longrightarrow> fmlookup (foldl (\<lambda>m (k, v). fmupd k v m) m es) k
      = (case map_of es k of Some v \<Rightarrow> Some v | None \<Rightarrow> fmlookup m k)" for m
  proof (induction es arbitrary: m)
    case (Cons e es)
    obtain a b where e: "e = (a, b)" by (cases e)
    from Cons show ?case by (auto simp: e map_of_eq_None_iff[symmetric] split: option.splits)
  qed simp
  from this[of fmempty] show "distinct (map fst es) \<Longrightarrow> fmlookup (insert_all es) k = map_of es k"
    by (simp add: insert_all_def split: option.splits)
qed

lemma insert_all_cong:
  assumes "mset es = mset es'" "distinct (map fst es)"
  shows "insert_all es = insert_all es'"
proof -
  have d: "distinct (map fst es')" using assms by (metis mset_eq_imp_distinct_iff mset_map)
  have "map_of es = map_of es'" using assms d by (metis map_of_inject_set set_mset_mset)
  then show ?thesis using insert_all_lookup[OF assms(2)] insert_all_lookup[OF d] by (intro fmap_ext) simp
qed

lemma extract_sheet_Ok:
  assumes "extract_sheet to_lowercase idx (name, sheet) = Ok e"
  obtains cards where "try_map (extract_card to_lowercase) (resolved_entries idx sheet) = Ok cards" "fst e = name"
    "sh_cards (snd e) = sort_key sc_name cards" "sh_total_weight (snd e) = ms_total_weight sheet"
    "sh_allow_duplicates (snd e) = ms_allow_duplicates sheet" "sh_fixed (snd e) = ms_fixed sheet" "sh_foil (snd e) = ms_foil sheet"
  using assms by (auto simp: extract_sheet_def outcome_simps)

definition printing_of :: "sheet_card \<Rightarrow> string \<times> string \<times> string \<times> nat" where
  "printing_of c = (sc_name c, sc_set_code c, sc_collector_number c, sc_weight c)"

definition entry_printing :: "mtgjson_card \<times> nat \<Rightarrow> string \<times> string \<times> string \<times> nat" where
  "entry_printing e = (mc_name (fst e), mc_set_code (fst e), mc_number (fst e), snd e)"

lemma extract_card_printing: "extract_card to_lowercase e = Ok c \<Longrightarrow> printing_of c = entry_printing e"
  by (cases e) (auto simp: extract_card_def outcome_simps printing_of_def entry_printing_def)

lemma extract_cards_printings:
  "try_map (extract_card to_lowercase) es = Ok cards \<Longrightarrow> map printing_of cards = map entry_printing es"
  unfolding try_map_Ok_iff by (induction rule: list_all2_induct) (auto dest: extract_card_printing)

lemma extracted_sheets:
  assumes "extract_set_pool_indexed to_lowercase data idx = Ok (Some pool)"
  obtains booster entries where "Option.bind (sd_booster data) draftable = Some booster"
    "list_all2 (\<lambda>x y. extract_sheet to_lowercase idx x = Ok y) (mb_sheets booster) entries" "lp_sheets pool = insert_all entries"
    "lp_pack_variants pool = normalize_pack_variants (sd_code data) (map extract_variant (mb_boosters booster))"
    "lp_pack_variants_total_weight pool = mb_boosters_total_weight booster"
    "lp_prints pool = extract_prints (uuids_in_sheets booster) (sd_cards data)"
    "lp_basic_lands pool = extract_basic_lands to_lowercase (sd_cards data) (insert_all entries)"
  using assms
  by (cases "Option.bind (sd_booster data) draftable") (auto simp: extract_set_pool_indexed_def outcome_simps Let_def try_map_Ok_iff)

lemma extracted_names:
  "list_all2 (\<lambda>x y. extract_sheet to_lowercase idx x = Ok y) sheets entries \<Longrightarrow> map fst entries = map fst sheets"
  by (induction rule: list_all2_induct) (auto elim: extract_sheet_Ok)

lemma extracted_sheet:
  assumes "list_all2 (\<lambda>x y. extract_sheet to_lowercase idx x = Ok y) sheets entries" "distinct (map fst sheets)"
    "(name, sheet) \<in> set sheets"
  shows "\<exists>sh. fmlookup (insert_all entries) name = Some sh \<and> extract_sheet to_lowercase idx (name, sheet) = Ok (name, sh)"
proof -
  from assms(3) obtain i where i: "i < length sheets" "sheets ! i = (name, sheet)" by (auto simp: in_set_conv_nth)
  with assms(1) have e: "extract_sheet to_lowercase idx (name, sheet) = Ok (entries ! i)" "entries ! i \<in> set entries"
    by (auto simp: list_all2_conv_all_nth)
  from e(1) have "fst (entries ! i) = name" by (elim extract_sheet_Ok)
  then have eq: "entries ! i = (name, snd (entries ! i))" by (cases "entries ! i") simp
  have d: "distinct (map fst entries)" using extracted_names[OF assms(1)] assms(2) by simp
  have "map_of entries name = Some (snd (entries ! i))" using e(2) eq d by (metis map_of_eq_Some_iff)
  then show ?thesis using insert_all_lookup[OF d] e(1) eq by auto
qed

lemma resolved_weights:
  "\<forall>e\<in>set es. fst e \<in> fset (fmdom idx)
   \<Longrightarrow> map snd (List.map_filter (\<lambda>(uuid, weight). map_option (\<lambda>c. (c, weight)) (fmlookup idx uuid)) es) = map snd es"
  by (induction es) (auto simp: List.map_filter_simps split: option.splits)

lemma sort_dedup: "sorted (sort_dedup names) \<and> distinct (sort_dedup names) \<and> set (sort_dedup names) = set names"
  by (simp add: sort_dedup_def sorted_remdups_adj distinct_remdups_adj_sorted)

text \<open>
  Extraction keeps the data. Every sheet of the draftable booster becomes a sheet of the pool, with
  the printings that the card index resolves, each as often and with the same weight as the data has it,
  ordered by name, and with the declared total weight and flags; when every card is resolved, the
  weights add up to those of the data. The basic lands are listed once each, in order.
\<close>

lemma extraction_keeps_sheets:
  assumes "extract_set_pool_indexed to_lowercase data idx = Ok (Some pool)"
    "Option.bind (sd_booster data) draftable = Some booster" "distinct (map fst (mb_sheets booster))"
    "(name, sheet) \<in> set (mb_sheets booster)"
  shows "\<exists>sh. fmlookup (lp_sheets pool) name = Some sh \<and> sorted (map sc_name (sh_cards sh))
     \<and> mset (map printing_of (sh_cards sh)) = mset (map entry_printing (resolved_entries idx sheet))
     \<and> sh_total_weight sh = ms_total_weight sheet
     \<and> sh_allow_duplicates sh = ms_allow_duplicates sheet \<and> sh_fixed sh = ms_fixed sheet \<and> sh_foil sh = ms_foil sheet
     \<and> ((\<forall>e\<in>set (ms_cards sheet). fst e \<in> fset (fmdom idx)) \<longrightarrow>
          sum_list (map sc_weight (sh_cards sh)) = sum_list (map snd (ms_cards sheet)))
     \<and> sorted (lp_basic_lands pool) \<and> distinct (lp_basic_lands pool)"
proof -
  from extracted_sheets[OF assms(1)] assms(2) obtain entries where
    e: "list_all2 (\<lambda>x y. extract_sheet to_lowercase idx x = Ok y) (mb_sheets booster) entries" "lp_sheets pool = insert_all entries"
    "lp_basic_lands pool = extract_basic_lands to_lowercase (sd_cards data) (insert_all entries)" by (metis option.inject)
  from extracted_sheet[OF e(1) assms(3,4)] obtain sh where
    sh: "fmlookup (lp_sheets pool) name = Some sh" "extract_sheet to_lowercase idx (name, sheet) = Ok (name, sh)" using e(2) by auto
  from extract_sheet_Ok[OF sh(2)] obtain cards where c: "try_map (extract_card to_lowercase) (resolved_entries idx sheet) = Ok cards"
    "sh_cards sh = sort_key sc_name cards" "sh_total_weight sh = ms_total_weight sheet"
    "sh_allow_duplicates sh = ms_allow_duplicates sheet" "sh_fixed sh = ms_fixed sheet" "sh_foil sh = ms_foil sheet" by auto
  note p = extract_cards_printings[OF c(1)]
  have m: "mset (map printing_of (sh_cards sh)) = mset (map entry_printing (resolved_entries idx sheet))"
    using arg_cong[OF p, of mset] c(2) by simp
  have weight: "sum_list (map sc_weight (sh_cards sh)) = sum_list (map snd (ms_cards sheet))"
    if "\<forall>e\<in>set (ms_cards sheet). fst e \<in> fset (fmdom idx)"
  proof -
    have "sum_list (map sc_weight (sh_cards sh)) = sum_mset (image_mset (\<lambda>(_, _, _, w). w) (mset (map printing_of (sh_cards sh))))"
      by (simp add: sum_mset_sum_list[symmetric] image_mset.compositionality o_def printing_of_def)
    also have "\<dots> = sum_list (map snd (resolved_entries idx sheet))"
      unfolding m by (simp add: sum_mset_sum_list[symmetric] image_mset.compositionality o_def entry_printing_def)
    also have "map snd (resolved_entries idx sheet) = map snd (ms_cards sheet)"
      unfolding resolved_entries_def by (rule resolved_weights[OF that])
    finally show ?thesis .
  qed
  have "sorted (lp_basic_lands pool) \<and> distinct (lp_basic_lands pool)"
    unfolding e(3) extract_basic_lands_def Let_def by (simp add: sort_dedup)
  with sh(1) c m weight show ?thesis by (intro exI[of _ sh]) simp
qed

section \<open>Iteration order\<close>

definition same_sheet :: "mtgjson_sheet \<Rightarrow> mtgjson_sheet \<Rightarrow> bool" where
  "same_sheet a b \<longleftrightarrow> mset (ms_cards a) = mset (ms_cards b) \<and> b = a\<lparr>ms_cards := ms_cards b\<rparr>"

definition same_variant :: "mtgjson_booster_variant \<Rightarrow> mtgjson_booster_variant \<Rightarrow> bool" where
  "same_variant a b \<longleftrightarrow> mset (mv_contents a) = mset (mv_contents b) \<and> mv_weight a = mv_weight b"

definition same_config :: "mtgjson_booster_config \<Rightarrow> mtgjson_booster_config \<Rightarrow> bool" where
  "same_config a b \<longleftrightarrow> (\<exists>sheets. mset sheets = mset (mb_sheets a)
       \<and> list_all2 (\<lambda>x y. fst x = fst y \<and> same_sheet (snd x) (snd y)) sheets (mb_sheets b))
     \<and> list_all2 same_variant (mb_boosters a) (mb_boosters b) \<and> mb_boosters_total_weight a = mb_boosters_total_weight b"

lemma mset_map_filter: "mset xs = mset ys \<Longrightarrow> mset (List.map_filter f xs) = mset (List.map_filter f ys)"
proof -
  have "mset (List.map_filter f zs) = image_mset (the \<circ> f) (filter_mset (\<lambda>x. f x \<noteq> None) (mset zs))" for zs
    by (simp add: List.map_filter_def)
  then show "mset xs = mset ys \<Longrightarrow> ?thesis" by simp
qed

lemma try_map_permuted:
  assumes "mset xs = mset ys" "try_map f xs = Ok us"
  shows "\<exists>vs. try_map f ys = Ok vs \<and> mset vs = mset us"
proof -
  have "\<forall>x\<in>set xs. \<exists>u. f x = Ok u" using is_ok_try_map[of f xs] assms(2) by (auto simp: is_ok_iff)
  then have okx: "\<And>x. x \<in> set xs \<Longrightarrow> f x = Ok (ok_value (f x))" by fastforce
  have "list_all2 (\<lambda>x u. f x = Ok u) zs (map (ok_value \<circ> f) zs)" if "set zs \<subseteq> set xs" for zs
    using that okx by (induction zs) auto
  then have all: "try_map f zs = Ok (map (ok_value \<circ> f) zs)" if "set zs \<subseteq> set xs" for zs
    using that by (simp add: try_map_Ok_iff)
  have "set ys = set xs" using assms(1) by (metis set_mset_mset)
  with all[of xs] all[of ys] assms show ?thesis by simp
qed

lemma extract_sheet_reordered:
  assumes "same_sheet a b" "distinct (map (mc_name \<circ> fst) (resolved_entries idx a))"
    "extract_sheet to_lowercase idx (name, a) = Ok e"
  shows "extract_sheet to_lowercase idx (name, b) = Ok e"
proof -
  have m: "mset (resolved_entries idx a) = mset (resolved_entries idx b)"
    unfolding resolved_entries_def by (rule mset_map_filter) (use assms(1) in \<open>simp add: same_sheet_def\<close>)
  from assms(3) obtain us where us: "try_map (extract_card to_lowercase) (resolved_entries idx a) = Ok us"
    by (auto elim: extract_sheet_Ok)
  from try_map_permuted[OF m us] obtain vs where vs: "try_map (extract_card to_lowercase) (resolved_entries idx b) = Ok vs" "mset vs = mset us"
    by blast
  have "map sc_name us = map (mc_name \<circ> fst) (resolved_entries idx a)"
    using arg_cong[OF extract_cards_printings[OF us], of "map fst"] by (simp add: printing_of_def entry_printing_def o_def)
  with assms(2) have "inj_on sc_name (set us)" by (metis distinct_map)
  then have "inj_on sc_name (set vs)" using vs(2) by (metis set_mset_mset)
  from sort_key_inj_key_eq[OF _ this, of "sort_key sc_name us"] vs(2) have eq: "sort_key sc_name vs = sort_key sc_name us" by simp
  obtain cards where b: "b = a\<lparr>ms_cards := cards\<rparr>" using assms(1) by (auto simp: same_sheet_def)
  from assms(3) us vs(1) eq show ?thesis by (simp add: extract_sheet_def b)
qed

lemma extract_variant_reordered:
  assumes "same_variant a b" "distinct (map fst (mv_contents a))"
  shows "extract_variant a = extract_variant b"
proof -
  have m: "mset (map extract_slot (mv_contents a)) = mset (map extract_slot (mv_contents b))" using assms(1) by (simp add: same_variant_def)
  have "map sl_slot (map extract_slot xs) = map fst xs" for xs by (induction xs) (auto simp: extract_slot_def)
  with assms(2) have "inj_on sl_slot (set (map extract_slot (mv_contents a)))" by (metis distinct_map)
  from sort_key_inj_key_eq[OF _ this, of "sort_key sl_slot (map extract_slot (mv_contents b))"] m
  have "sort_key sl_slot (map extract_slot (mv_contents a)) = sort_key sl_slot (map extract_slot (mv_contents b))"
    by simp
  with assms(1) show ?thesis by (simp add: extract_variant_def same_variant_def)
qed

lemma uuids_reordered:
  assumes "same_config a b"
  shows "set (uuids_in_sheets a) = set (uuids_in_sheets b)"
proof -
  from assms obtain sheets where s: "mset sheets = mset (mb_sheets a)"
    "list_all2 (\<lambda>x y. fst x = fst y \<and> same_sheet (snd x) (snd y)) sheets (mb_sheets b)" by (auto simp: same_config_def)
  let ?u = "\<lambda>xs. \<Union>x\<in>set xs. fst ` set (ms_cards (snd x))"
  have "?u sheets = ?u (mb_sheets b)"
    using s(2) by (induction rule: list_all2_induct) (auto simp: same_sheet_def dest!: mset_eq_setD)
  moreover have "set sheets = set (mb_sheets a)" using s(1) by (rule mset_eq_setD)
  moreover have "set (uuids_in_sheets c) = ?u (mb_sheets c)" for c by (simp add: uuids_in_sheets_def split_beta)
  ultimately show ?thesis by simp
qed

text \<open>The data in another iteration order of its hash maps.\<close>

definition reordered :: "mtgjson_set_data \<Rightarrow> mtgjson_set_data \<Rightarrow> bool" where
  "reordered d d' \<longleftrightarrow> d' = d\<lparr>sd_booster := sd_booster d'\<rparr>
     \<and> (\<exists>a b. Option.bind (sd_booster d) draftable = Some a \<and> Option.bind (sd_booster d') draftable = Some b \<and> same_config a b)"

definition keys_distinct :: "mtgjson_booster_config \<Rightarrow> bool" where
  "keys_distinct a \<longleftrightarrow> distinct (map fst (mb_sheets a)) \<and> list_all (\<lambda>v. distinct (map fst (mv_contents v))) (mb_boosters a)"

definition sheet_names_distinct :: "card_index \<Rightarrow> mtgjson_booster_config \<Rightarrow> bool" where
  "sheet_names_distinct idx a \<longleftrightarrow> list_all (\<lambda>(_, sheet). distinct (map (mc_name \<circ> fst) (resolved_entries idx sheet))) (mb_sheets a)"

text \<open>
  When no sheet holds two printings of one name, the extracted pool does not depend on the
  iteration order of the hash maps of the data: sheets, slots and printings come out in the same order
  in every run.
\<close>

lemma extraction_order_independent:
  assumes "reordered d d'" "Option.bind (sd_booster d) draftable = Some a" "keys_distinct a" "sheet_names_distinct idx a"
    "extract_set_pool_indexed to_lowercase d idx = Ok (Some pool)"
  shows "extract_set_pool_indexed to_lowercase d' idx = Ok (Some pool)"
proof -
  from assms(1,2) obtain b where b: "Option.bind (sd_booster d') draftable = Some b" "same_config a b" and d': "d' = d\<lparr>sd_booster := sd_booster d'\<rparr>"
    by (auto simp: reordered_def)
  from assms(2,5) obtain es where es: "try_map (extract_sheet to_lowercase idx) (mb_sheets a) = Ok es"
    by (auto simp: extract_set_pool_indexed_def outcome_simps)
  from b(2) obtain sheets where sh: "mset sheets = mset (mb_sheets a)"
    "list_all2 (\<lambda>x y. fst x = fst y \<and> same_sheet (snd x) (snd y)) sheets (mb_sheets b)"
    "list_all2 same_variant (mb_boosters a) (mb_boosters b)" "mb_boosters_total_weight a = mb_boosters_total_weight b"
    by (auto simp: same_config_def)
  from try_map_permuted[OF sh(1)[symmetric] es] obtain es' where es': "try_map (extract_sheet to_lowercase idx) sheets = Ok es'" "mset es' = mset es" by blast
  have names: "\<forall>x\<in>set sheets. distinct (map (mc_name \<circ> fst) (resolved_entries idx (snd x)))"
    using assms(4) mset_eq_setD[OF sh(1)] by (auto simp: sheet_names_distinct_def list_all_iff)
  have "list_all2 (\<lambda>y e. extract_sheet to_lowercase idx y = Ok e) (mb_sheets b) es'"
    unfolding list_all2_conv_all_nth
  proof (intro conjI allI impI)
    show "length (mb_sheets b) = length es'" using sh(2) try_map_length[OF es'(1)] by (simp add: list_all2_lengthD)
    fix i assume "i < length (mb_sheets b)"
    then have i: "i < length sheets" "fst (sheets ! i) = fst (mb_sheets b ! i)" "same_sheet (snd (sheets ! i)) (snd (mb_sheets b ! i))"
      using sh(2) by (auto simp: list_all2_conv_all_nth)
    from try_map_nth[OF es'(1) i(1)] have "extract_sheet to_lowercase idx (fst (sheets ! i), snd (sheets ! i)) = Ok (es' ! i)" by simp
    from extract_sheet_reordered[OF i(3) _ this] names i show "extract_sheet to_lowercase idx (mb_sheets b ! i) = Ok (es' ! i)" by simp
  qed
  then have "try_map (extract_sheet to_lowercase idx) (mb_sheets b) = Ok es'" by (simp add: try_map_Ok_iff)
  moreover have "insert_all es' = insert_all es"
  proof (rule insert_all_cong[symmetric])
    have "map fst es = map fst (mb_sheets a)" using es by (intro extracted_names) (simp add: try_map_Ok_iff)
    with assms(3) show "distinct (map fst es)" by (simp add: keys_distinct_def)
  qed (use es'(2) in simp)
  moreover have "map extract_variant (mb_boosters b) = map extract_variant (mb_boosters a)"
    using sh(3) assms(3) unfolding keys_distinct_def
    by (intro nth_equalityI) (auto simp: list_all2_conv_all_nth list_all_length intro!: extract_variant_reordered[symmetric])
  moreover have "extract_prints (uuids_in_sheets b) cards = extract_prints (uuids_in_sheets a) cards" for cards
    using uuids_reordered[OF b(2)] by (simp add: extract_prints_def extract_print_def)
  moreover have "sd_code d' = sd_code d" "sd_name d' = sd_name d" "sd_release_date d' = sd_release_date d" "sd_cards d' = sd_cards d"
  proof -
    from d' obtain bo where "d' = d\<lparr>sd_booster := bo\<rparr>" by blast
    then show "sd_code d' = sd_code d" "sd_name d' = sd_name d" "sd_release_date d' = sd_release_date d" "sd_cards d' = sd_cards d"
      by simp_all
  qed
  ultimately show ?thesis using assms(2,5) b(1) es sh(4) by (simp add: extract_set_pool_indexed_def Let_def)
qed

section \<open>From card data to boosters\<close>

lemma normalize_slot_keeps: "0 < sl_count slot \<Longrightarrow> 0 < sl_count (normalize_slot slot)" "sl_choices (normalize_slot slot) = sl_choices slot"
  by (simp_all add: normalize_slot_def)

lemma normalize_variants_slot:
  assumes "variant \<in> set (normalize_pack_variants code variants)"
    "\<And>v. v \<in> set variants \<Longrightarrow> \<exists>slot\<in>set (pv_contents v). 0 < sl_count slot \<and> sl_choices slot = cs"
  shows "\<exists>slot\<in>set (pv_contents variant). 0 < sl_count slot \<and> sl_choices slot = cs"
proof (cases "eq_ignore_ascii_case code ''UGL''")
  case True
  with assms(1) obtain v where v: "v \<in> set variants" "pv_contents variant = map normalize_slot (pv_contents v)"
    by (auto simp: normalize_pack_variants_def)
  from assms(2)[OF v(1)] obtain slot where "slot \<in> set (pv_contents v)" "0 < sl_count slot" "sl_choices slot = cs" by blast
  with v(2) show ?thesis by (intro bexI[of _ "normalize_slot slot"]) (auto simp: normalize_slot_keeps)
qed (use assms in \<open>simp add: normalize_pack_variants_def\<close>)

text \<open>
  C24. A set whose boosters use a duplicate-permitting sheet without a single resolved card cannot be
  opened. Extraction only warns about unresolved cards and keeps the declared total weight, and the
  generator is meant to top such a slot up from another sheet; instead every booster of the extracted
  set panics, for every random draw, because the draw falls through to the first card of an empty sheet.
\<close>

theorem unresolved_duplicate_sheet_panics:
  assumes "extract_set_pool_indexed to_lowercase data idx = Ok (Some pool)"
    "Option.bind (sd_booster data) draftable = Some booster" "distinct (map fst (mb_sheets booster))"
    "(name, sheet) \<in> set (mb_sheets booster)" "ms_allow_duplicates sheet" "\<not> ms_fixed sheet"
    "\<forall>e\<in>set (ms_cards sheet). fst e \<notin> fset (fmdom idx)"
    "\<forall>v\<in>set (mb_boosters booster). \<exists>n>0. (name, n) \<in> set (mv_contents v)"
  shows "fst (generator_generate_pack random_range (generator_new pool) rng seat p) = Panic"
proof (rule empty_duplicate_sheet_panics)
  show "pool_for_pack (generator_new pool) seat p = Ok (normalize_pool pool)"
    by (simp add: pool_for_pack_def generator_new_def entry_for_pack_def)
  from extracted_sheets[OF assms(1)] assms(2) obtain entries where
    e: "list_all2 (\<lambda>x y. extract_sheet to_lowercase idx x = Ok y) (mb_sheets booster) entries" "lp_sheets pool = insert_all entries"
    "lp_pack_variants pool = normalize_pack_variants (sd_code data) (map extract_variant (mb_boosters booster))" by (metis option.inject)
  from extracted_sheet[OF e(1) assms(3,4)] obtain sh where
    sh: "fmlookup (lp_sheets pool) name = Some sh" "extract_sheet to_lowercase idx (name, sheet) = Ok (name, sh)" using e(2) by auto
  have "resolved_entries idx sheet = []"
    using assms(7) by (auto simp: resolved_entries_def List.map_filter_def filter_empty_conv fmdom_notD)
  with sh(2) assms(5,6) have empty: "sh_cards sh = []" "sh_allow_duplicates sh" "\<not> sh_fixed sh"
    by (auto simp: extract_sheet_def)
  have raw: "\<exists>slot\<in>set (pv_contents v). 0 < sl_count slot \<and> sl_choices slot = [\<lparr>wc_sheet = name, wc_weight = 1\<rparr>]"
    if "v \<in> set (map extract_variant (mb_boosters booster))" for v
  proof -
    from that assms(8) obtain mv n where "0 < n" "(name, n) \<in> set (mv_contents mv)" "v = extract_variant mv" by auto
    then show ?thesis by (intro bexI[of _ "extract_slot (name, n)"]) (auto simp: extract_slot_def extract_variant_def)
  qed
  have pooled: "\<exists>slot\<in>set (pv_contents v). 0 < sl_count slot \<and> sl_choices slot = [\<lparr>wc_sheet = name, wc_weight = 1\<rparr>]"
    if "v \<in> set (lp_pack_variants pool)" for v
    by (rule normalize_variants_slot[OF that[unfolded e(3)]]) (rule raw)
  have "\<exists>slot\<in>set (pv_contents v). 0 < sl_count slot \<and> sl_choices slot = [\<lparr>wc_sheet = name, wc_weight = 1\<rparr>]"
    if "v \<in> set (normalize_pack_variants (lp_code pool) (lp_pack_variants pool))" for v
    by (rule normalize_variants_slot[OF that]) (rule pooled)
  moreover have "lp_pack_variants (normalize_pool pool) = normalize_pack_variants (lp_code pool) (lp_pack_variants pool)"
    by (simp add: normalize_pool_def)
  moreover have "lp_sheets (normalize_pool pool) = lp_sheets pool" by (simp add: normalize_pool_def)
  ultimately show "\<exists>slot\<in>set (pv_contents variant). 0 < sl_count slot
       \<and> (\<exists>choice sheet. sl_choices slot = [choice] \<and> fmlookup (lp_sheets (normalize_pool pool)) (wc_sheet choice) = Some sheet
            \<and> sh_cards sheet = [] \<and> sh_allow_duplicates sheet \<and> \<not> sh_fixed sheet)"
    if "variant \<in> set (lp_pack_variants (normalize_pool pool))" for variant
    using that sh(1) empty by fastforce
qed

definition sample_mtg_card :: "string \<Rightarrow> string \<Rightarrow> mtgjson_card" where
  "sample_mtg_card uuid name = \<lparr>mc_uuid = uuid, mc_name = name, mc_rarity = ''common'', mc_number = uuid, mc_set_code = ''TST'',
     mc_booster_types = [], mc_supertypes = [], mc_colors = [], mc_mana_value = 5 / 2, mc_type_line = [], mc_text = None\<rparr>"

definition sample_mtg_sheet :: "(string \<times> nat) list \<Rightarrow> bool \<Rightarrow> mtgjson_sheet" where
  "sample_mtg_sheet cards dup = \<lparr>ms_cards = cards, ms_total_weight = 3, ms_allow_duplicates = dup, ms_fixed = False,
     ms_foil = False, ms_balance_colors = False\<rparr>"

definition sample_booster :: "(string \<times> nat) list \<Rightarrow> mtgjson_booster_config" where
  "sample_booster cards = \<lparr>mb_sheets = [(''common'', sample_mtg_sheet cards False), (''bonus'', sample_mtg_sheet [(''x'', 3)] True)],
     mb_boosters = [\<lparr>mv_contents = [(''common'', 2), (''bonus'', 1)], mv_weight = 1\<rparr>], mb_boosters_total_weight = 1\<rparr>"

definition sample_set_data :: "(string \<times> nat) list \<Rightarrow> mtgjson_set_data" where
  "sample_set_data cards = \<lparr>sd_code = ''TST'', sd_name = ''Test'', sd_release_date = None,
     sd_booster = Some \<lparr>bo_play = None, bo_draft = Some (sample_booster cards), bo_default = None\<rparr>,
     sd_cards = [sample_mtg_card ''1'' ''Ant'', sample_mtg_card ''2'' ''Bee'', sample_mtg_card ''3'' ''Ant'']\<rparr>"

lemma sample_draftable: "Option.bind (sd_booster (sample_set_data cards)) draftable = Some (sample_booster cards)"
  by (simp add: sample_set_data_def draftable_def)

lemma sample_extracted:
  "\<exists>pool. extract_set_pool_indexed id (sample_set_data [(''2'', 1), (''1'', 2)]) (build_card_index [sample_set_data []]) = Ok (Some pool)"
proof -
  have "(case extract_set_pool_indexed id (sample_set_data [(''2'', 1), (''1'', 2)]) (build_card_index [sample_set_data []]) of
      Ok (Some _) \<Rightarrow> True | _ \<Rightarrow> False)" by code_simp
  then show ?thesis by (auto split: outcome.splits option.splits)
qed

lemma sample_booster_parts:
  "distinct (map fst (mb_sheets (sample_booster cards)))"
  "(''common'', sample_mtg_sheet cards False) \<in> set (mb_sheets (sample_booster cards))"
  "(''bonus'', sample_mtg_sheet [(''x'', 3)] True) \<in> set (mb_sheets (sample_booster cards))"
  by (simp_all add: sample_booster_def)

theorem unresolved_duplicate_sheet_panics_witness:
  "\<exists>pool. extract_set_pool_indexed id (sample_set_data [(''2'', 1), (''1'', 2)]) (build_card_index [sample_set_data []]) = Ok (Some pool)
     \<and> fst (generator_generate_pack (\<lambda>rng n. (n - 1, rng)) (generator_new pool) () 0 0) = Panic"
proof -
  from sample_extracted obtain pool where pool: "extract_set_pool_indexed id (sample_set_data [(''2'', 1), (''1'', 2)])
    (build_card_index [sample_set_data []]) = Ok (Some pool)" by blast
  have "fst (generator_generate_pack (\<lambda>rng n. (n - 1, rng)) (generator_new pool) () 0 0) = Panic"
    by (rule unresolved_duplicate_sheet_panics[OF pool sample_draftable sample_booster_parts(1,3)])
       (auto simp: sample_mtg_sheet_def sample_booster_def build_card_index_def sample_set_data_def sample_mtg_card_def)
  with pool show ?thesis by blast
qed

lemma sample_reordered: "mset cards = mset cards' \<Longrightarrow> reordered (sample_set_data cards) (sample_set_data cards')"
  unfolding reordered_def sample_draftable
  by (auto simp: sample_set_data_def same_config_def sample_booster_def same_sheet_def sample_mtg_sheet_def same_variant_def
      intro!: exI[of _ "mb_sheets (sample_booster cards)"])

text \<open>With two printings of one name on a sheet, the pool does depend on the iteration order.\<close>

lemma extraction_order_dependent:
  "\<exists>d d'. reordered d d' \<and> extract_set_pool id d \<noteq> extract_set_pool id d'"
proof (intro exI conjI)
  let ?d = "sample_set_data [(''1'', 1), (''3'', 2)]" and ?d' = "sample_set_data [(''3'', 2), (''1'', 1)]"
  show "reordered ?d ?d'" by (rule sample_reordered) simp
  let ?first = "\<lambda>d. case extract_set_pool id d of Ok (Some pool) \<Rightarrow>
    (case fmlookup (lp_sheets pool) ''common'' of Some sh \<Rightarrow> map sc_weight (sh_cards sh) | None \<Rightarrow> []) | _ \<Rightarrow> []"
  have "?first ?d = [1, 2]" "?first ?d' = [2, 1]" by code_simp+
  then show "extract_set_pool id ?d \<noteq> extract_set_pool id ?d'" by auto
qed

end
