(* ===== verification/Card_Database.thy ===== *)
theory Card_Database
  imports Mana_Cost Set_Extraction Deck_Validation
begin

text \<open>
  The card database, from \<open>crates/engine/src/database/card_db.rs\<close> and \<open>legality.rs\<close>: every index
  built from an export of card data and the resolution of card names. A card face keeps what the
  indices and the cube import read of it and the map of card rules its keys; \<open>errors\<close> and
  \<open>bracket_lists\<close>, which an export leaves empty, are left out. Hash maps are finite maps, the
  entries of an export and the legality rows of an entry come as the lists in which their maps are
  iterated, and \<open>keys_of\<close> lists the keys of an index. Case mapping of Unicode is a parameter, for
  strings (\<open>to_lowercase\<close>) and for one character (\<open>lower_char\<close>). The lemmas show when the indices do
  not depend on iteration orders and exactly which card a name finds.
\<close>

section \<open>Card faces\<close>

datatype core_type = ArtifactType | BattleType | CreatureType | DungeonType | EnchantmentType | InstantType | KindredType
  | LandType | PlaneType | PhenomenonType | SchemeType | ConspiracyType | PlaneswalkerType | SorceryType | TribalType

record card_face =
  fa_name :: string
  fa_mana_cost :: mana_cost
  fa_core_types :: "core_type list"
  fa_subtypes :: "string list"
  fa_color_identity :: "mana_color list"
  fa_oracle_text :: "string option"
  fa_oracle_id :: "string option"

section \<open>Folding a name\<close>

definition is_continuation :: "char \<Rightarrow> bool" where
  "is_continuation c \<longleftrightarrow> 0x80 \<le> byte_of c \<and> byte_of c < 0xC0"

function utf8_chars :: "string \<Rightarrow> string list" where
  "utf8_chars [] = []"
| "utf8_chars (c # s) = (c # takeWhile is_continuation s) # utf8_chars (dropWhile is_continuation s)"
  by pat_completeness auto
termination
  by (relation "measure length") (auto simp: le_imp_less_Suc length_dropWhile_le)

fun code_point :: "string \<Rightarrow> nat" where
  "code_point [a] = byte_of a"
| "code_point [a, b] = (byte_of a - 0xC0) * 64 + (byte_of b - 0x80)"
| "code_point [a, b, c] = ((byte_of a - 0xE0) * 64 + (byte_of b - 0x80)) * 64 + (byte_of c - 0x80)"
| "code_point [a, b, c, d] = (((byte_of a - 0xF0) * 64 + (byte_of b - 0x80)) * 64 + (byte_of c - 0x80)) * 64 + (byte_of d - 0x80)"
| "code_point _ = 0"

definition fold_table :: "(nat list \<times> string) list" where
  "fold_table = [
     ([0xE1, 0xE0, 0xE2, 0xE4, 0xE3, 0xE5, 0x101, 0x103, 0x105], ''a''),
     ([0xE7, 0x107, 0x109, 0x10B, 0x10D], ''c''),
     ([0x10F, 0x111], ''d''),
     ([0xE9, 0xE8, 0xEA, 0xEB, 0x113, 0x115, 0x117, 0x119, 0x11B], ''e''),
     ([0x11D, 0x11F, 0x121, 0x123], ''g''),
     ([0x125, 0x127], ''h''),
     ([0xED, 0xEC, 0xEE, 0xEF, 0x129, 0x12B, 0x12D, 0x12F, 0x131], ''i''),
     ([0x135], ''j''),
     ([0x137], ''k''),
     ([0x13A, 0x13C, 0x13E, 0x140, 0x142], ''l''),
     ([0xF1, 0x144, 0x146, 0x148, 0x149], ''n''),
     ([0xF3, 0xF2, 0xF4, 0xF6, 0xF5, 0x14D, 0x14F, 0x151, 0xF8], ''o''),
     ([0x155, 0x157, 0x159], ''r''),
     ([0x15B, 0x15D, 0x15F, 0x161], ''s''),
     ([0x163, 0x165, 0x167], ''t''),
     ([0xFA, 0xF9, 0xFB, 0xFC, 0x169, 0x16B, 0x16D, 0x16F, 0x171, 0x173], ''u''),
     ([0x175], ''w''),
     ([0xFD, 0xFF, 0x177], ''y''),
     ([0x17A, 0x17C, 0x17E], ''z''),
     ([0xE6], ''ae''),
     ([0x153], ''oe''),
     ([0xFE], ''th''),
     ([0xF0], ''d''),
     ([0xDF], ''ss''),
     ([0x2019, 0x2018, 0xFF07], [CHR 0x27])]"

definition fold_char :: "string \<Rightarrow> string" where
  "fold_char lower =
     (case find (\<lambda>(cps, _). code_point lower \<in> set cps) fold_table of
        Some (_, folded) \<Rightarrow> folded
      | None \<Rightarrow> lower)"

definition fold_card_name_key :: "(string \<Rightarrow> string list) \<Rightarrow> string \<Rightarrow> string" where
  "fold_card_name_key lower_char name = concat (map fold_char (concat (map lower_char (utf8_chars name))))"

section \<open>The alias index\<close>

definition register_alias :: "string \<Rightarrow> (string, string option) fmap \<Rightarrow> string \<Rightarrow> (string, string option) fmap" where
  "register_alias key aliases alias =
     (case fmlookup aliases alias of
        Some existing \<Rightarrow> if existing \<noteq> Some key then fmupd alias None aliases else aliases
      | None \<Rightarrow> fmupd alias (Some key) aliases)"

definition strip_prefix :: "string \<Rightarrow> string \<Rightarrow> string option" where
  "strip_prefix p s = (if prefix p s then Some (drop (length p) s) else None)"

definition name_segments :: "string \<Rightarrow> string list" where
  "name_segments key = filter (\<lambda>seg. seg \<noteq> []) (map str_trim (str_split (CHR ''/'') key))"

definition key_aliases :: "(string \<Rightarrow> string list) \<Rightarrow> string \<Rightarrow> string list" where
  "key_aliases lower_char key =
     (let folded = fold_card_name_key lower_char key in if folded \<noteq> key then [folded] else [])
   @ (case strip_prefix ''the '' key of
        Some stripped \<Rightarrow> if stripped \<noteq> [] then [fold_card_name_key lower_char stripped] else []
      | None \<Rightarrow> [])
   @ (if \<not> str_contains key ''//'' \<and> 1 < length (name_segments key)
      then [fold_card_name_key lower_char (join '' // '' (name_segments key))] else [])"

definition build_name_alias_index :: "(string \<Rightarrow> string list) \<Rightarrow> string list \<Rightarrow> (string, string) fmap" where
  "build_name_alias_index lower_char keys =
     (let aliases = foldl (\<lambda>aliases key. foldl (register_alias key) aliases (key_aliases lower_char key)) fmempty keys
      in fmmap the (fmfilter (\<lambda>alias. fmlookup aliases alias \<noteq> Some None) aliases))"

section \<open>Legalities and layouts\<close>

datatype legality_format = StandardFormat | CommanderFormat | ModernFormat | PremodernFormat | PioneerFormat | LegacyFormat
  | VintageFormat | PauperFormat | HistoricFormat | BrawlFormat | StandardBrawlFormat | TimelessFormat | PauperCommanderFormat
  | DuelCommanderFormat | OathbreakerFormat

datatype legality_status = LegalStatus | NotLegalStatus | BannedStatus | RestrictedStatus

definition is_ascii_alphanumeric :: "char \<Rightarrow> bool" where
  "is_ascii_alphanumeric c \<longleftrightarrow>
     0x30 \<le> byte_of c \<and> byte_of c \<le> 0x39 \<or> 0x41 \<le> byte_of c \<and> byte_of c \<le> 0x5A \<or> 0x61 \<le> byte_of c \<and> byte_of c \<le> 0x7A"

definition normalize_key :: "string \<Rightarrow> string" where
  "normalize_key raw = map ascii_lower (filter is_ascii_alphanumeric raw)"

definition from_key :: "string \<Rightarrow> legality_format option" where
  "from_key raw = map_of [(''standard'', StandardFormat), (''commander'', CommanderFormat), (''modern'', ModernFormat),
     (''premodern'', PremodernFormat), (''pioneer'', PioneerFormat), (''legacy'', LegacyFormat), (''vintage'', VintageFormat),
     (''pauper'', PauperFormat), (''historic'', HistoricFormat), (''brawl'', BrawlFormat), (''standardbrawl'', StandardBrawlFormat),
     (''timeless'', TimelessFormat), (''paupercommander'', PauperCommanderFormat), (''duel'', DuelCommanderFormat),
     (''oathbreaker'', OathbreakerFormat)] (normalize_key raw)"

definition from_raw :: "string \<Rightarrow> legality_status option" where
  "from_raw raw = map_of [(''legal'', LegalStatus), (''notlegal'', NotLegalStatus), (''banned'', BannedStatus),
     (''restricted'', RestrictedStatus)] (normalize_key raw)"

definition normalize_legalities :: "(string \<times> string) list \<Rightarrow> (legality_format, legality_status) fmap" where
  "normalize_legalities raw =
     foldl (\<lambda>legalities (key, v). case from_key key of
         None \<Rightarrow> legalities
       | Some fmt \<Rightarrow> (case from_raw v of None \<Rightarrow> legalities | Some status \<Rightarrow> fmupd fmt status legalities)) fmempty raw"

datatype layout_kind = SingleLayout | SplitLayout | FlipLayout | TransformLayout | MeldLayout | AdventureLayout | ModalLayout
  | OmenLayout | PrepareLayout

definition map_layout_str :: "string \<Rightarrow> layout_kind option" where
  "map_layout_str s = map_of [(''modal_dfc'', ModalLayout), (''transform'', TransformLayout), (''adventure'', AdventureLayout),
     (''meld'', MeldLayout), (''split'', SplitLayout), (''flip'', FlipLayout), (''omen'', OmenLayout), (''prepare'', PrepareLayout)] s"

record bracket_signals =
  bs_game_changer :: bool
  bs_mass_land_denial :: bool
  bs_extra_turn :: bool
  bs_efficient_tutor :: bool

record ruling =
  rl_date :: string
  rl_text :: string

section \<open>The database\<close>

record card_database =
  db_cards :: "string fset"
  db_face_index :: "(string, card_face) fmap"
  db_name_alias_index :: "(string, string) fmap"
  db_oracle_id_index :: "(string, string list) fmap"
  db_face_order_index :: "(string, nat) fmap"
  db_search_face_keys :: "string list"
  db_layout_index :: "(string, layout_kind) fmap"
  db_legalities :: "(string, (legality_format, legality_status) fmap) fmap"
  db_printings_index :: "(string, string list) fmap"
  db_rulings_index :: "(string, ruling list) fmap"
  db_bracket_signals_by_name :: "(string, bracket_signals) fmap"
  db_creature_type_vocabulary :: "string list"

record card_export_entry =
  xe_face :: card_face
  xe_legalities :: "(string \<times> string) list"
  xe_layout :: "string option"
  xe_face_index :: "nat option"
  xe_printings :: "string list"
  xe_rulings :: "ruling list"
  xe_bracket_signals :: bracket_signals

definition USIZE_MAX :: nat where
  "USIZE_MAX = 2 ^ 64 - 1"

definition face_order :: "(string, nat) fmap \<Rightarrow> string \<Rightarrow> nat" where
  "face_order orders key = (case fmlookup orders key of Some n \<Rightarrow> n | None \<Rightarrow> USIZE_MAX)"

definition face_oracle :: "(string, card_face) fmap \<Rightarrow> string \<Rightarrow> string" where
  "face_oracle faces key =
     (case Option.bind (fmlookup faces key) fa_oracle_id of Some oracle_id \<Rightarrow> oracle_id | None \<Rightarrow> [])"

definition build_search_face_keys :: "string list \<Rightarrow> (string, card_face) fmap \<Rightarrow> (string, nat) fmap \<Rightarrow> string list" where
  "build_search_face_keys keys faces orders = sort_key (\<lambda>key. (face_oracle faces key, face_order orders key, key)) keys"

definition is_creature_face :: "card_face \<Rightarrow> bool" where
  "is_creature_face face \<longleftrightarrow>
     CreatureType \<in> set (fa_core_types face) \<or> KindredType \<in> set (fa_core_types face) \<or> TribalType \<in> set (fa_core_types face)"

definition collect_creature_type_vocabulary :: "card_face list \<Rightarrow> string list" where
  "collect_creature_type_vocabulary faces =
     sorted_list_of_set (set (concat (map fa_subtypes (filter is_creature_face faces)))
       - set (concat (map fa_subtypes (filter (\<lambda>face. \<not> is_creature_face face) faces))))"

definition push_to :: "'k \<Rightarrow> 'v \<Rightarrow> ('k, 'v list) fmap \<Rightarrow> ('k, 'v list) fmap" where
  "push_to k v m = fmupd k ((case fmlookup m k of Some vs \<Rightarrow> vs | None \<Rightarrow> []) @ [v]) m"

definition or_insert :: "'k \<Rightarrow> 'v \<Rightarrow> ('k, 'v) fmap \<Rightarrow> ('k, 'v) fmap" where
  "or_insert k v m = (case fmlookup m k of Some _ \<Rightarrow> m | None \<Rightarrow> fmupd k v m)"

definition load_entry :: "(string \<Rightarrow> string) \<Rightarrow> card_database \<Rightarrow> string \<times> card_export_entry \<Rightarrow> card_database" where
  "load_entry to_lowercase db x = (case x of (export_key, e) \<Rightarrow>
     let storage_key = to_lowercase export_key;
         normalized = normalize_legalities (xe_legalities e)
     in db\<lparr>db_face_order_index := (case xe_face_index e of
            Some n \<Rightarrow> fmupd storage_key n (db_face_order_index db) | None \<Rightarrow> db_face_order_index db),
        db_oracle_id_index := (case fa_oracle_id (xe_face e) of
            Some oracle_id \<Rightarrow> push_to oracle_id storage_key (db_oracle_id_index db) | None \<Rightarrow> db_oracle_id_index db),
        db_layout_index := (case fa_oracle_id (xe_face e) of
            None \<Rightarrow> db_layout_index db
          | Some oracle_id \<Rightarrow> (case Option.bind (xe_layout e) map_layout_str of
              None \<Rightarrow> db_layout_index db | Some layout \<Rightarrow> or_insert oracle_id layout (db_layout_index db))),
        db_face_index := fmupd storage_key (xe_face e) (db_face_index db),
        db_bracket_signals_by_name := fmupd storage_key (xe_bracket_signals e) (db_bracket_signals_by_name db),
        db_printings_index := (if xe_printings e \<noteq> [] then fmupd storage_key (xe_printings e) (db_printings_index db) else db_printings_index db),
        db_rulings_index := (if xe_rulings e \<noteq> [] then fmupd storage_key (xe_rulings e) (db_rulings_index db) else db_rulings_index db),
        db_legalities := (if normalized \<noteq> fmempty then fmupd storage_key normalized (db_legalities db) else db_legalities db)\<rparr>)"

definition empty_database :: card_database where
  "empty_database = \<lparr>db_cards = {||}, db_face_index = fmempty, db_name_alias_index = fmempty, db_oracle_id_index = fmempty,
     db_face_order_index = fmempty, db_search_face_keys = [], db_layout_index = fmempty, db_legalities = fmempty,
     db_printings_index = fmempty, db_rulings_index = fmempty, db_bracket_signals_by_name = fmempty, db_creature_type_vocabulary = []\<rparr>"

definition from_export_entries ::
  "(string \<Rightarrow> string) \<Rightarrow> (string \<Rightarrow> string list) \<Rightarrow> ((string, card_face) fmap \<Rightarrow> string list)
   \<Rightarrow> (string \<times> card_export_entry) list \<Rightarrow> card_database" where
  "from_export_entries to_lowercase lower_char keys_of entries =
     (let db = foldl (load_entry to_lowercase) empty_database entries;
          keys = keys_of (db_face_index db)
      in db\<lparr>db_oracle_id_index := fmmap (sort_key (face_order (db_face_order_index db))) (db_oracle_id_index db),
            db_search_face_keys := build_search_face_keys keys (db_face_index db) (db_face_order_index db),
            db_name_alias_index := build_name_alias_index lower_char keys,
            db_creature_type_vocabulary := collect_creature_type_vocabulary (List.map_filter (fmlookup (db_face_index db)) keys)\<rparr>)"

section \<open>Finding a card\<close>

fun split_once_str :: "string \<Rightarrow> string \<Rightarrow> string \<Rightarrow> (string \<times> string) option" where
  "split_once_str pat before [] = None"
| "split_once_str pat before (c # s) =
     (if prefix pat (c # s) then Some (before, drop (length pat) (c # s)) else split_once_str pat (before @ [c]) s)"

definition split_composite_name :: "string \<Rightarrow> (string \<times> string) option" where
  "split_composite_name name =
     (case split_once_str ''//'' [] name of Some parts \<Rightarrow> Some parts | None \<Rightarrow> split_once_str ''/'' [] name)"

datatype name_match = WholeName | CompositeFront

definition known_key :: "card_database \<Rightarrow> string \<Rightarrow> bool" where
  "known_key db key \<longleftrightarrow> fmlookup (db_face_index db) key \<noteq> None \<or> key |\<in>| db_cards db"

definition resolve_name ::
  "(string \<Rightarrow> string) \<Rightarrow> (string \<Rightarrow> string list) \<Rightarrow> card_database \<Rightarrow> string \<Rightarrow> (string \<times> name_match) option" where
  "resolve_name to_lowercase lower_char db name =
     (let lower = to_lowercase name in
      if known_key db lower then Some (lower, WholeName)
      else case fmlookup (db_name_alias_index db) (fold_card_name_key lower_char name) of
        Some alias \<Rightarrow> Some (alias, WholeName)
      | None \<Rightarrow>
          (case split_composite_name lower of
             None \<Rightarrow> None
           | Some (front, _) \<Rightarrow>
               let front = str_trim front in
               if known_key db front then Some (front, CompositeFront)
               else map_option (\<lambda>alias. (alias, CompositeFront))
                 (fmlookup (db_name_alias_index db) (fold_card_name_key lower_char front))))"

definition get_layout_kind :: "card_database \<Rightarrow> string \<Rightarrow> layout_kind option" where
  "get_layout_kind db oracle_id = fmlookup (db_layout_index db) oracle_id"

definition lookup_key :: "(string \<Rightarrow> string) \<Rightarrow> (string \<Rightarrow> string list) \<Rightarrow> card_database \<Rightarrow> string \<Rightarrow> string" where
  "lookup_key to_lowercase lower_char db name =
     (case resolve_name to_lowercase lower_char db name of None \<Rightarrow> to_lowercase name | Some (key, _) \<Rightarrow> key)"

definition get_face_by_name ::
  "(string \<Rightarrow> string) \<Rightarrow> (string \<Rightarrow> string list) \<Rightarrow> card_database \<Rightarrow> string \<Rightarrow> card_face option" where
  "get_face_by_name to_lowercase lower_char db name = fmlookup (db_face_index db) (lookup_key to_lowercase lower_char db name)"

definition get_face_by_oracle_id :: "card_database \<Rightarrow> string \<Rightarrow> card_face option" where
  "get_face_by_oracle_id db oracle_id =
     Option.bind (fmlookup (db_oracle_id_index db) oracle_id) (\<lambda>keys.
       case List.map_filter (fmlookup (db_face_index db)) keys of [] \<Rightarrow> None | face # _ \<Rightarrow> Some face)"

definition faces_of_card :: "card_database \<Rightarrow> card_face \<Rightarrow> card_face list" where
  "faces_of_card db face =
     (let siblings = (case Option.bind (fa_oracle_id face) (fmlookup (db_oracle_id_index db)) of
            Some keys \<Rightarrow> List.map_filter (fmlookup (db_face_index db)) keys | None \<Rightarrow> [])
      in if siblings = [] then [face] else siblings)"

lemma split_once_str_shorter:
  "split_once_str pat before s = Some (head, tail) \<Longrightarrow> pat \<noteq> [] \<Longrightarrow> length tail < length s"
  by (induction pat before s rule: split_once_str.induct) (auto split: if_splits)

function composite_name_segments :: "string \<Rightarrow> string list" where
  "composite_name_segments rest =
     (case split_composite_name rest of
        Some (head, tail) \<Rightarrow> str_trim head # composite_name_segments tail
      | None \<Rightarrow> [str_trim rest])"
  by auto
termination
  by (relation "measure length") (auto simp: split_composite_name_def dest: split_once_str_shorter split: option.splits)

declare composite_name_segments.simps [simp del]

definition names_every_face ::
  "(string \<Rightarrow> string) \<Rightarrow> (string \<Rightarrow> string list) \<Rightarrow> card_database \<Rightarrow> string \<Rightarrow> card_face list \<Rightarrow> bool" where
  "names_every_face to_lowercase lower_char db name faces =
     (let segments = composite_name_segments name in
      length segments = length faces
      \<and> list_all (\<lambda>(segment, card_face). case get_face_by_name to_lowercase lower_char db segment of
            None \<Rightarrow> False | Some named \<Rightarrow> fa_name named = fa_name card_face) (zip segments faces))"

definition canonical_name ::
  "(string \<Rightarrow> string) \<Rightarrow> (string \<Rightarrow> string list) \<Rightarrow> card_database \<Rightarrow> string \<Rightarrow> string option" where
  "canonical_name to_lowercase lower_char db name =
     Option.bind (resolve_name to_lowercase lower_char db name) (\<lambda>(key, matched).
       Option.bind (fmlookup (db_face_index db) key) (\<lambda>face.
         Option.bind
           (case matched of
              WholeName \<Rightarrow> Some (fa_name face)
            | CompositeFront \<Rightarrow>
                (let faces = faces_of_card db face in
                 if \<not> names_every_face to_lowercase lower_char db name faces then None
                 else Some (join '' // '' (map fa_name faces))))
           (\<lambda>printed. if lookup_key to_lowercase lower_char db printed = key then Some printed else None)))"

section \<open>Aliases\<close>

definition alias_state :: "string set \<Rightarrow> string option option" where
  "alias_state K = (if K = {} then None else if is_singleton K then Some (Some (the_elem K)) else Some None)"

lemma alias_state_insert:
  "alias_state (insert k K) = (case alias_state K of
      None \<Rightarrow> Some (Some k) | Some existing \<Rightarrow> if existing \<noteq> Some k then Some None else Some (Some k))"
proof -
  consider "K = {}" | "K = {k}" | k' where "K = {k'}" "k' \<noteq> k" | a b where "a \<in> K" "b \<in> K" "a \<noteq> b" by blast
  then show ?thesis
  proof cases
    case (3 k')
    then have "\<not> is_singleton (insert k K)" by (auto simp: is_singleton_def)
    with 3 show ?thesis by (simp add: alias_state_def)
  next
    case (4 a b)
    then have "\<not> is_singleton K" "\<not> is_singleton (insert k K)" "K \<noteq> {}" by (auto simp: is_singleton_def)
    then show ?thesis by (simp add: alias_state_def)
  qed (simp_all add: alias_state_def)
qed

definition alias_claims :: "(string \<Rightarrow> string list) \<Rightarrow> string list \<Rightarrow> (string \<times> string) list" where
  "alias_claims lower_char keys = concat (map (\<lambda>key. map (Pair key) (key_aliases lower_char key)) keys)"

lemma register_all:
  "fmlookup (foldl (\<lambda>m (key, alias). register_alias key m alias) fmempty claims) alias = alias_state {k. (k, alias) \<in> set claims}"
proof (induction claims rule: rev_induct)
  case Nil
  then show ?case by (simp add: alias_state_def)
next
  case (snoc c claims)
  obtain key a where c: "c = (key, a)" by (cases c)
  show ?case
  proof (cases "a = alias")
    case True
    have "{k. (k, alias) \<in> set (claims @ [c])} = insert key {k. (k, alias) \<in> set claims}" by (auto simp: c True)
    then show ?thesis using snoc by (simp add: c True register_alias_def alias_state_insert split: option.split)
  next
    case False
    then have "{k. (k, alias) \<in> set (claims @ [c])} = {k. (k, alias) \<in> set claims}" by (auto simp: c)
    then show ?thesis using snoc False by (simp add: c register_alias_def split: option.split)
  qed
qed

lemma register_keys:
  "foldl (\<lambda>aliases key. foldl (register_alias key) aliases (key_aliases lower_char key)) m keys
    = foldl (\<lambda>m (key, alias). register_alias key m alias) m (alias_claims lower_char keys)"
proof (induction keys arbitrary: m)
  case (Cons key keys)
  have "foldl (register_alias key) m as = foldl (\<lambda>m (key, alias). register_alias key m alias) m (map (Pair key) as)" for m as
    by (induction as arbitrary: m) simp_all
  with Cons show ?case by (simp add: alias_claims_def)
qed (simp add: alias_claims_def)

lemma alias_index_lookup:
  "fmlookup (build_name_alias_index lower_char keys) alias =
     (let K = {k \<in> set keys. alias \<in> set (key_aliases lower_char k)} in if is_singleton K then Some (the_elem K) else None)"
proof -
  have "{k. (k, alias) \<in> set (alias_claims lower_char keys)} = {k \<in> set keys. alias \<in> set (key_aliases lower_char k)}"
    by (auto simp: alias_claims_def)
  then have "fmlookup (build_name_alias_index lower_char keys) alias =
      (case alias_state {k \<in> set keys. alias \<in> set (key_aliases lower_char k)} of Some (Some k) \<Rightarrow> Some k | _ \<Rightarrow> None)"
    by (simp only: build_name_alias_index_def register_keys register_all Let_def fmlookup_map fmlookup_filter)
       (simp split: option.split)
  moreover have "(case alias_state K of Some (Some k) \<Rightarrow> Some k | _ \<Rightarrow> None) = (if is_singleton K then Some (the_elem K) else None)" for K
    by (cases "K = {}") (simp_all add: alias_state_def is_singleton_def)
  ultimately show ?thesis by (simp only: Let_def)
qed

lemma alias_index_Some:
  "fmlookup (build_name_alias_index lower_char keys) alias = Some k \<longleftrightarrow>
     k \<in> set keys \<and> alias \<in> set (key_aliases lower_char k) \<and> (\<forall>k'\<in>set keys. alias \<in> set (key_aliases lower_char k') \<longrightarrow> k' = k)"
proof -
  let ?K = "{k \<in> set keys. alias \<in> set (key_aliases lower_char k)}"
  have single: "(if is_singleton K then Some (the_elem K) else None) = Some k \<longleftrightarrow> K = {k}" for K
    by (cases "is_singleton K") (auto elim!: is_singletonE)
  have "fmlookup (build_name_alias_index lower_char keys) alias = Some k \<longleftrightarrow> ?K = {k}"
    by (simp only: alias_index_lookup Let_def single)
  also have "\<dots> \<longleftrightarrow> k \<in> ?K \<and> (\<forall>k'\<in>?K. k' = k)" by blast
  finally show ?thesis by blast
qed

lemma alias_index_cong: "set keys = set keys' \<Longrightarrow> build_name_alias_index lower_char keys = build_name_alias_index lower_char keys'"
  by (rule fmap_ext) (simp add: alias_index_lookup)

section \<open>The indices\<close>

definition stored :: "(string \<Rightarrow> string) \<Rightarrow> (string \<times> card_export_entry) list \<Rightarrow> (string \<times> card_export_entry) list" where
  "stored to_lowercase entries = map (\<lambda>(k, e). (to_lowercase k, e)) entries"

definition keys_with_id :: "(string \<times> card_export_entry) list \<Rightarrow> string \<Rightarrow> string list" where
  "keys_with_id es oracle_id = map fst (filter (\<lambda>(k, e). fa_oracle_id (xe_face e) = Some oracle_id) es)"

lemma insert_all_snoc: "insert_all (es @ [(k, v)]) = fmupd k v (insert_all es)"
  by (simp add: insert_all_def)

lemma map_filter_snoc: "List.map_filter f (xs @ [x]) = List.map_filter f xs @ (case f x of None \<Rightarrow> [] | Some y \<Rightarrow> [y])"
  by (simp add: List.map_filter_def split: option.split)

definition order_entries :: "(string \<times> card_export_entry) list \<Rightarrow> (string \<times> nat) list" where
  "order_entries es = List.map_filter (\<lambda>(k, e). map_option (Pair k) (xe_face_index e)) es"

definition kept_entries :: "(card_export_entry \<Rightarrow> 'a) \<Rightarrow> ('a \<Rightarrow> bool) \<Rightarrow> (string \<times> card_export_entry) list \<Rightarrow> (string \<times> 'a) list" where
  "kept_entries f keep es = filter (\<lambda>(k, v). keep v) (map (\<lambda>(k, e). (k, f e)) es)"

definition layouts_with_id :: "(string \<times> card_export_entry) list \<Rightarrow> string \<Rightarrow> layout_kind list" where
  "layouts_with_id es oracle_id =
     List.map_filter (\<lambda>(k, e). if fa_oracle_id (xe_face e) = Some oracle_id then Option.bind (xe_layout e) map_layout_str else None) es"

definition first_of :: "'a list \<Rightarrow> 'a option" where
  "first_of xs = (case xs of [] \<Rightarrow> None | x # _ \<Rightarrow> Some x)"

lemma kept_entries_snoc:
  "kept_entries f keep (es @ [(k, e)]) = kept_entries f keep es @ (if keep (f e) then [(k, f e)] else [])"
  by (simp add: kept_entries_def)

lemma layouts_with_id_snoc:
  "layouts_with_id (es @ [(k, e)]) oracle_id = layouts_with_id es oracle_id
     @ (if fa_oracle_id (xe_face e) = Some oracle_id then (case Option.bind (xe_layout e) map_layout_str of None \<Rightarrow> [] | Some l \<Rightarrow> [l]) else [])"
  by (simp add: layouts_with_id_def map_filter_snoc split: option.split)

lemma first_of_append: "first_of (xs @ ys) = (case first_of xs of None \<Rightarrow> first_of ys | Some x \<Rightarrow> Some x)"
  by (cases xs) (simp_all add: first_of_def)

text \<open>What every index holds after the entries have been loaded.\<close>

definition loaded :: "(string \<times> card_export_entry) list \<Rightarrow> card_database \<Rightarrow> bool" where
  "loaded es db \<longleftrightarrow>
     db_face_index db = insert_all (map (\<lambda>(k, e). (k, xe_face e)) es)
   \<and> db_face_order_index db = insert_all (order_entries es)
   \<and> db_printings_index db = insert_all (kept_entries xe_printings (\<lambda>v. v \<noteq> []) es)
   \<and> (\<forall>oracle_id. fmlookup (db_oracle_id_index db) oracle_id = (if keys_with_id es oracle_id = [] then None else Some (keys_with_id es oracle_id)))
   \<and> db_cards db = {||} \<and> db_search_face_keys db = [] \<and> db_name_alias_index db = fmempty \<and> db_creature_type_vocabulary db = []
   \<and> (\<forall>oracle_id. fmlookup (db_layout_index db) oracle_id = first_of (layouts_with_id es oracle_id))
   \<and> db_legalities db = insert_all (kept_entries (\<lambda>e. normalize_legalities (xe_legalities e)) (\<lambda>m. m \<noteq> fmempty) es)
   \<and> db_rulings_index db = insert_all (kept_entries xe_rulings (\<lambda>v. v \<noteq> []) es)
   \<and> db_bracket_signals_by_name db = insert_all (map (\<lambda>(k, e). (k, xe_bracket_signals e)) es)"

lemma load_entry_layout:
  "fmlookup (db_layout_index (load_entry to_lowercase db (k, e))) oracle_id
    = (case fmlookup (db_layout_index db) oracle_id of
         None \<Rightarrow> if fa_oracle_id (xe_face e) = Some oracle_id then Option.bind (xe_layout e) map_layout_str else None
       | Some l \<Rightarrow> Some l)"
  by (cases "Option.bind (xe_layout e) map_layout_str"; cases "fa_oracle_id (xe_face e)")
     (auto simp: load_entry_def Let_def or_insert_def split: option.splits)

lemma load_entry_loaded:
  assumes "loaded es db"
  shows "loaded (es @ [(to_lowercase k, e)]) (load_entry to_lowercase db (k, e))"
proof -
  have "fmlookup (db_layout_index (load_entry to_lowercase db (k, e))) oracle_id = first_of (layouts_with_id (es @ [(to_lowercase k, e)]) oracle_id)" for oracle_id
    using assms by (auto simp: load_entry_layout loaded_def layouts_with_id_snoc first_of_append first_of_def[of "[]"] first_of_def[of "[_]"] split: option.split)
  moreover have "fmlookup (db_oracle_id_index (load_entry to_lowercase db (k, e))) oracle_id
      = (if keys_with_id (es @ [(to_lowercase k, e)]) oracle_id = [] then None else Some (keys_with_id (es @ [(to_lowercase k, e)]) oracle_id))" for oracle_id
    using assms by (auto simp: loaded_def load_entry_def Let_def keys_with_id_def push_to_def split: option.split)
  ultimately show ?thesis using assms
    by (auto simp: loaded_def) (auto simp: load_entry_def Let_def order_entries_def map_filter_snoc insert_all_snoc kept_entries_snoc split: option.split)
qed

lemma load_entries_loaded: "loaded (stored to_lowercase entries) (foldl (load_entry to_lowercase) empty_database entries)"
proof (induction entries rule: rev_induct)
  case Nil
  show ?case by (simp add: loaded_def stored_def empty_database_def insert_all_def order_entries_def kept_entries_def keys_with_id_def
        layouts_with_id_def first_of_def List.map_filter_def)
next
  case (snoc x entries)
  then show ?case using load_entry_loaded[OF snoc, of to_lowercase "fst x" "snd x"] by (simp add: stored_def case_prod_beta)
qed

lemmas load_entries = load_entries_loaded[unfolded loaded_def, THEN conjunct1]
  load_entries_loaded[unfolded loaded_def, THEN conjunct2, THEN conjunct1]
  load_entries_loaded[unfolded loaded_def, THEN conjunct2, THEN conjunct2, THEN conjunct1]
  load_entries_loaded[unfolded loaded_def, THEN conjunct2, THEN conjunct2, THEN conjunct2, THEN conjunct1, rule_format]
  load_entries_loaded[unfolded loaded_def, THEN conjunct2, THEN conjunct2, THEN conjunct2, THEN conjunct2, THEN conjunct1]
  load_entries_loaded[unfolded loaded_def, THEN conjunct2, THEN conjunct2, THEN conjunct2, THEN conjunct2, THEN conjunct2, THEN conjunct1]
  load_entries_loaded[unfolded loaded_def, THEN conjunct2, THEN conjunct2, THEN conjunct2, THEN conjunct2, THEN conjunct2, THEN conjunct2, THEN conjunct1]
  load_entries_loaded[unfolded loaded_def, THEN conjunct2, THEN conjunct2, THEN conjunct2, THEN conjunct2, THEN conjunct2, THEN conjunct2, THEN conjunct2, THEN conjunct1]

text \<open>Two faces of one card never claim the same place, so that their order is determined.\<close>

definition orders_distinct :: "(string \<times> card_export_entry) list \<Rightarrow> bool" where
  "orders_distinct es \<longleftrightarrow> (\<forall>x\<in>set es. \<forall>y\<in>set es. fst x \<noteq> fst y \<and> fa_oracle_id (xe_face (snd x)) \<noteq> None
     \<and> fa_oracle_id (xe_face (snd x)) = fa_oracle_id (xe_face (snd y)) \<longrightarrow>
     (case xe_face_index (snd x) of None \<Rightarrow> USIZE_MAX | Some n \<Rightarrow> n) \<noteq> (case xe_face_index (snd y) of None \<Rightarrow> USIZE_MAX | Some n \<Rightarrow> n))"

lemma order_entries_keys: "fst ` set (order_entries es) \<subseteq> fst ` set es"
  by (force simp: order_entries_def List.map_filter_def split: prod.splits)

lemma order_entries_Cons:
  "order_entries ((k, e) # es) = (case xe_face_index e of None \<Rightarrow> [] | Some n \<Rightarrow> [(k, n)]) @ order_entries es"
  by (simp add: order_entries_def List.map_filter_simps split: option.split)

lemma order_entries_distinct: "distinct (map fst es) \<Longrightarrow> distinct (map fst (order_entries es))"
proof (induction es)
  case (Cons x es)
  then show ?case using order_entries_keys[of es] by (cases x) (auto simp: order_entries_Cons split: option.split)
qed (simp add: order_entries_def List.map_filter_def)

lemma order_entries_lookup:
  assumes "distinct (map fst es)" "(k, e) \<in> set es"
  shows "face_order (insert_all (order_entries es)) k = (case xe_face_index e of None \<Rightarrow> USIZE_MAX | Some n \<Rightarrow> n)"
proof -
  have "map_of (order_entries es) k = xe_face_index e" using assms
  proof (induction es)
    case (Cons x es)
    obtain k' e' where x: "x = (k', e')" by (cases x)
    show ?case
    proof (cases "k' = k")
      case True
      with Cons.prems x have "e' = e" "k \<notin> fst ` set es" by force+
      moreover from this(2) have "map_of (order_entries es) k = None" using order_entries_keys[of es] by (auto simp: map_of_eq_None_iff)
      ultimately show ?thesis by (simp add: x True order_entries_Cons map_add_def split: option.split)
    next
      case False
      with Cons x show ?thesis by (auto simp: order_entries_Cons split: option.split)
    qed
  qed simp
  then show ?thesis by (simp add: face_order_def insert_all_lookup[OF order_entries_distinct[OF assms(1)]])
qed

lemma sort_key_permuted:
  assumes "mset xs = mset ys" "inj_on f (set xs)"
  shows "sort_key f xs = sort_key f ys"
  using assms by (intro sort_key_inj_key_eq) simp_all

lemma vocabulary_cong: "set faces = set faces' \<Longrightarrow> collect_creature_type_vocabulary faces = collect_creature_type_vocabulary faces'"
  by (simp add: collect_creature_type_vocabulary_def)

lemma keys_with_id_entry: "k \<in> set (keys_with_id es oracle_id) \<longleftrightarrow> (\<exists>e. (k, e) \<in> set es \<and> fa_oracle_id (xe_face e) = Some oracle_id)"
  by (force simp: keys_with_id_def)

lemma ids_ordered:
  assumes "distinct (map fst es)" "orders_distinct es"
  shows "inj_on (face_order (insert_all (order_entries es))) (set (keys_with_id es oracle_id))"
proof (rule inj_onI, rule ccontr)
  fix a b assume ab: "a \<in> set (keys_with_id es oracle_id)" "b \<in> set (keys_with_id es oracle_id)" "a \<noteq> b"
    "face_order (insert_all (order_entries es)) a = face_order (insert_all (order_entries es)) b"
  then obtain e f where ef: "(a, e) \<in> set es" "(b, f) \<in> set es" "fa_oracle_id (xe_face e) = Some oracle_id" "fa_oracle_id (xe_face f) = Some oracle_id"
    unfolding keys_with_id_entry by blast
  have "(case xe_face_index e of None \<Rightarrow> USIZE_MAX | Some n \<Rightarrow> n) \<noteq> (case xe_face_index f of None \<Rightarrow> USIZE_MAX | Some n \<Rightarrow> n)"
    using assms(2)[unfolded orders_distinct_def, rule_format, OF ef(1,2)] ef(3,4) ab(3) by simp
  with ab(4) show False by (simp add: order_entries_lookup[OF assms(1) ef(1)] order_entries_lookup[OF assms(1) ef(2)])
qed

lemma permuted_entries:
  assumes "mset entries = mset entries'" "distinct (map fst (stored to_lowercase entries))"
  shows "insert_all (map (\<lambda>(k, e). (k, xe_face e)) (stored to_lowercase entries)) = insert_all (map (\<lambda>(k, e). (k, xe_face e)) (stored to_lowercase entries'))"
    and "insert_all (order_entries (stored to_lowercase entries)) = insert_all (order_entries (stored to_lowercase entries'))"
    and "insert_all (kept_entries f keep (stored to_lowercase entries)) = insert_all (kept_entries f keep (stored to_lowercase entries'))"
    and "mset (keys_with_id (stored to_lowercase entries) oracle_id) = mset (keys_with_id (stored to_lowercase entries') oracle_id)"
proof -
  let ?es = "stored to_lowercase entries" and ?fs = "stored to_lowercase entries'"
  have m: "mset ?es = mset ?fs" using assms(1) by (simp add: stored_def)
  have "distinct (map fst (map (\<lambda>(k, e). (k, xe_face e)) ?es))" using assms(2) by (simp add: case_prod_beta comp_def)
  with m show "insert_all (map (\<lambda>(k, e). (k, xe_face e)) ?es) = insert_all (map (\<lambda>(k, e). (k, xe_face e)) ?fs)"
    by (intro insert_all_cong) (simp only: mset_map)
  from order_entries_distinct[OF assms(2)] show "insert_all (order_entries ?es) = insert_all (order_entries ?fs)"
    using mset_map_filter[OF m] by (intro insert_all_cong) (simp_all add: order_entries_def)
  have "distinct (map fst (kept_entries f keep ?es))"
    using assms(2) unfolding kept_entries_def by (intro distinct_map_filter) (simp add: case_prod_beta comp_def)
  moreover have "mset (kept_entries f keep ?es) = mset (kept_entries f keep ?fs)" using m by (simp add: kept_entries_def)
  ultimately show "insert_all (kept_entries f keep ?es) = insert_all (kept_entries f keep ?fs)" by (intro insert_all_cong)
  from m show "mset (keys_with_id ?es oracle_id) = mset (keys_with_id ?fs oracle_id)" by (simp add: keys_with_id_def)
qed

text \<open>All faces of a card that record a layout record the same one; no two readable legality rows of an
  entry are about the same format; and two exports have the same content when they agree up to the
  order of their entries and of the rows of each.\<close>

definition layouts_agree :: "(string \<times> card_export_entry) list \<Rightarrow> bool" where
  "layouts_agree es \<longleftrightarrow> (\<forall>x\<in>set es. \<forall>y\<in>set es. \<forall>l l'. fa_oracle_id (xe_face (snd x)) \<noteq> None
     \<and> fa_oracle_id (xe_face (snd x)) = fa_oracle_id (xe_face (snd y))
     \<and> Option.bind (xe_layout (snd x)) map_layout_str = Some l \<and> Option.bind (xe_layout (snd y)) map_layout_str = Some l' \<longrightarrow> l = l')"

definition legality_entries :: "(string \<times> string) list \<Rightarrow> (legality_format \<times> legality_status) list" where
  "legality_entries raw = List.map_filter (\<lambda>(k, v). Option.bind (from_key k) (\<lambda>fmt. map_option (Pair fmt) (from_raw v))) raw"

definition entry_content :: "string \<times> card_export_entry \<Rightarrow> string \<times> card_export_entry \<times> (string \<times> string) multiset" where
  "entry_content x = (fst x, (snd x)\<lparr>xe_legalities := []\<rparr>, mset (xe_legalities (snd x)))"

lemma normalize_legalities_insert: "normalize_legalities raw = insert_all (legality_entries raw)"
proof (induction raw rule: rev_induct)
  case Nil
  then show ?case by (simp add: normalize_legalities_def legality_entries_def insert_all_def List.map_filter_def)
next
  case (snoc x raw)
  then show ?case
    by (cases x) (simp add: normalize_legalities_def legality_entries_def map_filter_snoc insert_all_snoc split: option.split)
qed

lemma normalize_legalities_order:
  assumes "mset raw = mset raw'" "distinct (map fst (legality_entries raw))"
  shows "normalize_legalities raw = normalize_legalities raw'"
proof -
  have "mset (legality_entries raw) = mset (legality_entries raw')"
    unfolding legality_entries_def by (rule mset_map_filter[OF assms(1)])
  then show ?thesis unfolding normalize_legalities_insert using assms(2) by (rule insert_all_cong)
qed

lemma layouts_with_id_entry:
  "l \<in> set (layouts_with_id es oracle_id) \<longleftrightarrow>
     (\<exists>x\<in>set es. fa_oracle_id (xe_face (snd x)) = Some oracle_id \<and> Option.bind (xe_layout (snd x)) map_layout_str = Some l)"
  by (auto simp: layouts_with_id_def set_map_filter case_prod_beta split: if_splits)

lemma first_layout_order:
  assumes "mset es = mset es'" "layouts_agree es"
  shows "first_of (layouts_with_id es oracle_id) = first_of (layouts_with_id es' oracle_id)"
proof -
  have same: "set (layouts_with_id es oracle_id) = set (layouts_with_id es' oracle_id)"
    using mset_eq_setD[OF assms(1)] by (auto simp: layouts_with_id_entry)
  have eq: "l = l'" if "l \<in> set (layouts_with_id es oracle_id)" "l' \<in> set (layouts_with_id es oracle_id)" for l l'
    using that assms(2) unfolding layouts_with_id_entry layouts_agree_def by (metis option.distinct(1))
  show ?thesis
    using same eq by (cases "layouts_with_id es oracle_id"; cases "layouts_with_id es' oracle_id") (auto simp: first_of_def)
qed

lemma permuted_database:
  assumes "mset entries = mset entries'" "distinct (map fst (stored to_lowercase entries))" "orders_distinct (stored to_lowercase entries)"
    "layouts_agree (stored to_lowercase entries)" "lists_keys keys_of" "lists_keys keys_of'"
  shows "from_export_entries to_lowercase lower_char keys_of entries = from_export_entries to_lowercase lower_char keys_of' entries'"
proof -
  let ?db = "foldl (load_entry to_lowercase) empty_database entries" and ?db' = "foldl (load_entry to_lowercase) empty_database entries'"
  let ?es = "stored to_lowercase entries" and ?fs = "stored to_lowercase entries'"
  note perm = permuted_entries[OF assms(1,2)]
  note l = load_entries_loaded[of to_lowercase entries, unfolded loaded_def] load_entries_loaded[of to_lowercase entries', unfolded loaded_def]
  have m: "mset ?es = mset ?fs" using assms(1) by (simp add: stored_def)
  have signals: "insert_all (map (\<lambda>(k, e). (k, xe_bracket_signals e)) ?es) = insert_all (map (\<lambda>(k, e). (k, xe_bracket_signals e)) ?fs)"
    using m assms(2) by (intro insert_all_cong) (simp_all only: mset_map, simp add: case_prod_beta comp_def)
  have layouts: "db_layout_index ?db = db_layout_index ?db'"
    using l first_layout_order[OF m assms(4)] by (intro fmap_ext) simp
  have eqs: "db_face_index ?db = db_face_index ?db'" "db_face_order_index ?db = db_face_order_index ?db'" "db_printings_index ?db = db_printings_index ?db'"
    "db_legalities ?db = db_legalities ?db'" "db_rulings_index ?db = db_rulings_index ?db'" "db_bracket_signals_by_name ?db = db_bracket_signals_by_name ?db'"
    using l perm(1-3) signals by simp_all
  have ids: "fmmap (sort_key (face_order (db_face_order_index ?db))) (db_oracle_id_index ?db)
      = fmmap (sort_key (face_order (db_face_order_index ?db))) (db_oracle_id_index ?db')"
  proof (rule fmap_ext)
    fix oracle_id
    have "keys_with_id ?es oracle_id = [] \<longleftrightarrow> keys_with_id ?fs oracle_id = []"
      using perm(4)[of oracle_id] by (metis mset_zero_iff)
    with sort_key_permuted[OF perm(4) ids_ordered[OF assms(2,3)], of oracle_id]
    show "fmlookup (fmmap (sort_key (face_order (db_face_order_index ?db))) (db_oracle_id_index ?db)) oracle_id
      = fmlookup (fmmap (sort_key (face_order (db_face_order_index ?db))) (db_oracle_id_index ?db')) oracle_id"
      by (simp add: load_entries)
  qed
  have keys: "set (keys_of m) = set (keys_of' m)" "mset (keys_of m) = mset (keys_of' m)" for m
    using assms(5,6) by (simp_all add: lists_keys_def set_eq_iff_mset_eq_distinct[symmetric])
  have "build_search_face_keys (keys_of faces) faces orders = build_search_face_keys (keys_of' faces) faces orders" for faces orders
    unfolding build_search_face_keys_def by (rule sort_key_permuted[OF keys(2)]) (simp add: inj_on_def)
  moreover have "set (List.map_filter f (keys_of m)) = set (List.map_filter f (keys_of' m))" for f :: "string \<Rightarrow> card_face option" and m
    by (simp add: List.map_filter_def keys(1))
  note vocabulary_cong[OF this]
  ultimately show ?thesis
    by (simp add: from_export_entries_def Let_def eqs layouts ids[unfolded eqs] alias_index_cong[OF keys(1)] load_entries(5-8))
qed

lemma mset_map_lift:
  "mset (map f xs) = mset ys \<Longrightarrow> \<exists>zs. mset zs = mset xs \<and> map f zs = ys"
proof (induction ys arbitrary: xs)
  case (Cons y ys)
  then have "y \<in> set (map f xs)" by (metis list.set_intros(1) set_mset_mset)
  then obtain x where x: "x \<in> set xs" "f x = y" by auto
  have m: "mset xs = mset (x # remove1 x xs)" using x(1) by simp
  have "mset (map f xs) = image_mset f (mset (x # remove1 x xs))" unfolding m[symmetric] by (rule mset_map)
  then have "add_mset y (mset ys) = add_mset y (mset (map f (remove1 x xs)))"
    using Cons.prems x(2) by (metis (no_types) mset.simps(2) mset_map list.simps(9))
  then have "mset (map f (remove1 x xs)) = mset ys" by simp
  from Cons.IH[OF this] obtain zs where zs: "mset zs = mset (remove1 x xs)" "map f zs = ys" by blast
  have "mset (x # zs) = mset xs" unfolding m by (simp add: zs(1))
  with zs(2) x(2) show ?case by (intro exI[of _ "x # zs"]) simp
qed simp

lemma load_same_content:
  assumes "map entry_content xs = map entry_content ys" "\<And>x. x \<in> set xs \<Longrightarrow> distinct (map fst (legality_entries (xe_legalities (snd x))))"
  shows "foldl (load_entry to_lowercase) db xs = foldl (load_entry to_lowercase) db ys"
  using assms
proof (induction xs arbitrary: ys db)
  case (Cons x xs)
  then obtain y zs where ys: "ys = y # zs" "entry_content x = entry_content y" "map entry_content xs = map entry_content zs" by auto
  have eqs: "xe_face (snd x) = xe_face (snd y)" "xe_layout (snd x) = xe_layout (snd y)" "xe_face_index (snd x) = xe_face_index (snd y)"
    "xe_printings (snd x) = xe_printings (snd y)" "xe_rulings (snd x) = xe_rulings (snd y)" "xe_bracket_signals (snd x) = xe_bracket_signals (snd y)"
    "fst x = fst y" "mset (xe_legalities (snd x)) = mset (xe_legalities (snd y))"
    using ys(2) by (cases "snd x"; cases "snd y"; simp add: entry_content_def)+
  have "normalize_legalities (xe_legalities (snd x)) = normalize_legalities (xe_legalities (snd y))"
    using Cons.prems(2)[of x] eqs(8) by (intro normalize_legalities_order) simp_all
  then have "load_entry to_lowercase db x = load_entry to_lowercase db y" unfolding load_entry_def case_prod_beta by (simp only: eqs)
  with Cons.IH[OF ys(3)] Cons.prems(2) ys(1) show ?case by simp
qed simp

text \<open>
  C38. The card database does not depend on the order in which hash maps are iterated: when no two
  entries of an export share a key in lower case, no two faces of a card claim the same place or
  disagree on its layout, and no two legality rows of an entry are about the same format, every order
  of the entries, of their legality rows and of the keys gives the same database: every index of faces,
  aliases, oracle ids, layouts, legalities, printings, rulings and bracket signals. (The layout of a card is
  that of the first face that records one, so that without agreement it would depend on the order.)
\<close>

theorem database_order_independent:
  assumes "mset (map entry_content entries) = mset (map entry_content entries')"
    and "distinct (map fst (stored to_lowercase entries))" "orders_distinct (stored to_lowercase entries)"
    and "layouts_agree (stored to_lowercase entries)"
    and "list_all (\<lambda>(k, e). distinct (map fst (legality_entries (xe_legalities e)))) entries"
    and "lists_keys keys_of" "lists_keys keys_of'"
  shows "from_export_entries to_lowercase lower_char keys_of entries = from_export_entries to_lowercase lower_char keys_of' entries'"
proof -
  from mset_map_lift[OF assms(1)] obtain zs where zs: "mset zs = mset entries" "map entry_content zs = map entry_content entries'" by blast
  have "from_export_entries to_lowercase lower_char keys_of entries = from_export_entries to_lowercase lower_char keys_of' zs"
    using permuted_database[OF zs(1)[symmetric] assms(2-4,6,7)] .
  also have "distinct (map fst (legality_entries (xe_legalities (snd x))))" if "x \<in> set zs" for x
    using that assms(5) mset_eq_setD[OF zs(1)] by (auto simp: list_all_iff)
  then have "foldl (load_entry to_lowercase) empty_database zs = foldl (load_entry to_lowercase) empty_database entries'"
    by (intro load_same_content[OF zs(2)])
  then have "from_export_entries to_lowercase lower_char keys_of' zs = from_export_entries to_lowercase lower_char keys_of' entries'"
    by (simp add: from_export_entries_def)
  finally show ?thesis .
qed

definition split_face :: "string \<Rightarrow> mana_cost \<Rightarrow> card_face" where
  "split_face name cost = \<lparr>fa_name = name, fa_mana_cost = cost, fa_core_types = [InstantType], fa_subtypes = [], fa_color_identity = [mana_color.Red, mana_color.Blue],
     fa_oracle_text = None, fa_oracle_id = Some ''fire-ice''\<rparr>"

definition no_signals :: bracket_signals where
  "no_signals = \<lparr>bs_game_changer = False, bs_mass_land_denial = False, bs_extra_turn = False, bs_efficient_tutor = False\<rparr>"

definition split_half :: "string \<Rightarrow> mana_cost \<Rightarrow> nat \<Rightarrow> (string \<times> string) list \<Rightarrow> string \<times> card_export_entry" where
  "split_half name cost n rows = (name, \<lparr>xe_face = split_face name cost, xe_legalities = rows, xe_layout = Some ''split'', xe_face_index = Some n,
     xe_printings = [''APC''], xe_rulings = [], xe_bracket_signals = no_signals\<rparr>)"

definition fire_rows :: "(string \<times> string) list" where
  "fire_rows = [(''modern'', ''Legal''), (''vintage'', ''Restricted'')]"

theorem database_order_independent_witness:
  "from_export_entries (map ascii_lower) (\<lambda>c. [map ascii_lower c]) (\<lambda>m. sorted_list_of_fset (fmdom m))
       [split_half ''Fire'' (Cost [ShardRed] 1) 0 fire_rows, split_half ''Ice'' (Cost [ShardBlue] 1) 1 []]
     = from_export_entries (map ascii_lower) (\<lambda>c. [map ascii_lower c]) (\<lambda>m. rev (sorted_list_of_fset (fmdom m)))
       [split_half ''Ice'' (Cost [ShardBlue] 1) 1 [], split_half ''Fire'' (Cost [ShardRed] 1) 0 (rev fire_rows)]"
proof (rule database_order_independent)
  show "mset (map entry_content [split_half ''Fire'' (Cost [ShardRed] 1) 0 fire_rows, split_half ''Ice'' (Cost [ShardBlue] 1) 1 []])
      = mset (map entry_content [split_half ''Ice'' (Cost [ShardBlue] 1) 1 [], split_half ''Fire'' (Cost [ShardRed] 1) 0 (rev fire_rows)])"
    by (simp add: entry_content_def split_half_def)
  show "distinct (map fst (stored (map ascii_lower) [split_half ''Fire'' (Cost [ShardRed] 1) 0 fire_rows, split_half ''Ice'' (Cost [ShardBlue] 1) 1 []]))"
    by code_simp
  show "orders_distinct (stored (map ascii_lower) [split_half ''Fire'' (Cost [ShardRed] 1) 0 fire_rows, split_half ''Ice'' (Cost [ShardBlue] 1) 1 []])"
    by (simp add: orders_distinct_def stored_def split_half_def split_face_def)
  show "layouts_agree (stored (map ascii_lower) [split_half ''Fire'' (Cost [ShardRed] 1) 0 fire_rows, split_half ''Ice'' (Cost [ShardBlue] 1) 1 []])"
    by (auto simp: layouts_agree_def stored_def split_half_def)
  show "list_all (\<lambda>(k, e). distinct (map fst (legality_entries (xe_legalities e))))
      [split_half ''Fire'' (Cost [ShardRed] 1) 0 fire_rows, split_half ''Ice'' (Cost [ShardBlue] 1) 1 []]"
    by code_simp
qed (simp_all add: lists_keys_def sorted_list_of_fset.rep_eq)

section \<open>What a name finds\<close>

lemma face_index_entry:
  assumes "distinct (map fst (stored to_lowercase entries))" "(k, e) \<in> set entries"
  shows "fmlookup (db_face_index (from_export_entries to_lowercase lower_char keys_of entries)) (to_lowercase k) = Some (xe_face e)"
proof -
  let ?fs = "map (\<lambda>(k, e). (k, xe_face e)) (stored to_lowercase entries)"
  have "distinct (map fst ?fs)" using assms(1) by (simp add: case_prod_beta comp_def)
  moreover have "(to_lowercase k, xe_face e) \<in> set ?fs" using assms(2) by (force simp: stored_def)
  ultimately show ?thesis by (simp add: from_export_entries_def Let_def load_entries insert_all_lookup)
qed

lemma face_index_keys:
  "fset (fmdom (db_face_index (from_export_entries to_lowercase lower_char keys_of entries))) = to_lowercase ` fst ` set entries"
proof -
  have "fset (fmdom (insert_all fs)) = fst ` set fs" for fs :: "(string \<times> card_face) list"
  proof (induction fs rule: rev_induct)
    case (snoc x fs)
    then show ?case by (cases x) (simp add: insert_all_snoc)
  qed (simp add: insert_all_def)
  moreover have "fst ` set (map (\<lambda>(k, e). (k, xe_face e)) (stored to_lowercase entries)) = to_lowercase ` fst ` set entries"
    by (simp add: stored_def image_image case_prod_beta)
  ultimately show ?thesis by (simp add: from_export_entries_def Let_def load_entries)
qed

lemma face_index_lookup:
  assumes "distinct (map fst (stored to_lowercase entries))"
  shows "fmlookup (db_face_index (from_export_entries to_lowercase lower_char keys_of entries)) key = Some face \<longleftrightarrow>
    (\<exists>(k, e)\<in>set entries. to_lowercase k = key \<and> face = xe_face e)"
proof
  assume *: "fmlookup (db_face_index (from_export_entries to_lowercase lower_char keys_of entries)) key = Some face"
  then have "key \<in> to_lowercase ` fst ` set entries" using face_index_keys[of to_lowercase lower_char keys_of entries] by (auto dest: fmdomI)
  then obtain k e where "(k, e) \<in> set entries" "key = to_lowercase k" by force
  with * face_index_entry[OF assms] show "\<exists>(k, e)\<in>set entries. to_lowercase k = key \<and> face = xe_face e" by force
qed (use face_index_entry[OF assms] in auto)

definition place :: "card_export_entry \<Rightarrow> nat" where
  "place e = (case xe_face_index e of None \<Rightarrow> USIZE_MAX | Some n \<Rightarrow> n)"

text \<open>What a name means, independently of how it is looked up. \<open>first_at\<close> is the first place where a
  separator stands; the front half of a name ends at its first double stroke, or at its first stroke
  when it has no double one. A spelling names a key when it is that key, or when it is no key and
  that key alone has its folded form as an alias; a name finds the key it spells, and when it spells
  none the key its trimmed front half spells.\<close>

definition first_at :: "string \<Rightarrow> string \<Rightarrow> nat \<Rightarrow> bool" where
  "first_at pat s i \<longleftrightarrow> prefix pat (drop i s) \<and> (\<forall>j<i. \<not> prefix pat (drop j s))"

definition front_half :: "string \<Rightarrow> string \<Rightarrow> bool" where
  "front_half name front \<longleftrightarrow>
     (\<exists>i. front = take i name \<and> (first_at ''//'' name i \<or> (\<nexists>j. first_at ''//'' name j) \<and> first_at ''/'' name i))"

definition spelled :: "(string \<Rightarrow> string list) \<Rightarrow> string set \<Rightarrow> string \<Rightarrow> string \<Rightarrow> string \<Rightarrow> bool" where
  "spelled lower_char keys lower spelling key \<longleftrightarrow>
     (if lower \<in> keys then key = lower
      else {k \<in> keys. fold_card_name_key lower_char spelling \<in> set (key_aliases lower_char k)} = {key})"

definition names_key :: "(string \<Rightarrow> string) \<Rightarrow> (string \<Rightarrow> string list) \<Rightarrow> string set \<Rightarrow> string \<Rightarrow> string \<Rightarrow> bool" where
  "names_key to_lowercase lower_char keys name key \<longleftrightarrow>
     spelled lower_char keys (to_lowercase name) name key
   \<or> (\<nexists>k. spelled lower_char keys (to_lowercase name) name k)
     \<and> (\<exists>front. front_half (to_lowercase name) front \<and> spelled lower_char keys (str_trim front) (str_trim front) key)"

lemma first_at_Cons:
  "first_at pat (c # s) i \<longleftrightarrow>
     (if prefix pat (c # s) then i = 0 else \<exists>j. i = Suc j \<and> first_at pat s j)"
  by (cases i) (auto simp: first_at_def All_less_Suc2)

lemma first_at_unique: "first_at pat s i \<Longrightarrow> first_at pat s j \<Longrightarrow> i = j"
  unfolding first_at_def by (metis linorder_neqE_nat)

lemma split_once_str_first:
  "pat \<noteq> [] \<Longrightarrow> (\<exists>rear. split_once_str pat before s = Some (front, rear)) \<longleftrightarrow> (\<exists>i. first_at pat s i \<and> front = before @ take i s)"
proof (induction pat before s rule: split_once_str.induct)
  case (1 pat before)
  then show ?case by (simp add: first_at_def)
next
  case (2 pat before c s)
  show ?case
  proof (cases "prefix pat (c # s)")
    case True
    then show ?thesis by (auto simp: first_at_Cons)
  next
    case False
    have "(\<exists>rear. split_once_str pat before (c # s) = Some (front, rear)) \<longleftrightarrow> (\<exists>i. first_at pat s i \<and> front = (before @ [c]) @ take i s)"
      using "2.IH"[OF False "2.prems"] False by simp
    also have "\<dots> \<longleftrightarrow> (\<exists>i. first_at pat (c # s) i \<and> front = before @ take i (c # s))"
      using False by (auto simp: first_at_Cons)
    finally show ?thesis .
  qed
qed

lemma split_composite_front:
  "(\<exists>rear. split_composite_name name = Some (front, rear)) \<longleftrightarrow> front_half name front"
proof -
  note once = split_once_str_first[of "''//''" "[]" name] split_once_str_first[of "''/''" "[]" name]
  show ?thesis
  proof (cases "split_once_str ''//'' [] name")
    case None
    with once(1) have "\<nexists>i. first_at ''//'' name i" by (metis list.distinct(1) option.distinct(1))
    with None once(2)[of front] show ?thesis by (auto simp: split_composite_name_def front_half_def)
  next
    case (Some parts)
    with once(1)[of "fst parts"] obtain i where "first_at ''//'' name i" by (cases parts) auto
    with Some once(1)[of front] show ?thesis by (auto simp: split_composite_name_def front_half_def)
  qed
qed

text \<open>The lookup of one spelling, whole or front half.\<close>

lemma resolve_name_spelled:
  assumes "\<And>key. known_key db key \<longleftrightarrow> key \<in> keys"
    and "\<And>alias key. fmlookup (db_name_alias_index db) alias = Some key \<longleftrightarrow> {k \<in> keys. alias \<in> set (key_aliases lower_char k)} = {key}"
  shows "(\<exists>matched. resolve_name to_lowercase lower_char db name = Some (key, matched)) \<longleftrightarrow> names_key to_lowercase lower_char keys name key"
proof -
  let ?lower = "to_lowercase name" and ?owner = "\<lambda>s. fmlookup (db_name_alias_index db) (fold_card_name_key lower_char s)"
  have one: "spelled lower_char keys lower spelling k \<longleftrightarrow> (if known_key db lower then Some lower else ?owner spelling) = Some k" for lower spelling k
    by (auto simp: spelled_def assms)
  consider "known_key db ?lower" | k where "\<not> known_key db ?lower" "?owner name = Some k"
    | "\<not> known_key db ?lower" "?owner name = None" "split_composite_name ?lower = None"
    | front rear where "\<not> known_key db ?lower" "?owner name = None" "split_composite_name ?lower = Some (front, rear)"
    by (metis option.exhaust surj_pair)
  then show ?thesis
  proof cases
    case 3
    then have "\<nexists>front. front_half ?lower front" unfolding split_composite_front[symmetric] by simp
    with 3 show ?thesis by (simp add: names_key_def one resolve_name_def)
  next
    case (4 front rear)
    then have "front_half ?lower f \<longleftrightarrow> f = front" for f unfolding split_composite_front[symmetric] by auto
    with 4 show ?thesis by (auto simp: names_key_def one resolve_name_def Let_def)
  qed (auto simp: names_key_def one resolve_name_def)
qed

lemma get_face_spelled:
  assumes "\<And>key. known_key db key \<longleftrightarrow> key \<in> keys"
    and "\<And>alias key. fmlookup (db_name_alias_index db) alias = Some key \<longleftrightarrow> {k \<in> keys. alias \<in> set (key_aliases lower_char k)} = {key}"
  shows "get_face_by_name to_lowercase lower_char db name = Some face \<longleftrightarrow>
    (\<exists>key. names_key to_lowercase lower_char keys name key \<and> fmlookup (db_face_index db) key = Some face)"
proof (cases "resolve_name to_lowercase lower_char db name")
  case None
  then have "\<not> known_key db (to_lowercase name)" by (auto simp: resolve_name_def Let_def split: if_splits)
  with None show ?thesis
    by (simp add: get_face_by_name_def lookup_key_def known_key_def resolve_name_spelled[OF assms, symmetric])
next
  case (Some r)
  then show ?thesis
    by (cases r) (simp add: get_face_by_name_def lookup_key_def resolve_name_spelled[OF assms, symmetric])
qed

lemma canonical_name_found:
  "canonical_name to_lowercase lower_char db name = Some printed \<Longrightarrow>
    \<exists>face. get_face_by_name to_lowercase lower_char db name = Some face \<and> get_face_by_name to_lowercase lower_char db printed = Some face"
  by (auto simp: canonical_name_def get_face_by_name_def lookup_key_def[of _ _ _ name] bind_eq_Some_conv split: if_splits)

lemma database_fields:
  fixes entries to_lowercase lower_char keys_of
  defines "db \<equiv> from_export_entries to_lowercase lower_char keys_of entries"
  shows "known_key db key \<longleftrightarrow> key \<in> to_lowercase ` fst ` set entries"
    and "lists_keys keys_of \<Longrightarrow> fmlookup (db_name_alias_index db) alias = Some key \<longleftrightarrow>
      key \<in> to_lowercase ` fst ` set entries \<and> alias \<in> set (key_aliases lower_char key)
      \<and> (\<forall>key'\<in>to_lowercase ` fst ` set entries. alias \<in> set (key_aliases lower_char key') \<longrightarrow> key' = key)"
    and "fmlookup (db_oracle_id_index db) oracle_id = (let ks = keys_with_id (stored to_lowercase entries) oracle_id in
      if ks = [] then None else Some (sort_key (face_order (insert_all (order_entries (stored to_lowercase entries)))) ks))"
proof -
  have keys: "fset (fmdom (db_face_index db)) = to_lowercase ` fst ` set entries" unfolding db_def by (rule face_index_keys)
  have "db_cards db = {||}" by (simp add: db_def from_export_entries_def Let_def load_entries)
  with keys show "known_key db key \<longleftrightarrow> key \<in> to_lowercase ` fst ` set entries"
    by (simp add: known_key_def) (metis fmdom'_alt_def fmdom'_notI fmlookup_dom'_iff option.distinct(1) option.exhaust)
  show "fmlookup (db_name_alias_index db) alias = Some key \<longleftrightarrow>
      key \<in> to_lowercase ` fst ` set entries \<and> alias \<in> set (key_aliases lower_char key)
      \<and> (\<forall>key'\<in>to_lowercase ` fst ` set entries. alias \<in> set (key_aliases lower_char key') \<longrightarrow> key' = key)" if "lists_keys keys_of"
  proof -
    have "set (keys_of (db_face_index db)) = to_lowercase ` fst ` set entries" using that keys by (simp add: lists_keys_def)
    moreover have "db_name_alias_index db = build_name_alias_index lower_char (keys_of (db_face_index db))"
      by (simp add: db_def from_export_entries_def Let_def)
    ultimately show ?thesis by (simp only: alias_index_Some)
  qed
  show "fmlookup (db_oracle_id_index db) oracle_id = (let ks = keys_with_id (stored to_lowercase entries) oracle_id in
      if ks = [] then None else Some (sort_key (face_order (insert_all (order_entries (stored to_lowercase entries)))) ks))"
    by (simp add: db_def from_export_entries_def Let_def load_entries)
qed

lemma oracle_id_finds_front:
  fixes entries to_lowercase lower_char keys_of
  defines "db \<equiv> from_export_entries to_lowercase lower_char keys_of entries"
  assumes "distinct (map fst (stored to_lowercase entries))"
  shows "case get_face_by_oracle_id db oracle_id of
      None \<Rightarrow> \<forall>(k, e)\<in>set entries. fa_oracle_id (xe_face e) \<noteq> Some oracle_id
    | Some face \<Rightarrow> \<exists>(k, e)\<in>set entries. face = xe_face e \<and> fa_oracle_id face = Some oracle_id
        \<and> (\<forall>(k', e')\<in>set entries. fa_oracle_id (xe_face e') = Some oracle_id \<longrightarrow> place e \<le> place e')"
proof -
  let ?es = "stored to_lowercase entries" and ?f = "face_order (insert_all (order_entries (stored to_lowercase entries)))"
  let ?ks = "keys_with_id ?es oracle_id"
  have listed: "to_lowercase k \<in> set ?ks" "(to_lowercase k, e) \<in> set ?es" if "(k, e) \<in> set entries" "fa_oracle_id (xe_face e) = Some oracle_id" for k e
  proof -
    show "(to_lowercase k, e) \<in> set ?es" using that(1) by (force simp: stored_def)
    with that(2) show "to_lowercase k \<in> set ?ks" by (auto simp: keys_with_id_entry)
  qed
  show ?thesis
  proof (cases "sort_key ?f ?ks")
    case Nil
    then have none: "?ks = []" by (metis set_sort set_empty)
    with listed(1) have "\<forall>(k, e)\<in>set entries. fa_oracle_id (xe_face e) \<noteq> Some oracle_id" by fastforce
    with none show ?thesis by (simp add: get_face_by_oracle_id_def db_def database_fields(3))
  next
    case (Cons a as)
    have "a \<in> set ?ks" using Cons by (metis list.set_intros(1) set_sort)
    then obtain e where e: "(a, e) \<in> set ?es" "fa_oracle_id (xe_face e) = Some oracle_id" by (auto simp: keys_with_id_entry)
    then obtain k where k: "(k, e) \<in> set entries" "a = to_lowercase k" by (auto simp: stored_def)
    have "?ks \<noteq> []" using \<open>a \<in> set ?ks\<close> by force
    then have "fmlookup (db_oracle_id_index db) oracle_id = Some (a # as)" by (simp add: db_def database_fields(3) Cons)
    with face_index_entry[OF assms(2) k(1)] k(2) have found: "get_face_by_oracle_id db oracle_id = Some (xe_face e)"
      by (simp add: get_face_by_oracle_id_def db_def List.map_filter_simps)
    have "place e \<le> place e'" if "(k', e') \<in> set entries" "fa_oracle_id (xe_face e') = Some oracle_id" for k' e'
    proof -
      have "sorted (map ?f (a # as))" using Cons by (metis sorted_sort_key)
      moreover have "to_lowercase k' \<in> set (a # as)" using listed(1)[OF that] Cons by (metis set_sort)
      ultimately have "?f a \<le> ?f (to_lowercase k')" by auto
      then show ?thesis
        by (simp add: order_entries_lookup[OF assms(2) e(1)] order_entries_lookup[OF assms(2) listed(2)[OF that]] place_def)
    qed
    with found k(1) e(2) show ?thesis by auto
  qed
qed

text \<open>
  C37. What a card name finds in a database built from an export: it finds a face exactly when that is
  the face of the entry whose key the name means. A spelling that equals a stored key in lower case means that
  key, even if it contains a face separator; otherwise one whose folded form is an alias of exactly
  one key means that key; otherwise a composite name means the key that its front half, up to the
  first separator and trimmed, is or is the only alias of; every other name, one with an unknown or
  ambiguous front half included, finds nothing. The canonical name of a spelling finds the same card.
  An oracle id finds a face of that id such that none of its faces comes before it, and nothing
  exactly when no face has that id.
\<close>

theorem card_names_resolve:
  fixes entries to_lowercase lower_char keys_of
  defines "db \<equiv> from_export_entries to_lowercase lower_char keys_of entries"
    and "keys \<equiv> to_lowercase ` fst ` set entries"
  assumes "distinct (map fst (stored to_lowercase entries))" "lists_keys keys_of"
  shows "(get_face_by_name to_lowercase lower_char db name = Some face \<longleftrightarrow>
      (\<exists>(k, e)\<in>set entries. names_key to_lowercase lower_char keys name (to_lowercase k) \<and> face = xe_face e))
   \<and> (canonical_name to_lowercase lower_char db name = Some printed \<longrightarrow>
        get_face_by_name to_lowercase lower_char db printed = get_face_by_name to_lowercase lower_char db name
        \<and> get_face_by_name to_lowercase lower_char db name \<noteq> None)
   \<and> (case get_face_by_oracle_id db oracle_id of
        None \<Rightarrow> \<forall>(k, e)\<in>set entries. fa_oracle_id (xe_face e) \<noteq> Some oracle_id
      | Some front \<Rightarrow> \<exists>(k, e)\<in>set entries. front = xe_face e \<and> fa_oracle_id front = Some oracle_id
          \<and> (\<forall>(k', e')\<in>set entries. fa_oracle_id (xe_face e') = Some oracle_id \<longrightarrow> place e \<le> place e'))"
proof (intro conjI impI)
  note fields = database_fields[where to_lowercase = to_lowercase and lower_char = lower_char and keys_of = keys_of and entries = entries, folded db_def keys_def]
  have claimed: "fmlookup (db_name_alias_index db) a = Some key \<longleftrightarrow> {k \<in> keys. a \<in> set (key_aliases lower_char k)} = {key}" for a key
    unfolding fields(2)[OF assms(4)] by blast
  show "get_face_by_name to_lowercase lower_char db name = Some face \<longleftrightarrow>
      (\<exists>(k, e)\<in>set entries. names_key to_lowercase lower_char keys name (to_lowercase k) \<and> face = xe_face e)"
    unfolding get_face_spelled[OF fields(1) claimed] unfolding db_def face_index_lookup[OF assms(3)] by fast
  assume "canonical_name to_lowercase lower_char db name = Some printed"
  from canonical_name_found[OF this]
  show "get_face_by_name to_lowercase lower_char db printed = get_face_by_name to_lowercase lower_char db name"
    and "get_face_by_name to_lowercase lower_char db name \<noteq> None" by auto
qed (unfold db_def, rule oracle_id_finds_front[OF assms(3)])

lemma char_codes: "char_of (117 :: nat) = CHR ''u''" "char_of (100 :: nat) = CHR ''d''" "char_of (115 :: nat) = CHR ''s''" "char_of (114 :: nat) = CHR ''r''"
  by code_simp+

lemma ascii_folding:
  "key_aliases (\<lambda>c. [map ascii_lower c]) ''the ur-dragon'' = [''ur-dragon'']"
  "key_aliases (\<lambda>c. [map ascii_lower c]) ''sol ring'' = []"
  "fold_card_name_key (\<lambda>c. [map ascii_lower c]) ''ur-dragon'' = ''ur-dragon''"
  "fold_card_name_key (\<lambda>c. [map ascii_lower c]) ''Ur-Dragon // Sol Ring'' = ''ur-dragon // sol ring''"
  by (simp_all add: key_aliases_def fold_card_name_key_def fold_char_def fold_table_def byte_of_def is_continuation_def
     strip_prefix_def str_contains_def name_segments_def ascii_lower_def char_codes)

definition plain_card :: "string \<Rightarrow> string \<times> card_export_entry" where
  "plain_card name = (name, \<lparr>xe_face = split_face name (Cost [] 1), xe_legalities = [], xe_layout = None, xe_face_index = None,
     xe_printings = [], xe_rulings = [], xe_bracket_signals = no_signals\<rparr>)"

text \<open>A composite name whose front half is an alias finds the front card, not the one of its rear half.\<close>

theorem card_names_resolve_witness:
  "get_face_by_name (map ascii_lower) (\<lambda>c. [map ascii_lower c])
     (from_export_entries (map ascii_lower) (\<lambda>c. [map ascii_lower c]) (\<lambda>m. sorted_list_of_fset (fmdom m)) [plain_card ''The Ur-Dragon'', plain_card ''Sol Ring''])
     ''Ur-Dragon // Sol Ring'' = Some (xe_face (snd (plain_card ''The Ur-Dragon'')))"
proof -
  let ?es = "[plain_card ''The Ur-Dragon'', plain_card ''Sol Ring'']" and ?lc = "\<lambda>c. [map ascii_lower c]"
  let ?keys = "{''the ur-dragon'', ''sol ring''}" and ?name = "''Ur-Dragon // Sol Ring''"
  have d: "distinct (map fst (stored (map ascii_lower) ?es))" by code_simp
  have l: "lists_keys (\<lambda>m :: (string, card_face) fmap. sorted_list_of_fset (fmdom m))" by (simp add: lists_keys_def sorted_list_of_fset.rep_eq)
  have keys: "map ascii_lower ` fst ` set ?es = ?keys" by code_simp
  have lower: "map ascii_lower ''The Ur-Dragon'' = ''the ur-dragon''" "map ascii_lower ?name = ''ur-dragon // sol ring''" by code_simp+
  have "split_composite_name ''ur-dragon // sol ring'' = Some (''ur-dragon '', '' sol ring'')" by code_simp
  then have "front_half ''ur-dragon // sol ring'' ''ur-dragon ''" unfolding split_composite_front[symmetric] by blast
  moreover have "str_trim ''ur-dragon '' = ''ur-dragon''" by code_simp
  moreover have "spelled ?lc ?keys ''ur-dragon'' ''ur-dragon'' ''the ur-dragon''" by (auto simp: spelled_def ascii_folding)
  moreover have "{k \<in> ?keys. ''ur-dragon // sol ring'' \<in> set (key_aliases ?lc k)} = {}" by (auto simp: ascii_folding)
  then have "\<nexists>k. spelled ?lc ?keys ''ur-dragon // sol ring'' ?name k" by (simp only: spelled_def ascii_folding) simp
  ultimately have named: "names_key (map ascii_lower) ?lc ?keys ?name ''the ur-dragon''" unfolding names_key_def lower by metis
  have "(''The Ur-Dragon'', snd (plain_card ''The Ur-Dragon'')) \<in> set ?es" by (simp add: plain_card_def)
  with card_names_resolve[OF d l, of ?lc ?name "xe_face (snd (plain_card ''The Ur-Dragon''))"] named
  show ?thesis unfolding keys lower(1)[symmetric] by blast
qed

end
