(* ===== verification/Cube_List.thy ===== *)
theory Cube_List
  imports Card_Database
begin

text \<open>
  Importing a cube, from \<open>crates/draft-core/src/cube.rs\<close>: the parser of a cube list, the cards it
  names and the resolution of addable cards. Cards are looked up in the card database. The lemmas
  give a printed list back and show which cards an import yields.
\<close>

section \<open>The cube list\<close>

record cube_list_entry =
  ce_name :: string
  ce_count :: nat
  ce_oracle_id :: "string option"

datatype cube_import_error = InvalidLine nat | UnknownCard string

definition is_ascii_hexdigit :: "char \<Rightarrow> bool" where
  "is_ascii_hexdigit c \<longleftrightarrow> is_digit c \<or> 65 \<le> byte_of c \<and> byte_of c \<le> 70 \<or> 97 \<le> byte_of c \<and> byte_of c \<le> 102"

definition is_oracle_id :: "string \<Rightarrow> bool" where
  "is_oracle_id candidate \<longleftrightarrow> CHR ''-'' \<in> set candidate \<and> list_all (\<lambda>c. is_ascii_hexdigit c \<or> c = CHR ''-'') candidate"

definition split_oracle_id :: "string \<Rightarrow> string \<times> string option" where
  "split_oracle_id name =
     (if name \<noteq> [] \<and> last name = CHR '']''
      then case rsplit_once (CHR ''['') (butlast name) of
        None \<Rightarrow> (name, None)
      | Some (before, candidate) \<Rightarrow>
          if is_oracle_id candidate then (trim_end before, Some candidate) else (name, None)
      else (name, None))"

datatype cube_line = BlankLine | EntryLine cube_list_entry | BadLine cube_import_error

definition parse_cube_line :: "nat \<Rightarrow> string \<Rightarrow> cube_line" where
  "parse_cube_line idx raw_line =
     (let line = str_trim raw_line in
      if line = [] then BlankLine
      else case split_once_ws [] line of
        None \<Rightarrow> BadLine (InvalidLine (idx + 1))
      | Some (count_text, rest) \<Rightarrow>
          (case parse_u32 count_text of
             None \<Rightarrow> BadLine (InvalidLine (idx + 1))
           | Some n \<Rightarrow>
               (case split_oracle_id (str_trim rest) of (name, oracle_id) \<Rightarrow>
                  if n = 0 \<or> name = [] then BadLine (InvalidLine (idx + 1))
                  else EntryLine \<lparr>ce_name = name, ce_count = n, ce_oracle_id = oracle_id\<rparr>)))"

definition parse_cube_list :: "string \<Rightarrow> (cube_import_error list, cube_list_entry list) outcome" where
  "parse_cube_list txt =
     (let parsed = map (\<lambda>(idx, line). parse_cube_line idx line) (List.enumerate 0 (str_lines txt));
          entries = List.map_filter (\<lambda>l. case l of EntryLine e \<Rightarrow> Some e | _ \<Rightarrow> None) parsed;
          errors = List.map_filter (\<lambda>l. case l of BadLine e \<Rightarrow> Some e | _ \<Rightarrow> None) parsed
      in if errors = [] then Ok entries else Err errors)"

section \<open>The cards of a cube\<close>

fun mana_color_letter :: "mana_color \<Rightarrow> string" where
  "mana_color_letter mana_color.White = ''W''"
| "mana_color_letter mana_color.Blue = ''U''"
| "mana_color_letter mana_color.Black = ''B''"
| "mana_color_letter mana_color.Red = ''R''"
| "mana_color_letter mana_color.Green = ''G''"

fun core_type_name :: "core_type \<Rightarrow> string" where
  "core_type_name ArtifactType = ''Artifact''"
| "core_type_name BattleType = ''Battle''"
| "core_type_name CreatureType = ''Creature''"
| "core_type_name DungeonType = ''Dungeon''"
| "core_type_name EnchantmentType = ''Enchantment''"
| "core_type_name InstantType = ''Instant''"
| "core_type_name KindredType = ''Kindred''"
| "core_type_name LandType = ''Land''"
| "core_type_name PlaneType = ''Plane''"
| "core_type_name PhenomenonType = ''Phenomenon''"
| "core_type_name SchemeType = ''Scheme''"
| "core_type_name ConspiracyType = ''Conspiracy''"
| "core_type_name PlaneswalkerType = ''Planeswalker''"
| "core_type_name SorceryType = ''Sorcery''"
| "core_type_name TribalType = ''Tribal''"

definition face_type_line :: "card_face \<Rightarrow> string" where
  "face_type_line face =
     (let core = join '' '' (map core_type_name (fa_core_types face)) in
      if fa_subtypes face = [] then core
      else core @ '' '' @ [CHR 0xE2, CHR 0x80, CHR 0x94] @ '' '' @ join '' '' (fa_subtypes face))"

definition card_instance_from_face ::
  "(string \<Rightarrow> string) \<Rightarrow> card_face \<Rightarrow> nat \<Rightarrow> nat \<Rightarrow> ('e, draft_card_instance) outcome" where
  "card_instance_from_face to_lowercase face idx copy =
     and_then (case fa_oracle_text face of None \<Rightarrow> Ok None | Some oracle_text \<Rightarrow> draft_effect_from_oracle_text to_lowercase oracle_text) (\<lambda>effect.
       Ok \<lparr>ci_instance_id = ''cube-source-'' @ show_nat idx @ ''-'' @ show_nat copy, ci_name = fa_name face, ci_set_code = ''CUBE'',
           ci_collector_number = show_nat (idx + 1), ci_rarity = ''cube'', ci_colors = map mana_color_letter (fa_color_identity face),
           ci_cmc = min (mana_value (fa_mana_cost face)) 255, ci_type_line = face_type_line face, ci_draft_effect = effect\<rparr>)"

definition face_of_entry ::
  "(string \<Rightarrow> string) \<Rightarrow> (string \<Rightarrow> string list) \<Rightarrow> card_database \<Rightarrow> cube_list_entry \<Rightarrow> card_face option" where
  "face_of_entry to_lowercase lower_char db entry =
     (case get_face_by_name to_lowercase lower_char db (ce_name entry) of
        Some face \<Rightarrow> Some face
      | None \<Rightarrow> Option.bind (ce_oracle_id entry) (get_face_by_oracle_id db))"

definition import_entry ::
  "(string \<Rightarrow> string) \<Rightarrow> (string \<Rightarrow> string list) \<Rightarrow> card_database \<Rightarrow> cube_list_entry \<Rightarrow> draft_card_instance list \<times> cube_import_error list
   \<Rightarrow> (cube_import_error list, draft_card_instance list \<times> cube_import_error list) outcome" where
  "import_entry to_lowercase lower_char db entry acc = (case acc of (cards, errors) \<Rightarrow>
     (case face_of_entry to_lowercase lower_char db entry of
        None \<Rightarrow> Ok (cards, errors @ [UnknownCard (ce_name entry)])
      | Some face \<Rightarrow>
          and_then (try_fold (\<lambda>copy cards. and_then (card_instance_from_face to_lowercase face (length cards) copy) (\<lambda>c. Ok (cards @ [c])))
            [0..<ce_count entry] cards) (\<lambda>cards'. Ok (cards', errors))))"

definition cube_cards_from_entries ::
  "(string \<Rightarrow> string) \<Rightarrow> (string \<Rightarrow> string list) \<Rightarrow> card_database \<Rightarrow> cube_list_entry list
   \<Rightarrow> (cube_import_error list, draft_card_instance list) outcome" where
  "cube_cards_from_entries to_lowercase lower_char db entries =
     and_then (try_fold (import_entry to_lowercase lower_char db) entries ([], [])) (\<lambda>(cards, errors).
       if errors = [] then Ok cards else Err errors)"

definition resolve_addable_cards ::
  "(string \<Rightarrow> string) \<Rightarrow> (string \<Rightarrow> string list) \<Rightarrow> card_database \<Rightarrow> deck_addable_cards
   \<Rightarrow> (cube_import_error list, deck_addable_cards) outcome" where
  "resolve_addable_cards to_lowercase lower_char db addable_cards =
     (let find = get_face_by_name to_lowercase lower_char db;
          custom = List.map_filter (\<lambda>name. map_option fa_name (find name)) (ac_custom addable_cards);
          errors = List.map_filter (\<lambda>name. case find name of None \<Rightarrow> Some (UnknownCard name) | Some _ \<Rightarrow> None) (ac_custom addable_cards)
      in if errors = [] then Ok (addable_cards\<lparr>ac_custom := sort_dedup custom\<rparr>) else Err errors)"

section \<open>Printing and parsing a list\<close>

definition print_cube_entry :: "cube_list_entry \<Rightarrow> string" where
  "print_cube_entry e = show_nat (ce_count e) @ '' '' @ ce_name e
     @ (case ce_oracle_id e of None \<Rightarrow> [] | Some oid \<Rightarrow> '' ['' @ oid @ '']'')"

definition print_cube_list :: "cube_list_entry list \<Rightarrow> string" where
  "print_cube_list es = concat (map (\<lambda>e. print_cube_entry e @ [NEWLINE]) es)"

definition entry_ok :: "cube_list_entry \<Rightarrow> bool" where
  "entry_ok e \<longleftrightarrow> 0 < ce_count e \<and> ce_count e < 2 ^ 32 \<and> clean (ce_name e) \<and> NEWLINE \<notin> set (ce_name e)
     \<and> (case ce_oracle_id e of None \<Rightarrow> snd (split_oracle_id (ce_name e)) = None | Some oid \<Rightarrow> is_oracle_id oid)"

lemma oracle_id_bytes:
  assumes "is_oracle_id oid" "c \<in> set oid"
  shows "is_ascii c \<and> \<not> ascii_ws c \<and> c \<noteq> CHR ''['' \<and> c \<noteq> NEWLINE"
  using assms by (auto simp: is_oracle_id_def list_all_iff is_ascii_hexdigit_def is_digit_def is_ascii_def ascii_ws_def byte_of_def NEWLINE_def)

lemma rsplit_once_last: "c \<notin> set b \<Longrightarrow> rsplit_once c (a @ c # b) = Some (a, b)"
  by (simp add: rsplit_once_def dropWhile_append takeWhile_append)

lemma split_printed_id:
  assumes "clean name" "is_oracle_id oid"
  shows "split_oracle_id (name @ '' ['' @ oid @ '']'') = (name, Some oid)"
proof -
  have split: "rsplit_once (CHR ''['') ((name @ '' '') @ CHR ''['' # oid) = Some (name @ '' '', oid)"
    using oracle_id_bytes[OF assms(2)] by (intro rsplit_once_last) blast
  have sp: "is_ascii (CHR '' '')" "ascii_ws (CHR '' '')" by (simp_all add: is_ascii_def ascii_ws_def byte_of_def)
  have "trim_end (name @ '' '') = rev (skip_ws ws_trail (CHR '' '' # rev name))" by (simp add: trim_end_def)
  also have "\<dots> = rev (skip_ws ws_trail (rev name))" using ws_ascii(2)[OF sp(1)] sp(2) by (subst skip_ws_one) simp_all
  also have "\<dots> = name" using assms(1) by (simp add: clean_def skip_ws_none)
  finally show ?thesis using split assms(2) by (simp add: split_oracle_id_def butlast_append)
qed

lemma split_no_id: "snd (split_oracle_id name) = None \<Longrightarrow> split_oracle_id name = (name, None)"
  by (auto simp: split_oracle_id_def split: option.splits prod.splits if_splits)

lemma printed_clean:
  assumes "entry_ok e"
  shows "clean (print_cube_entry e)" "NEWLINE \<notin> set (print_cube_entry e)"
    "clean (ce_name e @ (case ce_oracle_id e of None \<Rightarrow> [] | Some oid \<Rightarrow> '' ['' @ oid @ '']''))"
proof -
  have sp: "is_ascii (CHR '' '')" by (simp add: is_ascii_def byte_of_def)
  have count: "clean (show_nat (ce_count e))" using show_nat_bytes show_nat_nonempty by (intro clean_ascii) auto
  have name: "clean (ce_name e)" using assms by (simp add: entry_ok_def)
  show rest: "clean (ce_name e @ (case ce_oracle_id e of None \<Rightarrow> [] | Some oid \<Rightarrow> '' ['' @ oid @ '']''))"
  proof (cases "ce_oracle_id e")
    case (Some oid)
    with assms have "is_oracle_id oid" by (simp add: entry_ok_def)
    then have "clean (''['' @ oid @ '']'')" using oracle_id_bytes
      by (intro clean_ascii) (auto simp: is_ascii_def ascii_ws_def byte_of_def)
    from clean_append[OF name this sp] Some show ?thesis by simp
  qed (use name in simp)
  from clean_append[OF count rest sp] show "clean (print_cube_entry e)" by (simp add: print_cube_entry_def)
  have nl: "NEWLINE \<noteq> CHR '' ''" "NEWLINE \<noteq> CHR ''[''" "NEWLINE \<noteq> CHR '']''" by (simp_all add: NEWLINE_def)
  have "NEWLINE \<notin> set (show_nat n)" for n
    using show_nat_bytes[of NEWLINE n] by (auto simp: is_digit_def NEWLINE_def byte_of_def)
  moreover have "NEWLINE \<notin> set (ce_name e)" using assms by (simp add: entry_ok_def)
  moreover have "NEWLINE \<notin> set oid" if "ce_oracle_id e = Some oid" for oid
    using that assms oracle_id_bytes[of oid NEWLINE] by (auto simp: entry_ok_def)
  ultimately show "NEWLINE \<notin> set (print_cube_entry e)" using nl by (auto simp: print_cube_entry_def split: option.splits)
qed

lemma parse_printed_line:
  assumes "entry_ok e"
  shows "parse_cube_line idx (print_cube_entry e) = EntryLine e"
proof -
  let ?rest = "ce_name e @ (case ce_oracle_id e of None \<Rightarrow> [] | Some oid \<Rightarrow> '' ['' @ oid @ '']'')"
  note p = printed_clean[OF assms]
  have line: "print_cube_entry e = show_nat (ce_count e) @ CHR '' '' # ?rest" by (simp add: print_cube_entry_def)
  have split: "split_once_ws [] (print_cube_entry e) = Some (show_nat (ce_count e), ?rest)"
    unfolding line using split_once_skip[of "show_nat (ce_count e)" "[]" ?rest] show_nat_bytes by simp
  have oid: "split_oracle_id ?rest = (ce_name e, ce_oracle_id e)"
    using assms split_printed_id[of "ce_name e"] split_no_id[of "ce_name e"] by (auto simp: entry_ok_def split: option.splits)
  have n: "parse_u32 (show_nat (ce_count e)) = Some (ce_count e)" using assms by (intro parse_u32_show) (simp add: entry_ok_def)
  have "print_cube_entry e \<noteq> []" "ce_name e \<noteq> []" "ce_count e \<noteq> 0" using p(1) assms by (auto simp: clean_def entry_ok_def)
  then show ?thesis
    by (simp add: parse_cube_line_def trim_clean(1)[OF p(1)] split n trim_clean(1)[OF p(3)] oid)
qed

lemma strip_cr_clean:
  assumes "clean s"
  shows "strip_cr s = s"
proof -
  from assms obtain a c where s: "s = a @ [c]" by (cases s rule: rev_cases) (auto simp: clean_def)
  have "c \<noteq> CHR 0x0D"
  proof
    assume "c = CHR 0x0D"
    then have "ws_trail (rev s) = 1" using s ws_ascii(2)[of c "rev a"] by (simp add: is_ascii_def ascii_ws_def byte_of_def)
    with assms show False by (simp add: clean_def)
  qed
  with s show ?thesis by (simp add: strip_cr_def)
qed

lemma lines_of_printed:
  "list_all entry_ok es \<Longrightarrow> str_lines (print_cube_list es) = map print_cube_entry es"
proof (induction es)
  case Nil
  then show ?case by (simp add: print_cube_list_def str_lines.simps)
next
  case (Cons e es)
  let ?l = "print_cube_entry e"
  from Cons.prems have ok: "entry_ok e" by simp
  note p = printed_clean(1,2)[OF ok]
  have printed: "print_cube_list (e # es) = ?l @ NEWLINE # print_cube_list es" by (simp add: print_cube_list_def)
  have "dropWhile (\<lambda>c. c \<noteq> NEWLINE) (?l @ NEWLINE # r) = NEWLINE # r" "takeWhile (\<lambda>c. c \<noteq> NEWLINE) (?l @ NEWLINE # r) = ?l" for r
    using p(2) by (simp_all add: dropWhile_append takeWhile_append)
  with Cons strip_cr_clean[OF p(1)] show ?case unfolding printed by (subst str_lines.simps) simp
qed

section \<open>The imported cards\<close>

definition entry_names :: "(string \<Rightarrow> string) \<Rightarrow> (string \<Rightarrow> string list) \<Rightarrow> card_database \<Rightarrow> cube_list_entry \<Rightarrow> string list" where
  "entry_names to_lowercase lower_char db e = (case face_of_entry to_lowercase lower_char db e of None \<Rightarrow> [] | Some face \<Rightarrow> replicate (ce_count e) (fa_name face))"

definition numbered :: "draft_card_instance list \<Rightarrow> bool" where
  "numbered cards \<longleftrightarrow> (\<forall>i<length cards. \<exists>copy. ci_instance_id (cards ! i) = ''cube-source-'' @ show_nat i @ ''-'' @ show_nat copy)"

lemma numbered_distinct:
  assumes "numbered cards"
  shows "distinct (map ci_instance_id cards)"
  unfolding distinct_conv_nth
proof (intro allI impI)
  fix i j assume ij: "i < length (map ci_instance_id cards)" "j < length (map ci_instance_id cards)" "i \<noteq> j"
  with assms obtain m n where id: "ci_instance_id (cards ! i) = ''cube-source-'' @ show_nat i @ ''-'' @ show_nat m"
    "ci_instance_id (cards ! j) = ''cube-source-'' @ show_nat j @ ''-'' @ show_nat n" unfolding numbered_def by (metis length_map)
  have "ci_instance_id (cards ! i) \<noteq> ci_instance_id (cards ! j)"
    unfolding id using ij(3) show_nat_dash[of i "show_nat m" j "show_nat n"] by simp
  with ij show "map ci_instance_id cards ! i \<noteq> map ci_instance_id cards ! j" by simp
qed

lemma import_copies:
  assumes "try_fold (\<lambda>copy cards. and_then (card_instance_from_face to_lowercase face (length cards) copy) (\<lambda>c. Ok (cards @ [c]))) copies cards
      = (Ok cards' :: (cube_import_error list, draft_card_instance list) outcome)" "numbered cards"
  shows "numbered cards' \<and> map ci_name cards' = map ci_name cards @ replicate (length copies) (fa_name face)"
  using assms
proof (induction copies arbitrary: cards)
  case (Cons copy copies)
  then obtain c :: draft_card_instance where c: "card_instance_from_face to_lowercase face (length cards) copy = (Ok c :: (cube_import_error list, _) outcome)"
    "try_fold (\<lambda>copy cards. and_then (card_instance_from_face to_lowercase face (length cards) copy) (\<lambda>c. Ok (cards @ [c]))) copies (cards @ [c])
      = (Ok cards' :: (cube_import_error list, draft_card_instance list) outcome)" by (auto simp: outcome_simps)
  from c(1) have n: "ci_name c = fa_name face" "\<exists>k. ci_instance_id c = ''cube-source-'' @ show_nat (length cards) @ ''-'' @ show_nat k"
    by (auto simp: card_instance_from_face_def outcome_simps)
  have "numbered (cards @ [c])" using Cons.prems(2) n(2) by (auto simp: numbered_def nth_append less_Suc_eq)
  from Cons.IH[OF c(2) this] n(1) show ?case by simp
qed simp

lemma import_entries:
  assumes "try_fold (import_entry to_lowercase lower_char db) es (cards, errors) = Ok (cards', errors')" "numbered cards"
  shows "numbered cards' \<and> map ci_name cards' = map ci_name cards @ concat (map (entry_names to_lowercase lower_char db) es)
    \<and> errors' = errors @ map (UnknownCard \<circ> ce_name) (filter (\<lambda>e. face_of_entry to_lowercase lower_char db e = None) es)"
  using assms
proof (induction es arbitrary: cards errors)
  case (Cons e es)
  show ?case
  proof (cases "face_of_entry to_lowercase lower_char db e")
    case None
    with Cons.prems Cons.IH[of cards "errors @ [UnknownCard (ce_name e)]"] show ?thesis
      by (simp add: import_entry_def entry_names_def)
  next
    case (Some face)
    then have step: "import_entry to_lowercase lower_char db e (cards, errors) = and_then (try_fold (\<lambda>copy cards.
        and_then (card_instance_from_face to_lowercase face (length cards) copy) (\<lambda>c. Ok (cards @ [c]))) [0..<ce_count e] cards) (\<lambda>cards'. Ok (cards', errors))"
      by (simp add: import_entry_def)
    from Cons.prems(1) obtain cs where cs: "try_fold (\<lambda>copy cards. and_then (card_instance_from_face to_lowercase face (length cards) copy) (\<lambda>c. Ok (cards @ [c])))
        [0..<ce_count e] cards = (Ok cs :: (cube_import_error list, draft_card_instance list) outcome)"
      "try_fold (import_entry to_lowercase lower_char db) es (cs, errors) = Ok (cards', errors')"
      by (auto simp: step outcome_simps)
    from import_copies[OF cs(1) Cons.prems(2)] Cons.IH[OF cs(2)] Some show ?thesis by (simp add: entry_names_def)
  qed
qed simp

lemma parse_printed_list:
  assumes "list_all entry_ok es"
  shows "parse_cube_list (print_cube_list es) = Ok es"
proof -
  have "map (\<lambda>(idx, line). parse_cube_line idx line) (List.enumerate k (map print_cube_entry es)) = map EntryLine es" for k
    using assms by (induction es arbitrary: k) (simp_all add: parse_printed_line)
  moreover have "List.map_filter (\<lambda>l. case l of EntryLine e \<Rightarrow> Some e | _ \<Rightarrow> None) (map EntryLine es) = es"
    "List.map_filter (\<lambda>l. case l of BadLine e \<Rightarrow> Some e | _ \<Rightarrow> None) (map EntryLine es) = []" for es
    by (induction es) (simp_all add: List.map_filter_simps)
  ultimately show ?thesis by (simp add: parse_cube_list_def lines_of_printed[OF assms])
qed

definition reads_text :: "(string \<Rightarrow> string) \<Rightarrow> (string \<Rightarrow> string list) \<Rightarrow> card_database \<Rightarrow> cube_list_entry \<Rightarrow> bool" where
  "reads_text to_lowercase lower_char db e =
     (case Option.bind (face_of_entry to_lowercase lower_char db e) fa_oracle_text of None \<Rightarrow> True | Some t \<Rightarrow> length (to_lowercase t) = length t)"

lemma draft_effect_total:
  assumes "length (to_lowercase t) = length t"
  shows "\<exists>effect. draft_effect_from_oracle_text to_lowercase t = Ok effect"
proof (cases "additional_pick_text (to_lowercase t)")
  case (Some r)
  with additional_pick_text_sound[OF Some] assms show ?thesis
    by (simp add: draft_effect_from_oracle_text_def is_char_boundary_def)
qed (simp add: draft_effect_from_oracle_text_def)

lemma copies_total:
  assumes "case fa_oracle_text face of None \<Rightarrow> True | Some t \<Rightarrow> length (to_lowercase t) = length t"
  shows "\<exists>cards'. try_fold (\<lambda>copy cards. and_then (card_instance_from_face to_lowercase face (length cards) copy) (\<lambda>c. Ok (cards @ [c]))) copies cards
    = (Ok cards' :: (cube_import_error list, draft_card_instance list) outcome)"
proof (induction copies arbitrary: cards)
  case (Cons copy copies)
  have "\<exists>c. card_instance_from_face to_lowercase face (length cards) copy = (Ok c :: (cube_import_error list, _) outcome)"
  proof (cases "fa_oracle_text face")
    case (Some t)
    with assms have "length (to_lowercase t) = length t" by simp
    from draft_effect_total[of to_lowercase t, OF this, where 'a = "cube_import_error list"] Some show ?thesis by (auto simp: card_instance_from_face_def)
  qed (simp add: card_instance_from_face_def)
  with Cons.IH show ?case by auto
qed simp

lemma import_total:
  "list_all (reads_text to_lowercase lower_char db) es \<Longrightarrow> \<exists>acc'. try_fold (import_entry to_lowercase lower_char db) es acc = Ok acc'"
proof (induction es arbitrary: acc)
  case (Cons e es)
  obtain cards errors where acc: "acc = (cards, errors)" by (cases acc)
  have "\<exists>acc'. import_entry to_lowercase lower_char db e acc = Ok acc'"
  proof (cases "face_of_entry to_lowercase lower_char db e")
    case (Some face)
    with Cons.prems have "case fa_oracle_text face of None \<Rightarrow> True | Some t \<Rightarrow> length (to_lowercase t) = length t"
      by (simp add: reads_text_def)
    from copies_total[OF this, of "[0..<ce_count e]" cards] Some show ?thesis by (auto simp: import_entry_def acc)
  qed (simp add: import_entry_def acc)
  with Cons show ?case by auto
qed simp

text \<open>
  C36. Importing a cube list. Printing entries one per line, with the oracle id in brackets, and
  parsing the text gives the entries back, whatever white space of Unicode the names contain inside.
  When the database knows every entry by its name or its oracle id, the import yields exactly the
  named cards, each as often as its entry asks for and in the order of the list, with distinct ids;
  otherwise it reports exactly the unknown names. It never panics on cards whose texts keep their
  byte length in lower case.
\<close>

theorem cube_list_roundtrip:
  assumes "list_all entry_ok es" "list_all (reads_text to_lowercase lower_char db) es"
  shows "parse_cube_list (print_cube_list es) = Ok es
     \<and> (let unknown = filter (\<lambda>e. face_of_entry to_lowercase lower_char db e = None) es in
        if unknown = []
        then \<exists>cards. cube_cards_from_entries to_lowercase lower_char db es = Ok cards
               \<and> map ci_name cards = concat (map (entry_names to_lowercase lower_char db) es) \<and> distinct (map ci_instance_id cards)
        else cube_cards_from_entries to_lowercase lower_char db es = Err (map (UnknownCard \<circ> ce_name) unknown))"
proof -
  from import_total[OF assms(2)] obtain cards errors where
    run: "try_fold (import_entry to_lowercase lower_char db) es ([], []) = Ok (cards, errors)" by (metis surj_pair)
  have "numbered []" by (simp add: numbered_def)
  from import_entries[OF run this] numbered_distinct parse_printed_list[OF assms(1)] show ?thesis
    by (auto simp: cube_cards_from_entries_def run Let_def)
qed

definition lim_dul :: cube_list_entry where
  "lim_dul = \<lparr>ce_name = ''Lim-Dul, the Necromancer'', ce_count = 2, ce_oracle_id = Some ''0a-f1''\<rparr>"

definition lim_dul_face :: card_face where
  "lim_dul_face = \<lparr>fa_name = ''Lim-Dul the Necromancer'', fa_mana_cost = Cost [ShardBlack, ShardBlack] 5, fa_core_types = [CreatureType],
     fa_subtypes = [''Human'', ''Wizard''], fa_color_identity = [mana_color.Black], fa_oracle_text = Some ''{1}{B}: Regenerate target Zombie.'',
     fa_oracle_id = Some ''0a-f1''\<rparr>"

definition lim_dul_db :: card_database where
  "lim_dul_db = empty_database\<lparr>db_face_index := fmupd ''lim-dul the necromancer'' lim_dul_face fmempty,
     db_oracle_id_index := fmupd ''0a-f1'' [''lim-dul the necromancer''] fmempty\<rparr>"

lemma lim_dul_found: "face_of_entry (map ascii_lower) (\<lambda>c. [map ascii_lower c]) lim_dul_db lim_dul = Some lim_dul_face"
proof -
  have lower: "map ascii_lower ''Lim-Dul, the Necromancer'' = ''lim-dul, the necromancer''" by code_simp
  have "get_face_by_name (map ascii_lower) (\<lambda>c. [map ascii_lower c]) lim_dul_db ''Lim-Dul, the Necromancer'' = None"
    unfolding get_face_by_name_def lookup_key_def resolve_name_def lower
    by (simp add: lim_dul_db_def known_key_def empty_database_def split_composite_name_def)
  moreover have "get_face_by_oracle_id lim_dul_db ''0a-f1'' = Some lim_dul_face"
    by (simp add: get_face_by_oracle_id_def lim_dul_db_def empty_database_def List.map_filter_simps)
  ultimately show ?thesis by (simp add: face_of_entry_def lim_dul_def)
qed

theorem cube_list_roundtrip_witness:
  "parse_cube_list ''2 Lim-Dul, the Necromancer [0a-f1]'' = Ok [lim_dul] \<and> parse_cube_list (print_cube_list [lim_dul]) = Ok [lim_dul]
   \<and> (\<exists>cards. cube_cards_from_entries (map ascii_lower) (\<lambda>c. [map ascii_lower c]) lim_dul_db [lim_dul] = Ok cards
        \<and> map ci_name cards = [''Lim-Dul the Necromancer'', ''Lim-Dul the Necromancer''] \<and> distinct (map ci_instance_id cards))"
proof -
  let ?lc = "\<lambda>c. [map ascii_lower c]"
  have ok: "list_all entry_ok [lim_dul]" by code_simp
  have reads: "list_all (reads_text (map ascii_lower) ?lc lim_dul_db) [lim_dul]"
    by (simp add: reads_text_def lim_dul_found lim_dul_face_def)
  have known: "filter (\<lambda>e. face_of_entry (map ascii_lower) ?lc lim_dul_db e = None) [lim_dul] = []" by (simp add: lim_dul_found)
  have names: "concat (map (entry_names (map ascii_lower) ?lc lim_dul_db) [lim_dul]) = [''Lim-Dul the Necromancer'', ''Lim-Dul the Necromancer'']"
    by (simp add: entry_names_def lim_dul_found) (simp add: lim_dul_face_def lim_dul_def numeral_2_eq_2)
  have parsed: "parse_cube_list ''2 Lim-Dul, the Necromancer [0a-f1]'' = Ok [lim_dul]" by code_simp
  from cube_list_roundtrip[OF ok reads] parsed show ?thesis unfolding Let_def known names if_P[OF refl] by blast
qed

end
