(* ===== verification/Mana_Payment.thy ===== *)
theory Mana_Payment
  imports Mana_Cost
begin

text \<open>
  Comparing mana costs by what pays them: \<open>ManaCost::is_payable_whenever\<close> of
  \<open>crates/phase-ast/src/types/mana.rs\<close> with its bipartite matching \<open>match_shard\<close> (Kuhn's algorithm).
  The two mutable slices of \<open>match_shard\<close> are threaded through; its recursion is bounded by fuel, one
  more than the number of unvisited candidates, and \<open>None\<close> stands for an index out of bounds or
  exhausted fuel. The lemmas show that neither happens, that the algorithm decides the existence of
  a matching, and that the comparison is sound for every pool of mana.
\<close>

section \<open>The comparison\<close>

type_synonym matching = "nat option list \<times> bool list"

function (sequential) match_shard ::
  "nat \<Rightarrow> mana_type_set list \<Rightarrow> mana_type_set list \<Rightarrow> nat \<Rightarrow> matching \<Rightarrow> (bool \<times> matching) option"
and match_candidates ::
  "nat \<Rightarrow> mana_type_set list \<Rightarrow> mana_type_set list \<Rightarrow> nat \<Rightarrow> nat list \<Rightarrow> matching \<Rightarrow> (bool \<times> matching) option" where
  "match_shard 0 mine theirs i st = None"
| "match_shard (Suc fuel) mine theirs i st = match_candidates fuel mine theirs i [0..<length theirs] st"
| "match_candidates fuel mine theirs i [] st = Some (False, st)"
| "match_candidates fuel mine theirs i (candidate # cs) (matched, visited) =
     (if \<not> (candidate < length visited \<and> candidate < length theirs \<and> candidate < length matched \<and> i < length mine) then None
      else if visited ! candidate \<or> \<not> is_subset_of (theirs ! candidate) (mine ! i)
        then match_candidates fuel mine theirs i cs (matched, visited)
      else case matched ! candidate of
        None \<Rightarrow> Some (True, matched[candidate := Some i], visited[candidate := True])
      | Some holder \<Rightarrow>
          (case match_shard fuel mine theirs holder (matched, visited[candidate := True]) of
             None \<Rightarrow> None
           | Some (free, matched', visited') \<Rightarrow>
               if free then Some (True, matched'[candidate := Some i], visited')
               else match_candidates fuel mine theirs i cs (matched', visited')))"
  by pat_completeness auto
termination
  by (relation "measures [case_sum (\<lambda>(fuel, _). fuel) (\<lambda>(fuel, _). fuel),
        case_sum (\<lambda>_. 0) (\<lambda>(_, _, _, _, cs, _). Suc (length cs))]") auto

fun match_all :: "mana_type_set list \<Rightarrow> mana_type_set list \<Rightarrow> nat list \<Rightarrow> nat option list \<Rightarrow> bool option" where
  "match_all mine theirs [] matched = Some True"
| "match_all mine theirs (i # is) matched =
     (case match_shard (Suc (length theirs)) mine theirs i (matched, replicate (length theirs) False) of
        None \<Rightarrow> None
      | Some (found, matched', _) \<Rightarrow> if found then match_all mine theirs is matched' else Some False)"

definition shards_payable :: "mana_type_set list \<Rightarrow> mana_type_set list \<Rightarrow> bool option" where
  "shards_payable mine theirs = match_all mine theirs [0..<length mine] (replicate (length theirs) None)"

definition payment_types :: "mana_cost_shard list \<Rightarrow> mana_type_set list option" where
  "payment_types shards = those (map single_mana_payment_types shards)"

fun is_payable_whenever :: "mana_cost \<Rightarrow> mana_cost \<Rightarrow> bool option" where
  "is_payable_whenever (Cost mine g) (Cost theirs h) =
     (if mana_value (Cost theirs h) < mana_value (Cost mine g) \<or> length theirs < length mine then Some False
      else case payment_types mine of
        None \<Rightarrow> Some False
      | Some mine' \<Rightarrow>
          (case payment_types theirs of
             None \<Rightarrow> Some False
           | Some theirs' \<Rightarrow> shards_payable mine' theirs'))"
| "is_payable_whenever _ _ = Some False"

section \<open>One augmenting search\<close>

definition accepts_edge :: "mana_type_set list \<Rightarrow> mana_type_set list \<Rightarrow> nat \<Rightarrow> nat \<Rightarrow> bool" where
  "accepts_edge mine theirs i j \<longleftrightarrow> i < length mine \<and> j < length theirs \<and> is_subset_of (theirs ! j) (mine ! i)"

definition seen :: "bool list \<Rightarrow> nat set" where
  "seen visited = {j. j < length visited \<and> visited ! j}"

definition unseen :: "bool list \<Rightarrow> nat" where
  "unseen visited = length (filter Not visited)"

definition held :: "nat option list \<Rightarrow> nat multiset" where
  "held matched = mset (List.map_filter id matched)"

definition edges_ok :: "mana_type_set list \<Rightarrow> mana_type_set list \<Rightarrow> nat option list \<Rightarrow> bool" where
  "edges_ok mine theirs matched \<longleftrightarrow> length matched = length theirs
     \<and> (\<forall>j<length matched. \<forall>i. matched ! j = Some i \<longrightarrow> accepts_edge mine theirs i j)"

definition closed_from :: "mana_type_set list \<Rightarrow> mana_type_set list \<Rightarrow> nat option list \<Rightarrow> nat set \<Rightarrow> nat set \<Rightarrow> bool" where
  "closed_from mine theirs matched old new \<longleftrightarrow>
     (\<forall>j\<in>new - old. \<exists>i. matched ! j = Some i \<and> (\<forall>j'. accepts_edge mine theirs i j' \<longrightarrow> j' \<in> new))"

definition search_result where
  "search_result mine theirs i wanted matched visited r \<longleftrightarrow> (\<exists>found matched' visited'. r = Some (found, matched', visited')
     \<and> length visited' = length visited \<and> seen visited \<subseteq> seen visited'
     \<and> (if found
        then edges_ok mine theirs matched' \<and> held matched' = held matched + {#i#} \<and> (\<forall>j\<in>seen visited. matched' ! j = matched ! j)
        else matched' = matched \<and> wanted \<subseteq> seen visited' \<and> closed_from mine theirs matched (seen visited) (seen visited')))"

lemma held_update:
  assumes "j < length matched"
  shows "held (matched[j := Some i]) = held matched - (case matched ! j of None \<Rightarrow> {#} | Some h \<Rightarrow> {#h#}) + {#i#}"
proof -
  have split: "matched = take j matched @ matched ! j # drop (Suc j) matched" using assms by (simp add: id_take_nth_drop)
  have "matched[j := Some i] = take j matched @ Some i # drop (Suc j) matched" using assms by (simp add: upd_conv_take_nth_drop)
  then have "held (matched[j := Some i]) = held (take j matched) + held (drop (Suc j) matched) + {#i#}"
    by (simp add: held_def List.map_filter_def)
  moreover have "held matched = held (take j matched) + held (drop (Suc j) matched) + (case matched ! j of None \<Rightarrow> {#} | Some h \<Rightarrow> {#h#})"
    by (subst split) (simp add: held_def List.map_filter_def split: option.split)
  ultimately show ?thesis by (simp split: option.split)
qed

lemma seen_update: "j < length visited \<Longrightarrow> seen (visited[j := True]) = insert j (seen visited)"
  by (auto simp: seen_def nth_list_update)

lemma unseen_update:
  assumes "j < length visited" "\<not> visited ! j"
  shows "unseen (visited[j := True]) < unseen visited"
proof -
  have "visited = take j visited @ visited ! j # drop (Suc j) visited" using assms(1) by (simp add: id_take_nth_drop)
  then have "unseen visited = length (filter Not (take j visited)) + Suc (length (filter Not (drop (Suc j) visited)))"
    unfolding unseen_def using assms(2) by (metis (no_types, lifting) filter.simps(2) filter_append length_Cons length_append)
  moreover have "visited[j := True] = take j visited @ True # drop (Suc j) visited" using assms(1) by (simp add: upd_conv_take_nth_drop)
  ultimately show ?thesis by (simp add: unseen_def)
qed

lemma unseen_card: "unseen visited = card {j. j < length visited \<and> j \<notin> seen visited}"
  unfolding unseen_def length_filter_conv_card by (rule arg_cong[where f = card]) (auto simp: seen_def)

lemma unseen_mono: "length visited' = length visited \<Longrightarrow> seen visited \<subseteq> seen visited' \<Longrightarrow> unseen visited' \<le> unseen visited"
  unfolding unseen_card by (rule card_mono) auto

lemma search_result_iff:
  "search_result mine theirs i wanted matched visited (Some (True, matched', visited')) \<longleftrightarrow>
     length visited' = length visited \<and> seen visited \<subseteq> seen visited' \<and> edges_ok mine theirs matched'
     \<and> held matched' = held matched + {#i#} \<and> (\<forall>j\<in>seen visited. matched' ! j = matched ! j)"
  "search_result mine theirs i wanted matched visited (Some (False, matched', visited')) \<longleftrightarrow>
     length visited' = length visited \<and> seen visited \<subseteq> seen visited' \<and> matched' = matched
     \<and> wanted \<subseteq> seen visited' \<and> closed_from mine theirs matched (seen visited) (seen visited')"
  by (auto simp: search_result_def)

lemma search_result_cases:
  assumes "search_result mine theirs i wanted matched visited r"
  obtains (found) matched' visited' where "r = Some (True, matched', visited')"
  | (failed) visited' where "r = Some (False, matched, visited')"
proof -
  from assms obtain b matched' visited' where "r = Some (b, matched', visited')" "\<not> b \<longrightarrow> matched' = matched"
    unfolding search_result_def by metis
  with found failed show thesis by (cases b) auto
qed

lemma update_other: "k \<noteq> j \<Longrightarrow> xs[j := x] ! k = xs ! k"
  by simp

lemma edges_update:
  assumes "edges_ok mine theirs matched" "accepts_edge mine theirs i j"
  shows "edges_ok mine theirs (matched[j := Some i])"
  unfolding edges_ok_def
proof (intro conjI allI impI)
  show "length (matched[j := Some i]) = length theirs" using assms(1) by (simp add: edges_ok_def)
  fix k h assume "k < length (matched[j := Some i])" "matched[j := Some i] ! k = Some h"
  with assms show "accepts_edge mine theirs h k" by (cases "k = j") (auto simp: edges_ok_def)
qed

lemma search_skip:
  assumes "search_result mine theirs i wanted matched visited r" "wanted' \<subseteq> wanted \<union> seen visited"
  shows "search_result mine theirs i wanted' matched visited r"
  using assms(1)
proof (cases rule: search_result_cases)
  case (found matched' visited')
  with assms(1) show ?thesis by (simp add: search_result_iff)
next
  case (failed visited')
  with assms(1) have "wanted \<union> seen visited \<subseteq> seen visited'" by (simp add: search_result_iff)
  with assms failed show ?thesis by (auto simp: search_result_iff)
qed

lemma search_free:
  assumes "edges_ok mine theirs matched" "accepts_edge mine theirs i j" "length visited = length theirs" "\<not> visited ! j" "matched ! j = None"
  shows "search_result mine theirs i wanted matched visited (Some (True, matched[j := Some i], visited[j := True]))"
proof -
  have j: "j < length visited" "j < length matched" using assms(1,2,3) by (auto simp: accepts_edge_def edges_ok_def)
  have "matched[j := Some i] ! k = matched ! k" if "k \<in> seen visited" for k
    using that assms(4) by (cases "k = j") (auto simp: seen_def)
  then show ?thesis using edges_update[OF assms(1,2)] held_update[OF j(2), of i] assms(5)
    by (auto simp: search_result_iff seen_update[OF j(1)])
qed

lemma search_displace:
  assumes "search_result mine theirs holder wanted matched (visited[j := True]) (Some (True, matched', visited'))"
    "accepts_edge mine theirs i j" "length visited = length theirs" "length matched = length theirs" "\<not> visited ! j" "matched ! j = Some holder"
  shows "search_result mine theirs i wanted' matched visited (Some (True, matched'[j := Some i], visited'))"
proof -
  have j: "j < length visited" using assms(2,3) by (auto simp: accepts_edge_def)
  from assms(1) have r: "edges_ok mine theirs matched'" "held matched' = held matched + {#holder#}"
      "\<forall>k\<in>insert j (seen visited). matched' ! k = matched ! k" "length visited' = length visited" "insert j (seen visited) \<subseteq> seen visited'"
    by (auto simp: search_result_iff seen_update[OF j])
  then have m: "j < length matched'" "matched' ! j = Some holder" using j assms(3,6) by (auto simp: edges_ok_def)
  have "held (matched'[j := Some i]) = held matched + {#i#}" using held_update[OF m(1), of i] m(2) r(2) by simp
  moreover have "matched'[j := Some i] ! k = matched ! k" if "k \<in> seen visited" for k
    using that r(3) assms(5) by (cases "k = j") (auto simp: seen_def)
  ultimately show ?thesis using r(4,5) edges_update[OF r(1) assms(2)] by (simp add: search_result_iff)
qed

lemma search_continue:
  assumes "search_result mine theirs holder {k. accepts_edge mine theirs holder k} matched (visited[j := True]) (Some (False, matched, visited'))"
    "search_result mine theirs i wanted matched visited' r" "j < length visited" "matched ! j = Some holder"
  shows "search_result mine theirs i (insert j wanted) matched visited r"
proof -
  from assms(1) have one: "length visited' = length visited" "insert j (seen visited) \<subseteq> seen visited'"
      "{k. accepts_edge mine theirs holder k} \<subseteq> seen visited'"
      "closed_from mine theirs matched (insert j (seen visited)) (seen visited')"
    by (auto simp: search_result_iff seen_update[OF assms(3)])
  have trans: "closed_from mine theirs matched (seen visited) (seen visited'')"
    if "closed_from mine theirs matched (seen visited') (seen visited'')" "seen visited' \<subseteq> seen visited''" for visited''
    unfolding closed_from_def
  proof
    fix k assume k: "k \<in> seen visited'' - seen visited"
    consider "k = j" | "k \<in> seen visited' - insert j (seen visited)" | "k \<in> seen visited'' - seen visited'" using k by blast
    then show "\<exists>i. matched ! k = Some i \<and> (\<forall>j'. accepts_edge mine theirs i j' \<longrightarrow> j' \<in> seen visited'')"
    proof cases
      case 1
      with assms(4) one(3) that(2) show ?thesis by blast
    next
      case 2
      with one(4) that(2) show ?thesis unfolding closed_from_def by blast
    next
      case 3
      with that(1) show ?thesis unfolding closed_from_def by blast
    qed
  qed
  from assms(2) show ?thesis
  proof (cases rule: search_result_cases)
    case (found matched' visited'')
    with assms(2) one show ?thesis by (auto simp: search_result_iff)
  next
    case (failed visited'')
    with assms(2) one trans[of visited''] show ?thesis by (auto simp: search_result_iff)
  qed
qed

lemma search:
  "i < length mine \<Longrightarrow> edges_ok mine theirs (fst st) \<Longrightarrow> length (snd st) = length theirs \<Longrightarrow> unseen (snd st) < fuel \<Longrightarrow>
    search_result mine theirs i {j. accepts_edge mine theirs i j} (fst st) (snd st) (match_shard fuel mine theirs i st)"
  "i < length mine \<Longrightarrow> edges_ok mine theirs (fst st) \<Longrightarrow> length (snd st) = length theirs \<Longrightarrow> unseen (snd st) \<le> fuel \<Longrightarrow>
    set cs \<subseteq> {..<length theirs} \<Longrightarrow>
    search_result mine theirs i {j \<in> set cs. accepts_edge mine theirs i j} (fst st) (snd st) (match_candidates fuel mine theirs i cs st)"
proof (induction fuel mine theirs i st and fuel mine theirs i cs st rule: match_shard_match_candidates.induct)
  case (2 fuel mine theirs i st)
  have "{j \<in> set [0..<length theirs]. accepts_edge mine theirs i j} = {j. accepts_edge mine theirs i j}" by (auto simp: accepts_edge_def)
  with 2 show ?case by (simp add: lessThan_atLeast0)
next
  case (3 fuel mine theirs i st)
  then show ?case by (cases st) (simp add: search_result_iff closed_from_def)
next
  case (4 fuel mine theirs i c cs matched visited)
  note prems = 4(4-8)
  have c: "c < length visited" "c < length theirs" "c < length matched" "length visited = length theirs" "length matched = length theirs"
    using prems by (auto simp: edges_ok_def)
  with prems(1) have in_range: "\<not> \<not> (c < length visited \<and> c < length theirs \<and> c < length matched \<and> i < length mine)" by simp
  show ?case
  proof (cases "visited ! c \<or> \<not> is_subset_of (theirs ! c) (mine ! i)")
    case True
    from 4(1)[OF in_range True] prems have
      "search_result mine theirs i {j \<in> set cs. accepts_edge mine theirs i j} matched visited (match_candidates fuel mine theirs i cs (matched, visited))"
      by simp
    from search_skip[OF this, of "{j \<in> set (c # cs). accepts_edge mine theirs i j}"] True c in_range show ?thesis
      by (auto simp: seen_def accepts_edge_def)
  next
    case False
    then have edge: "accepts_edge mine theirs i c" "\<not> visited ! c" using c prems(1) by (auto simp: accepts_edge_def)
    show ?thesis
    proof (cases "matched ! c")
      case None
      with search_free[OF _ edge(1) c(4) edge(2) None] prems in_range False show ?thesis by simp
    next
      case (Some holder)
      then have h: "holder < length mine" using prems(2) c by (auto simp: edges_ok_def accepts_edge_def)
      have u: "unseen (visited[c := True]) < fuel" using unseen_update[OF c(1) edge(2)] prems(4) by simp
      have r: "search_result mine theirs holder {j. accepts_edge mine theirs holder j} matched (visited[c := True])
          (match_shard fuel mine theirs holder (matched, visited[c := True]))"
        using 4(2)[OF in_range False Some] h u prems by simp
      then show ?thesis
      proof (cases rule: search_result_cases)
        case (found matched' visited')
        from search_displace[OF r[unfolded found] edge(1) c(4,5) edge(2) Some] in_range False Some found show ?thesis by simp
      next
        case (failed visited')
        from r failed have s: "length visited' = length visited" "seen visited \<subseteq> seen visited'"
          by (auto simp: search_result_iff seen_update[OF c(1)])
        have "search_result mine theirs i {j \<in> set cs. accepts_edge mine theirs i j} matched visited'
            (match_candidates fuel mine theirs i cs (matched, visited'))"
          using 4(3)[OF in_range False Some failed refl refl] s unseen_mono[OF s] prems by simp
        from search_continue[OF r[unfolded failed] this c(1) Some]
        have "search_result mine theirs i {j \<in> set (c # cs). accepts_edge mine theirs i j} matched visited
            (match_candidates fuel mine theirs i cs (matched, visited'))"
          by (rule search_skip) auto
        with in_range False Some failed show ?thesis by simp
      qed
    qed
  qed
qed simp

section \<open>The matching\<close>

definition has_matching :: "mana_type_set list \<Rightarrow> mana_type_set list \<Rightarrow> bool" where
  "has_matching mine theirs \<longleftrightarrow> (\<exists>f. inj_on f {..<length mine} \<and> (\<forall>i<length mine. accepts_edge mine theirs i (f i)))"

lemma held_iff: "i \<in># held matched \<longleftrightarrow> (\<exists>j<length matched. matched ! j = Some i)"
proof -
  have "i \<in># held matched \<longleftrightarrow> Some i \<in> set matched" by (induction matched) (auto simp: held_def List.map_filter_def)
  then show ?thesis by (simp add: in_set_conv_nth)
qed

lemma held_distinct:
  assumes "distinct (List.map_filter id matched)" "j < length matched" "k < length matched" "matched ! j = Some i" "matched ! k = Some i"
  shows "j = k"
proof (rule ccontr)
  assume "j \<noteq> k"
  then obtain a b where ab: "a < b" "b < length matched" "matched ! a = Some i" "matched ! b = Some i"
    using assms(2-5) by (metis linorder_less_linear)
  have "matched = take b matched @ matched ! b # drop (Suc b) matched" using ab(2) by (simp add: id_take_nth_drop)
  then have "distinct (List.map_filter id (take b matched @ Some i # drop (Suc b) matched))" using assms(1) ab(4) by simp
  then have "i \<notin> set (List.map_filter id (take b matched))" by (auto simp: List.map_filter_def)
  moreover have "take b matched ! a = Some i" "a < length (take b matched)" using ab by simp_all
  then have "Some i \<in> set (take b matched)" by (metis nth_mem)
  ultimately show False by (force simp: List.map_filter_def)
qed

lemma complete_matching:
  assumes "edges_ok mine theirs matched" "held matched = mset [0..<length mine]"
  shows "has_matching mine theirs"
proof -
  have "\<forall>i. \<exists>j. i < length mine \<longrightarrow> j < length matched \<and> matched ! j = Some i"
    using assms(2) held_iff[of _ matched] by (metis atLeast0LessThan atLeast_upt lessThan_iff set_mset_mset)
  then obtain f where f: "\<And>i. i < length mine \<Longrightarrow> f i < length matched \<and> matched ! f i = Some i" by metis
  have "inj_on f {..<length mine}" by (rule inj_onI) (metis f lessThan_iff option.inject)
  moreover have "accepts_edge mine theirs i (f i)" if "i < length mine" for i
    using f[OF that] assms(1) by (simp add: edges_ok_def)
  ultimately show ?thesis unfolding has_matching_def by blast
qed

lemma stuck_no_matching:
  assumes "held matched = mset [0..<k]" "k < length mine" "length visited' = length matched"
    "{j. accepts_edge mine theirs k j} \<subseteq> seen visited'" "closed_from mine theirs matched {} (seen visited')" "edges_ok mine theirs matched"
  shows "\<not> has_matching mine theirs"
proof
  assume "has_matching mine theirs"
  then obtain f where f: "inj_on f {..<length mine}" "\<And>i. i < length mine \<Longrightarrow> accepts_edge mine theirs i (f i)"
    unfolding has_matching_def by blast
  let ?V = "seen visited'" and ?h = "\<lambda>j. the (matched ! j)"
  have V: "finite ?V" "\<And>j. j \<in> ?V \<Longrightarrow> j < length matched" using assms(3) by (auto simp: seen_def)
  have h: "matched ! j = Some (?h j)" "\<And>j'. accepts_edge mine theirs (?h j) j' \<Longrightarrow> j' \<in> ?V" if "j \<in> ?V" for j
    using assms(5) that unfolding closed_from_def by force+
  have lt: "?h j < k" if "j \<in> ?V" for j
    using h(1)[OF that] V(2)[OF that] held_iff[of "?h j" matched] assms(1) by auto
  have "distinct (List.map_filter id matched)" using assms(1) by (metis distinct_upt held_def mset_eq_imp_distinct_iff)
  from held_distinct[OF this] have inj: "inj_on ?h ?V" by (intro inj_onI) (metis h(1) V(2))
  have "f ` insert k (?h ` ?V) \<subseteq> ?V"
    using f(2)[OF assms(2)] assms(4) h(2)[OF _ f(2)[OF less_trans[OF lt assms(2)]]] by auto
  moreover have "inj_on f (insert k (?h ` ?V))" by (rule inj_on_subset[OF f(1)]) (use lt assms(2) in force)
  ultimately have "card (insert k (?h ` ?V)) \<le> card ?V" using card_inj_on_le V(1) by blast
  moreover have "k \<notin> ?h ` ?V" using lt by force
  ultimately show False using card_image[OF inj] V(1) by simp
qed

lemma match_all_exact:
  assumes "edges_ok mine theirs matched" "held matched = mset [0..<k]" "k \<le> length mine"
  shows "match_all mine theirs [k..<length mine] matched = Some (has_matching mine theirs)"
  using assms
proof (induction "length mine - k" arbitrary: k matched)
  case 0
  with complete_matching show ?case by simp
next
  case (Suc n)
  let ?none = "replicate (length theirs) False"
  have k: "k < length mine" "[k..<length mine] = k # [Suc k..<length mine]" using Suc.hyps(2) by (simp_all add: upt_conv_Cons)
  have none: "seen ?none = {}" "unseen ?none < Suc (length theirs)" by (auto simp: seen_def unseen_def)
  from search(1)[of k mine theirs "(matched, ?none)" "Suc (length theirs)"] k none Suc.prems
  have r: "search_result mine theirs k {j. accepts_edge mine theirs k j} matched ?none (match_shard (Suc (length theirs)) mine theirs k (matched, ?none))"
    by simp
  then show ?case
  proof (cases rule: search_result_cases)
    case (found matched' visited')
    with r Suc.prems have "edges_ok mine theirs matched'" "held matched' = mset [0..<Suc k]" by (simp_all add: search_result_iff)
    from Suc.hyps(1)[OF _ this] Suc.hyps(2) k found show ?thesis by simp
  next
    case (failed visited')
    with r none have "length visited' = length matched" "{j. accepts_edge mine theirs k j} \<subseteq> seen visited'"
        "closed_from mine theirs matched {} (seen visited')" using Suc.prems(1) by (simp_all add: search_result_iff edges_ok_def)
    from stuck_no_matching[OF Suc.prems(2) k(1) this Suc.prems(1)] failed k show ?thesis by simp
  qed
qed

lemma shards_payable_exact: "shards_payable mine theirs = Some (has_matching mine theirs)"
proof -
  have "edges_ok mine theirs (replicate (length theirs) None)" "held (replicate (length theirs) None) = mset [0..<0]"
    by (simp_all add: edges_ok_def held_def List.map_filter_def)
  from match_all_exact[OF this] show ?thesis by (simp add: shards_payable_def)
qed

section \<open>What pays a cost\<close>

fun basic_accepts :: "mana_cost_shard \<Rightarrow> mana_type \<Rightarrow> bool" where
  "basic_accepts ShardWhite t = (t = ManaWhite)"
| "basic_accepts ShardBlue t = (t = ManaBlue)"
| "basic_accepts ShardBlack t = (t = ManaBlack)"
| "basic_accepts ShardRed t = (t = ManaRed)"
| "basic_accepts ShardGreen t = (t = ManaGreen)"
| "basic_accepts ShardColorless t = (t = ManaColorless)"
| "basic_accepts _ t = False"

definition accepts :: "mana_cost_shard \<Rightarrow> mana_type \<Rightarrow> bool" where
  "accepts shard t \<longleftrightarrow>
     (case announceable_halves shard of
        Some (a, b) \<Rightarrow> basic_accepts a t \<or> basic_accepts b t
      | None \<Rightarrow> basic_accepts shard t)"

text \<open>
  A pool pays a cost of basic and hybrid symbols when it splits into one mana per symbol, of a
  type that symbol (or one of the two halves it can be announced as) accepts, and as many further
  mana as the generic part asks for.
\<close>

definition pays :: "mana_type multiset \<Rightarrow> mana_cost_shard list \<Rightarrow> nat \<Rightarrow> bool" where
  "pays pool shards generic \<longleftrightarrow>
     (\<exists>ms rest. pool = mset ms + rest \<and> list_all2 accepts shards ms \<and> generic \<le> size rest)"

lemma type_set_bits:
  "type_set_contains s t \<longleftrightarrow> bit s (mana_type_index t)"
  "bit (type_set_of t) n \<longleftrightarrow> n = mana_type_index t"
  "bit (type_set_with s t) n \<longleftrightarrow> bit s n \<or> n = mana_type_index t"
proof -
  have i: "mana_type_index t < 8" by (cases t) simp_all
  show "type_set_contains s t \<longleftrightarrow> bit s (mana_type_index t)"
    by (simp add: type_set_contains_def push_bit_eq_mult and_exp_eq_0_iff_not_bit)
  show "bit (type_set_of t) n \<longleftrightarrow> n = mana_type_index t"
    using i by (auto simp: type_set_of_def bit_simps)
  then show "bit (type_set_with s t) n \<longleftrightarrow> bit s n \<or> n = mana_type_index t"
    by (auto simp: type_set_with_def type_set_of_def bit_or_iff)
qed

lemma mana_type_index_inject [simp]: "mana_type_index s = mana_type_index t \<longleftrightarrow> s = t"
  by (cases s; cases t) simp_all

lemma payment_types_accept:
  "single_mana_payment_types shard = Some ts \<Longrightarrow> type_set_contains ts t \<longleftrightarrow> accepts shard t"
  by (cases shard; cases t) (auto simp: accepts_def type_set_bits)

lemma single_symbol_value: "single_mana_payment_types shard = Some ts \<Longrightarrow> mana_value_contribution shard = 1"
  by (cases shard) auto

lemma subset_contains:
  assumes "is_subset_of s other" "type_set_contains s t"
  shows "type_set_contains other t"
proof -
  have "\<not> bit (s AND NOT other) (mana_type_index t)" using assms(1) by (simp add: is_subset_of_def)
  moreover have "mana_type_index t < 8" by (cases t) simp_all
  ultimately show ?thesis using assms(2) by (simp add: type_set_bits bit_simps)
qed

lemma payment_types_Some:
  "payment_types shards = Some ts \<Longrightarrow> list_all2 (\<lambda>s t. single_mana_payment_types s = Some t) shards ts"
proof (induction shards arbitrary: ts)
  case (Cons s shards)
  then show ?case by (auto simp: payment_types_def split: option.splits)
qed (simp add: payment_types_def)

lemma payment_types_value:
  "payment_types shards = Some ts \<Longrightarrow> full_value (Cost shards g) = length shards + g"
proof -
  assume "payment_types shards = Some ts"
  from payment_types_Some[OF this] have "sum_list (map mana_value_contribution shards) = length shards"
    by (induction rule: list_all2_induct) (simp_all add: single_symbol_value)
  then show ?thesis by (simp add: full_value_def)
qed

lemma reindexed_subset:
  assumes "inj_on f {..<m}" "\<And>i. i < m \<Longrightarrow> f i < length ms"
  shows "mset (map (\<lambda>i. ms ! f i) [0..<m]) \<subseteq># mset ms"
proof -
  have image: "mset (map g [0..<n]) = image_mset g (mset_set {..<n})" for g :: "nat \<Rightarrow> 'b" and n
    by (simp add: lessThan_atLeast0)
  have "image_mset f (mset_set {..<m}) = mset_set (f ` {..<m})" using assms(1) by (rule image_mset_mset_set)
  also have "\<dots> \<subseteq># mset_set {..<length ms}" using assms(2) by (intro subset_imp_msubset_mset_set) auto
  finally have "image_mset (nth ms) (image_mset f (mset_set {..<m})) \<subseteq># image_mset (nth ms) (mset_set {..<length ms})"
    by (rule image_mset_subseteq_mono)
  then have "mset (map (\<lambda>i. ms ! f i) [0..<m]) \<subseteq># mset (map (nth ms) [0..<length ms])"
    unfolding image by (simp add: image_mset.compositionality comp_def)
  then show ?thesis by (simp only: map_nth)
qed

lemma matched_mana_accepted:
  assumes "payment_types mine = Some mine'" "payment_types theirs = Some theirs'" "accepts_edge mine' theirs' i j" "accepts (theirs ! j) t"
  shows "accepts (mine ! i) t"
proof -
  have "single_mana_payment_types (mine ! i) = Some (mine' ! i)" "single_mana_payment_types (theirs ! j) = Some (theirs' ! j)"
    using payment_types_Some[OF assms(1)] payment_types_Some[OF assms(2)] assms(3)
    by (auto simp: accepts_edge_def list_all2_conv_all_nth)
  note single = this
  have "type_set_contains (theirs' ! j) t" using payment_types_accept[OF single(2)] assms(4) by simp
  with assms(3) have "type_set_contains (mine' ! i) t" using subset_contains unfolding accepts_edge_def by blast
  with payment_types_accept[OF single(1)] show ?thesis by simp
qed

text \<open>
  C39. The comparison of mana costs by what pays them always returns, its matching loop answering
  exactly whether the symbols of one cost can be assigned to distinct symbols of the other whose
  mana they accept; and when it says that a cost is payable whenever the other is, every pool of
  mana that pays the other pays it. The value of the first cost has to fit its counter, since the
  code compares wrapped values.
\<close>

theorem payable_whenever_sound:
  assumes "full_value (Cost mine g) < 2 ^ 32"
  shows "shards_payable sets sets' = Some (has_matching sets sets')
    \<and> is_payable_whenever a b \<noteq> None
    \<and> (is_payable_whenever (Cost mine g) (Cost theirs h) = Some True \<longrightarrow> pays pool theirs h \<longrightarrow> pays pool mine g)"
proof (intro conjI impI)
  show "shards_payable sets sets' = Some (has_matching sets sets')" by (rule shards_payable_exact)
  show "is_payable_whenever a b \<noteq> None"
    by (cases "(a, b)" rule: is_payable_whenever.cases) (auto simp: shards_payable_exact split: option.splits)
  assume test: "is_payable_whenever (Cost mine g) (Cost theirs h) = Some True" and pool: "pays pool theirs h"
  from test obtain mine' theirs' where types: "payment_types mine = Some mine'" "payment_types theirs = Some theirs'"
      and val: "mana_value (Cost mine g) \<le> mana_value (Cost theirs h)" and "has_matching mine' theirs'"
    by (auto simp del: mana_value.simps simp: shards_payable_exact split: if_splits option.splits)
  moreover have len: "length mine' = length mine" "length theirs' = length theirs"
    using payment_types_Some[OF types(1)] payment_types_Some[OF types(2)] by (simp_all add: list_all2_lengthD)
  ultimately obtain f where f: "inj_on f {..<length mine}" "\<And>i. i < length mine \<Longrightarrow> accepts_edge mine' theirs' i (f i)"
    unfolding has_matching_def by auto
  from pool obtain ms rest where ms: "pool = mset ms + rest" "list_all2 accepts theirs ms" "h \<le> size rest"
    unfolding pays_def by blast
  let ?ms = "map (\<lambda>i. ms ! f i) [0..<length mine]"
  have fl: "f i < length ms" if "i < length mine" for i
    using f(2)[OF that] ms(2) len by (simp add: accepts_edge_def list_all2_lengthD)
  have sub: "mset ?ms \<subseteq># mset ms" using reindexed_subset[OF f(1)] fl by blast
  have "list_all2 accepts mine ?ms"
    using matched_mana_accepted[OF types f(2)] ms(2) fl by (auto simp: list_all2_conv_all_nth)
  moreover have "pool = mset ?ms + ((mset ms - mset ?ms) + rest)" unfolding ms(1) add.assoc[symmetric] subset_mset.add_diff_inverse[OF sub] ..
  moreover have "full_value (Cost mine g) \<le> full_value (Cost theirs h)"
    using val assms mod_less_eq_dividend[of "full_value (Cost theirs h)" "2 ^ 32"] by (simp only: mana_value_full mod_less) 
  then have "length mine + g \<le> length theirs + h" by (simp add: payment_types_value[OF types(1)] payment_types_value[OF types(2)])
  then have "g \<le> size ((mset ms - mset ?ms) + rest)" using ms(3) size_Diff_submset[OF sub] list_all2_lengthD[OF ms(2)] by simp
  ultimately show "pays pool mine g" unfolding pays_def by blast
qed

theorem payable_whenever_sound_witness:
  "is_payable_whenever (Cost [GreenWhite, ShardWhite] 1) (Cost [ShardWhite, ShardGreen, ShardBlue] 0) = Some True
   \<and> pays {#ManaWhite, ManaGreen, ManaBlue#} [GreenWhite, ShardWhite] 1"
proof -
  have test: "is_payable_whenever (Cost [GreenWhite, ShardWhite] 1) (Cost [ShardWhite, ShardGreen, ShardBlue] 0) = Some True"
    by (simp add: shard_total_sum add_u32_def payment_types_def shards_payable_def is_subset_of_def type_set_of_def type_set_with_def upt_rec)
  have "list_all2 accepts [ShardWhite, ShardGreen, ShardBlue] [ManaWhite, ManaGreen, ManaBlue]" by code_simp
  then have "pays {#ManaWhite, ManaGreen, ManaBlue#} [ShardWhite, ShardGreen, ShardBlue] 0"
    unfolding pays_def by (intro exI[of _ "[ManaWhite, ManaGreen, ManaBlue]"] exI[of _ "{#}"]) simp
  moreover have "full_value (Cost [GreenWhite, ShardWhite] 1) < 2 ^ 32" by (simp add: full_value_def)
  ultimately show ?thesis using payable_whenever_sound test by blast
qed

end
