(* ===== verification/Seat_Reducer.thy ===== *)
theory Seat_Reducer
  imports Prelude
begin

text \<open>
  The lobby seat reducer of \<open>crates/seat-reducer/src\<close>: changing the kind of a seat, removing a seat
  and starting the game, with the delta that the hosts apply to their own per-seat tables. Of
  \<open>FormatConfig\<close> (\<open>crates/engine/src/types/format.rs\<close>) the fields that the reducer reads are
  modelled. The deck resolver is an argument, a deck list and a resolved deck are opaque values. The
  lemmas give the invariant of the table, show that no mutation panics under it, that a
  refused one changes nothing, that every lost token is reported, and that the renumbering of a
  removal is the true one.
\<close>

section \<open>Formats\<close>

datatype game_format =
    Standard | LimitedFormat | Commander | Pioneer | Modern | Premodern | Legacy | Vintage | Historic | Timeless
  | Pauper | PauperCommander | DuelCommander | TinyLeaders | Oathbreaker | Brawl | HistoricBrawl | FreeForAll
  | TwoHeadedGiant | TwoHeadedGiantCommander | Archenemy | ArchenemyCommander | Planechase | PlanechaseCommander
  | Momir | CommanderDraftFormat | Freeform | FreeformCommander | Dandan | CustomFormat nat

datatype turn_structure = SharedTeamTurns | IndividualTurns

datatype format_topology =
    IndividualSeats
  | FixedTeams nat nat turn_structure
  | OneVsMany nat turn_structure

record format_config =
  fc_format :: game_format
  fc_min_players :: nat
  fc_max_players :: nat
  fc_team_based :: bool
  fc_archenemy_player :: "nat option"

definition topology :: "format_config \<Rightarrow> format_topology" where
  "topology fc =
     (case fc_format fc of
        TwoHeadedGiant \<Rightarrow> FixedTeams 2 2 SharedTeamTurns
      | TwoHeadedGiantCommander \<Rightarrow> FixedTeams 2 2 SharedTeamTurns
      | ArchenemyCommander \<Rightarrow> OneVsMany (case fc_archenemy_player fc of Some p \<Rightarrow> p | None \<Rightarrow> 0) SharedTeamTurns
      | Archenemy \<Rightarrow> OneVsMany (case fc_archenemy_player fc of Some p \<Rightarrow> p | None \<Rightarrow> 0) SharedTeamTurns
      | _ \<Rightarrow> if fc_team_based fc then FixedTeams 2 2 SharedTeamTurns else IndividualSeats)"

section \<open>Seats\<close>

datatype ai_difficulty = VeryEasy | Easy | Medium | Hard | VeryHard | CEDH

datatype 'd deck_choice = RandomDeck | NamedDeck string | DeckList 'd

datatype 'd seat_kind = HostHuman | JoinedHuman | WaitingHuman | Ai ai_difficulty "'d deck_choice"

record seat_team_place =
  ti_team_index :: nat
  ti_position_in_team :: nat

datatype 'd seat_mutation = SetKind nat "'d seat_kind" "'d seat_kind option" | Remove nat | Start

record 'd seat_state =
  st_seats :: "'d seat_kind list"
  st_tokens :: "string list"
  st_format :: format_config
  st_game_started :: bool

record 'd seat_view =
  vw_seats :: "'d seat_kind list"
  vw_format :: format_config
  vw_team_info :: "seat_team_place option list"
  vw_is_full :: bool
  vw_game_started :: bool

record renumbering =
  rn_removed_index :: nat
  rn_remapping :: "(nat \<times> nat) list"

record 'l seat_delta =
  de_mutated_seats :: "nat list"
  de_invalidated_tokens :: "string list"
  de_removed_ai :: "nat list"
  de_new_ai :: "(nat \<times> ai_difficulty \<times> 'l) list"
  de_renumbering :: "renumbering option"
  de_now_started :: bool

datatype seat_error = GameStarted | SeatImmutable | SeatInvalidTransition | BelowFormatMin | SeatClaimed | NotFull | DeckResolutionFailed string

definition empty_delta :: "'l seat_delta" where
  "empty_delta = \<lparr>de_mutated_seats = [], de_invalidated_tokens = [], de_removed_ai = [], de_new_ai = [],
     de_renumbering = None, de_now_started = False\<rparr>"

definition seat_team_info :: "format_config \<Rightarrow> nat \<Rightarrow> seat_team_place option" where
  "seat_team_info format seat_index =
     (case topology format of
        IndividualSeats \<Rightarrow> None
      | FixedTeams team_size team_count _ \<Rightarrow>
          let seat_count = (team_size * team_count) mod 256 in
          if seat_count \<le> seat_index then None
          else Some \<lparr>ti_team_index = seat_index div team_size, ti_position_in_team = seat_index mod team_size\<rparr>
      | OneVsMany archenemy _ \<Rightarrow>
          if fc_max_players format \<le> seat_index then None
          else if seat_index = archenemy then Some \<lparr>ti_team_index = 0, ti_position_in_team = 0\<rparr>
          else Some \<lparr>ti_team_index = 1, ti_position_in_team = as_u8 (length (filter (\<lambda>seat. seat \<noteq> archenemy) [0..<seat_index]))\<rparr>)"

definition seat_team_info_for_seats :: "format_config \<Rightarrow> nat \<Rightarrow> seat_team_place option list" where
  "seat_team_info_for_seats format seat_count =
     (case topology format of
        IndividualSeats \<Rightarrow> []
      | _ \<Rightarrow> map (\<lambda>seat_index. seat_team_info format (as_u8 seat_index)) [0..<seat_count])"

fun is_ai :: "'d seat_kind \<Rightarrow> bool" where
  "is_ai (Ai _ _) = True"
| "is_ai _ = False"

definition is_full :: "'d seat_state \<Rightarrow> bool" where
  "is_full st = list_all (\<lambda>s. case s of HostHuman \<Rightarrow> True | JoinedHuman \<Rightarrow> True | Ai _ _ \<Rightarrow> True | WaitingHuman \<Rightarrow> False) (st_seats st)"

definition is_pregame :: "'d seat_state \<Rightarrow> bool" where
  "is_pregame st = (\<not> st_game_started st)"

definition to_view :: "'d seat_state \<Rightarrow> 'd seat_view" where
  "to_view st = \<lparr>vw_seats = st_seats st, vw_format = st_format st,
     vw_team_info = seat_team_info_for_seats (st_format st) (length (st_seats st)), vw_is_full = is_full st,
     vw_game_started = st_game_started st\<rparr>"

section \<open>Mutations\<close>

type_synonym ('d, 'l) seat_step = "(seat_error, 'l seat_delta) outcome \<times> 'd seat_state"

definition apply_start :: "'d seat_state \<Rightarrow> ('d, 'l) seat_step" where
  "apply_start st =
     (if \<not> is_full st then (Err NotFull, st)
      else (Ok (empty_delta\<lparr>de_now_started := True\<rparr>), st\<lparr>st_game_started := True\<rparr>))"

definition set_seat :: "'d seat_state \<Rightarrow> nat \<Rightarrow> 'd seat_kind \<Rightarrow> 'd seat_state" where
  "set_seat st seat kind = st\<lparr>st_seats := (st_seats st)[seat := kind]\<rparr>"

definition clear_token :: "'d seat_state \<Rightarrow> nat \<Rightarrow> 'd seat_state" where
  "clear_token st seat = st\<lparr>st_tokens := (st_tokens st)[seat := []]\<rparr>"

definition seat_with_ai ::
  "('d deck_choice \<Rightarrow> string + 'l) \<Rightarrow> 'd seat_state \<Rightarrow> nat \<Rightarrow> 'd seat_kind \<Rightarrow> ai_difficulty \<Rightarrow> 'd deck_choice \<Rightarrow> 'l seat_delta
   \<Rightarrow> ('d, 'l) seat_step" where
  "seat_with_ai resolve st seat kind difficulty deck delta =
     (case resolve deck of
        Inl e \<Rightarrow> (Err (DeckResolutionFailed e), st)
      | Inr resolved \<Rightarrow>
          let st1 = set_seat st seat kind in
          if length (st_tokens st1) \<le> seat then (Panic, st1)
          else (Ok (delta\<lparr>de_new_ai := de_new_ai delta @ [(seat, difficulty, resolved)]\<rparr>), clear_token st1 seat))"

definition change_kind ::
  "('d deck_choice \<Rightarrow> string + 'l) \<Rightarrow> 'd seat_state \<Rightarrow> nat \<Rightarrow> 'd seat_kind \<Rightarrow> 'd seat_kind \<Rightarrow> ('d, 'l) seat_step" where
  "change_kind resolve st seat current kind =
     (let delta = empty_delta\<lparr>de_mutated_seats := [seat]\<rparr> in
      case current of
        HostHuman \<Rightarrow> (Err SeatImmutable, st)
      | WaitingHuman \<Rightarrow>
          (case kind of
             JoinedHuman \<Rightarrow> (Err SeatInvalidTransition, st)
           | HostHuman \<Rightarrow> (Err SeatInvalidTransition, st)
           | WaitingHuman \<Rightarrow> (Ok delta, st)
           | Ai difficulty deck \<Rightarrow> seat_with_ai resolve st seat kind difficulty deck delta)
      | Ai _ _ \<Rightarrow>
          (case kind of
             JoinedHuman \<Rightarrow> (Err SeatInvalidTransition, st)
           | HostHuman \<Rightarrow> (Err SeatInvalidTransition, st)
           | WaitingHuman \<Rightarrow>
               let st1 = set_seat st seat WaitingHuman in
               if length (st_tokens st1) \<le> seat then (Panic, st1)
               else (Ok (delta\<lparr>de_removed_ai := [seat]\<rparr>), clear_token st1 seat)
           | Ai difficulty deck \<Rightarrow> seat_with_ai resolve st seat kind difficulty deck (delta\<lparr>de_removed_ai := [seat]\<rparr>))
      | JoinedHuman \<Rightarrow>
          (case kind of
             HostHuman \<Rightarrow> (Err SeatInvalidTransition, st)
           | JoinedHuman \<Rightarrow> (Ok delta, st)
           | WaitingHuman \<Rightarrow>
               if length (st_tokens st) \<le> seat then (Panic, st)
               else (Ok (delta\<lparr>de_invalidated_tokens := [st_tokens st ! seat]\<rparr>),
                     set_seat (clear_token st seat) seat WaitingHuman)
           | Ai difficulty deck \<Rightarrow>
               (case resolve deck of
                  Inl e \<Rightarrow> (Err (DeckResolutionFailed e), st)
                | Inr resolved \<Rightarrow>
                    if length (st_tokens st) \<le> seat then (Panic, st)
                    else (Ok (delta\<lparr>de_invalidated_tokens := [st_tokens st ! seat], de_new_ai := [(seat, difficulty, resolved)]\<rparr>),
                          set_seat (clear_token st seat) seat kind))))"

definition apply_set_kind ::
  "('d deck_choice \<Rightarrow> string + 'l) \<Rightarrow> 'd seat_state \<Rightarrow> nat \<Rightarrow> 'd seat_kind \<Rightarrow> 'd seat_kind option \<Rightarrow> ('d, 'l) seat_step" where
  "apply_set_kind resolve st seat kind expected_kind =
     (if seat = 0 \<or> length (st_seats st) \<le> seat then (Err SeatImmutable, st)
      else if (case expected_kind of None \<Rightarrow> False | Some expected \<Rightarrow> expected \<noteq> st_seats st ! seat) then (Ok empty_delta, st)
      else let current = st_seats st ! seat in
        if current = kind then (Ok empty_delta, st) else change_kind resolve st seat current kind)"

definition apply_remove :: "'d seat_state \<Rightarrow> nat \<Rightarrow> ('d, 'l) seat_step" where
  "apply_remove st seat =
     (if seat = 0 \<or> length (st_seats st) \<le> seat then (Err SeatImmutable, st)
      else if length (st_seats st) \<le> fc_min_players (st_format st) then (Err BelowFormatMin, st)
      else case st_seats st ! seat of
        JoinedHuman \<Rightarrow> (Err SeatClaimed, st)
      | HostHuman \<Rightarrow> (Err SeatImmutable, st)
      | removed_kind \<Rightarrow>
          let st1 = st\<lparr>st_seats := remove_at seat (st_seats st)\<rparr> in
          if length (st_tokens st) \<le> seat then (Panic, st1)
          else let st2 = st1\<lparr>st_tokens := remove_at seat (st_tokens st)\<rparr>; len = as_u8 (length (st_seats st2)) in
            (Ok (empty_delta\<lparr>de_mutated_seats := [seat..<len],
                de_removed_ai := (if is_ai removed_kind then [seat] else []),
                de_renumbering := Some \<lparr>rn_removed_index = seat,
                  rn_remapping = map (\<lambda>old. (old, (old + 255) mod 256)) [add_u8 seat 1..<Suc len]\<rparr>\<rparr>), st2))"

definition apply_seat ::
  "('d deck_choice \<Rightarrow> string + 'l) \<Rightarrow> 'd seat_state \<Rightarrow> 'd seat_mutation \<Rightarrow> ('d, 'l) seat_step" where
  "apply_seat resolve st mutation =
     (if \<not> is_pregame st then (Err GameStarted, st)
      else case mutation of
        Start \<Rightarrow> apply_start st
      | SetKind seat_index kind expected_kind \<Rightarrow> apply_set_kind resolve st seat_index kind expected_kind
      | Remove seat_index \<Rightarrow> apply_remove st seat_index)"

section \<open>The table invariant\<close>

definition seat_inv :: "'d seat_state \<Rightarrow> bool" where
  "seat_inv st \<longleftrightarrow> length (st_tokens st) = length (st_seats st) \<and> 0 < length (st_seats st) \<and> length (st_seats st) < 256
     \<and> st_seats st ! 0 = HostHuman
     \<and> (\<forall>i<length (st_seats st). 0 < i \<longrightarrow> st_seats st ! i \<noteq> HostHuman \<and> (st_tokens st ! i \<noteq> [] \<longleftrightarrow> st_seats st ! i = JoinedHuman))"

definition live_tokens :: "'d seat_state \<Rightarrow> string multiset" where
  "live_tokens st = mset (filter (\<lambda>tok. tok \<noteq> []) (st_tokens st))"

lemma live_tokens_clear:
  assumes "seat < length (st_tokens st)"
  shows "live_tokens (st\<lparr>st_seats := ks, st_tokens := (st_tokens st)[seat := []]\<rparr>)
     + mset (if st_tokens st ! seat = [] then [] else [st_tokens st ! seat]) = live_tokens st"
proof -
  from id_take_nth_drop[OF assms] assms obtain l r where "st_tokens st = l @ st_tokens st ! seat # r" "length l = seat"
    by (metis length_take min.absorb4)
  then obtain x where "st_tokens st = l @ x # r" "length l = seat" "st_tokens st ! seat = x" by blast
  then show ?thesis by (auto simp: live_tokens_def list_update_append)
qed

text \<open>
  An accepted change of a seat either changes nothing or empties the seat for a waiting player or an
  AI: no mutation seats a joined human or a second host.
\<close>

lemma change_kind_cases:
  assumes "change_kind resolve st seat current kind = (r, t)" "seat < length (st_tokens st)" "current = st_seats st ! seat" "current \<noteq> kind"
  shows "(\<exists>e. r = Err e \<and> t = st)
    \<or> (\<exists>delta. r = Ok delta \<and> t = set_seat (clear_token st seat) seat kind \<and> current \<noteq> HostHuman \<and> (kind = WaitingHuman \<or> is_ai kind)
         \<and> de_mutated_seats delta = [seat] \<and> de_invalidated_tokens delta = (if current = JoinedHuman then [st_tokens st ! seat] else [])
         \<and> de_removed_ai delta = (if is_ai current then [seat] else []) \<and> map fst (de_new_ai delta) = (if is_ai kind then [seat] else [])
         \<and> de_renumbering delta = None \<and> \<not> de_now_started delta)"
  using assms
  by (auto simp: change_kind_def seat_with_ai_def empty_delta_def set_seat_def clear_token_def Let_def
      split: seat_kind.splits sum.splits if_splits)

lemma apply_set_kind_cases:
  assumes "apply_set_kind resolve st seat kind expected = (r, t)" "seat_inv st"
  obtains (refused) e where "r = Err e" "t = st"
  | (unchanged) "r = Ok empty_delta" "t = st"
  | (changed) delta where "r = Ok delta" "t = set_seat (clear_token st seat) seat kind" "0 < seat" "seat < length (st_seats st)"
      "kind = WaitingHuman \<or> is_ai kind" "expected = None \<or> expected = Some (st_seats st ! seat)" "de_mutated_seats delta = [seat]"
      "de_invalidated_tokens delta = (if st_seats st ! seat = JoinedHuman then [st_tokens st ! seat] else [])"
      "de_removed_ai delta = (if is_ai (st_seats st ! seat) then [seat] else [])"
      "map fst (de_new_ai delta) = (if is_ai kind then [seat] else [])" "de_renumbering delta = None" "\<not> de_now_started delta"
proof -
  consider "r = Err SeatImmutable" "t = st" | "r = Ok empty_delta" "t = st"
    | "0 < seat" "seat < length (st_seats st)" "expected = None \<or> expected = Some (st_seats st ! seat)" "st_seats st ! seat \<noteq> kind"
      "change_kind resolve st seat (st_seats st ! seat) kind = (r, t)"
    using assms(1) by (auto simp: apply_set_kind_def Let_def split: if_splits option.splits)
  then show thesis
  proof cases
    case 3
    with assms(2) have "seat < length (st_tokens st)" by (simp add: seat_inv_def)
    from change_kind_cases[OF 3(5) this refl 3(4)] 3(1-3) refused changed show thesis by blast
  qed (use refused unchanged in blast)+
qed

lemma set_kind_inv:
  assumes "seat_inv st" "0 < seat" "seat < length (st_seats st)" "kind = WaitingHuman \<or> is_ai kind"
  shows "seat_inv (set_seat (clear_token st seat) seat kind)"
proof -
  have "kind \<noteq> HostHuman" "kind \<noteq> JoinedHuman" using assms(4) by auto
  with assms(1-3) show ?thesis by (auto simp: seat_inv_def set_seat_def clear_token_def nth_list_update)
qed

lemma apply_remove_cases:
  assumes "apply_remove st seat = (r, t)" "seat_inv st"
  obtains (refused) e where "r = Err e" "t = st"
  | (removed) "0 < seat" "seat < length (st_seats st)" "fc_min_players (st_format st) < length (st_seats st)"
      "st_seats st ! seat = WaitingHuman \<or> is_ai (st_seats st ! seat)"
      "t = st\<lparr>st_seats := remove_at seat (st_seats st), st_tokens := remove_at seat (st_tokens st)\<rparr>"
      "r = Ok (empty_delta\<lparr>de_mutated_seats := [seat..<length (st_seats st) - 1],
         de_removed_ai := (if is_ai (st_seats st ! seat) then [seat] else []),
         de_renumbering := Some \<lparr>rn_removed_index = seat, rn_remapping = map (\<lambda>old. (old, old - 1)) [Suc seat..<length (st_seats st)]\<rparr>\<rparr>)"
proof -
  have len: "length (st_tokens st) = length (st_seats st)" "length (st_seats st) < 256" using assms(2) by (simp_all add: seat_inv_def)
  have old: "map (\<lambda>old. (old, (old + 255) mod 256)) [Suc seat..<length (st_seats st)]
      = map (\<lambda>old. (old, old - 1)) [Suc seat..<length (st_seats st)]"
    using len(2) by (intro map_cong) (auto simp: mod_if)
  show thesis
  proof (cases "seat = 0 \<or> length (st_seats st) \<le> seat \<or> length (st_seats st) \<le> fc_min_players (st_format st)")
    case True
    with assms(1) refused show thesis by (auto simp: apply_remove_def split: if_splits)
  next
    case False
    with len have "as_u8 (length (st_seats st) - 1) = length (st_seats st) - 1" "add_u8 seat 1 = Suc seat" "Suc (length (st_seats st) - 1) = length (st_seats st)"
      by auto
    note run = assms(1)[unfolded apply_remove_def Let_def] this
    show thesis
    proof (cases "st_seats st ! seat = HostHuman \<or> st_seats st ! seat = JoinedHuman")
      case True
      with run(1) False refused show thesis by auto
    next
      case kind: False
      then have wait: "st_seats st ! seat = WaitingHuman \<or> is_ai (st_seats st ! seat)" by (cases "st_seats st ! seat") auto
      with run False len old show thesis by (intro removed[OF _ _ _ wait]) (auto split: seat_kind.splits)
    qed
  qed
qed

lemma remove_at_nth: "i < length xs \<Longrightarrow> j < length xs - 1 \<Longrightarrow> remove_at i xs ! j = xs ! (if j < i then j else Suc j)"
  by (auto simp: remove_at_def nth_append min_def)

lemma remove_seat_inv:
  assumes "seat_inv st" "0 < seat" "seat < length (st_seats st)" "fc_min_players (st_format st) < length (st_seats st)"
  shows "seat_inv (st\<lparr>st_seats := remove_at seat (st_seats st), st_tokens := remove_at seat (st_tokens st)\<rparr>)"
  using assms by (auto simp: seat_inv_def remove_at_nth)

lemma live_tokens_remove:
  assumes "seat < length (st_tokens st)" "st_tokens st ! seat = []"
  shows "live_tokens (st\<lparr>st_seats := ks, st_tokens := remove_at seat (st_tokens st)\<rparr>) = live_tokens st"
  using arg_cong[OF mset_remove_at_add[OF assms(1)], of "filter_mset (\<lambda>tok. tok \<noteq> [])"] assms(2) by (simp add: live_tokens_def)

definition delta_accounts :: "'d seat_state \<Rightarrow> (seat_error, 'l seat_delta) outcome \<Rightarrow> 'd seat_state \<Rightarrow> bool" where
  "delta_accounts st r t \<longleftrightarrow> (case r of
     Ok delta \<Rightarrow> live_tokens t + mset (de_invalidated_tokens delta) = live_tokens st
   | Err _ \<Rightarrow> t = st
   | Panic \<Rightarrow> False)"

lemma apply_seat_safe:
  assumes "seat_inv st" "apply_seat resolve st mutation = (r, t)"
  shows "seat_inv t" "delta_accounts st r t" "st_game_started st \<Longrightarrow> r = Err GameStarted"
    "fc_min_players (st_format st) \<le> length (st_seats st) \<Longrightarrow> fc_min_players (st_format t) \<le> length (st_seats t)"
proof -
  have "seat_inv t \<and> delta_accounts st r t \<and> (fc_min_players (st_format st) \<le> length (st_seats st) \<longrightarrow> fc_min_players (st_format t) \<le> length (st_seats t))"
  proof (cases "is_pregame st")
    case False
    with assms show ?thesis by (auto simp: apply_seat_def delta_accounts_def)
  next
    case True
    show ?thesis
    proof (cases mutation)
      case Start
      with True assms show ?thesis
        by (auto simp: apply_seat_def apply_start_def delta_accounts_def live_tokens_def empty_delta_def seat_inv_def split: if_splits)
    next
      case (SetKind seat kind expected)
      with True assms(2) have "apply_set_kind resolve st seat kind expected = (r, t)" by (simp add: apply_seat_def)
      from this assms(1) show ?thesis
      proof (cases rule: apply_set_kind_cases)
        case (changed delta)
        have tok: "seat < length (st_tokens st)" "st_tokens st ! seat = [] \<longleftrightarrow> st_seats st ! seat \<noteq> JoinedHuman"
          using assms(1) changed(3,4) by (auto simp: seat_inv_def)
        have t: "t = st\<lparr>st_seats := (st_seats st)[seat := kind], st_tokens := (st_tokens st)[seat := []]\<rparr>"
          by (simp add: changed(2) set_seat_def clear_token_def)
        have "live_tokens t + mset (de_invalidated_tokens delta) = live_tokens st"
          using live_tokens_clear[OF tok(1), of "(st_seats st)[seat := kind]"] tok(2) changed(8) t by (simp split: if_splits)
        moreover have "seat_inv t" unfolding changed(2) by (rule set_kind_inv[OF assms(1) changed(3-5)])
        moreover have "st_format t = st_format st" "length (st_seats t) = length (st_seats st)" by (simp_all add: t)
        ultimately show ?thesis by (simp add: delta_accounts_def changed(1))
      qed (use assms(1) in \<open>auto simp: delta_accounts_def empty_delta_def\<close>)
    next
      case (Remove seat)
      with True assms(2) have "apply_remove st seat = (r, t)" by (simp add: apply_seat_def)
      from this assms(1) show ?thesis
      proof (cases rule: apply_remove_cases)
        case removed
        have tok: "seat < length (st_tokens st)" "st_tokens st ! seat = []"
          using assms(1) removed(1,2,4) by (auto simp: seat_inv_def)
        from live_tokens_remove[OF tok] remove_seat_inv[OF assms(1) removed(1-3)] removed show ?thesis
          by (auto simp: delta_accounts_def empty_delta_def)
      qed (use assms(1) in \<open>auto simp: delta_accounts_def\<close>)
    qed
  qed
  then show "seat_inv t" "delta_accounts st r t"
    "fc_min_players (st_format st) \<le> length (st_seats st) \<Longrightarrow> fc_min_players (st_format t) \<le> length (st_seats t)" by auto
  show "st_game_started st \<Longrightarrow> r = Err GameStarted" using assms(2) by (simp add: apply_seat_def is_pregame_def)
qed

interpretation seat_table: panic_free_reducer "apply_seat resolve" seat_inv
  for resolve :: "'d deck_choice \<Rightarrow> string + 'l"
proof unfold_locales
  fix st :: "'d seat_state" and m assume inv: "seat_inv st"
  note safe = apply_seat_safe(1,2)[OF inv prod.collapse[symmetric], of resolve m]
  show "seat_inv (snd (apply_seat resolve st m))" by (rule safe)
  show "fst (apply_seat resolve st m) \<noteq> Panic" using safe(2) by (auto simp: delta_accounts_def)
qed

section \<open>Properties of the seat table\<close>

text \<open>
  C26. The seat table is safe under every sequence of mutations. Whatever arrives, with any deck
  resolver, the reducer never panics; there is one host, in seat 0, and exactly the joined seats
  hold a token; a refused mutation changes nothing; every token that a mutation takes away is
  reported as invalidated; after the start everything is refused; and the table does not shrink below
  the minimum of the format.
\<close>

theorem seat_table_safe:
  assumes "seat_inv st0" "st = run (apply_seat resolve) st0 mutations" "apply_seat resolve st mutation = (r, t)"
  shows "r \<noteq> Panic \<and> seat_inv st \<and> seat_inv t
     \<and> (\<forall>e. r = Err e \<longrightarrow> t = st)
     \<and> (\<forall>delta. r = Ok delta \<longrightarrow> live_tokens t + mset (de_invalidated_tokens delta) = live_tokens st)
     \<and> (st_game_started st \<longrightarrow> r = Err GameStarted)
     \<and> (fc_min_players (st_format st) \<le> length (st_seats st) \<longrightarrow> fc_min_players (st_format t) \<le> length (st_seats t))"
proof -
  have inv: "seat_inv st" unfolding assms(2) by (rule seat_table.run_inv[OF assms(1)])
  from apply_seat_safe[OF inv assms(3)] inv show ?thesis by (auto simp: delta_accounts_def)
qed

definition sample_seats :: "nat seat_state" where
  "sample_seats = \<lparr>st_seats = [HostHuman, JoinedHuman, Ai Easy RandomDeck, WaitingHuman], st_tokens = [''h'', ''j'', [], []],
     st_format = \<lparr>fc_format = Commander, fc_min_players = 2, fc_max_players = 4, fc_team_based = False, fc_archenemy_player = None\<rparr>,
     st_game_started = False\<rparr>"

lemma sample_seats_inv: "seat_inv sample_seats"
  by (auto simp: seat_inv_def sample_seats_def less_Suc_eq numeral_eq_Suc)

theorem seat_table_safe_witness:
  "\<exists>st. st = run (apply_seat (\<lambda>_. Inr ())) sample_seats [Remove 2, SetKind 1 WaitingHuman None] \<and> st_seats st = [HostHuman, WaitingHuman, WaitingHuman]
     \<and> seat_inv st \<and> fst (apply_seat (\<lambda>_. Inr ()) st (SetKind 1 JoinedHuman None)) \<noteq> Panic"
proof -
  have "st_seats (run (apply_seat (\<lambda>_. Inr ())) sample_seats [Remove 2, SetKind 1 WaitingHuman None]) = [HostHuman, WaitingHuman, WaitingHuman]"
    by code_simp
  with seat_table_safe[OF sample_seats_inv refl prod.collapse[symmetric], of "\<lambda>_. Inr ()" "[Remove 2, SetKind 1 WaitingHuman None]" "SetKind 1 JoinedHuman None"]
  show ?thesis by blast
qed

text \<open>
  Removing a seat. An accepted removal takes out exactly that seat, which was waiting or an AI;
  the renumbering in its delta is the true one: every other seat is found, with its token, under the
  number that the remapping gives it (or its own where it gives none), and the AI seats reported
  removed are right.
\<close>

lemma seat_removal_renumbers:
  assumes "seat_inv st" "apply_seat resolve st (Remove seat) = (Ok delta, t)"
  shows "\<exists>rn. de_renumbering delta = Some rn \<and> rn_removed_index rn = seat \<and> length (st_seats t) = length (st_seats st) - 1
     \<and> (\<forall>j<length (st_seats st). j \<noteq> seat \<longrightarrow>
          (case map_of (rn_remapping rn) j of None \<Rightarrow> j | Some k \<Rightarrow> k) < length (st_seats t)
          \<and> st_seats t ! (case map_of (rn_remapping rn) j of None \<Rightarrow> j | Some k \<Rightarrow> k) = st_seats st ! j
          \<and> st_tokens t ! (case map_of (rn_remapping rn) j of None \<Rightarrow> j | Some k \<Rightarrow> k) = st_tokens st ! j)
     \<and> de_mutated_seats delta = [seat..<length (st_seats t)] \<and> de_new_ai delta = []
     \<and> de_removed_ai delta = (if is_ai (st_seats st ! seat) then [seat] else [])"
proof -
  have "apply_remove st seat = (Ok delta, t)" using assms(2) by (simp add: apply_seat_def split: if_splits)
  from this assms(1) show ?thesis
  proof (cases rule: apply_remove_cases)
    case removed
    let ?n = "length (st_seats st)"
    have len: "length (st_tokens st) = ?n" using assms(1) by (simp add: seat_inv_def)
    have lookup: "(case map_of (map (\<lambda>old. (old, old - 1)) [Suc seat..<?n]) j of None \<Rightarrow> j | Some k \<Rightarrow> k) = (if seat < j then j - 1 else j)"
      if "j < ?n" "j \<noteq> seat" for j
      using that by (simp add: map_of_map_restrict restrict_map_def)
    have at: "remove_at seat xs ! (if seat < j then j - 1 else j) = xs ! j" if "length xs = ?n" "j < ?n" "j \<noteq> seat" for xs :: "'z list" and j
      using that removed(1,2) by (subst remove_at_nth) (auto split: if_splits)
    show ?thesis
      using removed lookup at[of "st_seats st"] at[of "st_tokens st"] len by (auto simp: empty_delta_def)
  qed simp
qed

text \<open>
  Changing the kind of a seat. An accepted change either leaves the table alone with an empty
  delta (the seat already has that kind, or is no longer what the sender expected) or frees or
  fills exactly the named seat: every other seat and token stays, the seat's own token is
  cleared, the new kind is a waiting seat or an AI whose deck was resolved, and the delta names the
  AI that came and the AI that went.
\<close>

lemma seat_change_exact:
  assumes "seat_inv st" "apply_seat resolve st (SetKind seat kind expected) = (Ok delta, t)"
  shows "delta = empty_delta \<and> t = st
     \<or> st_seats t = (st_seats st)[seat := kind] \<and> st_tokens t = (st_tokens st)[seat := []] \<and> 0 < seat \<and> seat < length (st_seats st)
       \<and> (expected = None \<or> expected = Some (st_seats st ! seat)) \<and> (kind = WaitingHuman \<or> is_ai kind)
       \<and> de_mutated_seats delta = [seat] \<and> map fst (de_new_ai delta) = (if is_ai kind then [seat] else [])
       \<and> de_removed_ai delta = (if is_ai (st_seats st ! seat) then [seat] else [])
       \<and> de_invalidated_tokens delta = (if st_seats st ! seat = JoinedHuman then [st_tokens st ! seat] else [])
       \<and> st_format t = st_format st \<and> st_game_started t = st_game_started st"
proof -
  have "apply_set_kind resolve st seat kind expected = (Ok delta, t)" using assms(2) by (simp add: apply_seat_def split: if_splits)
  from this assms(1) show ?thesis
    by (cases rule: apply_set_kind_cases) (auto simp: set_seat_def clear_token_def)
qed

lemma hero_position: "length (filter (\<lambda>seat. seat \<noteq> a) [0..<i]) = (if a < i then i - 1 else i)"
  by (induction i) auto

text \<open>
  Team seating. In a team format no two seats share a place: the team and the position in it
  determine the seat, in two-headed games and, with at most 256 seats, against an archenemy.
\<close>

lemma seat_places_unique:
  assumes "seat_team_info fc i = Some place" "seat_team_info fc j = Some place" "fc_max_players fc \<le> 256"
  shows "i = j"
proof -
  have fixed: "i = j" if "topology fc = FixedTeams 2 2 s" for s
    using that assms(1,2) by (auto simp: seat_team_info_def split: if_splits) (metis div_mult_mod_eq)
  have hero: "as_u8 (if a < k then k - 1 else k) = (if a < k then k - 1 else k)" if "k < 256" for a k :: nat
    using that by simp
  have many: "i = j" if "topology fc = OneVsMany a s" for a s
    using that assms by (auto simp: seat_team_info_def hero_position hero split: if_splits)
  show ?thesis
  proof (cases "topology fc")
    case IndividualSeats
    with assms(1) show ?thesis by (simp add: seat_team_info_def)
  next
    case (FixedTeams m n s)
    then have "m = 2" "n = 2" by (auto simp: topology_def split: game_format.splits if_splits)
    with FixedTeams fixed show ?thesis by blast
  qed (use many in blast)
qed

end
