(* ===== verification/Contest.thy ===== *)
theory Contest
  imports Prelude
begin

text \<open>
  The physical contest, from \<open>crates/engine/src/types/contest.rs\<close> and
  \<open>crates/engine/src/game/contest.rs\<close>: a clicking contest of two players with a countdown,
  inactivity deadlines, pauses while a seat is away, and a time limit, driven by inputs that carry
  the host's clock; and the host driver that applies its result to the game. Of the game the driver
  keeps the contest it waits for and the results applied so far; resuming the parked effect is left
  out. The two contestants are a pair. Instants are \<open>u64\<close>, whose sums wrap around. The lemmas show that
  a result is applied once, who loses, that a pause keeps every deadline, and that a contest ends.
\<close>

section \<open>Data\<close>

datatype contest_kind = Staring | BreathHolding

datatype contest_phase = Pending | Preparing | Active | Resolving | Completed | Cancelled

fun can_transition_to :: "contest_phase \<Rightarrow> contest_phase \<Rightarrow> bool" where
  "can_transition_to Pending Preparing = True"
| "can_transition_to Preparing Active = True"
| "can_transition_to Active Resolving = True"
| "can_transition_to Resolving Completed = True"
| "can_transition_to Pending Resolving = True"
| "can_transition_to Preparing Resolving = True"
| "can_transition_to Pending Cancelled = True"
| "can_transition_to Preparing Cancelled = True"
| "can_transition_to Active Cancelled = True"
| "can_transition_to Resolving Cancelled = True"
| "can_transition_to _ _ = False"

definition is_terminal :: "contest_phase \<Rightarrow> bool" where
  "is_terminal p \<longleftrightarrow> p = Completed \<or> p = Cancelled"

datatype contest_loss_reason = Inactivity | Forfeit

datatype contest_outcome = Decided nat nat contest_loss_reason | Tie

datatype contest_cancel_reason = BothDisconnected | TimeLimit | ParticipantLeftGame | HostAborted

datatype contest_result = Outcome contest_outcome | CancelledResult contest_cancel_reason

record contest_config =
  cc_countdown_ms :: nat
  cc_inactivity_timeout_ms :: nat
  cc_reconnect_grace_ms :: nat
  cc_settle_window_ms :: nat
  cc_max_active_ms :: nat

definition default_config :: contest_config where
  "default_config = \<lparr>cc_countdown_ms = 3000, cc_inactivity_timeout_ms = 2000, cc_reconnect_grace_ms = 10000,
     cc_settle_window_ms = 150, cc_max_active_ms = 300000\<rparr>"

datatype contestant_connection = Connected | Disconnected nat

record contestant =
  cn_player :: nat
  cn_clicks :: nat
  cn_last_activity_ms :: nat
  cn_last_seq :: "nat option"
  cn_connection :: contestant_connection

datatype click_rejection = NotParticipant | NotActive | StaleSequence | Lapsed | WrongContest

datatype click_disposition = Counted | Rejected click_rejection

record contest_state =
  co_id :: nat
  co_kind :: contest_kind
  co_phase :: contest_phase
  co_config :: contest_config
  co_contestants :: "contestant \<times> contestant"
  co_clock_ms :: nat
  co_go_at_ms :: "nat option"
  co_paused_since_ms :: "nat option"
  co_result :: "contest_result option"

section \<open>The contest\<close>

definition U32_MAX :: nat where
  "U32_MAX = 2 ^ 32 - 1"

definition new_contestant :: "nat \<Rightarrow> contestant" where
  "new_contestant p = \<lparr>cn_player = p, cn_clicks = 0, cn_last_activity_ms = 0, cn_last_seq = None, cn_connection = Connected\<rparr>"

definition new_contest :: "nat \<Rightarrow> contest_kind \<Rightarrow> nat \<Rightarrow> nat \<Rightarrow> contest_config \<Rightarrow> contest_state" where
  "new_contest i kind controller opponent config =
     \<lparr>co_id = i, co_kind = kind, co_phase = Pending, co_config = config,
      co_contestants = (new_contestant controller, new_contestant opponent),
      co_clock_ms = 0, co_go_at_ms = None, co_paused_since_ms = None, co_result = None\<rparr>"

definition seat_at :: "nat \<Rightarrow> 'a \<times> 'a \<Rightarrow> 'a" where
  "seat_at idx p = (if idx = 0 then fst p else snd p)"

definition update_at :: "nat \<Rightarrow> ('a \<Rightarrow> 'a) \<Rightarrow> 'a \<times> 'a \<Rightarrow> 'a \<times> 'a" where
  "update_at idx f p = (if idx = 0 then (f (fst p), snd p) else (fst p, f (snd p)))"

definition index_of :: "contest_state \<Rightarrow> nat \<Rightarrow> nat option" where
  "index_of s p =
     (if cn_player (fst (co_contestants s)) = p then Some 0
      else if cn_player (snd (co_contestants s)) = p then Some 1 else None)"

definition is_participant :: "contest_state \<Rightarrow> nat \<Rightarrow> bool" where
  "is_participant s p \<longleftrightarrow> index_of s p \<noteq> None"

definition players :: "contest_state \<Rightarrow> nat \<times> nat" where
  "players s = (cn_player (fst (co_contestants s)), cn_player (snd (co_contestants s)))"

definition observe :: "nat \<Rightarrow> contest_state \<Rightarrow> contest_state" where
  "observe now s = s\<lparr>co_clock_ms := max (co_clock_ms s) now\<rparr>"

definition transition :: "contest_phase \<Rightarrow> contest_state \<Rightarrow> bool \<times> contest_state" where
  "transition next_phase s = (if can_transition_to (co_phase s) next_phase then (True, s\<lparr>co_phase := next_phase\<rparr>) else (False, s))"

definition deadline_ms :: "contest_state \<Rightarrow> nat \<Rightarrow> nat" where
  "deadline_ms s idx = add_u64 (cn_last_activity_ms (seat_at idx (co_contestants s))) (cc_inactivity_timeout_ms (co_config s))"

definition contest_start :: "nat \<Rightarrow> contest_state \<Rightarrow> bool \<times> contest_state" where
  "contest_start now_ms s =
     (if co_phase s \<noteq> Pending then (False, s)
      else let s = observe now_ms s; now = co_clock_ms s in
        case transition Preparing s of
          (False, s) \<Rightarrow> (False, s)
        | (True, s) \<Rightarrow>
            (True, s\<lparr>co_go_at_ms := Some (add_u64 now (cc_countdown_ms (co_config s))),
               co_paused_since_ms := (if co_paused_since_ms s \<noteq> None then Some now else None)\<rparr>))"

definition loses :: "contest_state \<Rightarrow> nat \<Rightarrow> contest_loss_reason \<Rightarrow> contest_outcome" where
  "loses s loser_idx reason =
     Decided (cn_player (seat_at (1 - loser_idx) (co_contestants s))) (cn_player (seat_at loser_idx (co_contestants s))) reason"

definition resolve :: "contest_outcome \<Rightarrow> contest_state \<Rightarrow> contest_state" where
  "resolve outcome s = (case transition Resolving s of (ok, s) \<Rightarrow> if ok then s\<lparr>co_result := Some (Outcome outcome)\<rparr> else s)"

definition cancel :: "contest_cancel_reason \<Rightarrow> nat \<Rightarrow> contest_state \<Rightarrow> contest_state" where
  "cancel reason now_ms s =
     (case transition Cancelled (observe now_ms s) of (ok, s) \<Rightarrow> if ok then s\<lparr>co_result := Some (CancelledResult reason)\<rparr> else s)"

definition complete :: "contest_state \<Rightarrow> contest_result option \<times> contest_state" where
  "complete s = (case transition Completed s of (ok, s) \<Rightarrow> (if ok then co_result s else None, s))"

definition time_limit_ms :: "contest_state \<Rightarrow> nat" where
  "time_limit_ms s = add_u64 (case co_go_at_ms s of None \<Rightarrow> 0 | Some go \<Rightarrow> go) (cc_max_active_ms (co_config s))"

definition active_elapsed_ms :: "contest_state \<Rightarrow> nat \<Rightarrow> nat" where
  "active_elapsed_ms s now_ms =
     (let until = (case co_paused_since_ms s of None \<Rightarrow> now_ms | Some paused \<Rightarrow> min paused now_ms)
      in until - (case co_go_at_ms s of None \<Rightarrow> until | Some go \<Rightarrow> go))"

definition activate :: "nat \<Rightarrow> contest_state \<Rightarrow> contest_state" where
  "activate go_at s =
     (case transition Active s of (ok, s) \<Rightarrow>
        if ok then s\<lparr>co_contestants := map_prod (\<lambda>c. c\<lparr>cn_last_activity_ms := go_at\<rparr>) (\<lambda>c. c\<lparr>cn_last_activity_ms := go_at\<rparr>) (co_contestants s)\<rparr>
        else s)"

definition settle_time_limit :: "nat \<Rightarrow> contest_state \<Rightarrow> contest_state" where
  "settle_time_limit now s = (if time_limit_ms s < now then cancel TimeLimit now s else s)"

definition abs_diff :: "nat \<Rightarrow> nat \<Rightarrow> nat" where
  "abs_diff a b = (if a \<le> b then b - a else a - b)"

definition settle_inactivity :: "nat \<Rightarrow> contest_state \<Rightarrow> contest_state" where
  "settle_inactivity now s =
     (let window = cc_settle_window_ms (co_config s);
          d0 = deadline_ms s 0; d1 = deadline_ms s 1;
          lapsed0 = (d0 < now); lapsed1 = (d1 < now);
          out0 = (add_u64 d0 window < now); out1 = (add_u64 d1 window < now)
      in if \<not> lapsed0 \<and> \<not> lapsed1 then s
         else if lapsed0 \<and> \<not> out0 \<or> lapsed1 \<and> \<not> out1 then s
         else resolve
           (if lapsed0 \<and> lapsed1 \<and> abs_diff d0 d1 \<le> window then Tie
            else if lapsed0 \<and> lapsed1 \<and> d0 < d1 then loses s 0 Inactivity
            else if lapsed0 \<and> lapsed1 then loses s 1 Inactivity
            else if lapsed0 then loses s 0 Inactivity
            else loses s 1 Inactivity) s)"

definition is_away :: "contestant \<Rightarrow> bool" where
  "is_away c \<longleftrightarrow> cn_connection c \<noteq> Connected"

definition grace_expired :: "nat \<Rightarrow> nat \<Rightarrow> contestant \<Rightarrow> bool" where
  "grace_expired grace now c = (case cn_connection c of Connected \<Rightarrow> False | Disconnected since_ms \<Rightarrow> add_u64 since_ms grace < now)"

definition settle_forfeits :: "nat \<Rightarrow> contest_state \<Rightarrow> bool \<times> contest_state" where
  "settle_forfeits now s =
     (let grace = cc_reconnect_grace_ms (co_config s);
          c0 = fst (co_contestants s); c1 = snd (co_contestants s);
          expired0 = grace_expired grace now c0; expired1 = grace_expired grace now c1
      in if \<not> expired0 \<and> \<not> expired1 then (False, s)
         else if is_away c0 \<and> is_away c1 then (True, cancel BothDisconnected now s)
         else (True, resolve (loses s (if expired0 then 0 else 1) Forfeit) s))"

definition settled_phase :: "contest_phase \<Rightarrow> bool" where
  "settled_phase p \<longleftrightarrow> is_terminal p \<or> p = Resolving"

definition contest_advance :: "nat \<Rightarrow> contest_state \<Rightarrow> contest_state" where
  "contest_advance now_ms s =
     (let s = observe now_ms s; now = co_clock_ms s in
      if settled_phase (co_phase s) then s
      else case settle_forfeits now s of
        (True, s) \<Rightarrow> s
      | (False, s) \<Rightarrow>
          if co_paused_since_ms s \<noteq> None then s
          else
            let s = (if co_phase s = Preparing then (case co_go_at_ms s of Some go \<Rightarrow> if go \<le> now then activate go s else s | None \<Rightarrow> s) else s) in
            if co_phase s = Active
            then let s = settle_inactivity (min now (time_limit_ms s)) s in
              if co_phase s = Active then settle_time_limit now s else s
            else s)"

definition click :: "nat \<Rightarrow> nat \<Rightarrow> nat \<Rightarrow> contest_state \<Rightarrow> click_disposition \<times> contest_state" where
  "click p seq now_ms s =
     (let s = contest_advance now_ms s; now = co_clock_ms s in
      case index_of s p of
        None \<Rightarrow> (Rejected NotParticipant, s)
      | Some idx \<Rightarrow>
          if co_phase s \<noteq> Active then (Rejected NotActive, s)
          else if (case cn_last_seq (seat_at idx (co_contestants s)) of None \<Rightarrow> False | Some last_seq \<Rightarrow> seq \<le> last_seq)
            then (Rejected StaleSequence, s)
          else let paused = co_paused_since_ms s \<noteq> None in
            if \<not> paused \<and> add_u64 (deadline_ms s idx) (cc_settle_window_ms (co_config s)) < now then (Rejected Lapsed, s)
            else (Counted, s\<lparr>co_contestants := update_at idx (\<lambda>c. c\<lparr>cn_last_seq := Some seq,
                    cn_clicks := min (cn_clicks c + 1) U32_MAX,
                    cn_last_activity_ms := (if paused then cn_last_activity_ms c else now)\<rparr>) (co_contestants s)\<rparr>))"

definition resume :: "nat \<Rightarrow> contest_state \<Rightarrow> contest_state" where
  "resume now s =
     (case co_paused_since_ms s of
        None \<Rightarrow> s
      | Some paused_since \<Rightarrow>
          let s = s\<lparr>co_paused_since_ms := None\<rparr>; elapsed = now - paused_since in
          if co_phase s = Preparing then s\<lparr>co_go_at_ms := map_option (\<lambda>go. add_u64 go elapsed) (co_go_at_ms s)\<rparr>
          else if co_phase s = Active
            then s\<lparr>co_go_at_ms := map_option (\<lambda>go. add_u64 go elapsed) (co_go_at_ms s),
                   co_contestants := map_prod (\<lambda>c. c\<lparr>cn_last_activity_ms := add_u64 (cn_last_activity_ms c) elapsed\<rparr>)
                     (\<lambda>c. c\<lparr>cn_last_activity_ms := add_u64 (cn_last_activity_ms c) elapsed\<rparr>) (co_contestants s)\<rparr>
          else s)"

definition seat_back :: "nat \<Rightarrow> contest_state \<Rightarrow> contest_state" where
  "seat_back idx s = s\<lparr>co_contestants := update_at idx (\<lambda>c. c\<lparr>cn_connection := Connected\<rparr>) (co_contestants s)\<rparr>"

definition set_connected :: "nat \<Rightarrow> bool \<Rightarrow> nat \<Rightarrow> contest_state \<Rightarrow> bool \<times> contest_state" where
  "set_connected p connected now_ms s =
     (case index_of s p of
        None \<Rightarrow> (False, s)
      | Some idx \<Rightarrow>
          if is_away (seat_at idx (co_contestants s)) \<longleftrightarrow> \<not> connected then (False, s)
          else
            let s = contest_advance now_ms s; now = co_clock_ms s in
            if settled_phase (co_phase s) then (False, s)
            else case (cn_connection (seat_at idx (co_contestants s)), connected) of
              (Connected, False) \<Rightarrow>
                (True, s\<lparr>co_contestants := update_at idx (\<lambda>c. c\<lparr>cn_connection := Disconnected now\<rparr>) (co_contestants s),
                   co_paused_since_ms := (case co_paused_since_ms s of None \<Rightarrow> Some now | Some t \<Rightarrow> Some t)\<rparr>)
            | (Disconnected _, True) \<Rightarrow>
                (let s = seat_back idx s in
                 (True, if \<not> is_away (fst (co_contestants s)) \<and> \<not> is_away (snd (co_contestants s)) then resume now s else s))
            | _ \<Rightarrow> (False, s))"

section \<open>The host driver\<close>

datatype contest_step = NotInContest | Unchanged | Updated | Settled

record contest_game =
  cg_waiting :: "contest_state option"
  cg_resolved :: "(contest_kind \<times> (nat \<times> nat) \<times> contest_result) list"
  cg_revision :: nat
  cg_controller_won :: bool

definition visible_signature where
  "visible_signature s =
     (co_phase s, cn_connection (fst (co_contestants s)), cn_connection (snd (co_contestants s)), co_go_at_ms s, co_paused_since_ms s)"

definition bump_revision :: "contest_game \<Rightarrow> contest_game" where
  "bump_revision g = g\<lparr>cg_revision := add_u64 (cg_revision g) 1\<rparr>"

fun controller_won :: "nat \<Rightarrow> contest_result \<Rightarrow> bool" where
  "controller_won controller (Outcome (Decided winner _ _)) = (winner = controller)"
| "controller_won controller _ = False"

definition settle :: "contest_game \<Rightarrow> contest_game" where
  "settle g =
     (case cg_waiting g of
        None \<Rightarrow> g
      | Some s \<Rightarrow>
          (case complete s of (first, s') \<Rightarrow>
             case (case first of None \<Rightarrow> co_result s' | Some r \<Rightarrow> Some r) of
               None \<Rightarrow> g\<lparr>cg_waiting := None\<rparr>
             | Some result \<Rightarrow>
                 g\<lparr>cg_waiting := None, cg_resolved := cg_resolved g @ [(co_kind s', players s', result)],
                   cg_controller_won := controller_won (fst (players s')) result\<rparr>))"

definition drive :: "(contest_state \<Rightarrow> 'r \<times> contest_state) \<Rightarrow> contest_game \<Rightarrow> ('r option \<times> contest_step) \<times> contest_game" where
  "drive input g =
     (case cg_waiting g of
        None \<Rightarrow> ((None, NotInContest), g)
      | Some before \<Rightarrow>
          (case input before of (output, s) \<Rightarrow>
             let g = g\<lparr>cg_waiting := Some s\<rparr> in
             if settled_phase (co_phase s) then ((Some output, Settled), bump_revision (settle g))
             else if visible_signature s \<noteq> visible_signature before then ((Some output, Updated), bump_revision g)
             else ((Some output, Unchanged), if s \<noteq> before then bump_revision g else g)))"

definition start_contest :: "contest_config \<Rightarrow> nat \<Rightarrow> contest_game \<Rightarrow> contest_step \<times> contest_game" where
  "start_contest config now_ms g =
     (case drive (\<lambda>s. contest_start now_ms (if co_phase s = Pending then s\<lparr>co_config := config\<rparr> else s)) g of ((_, step), g) \<Rightarrow> (step, g))"

definition cancel_contest :: "contest_cancel_reason \<Rightarrow> nat \<Rightarrow> contest_game \<Rightarrow> contest_step \<times> contest_game" where
  "cancel_contest reason now_ms g = (case drive (\<lambda>s. ((), cancel reason now_ms s)) g of ((_, step), g) \<Rightarrow> (step, g))"

definition advance_contest :: "(nat \<Rightarrow> bool) \<Rightarrow> nat \<Rightarrow> contest_game \<Rightarrow> contest_step \<times> contest_game" where
  "advance_contest is_alive now_ms g =
     (if (case cg_waiting g of None \<Rightarrow> False | Some s \<Rightarrow> \<not> is_alive (fst (players s)) \<or> \<not> is_alive (snd (players s)))
      then cancel_contest ParticipantLeftGame now_ms g
      else case drive (\<lambda>s. ((), contest_advance now_ms s)) g of ((_, step), g) \<Rightarrow> (step, g))"

definition contest_click :: "nat \<Rightarrow> nat \<Rightarrow> nat \<Rightarrow> nat \<Rightarrow> contest_game \<Rightarrow> (click_disposition \<times> contest_step) \<times> contest_game" where
  "contest_click contest_id p seq now_ms g =
     (case drive (\<lambda>s. if co_id s \<noteq> contest_id then (Rejected WrongContest, s) else click p seq now_ms s) g of
        ((disposition, step), g) \<Rightarrow> ((case disposition of None \<Rightarrow> Rejected NotActive | Some d \<Rightarrow> d, step), g))"

definition set_contest_connection :: "nat \<Rightarrow> bool \<Rightarrow> nat \<Rightarrow> contest_game \<Rightarrow> contest_step \<times> contest_game" where
  "set_contest_connection p connected now_ms g =
     (case drive (set_connected p connected now_ms) g of ((_, step), g) \<Rightarrow> (step, g))"

definition cancel_contest_after_restore :: "contest_game \<Rightarrow> contest_game" where
  "cancel_contest_after_restore g =
     (case cg_waiting g of None \<Rightarrow> g | Some s \<Rightarrow> snd (cancel_contest HostAborted (co_clock_ms s) g))"

section \<open>The lifecycle\<close>

definition outcome_between :: "nat \<times> nat \<Rightarrow> contest_outcome \<Rightarrow> bool" where
  "outcome_between ps outcome =
     (case outcome of Tie \<Rightarrow> True | Decided winner loser _ \<Rightarrow> (winner, loser) = ps \<or> (loser, winner) = ps)"

fun result_ok :: "nat \<times> nat \<Rightarrow> contest_phase \<Rightarrow> contest_result option \<Rightarrow> bool" where
  "result_ok ps Resolving r = (\<exists>outcome. r = Some (Outcome outcome) \<and> outcome_between ps outcome)"
| "result_ok ps Cancelled r = (\<exists>reason. r = Some (CancelledResult reason))"
| "result_ok ps Completed r = False"
| "result_ok ps _ r = (r = None)"

definition contest_inv :: "nat \<Rightarrow> contest_kind \<Rightarrow> nat \<times> nat \<Rightarrow> contest_state \<Rightarrow> bool" where
  "contest_inv i kind ps s \<longleftrightarrow>
     co_id s = i \<and> co_kind s = kind \<and> players s = ps
   \<and> (co_paused_since_ms s \<noteq> None \<longleftrightarrow> is_away (fst (co_contestants s)) \<or> is_away (snd (co_contestants s)))
   \<and> (co_phase s = Preparing \<or> co_phase s = Active \<longrightarrow> co_go_at_ms s \<noteq> None)
   \<and> result_ok ps (co_phase s) (co_result s)"

named_theorems contest_invs \<open>preservation of the invariant of a contest\<close>

lemma new_contest_inv: "contest_inv i kind (a, b) (new_contest i kind a b config)"
  by (simp add: contest_inv_def new_contest_def players_def new_contestant_def is_away_def)

lemma observe_inv [contest_invs]: "contest_inv i kind ps s \<Longrightarrow> contest_inv i kind ps (observe now s)"
  by (simp add: contest_inv_def observe_def players_def)

lemma loses_between: "outcome_between (players s) (loses s idx reason)"
  by (auto simp: outcome_between_def loses_def players_def seat_at_def)

lemma resolve_inv [contest_invs]:
  "contest_inv i kind ps s \<Longrightarrow> outcome_between ps outcome \<Longrightarrow> contest_inv i kind ps (resolve outcome s)"
  by (cases "co_phase s") (simp_all add: contest_inv_def resolve_def transition_def players_def)

lemma cancel_inv [contest_invs]: "contest_inv i kind ps s \<Longrightarrow> contest_inv i kind ps (cancel reason now s)"
  by (cases "co_phase s") (simp_all add: contest_inv_def cancel_def transition_def observe_def players_def)

lemma activate_inv [contest_invs]: "contest_inv i kind ps s \<Longrightarrow> contest_inv i kind ps (activate go s)"
  by (cases "co_phase s"; cases "co_contestants s")
     (simp_all add: contest_inv_def activate_def transition_def players_def is_away_def)

lemma settle_time_limit_inv [contest_invs]: "contest_inv i kind ps s \<Longrightarrow> contest_inv i kind ps (settle_time_limit now s)"
  by (simp add: settle_time_limit_def contest_invs)

lemma inv_loses_between: "contest_inv i kind ps s \<Longrightarrow> outcome_between ps (loses s idx reason)"
  using loses_between by (auto simp: contest_inv_def)

lemma settle_inactivity_inv [contest_invs]: "contest_inv i kind ps s \<Longrightarrow> contest_inv i kind ps (settle_inactivity now s)"
  by (auto simp: settle_inactivity_def Let_def outcome_between_def[of _ Tie] inv_loses_between intro!: resolve_inv)

lemma settle_forfeits_inv [contest_invs]: "contest_inv i kind ps s \<Longrightarrow> contest_inv i kind ps (snd (settle_forfeits now s))"
  by (auto simp: settle_forfeits_def Let_def inv_loses_between intro!: resolve_inv cancel_inv)

lemma contest_advance_inv [contest_invs]: "contest_inv i kind ps s \<Longrightarrow> contest_inv i kind ps (contest_advance now s)"
proof -
  assume "contest_inv i kind ps s"
  then have o: "contest_inv i kind ps (observe now s)" by (rule observe_inv)
  then have f: "contest_inv i kind ps (snd (settle_forfeits (co_clock_ms (observe now s)) (observe now s)))" by (rule settle_forfeits_inv)
  obtain b t where bt: "settle_forfeits (co_clock_ms (observe now s)) (observe now s) = (b, t)" by (metis surj_pair)
  with f have t: "contest_inv i kind ps t" by simp
  let ?u = "if co_phase t = Preparing then (case co_go_at_ms t of Some go \<Rightarrow> if go \<le> co_clock_ms (observe now s) then activate go t else t | None \<Rightarrow> t) else t"
  have u: "contest_inv i kind ps ?u" using t by (auto intro: activate_inv split: option.split)
  show ?thesis unfolding contest_advance_def Let_def bt
    using o t u settle_inactivity_inv[OF u] settle_time_limit_inv[OF settle_inactivity_inv[OF u]] by (auto split: bool.split)
qed

lemma start_inv [contest_invs]: "contest_inv i kind ps s \<Longrightarrow> contest_inv i kind ps (snd (contest_start now s))"
  by (cases "co_phase s") (simp_all add: contest_start_def Let_def transition_def observe_def contest_inv_def players_def)

lemma players_update: "(\<And>c. cn_player (f c) = cn_player c) \<Longrightarrow> players (s\<lparr>co_contestants := update_at idx f (co_contestants s)\<rparr>) = players s"
  by (simp add: players_def update_at_def)

lemma click_inv [contest_invs]:
  assumes "contest_inv i kind ps s"
  shows "contest_inv i kind ps (snd (click p seq now s))"
proof -
  note contest_advance_inv[OF assms, of now]
  moreover have "contest_inv i kind ps (t\<lparr>co_contestants := update_at idx (\<lambda>c. c\<lparr>cn_last_seq := x, cn_clicks := y c, cn_last_activity_ms := z c\<rparr>) (co_contestants t)\<rparr>)"
    if "contest_inv i kind ps t" for t idx x y z
    using that by (auto simp: contest_inv_def players_def update_at_def is_away_def)
  ultimately show ?thesis by (auto simp: click_def Let_def split: option.split)
qed

lemma disconnect_inv:
  "contest_inv i kind ps s \<Longrightarrow> contest_inv i kind ps (s\<lparr>co_contestants := update_at idx (\<lambda>c. c\<lparr>cn_connection := Disconnected now\<rparr>) (co_contestants s),
     co_paused_since_ms := (case co_paused_since_ms s of None \<Rightarrow> Some now | Some t \<Rightarrow> Some t)\<rparr>)"
  by (auto simp: contest_inv_def players_def update_at_def is_away_def split: option.split)

lemma reconnect_inv:
  assumes "contest_inv i kind ps s" "is_away (seat_at idx (co_contestants s))"
  shows "contest_inv i kind ps
    (if \<not> is_away (fst (co_contestants (seat_back idx s))) \<and> \<not> is_away (snd (co_contestants (seat_back idx s))) then resume now (seat_back idx s) else seat_back idx s)"
proof -
  have "\<exists>t. co_paused_since_ms s = Some t" using assms by (auto simp: contest_inv_def seat_at_def split: if_splits)
  then obtain t where t: "co_paused_since_ms s = Some t" ..
  have "co_phase s = Preparing \<or> co_phase s = Active \<or> co_phase s \<noteq> Preparing \<and> co_phase s \<noteq> Active" by blast
  with assms t show ?thesis
    by (elim disjE; cases "co_contestants s")
       (auto simp: contest_inv_def players_def is_away_def resume_def seat_back_def update_at_def seat_at_def Let_def)
qed

lemma set_connected_inv [contest_invs]:
  assumes "contest_inv i kind ps s"
  shows "contest_inv i kind ps (snd (set_connected p connected now s))"
proof (cases "index_of s p")
  case (Some idx)
  note adv = contest_advance_inv[OF assms, of now]
  show ?thesis
  proof (cases "cn_connection (seat_at idx (co_contestants (contest_advance now s)))")
    case Connected
    with adv disconnect_inv[OF adv] assms Some show ?thesis by (simp add: set_connected_def Let_def split: bool.split)
  next
    case (Disconnected since)
    then have "is_away (seat_at idx (co_contestants (contest_advance now s)))" by (simp add: is_away_def)
    from reconnect_inv[OF adv this] adv assms Some Disconnected show ?thesis
      by (simp add: set_connected_def Let_def split: bool.split)
  qed
qed (use assms in \<open>simp add: set_connected_def\<close>)

section \<open>One result\<close>

datatype contest_input = StartInput contest_config nat | AdvanceInput "nat \<Rightarrow> bool" nat | ClickInput nat nat nat nat
  | ConnectionInput nat bool nat | CancelInput contest_cancel_reason nat | RestoreInput

fun host_input :: "contest_input \<Rightarrow> contest_game \<Rightarrow> contest_game" where
  "host_input (StartInput config now) g = snd (start_contest config now g)"
| "host_input (AdvanceInput is_alive now) g = snd (advance_contest is_alive now g)"
| "host_input (ClickInput i p seq now) g = snd (contest_click i p seq now g)"
| "host_input (ConnectionInput p connected now) g = snd (set_contest_connection p connected now g)"
| "host_input (CancelInput reason now) g = snd (cancel_contest reason now g)"
| "host_input RestoreInput g = cancel_contest_after_restore g"

definition wait_for :: "contest_state \<Rightarrow> contest_game" where
  "wait_for s = \<lparr>cg_waiting = Some s, cg_resolved = [], cg_revision = 0, cg_controller_won = False\<rparr>"

definition play_contest :: "contest_state \<Rightarrow> contest_input list \<Rightarrow> contest_game" where
  "play_contest s inputs = foldl (\<lambda>g x. host_input x g) (wait_for s) inputs"

definition result_for :: "nat \<times> nat \<Rightarrow> contest_result \<Rightarrow> bool" where
  "result_for ps r = (case r of Outcome outcome \<Rightarrow> outcome_between ps outcome | CancelledResult _ \<Rightarrow> True)"

definition game_inv :: "nat \<Rightarrow> contest_kind \<Rightarrow> nat \<times> nat \<Rightarrow> contest_game \<Rightarrow> bool" where
  "game_inv i kind ps g =
     (case cg_waiting g of
        Some s \<Rightarrow> contest_inv i kind ps s \<and> \<not> settled_phase (co_phase s) \<and> cg_resolved g = [] \<and> \<not> cg_controller_won g
      | None \<Rightarrow> \<exists>r. cg_resolved g = [(kind, ps, r)] \<and> result_for ps r
          \<and> (cg_controller_won g \<longleftrightarrow> (\<exists>loser reason. r = Outcome (Decided (fst ps) loser reason))))"

lemma settle_once:
  assumes "contest_inv i kind ps s" "settled_phase (co_phase s)" "cg_resolved g = []"
  shows "game_inv i kind ps (bump_revision (settle (g\<lparr>cg_waiting := Some s\<rparr>)))"
proof -
  from assms obtain r where r: "co_result s = Some r" "result_for ps r" "co_phase s = Resolving \<or> co_phase s = Cancelled"
    by (cases "co_phase s") (auto simp: contest_inv_def settled_phase_def is_terminal_def result_for_def)
  have won: "controller_won (fst ps) r \<longleftrightarrow> (\<exists>loser reason. r = Outcome (Decided (fst ps) loser reason))"
    by (cases "(fst ps, r)" rule: controller_won.cases) auto
  have "players s = ps" "co_kind s = kind" using assms(1) by (simp_all add: contest_inv_def)
  moreover have "players (s\<lparr>co_phase := Completed\<rparr>) = players s" by (simp add: players_def)
  ultimately show ?thesis using r assms(3) won
    by (auto simp: settle_def complete_def transition_def game_inv_def bump_revision_def)
qed

lemma drive_inv:
  assumes "game_inv i kind ps g" "\<And>s. contest_inv i kind ps s \<Longrightarrow> contest_inv i kind ps (snd (input s))"
  shows "game_inv i kind ps (snd (drive input g))"
proof (cases "cg_waiting g")
  case (Some s)
  obtain out t where io: "input s = (out, t)" by (cases "input s")
  from assms Some io have t: "contest_inv i kind ps t" "cg_resolved g = []" "\<not> cg_controller_won g" by (force simp: game_inv_def)+
  show ?thesis
  proof (cases "settled_phase (co_phase t)")
    case True
    with settle_once[OF t(1) True t(2)] Some io show ?thesis by (simp add: drive_def Let_def)
  next
    case False
    with t have "game_inv i kind ps (g\<lparr>cg_waiting := Some t\<rparr>)" "game_inv i kind ps (bump_revision (g\<lparr>cg_waiting := Some t\<rparr>))"
      by (simp_all add: game_inv_def bump_revision_def)
    with False Some io show ?thesis by (auto simp: drive_def Let_def)
  qed
qed (use assms in \<open>simp add: drive_def\<close>)

lemma host_input_inv: "game_inv i kind ps g \<Longrightarrow> game_inv i kind ps (host_input x g)"
proof -
  assume g: "game_inv i kind ps g"
  have conf: "contest_inv i kind ps (s\<lparr>co_config := config\<rparr>)" if "contest_inv i kind ps s" for s config
    using that by (simp add: contest_inv_def players_def)
  have c: "game_inv i kind ps (snd (cancel_contest reason now g))" for reason now
    using drive_inv[OF g, of "\<lambda>s. ((), cancel reason now s)"] cancel_inv by (simp add: cancel_contest_def case_prod_beta)
  show ?thesis
  proof (cases x)
    case (StartInput config now)
    then show ?thesis
      using drive_inv[OF g, of "\<lambda>s. contest_start now (if co_phase s = Pending then s\<lparr>co_config := config\<rparr> else s)"] start_inv conf
      by (simp add: start_contest_def case_prod_beta)
  next
    case (AdvanceInput is_alive now)
    then show ?thesis using drive_inv[OF g, of "\<lambda>s. ((), contest_advance now s)"] contest_advance_inv c
      by (simp add: advance_contest_def case_prod_beta)
  next
    case (ClickInput j p seq now)
    then show ?thesis
      using drive_inv[OF g, of "\<lambda>s. if co_id s \<noteq> j then (Rejected WrongContest, s) else click p seq now s"] click_inv
      by (simp add: contest_click_def case_prod_beta)
  next
    case (ConnectionInput p connected now)
    then show ?thesis using drive_inv[OF g, of "set_connected p connected now"] set_connected_inv
      by (simp add: set_contest_connection_def case_prod_beta)
  next
    case (CancelInput reason now)
    with c show ?thesis by simp
  next
    case RestoreInput
    with c g show ?thesis by (simp add: cancel_contest_after_restore_def split: option.split)
  qed
qed

text \<open>
  C27. Whatever a host feeds a contest, and in any order, its result is applied to the game at most
  once: the game waits for it exactly as long as no result was applied, it then holds no result, and
  its players, kind and identity are those it was created with. The applied result names its two
  players, and the controller is credited with a win exactly when the result says so.
\<close>

theorem contest_settles_once:
  "let play = play_contest (new_contest i kind a b config) in
   case cg_waiting (play inputs) of
      Some s \<Rightarrow> cg_resolved (play inputs) = [] \<and> co_result s = None \<and> \<not> settled_phase (co_phase s)
        \<and> players s = (a, b) \<and> co_kind s = kind \<and> co_id s = i \<and> \<not> cg_controller_won (play inputs)
    | None \<Rightarrow> \<exists>r. (\<forall>more_inputs. cg_resolved (play (inputs @ more_inputs)) = [(kind, (a, b), r)]
          \<and> cg_waiting (play (inputs @ more_inputs)) = None) \<and> result_for (a, b) r
        \<and> (cg_controller_won (play inputs) \<longleftrightarrow> (\<exists>loser reason. r = Outcome (Decided a loser reason)))"
proof -
  define play where "play = play_contest (new_contest i kind a b config)"
  have "game_inv i kind (a, b) (wait_for (new_contest i kind a b config))"
    by (simp add: game_inv_def wait_for_def new_contest_inv) (simp add: new_contest_def settled_phase_def is_terminal_def)
  then have inv: "game_inv i kind (a, b) (play inputs)" for inputs
    unfolding play_def play_contest_def by (induction inputs rule: rev_induct) (simp_all add: host_input_inv)
  have stop: "host_input x g = g" if "cg_waiting g = None" for x g
    using that by (cases x)
      (simp_all add: start_contest_def advance_contest_def contest_click_def set_contest_connection_def cancel_contest_def drive_def cancel_contest_after_restore_def)
  have step: "play (xs @ [x]) = host_input x (play xs)" for xs x by (simp add: play_def play_contest_def)
  have rest: "play (inputs @ xs) = play inputs" if "cg_waiting (play inputs) = None" for xs
  proof (induction xs rule: rev_induct)
    case (snoc x xs)
    with step[of "inputs @ xs" x] stop[OF that] show ?case by simp
  qed simp
  show ?thesis
  proof (cases "cg_waiting (play inputs)")
    case None
    with inv[of inputs] rest[OF None] show ?thesis unfolding Let_def play_def[symmetric] by (auto simp: game_inv_def)
  next
    case (Some s)
    with inv[of inputs] have "contest_inv i kind (a, b) s" "\<not> settled_phase (co_phase s)" "cg_resolved (play inputs) = []"
      "\<not> cg_controller_won (play inputs)" by (simp_all add: game_inv_def)
    with Some show ?thesis unfolding Let_def play_def[symmetric]
      by (cases "co_phase s") (auto simp: contest_inv_def settled_phase_def is_terminal_def)
  qed
qed

section \<open>Who loses\<close>

definition contest_running :: "contest_state \<Rightarrow> bool" where
  "contest_running s \<longleftrightarrow> co_phase s = Active \<and> co_paused_since_ms s = None \<and> co_result s = None
     \<and> \<not> is_away (fst (co_contestants s)) \<and> \<not> is_away (snd (co_contestants s))"

definition fits :: "contest_state \<Rightarrow> bool" where
  "fits s \<longleftrightarrow> (\<forall>c\<in>{fst (co_contestants s), snd (co_contestants s)}.
     cn_last_activity_ms c + cc_inactivity_timeout_ms (co_config s) + cc_settle_window_ms (co_config s) < 2 ^ 64)"

definition verdict :: "contest_state \<Rightarrow> contest_outcome" where
  "verdict s =
     (if abs_diff (deadline_ms s 0) (deadline_ms s 1) \<le> cc_settle_window_ms (co_config s) then Tie
      else if deadline_ms s 0 < deadline_ms s 1 then loses s 0 Inactivity else loses s 1 Inactivity)"

lemma running_no_forfeit: "contest_running s \<Longrightarrow> settle_forfeits now s = (False, s)"
  by (simp add: contest_running_def settle_forfeits_def Let_def grace_expired_def is_away_def split: contestant_connection.split)

lemma running_advance:
  assumes "contest_running s" "co_clock_ms s \<le> t"
  shows "contest_advance t s =
    (let s = s\<lparr>co_clock_ms := t\<rparr>; u = settle_inactivity (min t (time_limit_ms s)) s in if co_phase u = Active then settle_time_limit t u else u)"
proof -
  have "contest_running (s\<lparr>co_clock_ms := t\<rparr>)" using assms(1) by (simp add: contest_running_def)
  moreover have "observe t s = s\<lparr>co_clock_ms := t\<rparr>" using assms(2) by (simp add: observe_def max_def)
  ultimately show ?thesis using assms(1) running_no_forfeit[of "s\<lparr>co_clock_ms := t\<rparr>" t]
    by (simp add: contest_advance_def Let_def contest_running_def settled_phase_def is_terminal_def)
qed

lemma clock_irrelevant:
  "deadline_ms (s\<lparr>co_clock_ms := t\<rparr>) idx = deadline_ms s idx" "time_limit_ms (s\<lparr>co_clock_ms := t\<rparr>) = time_limit_ms s"
  "loses (s\<lparr>co_clock_ms := t\<rparr>) idx reason = loses s idx reason" "verdict (s\<lparr>co_clock_ms := t\<rparr>) = verdict s"
  "contest_running (s\<lparr>co_clock_ms := t\<rparr>) = contest_running s" "fits (s\<lparr>co_clock_ms := t\<rparr>) = fits s"
  by (simp_all add: deadline_ms_def time_limit_ms_def loses_def verdict_def contest_running_def fits_def)

lemma window_end:
  "fits s \<Longrightarrow> add_u64 (deadline_ms s idx) (cc_settle_window_ms (co_config s)) = deadline_ms s idx + cc_settle_window_ms (co_config s)"
  by (auto simp: fits_def deadline_ms_def seat_at_def)

lemma inactivity_decision:
  fixes d0 d1 w t :: nat and f :: "'b \<Rightarrow> 'c" and x :: 'c and T L0 L1 :: 'b
  defines "r \<equiv> (if \<not> d0 < t \<and> \<not> d1 < t then x
     else if d0 < t \<and> \<not> d0 + w < t \<or> d1 < t \<and> \<not> d1 + w < t then x
     else f (if d0 < t \<and> d1 < t \<and> abs_diff d0 d1 \<le> w then T
        else if d0 < t \<and> d1 < t \<and> d0 < d1 then L0
        else if d0 < t \<and> d1 < t then L1 else if d0 < t then L0 else L1))"
  shows "r = x \<or> r = f (if abs_diff d0 d1 \<le> w then T else if d0 < d1 then L0 else L1)"
    and "max d0 d1 + w < t \<Longrightarrow> r = f (if abs_diff d0 d1 \<le> w then T else if d0 < d1 then L0 else L1)"
    and "t \<le> min d0 d1 \<Longrightarrow> r = x"
proof -
  have "abs_diff d0 d1 > w \<and> d0 < d1" if "d0 < t" "\<not> d1 < t" "d0 + w < t" using that by (auto simp: abs_diff_def)
  moreover have "abs_diff d0 d1 > w \<and> d1 < d0" if "\<not> d0 < t" "d1 < t" "d1 + w < t" using that by (auto simp: abs_diff_def)
  ultimately show "r = x \<or> r = f (if abs_diff d0 d1 \<le> w then T else if d0 < d1 then L0 else L1)"
    unfolding r_def by (cases "d0 < t"; cases "d1 < t"; cases "d0 + w < t"; cases "d1 + w < t") simp_all
qed (auto simp: r_def)

lemma settle_inactivity_cases:
  assumes "contest_running s" "fits s"
  shows "settle_inactivity t s = s \<or> settle_inactivity t s = s\<lparr>co_phase := Resolving, co_result := Some (Outcome (verdict s))\<rparr>"
    and "max (deadline_ms s 0) (deadline_ms s 1) + cc_settle_window_ms (co_config s) < t \<Longrightarrow>
      settle_inactivity t s = s\<lparr>co_phase := Resolving, co_result := Some (Outcome (verdict s))\<rparr>"
    and "t \<le> min (deadline_ms s 0) (deadline_ms s 1) \<Longrightarrow> settle_inactivity t s = s"
proof -
  have r: "resolve outcome s = s\<lparr>co_phase := Resolving, co_result := Some (Outcome outcome)\<rparr>" for outcome
    using assms(1) by (simp add: contest_running_def resolve_def transition_def)
  note decision = inactivity_decision[where ?d0.0 = "deadline_ms s 0" and ?d1.0 = "deadline_ms s 1" and t = t and x = s and w = "cc_settle_window_ms (co_config s)"
      and f = "\<lambda>oc. resolve oc s" and T = Tie and ?L0.0 = "loses s 0 Inactivity" and ?L1.0 = "loses s 1 Inactivity", folded verdict_def]
  have eq: "settle_inactivity t s = (if \<not> deadline_ms s 0 < t \<and> \<not> deadline_ms s 1 < t then s
     else if deadline_ms s 0 < t \<and> \<not> deadline_ms s 0 + cc_settle_window_ms (co_config s) < t
       \<or> deadline_ms s 1 < t \<and> \<not> deadline_ms s 1 + cc_settle_window_ms (co_config s) < t then s
     else resolve (if deadline_ms s 0 < t \<and> deadline_ms s 1 < t \<and> abs_diff (deadline_ms s 0) (deadline_ms s 1) \<le> cc_settle_window_ms (co_config s) then Tie
        else if deadline_ms s 0 < t \<and> deadline_ms s 1 < t \<and> deadline_ms s 0 < deadline_ms s 1 then loses s 0 Inactivity
        else if deadline_ms s 0 < t \<and> deadline_ms s 1 < t then loses s 1 Inactivity
        else if deadline_ms s 0 < t then loses s 0 Inactivity else loses s 1 Inactivity) s)"
    by (simp only: settle_inactivity_def Let_def window_end[OF assms(2)])
  show "settle_inactivity t s = s \<or> settle_inactivity t s = s\<lparr>co_phase := Resolving, co_result := Some (Outcome (verdict s))\<rparr>"
    using decision(1) unfolding eq r .
  show "settle_inactivity t s = s\<lparr>co_phase := Resolving, co_result := Some (Outcome (verdict s))\<rparr>"
    if "max (deadline_ms s 0) (deadline_ms s 1) + cc_settle_window_ms (co_config s) < t"
    using decision(2)[OF that] unfolding eq r .
  show "settle_inactivity t s = s" if "t \<le> min (deadline_ms s 0) (deadline_ms s 1)"
    using decision(3)[OF that] unfolding eq r .
qed

text \<open>
  C28. Who loses a running contest does not depend on when the host ticks. A tick decides nothing
  before the first deadline has passed; whenever ticks decide the contest the outcome is the same
  verdict, a tie when the deadlines are within the settle window of each other and otherwise a loss
  for the earlier one; and a tick after both windows decides it, if these end before the time limit.
  A tick past the time limit always ends the contest.
\<close>

theorem contest_verdict:
  assumes "contest_running s" "fits s" "co_clock_ms s \<le> t"
  shows "(t \<le> deadline_ms s 0 \<longrightarrow> t \<le> deadline_ms s 1 \<longrightarrow> t \<le> time_limit_ms s \<longrightarrow> contest_advance t s = s\<lparr>co_clock_ms := t\<rparr>)
    \<and> (\<forall>outcome. co_result (contest_advance t s) = Some (Outcome outcome) \<longrightarrow> outcome = verdict s)
    \<and> (max (deadline_ms s 0) (deadline_ms s 1) + cc_settle_window_ms (co_config s) < min t (time_limit_ms s) \<longrightarrow>
         co_phase (contest_advance t s) = Resolving \<and> co_result (contest_advance t s) = Some (Outcome (verdict s)))
    \<and> (time_limit_ms s < t \<longrightarrow> settled_phase (co_phase (contest_advance t s)))"
proof -
  let ?s = "s\<lparr>co_clock_ms := t\<rparr>" and ?d = "s\<lparr>co_clock_ms := t, co_phase := Resolving, co_result := Some (Outcome (verdict s))\<rparr>"
  have run: "contest_running ?s" "fits ?s" using assms by (simp_all add: clock_irrelevant)
  note cases = settle_inactivity_cases[OF run, unfolded clock_irrelevant]
  have adv: "contest_advance t s = (let u = settle_inactivity (min t (time_limit_ms s)) ?s in if co_phase u = Active then settle_time_limit t u else u)"
    using running_advance[OF assms(1,3)] by (simp add: Let_def clock_irrelevant)
  have act: "co_phase s = Active" "co_result s = None" using assms(1) by (simp_all add: contest_running_def)
  have limit: "settle_time_limit t ?s = (if time_limit_ms s < t then ?s\<lparr>co_phase := Cancelled, co_result := Some (CancelledResult TimeLimit)\<rparr> else ?s)"
    by (simp add: settle_time_limit_def clock_irrelevant cancel_def observe_def transition_def act)
  have late: "max (deadline_ms s 0) (deadline_ms s 1) + cc_settle_window_ms (co_config s) < min t (time_limit_ms s) \<Longrightarrow> contest_advance t s = ?d"
    using cases(2)[of "min t (time_limit_ms s)"] by (simp add: adv)
  from cases(1)[of "min t (time_limit_ms s)"] consider
    "contest_advance t s = settle_time_limit t ?s" "settle_inactivity (min t (time_limit_ms s)) ?s = ?s" | "contest_advance t s = ?d" "settle_inactivity (min t (time_limit_ms s)) ?s = ?d"
    by (auto simp: adv act)
  then show ?thesis
  proof cases
    case 1
    from 1(1) have "co_phase (contest_advance t s) \<noteq> Resolving" by (simp add: limit act)
    then have "\<not> max (deadline_ms s 0) (deadline_ms s 1) + cc_settle_window_ms (co_config s) < min t (time_limit_ms s)" using late by auto
    with 1(1) act show ?thesis by (auto simp: limit settled_phase_def is_terminal_def split: if_splits)
  next
    case 2
    have "\<not> (t \<le> deadline_ms s 0 \<and> t \<le> deadline_ms s 1)"
    proof
      assume "t \<le> deadline_ms s 0 \<and> t \<le> deadline_ms s 1"
      then have "settle_inactivity (min t (time_limit_ms s)) ?s = ?s" by (intro cases(3)) auto
      from arg_cong[OF this, of co_phase] 2(2) act show False by simp
    qed
    with 2(1) show ?thesis by (auto simp: settled_phase_def)
  qed
qed

definition sample_contest :: contest_state where
  "sample_contest = \<lparr>co_id = 7, co_kind = Staring, co_phase = Active, co_config = default_config,
     co_contestants = (\<lparr>cn_player = 0, cn_clicks = 9, cn_last_activity_ms = 300000, cn_last_seq = Some 9, cn_connection = Connected\<rparr>,
       \<lparr>cn_player = 1, cn_clicks = 9, cn_last_activity_ms = 300900, cn_last_seq = Some 9, cn_connection = Connected\<rparr>),
     co_clock_ms = 300900, co_go_at_ms = Some 3000, co_paused_since_ms = None, co_result = None\<rparr>"

lemmas contest_eval = new_contest_def new_contestant_def seat_at_def update_at_def index_of_def players_def observe_def transition_def
  deadline_ms_def contest_start_def loses_def resolve_def cancel_def complete_def time_limit_ms_def activate_def settle_time_limit_def
  abs_diff_def settle_inactivity_def is_away_def grace_expired_def settle_forfeits_def settled_phase_def is_terminal_def
  contest_advance_def click_def visible_signature_def bump_revision_def settle_def drive_def start_contest_def advance_contest_def
  contest_click_def play_contest_def wait_for_def U32_MAX_def Let_def

theorem contest_verdict_witness:
  "co_result (contest_advance 302500 sample_contest) = Some (Outcome (Decided 1 0 Inactivity)) \<and> verdict sample_contest = Decided 1 0 Inactivity"
proof -
  have run: "contest_running sample_contest" "fits sample_contest" "co_clock_ms sample_contest \<le> 302500"
    by (simp_all add: contest_running_def fits_def sample_contest_def default_config_def is_away_def)
  have "co_result (contest_advance 302500 sample_contest) = Some (Outcome (Decided 1 0 Inactivity))"
    by (simp add: sample_contest_def default_config_def contest_eval)
  with contest_verdict[OF run] show ?thesis by auto
qed

text \<open>
  C30. A late tick cancels a decided contest. Take a running contest in which one player lapses for
  good, by more than the settle window before the other, and the other lapses within the last settle
  window before the time limit. A tick after the first player's window that comes before the other
  player's deadline decides the contest against the first; but when the next tick comes only after
  the time limit, the inactivity check runs at the limit, where the other player has lapsed but may still
  recover, so that it decides nothing and the contest is cancelled. The comment in \<open>advance\<close> says that
  a late tick cannot turn a contest that an on-time tick would have decided into a cancellation.
\<close>

theorem late_tick_cancels_decided_contest:
  assumes "contest_running s" "fits s" "first = 0 \<and> other = 1 \<or> first = 1 \<and> other = 0"
    and "co_clock_ms s \<le> on_time" "deadline_ms s first + cc_settle_window_ms (co_config s) < on_time" "on_time \<le> deadline_ms s other"
    and "deadline_ms s other < time_limit_ms s" "time_limit_ms s \<le> deadline_ms s other + cc_settle_window_ms (co_config s)"
    and "time_limit_ms s < late"
  shows "co_result (contest_advance on_time s) = Some (Outcome (loses s first Inactivity))
    \<and> co_result (contest_advance late s) = Some (CancelledResult TimeLimit)"
proof
  have act: "co_phase s = Active" "co_result s = None" using assms(1) by (simp_all add: contest_running_def)
  have now: "co_clock_ms s \<le> late" "on_time \<le> time_limit_ms s" using assms(4-9) by auto
  have "settle_inactivity on_time (s\<lparr>co_clock_ms := on_time\<rparr>) = resolve (loses s first Inactivity) (s\<lparr>co_clock_ms := on_time\<rparr>)"
    using assms(3,5,6) window_end[OF assms(2)] by (auto simp: settle_inactivity_def Let_def clock_irrelevant)
  with running_advance[OF assms(1,4)] now(2) act show "co_result (contest_advance on_time s) = Some (Outcome (loses s first Inactivity))"
    by (simp add: Let_def clock_irrelevant resolve_def transition_def min_absorb1)
  have "settle_inactivity (time_limit_ms s) (s\<lparr>co_clock_ms := late\<rparr>) = s\<lparr>co_clock_ms := late\<rparr>"
    using assms(3,7,8) window_end[OF assms(2)] by (auto simp: settle_inactivity_def Let_def clock_irrelevant)
  with running_advance[OF assms(1) now(1)] assms(9) act show "co_result (contest_advance late s) = Some (CancelledResult TimeLimit)"
    by (simp add: Let_def clock_irrelevant min_absorb2 settle_time_limit_def cancel_def observe_def transition_def)
qed

theorem late_tick_cancels_decided_contest_witness:
  "co_result (contest_advance 302500 sample_contest) = Some (Outcome (Decided 1 0 Inactivity))
   \<and> co_result (contest_advance 303001 sample_contest) = Some (CancelledResult TimeLimit)"
proof -
  have "contest_running sample_contest" "fits sample_contest" "co_clock_ms sample_contest \<le> 302500"
    "deadline_ms sample_contest 0 = 302000" "deadline_ms sample_contest 1 = 302900" "time_limit_ms sample_contest = 303000"
    "cc_settle_window_ms (co_config sample_contest) = 150" "loses sample_contest 0 Inactivity = Decided 1 0 Inactivity"
    by (simp_all add: contest_running_def fits_def sample_contest_def default_config_def is_away_def deadline_ms_def
        seat_at_def time_limit_ms_def loses_def add_u64_def)
  with late_tick_cancels_decided_contest[of sample_contest 0 1 302500 303001] show ?thesis by simp
qed

section \<open>A contest ends\<close>

lemma observe_fields [simp]:
  "co_phase (observe t s) = co_phase s" "co_paused_since_ms (observe t s) = co_paused_since_ms s" "co_go_at_ms (observe t s) = co_go_at_ms s"
  "co_contestants (observe t s) = co_contestants s" "co_config (observe t s) = co_config s" "co_clock_ms (observe t s) = max (co_clock_ms s) t"
  "time_limit_ms (observe t s) = time_limit_ms s"
  by (simp_all add: observe_def time_limit_ms_def)

lemma settled_resolve: "co_phase s \<in> {Pending, Preparing, Active} \<Longrightarrow> settled_phase (co_phase (resolve outcome s))"
  by (auto simp: resolve_def transition_def settled_phase_def)

lemma settled_cancel: "co_phase s \<in> {Pending, Preparing, Active} \<Longrightarrow> settled_phase (co_phase (cancel reason now s))"
  by (auto simp: cancel_def transition_def observe_def settled_phase_def is_terminal_def)

lemma expired_grace_settles:
  assumes "\<not> settled_phase (co_phase s)" "c \<in> {fst (co_contestants s), snd (co_contestants s)}" "cn_connection c = Disconnected since"
    "add_u64 since (cc_reconnect_grace_ms (co_config s)) < t"
  shows "settled_phase (co_phase (contest_advance t s))"
proof -
  let ?s = "observe t s" and ?now = "co_clock_ms (observe t s)"
  have now: "t \<le> ?now" by simp
  have live: "co_phase ?s \<in> {Pending, Preparing, Active}" using assms(1)
    by (cases "co_phase s") (simp_all add: settled_phase_def is_terminal_def)
  have "grace_expired (cc_reconnect_grace_ms (co_config ?s)) ?now c" using assms(3,4) now by (simp add: grace_expired_def)
  with assms(2) have "\<exists>u. settle_forfeits ?now ?s = (True, u) \<and> settled_phase (co_phase u)"
    using settled_resolve[OF live] settled_cancel[OF live] by (auto simp: settle_forfeits_def Let_def)
  with assms(1) show ?thesis by (auto simp: contest_advance_def Let_def)
qed

lemma settle_inactivity_phase:
  "co_phase s = Active \<Longrightarrow> settle_inactivity t s = s \<or> co_phase (settle_inactivity t s) = Resolving"
  by (simp add: settle_inactivity_def Let_def resolve_def transition_def)

lemma time_limit_settles:
  assumes "\<not> settled_phase (co_phase s)" "co_phase s \<noteq> Pending" "co_paused_since_ms s = None" "co_go_at_ms s = Some go" "go \<le> t" "time_limit_ms s < t"
    "\<not> is_away (fst (co_contestants s))" "\<not> is_away (snd (co_contestants s))"
  shows "settled_phase (co_phase (contest_advance t s))"
proof -
  let ?s = "observe t s" and ?now = "co_clock_ms (observe t s)"
  let ?u = "if co_phase ?s = Preparing then (case co_go_at_ms ?s of Some go \<Rightarrow> if go \<le> ?now then activate go ?s else ?s | None \<Rightarrow> ?s) else ?s"
  have now: "t \<le> ?now" by simp
  have phase: "co_phase s = Preparing \<or> co_phase s = Active" using assms(1,2) by (cases "co_phase s") (simp_all add: settled_phase_def is_terminal_def)
  have "settle_forfeits ?now ?s = (False, ?s)"
    using assms(7,8) by (simp add: settle_forfeits_def Let_def grace_expired_def is_away_def split: contestant_connection.split)
  moreover define u where "u = ?u"
  ultimately have adv: "contest_advance t s = (if co_phase u = Active then let v = settle_inactivity (min ?now (time_limit_ms u)) u in
      if co_phase v = Active then settle_time_limit ?now v else v else u)"
    using assms(1,3) unfolding contest_advance_def by (simp add: Let_def del: observe_fields(6))
  have u: "co_phase u = Active" "time_limit_ms u = time_limit_ms s"
    using phase assms(4,5) now by (auto simp: u_def activate_def transition_def time_limit_ms_def)
  have "settled_phase (co_phase (settle_time_limit ?now u))"
    using settled_cancel[of u TimeLimit ?now] u assms(6) now by (simp add: settle_time_limit_def less_max_iff_disj)
  with settle_inactivity_phase[OF u(1), of "min ?now (time_limit_ms u)"] u(1) show ?thesis
    unfolding adv by (auto simp: Let_def settled_phase_def)
qed

text \<open>
  The instant by which a started contest is over: the end of the grace period of the player who left
  first, or, when both are present, the end of the time limit.
\<close>

definition away_since :: "contestant \<Rightarrow> nat option" where
  "away_since c = (case cn_connection c of Connected \<Rightarrow> None | Disconnected since_ms \<Rightarrow> Some since_ms)"

definition latest_end :: "contest_state \<Rightarrow> nat" where
  "latest_end s = (case (away_since (fst (co_contestants s)), away_since (snd (co_contestants s))) of
     (None, None) \<Rightarrow> (case co_go_at_ms s of None \<Rightarrow> 0 | Some go \<Rightarrow> go) + cc_max_active_ms (co_config s)
   | (Some a, None) \<Rightarrow> a + cc_reconnect_grace_ms (co_config s)
   | (None, Some b) \<Rightarrow> b + cc_reconnect_grace_ms (co_config s)
   | (Some a, Some b) \<Rightarrow> min a b + cc_reconnect_grace_ms (co_config s))"

lemma away_since_simps:
  "is_away c \<longleftrightarrow> away_since c \<noteq> None" "away_since c = Some t \<longleftrightarrow> cn_connection c = Disconnected t"
  "\<not> is_away c \<Longrightarrow> away_since c = None"
  by (auto simp: is_away_def away_since_def split: contestant_connection.splits)

lemma latest_end_away:
  assumes "is_away (fst (co_contestants s)) \<or> is_away (snd (co_contestants s))"
  obtains c since where "c \<in> {fst (co_contestants s), snd (co_contestants s)}" "cn_connection c = Disconnected since"
    "latest_end s = since + cc_reconnect_grace_ms (co_config s)"
proof -
  consider (both) a b where "away_since (fst (co_contestants s)) = Some a" "away_since (snd (co_contestants s)) = Some b"
    | (left) a where "away_since (fst (co_contestants s)) = Some a" "away_since (snd (co_contestants s)) = None"
    | (right) b where "away_since (fst (co_contestants s)) = None" "away_since (snd (co_contestants s)) = Some b"
    using assms by (cases "away_since (fst (co_contestants s))"; cases "away_since (snd (co_contestants s))") (auto simp: away_since_simps(1))
  then show thesis
  proof cases
    case both
    then show thesis using that[of "if a \<le> b then fst (co_contestants s) else snd (co_contestants s)" "min a b"]
      by (auto simp: latest_end_def away_since_simps(2)[symmetric] min_def)
  next
    case left
    then show thesis using that[of "fst (co_contestants s)" a] by (simp add: latest_end_def away_since_simps(2)[symmetric])
  next
    case right
    then show thesis using that[of "snd (co_contestants s)" b] by (simp add: latest_end_def away_since_simps(2)[symmetric])
  qed
qed

lemma latest_end_settles:
  assumes "contest_inv i kind ps s" "co_phase s \<noteq> Pending" "latest_end s < t" "t < 2 ^ 64"
  shows "settled_phase (co_phase (contest_advance t s))"
proof (cases "settled_phase (co_phase s)")
  case True
  then show ?thesis by (auto simp: contest_advance_def observe_def Let_def)
next
  case False
  show ?thesis
  proof (cases "is_away (fst (co_contestants s)) \<or> is_away (snd (co_contestants s))")
    case True
    then obtain c since where c: "c \<in> {fst (co_contestants s), snd (co_contestants s)}" "cn_connection c = Disconnected since"
      "latest_end s = since + cc_reconnect_grace_ms (co_config s)" by (rule latest_end_away)
    with assms(3,4) have "add_u64 since (cc_reconnect_grace_ms (co_config s)) < t" by simp
    from expired_grace_settles[OF False c(1,2) this] show ?thesis .
  next
    case here: False
    have phase: "co_phase s = Preparing \<or> co_phase s = Active"
      using False assms(2) by (cases "co_phase s") (simp_all add: settled_phase_def is_terminal_def)
    with assms(1) here obtain go where go: "co_paused_since_ms s = None" "co_go_at_ms s = Some go" by (auto simp: contest_inv_def)
    then have "latest_end s = go + cc_max_active_ms (co_config s)" using here by (simp add: latest_end_def away_since_simps(3))
    with assms(3,4) go have "go \<le> t" "time_limit_ms s < t" by (simp_all add: time_limit_ms_def)
    with time_limit_settles[OF False assms(2) go] here show ?thesis by simp
  qed
qed

text \<open>Ticks and clicks touch neither the connections nor the start nor the settings, on which alone the bound depends.\<close>

definition contest_terms :: "contest_state \<Rightarrow> (contestant_connection \<times> contestant_connection) \<times> nat option \<times> contest_config" where
  "contest_terms s = (map_prod cn_connection cn_connection (co_contestants s), co_go_at_ms s, co_config s)"

lemma latest_end_cong:
  assumes "contest_terms s' = contest_terms s"
  shows "latest_end s' = latest_end s"
proof -
  have eqs: "away_since (fst (co_contestants s')) = away_since (fst (co_contestants s))"
    "away_since (snd (co_contestants s')) = away_since (snd (co_contestants s))"
    "co_go_at_ms s' = co_go_at_ms s" "co_config s' = co_config s"
    using assms by (auto simp: contest_terms_def away_since_def map_prod_def split_beta)
  show ?thesis unfolding latest_end_def eqs ..
qed

lemma step_terms [simp]:
  "contest_terms (observe t s) = contest_terms s" "contest_terms (resolve outcome s) = contest_terms s"
  "contest_terms (cancel reason t s) = contest_terms s" "contest_terms (activate go s) = contest_terms s"
  by (auto simp: contest_terms_def observe_def resolve_def cancel_def activate_def transition_def map_prod.compositionality o_def)

lemma settle_terms [simp]:
  "contest_terms (settle_time_limit t s) = contest_terms s" "contest_terms (settle_inactivity t s) = contest_terms s"
  "contest_terms (snd (settle_forfeits t s)) = contest_terms s"
  by (simp_all add: settle_time_limit_def settle_inactivity_def settle_forfeits_def Let_def)

lemma advance_terms: "contest_terms (contest_advance t s) = contest_terms s"
proof -
  obtain b u where f: "settle_forfeits (co_clock_ms (observe t s)) (observe t s) = (b, u)" by fastforce
  then have "contest_terms u = contest_terms s" using settle_terms(3)[of "co_clock_ms (observe t s)" "observe t s"] by simp
  then show ?thesis unfolding contest_advance_def Let_def f by (auto split: option.split bool.split)
qed

lemma click_terms: "contest_terms (snd (click p seq t s)) = contest_terms s"
proof -
  have "contest_terms (u\<lparr>co_contestants := update_at idx (\<lambda>c. c\<lparr>cn_last_seq := a, cn_clicks := b c, cn_last_activity_ms := d c\<rparr>) (co_contestants u)\<rparr>)
      = contest_terms u" for u idx a b d
    by (simp add: contest_terms_def update_at_def map_prod_def split_beta)
  then show ?thesis using advance_terms[of t s] by (auto simp: click_def Let_def split: option.split)
qed

lemma step_clock [simp]:
  "co_clock_ms (resolve outcome s) = co_clock_ms s" "co_clock_ms (activate go s) = co_clock_ms s"
  "co_clock_ms (cancel reason t s) = max (co_clock_ms s) t"
  by (auto simp: resolve_def cancel_def activate_def transition_def observe_def)

lemma advance_clock: "co_clock_ms (contest_advance t s) = max (co_clock_ms s) t"
proof -
  obtain b u where f: "settle_forfeits (max (co_clock_ms s) t) (observe t s) = (b, u)" by fastforce
  then have u: "co_clock_ms u = max (co_clock_ms s) t" by (auto simp: settle_forfeits_def Let_def split: if_splits)
  have i: "co_clock_ms (settle_inactivity x v) = co_clock_ms v" for x v by (simp add: settle_inactivity_def Let_def)
  show ?thesis unfolding contest_advance_def Let_def observe_fields f using u i
    by (auto simp: settle_time_limit_def split: option.split bool.split)
qed

lemma leaving_grace:
  assumes "fst (set_connected p False t s)"
  shows "latest_end (snd (set_connected p False t s)) \<le> max (co_clock_ms s) t + cc_reconnect_grace_ms (co_config s)"
proof -
  let ?u = "contest_advance t s" and ?now = "co_clock_ms (contest_advance t s)"
  from assms obtain idx where idx: "index_of s p = Some idx" "\<not> settled_phase (co_phase ?u)"
    "cn_connection (seat_at idx (co_contestants ?u)) = Connected"
    "snd (set_connected p False t s) = ?u\<lparr>co_contestants := update_at idx (\<lambda>c. c\<lparr>cn_connection := Disconnected ?now\<rparr>) (co_contestants ?u),
       co_paused_since_ms := (case co_paused_since_ms ?u of None \<Rightarrow> Some ?now | Some t \<Rightarrow> Some t)\<rparr>"
    by (auto simp: set_connected_def Let_def split: option.splits if_splits contestant_connection.splits)
  have "co_config ?u = co_config s" using advance_terms[of t s] by (simp add: contest_terms_def)
  with idx(4) have "latest_end (snd (set_connected p False t s)) \<le> ?now + cc_reconnect_grace_ms (co_config s)"
    by (auto simp: latest_end_def update_at_def away_since_def split: option.split contestant_connection.split)
  with advance_clock[of t s] show ?thesis by simp
qed

text \<open>
  C29. Every started contest ends, and by when. A tick after \<open>latest_end\<close> settles it, whether both
  players go on clicking for ever, stop, or leave; a start at an instant puts that bound at the
  countdown plus the time limit after it; no click and no tick moves it; and when a player leaves, it is
  at most the reconnect grace away.
\<close>

theorem contest_ends:
  assumes "contest_inv i kind ps s"
  shows "(co_phase s \<noteq> Pending \<longrightarrow> latest_end s < t \<longrightarrow> t < 2 ^ 64 \<longrightarrow> settled_phase (co_phase (contest_advance t s)))
    \<and> (co_phase s = Pending \<longrightarrow> \<not> is_away (fst (co_contestants s)) \<longrightarrow> \<not> is_away (snd (co_contestants s)) \<longrightarrow>
         max (co_clock_ms s) t + cc_countdown_ms (co_config s) < 2 ^ 64 \<longrightarrow>
         latest_end (snd (contest_start t s)) = max (co_clock_ms s) t + cc_countdown_ms (co_config s) + cc_max_active_ms (co_config s))
    \<and> latest_end (contest_advance t s) = latest_end s \<and> latest_end (snd (click p seq t s)) = latest_end s
    \<and> (fst (set_connected p False t s) \<longrightarrow>
         latest_end (snd (set_connected p False t s)) \<le> max (co_clock_ms s) t + cc_reconnect_grace_ms (co_config s))"
proof (intro conjI impI)
  show "settled_phase (co_phase (contest_advance t s))" if "co_phase s \<noteq> Pending" "latest_end s < t" "t < 2 ^ 64"
    by (rule latest_end_settles[OF assms that])
  show "latest_end (snd (contest_start t s)) = max (co_clock_ms s) t + cc_countdown_ms (co_config s) + cc_max_active_ms (co_config s)"
    if "co_phase s = Pending" "\<not> is_away (fst (co_contestants s))" "\<not> is_away (snd (co_contestants s))"
      "max (co_clock_ms s) t + cc_countdown_ms (co_config s) < 2 ^ 64"
    using that by (simp add: contest_start_def transition_def latest_end_def away_since_simps(3) Let_def)
  show "latest_end (contest_advance t s) = latest_end s" "latest_end (snd (click p seq t s)) = latest_end s"
    by (intro latest_end_cong advance_terms click_terms)+
  show "latest_end (snd (set_connected p False t s)) \<le> max (co_clock_ms s) t + cc_reconnect_grace_ms (co_config s)"
    if "fst (set_connected p False t s)"
    by (rule leaving_grace[OF that])
qed

theorem contest_ends_witness:
  "latest_end sample_contest = 303000 \<and> settled_phase (co_phase (contest_advance 303001 sample_contest))"
proof -
  have "contest_inv 7 Staring (0, 1) sample_contest" by (simp add: contest_inv_def sample_contest_def players_def is_away_def)
  moreover have "latest_end sample_contest = 303000" "co_phase sample_contest \<noteq> Pending"
    by (simp_all add: latest_end_def sample_contest_def away_since_def default_config_def)
  ultimately show ?thesis using contest_ends[of 7 Staring "(0, 1)" sample_contest 303001] by simp
qed

section \<open>Pauses\<close>

definition shifted :: "nat \<Rightarrow> contest_state \<Rightarrow> contest_state" where
  "shifted e s = s\<lparr>co_go_at_ms := map_option (\<lambda>go. go + e) (co_go_at_ms s),
     co_contestants := map_prod (\<lambda>c. c\<lparr>cn_last_activity_ms := cn_last_activity_ms c + e\<rparr>) (\<lambda>c. c\<lparr>cn_last_activity_ms := cn_last_activity_ms c + e\<rparr>)
       (co_contestants s)\<rparr>"

definition pause_fits :: "nat \<Rightarrow> nat \<Rightarrow> contest_state \<Rightarrow> bool" where
  "pause_fits t e s \<longleftrightarrow> t + cc_reconnect_grace_ms (co_config s) < 2 ^ 64 \<and> (\<forall>go. co_go_at_ms s = Some go \<longrightarrow> go + e < 2 ^ 64)
     \<and> cn_last_activity_ms (fst (co_contestants s)) + e < 2 ^ 64 \<and> cn_last_activity_ms (snd (co_contestants s)) + e < 2 ^ 64"

lemma leave_running:
  assumes "contest_running s" "index_of s p = Some idx" "contest_advance t s = s\<lparr>co_clock_ms := t\<rparr>"
  shows "set_connected p False t s = (True, s\<lparr>co_clock_ms := t, co_contestants := update_at idx (\<lambda>c. c\<lparr>cn_connection := Disconnected t\<rparr>) (co_contestants s),
     co_paused_since_ms := Some t\<rparr>)"
proof -
  have "cn_connection (seat_at idx (co_contestants s)) = Connected" using assms(1) by (simp add: contest_running_def is_away_def seat_at_def)
  with assms show ?thesis by (simp add: set_connected_def Let_def is_away_def contest_running_def settled_phase_def is_terminal_def)
qed

lemma away_waits:
  fixes s t idx
  defines "p \<equiv> s\<lparr>co_clock_ms := t, co_contestants := update_at idx (\<lambda>c. c\<lparr>cn_connection := Disconnected t\<rparr>) (co_contestants s), co_paused_since_ms := Some t\<rparr>"
  assumes "contest_running s" "t \<le> u" "u \<le> t + cc_reconnect_grace_ms (co_config s)" "t + cc_reconnect_grace_ms (co_config s) < 2 ^ 64"
  shows "contest_advance u p = p\<lparr>co_clock_ms := u\<rparr>"
proof -
  have obs: "observe u p = p\<lparr>co_clock_ms := u\<rparr>" using assms(3) by (simp add: observe_def p_def max_def)
  have "settle_forfeits u (p\<lparr>co_clock_ms := u\<rparr>) = (False, p\<lparr>co_clock_ms := u\<rparr>)"
    using assms(2,4,5) by (auto simp: settle_forfeits_def p_def grace_expired_def update_at_def contest_running_def is_away_def Let_def)
  with obs assms(2) show ?thesis by (simp add: contest_advance_def Let_def p_def contest_running_def settled_phase_def is_terminal_def)
qed

text \<open>
  A pause keeps every budget. When a player leaves a running contest and returns within the
  grace period, ticks in between change nothing but the clock, and the contest resumes with its
  deadlines, its time limit and its start moved by exactly the length of the pause, so that both
  players have the inactivity budget, and the contest the elapsed time, that they had before.
\<close>

lemma pause_keeps_budgets:
  assumes "contest_running s" "index_of s p = Some idx" "contest_advance t s = s\<lparr>co_clock_ms := t\<rparr>" "t \<le> t'"
    "t' \<le> t + cc_reconnect_grace_ms (co_config s)" "pause_fits t (t' - t) s"
  shows "let away = snd (set_connected p False t s); again = snd (set_connected p True t' away) in
    fst (set_connected p False t s) \<and> fst (set_connected p True t' away)
    \<and> (\<forall>u. t \<le> u \<longrightarrow> u \<le> t' \<longrightarrow> contest_advance u away = away\<lparr>co_clock_ms := u\<rparr>)
    \<and> again = (shifted (t' - t) s)\<lparr>co_clock_ms := t'\<rparr>
    \<and> active_elapsed_ms again t' = active_elapsed_ms s t"
proof -
  let ?p = "s\<lparr>co_clock_ms := t, co_contestants := update_at idx (\<lambda>c. c\<lparr>cn_connection := Disconnected t\<rparr>) (co_contestants s), co_paused_since_ms := Some t\<rparr>"
  note away = leave_running[OF assms(1-3)]
  have wait: "contest_advance u ?p = ?p\<lparr>co_clock_ms := u\<rparr>" if "t \<le> u" "u \<le> t'" for u
    using away_waits[OF assms(1) that(1)] that(2) assms(5,6) by (simp add: pause_fits_def)
  have i: "index_of ?p p = Some idx" using assms(2) by (auto simp: index_of_def update_at_def split: if_splits)
  have a: "is_away (seat_at idx (co_contestants ?p))" by (simp add: seat_at_def update_at_def is_away_def)
  have returned: "seat_back idx (?p\<lparr>co_clock_ms := t'\<rparr>) = s\<lparr>co_clock_ms := t', co_paused_since_ms := Some t\<rparr>"
    using assms(1) by (cases "co_contestants s"; cases s) (auto simp: seat_back_def update_at_def contest_running_def is_away_def)
  have res: "resume t' (s\<lparr>co_clock_ms := t', co_paused_since_ms := Some t\<rparr>) = (shifted (t' - t) s)\<lparr>co_clock_ms := t'\<rparr>"
    using assms(1,6) by (cases "co_contestants s"; cases "co_go_at_ms s"; cases s) (auto simp: resume_def shifted_def contest_running_def pause_fits_def Let_def)
  have "set_connected p True t' ?p = (True, (shifted (t' - t) s)\<lparr>co_clock_ms := t'\<rparr>)"
    using i a wait[OF assms(4)] returned res assms(1)
    by (simp add: set_connected_def Let_def) (auto simp: contest_running_def settled_phase_def is_terminal_def seat_at_def update_at_def)
  moreover have "active_elapsed_ms ((shifted (t' - t) s)\<lparr>co_clock_ms := t'\<rparr>) t' = active_elapsed_ms s t"
    using assms(1,4) by (cases "co_go_at_ms s") (auto simp: active_elapsed_ms_def shifted_def contest_running_def Let_def)
  ultimately show ?thesis using away wait by (simp add: Let_def)
qed

end
