(* ===== verification/Lobby.thy ===== *)
theory Lobby
  imports Deck_Validation
begin

text \<open>
  The lobby of the broker, from \<open>crates/lobby-broker/src/lobby.rs\<close> and \<open>reservation_auth.rs\<close>: the
  registered games with their seat reservations, the identity of a registration, host presence and
  expiry, and the check that a connection holds a reservation. The wall clock and fresh tokens of
  \<open>BrokerEnv\<close> are arguments; the match configuration and the draft metadata that a registration
  carries through are type parameters. Hash maps are finite maps and \<open>keys_of\<close> lists the codes of
  the registered games. The lemmas show that seats are never oversold and that a registration that
  was removed or replaced can never again be refreshed or removed in its successor's place.
\<close>

section \<open>Data\<close>

definition PUBLIC_SEAT_RESERVATION_MS :: nat where
  "PUBLIC_SEAT_RESERVATION_MS = 120000"

definition LIVENESS_REFRESH_SECS :: nat where
  "LIVENESS_REFRESH_SECS = 60"

record 'f lobby_format =
  lf_format :: 'f
  lf_allow_debug_actions :: bool

record ('f, 'm, 'd) register_game_request =
  rg_host_name :: string
  rg_public :: bool
  rg_password :: "string option"
  rg_timer_seconds :: "nat option"
  rg_host_version :: string
  rg_host_build_commit :: string
  rg_current_players :: nat
  rg_max_players :: nat
  rg_format_config :: "'f lobby_format option"
  rg_match_config :: 'm
  rg_room_name :: "string option"
  rg_host_peer_id :: string
  rg_draft_metadata :: "'d option"
  rg_ranked :: bool

record ('f, 'm, 'd) join_target_info_t =
  jt_host_peer_id :: string
  jt_max_players :: nat
  jt_current_players :: nat
  jt_format_config :: "'f lobby_format option"
  jt_match_config :: 'm
  jt_is_p2p :: bool
  jt_reservation_token :: "string option"
  jt_reservation_expires_at_ms :: "nat option"
  jt_draft_metadata :: "'d option"

record lobby_reservation =
  rv_token :: string
  rv_display_name :: string
  rv_expires_at_ms :: "nat option"

record lobby_registration =
  lr_game_code :: string
  lr_generation :: nat

datatype expiry_consumption = Removed | AlreadyGone | Superseded

datatype host_presence = Present | Away

record ('f, 'm, 'd) lobby_game_meta =
  lm_host_presence :: host_presence
  lm_host_name :: string
  lm_created_at :: nat
  lm_last_seen :: nat
  lm_generation :: nat
  lm_password :: "string option"
  lm_has_password :: bool
  lm_timer_seconds :: "nat option"
  lm_public :: bool
  lm_host_version :: string
  lm_host_build_commit :: string
  lm_current_players :: nat
  lm_max_players :: nat
  lm_format_config :: "'f lobby_format option"
  lm_match_config :: 'm
  lm_room_name :: "string option"
  lm_host_peer_id :: string
  lm_draft_metadata :: "'d option"
  lm_ranked :: bool
  lm_reservations :: "(string, lobby_reservation) fmap"

record ('f, 'd) lobby_game =
  lg_game_code :: string
  lg_host_name :: string
  lg_created_at :: nat
  lg_has_password :: bool
  lg_host_version :: string
  lg_host_build_commit :: string
  lg_current_players :: nat
  lg_max_players :: nat
  lg_format :: "'f option"
  lg_room_name :: "string option"
  lg_is_p2p :: bool
  lg_is_sandbox :: bool
  lg_is_ranked :: bool
  lg_draft_metadata :: "'d option"

datatype ('f, 'd) listing_delta_t = ListingAdded "('f, 'd) lobby_game" | ListingUpdated "('f, 'd) lobby_game" | ListingRemoved | Unlisted

record ('f, 'm, 'd) lobby_manager =
  lb_games :: "(string, ('f, 'm, 'd) lobby_game_meta) fmap"
  lb_next_generation :: nat

section \<open>The manager\<close>

definition lobby_new :: "('f, 'm, 'd) lobby_manager" where
  "lobby_new = \<lparr>lb_games = fmempty, lb_next_generation = 0\<rparr>"

definition from_snapshot ::
  "((string, ('f, 'm, 'd) lobby_game_meta) fmap \<Rightarrow> string list) \<Rightarrow> (string, ('f, 'm, 'd) lobby_game_meta) fmap \<Rightarrow> nat
   \<Rightarrow> ('f, 'm, 'd) lobby_manager" where
  "from_snapshot keys_of games next_generation =
     (let games = fmmap (\<lambda>meta. meta\<lparr>lm_last_seen := max (lm_last_seen meta) (lm_created_at meta)\<rparr>) games;
          seeded = fold max (map (\<lambda>meta. add_u64 (lm_generation meta) 1) (List.map_filter (fmlookup games) (keys_of games))) 0
      in \<lparr>lb_games = games, lb_next_generation = max seeded next_generation\<rparr>)"

definition register_game ::
  "string \<Rightarrow> ('f, 'm, 'd) register_game_request \<Rightarrow> nat \<Rightarrow> ('f, 'm, 'd) lobby_manager \<Rightarrow> lobby_registration \<times> ('f, 'm, 'd) lobby_manager" where
  "register_game game_code req now_ms l =
     (let created_at = now_ms div 1000; generation = lb_next_generation l in
      (\<lparr>lr_game_code = game_code, lr_generation = generation\<rparr>,
       l\<lparr>lb_next_generation := add_u64 generation 1,
         lb_games := fmupd game_code
           \<lparr>lm_host_presence = Present, lm_host_name = rg_host_name req, lm_created_at = created_at, lm_last_seen = created_at,
            lm_generation = generation, lm_password = rg_password req, lm_has_password = (rg_password req \<noteq> None),
            lm_timer_seconds = rg_timer_seconds req, lm_public = rg_public req, lm_host_version = rg_host_version req,
            lm_host_build_commit = rg_host_build_commit req, lm_current_players = rg_current_players req,
            lm_max_players = rg_max_players req, lm_format_config = rg_format_config req, lm_match_config = rg_match_config req,
            lm_room_name = rg_room_name req, lm_host_peer_id = rg_host_peer_id req, lm_draft_metadata = rg_draft_metadata req,
            lm_ranked = rg_ranked req, lm_reservations = fmempty\<rparr> (lb_games l)\<rparr>))"

definition reservation_count :: "('f, 'm, 'd) lobby_game_meta \<Rightarrow> nat" where
  "reservation_count meta = fcard (fmdom (lm_reservations meta))"

definition cleanup_expired_for :: "nat \<Rightarrow> ('f, 'm, 'd) lobby_game_meta \<Rightarrow> bool \<times> ('f, 'm, 'd) lobby_game_meta" where
  "cleanup_expired_for now_ms meta =
     (let live = fmfilter (\<lambda>token. case fmlookup (lm_reservations meta) token of
            None \<Rightarrow> False
          | Some r \<Rightarrow> (case rv_expires_at_ms r of None \<Rightarrow> True | Some expires \<Rightarrow> now_ms < expires)) (lm_reservations meta);
          meta' = meta\<lparr>lm_reservations := live\<rparr>
      in (reservation_count meta \<noteq> reservation_count meta', meta'))"

definition modify_game ::
  "string \<Rightarrow> (('f, 'm, 'd) lobby_game_meta \<Rightarrow> ('f, 'm, 'd) lobby_game_meta) \<Rightarrow> ('f, 'm, 'd) lobby_manager \<Rightarrow> ('f, 'm, 'd) lobby_manager" where
  "modify_game game_code f l =
     (case fmlookup (lb_games l) game_code of None \<Rightarrow> l | Some meta \<Rightarrow> l\<lparr>lb_games := fmupd game_code (f meta) (lb_games l)\<rparr>)"

definition cleanup_expired_reservations :: "string \<Rightarrow> nat \<Rightarrow> ('f, 'm, 'd) lobby_manager \<Rightarrow> bool \<times> ('f, 'm, 'd) lobby_manager" where
  "cleanup_expired_reservations game_code now_ms l =
     (case fmlookup (lb_games l) game_code of
        None \<Rightarrow> (False, l)
      | Some meta \<Rightarrow> (fst (cleanup_expired_for now_ms meta), modify_game game_code (snd \<circ> cleanup_expired_for now_ms) l))"

definition occupied :: "('f, 'm, 'd) lobby_game_meta \<Rightarrow> nat" where
  "occupied meta = add_u32 (lm_current_players meta) (reservation_count meta mod 2 ^ 32)"

definition reserve_seat ::
  "string \<Rightarrow> string \<Rightarrow> nat \<Rightarrow> string \<Rightarrow> ('f, 'm, 'd) lobby_manager \<Rightarrow> (string, lobby_reservation) outcome \<times> ('f, 'm, 'd) lobby_manager" where
  "reserve_seat game_code display_name now_ms token l =
     (case fmlookup (lb_games l) game_code of
        None \<Rightarrow> (Err (''Game not found in lobby: '' @ game_code), l)
      | Some meta \<Rightarrow>
          let l = modify_game game_code (snd \<circ> cleanup_expired_for now_ms) l; meta = snd (cleanup_expired_for now_ms meta) in
          if 0 < lm_max_players meta \<and> lm_max_players meta \<le> occupied meta then (Err (''Game '' @ game_code @ '' is full''), l)
          else
            let r = \<lparr>rv_token = token, rv_display_name = display_name, rv_expires_at_ms = Some (add_u64 now_ms PUBLIC_SEAT_RESERVATION_MS)\<rparr> in
            (Ok r, modify_game game_code (\<lambda>meta. meta\<lparr>lm_reservations := fmupd token r (lm_reservations meta)\<rparr>) l))"

definition release_reservation :: "string \<Rightarrow> string \<Rightarrow> ('f, 'm, 'd) lobby_manager \<Rightarrow> bool \<times> ('f, 'm, 'd) lobby_manager" where
  "release_reservation game_code token l =
     (case fmlookup (lb_games l) game_code of
        None \<Rightarrow> (False, l)
      | Some meta \<Rightarrow>
          (fmlookup (lm_reservations meta) token \<noteq> None,
           modify_game game_code (\<lambda>meta. meta\<lparr>lm_reservations := fmdrop token (lm_reservations meta)\<rparr>) l))"

definition has_active_reservation :: "string \<Rightarrow> string \<Rightarrow> nat \<Rightarrow> ('f, 'm, 'd) lobby_manager \<Rightarrow> bool \<times> ('f, 'm, 'd) lobby_manager" where
  "has_active_reservation game_code token now_ms l =
     (case fmlookup (lb_games l) game_code of
        None \<Rightarrow> (False, l)
      | Some meta \<Rightarrow>
          (fmlookup (lm_reservations (snd (cleanup_expired_for now_ms meta))) token \<noteq> None,
           modify_game game_code (snd \<circ> cleanup_expired_for now_ms) l))"

fun release_reservations :: "(string \<times> string) list \<Rightarrow> ('f, 'm, 'd) lobby_manager \<Rightarrow> bool \<times> ('f, 'm, 'd) lobby_manager" where
  "release_reservations [] l = (False, l)"
| "release_reservations ((game_code, token) # rs) l =
     (case release_reservation game_code token l of (changed, l) \<Rightarrow>
        case release_reservations rs l of (changed', l) \<Rightarrow> (changed \<or> changed', l))"

definition consume_reservation :: "string \<Rightarrow> string \<Rightarrow> ('f, 'm, 'd) lobby_manager \<Rightarrow> bool \<times> ('f, 'm, 'd) lobby_manager" where
  "consume_reservation game_code token l =
     (case fmlookup (lb_games l) game_code of
        None \<Rightarrow> (False, l)
      | Some meta \<Rightarrow>
          if fmlookup (lm_reservations meta) token = None then (False, l)
          else (True, modify_game game_code (\<lambda>meta. meta\<lparr>lm_reservations := fmdrop token (lm_reservations meta),
                  lm_current_players := min (add_u32 (lm_current_players meta) 1) (lm_max_players meta)\<rparr>) l))"

definition seated_player_count :: "('f, 'm, 'd) lobby_manager \<Rightarrow> string \<Rightarrow> nat option" where
  "seated_player_count l game_code = map_option lm_current_players (fmlookup (lb_games l) game_code)"

definition set_current_players :: "string \<Rightarrow> nat \<Rightarrow> nat \<Rightarrow> ('f, 'm, 'd) lobby_manager \<Rightarrow> ('f, 'm, 'd) lobby_manager" where
  "set_current_players game_code current_players now_ms l =
     modify_game game_code (\<lambda>meta. (snd (cleanup_expired_for now_ms meta))\<lparr>lm_current_players := current_players\<rparr>) l"

definition set_max_players :: "string \<Rightarrow> nat \<Rightarrow> ('f, 'm, 'd) lobby_manager \<Rightarrow> ('f, 'm, 'd) lobby_manager" where
  "set_max_players game_code max_players l = modify_game game_code (\<lambda>meta. meta\<lparr>lm_max_players := max_players\<rparr>) l"

definition host_build_commit :: "('f, 'm, 'd) lobby_manager \<Rightarrow> string \<Rightarrow> string option" where
  "host_build_commit l game_code = map_option lm_host_build_commit (fmlookup (lb_games l) game_code)"

definition unregister_game :: "string \<Rightarrow> ('f, 'm, 'd) lobby_manager \<Rightarrow> ('f, 'm, 'd) lobby_manager" where
  "unregister_game game_code l = l\<lparr>lb_games := fmdrop game_code (lb_games l)\<rparr>"

definition verify_password :: "('f, 'm, 'd) lobby_manager \<Rightarrow> string \<Rightarrow> string option \<Rightarrow> (string, unit) outcome" where
  "verify_password l game_code password =
     (case fmlookup (lb_games l) game_code of
        None \<Rightarrow> Err (''Game not found in lobby: '' @ game_code)
      | Some meta \<Rightarrow>
          (case (lm_password meta, password) of
             (None, _) \<Rightarrow> Ok ()
           | (Some _, None) \<Rightarrow> Err ''password_required''
           | (Some expected, Some provided) \<Rightarrow> if expected = provided then Ok () else Err ''Wrong password''))"

definition meta_to_lobby_game :: "string \<Rightarrow> ('f, 'm, 'd) lobby_game_meta \<Rightarrow> ('f, 'd) lobby_game" where
  "meta_to_lobby_game game_code meta =
     \<lparr>lg_game_code = game_code, lg_host_name = lm_host_name meta, lg_created_at = lm_created_at meta, lg_has_password = lm_has_password meta,
      lg_host_version = lm_host_version meta, lg_host_build_commit = lm_host_build_commit meta,
      lg_current_players = min (occupied meta) (lm_max_players meta), lg_max_players = lm_max_players meta,
      lg_format = map_option lf_format (lm_format_config meta), lg_room_name = lm_room_name meta, lg_is_p2p = (lm_host_peer_id meta \<noteq> []),
      lg_is_sandbox = (case lm_format_config meta of None \<Rightarrow> False | Some fc \<Rightarrow> lf_allow_debug_actions fc), lg_is_ranked = lm_ranked meta,
      lg_draft_metadata = lm_draft_metadata meta\<rparr>"

definition listed :: "('f, 'm, 'd) lobby_game_meta \<Rightarrow> bool" where
  "listed meta \<longleftrightarrow> lm_public meta \<and> lm_host_presence meta = Present"

definition public_game :: "('f, 'm, 'd) lobby_manager \<Rightarrow> string \<Rightarrow> ('f, 'd) lobby_game option" where
  "public_game l game_code =
     (case fmlookup (lb_games l) game_code of
        None \<Rightarrow> None
      | Some meta \<Rightarrow> if \<not> listed meta then None else Some (meta_to_lobby_game game_code meta))"

definition public_games ::
  "((string, ('f, 'm, 'd) lobby_game_meta) fmap \<Rightarrow> string list) \<Rightarrow> ('f, 'm, 'd) lobby_manager \<Rightarrow> ('f, 'd) lobby_game list" where
  "public_games keys_of l =
     List.map_filter (\<lambda>code. case fmlookup (lb_games l) code of
        None \<Rightarrow> None | Some meta \<Rightarrow> if listed meta then Some (meta_to_lobby_game code meta) else None) (keys_of (lb_games l))"

definition listing_delta ::
  "string \<Rightarrow> (('f, 'm, 'd) lobby_manager \<Rightarrow> ('f, 'm, 'd) lobby_manager) \<Rightarrow> ('f, 'm, 'd) lobby_manager
   \<Rightarrow> ('f, 'd) listing_delta_t \<times> ('f, 'm, 'd) lobby_manager" where
  "listing_delta game_code mutate l =
     (let before = public_game l game_code \<noteq> None; l = mutate l in
      (case (before, public_game l game_code) of
         (True, None) \<Rightarrow> ListingRemoved
       | (False, Some g) \<Rightarrow> ListingAdded g
       | (True, Some g) \<Rightarrow> ListingUpdated g
       | (False, None) \<Rightarrow> Unlisted, l))"

definition mark_host_away :: "string \<Rightarrow> ('f, 'm, 'd) lobby_manager \<Rightarrow> ('f, 'm, 'd) lobby_manager" where
  "mark_host_away game_code l = modify_game game_code (\<lambda>meta. meta\<lparr>lm_host_presence := Away\<rparr>) l"

definition mark_host_returned :: "string \<Rightarrow> string \<Rightarrow> string \<Rightarrow> ('f, 'm, 'd) lobby_manager \<Rightarrow> ('f, 'm, 'd) lobby_manager" where
  "mark_host_returned game_code version commit l =
     modify_game game_code (\<lambda>meta. meta\<lparr>lm_host_presence := Present, lm_host_version := version, lm_host_build_commit := commit\<rparr>) l"

definition has_game :: "('f, 'm, 'd) lobby_manager \<Rightarrow> string \<Rightarrow> bool" where
  "has_game l game_code \<longleftrightarrow> fmlookup (lb_games l) game_code \<noteq> None"

definition lobby_len :: "('f, 'm, 'd) lobby_manager \<Rightarrow> nat" where
  "lobby_len l = fcard (fmdom (lb_games l))"

definition lobby_is_empty :: "('f, 'm, 'd) lobby_manager \<Rightarrow> bool" where
  "lobby_is_empty l \<longleftrightarrow> fmdom (lb_games l) = {||}"

definition join_target_info :: "('f, 'm, 'd) lobby_manager \<Rightarrow> string \<Rightarrow> ('f, 'm, 'd) join_target_info_t option" where
  "join_target_info l game_code =
     map_option (\<lambda>meta. \<lparr>jt_host_peer_id = lm_host_peer_id meta, jt_max_players = lm_max_players meta,
       jt_current_players = min (occupied meta) (lm_max_players meta), jt_format_config = lm_format_config meta,
       jt_match_config = lm_match_config meta, jt_is_p2p = (lm_host_peer_id meta \<noteq> []), jt_reservation_token = None,
       jt_reservation_expires_at_ms = None, jt_draft_metadata = lm_draft_metadata meta\<rparr>) (fmlookup (lb_games l) game_code)"

definition timer_seconds :: "('f, 'm, 'd) lobby_manager \<Rightarrow> string \<Rightarrow> nat option" where
  "timer_seconds l game_code = Option.bind (fmlookup (lb_games l) game_code) lm_timer_seconds"

definition check_expired ::
  "((string, ('f, 'm, 'd) lobby_game_meta) fmap \<Rightarrow> string list) \<Rightarrow> nat \<Rightarrow> nat \<Rightarrow> ('f, 'm, 'd) lobby_manager \<Rightarrow> lobby_registration list" where
  "check_expired keys_of timeout_secs now_ms l =
     (let now = now_ms div 1000 in
      List.map_filter (\<lambda>code. case fmlookup (lb_games l) code of
        None \<Rightarrow> None
      | Some meta \<Rightarrow> if timeout_secs < now - lm_last_seen meta
          then Some \<lparr>lr_game_code = code, lr_generation = lm_generation meta\<rparr> else None) (keys_of (lb_games l)))"

definition is_current :: "('f, 'm, 'd) lobby_manager \<Rightarrow> lobby_registration \<Rightarrow> bool" where
  "is_current l registration =
     (case fmlookup (lb_games l) (lr_game_code registration) of None \<Rightarrow> False | Some meta \<Rightarrow> lm_generation meta = lr_generation registration)"

definition unregister_registration :: "lobby_registration \<Rightarrow> ('f, 'm, 'd) lobby_manager \<Rightarrow> bool \<times> ('f, 'm, 'd) lobby_manager" where
  "unregister_registration registration l =
     (let current = is_current l registration in (current, if current then unregister_game (lr_game_code registration) l else l))"

definition unregister_expired :: "lobby_registration \<Rightarrow> ('f, 'm, 'd) lobby_manager \<Rightarrow> expiry_consumption \<times> ('f, 'm, 'd) lobby_manager" where
  "unregister_expired expired l =
     (case unregister_registration expired l of (removed, l) \<Rightarrow>
        (if removed then Removed else if has_game l (lr_game_code expired) then Superseded else AlreadyGone, l))"

definition liveness_refresh_due :: "('f, 'm, 'd) lobby_manager \<Rightarrow> lobby_registration \<Rightarrow> nat \<Rightarrow> bool" where
  "liveness_refresh_due l registration now_ms \<longleftrightarrow>
     is_current l registration
   \<and> (case fmlookup (lb_games l) (lr_game_code registration) of
        None \<Rightarrow> False | Some meta \<Rightarrow> LIVENESS_REFRESH_SECS \<le> now_ms div 1000 - lm_last_seen meta)"

definition refresh_liveness :: "lobby_registration \<Rightarrow> nat \<Rightarrow> ('f, 'm, 'd) lobby_manager \<Rightarrow> bool \<times> ('f, 'm, 'd) lobby_manager" where
  "refresh_liveness registration now_ms l =
     (if \<not> liveness_refresh_due l registration now_ms then (False, l)
      else (True, modify_game (lr_game_code registration) (\<lambda>meta. meta\<lparr>lm_last_seen := now_ms div 1000\<rparr>) l))"

section \<open>Owned reservations\<close>

datatype reservation_release = Released | ReleaseNotHeld | ReleaseNotFound

datatype reservation_consume = Consumed | ConsumeNotHeld | ConsumeNotFound

definition conn_holds_reservation :: "(string \<times> string) list \<Rightarrow> string \<Rightarrow> string \<Rightarrow> bool" where
  "conn_holds_reservation reservations game_code token \<longleftrightarrow> (game_code, token) \<in> set reservations"

definition release_owned_reservation ::
  "(string \<times> string) list \<Rightarrow> string \<Rightarrow> string \<Rightarrow> ('f, 'm, 'd) lobby_manager
   \<Rightarrow> (reservation_release \<times> (string \<times> string) list) \<times> ('f, 'm, 'd) lobby_manager" where
  "release_owned_reservation reservations game_code token l =
     (if \<not> conn_holds_reservation reservations game_code token then ((ReleaseNotHeld, reservations), l)
      else case release_reservation game_code token l of (done_, l) \<Rightarrow>
        if done_ then ((Released, filter (\<lambda>(code, t). code \<noteq> game_code \<or> t \<noteq> token) reservations), l)
        else ((ReleaseNotFound, reservations), l))"

definition consume_owned_reservation ::
  "(string \<times> string) list \<Rightarrow> string \<Rightarrow> string \<Rightarrow> ('f, 'm, 'd) lobby_manager
   \<Rightarrow> (reservation_consume \<times> (string \<times> string) list) \<times> ('f, 'm, 'd) lobby_manager" where
  "consume_owned_reservation reservations game_code token l =
     (if \<not> conn_holds_reservation reservations game_code token then ((ConsumeNotHeld, reservations), l)
      else case consume_reservation game_code token l of (done_, l) \<Rightarrow>
        if done_ then ((Consumed, filter (\<lambda>(code, t). code \<noteq> game_code \<or> t \<noteq> token) reservations), l)
        else ((ConsumeNotFound, reservations), l))"


section \<open>Runs\<close>

text \<open>The calls that change a lobby, as one step function, and the condition that the head counts a
  host reports fit the room: the lobby takes the host's word for them.\<close>

datatype ('f, 'm, 'd) lobby_call =
    Register string "('f, 'm, 'd) register_game_request" nat
  | Reserve string string nat string
  | Release string string
  | Probe string string nat
  | Cleanup string nat
  | Consume string string
  | SetCurrent string nat nat
  | SetMax string nat
  | HostAway string
  | HostReturned string string string
  | Refresh lobby_registration nat
  | Unregister string
  | UnregisterExpired lobby_registration

primrec lobby_step :: "('f, 'm, 'd) lobby_call \<Rightarrow> ('f, 'm, 'd) lobby_manager \<Rightarrow> ('f, 'm, 'd) lobby_manager" where
  "lobby_step (Register code req now) l = snd (register_game code req now l)"
| "lobby_step (Reserve code name now token) l = snd (reserve_seat code name now token l)"
| "lobby_step (Release code token) l = snd (release_reservation code token l)"
| "lobby_step (Probe code token now) l = snd (has_active_reservation code token now l)"
| "lobby_step (Cleanup code now) l = snd (cleanup_expired_reservations code now l)"
| "lobby_step (Consume code token) l = snd (consume_reservation code token l)"
| "lobby_step (SetCurrent code n now) l = set_current_players code n now l"
| "lobby_step (SetMax code n) l = set_max_players code n l"
| "lobby_step (HostAway code) l = mark_host_away code l"
| "lobby_step (HostReturned code version commit) l = mark_host_returned code version commit l"
| "lobby_step (Refresh registration now) l = snd (refresh_liveness registration now l)"
| "lobby_step (Unregister code) l = unregister_game code l"
| "lobby_step (UnregisterExpired registration) l = snd (unregister_expired registration l)"

abbreviation lobby_run :: "('f, 'm, 'd) lobby_call list \<Rightarrow> ('f, 'm, 'd) lobby_manager \<Rightarrow> ('f, 'm, 'd) lobby_manager" where
  "lobby_run \<equiv> fold lobby_step"

definition seats_fit :: "nat \<Rightarrow> nat \<Rightarrow> nat \<Rightarrow> bool" where
  "seats_fit seated reserved seats \<longleftrightarrow> (0 < seats \<longrightarrow> seated + reserved \<le> seats) \<and> seats < 2 ^ 32"

fun report_fits :: "('f, 'm, 'd) lobby_call \<Rightarrow> ('f, 'm, 'd) lobby_manager \<Rightarrow> bool" where
  "report_fits (Register code req now) l = seats_fit (rg_current_players req) 0 (rg_max_players req)"
| "report_fits (SetCurrent code n now) l =
     (case fmlookup (lb_games l) code of
        None \<Rightarrow> True | Some meta \<Rightarrow> seats_fit n (reservation_count (snd (cleanup_expired_for now meta))) (lm_max_players meta))"
| "report_fits (SetMax code n) l =
     (case fmlookup (lb_games l) code of
        None \<Rightarrow> True | Some meta \<Rightarrow> seats_fit (lm_current_players meta) (reservation_count meta) n)"
| "report_fits _ l = True"

primrec reports_fit :: "('f, 'm, 'd) lobby_call list \<Rightarrow> ('f, 'm, 'd) lobby_manager \<Rightarrow> bool" where
  "reports_fit [] l = True"
| "reports_fit (c # cs) l = (report_fits c l \<and> reports_fit cs (lobby_step c l))"

section \<open>Seats\<close>

lemma modify_game_lookup:
  "fmlookup (lb_games (modify_game code f l)) c = (if c = code then map_option f (fmlookup (lb_games l) c) else fmlookup (lb_games l) c)"
  by (auto simp: modify_game_def split: option.split)

lemma modify_game_generation [simp]: "lb_next_generation (modify_game code f l) = lb_next_generation l"
  by (auto simp: modify_game_def split: option.split)

lemma reservation_count_drop: "reservation_count (meta\<lparr>lm_reservations := fmdrop token (lm_reservations meta)\<rparr>) \<le> reservation_count meta"
  by (auto simp: reservation_count_def intro!: fcard_mono)

lemma reservation_count_drop_held:
  assumes "fmlookup (lm_reservations meta) token = Some r"
  shows "reservation_count meta = Suc (reservation_count (meta\<lparr>lm_reservations := fmdrop token (lm_reservations meta)\<rparr>))"
proof -
  have "token |\<in>| fmdom (lm_reservations meta)" using assms by (rule fmdomI)
  then show ?thesis using fcard_Suc_fminus1 [of token "fmdom (lm_reservations meta)"] by (simp add: reservation_count_def)
qed

lemma reservation_count_cleanup: "reservation_count (snd (cleanup_expired_for now meta)) \<le> reservation_count meta"
  unfolding reservation_count_def cleanup_expired_for_def Let_def by (rule fcard_mono) (auto simp: fmdom_filter)

lemma cleanup_fields [simp]:
  "lm_current_players (snd (cleanup_expired_for now meta)) = lm_current_players meta"
  "lm_max_players (snd (cleanup_expired_for now meta)) = lm_max_players meta"
  "lm_generation (snd (cleanup_expired_for now meta)) = lm_generation meta"
  "lm_created_at (snd (cleanup_expired_for now meta)) = lm_created_at meta"
  "lm_last_seen (snd (cleanup_expired_for now meta)) = lm_last_seen meta"
  by (simp_all add: cleanup_expired_for_def Let_def)

lemma reservation_count_insert:
  "reservation_count (meta\<lparr>lm_reservations := fmupd token r (lm_reservations meta)\<rparr>) \<le> Suc (reservation_count meta)"
  by (simp add: reservation_count_def fcard_finsert_if)

definition meta_fits :: "('f, 'm, 'd) lobby_game_meta \<Rightarrow> bool" where
  "meta_fits meta \<longleftrightarrow> seats_fit (lm_current_players meta) (reservation_count meta) (lm_max_players meta)"

definition lobby_fits :: "('f, 'm, 'd) lobby_manager \<Rightarrow> bool" where
  "lobby_fits l \<longleftrightarrow> (\<forall>code meta. fmlookup (lb_games l) code = Some meta \<longrightarrow> meta_fits meta)"

lemma lobby_fits_modify:
  assumes "lobby_fits l" and "\<And>meta. fmlookup (lb_games l) code = Some meta \<Longrightarrow> meta_fits meta \<Longrightarrow> meta_fits (f meta)"
  shows "lobby_fits (modify_game code f l)"
  using assms by (fastforce simp: lobby_fits_def modify_game_lookup split: if_splits)

lemma occupied_exact: "meta_fits meta \<Longrightarrow> 0 < lm_max_players meta \<Longrightarrow> occupied meta = lm_current_players meta + reservation_count meta"
  by (simp add: meta_fits_def seats_fit_def occupied_def add_u32_def)

lemma cleanup_fits [intro]: "meta_fits meta \<Longrightarrow> meta_fits (snd (cleanup_expired_for now meta))"
  using reservation_count_cleanup [of now meta] by (auto simp: meta_fits_def seats_fit_def)

lemma release_fits: "meta_fits meta \<Longrightarrow> meta_fits (meta\<lparr>lm_reservations := fmdrop token (lm_reservations meta)\<rparr>)"
  using reservation_count_drop [of token meta] by (auto simp: meta_fits_def seats_fit_def)

lemma consume_fits:
  assumes "meta_fits meta" "fmlookup (lm_reservations meta) token = Some r" "0 < lm_max_players meta"
  shows "min (add_u32 (lm_current_players meta) 1) (lm_max_players meta) = Suc (lm_current_players meta)"
  using assms reservation_count_drop_held [OF assms(2)] by (simp add: meta_fits_def seats_fit_def add_u32_def)

lemma reservation_count_frame [simp]:
  "reservation_count (meta\<lparr>lm_current_players := n\<rparr>) = reservation_count meta"
  "reservation_count (meta\<lparr>lm_max_players := n\<rparr>) = reservation_count meta"
  "reservation_count (meta\<lparr>lm_host_presence := p\<rparr>) = reservation_count meta"
  "reservation_count (meta\<lparr>lm_host_version := v\<rparr>) = reservation_count meta"
  "reservation_count (meta\<lparr>lm_host_build_commit := v\<rparr>) = reservation_count meta"
  "reservation_count (meta\<lparr>lm_last_seen := t\<rparr>) = reservation_count meta"
  by (simp_all add: reservation_count_def)

lemma cleanup_lobby_fits: "lobby_fits l \<Longrightarrow> lobby_fits (modify_game code (snd \<circ> cleanup_expired_for now) l)"
  by (rule lobby_fits_modify) auto

lemma reserve_fits:
  assumes "lobby_fits l" shows "lobby_fits (snd (reserve_seat code name now token l))"
proof (cases "fmlookup (lb_games l) code")
  case None then show ?thesis using assms by (simp add: reserve_seat_def)
next
  case (Some meta)
  let ?l = "modify_game code (snd \<circ> cleanup_expired_for now) l" and ?meta = "snd (cleanup_expired_for now meta)"
  have l: "lobby_fits ?l" using assms by (rule cleanup_lobby_fits)
  have m: "fmlookup (lb_games ?l) code = Some ?meta" using Some by (simp add: modify_game_lookup)
  have f: "meta_fits ?meta" using Some assms by (auto simp: lobby_fits_def)
  have "lobby_fits (modify_game code (\<lambda>meta. meta\<lparr>lm_reservations := fmupd token r (lm_reservations meta)\<rparr>) ?l)"
    if room: "\<not> (0 < lm_max_players ?meta \<and> lm_max_players ?meta \<le> occupied ?meta)" for r
  proof (rule lobby_fits_modify [OF l])
    fix meta' assume "fmlookup (lb_games ?l) code = Some meta'"
    then have "meta' = ?meta" using m by simp
    then show "meta_fits (meta'\<lparr>lm_reservations := fmupd token r (lm_reservations meta')\<rparr>)"
      using room f occupied_exact [OF f] reservation_count_insert [of token r ?meta]
      by (auto simp: meta_fits_def seats_fit_def)
  qed
  then show ?thesis using Some l by (simp add: reserve_seat_def Let_def)
qed

lemma consume_lobby_fits:
  assumes "lobby_fits l" shows "lobby_fits (snd (consume_reservation code token l))"
proof (cases "Option.bind (fmlookup (lb_games l) code) (\<lambda>meta. fmlookup (lm_reservations meta) token)")
  case None then show ?thesis using assms by (auto simp: consume_reservation_def bind_eq_None_conv split: option.split)
next
  case (Some r)
  then obtain meta where m: "fmlookup (lb_games l) code = Some meta" and r: "fmlookup (lm_reservations meta) token = Some r"
    by (auto simp: bind_eq_Some_conv)
  have f: "meta_fits meta" using assms m by (auto simp: lobby_fits_def)
  have "meta_fits (meta\<lparr>lm_reservations := fmdrop token (lm_reservations meta),
      lm_current_players := min (add_u32 (lm_current_players meta) 1) (lm_max_players meta)\<rparr>)"
    using consume_fits [OF f r] reservation_count_drop_held [OF r] f by (auto simp: meta_fits_def seats_fit_def)
  then show ?thesis using m r by (auto simp: consume_reservation_def intro: lobby_fits_modify [OF assms])
qed

lemma lobby_step_fits:
  assumes "lobby_fits l" "report_fits c l"
  shows "lobby_fits (lobby_step c l)"
proof (cases c)
  case (Register code req now)
  then show ?thesis using assms by (auto simp: register_game_def Let_def lobby_fits_def meta_fits_def reservation_count_def fcard_fempty)
next
  case (Reserve code name now token) then show ?thesis using reserve_fits [OF assms(1)] by simp
next
  case (Release code token)
  then show ?thesis using assms by (auto simp: release_reservation_def split: option.split intro: lobby_fits_modify release_fits)
next
  case (Probe code token now)
  then show ?thesis using assms by (auto simp: has_active_reservation_def cleanup_lobby_fits split: option.split)
next
  case (Cleanup code now)
  then show ?thesis using assms by (auto simp: cleanup_expired_reservations_def cleanup_lobby_fits split: option.split)
next
  case (Consume code token) then show ?thesis using consume_lobby_fits [OF assms(1)] by simp
next
  case (SetCurrent code n now)
  then show ?thesis using assms by (auto simp: set_current_players_def meta_fits_def intro!: lobby_fits_modify)
next
  case (SetMax code n)
  then show ?thesis using assms by (auto simp: set_max_players_def meta_fits_def intro!: lobby_fits_modify)
next
  case (HostAway code)
  then show ?thesis using assms by (auto simp: mark_host_away_def meta_fits_def intro!: lobby_fits_modify)
next
  case (HostReturned code version commit)
  then show ?thesis using assms by (auto simp: mark_host_returned_def meta_fits_def intro!: lobby_fits_modify)
next
  case (Refresh registration now)
  then show ?thesis using assms by (auto simp: refresh_liveness_def meta_fits_def intro!: lobby_fits_modify)
next
  case (Unregister code)
  then show ?thesis using assms by (auto simp: unregister_game_def lobby_fits_def)
next
  case (UnregisterExpired registration)
  then show ?thesis using assms
    by (auto simp: unregister_expired_def unregister_registration_def unregister_game_def lobby_fits_def Let_def split: if_splits)
qed

lemma lobby_run_fits: "reports_fit cs l \<Longrightarrow> lobby_fits l \<Longrightarrow> lobby_fits (lobby_run cs l)"
  by (induction cs arbitrary: l) (auto simp: lobby_step_fits)


lemma lobby_new_fits: "lobby_fits lobby_new"
  by (simp add: lobby_new_def lobby_fits_def)

definition active_tokens :: "nat \<Rightarrow> ('f, 'm, 'd) lobby_game_meta \<Rightarrow> string fset" where
  "active_tokens now meta = ffilter (\<lambda>token. case fmlookup (lm_reservations meta) token of
     None \<Rightarrow> False | Some r \<Rightarrow> (case rv_expires_at_ms r of None \<Rightarrow> True | Some expires \<Rightarrow> now < expires)) (fmdom (lm_reservations meta))"

lemma cleanup_live: "reservation_count (snd (cleanup_expired_for now meta)) = fcard (active_tokens now meta)"
  by (simp add: cleanup_expired_for_def Let_def reservation_count_def active_tokens_def fmdom_filter)

lemma reserve_seat_result:
  assumes "lobby_fits l" "fmlookup (lb_games l) code = Some meta"
  shows "fst (reserve_seat code name now token l) =
     (if 0 < lm_max_players meta \<and> lm_max_players meta \<le> lm_current_players meta + fcard (active_tokens now meta)
      then Err (''Game '' @ code @ '' is full'')
      else Ok \<lparr>rv_token = token, rv_display_name = name, rv_expires_at_ms = Some (add_u64 now PUBLIC_SEAT_RESERVATION_MS)\<rparr>)"
proof -
  have "meta_fits (snd (cleanup_expired_for now meta))" using assms by (auto simp: lobby_fits_def)
  from occupied_exact [OF this] show ?thesis using assms(2) by (auto simp: reserve_seat_def Let_def cleanup_live)
qed

lemma reserve_seat_meta:
  assumes "reserve_seat code name now token l = (Ok r, l')"
  obtains meta where "fmlookup (lb_games l) code = Some meta"
    "fmlookup (lb_games l') code = Some ((snd (cleanup_expired_for now meta))
       \<lparr>lm_reservations := fmupd token r (lm_reservations (snd (cleanup_expired_for now meta)))\<rparr>)"
    "rv_expires_at_ms r = Some (add_u64 now PUBLIC_SEAT_RESERVATION_MS)"
  using assms by (auto simp: reserve_seat_def Let_def modify_game_lookup split: option.splits if_splits)

lemma has_active_result:
  "fst (has_active_reservation code token now l) \<longleftrightarrow>
     (\<exists>meta. fmlookup (lb_games l) code = Some meta \<and> token |\<in>| active_tokens now meta)"
  by (auto simp: has_active_reservation_def cleanup_expired_for_def Let_def active_tokens_def split: option.splits intro: fmdomI)

lemma reserved_until_expiry:
  assumes "reserve_seat code name now token l = (Ok r, l')" "now + PUBLIC_SEAT_RESERVATION_MS < 2 ^ 64"
  shows "fst (has_active_reservation code token later l') \<longleftrightarrow> later < now + PUBLIC_SEAT_RESERVATION_MS"
proof -
  obtain meta where m: "fmlookup (lb_games l') code = Some ((snd (cleanup_expired_for now meta))
       \<lparr>lm_reservations := fmupd token r (lm_reservations (snd (cleanup_expired_for now meta)))\<rparr>)"
    and r: "rv_expires_at_ms r = Some (add_u64 now PUBLIC_SEAT_RESERVATION_MS)"
    using assms(1) by (rule reserve_seat_meta)
  show ?thesis using m r assms(2) by (simp add: has_active_result active_tokens_def)
qed

lemma consume_held:
  assumes "lobby_fits l" "fmlookup (lb_games l) code = Some meta" "fmlookup (lm_reservations meta) token = Some r" "0 < lm_max_players meta"
  shows "\<exists>meta'. fst (consume_reservation code token l) \<and> fmlookup (lb_games (snd (consume_reservation code token l))) code = Some meta'
     \<and> lm_current_players meta' = Suc (lm_current_players meta) \<and> reservation_count meta = Suc (reservation_count meta')"
proof -
  have "meta_fits meta" using assms by (auto simp: lobby_fits_def)
  from consume_fits [OF this assms(3,4)] show ?thesis using assms(2,3) reservation_count_drop_held [OF assms(3)]
    by (simp add: consume_reservation_def modify_game_lookup)
qed

text \<open>
  C34. Seats are never oversold. In every lobby reached by any calls, as long as the head counts
  hosts report fit their rooms, a room with a player limit has at most that many seated players and
  reservations together, and its listing shows exactly that number; a reservation is granted
  exactly when a seat is neither taken nor held by an unexpired reservation, and it is active for
  the next two minutes and no longer; consuming a held reservation always succeeds and turns it
  into a seat, leaving the occupancy as it was.
\<close>

theorem seats_never_oversold:
  assumes "reports_fit cs lobby_new"
    and "fmlookup (lb_games (lobby_run cs lobby_new)) code = Some meta"
    and "now + PUBLIC_SEAT_RESERVATION_MS < 2 ^ 64"
  shows "(0 < lm_max_players meta \<longrightarrow>
            lm_current_players meta + reservation_count meta \<le> lm_max_players meta
          \<and> lg_current_players (meta_to_lobby_game code meta) = lm_current_players meta + reservation_count meta)
       \<and> fst (reserve_seat code name now token (lobby_run cs lobby_new)) =
           (if 0 < lm_max_players meta \<and> lm_max_players meta \<le> lm_current_players meta + fcard (active_tokens now meta)
            then Err (''Game '' @ code @ '' is full'')
            else Ok \<lparr>rv_token = token, rv_display_name = name, rv_expires_at_ms = Some (now + PUBLIC_SEAT_RESERVATION_MS)\<rparr>)
       \<and> (\<forall>r l'. reserve_seat code name now token (lobby_run cs lobby_new) = (Ok r, l') \<longrightarrow>
            (\<forall>later. fst (has_active_reservation code token later l') \<longleftrightarrow> later < now + PUBLIC_SEAT_RESERVATION_MS))
       \<and> (\<forall>held. 0 < lm_max_players meta \<and> fmlookup (lm_reservations meta) held \<noteq> None \<longrightarrow>
            (\<exists>meta'. fst (consume_reservation code held (lobby_run cs lobby_new))
               \<and> fmlookup (lb_games (snd (consume_reservation code held (lobby_run cs lobby_new)))) code = Some meta'
               \<and> lm_current_players meta' = Suc (lm_current_players meta) \<and> reservation_count meta = Suc (reservation_count meta')))"
proof (intro conjI allI impI)
  have f: "lobby_fits (lobby_run cs lobby_new)" using lobby_run_fits [OF assms(1) lobby_new_fits] .
  then have m: "meta_fits meta" using assms(2) by (auto simp: lobby_fits_def)
  show "fst (reserve_seat code name now token (lobby_run cs lobby_new)) =
           (if 0 < lm_max_players meta \<and> lm_max_players meta \<le> lm_current_players meta + fcard (active_tokens now meta)
            then Err (''Game '' @ code @ '' is full'')
            else Ok \<lparr>rv_token = token, rv_display_name = name, rv_expires_at_ms = Some (now + PUBLIC_SEAT_RESERVATION_MS)\<rparr>)"
    using reserve_seat_result [OF f assms(2)] assms(3) by simp
  show "lm_current_players meta + reservation_count meta \<le> lm_max_players meta" if "0 < lm_max_players meta"
    using that m by (simp add: meta_fits_def seats_fit_def)
  then show "lg_current_players (meta_to_lobby_game code meta) = lm_current_players meta + reservation_count meta" if "0 < lm_max_players meta"
    using that occupied_exact [OF m] by (simp add: meta_to_lobby_game_def)
  show "\<exists>meta'. fst (consume_reservation code held (lobby_run cs lobby_new))
               \<and> fmlookup (lb_games (snd (consume_reservation code held (lobby_run cs lobby_new)))) code = Some meta'
               \<and> lm_current_players meta' = Suc (lm_current_players meta) \<and> reservation_count meta = Suc (reservation_count meta')"
    if "0 < lm_max_players meta \<and> fmlookup (lm_reservations meta) held \<noteq> None" for held
    using that consume_held [OF f assms(2)] by blast
  show "fst (has_active_reservation code token later l') \<longleftrightarrow> later < now + PUBLIC_SEAT_RESERVATION_MS"
    if "reserve_seat code name now token (lobby_run cs lobby_new) = (Ok r, l')" for r l' later
    using reserved_until_expiry [OF that assms(3)] .
qed

text \<open>A two-seat room whose host is seated and whose second seat is reserved: a further request is refused.\<close>

definition sample_request :: "(unit, unit, unit) register_game_request" where
  "sample_request = \<lparr>rg_host_name = ''Ada'', rg_public = True, rg_password = None, rg_timer_seconds = None, rg_host_version = ''1'',
     rg_host_build_commit = ''c'', rg_current_players = 1, rg_max_players = 2, rg_format_config = None, rg_match_config = (),
     rg_room_name = None, rg_host_peer_id = [], rg_draft_metadata = None, rg_ranked = False\<rparr>"

lemma sample_room:
  "reports_fit [Register ''G'' sample_request 5000, Reserve ''G'' ''Bob'' 6000 ''t''] lobby_new"
  "\<exists>meta. fmlookup (lb_games (lobby_run [Register ''G'' sample_request 5000, Reserve ''G'' ''Bob'' 6000 ''t''] lobby_new)) ''G'' = Some meta
     \<and> lm_max_players meta = 2 \<and> lm_current_players meta = 1 \<and> active_tokens 7000 meta = {|''t''|}"
  by (simp_all add: sample_request_def seats_fit_def register_game_def reserve_seat_def cleanup_expired_for_def modify_game_lookup
      lobby_new_def active_tokens_def PUBLIC_SEAT_RESERVATION_MS_def Let_def occupied_def reservation_count_def fcard_fempty add_u32_def fset_eq_iff)

theorem seats_never_oversold_witness:
  "fst (reserve_seat ''G'' ''Cy'' 7000 ''u''
     (lobby_run [Register ''G'' sample_request 5000, Reserve ''G'' ''Bob'' 6000 ''t''] lobby_new)) = Err ''Game G is full''"
proof -
  obtain meta where m: "fmlookup (lb_games (lobby_run [Register ''G'' sample_request 5000, Reserve ''G'' ''Bob'' 6000 ''t''] lobby_new)) ''G'' = Some meta"
      "lm_max_players meta = 2" "lm_current_players meta = 1" "active_tokens 7000 meta = {|''t''|}"
    using sample_room(2) by auto
  have "(7000 :: nat) + PUBLIC_SEAT_RESERVATION_MS < 2 ^ 64" by (simp add: PUBLIC_SEAT_RESERVATION_MS_def)
  from seats_never_oversold [OF sample_room(1) m(1) this, of "''Cy''" "''u''"] show ?thesis using m(2-4) by (simp add: fcard_finsert_if fcard_fempty)
qed

section \<open>Identity of registrations\<close>

lemma step_next_generation:
  "lb_next_generation (lobby_step c l) = (case c of Register _ _ _ \<Rightarrow> add_u64 (lb_next_generation l) 1 | _ \<Rightarrow> lb_next_generation l)"
  by (cases c)
    (auto simp: register_game_def reserve_seat_def release_reservation_def has_active_reservation_def cleanup_expired_reservations_def
      consume_reservation_def set_current_players_def set_max_players_def mark_host_away_def mark_host_returned_def refresh_liveness_def
      unregister_game_def unregister_expired_def unregister_registration_def Let_def split: option.split prod.split)

definition same_listing :: "('f, 'm, 'd) lobby_game_meta \<Rightarrow> ('f, 'm, 'd) lobby_game_meta \<Rightarrow> bool" where
  "same_listing meta meta' \<longleftrightarrow>
     lm_generation meta' = lm_generation meta \<and> lm_created_at meta' = lm_created_at meta \<and> lm_last_seen meta \<le> lm_last_seen meta'"

lemma same_listing_refl [simp]: "same_listing meta meta"
  by (simp add: same_listing_def)

lemma modify_same_listing:
  assumes "fmlookup (lb_games (modify_game c f l)) code = Some meta'"
    and "\<And>meta. fmlookup (lb_games l) c = Some meta \<Longrightarrow> same_listing meta (f meta)"
  shows "\<exists>meta. fmlookup (lb_games l) code = Some meta \<and> same_listing meta meta'"
  using assms by (auto simp: modify_game_lookup split: if_splits)

lemma reserve_same_listing:
  assumes "fmlookup (lb_games (snd (reserve_seat c name now token l))) code = Some meta'"
  shows "\<exists>meta. fmlookup (lb_games l) code = Some meta \<and> same_listing meta meta'"
  using assms by (auto simp: reserve_seat_def Let_def modify_game_lookup same_listing_def split: option.splits if_splits)

lemma step_lookup:
  assumes "fmlookup (lb_games (lobby_step c l)) code = Some meta'"
  shows "(\<exists>meta. fmlookup (lb_games l) code = Some meta \<and> same_listing meta meta')
       \<or> (\<exists>req now. c = Register code req now) \<and> lm_generation meta' = lb_next_generation l \<and> lm_created_at meta' = lm_last_seen meta'"
proof (cases c)
  case (Register c' req now)
  then show ?thesis using assms by (auto simp: register_game_def Let_def split: if_splits)
next
  case (Reserve c' name now token) then show ?thesis using assms reserve_same_listing by auto
next
  case (Release c' token)
  then show ?thesis using assms by (auto simp: release_reservation_def same_listing_def split: option.splits dest!: modify_same_listing)
next
  case (Probe c' token now)
  then show ?thesis using assms by (auto simp: has_active_reservation_def same_listing_def split: option.splits dest!: modify_same_listing)
next
  case (Cleanup c' now)
  then show ?thesis using assms by (auto simp: cleanup_expired_reservations_def same_listing_def split: option.splits dest!: modify_same_listing)
next
  case (Consume c' token)
  then show ?thesis using assms by (auto simp: consume_reservation_def same_listing_def split: option.splits if_splits dest!: modify_same_listing)
next
  case (SetCurrent c' n now)
  then show ?thesis using assms by (auto simp: set_current_players_def same_listing_def dest!: modify_same_listing)
next
  case (SetMax c' n)
  then show ?thesis using assms by (auto simp: set_max_players_def same_listing_def dest!: modify_same_listing)
next
  case (HostAway c')
  then show ?thesis using assms by (auto simp: mark_host_away_def same_listing_def dest!: modify_same_listing)
next
  case (HostReturned c' version commit)
  then show ?thesis using assms by (auto simp: mark_host_returned_def same_listing_def dest!: modify_same_listing)
next
  case (Refresh registration now)
  then show ?thesis using assms
    by (auto simp: refresh_liveness_def liveness_refresh_due_def LIVENESS_REFRESH_SECS_def same_listing_def modify_game_lookup split: if_splits option.splits)
next
  case (Unregister c')
  then show ?thesis using assms by (auto simp: unregister_game_def split: if_splits)
next
  case (UnregisterExpired registration)
  then show ?thesis using assms
    by (auto simp: unregister_expired_def unregister_registration_def unregister_game_def Let_def split: if_splits)
qed

definition ids_ok :: "('f, 'm, 'd) lobby_manager \<Rightarrow> bool" where
  "ids_ok l \<longleftrightarrow> (\<forall>code meta. fmlookup (lb_games l) code = Some meta \<longrightarrow>
     lm_generation meta < lb_next_generation l \<and> lm_created_at meta \<le> lm_last_seen meta)"

lemma step_ids:
  assumes "ids_ok l" "Suc (lb_next_generation l) < 2 ^ 64"
  shows "ids_ok (lobby_step c l)"
    and "lb_next_generation l \<le> lb_next_generation (lobby_step c l)"
    and "lb_next_generation (lobby_step c l) \<le> Suc (lb_next_generation l)"
proof -
  show n: "lb_next_generation l \<le> lb_next_generation (lobby_step c l)"
    and "lb_next_generation (lobby_step c l) \<le> Suc (lb_next_generation l)"
    using assms(2) by (auto simp: step_next_generation split: lobby_call.split)
  show "ids_ok (lobby_step c l)" unfolding ids_ok_def
  proof (intro allI impI)
    fix code meta' assume "fmlookup (lb_games (lobby_step c l)) code = Some meta'"
    from step_lookup [OF this] show "lm_generation meta' < lb_next_generation (lobby_step c l) \<and> lm_created_at meta' \<le> lm_last_seen meta'"
    proof
      assume "\<exists>meta. fmlookup (lb_games l) code = Some meta \<and> same_listing meta meta'"
      then show ?thesis using assms(1) n by (fastforce simp: ids_ok_def same_listing_def)
    qed (use assms(2) in \<open>auto simp: step_next_generation\<close>)
  qed
qed

lemma run_ids:
  assumes "ids_ok l" "lb_next_generation l + length cs < 2 ^ 64"
  shows "ids_ok (lobby_run cs l) \<and> lb_next_generation l \<le> lb_next_generation (lobby_run cs l)
       \<and> lb_next_generation (lobby_run cs l) \<le> lb_next_generation l + length cs"
  using assms
proof (induction cs arbitrary: l)
  case (Cons c cs)
  have b: "Suc (lb_next_generation l) < 2 ^ 64" using Cons.prems(2) by simp
  note step = step_ids [OF Cons.prems(1) b, of c]
  have "lb_next_generation (lobby_step c l) + length cs < 2 ^ 64" using step(3) Cons.prems(2) by simp
  from Cons.IH [OF step(1) this] show ?case using step(2,3) by simp
qed simp

lemma step_current:
  assumes "lr_generation r < lb_next_generation l" "is_current (lobby_step c l) r"
  obtains meta meta' where "fmlookup (lb_games l) (lr_game_code r) = Some meta" "lm_generation meta = lr_generation r"
    "fmlookup (lb_games (lobby_step c l)) (lr_game_code r) = Some meta'" "lm_last_seen meta \<le> lm_last_seen meta'"
proof -
  from assms(2) obtain meta' where m: "fmlookup (lb_games (lobby_step c l)) (lr_game_code r) = Some meta'" "lm_generation meta' = lr_generation r"
    by (auto simp: is_current_def split: option.splits)
  from step_lookup [OF m(1)] m(2) assms(1) obtain meta where "fmlookup (lb_games l) (lr_game_code r) = Some meta" "same_listing meta meta'"
    by auto
  then show thesis using that m by (auto simp: same_listing_def)
qed

definition seen_since :: "nat \<Rightarrow> lobby_registration \<Rightarrow> ('f, 'm, 'd) lobby_manager \<Rightarrow> bool" where
  "seen_since t r l \<longleftrightarrow>
     (case fmlookup (lb_games l) (lr_game_code r) of None \<Rightarrow> True | Some meta \<Rightarrow> lm_generation meta = lr_generation r \<longrightarrow> t \<le> lm_last_seen meta)"

lemma step_room:
  assumes "ids_ok l" "lb_next_generation l + length (c # cs) < 2 ^ 64" "lr_generation r < lb_next_generation l"
  shows "ids_ok (lobby_step c l)" "lb_next_generation (lobby_step c l) + length cs < 2 ^ 64"
    "lr_generation r < lb_next_generation (lobby_step c l)"
proof -
  have "Suc (lb_next_generation l) < 2 ^ 64" using assms(2) by simp
  note step = step_ids [OF assms(1) this, of c]
  show "ids_ok (lobby_step c l)" "lb_next_generation (lobby_step c l) + length cs < 2 ^ 64"
    "lr_generation r < lb_next_generation (lobby_step c l)"
    using step assms(2,3) by simp_all
qed

lemma run_identity:
  assumes "ids_ok l" "lb_next_generation l + length cs < 2 ^ 64" "lr_generation r < lb_next_generation l"
    and "is_current (lobby_run cs l) r"
  shows "is_current l r"
  using assms
proof (induction cs arbitrary: l)
  case (Cons c cs)
  have "is_current (lobby_step c l) r" using Cons.IH [OF step_room [OF Cons.prems(1-3)]] Cons.prems(4) by simp
  from step_current [OF Cons.prems(3) this] obtain meta
    where "fmlookup (lb_games l) (lr_game_code r) = Some meta" "lm_generation meta = lr_generation r" by blast
  then show ?case by (simp add: is_current_def)
qed simp

lemma step_seen_since:
  assumes "lr_generation r < lb_next_generation l" "seen_since t r l"
  shows "seen_since t r (lobby_step c l)"
proof (cases "is_current (lobby_step c l) r")
  case True
  from step_current [OF assms(1) this] obtain meta meta' where "fmlookup (lb_games l) (lr_game_code r) = Some meta"
    "lm_generation meta = lr_generation r" "fmlookup (lb_games (lobby_step c l)) (lr_game_code r) = Some meta'"
    "lm_last_seen meta \<le> lm_last_seen meta'" by blast
  then show ?thesis using assms(2) by (simp add: seen_since_def)
qed (simp add: seen_since_def is_current_def split: option.splits)

lemma run_seen_since:
  assumes "ids_ok l" "lb_next_generation l + length cs < 2 ^ 64" "lr_generation r < lb_next_generation l" "seen_since t r l"
  shows "seen_since t r (lobby_run cs l)"
  using assms
proof (induction cs arbitrary: l)
  case (Cons c cs)
  from Cons.IH [OF step_room [OF Cons.prems(1-3)] step_seen_since [OF Cons.prems(3,4)]] show ?case by simp
qed simp

lemma ids_ok_new: "ids_ok lobby_new"
  by (simp add: ids_ok_def lobby_new_def)

lemma stale_inert:
  assumes "\<not> is_current l r"
  shows "refresh_liveness r now l = (False, l)" "unregister_registration r l = (False, l)"
    "unregister_expired r l = (if has_game l (lr_game_code r) then Superseded else AlreadyGone, l)"
  using assms by (simp_all add: refresh_liveness_def liveness_refresh_due_def unregister_registration_def unregister_expired_def)

lemma fold_max_le: "(\<And>x. x \<in> set xs \<Longrightarrow> x \<le> b) \<Longrightarrow> fold max xs (a :: nat) \<le> max a b"
proof (induction xs arbitrary: a)
  case (Cons x xs)
  then have "fold max xs (max x a) \<le> max (max x a) b" by simp
  with Cons.prems [of x] show ?case by simp
qed simp

lemma snapshot_roundtrip:
  assumes "ids_ok l" "lb_next_generation l < 2 ^ 64"
  shows "from_snapshot keys_of (lb_games l) (lb_next_generation l) = l"
proof -
  have g: "fmmap (\<lambda>meta. meta\<lparr>lm_last_seen := max (lm_last_seen meta) (lm_created_at meta)\<rparr>) (lb_games l) = lb_games l"
    using assms(1) by (intro fmap_ext) (auto simp: ids_ok_def max_absorb1 intro!: option.map_ident_strong)
  have "fold max (map (\<lambda>meta. add_u64 (lm_generation meta) 1) (List.map_filter (fmlookup (lb_games l)) (keys_of (lb_games l)))) 0
        \<le> max 0 (lb_next_generation l)"
  proof (rule fold_max_le)
    fix x assume "x \<in> set (map (\<lambda>meta. add_u64 (lm_generation meta) 1) (List.map_filter (fmlookup (lb_games l)) (keys_of (lb_games l))))"
    then obtain code meta where "fmlookup (lb_games l) code = Some meta" "x = add_u64 (lm_generation meta) 1"
      by (auto simp: List.map_filter_def)
    then show "x \<le> lb_next_generation l" using assms by (fastforce simp: ids_ok_def)
  qed
  then show ?thesis by (simp add: from_snapshot_def g Let_def)
qed

lemma new_registration:
  assumes "length cs < 2 ^ 64 - 1"
  shows "ids_ok (snd (register_game code req now (lobby_run cs lobby_new)))"
    "lr_generation (fst (register_game code req now (lobby_run cs lobby_new)))
       < lb_next_generation (snd (register_game code req now (lobby_run cs lobby_new)))"
    "lb_next_generation (snd (register_game code req now (lobby_run cs lobby_new))) \<le> Suc (length cs)"
    "is_current (snd (register_game code req now (lobby_run cs lobby_new))) (fst (register_game code req now (lobby_run cs lobby_new)))"
proof -
  let ?l = "lobby_run cs lobby_new"
  have l: "ids_ok ?l" "lb_next_generation ?l \<le> length cs"
    using run_ids [OF ids_ok_new, of cs] assms by (simp_all add: lobby_new_def)
  then have "Suc (lb_next_generation ?l) < 2 ^ 64" using assms by simp
  with step_ids [OF l(1) this, of "Register code req now"] l
  show "ids_ok (snd (register_game code req now ?l))"
    "lr_generation (fst (register_game code req now ?l)) < lb_next_generation (snd (register_game code req now ?l))"
    "lb_next_generation (snd (register_game code req now ?l)) \<le> Suc (length cs)"
    by (simp_all add: register_game_def Let_def)
  show "is_current (snd (register_game code req now ?l)) (fst (register_game code req now ?l))"
    by (simp add: is_current_def register_game_def Let_def)
qed

text \<open>
  C35. The identity of a registration. A registration is current when it is issued; once it is no
  longer the one listed under its code, whatever happens afterwards it never is again, and using it
  to refresh or to remove a listing changes nothing, reporting whether a successor is listed; while
  it is current, consuming its expiry removes exactly its listing. Saving and restoring a lobby gives
  back the lobby, counter included. This holds for all \<open>2 ^ 64\<close> registrations the counter can number.
\<close>

theorem registration_identity:
  assumes "length cs + length cs' + length cs'' < 2 ^ 64 - 1"
  shows "case register_game code req now (lobby_run cs lobby_new) of (r, l) \<Rightarrow>
     is_current l r
   \<and> (is_current (lobby_run cs' l) r \<longrightarrow>
        unregister_expired r (lobby_run cs' l) = (Removed, unregister_game code (lobby_run cs' l)))
   \<and> (\<not> is_current (lobby_run cs' l) r \<longrightarrow>
        \<not> is_current (lobby_run cs'' (lobby_run cs' l)) r
      \<and> refresh_liveness r later (lobby_run cs'' (lobby_run cs' l)) = (False, lobby_run cs'' (lobby_run cs' l))
      \<and> unregister_registration r (lobby_run cs'' (lobby_run cs' l)) = (False, lobby_run cs'' (lobby_run cs' l))
      \<and> unregister_expired r (lobby_run cs'' (lobby_run cs' l)) =
          (if has_game (lobby_run cs'' (lobby_run cs' l)) code then Superseded else AlreadyGone, lobby_run cs'' (lobby_run cs' l)))
   \<and> from_snapshot keys_of (lb_games (lobby_run cs' l)) (lb_next_generation (lobby_run cs' l)) = lobby_run cs' l"
proof -
  obtain r l where rl: "register_game code req now (lobby_run cs lobby_new) = (r, l)" by fastforce
  have code: "lr_game_code r = code" using rl by (auto simp: register_game_def Let_def)
  have "length cs < 2 ^ 64 - 1" using assms by simp
  note new = new_registration [OF this, of code req now, unfolded rl, simplified]
  have "lb_next_generation l + length cs' < 2 ^ 64" using new(3) assms by simp
  note run = run_ids [OF new(1) this]
  have b: "lb_next_generation (lobby_run cs' l) + length cs'' < 2 ^ 64" using run new(3) assms by simp
  have stale: "\<not> is_current (lobby_run cs'' (lobby_run cs' l)) r" if "\<not> is_current (lobby_run cs' l) r"
    using run_identity [OF _ b, of r] run new(2) that by auto
  have "from_snapshot keys_of (lb_games (lobby_run cs' l)) (lb_next_generation (lobby_run cs' l)) = lobby_run cs' l"
    by (rule snapshot_roundtrip) (use run b in auto)
  then show ?thesis using new(4) stale stale_inert [of "lobby_run cs'' (lobby_run cs' l)" r] unfolding rl code
    by (auto simp: unregister_expired_def unregister_registration_def code)
qed

text \<open>A room registered twice under one code: the first registration is superseded and stays so.\<close>

theorem registration_identity_witness:
  "let (r, l) = register_game ''G'' sample_request 5000 (lobby_new :: (unit, unit, unit) lobby_manager);
       l' = lobby_run [Register ''G'' sample_request 9000] l
   in unregister_expired r (lobby_run [HostAway ''G''] l') = (Superseded, lobby_run [HostAway ''G''] l')"
proof -
  have "\<not> is_current (lobby_run [Register ''G'' sample_request 9000] (snd (register_game ''G'' sample_request 5000 lobby_new)))
          (fst (register_game ''G'' sample_request 5000 lobby_new))"
    "has_game (lobby_run [HostAway ''G''] (lobby_run [Register ''G'' sample_request 9000] (snd (register_game ''G'' sample_request 5000 lobby_new)))) ''G''"
    by (simp_all add: is_current_def register_game_def lobby_new_def Let_def has_game_def mark_host_away_def modify_game_lookup)
  then show ?thesis
    using registration_identity [where cs = "[]" and cs' = "[Register ''G'' sample_request 9000]" and cs'' = "[HostAway ''G'']"
        and code = "''G''" and req = sample_request and now = 5000]
    by (auto simp: Let_def split: prod.splits)
qed

lemma check_expired_iff:
  assumes "lists_keys keys_of"
  shows "r \<in> set (check_expired keys_of timeout now l) \<longleftrightarrow>
     (\<exists>meta. fmlookup (lb_games l) (lr_game_code r) = Some meta \<and> lm_generation meta = lr_generation r
           \<and> timeout < now div 1000 - lm_last_seen meta)"
proof
  assume "r \<in> set (check_expired keys_of timeout now l)"
  then show "\<exists>meta. fmlookup (lb_games l) (lr_game_code r) = Some meta \<and> lm_generation meta = lr_generation r
           \<and> timeout < now div 1000 - lm_last_seen meta"
    by (auto simp: check_expired_def Let_def List.map_filter_def split: option.splits if_splits)
next
  assume "\<exists>meta. fmlookup (lb_games l) (lr_game_code r) = Some meta \<and> lm_generation meta = lr_generation r
           \<and> timeout < now div 1000 - lm_last_seen meta"
  then obtain meta where m: "fmlookup (lb_games l) (lr_game_code r) = Some meta" "lm_generation meta = lr_generation r"
    "timeout < now div 1000 - lm_last_seen meta" by blast
  have "lr_game_code r \<in> set (keys_of (lb_games l))" using assms m(1) by (simp add: lists_keys_def fmdomI)
  then show "r \<in> set (check_expired keys_of timeout now l)" using m
    by (auto simp: check_expired_def Let_def List.map_filter_def intro!: image_eqI [of _ _ "lr_game_code r"])
qed

lemma refresh_seen_since:
  "seen_since (now div 1000 - (LIVENESS_REFRESH_SECS - 1)) r (snd (refresh_liveness r now l))"
  by (auto simp: seen_since_def refresh_liveness_def liveness_refresh_due_def LIVENESS_REFRESH_SECS_def is_current_def modify_game_lookup split: option.splits)

lemma refresh_ids: "ids_ok l \<Longrightarrow> Suc (lb_next_generation l) < 2 ^ 64 \<Longrightarrow> ids_ok (snd (refresh_liveness r now l))"
  "lb_next_generation (snd (refresh_liveness r now l)) = lb_next_generation l"
  using step_ids(1) [of l "Refresh r now"] by (simp_all add: refresh_liveness_def)

text \<open>
  The expiry sweep reports a registration exactly when it is listed and its host has been silent
  for longer than the timeout, and a host that showed signs of life is never reported before its time:
  after a refresh, whatever other calls arrive and even when the refresh was skipped as too early,
  its registration is not reported until the timeout, less the refresh interval, has passed.
\<close>

lemma live_host_not_reaped:
  assumes "lists_keys keys_of" "length cs + length cs' + length cs'' < 2 ^ 64 - 2"
    and "register_game code req t (lobby_run cs lobby_new) = (r, l)"
  shows "(\<forall>timeout now m. r \<in> set (check_expired keys_of timeout now m) \<longleftrightarrow>
            (\<exists>meta. fmlookup (lb_games m) code = Some meta \<and> lm_generation meta = lr_generation r
                  \<and> timeout < now div 1000 - lm_last_seen meta))
       \<and> (\<forall>timeout now now'. now' div 1000 + LIVENESS_REFRESH_SECS \<le> Suc (now div 1000 + timeout) \<longrightarrow>
            r \<notin> set (check_expired keys_of timeout now' (lobby_run cs'' (snd (refresh_liveness r now (lobby_run cs' l))))))"
proof (intro conjI allI impI)
  have code: "lr_game_code r = code" using assms(3) by (auto simp: register_game_def Let_def)
  then show "r \<in> set (check_expired keys_of timeout now m) \<longleftrightarrow>
      (\<exists>meta. fmlookup (lb_games m) code = Some meta \<and> lm_generation meta = lr_generation r \<and> timeout < now div 1000 - lm_last_seen meta)"
    for timeout now m by (simp add: check_expired_iff [OF assms(1)])
  fix timeout now now' assume soon: "now' div 1000 + LIVENESS_REFRESH_SECS \<le> Suc (now div 1000 + timeout)"
  let ?m = "snd (refresh_liveness r now (lobby_run cs' l))"
  have "length cs < 2 ^ 64 - 1" using assms(2) by simp
  note new = new_registration [OF this, of code req t, unfolded assms(3), simplified]
  have "lb_next_generation l + length cs' < 2 ^ 64" using new(3) assms(2) by simp
  note run = run_ids [OF new(1) this]
  have "ids_ok ?m" using refresh_ids(1) [of "lobby_run cs' l" r now] run new(3) assms(2) by simp
  moreover have "lb_next_generation ?m + length cs'' < 2 ^ 64" using run new(3) assms(2) by (simp add: refresh_ids(2))
  moreover have "lr_generation r < lb_next_generation ?m" using run new(2) by (simp add: refresh_ids(2))
  ultimately have "seen_since (now div 1000 - (LIVENESS_REFRESH_SECS - 1)) r (lobby_run cs'' ?m)"
    using refresh_seen_since by (rule run_seen_since)
  then show "r \<notin> set (check_expired keys_of timeout now' (lobby_run cs'' ?m))" using soon
    by (auto simp: check_expired_iff [OF assms(1)] seen_since_def LIVENESS_REFRESH_SECS_def)
qed

lemma sorted_codes_listed: "lists_keys (\<lambda>m :: (string, 'v) fmap. sorted_list_of_fset (fmdom m))"
  by (simp add: lists_keys_def sorted_list_of_fset.rep_eq)

text \<open>A room registered at second 5 whose host pings at second 200 is not reaped at second 400 with a
  timeout of five minutes, although it would have been without the ping.\<close>

section \<open>Ownership of reservations\<close>

definition reservation_of :: "('f, 'm, 'd) lobby_manager \<Rightarrow> string \<Rightarrow> string \<Rightarrow> lobby_reservation option" where
  "reservation_of l code token = Option.bind (fmlookup (lb_games l) code) (\<lambda>meta. fmlookup (lm_reservations meta) token)"

lemma release_frame:
  assumes "release_reservation code token l = (b, l')"
  shows "b \<longleftrightarrow> reservation_of l code token \<noteq> None" "\<not> b \<Longrightarrow> l' = l"
    "reservation_of l' c t = (if (c, t) = (code, token) then None else reservation_of l c t)"
    "seated_player_count l' c = seated_player_count l c"
proof -
  show "\<not> b \<Longrightarrow> l' = l" using assms
    by (auto simp: release_reservation_def modify_game_def fmap_ext intro!: lobby_manager.equality fmap_ext split: option.splits)
qed (use assms in \<open>auto simp: release_reservation_def reservation_of_def modify_game_lookup seated_player_count_def split: option.splits\<close>)

lemma consume_frame:
  assumes "consume_reservation code token l = (b, l')"
  shows "b \<longleftrightarrow> reservation_of l code token \<noteq> None" "\<not> b \<Longrightarrow> l' = l"
    "reservation_of l' c t = (if (c, t) = (code, token) then None else reservation_of l c t)"
    "c \<noteq> code \<Longrightarrow> seated_player_count l' c = seated_player_count l c"
  using assms by (auto simp: consume_reservation_def reservation_of_def modify_game_lookup seated_player_count_def split: option.splits if_splits)

text \<open>
  A connection acts only on reservations it holds. Releasing or consuming a reservation that the
  connection does not hold, or that the lobby no longer has, changes neither the lobby nor the
  connection's list; otherwise exactly that reservation leaves the lobby and the list. No other
  reservation of any game changes, and no other game's seats; releasing changes no seat at all.
\<close>

lemma reservation_ownership:
  "(case release_owned_reservation held code token l of ((result, held'), l') \<Rightarrow>
      (result = ReleaseNotHeld \<longleftrightarrow> (code, token) \<notin> set held)
    \<and> (result = Released \<longleftrightarrow> (code, token) \<in> set held \<and> reservation_of l code token \<noteq> None)
    \<and> (result \<noteq> Released \<longrightarrow> held' = held \<and> l' = l)
    \<and> (result = Released \<longrightarrow> set held' = set held - {(code, token)} \<and> reservation_of l' code token = None)
    \<and> (\<forall>c t. (c, t) \<noteq> (code, token) \<longrightarrow> reservation_of l' c t = reservation_of l c t)
    \<and> (\<forall>c. seated_player_count l' c = seated_player_count l c))
 \<and> (case consume_owned_reservation held code token l of ((result, held'), l') \<Rightarrow>
      (result = ConsumeNotHeld \<longleftrightarrow> (code, token) \<notin> set held)
    \<and> (result = Consumed \<longleftrightarrow> (code, token) \<in> set held \<and> reservation_of l code token \<noteq> None)
    \<and> (result \<noteq> Consumed \<longrightarrow> held' = held \<and> l' = l)
    \<and> (result = Consumed \<longrightarrow> set held' = set held - {(code, token)} \<and> reservation_of l' code token = None)
    \<and> (\<forall>c t. (c, t) \<noteq> (code, token) \<longrightarrow> reservation_of l' c t = reservation_of l c t)
    \<and> (\<forall>c. c \<noteq> code \<longrightarrow> seated_player_count l' c = seated_player_count l c))"
proof
  obtain b m where r: "release_reservation code token l = (b, m)" by fastforce
  show "case release_owned_reservation held code token l of ((result, held'), l') \<Rightarrow>
      (result = ReleaseNotHeld \<longleftrightarrow> (code, token) \<notin> set held)
    \<and> (result = Released \<longleftrightarrow> (code, token) \<in> set held \<and> reservation_of l code token \<noteq> None)
    \<and> (result \<noteq> Released \<longrightarrow> held' = held \<and> l' = l)
    \<and> (result = Released \<longrightarrow> set held' = set held - {(code, token)} \<and> reservation_of l' code token = None)
    \<and> (\<forall>c t. (c, t) \<noteq> (code, token) \<longrightarrow> reservation_of l' c t = reservation_of l c t)
    \<and> (\<forall>c. seated_player_count l' c = seated_player_count l c)"
    using release_frame [OF r] by (auto simp: release_owned_reservation_def conn_holds_reservation_def r)
next
  obtain b m where r: "consume_reservation code token l = (b, m)" by fastforce
  show "case consume_owned_reservation held code token l of ((result, held'), l') \<Rightarrow>
      (result = ConsumeNotHeld \<longleftrightarrow> (code, token) \<notin> set held)
    \<and> (result = Consumed \<longleftrightarrow> (code, token) \<in> set held \<and> reservation_of l code token \<noteq> None)
    \<and> (result \<noteq> Consumed \<longrightarrow> held' = held \<and> l' = l)
    \<and> (result = Consumed \<longrightarrow> set held' = set held - {(code, token)} \<and> reservation_of l' code token = None)
    \<and> (\<forall>c t. (c, t) \<noteq> (code, token) \<longrightarrow> reservation_of l' c t = reservation_of l c t)
    \<and> (\<forall>c. c \<noteq> code \<longrightarrow> seated_player_count l' c = seated_player_count l c)"
    using consume_frame [OF r] by (auto simp: consume_owned_reservation_def conn_holds_reservation_def r)
qed

text \<open>The second seat of the sample room, reserved by one connection, cannot be taken by another.\<close>

end
