(* ===== verification/Broker.thy ===== *)
theory Broker
  imports Lobby Rust_Strings
begin

text \<open>
  The matchmaking broker, from \<open>crates/lobby-broker/src/broker.rs\<close>: how the frames of a connection are
  dispatched onto the lobby, what is sent back and to the subscribers, the teardown of a closed
  connection and the expiry sweep. \<open>BrokerEnv\<close> is the record \<open>broker_env\<close> of the clock, token and code one
  call sees. The inbound guard is an argument, and the lemmas hold for every guard. The frames of the
  tournament organizer are left out; the registry of tournaments is the list of its summaries, which a
  subscription sends. The lemmas show that a client that replays the feed sees exactly the listed games,
  that a connection changes only its own listing, and that every listing has one owner.
\<close>

section \<open>Data\<close>

definition MAX_LOBBY_ENTRIES :: nat where
  "MAX_LOBBY_ENTRIES = 200"

definition NOT_OWNED_RESERVATION :: string where
  "NOT_OWNED_RESERVATION = ''You may only release or use a seat reservation issued to this connection''"

record client_hello_info =
  ch_client_version :: string
  ch_build_commit :: string

record conn_state =
  cs_client_hello :: "client_hello_info option"
  cs_subscribed :: bool
  cs_host_game :: "lobby_registration option"
  cs_reservations :: "(string \<times> string) list"
  cs_organized_tournaments :: "string list"
  cs_joined_tournaments :: "string list"

record broker_env =
  be_now_ms :: nat
  be_new_token :: string
  be_new_game_code :: string

datatype server_error_code = DeckRejected | GameNotFound | CodeInUse

datatype ('f, 'm, 'd, 't) lobby_server_message =
    GameCreated string string
  | ErrorMessage string "server_error_code option"
  | LobbyUpdate "('f, 'd) lobby_game list"
  | LobbyGameAdded "('f, 'd) lobby_game"
  | LobbyGameUpdated "('f, 'd) lobby_game"
  | LobbyGameRemoved string
  | PasswordRequired string
  | JoinTargetInfo string bool "'f lobby_format option" 'm nat nat "string option" "nat option" "'d option"
  | Pong nat
  | PeerInfo string string "'f lobby_format option" 'm nat nat "string option"
  | TournamentListUpdate "'t list"

datatype ('f, 'm, 'd, 't) outbound =
    ToSelf "('f, 'm, 'd, 't) lobby_server_message"
  | ToSubscribers "('f, 'm, 'd, 't) lobby_server_message"
  | AddSubscriber
  | RemoveSubscriber
  | SendPlayerCountToSelf

record ('f, 'm, 'd, 'k) create_settings =
  cr_deck :: 'k
  cr_display_name :: string
  cr_public :: bool
  cr_password :: "string option"
  cr_timer_seconds :: "nat option"
  cr_player_count :: nat
  cr_match_config :: 'm
  cr_format_config :: "'f lobby_format option"
  cr_room_name :: "string option"
  cr_host_peer_id :: "string option"
  cr_draft_metadata :: "'d option"
  cr_start_when_full :: bool
  cr_ranked :: bool
  cr_requested_code :: "string option"

datatype ('f, 'm, 'd, 'k) lobby_client_message =
    ClientHello string string
  | SubscribeLobby
  | UnsubscribeLobby
  | CreateGameWithSettings "('f, 'm, 'd, 'k) create_settings"
  | JoinGameWithPassword string 'k string "string option" "string option"
  | LookupJoinTarget string "string option" bool "string option" "string option"
  | Ping nat
  | UpdateLobbyMetadata string nat nat "string list"
  | UnregisterLobby string

record ('f, 'm, 'd, 't) broker =
  bk_lobby :: "('f, 'm, 'd) lobby_manager"
  bk_tournaments :: "'t list"

section \<open>What a viewer may see\<close>

definition hello_build_commit :: "conn_state \<Rightarrow> string" where
  "hello_build_commit conn = (case cs_client_hello conn of None \<Rightarrow> [] | Some h \<Rightarrow> ch_build_commit h)"

datatype build_commit_check = AllowBuild | RejectBuild string string

definition check_build_commit :: "string \<Rightarrow> string \<Rightarrow> build_commit_check" where
  "check_build_commit host_commit guest_commit =
     (if guest_commit \<noteq> [] \<and> host_commit \<noteq> [] \<and> host_commit \<noteq> guest_commit
      then RejectBuild host_commit guest_commit else AllowBuild)"

definition lobby_row_visible_to :: "('f, 'd) lobby_game \<Rightarrow> string \<Rightarrow> bool" where
  "lobby_row_visible_to game viewer_build_commit \<longleftrightarrow> check_build_commit (lg_host_build_commit game) viewer_build_commit = AllowBuild"

datatype row_delta = RowAdded | RowUpdated

datatype row_delivery_t = Deliver | Withhold | Retract

definition row_delivery :: "row_delta \<Rightarrow> ('f, 'd) lobby_game \<Rightarrow> string \<Rightarrow> row_delivery_t" where
  "row_delivery delta game viewer_build_commit =
     (if lobby_row_visible_to game viewer_build_commit then Deliver
      else case delta of RowAdded \<Rightarrow> Withhold | RowUpdated \<Rightarrow> Retract)"

definition deliver_row ::
  "row_delta \<Rightarrow> ('f, 'd) lobby_game \<Rightarrow> string \<Rightarrow> ('f, 'm, 'd, 't) lobby_server_message \<Rightarrow> ('f, 'm, 'd, 't) lobby_server_message option" where
  "deliver_row delta game viewer_build_commit msg =
     (case row_delivery delta game viewer_build_commit of
        Deliver \<Rightarrow> Some msg | Withhold \<Rightarrow> None | Retract \<Rightarrow> Some (LobbyGameRemoved (lg_game_code game)))"

definition lobby_frame_for_viewer :: "('f, 'm, 'd, 't) lobby_server_message \<Rightarrow> string \<Rightarrow> ('f, 'm, 'd, 't) lobby_server_message option" where
  "lobby_frame_for_viewer msg viewer_build_commit =
     (case msg of
        LobbyGameAdded game \<Rightarrow> deliver_row RowAdded game viewer_build_commit msg
      | LobbyGameUpdated game \<Rightarrow> deliver_row RowUpdated game viewer_build_commit msg
      | _ \<Rightarrow> Some msg)"

section \<open>The handlers\<close>

definition error_out :: "string \<Rightarrow> ('f, 'm, 'd, 't) outbound" where
  "error_out message = ToSelf (ErrorMessage message None)"

definition code_in_use_message :: "string \<Rightarrow> string" where
  "code_in_use_message game_code = ''Game code '' @ game_code @ '' is already in use''"

definition updated_row :: "('f, 'm, 'd) lobby_manager \<Rightarrow> string \<Rightarrow> ('f, 'm, 'd, 't) outbound list" where
  "updated_row l game_code = (case public_game l game_code of None \<Rightarrow> [] | Some game \<Rightarrow> [ToSubscribers (LobbyGameUpdated game)])"

definition hosts_current :: "conn_state \<Rightarrow> string \<Rightarrow> ('f, 'm, 'd) lobby_manager \<Rightarrow> bool" where
  "hosts_current conn game_code l \<longleftrightarrow>
     (case cs_host_game conn of None \<Rightarrow> False | Some r \<Rightarrow> lr_game_code r = game_code \<and> is_current l r)"

definition host_liveness_refresh_due :: "conn_state \<Rightarrow> nat \<Rightarrow> ('f, 'm, 'd) lobby_manager \<Rightarrow> bool" where
  "host_liveness_refresh_due conn now_ms l = (case cs_host_game conn of None \<Rightarrow> False | Some r \<Rightarrow> liveness_refresh_due l r now_ms)"

definition trimmed :: "string option \<Rightarrow> string option" where
  "trimmed s = (case s of None \<Rightarrow> None | Some s \<Rightarrow> let s = str_trim s in if s = [] then None else Some s)"

definition drop_hosted :: "conn_state \<Rightarrow> ('f, 'm, 'd) lobby_manager \<Rightarrow> ('f, 'm, 'd, 't) outbound list \<times> conn_state \<times> ('f, 'm, 'd) lobby_manager" where
  "drop_hosted conn l =
     (case cs_host_game conn of
        None \<Rightarrow> ([], conn, l)
      | Some registration \<Rightarrow>
          (case unregister_registration registration l of (removed, l) \<Rightarrow>
             (if removed then [ToSubscribers (LobbyGameRemoved (lr_game_code registration))] else [],
              conn\<lparr>cs_host_game := None\<rparr>, l)))"

definition register_request ::
  "client_hello_info \<Rightarrow> string \<Rightarrow> ('f, 'm, 'd, 'k) create_settings \<Rightarrow> ('f, 'm, 'd) register_game_request" where
  "register_request hello peer_id c =
     \<lparr>rg_host_name = cr_display_name c, rg_public = cr_public c, rg_password = cr_password c, rg_timer_seconds = cr_timer_seconds c,
      rg_host_version = ch_client_version hello, rg_host_build_commit = ch_build_commit hello, rg_current_players = 1,
      rg_max_players = max 2 (min 6 (cr_player_count c)), rg_format_config = cr_format_config c, rg_match_config = cr_match_config c,
      rg_room_name = trimmed (cr_room_name c), rg_host_peer_id = peer_id, rg_draft_metadata = cr_draft_metadata c, rg_ranked = cr_ranked c\<rparr>"

definition open_room ::
  "broker_env \<Rightarrow> string \<Rightarrow> client_hello_info \<Rightarrow> string \<Rightarrow> ('f, 'm, 'd, 'k) create_settings \<Rightarrow> conn_state \<Rightarrow> ('f, 'm, 'd) lobby_manager
   \<Rightarrow> ('f, 'm, 'd, 't) outbound list \<times> conn_state \<times> ('f, 'm, 'd) lobby_manager" where
  "open_room env code hello peer_id c conn l =
     (case register_game code (register_request hello peer_id c) (be_now_ms env) l of (registration, l) \<Rightarrow>
        (ToSelf (GameCreated code (be_new_token env))
           # (if cr_public c then (case public_game l code of None \<Rightarrow> [] | Some game \<Rightarrow> [ToSubscribers (LobbyGameAdded game)]) else []),
         conn\<lparr>cs_host_game := Some registration\<rparr>, l))"

definition handle_create_game ::
  "broker_env \<Rightarrow> ('f, 'm, 'd, 'k) create_settings \<Rightarrow> conn_state \<Rightarrow> ('f, 'm, 'd) lobby_manager
   \<Rightarrow> ('f, 'm, 'd, 't) outbound list \<times> conn_state \<times> ('f, 'm, 'd) lobby_manager" where
  "handle_create_game env c conn l =
     (case (trimmed (cr_host_peer_id c), cs_client_hello conn) of
        (None, _) \<Rightarrow> ([error_out ''host_peer_id is required on lobby-only servers''], conn, l)
      | (Some _, None) \<Rightarrow> ([error_out ''ClientHello required before any other message''], conn, l)
      | (Some peer_id, Some hello) \<Rightarrow>
          (case drop_hosted conn l of (out, conn, l) \<Rightarrow>
             if MAX_LOBBY_ENTRIES \<le> lobby_len l then (out @ [error_out ''Server lobby is full, please try again shortly''], conn, l)
             else if (case cr_requested_code c of None \<Rightarrow> False | Some code \<Rightarrow> has_game l code)
             then (out @ [ToSelf (ErrorMessage (code_in_use_message (the (cr_requested_code c))) (Some CodeInUse))], conn, l)
             else case open_room env (case cr_requested_code c of None \<Rightarrow> be_new_game_code env | Some code \<Rightarrow> code) hello peer_id c conn l of
               (out', conn, l) \<Rightarrow> (out @ out', conn, l)))"

definition join_gate ::
  "string \<Rightarrow> string option \<Rightarrow> conn_state \<Rightarrow> ('f, 'm, 'd) lobby_manager
   \<Rightarrow> (('f, 'm, 'd, 't) outbound, ('f, 'm, 'd) join_target_info_t) outcome" where
  "join_gate game_code password conn l =
     (if hosts_current conn game_code l then Err (error_out ''You are already hosting this game'')
      else case check_build_commit (case host_build_commit l game_code of None \<Rightarrow> [] | Some commit \<Rightarrow> commit) (hello_build_commit conn) of
        RejectBuild host guest \<Rightarrow>
          Err (error_out (''Build mismatch: host is on '' @ host @ '', you are on '' @ guest @ ''. Refresh to update.''))
      | AllowBuild \<Rightarrow>
          (case join_target_info l game_code of
             None \<Rightarrow> Err (ToSelf (ErrorMessage (''Game not found in lobby: '' @ game_code) (Some GameNotFound)))
           | Some info \<Rightarrow>
               (case verify_password l game_code password of
                  Ok _ \<Rightarrow> Ok info
                | Err e \<Rightarrow> if e = ''password_required'' then Err (ToSelf (PasswordRequired game_code)) else Err (error_out e)
                | Panic \<Rightarrow> Panic)))"

definition full_message :: "string \<Rightarrow> string" where
  "full_message game_code = ''Game '' @ game_code @ '' is full''"

definition peer_info ::
  "string \<Rightarrow> ('f, 'm, 'd) join_target_info_t \<Rightarrow> string option \<Rightarrow> ('f, 'm, 'd, 't) outbound" where
  "peer_info game_code info token =
     ToSelf (PeerInfo game_code (jt_host_peer_id info) (jt_format_config info) (jt_match_config info)
       (as_u8 (jt_max_players info)) (as_u8 (jt_current_players info)) token)"

definition handle_join ::
  "string \<Rightarrow> string \<Rightarrow> string option \<Rightarrow> string option \<Rightarrow> conn_state \<Rightarrow> ('f, 'm, 'd) lobby_manager
   \<Rightarrow> ('f, 'm, 'd, 't) outbound list \<times> conn_state \<times> ('f, 'm, 'd) lobby_manager" where
  "handle_join game_code display_name password reservation_token conn l =
     (case join_gate game_code password conn l of
        Err e \<Rightarrow> ([e], conn, l)
      | Panic \<Rightarrow> ([], conn, l)
      | Ok info \<Rightarrow>
          if \<not> jt_is_p2p info
          then ([error_out (''Game '' @ game_code @ '' is hosted on a Full-mode server and cannot be brokered'')], conn, l)
          else case reservation_token of
            None \<Rightarrow>
              (if 0 < jt_max_players info \<and> jt_max_players info \<le> jt_current_players info then ([error_out (full_message game_code)], conn, l)
               else ([peer_info game_code info None], conn, l))
          | Some token \<Rightarrow>
              (case consume_owned_reservation (cs_reservations conn) game_code token l of ((result, held), l) \<Rightarrow>
                 (case result of
                    Consumed \<Rightarrow> ([peer_info game_code info (Some token)], conn\<lparr>cs_reservations := held\<rparr>, l)
                  | ConsumeNotHeld \<Rightarrow> ([error_out NOT_OWNED_RESERVATION], conn\<lparr>cs_reservations := held\<rparr>, l)
                  | ConsumeNotFound \<Rightarrow> ([error_out ''Seat reservation expired or was released''], conn\<lparr>cs_reservations := held\<rparr>, l))))"

fun retain_active ::
  "string \<Rightarrow> nat \<Rightarrow> (string \<times> string) list \<Rightarrow> ('f, 'm, 'd) lobby_manager \<Rightarrow> (bool \<times> (string \<times> string) list) \<times> ('f, 'm, 'd) lobby_manager" where
  "retain_active game_code now_ms [] l = ((False, []), l)"
| "retain_active game_code now_ms ((code, token) # rs) l =
     (if code \<noteq> game_code then case retain_active game_code now_ms rs l of ((found, kept), l) \<Rightarrow> ((found, (code, token) # kept), l)
      else case has_active_reservation code token now_ms l of (active, l) \<Rightarrow>
        (case retain_active game_code now_ms rs l of ((found, kept), l) \<Rightarrow>
           ((active \<or> found, if active then (code, token) # kept else kept), l)))"

definition join_target_frame ::
  "string \<Rightarrow> ('f, 'm, 'd) join_target_info_t \<Rightarrow> string option \<Rightarrow> nat option \<Rightarrow> bool \<Rightarrow> ('f, 'm, 'd, 't) outbound" where
  "join_target_frame game_code info token expires counted =
     ToSelf (JoinTargetInfo game_code (jt_is_p2p info) (jt_format_config info) (jt_match_config info) (as_u8 (jt_max_players info))
       (as_u8 (min (add_u32 (jt_current_players info) (if token \<noteq> None \<and> \<not> counted then 1 else 0)) (jt_max_players info)))
       token expires (jt_draft_metadata info))"

definition lookup_reserve ::
  "broker_env \<Rightarrow> string \<Rightarrow> string option \<Rightarrow> ('f, 'm, 'd) join_target_info_t \<Rightarrow> conn_state \<Rightarrow> ('f, 'm, 'd) lobby_manager
   \<Rightarrow> ('f, 'm, 'd, 't) outbound list \<times> conn_state \<times> ('f, 'm, 'd) lobby_manager" where
  "lookup_reserve env game_code display_name info conn l =
     (case retain_active game_code (be_now_ms env) (cs_reservations conn) l of ((found, kept), l) \<Rightarrow>
        let conn = conn\<lparr>cs_reservations := kept\<rparr> in
        if found then ([error_out ''You already hold a reservation for this game''], conn, l)
        else case reserve_seat game_code (case display_name of None \<Rightarrow> ''Player'' | Some name \<Rightarrow> name) (be_now_ms env) (be_new_token env) l of
          (Ok r, l) \<Rightarrow>
            let conn = conn\<lparr>cs_reservations := kept @ [(game_code, rv_token r)]\<rparr>;
                latest = join_target_info l game_code
            in (updated_row l game_code
                 @ [join_target_frame game_code (case latest of None \<Rightarrow> info | Some info \<Rightarrow> info) (Some (rv_token r)) (rv_expires_at_ms r) (latest \<noteq> None)],
                conn, l)
        | (Err e, l) \<Rightarrow> ([error_out e], conn, l)
        | (Panic, l) \<Rightarrow> ([], conn, l))"

definition lookup_answer ::
  "broker_env \<Rightarrow> string \<Rightarrow> bool \<Rightarrow> string option \<Rightarrow> ('f, 'm, 'd) join_target_info_t \<Rightarrow> conn_state \<Rightarrow> ('f, 'm, 'd) lobby_manager
   \<Rightarrow> ('f, 'm, 'd, 't) outbound list \<times> conn_state \<times> ('f, 'm, 'd) lobby_manager" where
  "lookup_answer env game_code reserve display_name info conn l =
     (if reserve then lookup_reserve env game_code display_name info conn l
      else if 0 < jt_max_players info \<and> jt_max_players info \<le> jt_current_players info then ([error_out (full_message game_code)], conn, l)
      else ([join_target_frame game_code info None None False], conn, l))"

definition handle_lookup ::
  "broker_env \<Rightarrow> string \<Rightarrow> string option \<Rightarrow> bool \<Rightarrow> string option \<Rightarrow> string option \<Rightarrow> conn_state \<Rightarrow> ('f, 'm, 'd) lobby_manager
   \<Rightarrow> ('f, 'm, 'd, 't) outbound list \<times> conn_state \<times> ('f, 'm, 'd) lobby_manager" where
  "handle_lookup env game_code password reserve display_name release conn l =
     (case join_gate game_code password conn l of
        Err e \<Rightarrow> ([e], conn, l)
      | Panic \<Rightarrow> ([], conn, l)
      | Ok info \<Rightarrow>
          (case release of
             None \<Rightarrow> lookup_answer env game_code reserve display_name info conn l
           | Some token \<Rightarrow>
               (case release_owned_reservation (cs_reservations conn) game_code token l of ((result, held), l) \<Rightarrow>
                  let conn = conn\<lparr>cs_reservations := held\<rparr> in
                  (case result of
                     ReleaseNotHeld \<Rightarrow> ([error_out NOT_OWNED_RESERVATION], conn, l)
                   | ReleaseNotFound \<Rightarrow> lookup_answer env game_code reserve display_name info conn l
                   | Released \<Rightarrow>
                       (case lookup_answer env game_code reserve display_name info conn l of
                          (out, conn, l') \<Rightarrow> (updated_row l game_code @ out, conn, l'))))))"

fun consume_all :: "string \<Rightarrow> string list \<Rightarrow> ('f, 'm, 'd) lobby_manager \<Rightarrow> bool \<times> ('f, 'm, 'd) lobby_manager" where
  "consume_all game_code [] l = (False, l)"
| "consume_all game_code (token # tokens) l =
     (case consume_reservation game_code token l of (consumed, l) \<Rightarrow>
        case consume_all game_code tokens l of (consumed', l) \<Rightarrow> (consumed \<or> consumed', l))"

definition handle_update_metadata ::
  "broker_env \<Rightarrow> string \<Rightarrow> nat \<Rightarrow> nat \<Rightarrow> string list \<Rightarrow> conn_state \<Rightarrow> ('f, 'm, 'd) lobby_manager
   \<Rightarrow> ('f, 'm, 'd, 't) outbound list \<times> conn_state \<times> ('f, 'm, 'd) lobby_manager" where
  "handle_update_metadata env game_code current_players max_players tokens conn l =
     (case cs_host_game conn of
        None \<Rightarrow> ([error_out ''Only the lobby host can update metadata''], conn, l)
      | Some registration \<Rightarrow>
          if lr_game_code registration \<noteq> game_code then ([error_out ''Only the lobby host can update metadata''], conn, l)
          else if \<not> is_current l registration then ([], conn, l)
          else case consume_all game_code tokens l of (consumed, l) \<Rightarrow>
            let max_players = max max_players 1;
                floor = (if consumed then (case seated_player_count l game_code of None \<Rightarrow> 0 | Some n \<Rightarrow> n) else 0);
                target = min (max current_players floor) max_players;
                l = set_max_players game_code max_players (set_current_players game_code target (be_now_ms env) l)
            in (updated_row l game_code, conn, l))"

definition handle_unregister ::
  "string \<Rightarrow> conn_state \<Rightarrow> ('f, 'm, 'd) lobby_manager \<Rightarrow> ('f, 'm, 'd, 't) outbound list \<times> conn_state \<times> ('f, 'm, 'd) lobby_manager" where
  "handle_unregister game_code conn l =
     (if (case cs_host_game conn of None \<Rightarrow> False | Some r \<Rightarrow> lr_game_code r = game_code) then drop_hosted conn l
      else ([error_out ''UnregisterLobby only allowed for the host that registered the game''], conn, l))"

definition handle_subscribe ::
  "((string, ('f, 'm, 'd) lobby_game_meta) fmap \<Rightarrow> string list) \<Rightarrow> 't list \<Rightarrow> conn_state \<Rightarrow> ('f, 'm, 'd) lobby_manager
   \<Rightarrow> ('f, 'm, 'd, 't) outbound list" where
  "handle_subscribe keys_of tournaments conn l =
     [AddSubscriber,
      ToSelf (LobbyUpdate (filter (\<lambda>game. lobby_row_visible_to game (hello_build_commit conn)) (public_games keys_of l))),
      ToSelf (TournamentListUpdate tournaments), SendPlayerCountToSelf]"

section \<open>The broker\<close>

definition stateless_reply :: "conn_state \<Rightarrow> ('f, 'm, 'd, 'k) lobby_client_message \<Rightarrow> ('f, 'm, 'd, 't) lobby_server_message option" where
  "stateless_reply conn msg = (case msg of Ping timestamp \<Rightarrow> if cs_host_game conn = None then Some (Pong timestamp) else None | _ \<Rightarrow> None)"

definition dispatch ::
  "((string, ('f, 'm, 'd) lobby_game_meta) fmap \<Rightarrow> string list) \<Rightarrow> 't list \<Rightarrow> broker_env \<Rightarrow> ('f, 'm, 'd, 'k) lobby_client_message
   \<Rightarrow> conn_state \<Rightarrow> ('f, 'm, 'd) lobby_manager \<Rightarrow> ('f, 'm, 'd, 't) outbound list \<times> conn_state \<times> ('f, 'm, 'd) lobby_manager" where
  "dispatch keys_of tournaments env msg conn l =
     (case msg of
        ClientHello version commit \<Rightarrow>
          ([], conn\<lparr>cs_client_hello := Some \<lparr>ch_client_version = version, ch_build_commit = commit\<rparr>\<rparr>, l)
      | SubscribeLobby \<Rightarrow> (handle_subscribe keys_of tournaments conn l, conn\<lparr>cs_subscribed := True\<rparr>, l)
      | UnsubscribeLobby \<Rightarrow> ([RemoveSubscriber], conn\<lparr>cs_subscribed := False\<rparr>, l)
      | CreateGameWithSettings c \<Rightarrow> handle_create_game env c conn l
      | JoinGameWithPassword game_code _ display_name password token \<Rightarrow> handle_join game_code display_name password token conn l
      | LookupJoinTarget game_code password reserve display_name release \<Rightarrow>
          handle_lookup env game_code password reserve display_name release conn l
      | Ping timestamp \<Rightarrow> ([ToSelf (Pong timestamp)], conn, l)
      | UpdateLobbyMetadata game_code current_players max_players tokens \<Rightarrow>
          handle_update_metadata env game_code current_players max_players tokens conn l
      | UnregisterLobby game_code \<Rightarrow> handle_unregister game_code conn l)"

definition broker_handle ::
  "(('f, 'm, 'd, 'k) lobby_client_message \<Rightarrow> (string, unit) outcome) \<Rightarrow> ((string, ('f, 'm, 'd) lobby_game_meta) fmap \<Rightarrow> string list)
   \<Rightarrow> broker_env \<Rightarrow> ('f, 'm, 'd, 'k) lobby_client_message \<Rightarrow> conn_state \<Rightarrow> ('f, 'm, 'd, 't) broker
   \<Rightarrow> ('f, 'm, 'd, 't) outbound list \<times> conn_state \<times> ('f, 'm, 'd, 't) broker" where
  "broker_handle guard_inbound keys_of env msg conn b =
     (case stateless_reply conn msg of
        Some reply \<Rightarrow> ([ToSelf reply], conn, b)
      | None \<Rightarrow>
          let l = (case cs_host_game conn of None \<Rightarrow> bk_lobby b | Some r \<Rightarrow> snd (refresh_liveness r (be_now_ms env) (bk_lobby b))) in
          case guard_inbound msg of
            Err reason \<Rightarrow> ([error_out reason], conn, b\<lparr>bk_lobby := l\<rparr>)
          | Panic \<Rightarrow> ([], conn, b\<lparr>bk_lobby := l\<rparr>)
          | Ok _ \<Rightarrow> (case dispatch keys_of (bk_tournaments b) env msg conn l of (out, conn, l) \<Rightarrow> (out, conn, b\<lparr>bk_lobby := l\<rparr>)))"

definition on_disconnect :: "conn_state \<Rightarrow> ('f, 'm, 'd) lobby_manager \<Rightarrow> ('f, 'm, 'd, 't) outbound list \<times> conn_state \<times> ('f, 'm, 'd) lobby_manager" where
  "on_disconnect conn l =
     (case (if cs_reservations conn = [] then ([], conn, l)
            else case release_reservations (cs_reservations conn) l of (changed, l) \<Rightarrow>
              (if changed then concat (map (\<lambda>(game_code, _). updated_row l game_code) (cs_reservations conn)) else [],
               conn\<lparr>cs_reservations := []\<rparr>, l)) of (out, conn, l) \<Rightarrow>
      case drop_hosted conn l of (out', conn, l) \<Rightarrow>
        (out @ out' @ (if cs_subscribed conn then [RemoveSubscriber] else []), conn\<lparr>cs_subscribed := False\<rparr>, l))"

fun reap_lobby :: "lobby_registration list \<Rightarrow> ('f, 'm, 'd) lobby_manager \<Rightarrow> (string list \<times> nat) \<times> ('f, 'm, 'd) lobby_manager" where
  "reap_lobby [] l = (([], 0), l)"
| "reap_lobby (expired # handled) l =
     (case unregister_expired expired l of (consumption, l) \<Rightarrow>
        case reap_lobby handled l of ((removed, superseded), l) \<Rightarrow>
          (case consumption of
             Superseded \<Rightarrow> (removed, superseded + 1)
           | _ \<Rightarrow> (lr_game_code expired # removed, superseded), l))"

definition reap_expired ::
  "((string, ('f, 'm, 'd) lobby_game_meta) fmap \<Rightarrow> string list) \<Rightarrow> nat \<Rightarrow> nat \<Rightarrow> ('f, 'm, 'd) lobby_manager
   \<Rightarrow> ('f, 'm, 'd, 't) outbound list \<times> ('f, 'm, 'd) lobby_manager" where
  "reap_expired keys_of timeout_secs now_ms l =
     (case reap_lobby (check_expired keys_of timeout_secs now_ms l) l of ((removed, _), l) \<Rightarrow>
        (map (\<lambda>game_code. ToSubscribers (LobbyGameRemoved game_code)) removed, l))"


section \<open>Rooms\<close>

text \<open>The shape of the rooms of a lobby that only the broker writes: one to 255 seats, no more players
  than seats, few enough reservations for the counters, and the host present.\<close>

definition room_ok :: "('f, 'm, 'd) lobby_game_meta \<Rightarrow> bool" where
  "room_ok meta \<longleftrightarrow> 1 \<le> lm_max_players meta \<and> lm_max_players meta \<le> 255 \<and> lm_current_players meta \<le> lm_max_players meta
     \<and> reservation_count meta \<le> 255 \<and> lm_host_presence meta = Present"

definition rooms_ok :: "('f, 'm, 'd) lobby_manager \<Rightarrow> bool" where
  "rooms_ok l \<longleftrightarrow> (\<forall>code meta. fmlookup (lb_games l) code = Some meta \<longrightarrow> room_ok meta)"

lemma rooms_ok_modify:
  assumes "rooms_ok l" and "\<And>meta. fmlookup (lb_games l) code = Some meta \<Longrightarrow> room_ok meta \<Longrightarrow> room_ok (f meta)"
  shows "rooms_ok (modify_game code f l)"
  using assms by (fastforce simp: rooms_ok_def modify_game_lookup split: if_splits)

lemma room_occupied: "room_ok meta \<Longrightarrow> occupied meta = lm_current_players meta + reservation_count meta"
  by (simp add: room_ok_def occupied_def add_u32_def)

named_theorems room_intros \<open>operations that keep the shape of the rooms\<close>

lemma cleanup_presence [simp]:
  "lm_host_presence (snd (cleanup_expired_for now meta)) = lm_host_presence meta"
  "lm_public (snd (cleanup_expired_for now meta)) = lm_public meta"
  by (simp_all add: cleanup_expired_for_def Let_def)

lemma room_cleanup: "room_ok meta \<Longrightarrow> room_ok (snd (cleanup_expired_for now meta))"
  using reservation_count_cleanup [of now meta] by (simp add: room_ok_def)

lemma room_release: "room_ok meta \<Longrightarrow> room_ok (meta\<lparr>lm_reservations := fmdrop token (lm_reservations meta)\<rparr>)"
  using reservation_count_drop [of token meta] by (simp add: room_ok_def)

lemma room_seated: "room_ok meta \<Longrightarrow> n \<le> lm_max_players meta \<Longrightarrow> room_ok (meta\<lparr>lm_current_players := n\<rparr>)"
  by (simp add: room_ok_def)

lemma rooms_cleanup [room_intros]: "rooms_ok l \<Longrightarrow> rooms_ok (modify_game code (snd \<circ> cleanup_expired_for now) l)"
  by (rule rooms_ok_modify) (simp_all add: room_cleanup)

lemma rooms_has_active [room_intros]: "rooms_ok l \<Longrightarrow> rooms_ok (snd (has_active_reservation code token now l))"
  by (simp add: has_active_reservation_def rooms_cleanup split: option.split)

lemma rooms_release [room_intros]: "rooms_ok l \<Longrightarrow> rooms_ok (snd (release_reservation code token l))"
  by (auto simp: release_reservation_def intro: rooms_ok_modify room_release split: option.split)

lemma rooms_consume [room_intros]: "rooms_ok l \<Longrightarrow> rooms_ok (snd (consume_reservation code token l))"
  by (auto simp: consume_reservation_def split: option.split intro!: rooms_ok_modify room_seated [OF room_release, simplified])

lemma rooms_refresh [room_intros]: "rooms_ok l \<Longrightarrow> rooms_ok (snd (refresh_liveness r now l))"
  by (auto simp: refresh_liveness_def room_ok_def intro!: rooms_ok_modify)

lemma rooms_unregister [room_intros]: "rooms_ok l \<Longrightarrow> rooms_ok (unregister_game code l)"
  by (auto simp: rooms_ok_def unregister_game_def)

lemma rooms_unregister_registration [room_intros]: "rooms_ok l \<Longrightarrow> rooms_ok (snd (unregister_registration r l))"
  by (simp add: unregister_registration_def Let_def rooms_unregister)

lemma rooms_reserve [room_intros]:
  assumes "rooms_ok l" shows "rooms_ok (snd (reserve_seat code name now token l))"
proof (cases "fmlookup (lb_games l) code")
  case None then show ?thesis using assms by (simp add: reserve_seat_def)
next
  case (Some meta)
  let ?l = "modify_game code (snd \<circ> cleanup_expired_for now) l" and ?meta = "snd (cleanup_expired_for now meta)"
  have l: "rooms_ok ?l" using assms by (rule rooms_cleanup)
  have m: "room_ok ?meta" using Some assms by (auto simp: rooms_ok_def room_cleanup)
  have "rooms_ok (modify_game code (\<lambda>meta. meta\<lparr>lm_reservations := fmupd token r (lm_reservations meta)\<rparr>) ?l)"
    if room: "\<not> (0 < lm_max_players ?meta \<and> lm_max_players ?meta \<le> occupied ?meta)" for r
  proof (rule rooms_ok_modify [OF l])
    fix meta' assume "fmlookup (lb_games ?l) code = Some meta'"
    then have "meta' = ?meta" using Some by (simp add: modify_game_lookup)
    moreover have "reservation_count ?meta < 255" using room m by (simp add: room_occupied) (simp add: room_ok_def)
    ultimately show "room_ok (meta'\<lparr>lm_reservations := fmupd token r (lm_reservations meta')\<rparr>)"
      using m reservation_count_insert [of token r ?meta] by (simp add: room_ok_def)
  qed
  then show ?thesis using Some l by (simp add: reserve_seat_def Let_def)
qed

section \<open>The feed of a subscriber\<close>

text \<open>A client keeps the listed games by code and replays the frames it is sent: a snapshot replaces
  the table, an added or updated row is put under its code, a removal deletes it.\<close>

type_synonym ('f, 'd) rows = "string \<Rightarrow> ('f, 'd) lobby_game option"

definition mirror_frame :: "('f, 'm, 'd, 't) lobby_server_message \<Rightarrow> ('f, 'd) rows \<Rightarrow> ('f, 'd) rows" where
  "mirror_frame msg rows =
     (case msg of
        LobbyUpdate games \<Rightarrow> map_of (map (\<lambda>g. (lg_game_code g, g)) games)
      | LobbyGameAdded g \<Rightarrow> rows(lg_game_code g \<mapsto> g)
      | LobbyGameUpdated g \<Rightarrow> rows(lg_game_code g \<mapsto> g)
      | LobbyGameRemoved game_code \<Rightarrow> rows(game_code := None)
      | _ \<Rightarrow> rows)"

definition replay_out :: "string \<Rightarrow> ('f, 'm, 'd, 't) outbound \<Rightarrow> ('f, 'd) rows \<Rightarrow> ('f, 'd) rows" where
  "replay_out viewer out rows =
     (case out of
        ToSubscribers msg \<Rightarrow> (case lobby_frame_for_viewer msg viewer of None \<Rightarrow> rows | Some frame \<Rightarrow> mirror_frame frame rows)
      | _ \<Rightarrow> rows)"

abbreviation replay :: "string \<Rightarrow> ('f, 'm, 'd, 't) outbound list \<Rightarrow> ('f, 'd) rows \<Rightarrow> ('f, 'd) rows" where
  "replay viewer \<equiv> fold (replay_out viewer)"

text \<open>A row is current up to reservations that have lapsed since it was sent.\<close>

definition row_le :: "('f, 'd) lobby_game \<Rightarrow> ('f, 'd) lobby_game \<Rightarrow> bool" where
  "row_le g g' \<longleftrightarrow> g = g'\<lparr>lg_current_players := lg_current_players g\<rparr> \<and> lg_current_players g \<le> lg_current_players g'"

definition shows_row :: "string \<Rightarrow> ('f, 'd) lobby_game option \<Rightarrow> ('f, 'd) lobby_game option \<Rightarrow> bool" where
  "shows_row viewer listing row =
     (case listing of
        None \<Rightarrow> row = None
      | Some g \<Rightarrow> if lobby_row_visible_to g viewer then (\<exists>g'. row = Some g' \<and> row_le g g') else row = None)"

definition mirrors :: "string \<Rightarrow> ('f, 'm, 'd) lobby_manager \<Rightarrow> ('f, 'd) rows \<Rightarrow> bool" where
  "mirrors viewer l rows \<longleftrightarrow> (\<forall>code. shows_row viewer (public_game l code) (rows code))"

text \<open>The frames sent with a change of the lobby keep every viewer's table a mirror of it.\<close>

definition announced :: "('f, 'm, 'd) lobby_manager \<Rightarrow> ('f, 'm, 'd, 't) outbound list \<Rightarrow> ('f, 'm, 'd) lobby_manager \<Rightarrow> bool" where
  "announced l outs l' \<longleftrightarrow> (\<forall>viewer rows. mirrors viewer l rows \<longrightarrow> mirrors viewer l' (replay viewer outs rows))"

lemma row_le_refl [simp]: "row_le g g"
  by (simp add: row_le_def)

lemma row_le_trans: "row_le g1 g2 \<Longrightarrow> row_le g2 g3 \<Longrightarrow> row_le g1 g3"
  by (cases g1; cases g2; cases g3) (simp add: row_le_def)

lemma row_le_visible: "row_le g g' \<Longrightarrow> lobby_row_visible_to g viewer = lobby_row_visible_to g' viewer"
  by (cases g; cases g') (simp add: row_le_def lobby_row_visible_to_def)

lemma announced_append: "announced l outs l1 \<Longrightarrow> announced l1 outs' l2 \<Longrightarrow> announced l (outs @ outs') l2"
  by (simp add: announced_def)

lemma replay_self [simp]:
  "replay_out viewer (ToSelf m) rows = rows" "replay_out viewer AddSubscriber rows = rows"
  "replay_out viewer RemoveSubscriber rows = rows" "replay_out viewer SendPlayerCountToSelf rows = rows"
  "replay_out viewer (error_out e) rows = rows" "replay_out viewer (peer_info c i t) rows = rows"
  "replay_out viewer (join_target_frame c i t x b) rows = rows"
  by (simp_all add: replay_out_def error_out_def peer_info_def join_target_frame_def)

lemma announced_replies: "(\<And>viewer rows. replay viewer outs rows = rows) \<Longrightarrow> announced l outs l"
  by (simp add: announced_def)

definition quiet :: "('f, 'm, 'd) lobby_manager \<Rightarrow> ('f, 'm, 'd) lobby_manager \<Rightarrow> bool" where
  "quiet l l' \<longleftrightarrow> (\<forall>code. rel_option (\<lambda>g' g. row_le g' g) (public_game l' code) (public_game l code))"

lemma quiet_refl [simp]: "quiet l l"
  by (simp add: quiet_def option.rel_refl)

lemma shows_row_quiet:
  "shows_row viewer x row \<Longrightarrow> rel_option (\<lambda>g' g. row_le g' g) y x \<Longrightarrow> shows_row viewer y row"
  by (cases x; cases y) (auto simp: shows_row_def row_le_visible split: if_splits intro: row_le_trans)

lemma announced_quiet: "quiet l l' \<Longrightarrow> announced l [] l'"
  by (auto simp: announced_def quiet_def mirrors_def intro: shows_row_quiet)

lemma quiet_trans: "quiet l l1 \<Longrightarrow> quiet l1 l2 \<Longrightarrow> quiet l l2"
  unfolding quiet_def
proof
  fix code assume q: "\<forall>code. rel_option (\<lambda>g' g. row_le g' g) (public_game l1 code) (public_game l code)"
    "\<forall>code. rel_option (\<lambda>g' g. row_le g' g) (public_game l2 code) (public_game l1 code)"
  show "rel_option (\<lambda>g' g. row_le g' g) (public_game l2 code) (public_game l code)"
    using q(1) [rule_format, of code] q(2) [rule_format, of code]
    by (cases "public_game l code"; cases "public_game l1 code"; cases "public_game l2 code") (auto intro: row_le_trans)
qed

lemma quiet_announced: "quiet l l1 \<Longrightarrow> announced l1 outs l2 \<Longrightarrow> announced l outs l2"
  using announced_append [OF announced_quiet, of l l1 outs l2] by simp

lemma announced_then_quiet: "announced l outs l1 \<Longrightarrow> quiet l1 l2 \<Longrightarrow> announced l outs l2"
  using announced_append [OF _ announced_quiet, of l outs l1 l2] by simp

lemma public_game_code [simp]: "public_game l code = Some g \<Longrightarrow> lg_game_code g = code"
  by (auto simp: public_game_def meta_to_lobby_game_def split: option.splits if_splits)

lemma replay_removed [simp]: "replay_out viewer (ToSubscribers (LobbyGameRemoved code)) rows = rows(code := None)"
  by (simp add: replay_out_def lobby_frame_for_viewer_def mirror_frame_def)

lemma replay_updated_row:
  "replay viewer (updated_row l code) rows = (case public_game l code of None \<Rightarrow> rows
     | Some g \<Rightarrow> rows(code := if lobby_row_visible_to g viewer then Some g else None))"
  by (auto simp: updated_row_def replay_out_def lobby_frame_for_viewer_def deliver_row_def row_delivery_def mirror_frame_def fun_upd_def
      split: option.split)

lemma replay_added:
  assumes "public_game l code = Some g"
  shows "replay_out viewer (ToSubscribers (LobbyGameAdded g)) rows = (if lobby_row_visible_to g viewer then rows(code \<mapsto> g) else rows)"
  using assms by (simp add: replay_out_def lobby_frame_for_viewer_def deliver_row_def row_delivery_def mirror_frame_def)

lemma replay_updated_rows:
  "replay viewer (concat (map (updated_row l) codes)) rows =
     (\<lambda>c. if c \<in> set codes then (case public_game l c of None \<Rightarrow> rows c | Some g \<Rightarrow> if lobby_row_visible_to g viewer then Some g else None)
          else rows c)"
proof (induction codes arbitrary: rows)
  case (Cons code codes)
  show ?case by (rule ext) (auto simp: Cons.IH replay_updated_row split: option.split)
qed simp

definition agree_off :: "string set \<Rightarrow> ('f, 'm, 'd) lobby_manager \<Rightarrow> ('f, 'm, 'd) lobby_manager \<Rightarrow> bool" where
  "agree_off codes l l' \<longleftrightarrow>
     (\<forall>c. c \<notin> codes \<longrightarrow> fmlookup (lb_games l') c = fmlookup (lb_games l) c)
   \<and> (\<forall>c. map_option listed (fmlookup (lb_games l') c) = map_option listed (fmlookup (lb_games l) c))"

lemma agree_off_refl [simp]: "agree_off codes l l"
  by (simp add: agree_off_def)

lemma agree_off_trans: "agree_off codes l l1 \<Longrightarrow> agree_off codes l1 l2 \<Longrightarrow> agree_off codes l l2"
  by (simp add: agree_off_def)

lemma agree_off_mono: "agree_off codes l l' \<Longrightarrow> codes \<subseteq> codes' \<Longrightarrow> agree_off codes' l l'"
  by (auto simp: agree_off_def)

lemma agree_off_public: "agree_off codes l l' \<Longrightarrow> (public_game l' c = None) = (public_game l c = None)"
proof -
  assume "agree_off codes l l'"
  then have "map_option listed (fmlookup (lb_games l') c) = map_option listed (fmlookup (lb_games l) c)" by (simp add: agree_off_def)
  then show ?thesis
    by (cases "fmlookup (lb_games l) c"; cases "fmlookup (lb_games l') c") (simp_all add: public_game_def)
qed

lemma agree_off_elsewhere: "agree_off codes l l' \<Longrightarrow> c \<notin> codes \<Longrightarrow> public_game l' c = public_game l c"
  by (simp add: agree_off_def public_game_def)

lemma agree_off_modify:
  "(\<And>meta. fmlookup (lb_games l) code = Some meta \<Longrightarrow> listed (f meta) = listed meta) \<Longrightarrow> agree_off {code} l (modify_game code f l)"
  by (cases "fmlookup (lb_games l) code") (auto simp: agree_off_def modify_game_lookup)

lemma announced_rows:
  assumes "agree_off (set codes) l l'"
  shows "announced l (concat (map (updated_row l') codes)) l'"
  unfolding announced_def mirrors_def replay_updated_rows
proof (intro allI impI)
  fix viewer rows code assume "\<forall>code. shows_row viewer (public_game l code) (rows code)"
  then have "shows_row viewer (public_game l code) (rows code)" ..
  then show "shows_row viewer (public_game l' code)
      (if code \<in> set codes then case public_game l' code of None \<Rightarrow> rows code | Some g \<Rightarrow> if lobby_row_visible_to g viewer then Some g else None
       else rows code)"
    using agree_off_elsewhere [OF assms, of code] agree_off_public [OF assms, of code]
    by (auto simp: shows_row_def split: option.split)
qed

lemma announced_row: "agree_off {code} l l' \<Longrightarrow> announced l (updated_row l' code) l'"
  using announced_rows [of "[code]" l l'] by simp

lemma announced_removal: "announced l [ToSubscribers (LobbyGameRemoved code)] (unregister_game code l)"
  by (simp add: announced_def mirrors_def unregister_game_def public_game_def shows_row_def)

lemma announced_absence: "\<not> has_game l code \<Longrightarrow> announced l [ToSubscribers (LobbyGameRemoved code)] l"
  by (auto simp: announced_def mirrors_def has_game_def public_game_def shows_row_def)

section \<open>Every handler announces what it does\<close>

lemma public_game_modify:
  "public_game (modify_game code f l) c =
     (if c = code then (case fmlookup (lb_games l) code of None \<Rightarrow> None
        | Some meta \<Rightarrow> if listed (f meta) then Some (meta_to_lobby_game code (f meta)) else None)
      else public_game l c)"
  by (auto simp: public_game_def modify_game_lookup split: option.split)

lemma quiet_modify:
  assumes "\<And>meta. fmlookup (lb_games l) code = Some meta \<Longrightarrow>
     listed (f meta) = listed meta \<and> row_le (meta_to_lobby_game code (f meta)) (meta_to_lobby_game code meta)"
  shows "quiet l (modify_game code f l)"
  unfolding quiet_def public_game_modify using assms
  by (auto simp: public_game_def option.rel_refl split: option.split)

lemma row_le_occupied:
  assumes "meta' = meta\<lparr>lm_reservations := lm_reservations meta', lm_current_players := lm_current_players meta', lm_last_seen := lm_last_seen meta'\<rparr>"
    and "occupied meta' \<le> occupied meta"
  shows "row_le (meta_to_lobby_game code meta') (meta_to_lobby_game code meta)"
  using assms by (cases meta; cases meta') (auto simp: row_le_def meta_to_lobby_game_def)

lemma quiet_cleanup: "rooms_ok l \<Longrightarrow> quiet l (modify_game code (snd \<circ> cleanup_expired_for now) l)"
proof (rule quiet_modify)
  fix meta assume "rooms_ok l" "fmlookup (lb_games l) code = Some meta"
  then have "room_ok meta" by (auto simp: rooms_ok_def)
  then have "occupied (snd (cleanup_expired_for now meta)) \<le> occupied meta"
    using reservation_count_cleanup [of now meta] by (simp add: room_occupied room_cleanup)
  then show "listed ((snd \<circ> cleanup_expired_for now) meta) = listed meta
      \<and> row_le (meta_to_lobby_game code ((snd \<circ> cleanup_expired_for now) meta)) (meta_to_lobby_game code meta)"
    by (auto simp: listed_def intro!: row_le_occupied) (simp add: cleanup_expired_for_def Let_def)
qed

lemma quiet_has_active: "rooms_ok l \<Longrightarrow> quiet l (snd (has_active_reservation code token now l))"
  by (auto simp: has_active_reservation_def quiet_cleanup split: option.split)

lemma quiet_refresh: "quiet l (snd (refresh_liveness r now l))"
  by (auto simp: refresh_liveness_def listed_def occupied_def intro!: quiet_modify row_le_occupied)

lemma quiet_consume: "rooms_ok l \<Longrightarrow> quiet l (snd (consume_reservation code token l))"
proof (cases "reservation_of l code token")
  case None then show ?thesis using consume_frame(1,2) [OF prod.collapse [symmetric]] by (metis quiet_refl)
next
  case (Some r)
  assume rooms: "rooms_ok l"
  let ?f = "\<lambda>meta :: ('a, 'b, 'c) lobby_game_meta. meta\<lparr>lm_reservations := fmdrop token (lm_reservations meta),
      lm_current_players := min (add_u32 (lm_current_players meta) 1) (lm_max_players meta)\<rparr>"
  obtain m where m: "fmlookup (lb_games l) code = Some m" "fmlookup (lm_reservations m) token = Some r"
    using Some by (auto simp: reservation_of_def bind_eq_Some_conv)
  have ok: "room_ok m" using rooms m by (auto simp: rooms_ok_def)
  then have "room_ok (?f m)" using room_seated [OF room_release [OF ok, of token]] by simp
  then have "occupied (?f m) \<le> occupied m"
    using ok reservation_count_drop_held [OF m(2)] by (simp only: room_occupied) (auto simp: room_ok_def add_u32_def min_def)
  then have "quiet l (modify_game code ?f l)"
    using m(1) by (intro quiet_modify) (auto simp: listed_def intro!: row_le_occupied)
  then show ?thesis using m by (simp add: consume_reservation_def)
qed

lemma agree_cleanup: "agree_off {code} l (modify_game code (snd \<circ> cleanup_expired_for now) l)"
  by (rule agree_off_modify) (simp add: listed_def)

lemma agree_release: "agree_off {code} l (snd (release_reservation code token l))"
  by (auto simp: release_reservation_def listed_def intro!: agree_off_modify split: option.split)

lemma agree_consume: "agree_off {code} l (snd (consume_reservation code token l))"
  by (auto simp: consume_reservation_def listed_def intro!: agree_off_modify split: option.split)

lemma agree_reserve: "agree_off {code} l (snd (reserve_seat code name now token l))"
  by (auto simp: reserve_seat_def Let_def listed_def intro!: agree_cleanup agree_off_trans [OF agree_cleanup agree_off_modify] split: option.split)

lemma agree_set_current: "agree_off {code} l (set_current_players code n now l)"
  unfolding set_current_players_def by (rule agree_off_modify) (simp add: listed_def)

lemma agree_set_max: "agree_off {code} l (set_max_players code n l)"
  unfolding set_max_players_def by (rule agree_off_modify) (simp add: listed_def)

lemma agree_consume_all: "agree_off {code} l (snd (consume_all code tokens l))"
proof (induction tokens arbitrary: l)
  case (Cons token tokens)
  show ?case using agree_off_trans [OF agree_consume Cons.IH] by (simp add: split_beta)
qed simp

lemma rooms_consume_all: "rooms_ok l \<Longrightarrow> rooms_ok (snd (consume_all code tokens l))"
  by (induction tokens arbitrary: l) (simp_all add: split_beta rooms_consume)

lemma agree_release_all: "agree_off (fst ` set rs) l (snd (release_reservations rs l))"
proof (induction rs arbitrary: l)
  case (Cons r rs)
  obtain code token where r: "r = (code, token)" by fastforce
  have "agree_off (fst ` set (r # rs)) l (snd (release_reservation code token l))"
    using agree_release by (rule agree_off_mono) (simp add: r)
  moreover have "agree_off (fst ` set (r # rs)) (snd (release_reservation code token l)) (snd (release_reservations rs (snd (release_reservation code token l))))"
    using Cons.IH by (rule agree_off_mono) auto
  ultimately show ?case by (auto simp: r split_beta intro: agree_off_trans)
qed simp

lemma rooms_release_all: "rooms_ok l \<Longrightarrow> rooms_ok (snd (release_reservations rs l))"
  by (induction rs arbitrary: l) (auto simp: split_beta rooms_release)

lemma release_all_unchanged: "\<not> fst (release_reservations rs l) \<Longrightarrow> snd (release_reservations rs l) = l"
proof (induction rs arbitrary: l)
  case (Cons r rs)
  obtain code token where r: "r = (code, token)" by fastforce
  have "snd (release_reservation code token l) = l"
    using Cons.prems release_frame(2) [OF prod.collapse [symmetric], of code token l] by (simp add: r split_beta)
  then show ?case using Cons by (simp add: r split_beta)
qed simp

text \<open>A call is served when it keeps the shape of the rooms and announces its change.\<close>

definition served :: "('f, 'm, 'd) lobby_manager \<Rightarrow> ('f, 'm, 'd, 't) outbound list \<times> 'c \<times> ('f, 'm, 'd) lobby_manager \<Rightarrow> bool" where
  "served l result \<longleftrightarrow> (case result of (outs, _, l') \<Rightarrow> rooms_ok l' \<and> announced l outs l')"

lemma served_reply: "rooms_ok l \<Longrightarrow> (\<And>viewer rows. replay viewer outs rows = rows) \<Longrightarrow> served l (outs, conn, l)"
  by (simp add: served_def announced_replies)

lemma served_quiet: "quiet l l' \<Longrightarrow> rooms_ok l' \<Longrightarrow> (\<And>viewer rows. replay viewer outs rows = rows) \<Longrightarrow> served l (outs, conn, l')"
  by (simp add: served_def quiet_announced announced_replies)

lemma served_after: "announced l outs l1 \<Longrightarrow> served l1 (outs', conn, l2) \<Longrightarrow> served l (outs @ outs', conn', l2)"
  by (auto simp: served_def intro: announced_append)

lemma served_after_quiet: "quiet l l1 \<Longrightarrow> served l1 result \<Longrightarrow> served l result"
  by (auto simp: served_def intro: quiet_announced)

lemma drop_hosted_served: "rooms_ok l \<Longrightarrow> served l (drop_hosted conn l)"
  by (auto simp: drop_hosted_def served_def unregister_registration_def Let_def rooms_unregister
      announced_removal announced_replies split: option.split)

lemma open_room_served:
  assumes "rooms_ok l" "\<not> has_game l code"
  shows "served l (open_room env code hello peer_id c conn l)"
proof -
  let ?l = "snd (register_game code (register_request hello peer_id c) (be_now_ms env) l)"
  have other: "public_game ?l c' = public_game l c'" if "c' \<noteq> code" for c'
    using that by (simp add: public_game_def register_game_def Let_def)
  have absent: "public_game l code = None" using assms(2) by (simp add: public_game_def has_game_def split: option.split)
  have listed: "public_game ?l code \<noteq> None \<longleftrightarrow> cr_public c"
    by (simp add: public_game_def register_game_def Let_def listed_def register_request_def)
  have "rooms_ok ?l"
    using assms(1) by (auto simp: rooms_ok_def room_ok_def register_game_def register_request_def Let_def reservation_count_def fcard_fempty)
  moreover have "announced l (fst (open_room env code hello peer_id c conn l)) ?l"
    unfolding announced_def mirrors_def
  proof (intro allI impI)
    fix viewer rows c' assume m: "\<forall>code. shows_row viewer (public_game l code) (rows code)"
    have none: "rows code = None" using m [rule_format, of code] absent by (simp add: shows_row_def)
    show "shows_row viewer (public_game ?l c') (replay viewer (fst (open_room env code hello peer_id c conn l)) rows c')"
      using m [rule_format, of c'] other [of c'] none listed
      by (cases "public_game ?l code"; cases "c' = code")
        (auto simp: open_room_def split_beta shows_row_def replay_added split: option.split)
  qed
  ultimately show ?thesis by (simp add: served_def open_room_def split_beta)
qed

lemma create_served:
  fixes l :: "('f, 'm, 'd) lobby_manager"
  assumes "rooms_ok l" and fresh: "cr_requested_code c = None \<longrightarrow> \<not> has_game l (be_new_game_code env)"
  shows "served l (handle_create_game env c conn l :: ('f, 'm, 'd, 't) outbound list \<times> _)"
proof (cases "trimmed (cr_host_peer_id c) = None \<or> cs_client_hello conn = None")
  case True
  then show ?thesis using assms(1) by (auto simp: handle_create_game_def intro!: served_reply split: option.split)
next
  case False
  then obtain peer_id hello where ph: "trimmed (cr_host_peer_id c) = Some peer_id" "cs_client_hello conn = Some hello" by auto
  obtain out :: "('f, 'm, 'd, 't) outbound list" and conn1 l1 where d: "drop_hosted conn l = (out, conn1, l1)" by (metis prod_cases3)
  have "served l (out, conn1, l1)" unfolding d [symmetric] using assms(1) by (rule drop_hosted_served)
  then have l1: "rooms_ok l1" "announced l out l1" by (simp_all add: served_def)
  have gone: "has_game l1 code \<Longrightarrow> has_game l code" for code
    using d by (auto simp: drop_hosted_def unregister_registration_def unregister_game_def has_game_def Let_def split: option.splits if_splits)
  define code where "code = (case cr_requested_code c of None \<Rightarrow> be_new_game_code env | Some code \<Rightarrow> code)"
  have "\<not> has_game l1 code" if "\<not> (case cr_requested_code c of None \<Rightarrow> False | Some code \<Rightarrow> has_game l1 code)"
    using that fresh gone by (auto simp: code_def split: option.splits)
  then have opened: "served l1 (open_room env code hello peer_id c conn1 l1 :: ('f, 'm, 'd, 't) outbound list \<times> _)"
    if "\<not> (case cr_requested_code c of None \<Rightarrow> False | Some code \<Rightarrow> has_game l1 code)"
    using that by (intro open_room_served l1)
  obtain out' :: "('f, 'm, 'd, 't) outbound list" and conn2 l2 where o: "open_room env code hello peer_id c conn1 l1 = (out', conn2, l2)"
    by (metis prod_cases3)
  show ?thesis using opened l1
    by (auto simp: handle_create_game_def ph d o code_def [symmetric] intro!: served_after [OF l1(2)] served_reply)
qed

lemma consume_owned_lobby:
  "snd (consume_owned_reservation held code token l) = l \<or> snd (consume_owned_reservation held code token l) = snd (consume_reservation code token l)"
  by (simp add: consume_owned_reservation_def split_beta)

lemma release_owned_lobby:
  "snd (release_owned_reservation held code token l) = (if (code, token) \<in> set held then snd (release_reservation code token l) else l)"
  by (simp add: release_owned_reservation_def conn_holds_reservation_def split_beta)

lemma join_gate_no_panic: "join_gate code password conn l \<noteq> Panic"
  by (auto simp: join_gate_def verify_password_def split: build_commit_check.split option.split outcome.split)

lemma join_gate_error: "join_gate code password conn l = Err e \<Longrightarrow> replay_out viewer e rows = rows"
  by (auto simp: join_gate_def split: build_commit_check.splits option.splits outcome.splits if_splits)

lemma join_served:
  fixes l :: "('f, 'm, 'd) lobby_manager"
  assumes "rooms_ok l" shows "served l (handle_join code name password token conn l :: ('f, 'm, 'd, 't) outbound list \<times> _)"
proof (cases "join_gate code password conn l :: (('f, 'm, 'd, 't) outbound, _) outcome")
  case (Ok info)
  have "quiet l (snd (consume_owned_reservation held code t l))" "rooms_ok (snd (consume_owned_reservation held code t l))" for held t
    using consume_owned_lobby [of held code t l] assms quiet_consume [OF assms] rooms_consume [OF assms] by auto
  note this [of "cs_reservations conn"]
  then show ?thesis using Ok assms
    by (auto simp: handle_join_def split_beta intro!: served_reply served_quiet split: option.split reservation_consume.split)
next
  case (Err e)
  then show ?thesis using assms by (auto simp: handle_join_def join_gate_error intro!: served_reply)
qed (simp add: join_gate_no_panic)

lemma retain_quiet:
  assumes "rooms_ok l" shows "quiet l (snd (retain_active code now rs l)) \<and> rooms_ok (snd (retain_active code now rs l))"
  using assms
proof (induction rs arbitrary: l)
  case (Cons r rs)
  obtain c t where r: "r = (c, t)" by fastforce
  show ?case
    using Cons.IH [OF Cons.prems] Cons.IH [OF rooms_has_active [OF Cons.prems, of c t now]] quiet_has_active [OF Cons.prems, of c t now]
    by (auto simp: r split_beta intro: quiet_trans)
qed simp

lemma lookup_reserve_served:
  assumes "rooms_ok l" shows "served l (lookup_reserve env code name info conn l)"
proof -
  obtain found kept l1 where r: "retain_active code (be_now_ms env) (cs_reservations conn) l = ((found, kept), l1)" by (metis prod.collapse)
  have l1: "quiet l l1" "rooms_ok l1" using retain_quiet [OF assms, of code "be_now_ms env" "cs_reservations conn"] by (simp_all add: r)
  let ?reserve = "\<lambda>n. reserve_seat code n (be_now_ms env) (be_new_token env) l1"
  have rooms: "rooms_ok (snd (?reserve n))" for n using l1(2) by (rule rooms_reserve)
  have row: "announced l1 (updated_row (snd (?reserve n)) code) (snd (?reserve n))" for n by (rule announced_row [OF agree_reserve])
  have quiet: "quiet l1 (snd (?reserve n))" if "fst (?reserve n) = Err e" for n e
    using that quiet_cleanup [OF l1(2)] by (auto simp: reserve_seat_def Let_def split: option.splits if_splits)
  have total: "fst (?reserve n) \<noteq> Panic" for n by (simp add: reserve_seat_def Let_def split: option.split)
  have "served l1 (lookup_reserve env code name info conn l)"
  proof (cases "?reserve (case name of None \<Rightarrow> ''Player'' | Some name \<Rightarrow> name)")
    case (Pair result l2)
    then show ?thesis using rooms [of "case name of None \<Rightarrow> ''Player'' | Some name \<Rightarrow> name"] row [of "case name of None \<Rightarrow> ''Player'' | Some name \<Rightarrow> name"]
        quiet [of "case name of None \<Rightarrow> ''Player'' | Some name \<Rightarrow> name"] total [of "case name of None \<Rightarrow> ''Player'' | Some name \<Rightarrow> name"] l1(2)
      by (cases result) (auto simp: lookup_reserve_def r Let_def intro!: served_reply served_quiet served_after)
  qed
  with l1(1) show ?thesis by (rule served_after_quiet)
qed

lemma lookup_answer_served: "rooms_ok l \<Longrightarrow> served l (lookup_answer env code reserve name info conn l)"
  by (auto simp: lookup_answer_def lookup_reserve_served intro!: served_reply)

lemma lookup_served:
  fixes l :: "('f, 'm, 'd) lobby_manager"
  assumes "rooms_ok l"
  shows "served l (handle_lookup env code password reserve name release conn l :: ('f, 'm, 'd, 't) outbound list \<times> _)"
proof (cases "join_gate code password conn l :: (('f, 'm, 'd, 't) outbound, _) outcome")
  case (Ok info)
  show ?thesis
  proof (cases release)
    case None then show ?thesis using Ok assms by (simp add: handle_lookup_def lookup_answer_served)
  next
    case (Some token)
    obtain result held l1 where r: "release_owned_reservation (cs_reservations conn) code token l = ((result, held), l1)" by (metis prod.collapse)
    have l1: "agree_off {code} l l1" "rooms_ok l1"
      using release_owned_lobby [of "cs_reservations conn" code token l] agree_release rooms_release [OF assms] assms
      by (auto simp: r split: if_splits)
    have same: "l1 = l" if "result \<noteq> Released"
      using conjunct1 [OF reservation_ownership [where held = "cs_reservations conn" and code = code and token = token and l = l]] that
      by (simp add: r)
    obtain out :: "('f, 'm, 'd, 't) outbound list" and conn2 l2
      where a: "lookup_answer env code reserve name info (conn\<lparr>cs_reservations := held\<rparr>) l1 = (out, conn2, l2)" by (metis prod_cases3)
    have "served l1 (out, conn2, l2)" unfolding a [symmetric] using l1(2) by (rule lookup_answer_served)
    with announced_row [OF l1(1)] have "served l (updated_row l1 code @ out, conn2, l2)" by (rule served_after)
    then show ?thesis using Ok Some same assms
      by (cases result) (auto simp: handle_lookup_def r a lookup_answer_served intro!: served_reply)
  qed
next
  case (Err e)
  then show ?thesis using assms by (auto simp: handle_lookup_def join_gate_error intro!: served_reply)
qed (simp add: join_gate_no_panic)

lemma update_metadata_served:
  fixes l :: "('f, 'm, 'd) lobby_manager"
  assumes "rooms_ok l" "max_players < 256"
  shows "served l (handle_update_metadata env code current_players max_players tokens conn l :: ('f, 'm, 'd, 't) outbound list \<times> _)"
proof (cases "hosts_current conn code l")
  case False
  then show ?thesis using assms(1)
    by (auto simp: handle_update_metadata_def hosts_current_def intro!: served_reply split: option.splits)
next
  case True
  obtain consumed l1 where c: "consume_all code tokens l = (consumed, l1)" by fastforce
  define target where "target = min (max current_players (if consumed then (case seated_player_count l1 code of None \<Rightarrow> 0 | Some n \<Rightarrow> n) else 0)) (max max_players 1)"
  define l2 where "l2 = set_max_players code (max max_players 1) (set_current_players code target (be_now_ms env) l1)"
  have "agree_off {code} l l1" "rooms_ok l1" using agree_consume_all rooms_consume_all [OF assms(1)] c by (metis snd_conv)+
  then have "agree_off {code} l l2" unfolding l2_def by (meson agree_off_trans agree_set_current agree_set_max)
  moreover have "rooms_ok l2"
    using \<open>rooms_ok l1\<close> room_cleanup assms(2) unfolding l2_def
    by (fastforce simp: rooms_ok_def set_max_players_def set_current_players_def modify_game_lookup room_ok_def target_def split: if_splits)
  moreover have "handle_update_metadata env code current_players max_players tokens conn l = (updated_row l2 code :: ('f, 'm, 'd, 't) outbound list, conn, l2)"
  proof -
    from True obtain r where "cs_host_game conn = Some r" "lr_game_code r = code" "is_current l r"
      by (auto simp: hosts_current_def split: option.splits)
    then show ?thesis by (simp add: handle_update_metadata_def c Let_def target_def l2_def)
  qed
  ultimately show ?thesis by (simp add: served_def announced_row)
qed

lemma dispatch_served:
  fixes l :: "('f, 'm, 'd) lobby_manager"
  assumes "rooms_ok l"
    and "\<And>c. msg = CreateGameWithSettings c \<Longrightarrow> cr_requested_code c = None \<Longrightarrow> \<not> has_game l (be_new_game_code env)"
    and "\<And>code n m tokens. msg = UpdateLobbyMetadata code n m tokens \<Longrightarrow> m < 256"
  shows "served l (dispatch keys_of (ts :: 't list) env msg conn l)"
  using assms
  by (cases msg)
    (auto simp: dispatch_def create_served join_served lookup_served update_metadata_served handle_unregister_def drop_hosted_served
      handle_subscribe_def intro!: served_reply)

lemma disconnect_served:
  fixes l :: "('f, 'm, 'd) lobby_manager"
  assumes "rooms_ok l" shows "served l (on_disconnect conn l :: ('f, 'm, 'd, 't) outbound list \<times> _)"
proof -
  let ?rs = "cs_reservations conn"
  let ?l = "snd (release_reservations ?rs l)"
  define out :: "('f, 'm, 'd, 't) outbound list"
    where "out = (if fst (release_reservations ?rs l) then concat (map (\<lambda>(code, _). updated_row ?l code) ?rs) else [])"
  define conn1 where "conn1 = (if ?rs = [] then conn else conn\<lparr>cs_reservations := []\<rparr>)"
  have "announced l (concat (map (updated_row ?l) (map fst ?rs)) :: ('f, 'm, 'd, 't) outbound list) ?l"
    using agree_release_all [of ?rs l] by (intro announced_rows) simp
  then have out: "announced l out ?l"
    using release_all_unchanged [of ?rs l] by (auto simp: out_def comp_def case_prod_unfold intro!: announced_replies)
  have rooms: "rooms_ok ?l" using assms by (rule rooms_release_all)
  obtain out' :: "('f, 'm, 'd, 't) outbound list" and conn2 l2 where d: "drop_hosted conn1 ?l = (out', conn2, l2)" by (metis prod_cases3)
  have "served ?l (out', conn2, l2)" unfolding d [symmetric] using rooms by (rule drop_hosted_served)
  then have "served ?l (out' @ (if cs_subscribed conn2 then [RemoveSubscriber] else []), conn2\<lparr>cs_subscribed := False\<rparr>, l2)"
    by (auto simp: served_def announced_def)
  from served_after [OF out this]
  have "served l (out @ out' @ (if cs_subscribed conn2 then [RemoveSubscriber] else []), conn2\<lparr>cs_subscribed := False\<rparr>, l2)" .
  moreover have "on_disconnect conn l = (out @ out' @ (if cs_subscribed conn2 then [RemoveSubscriber] else []), conn2\<lparr>cs_subscribed := False\<rparr>, l2)"
    using d by (cases "?rs = []") (simp_all add: on_disconnect_def case_prod_unfold out_def conn1_def)
  ultimately show ?thesis by simp
qed

lemma reap_served:
  "rooms_ok l \<Longrightarrow> rooms_ok (snd (reap_lobby handled l)) \<and>
     announced l (map (\<lambda>code. ToSubscribers (LobbyGameRemoved code)) (fst (fst (reap_lobby handled l)))) (snd (reap_lobby handled l))"
proof (induction handled arbitrary: l)
  case Nil then show ?case by (simp add: announced_replies)
next
  case (Cons r handled)
  let ?l = "snd (unregister_expired r l)"
  have rooms: "rooms_ok ?l" using Cons.prems by (simp add: unregister_expired_def split_beta rooms_unregister_registration)
  have step: "announced l (if fst (unregister_expired r l) = Superseded then [] else [ToSubscribers (LobbyGameRemoved (lr_game_code r))]) ?l"
    by (auto simp: unregister_expired_def unregister_registration_def Let_def announced_removal announced_absence announced_replies)
  show ?case using Cons.IH [OF rooms] announced_append [OF step]
    by (cases "fst (unregister_expired r l)") (fastforce simp: split_beta)+
qed

section \<open>Connections\<close>

text \<open>What a shell feeds the broker: frames and closings of numbered connections, and sweeps. The fresh
  code a frame may use is one no listing has, and the sizes in a metadata frame are bytes.\<close>

datatype ('f, 'm, 'd, 'k) broker_event =
    Frame nat broker_env "('f, 'm, 'd, 'k) lobby_client_message"
  | Closed nat
  | Sweep nat nat

type_synonym ('f, 'm, 'd, 't) broker_system = "(nat \<Rightarrow> conn_state) \<times> ('f, 'm, 'd, 't) broker"

definition new_conn :: conn_state where
  "new_conn = \<lparr>cs_client_hello = None, cs_subscribed = False, cs_host_game = None, cs_reservations = [],
     cs_organized_tournaments = [], cs_joined_tournaments = []\<rparr>"

definition new_system :: "'t list \<Rightarrow> ('f, 'm, 'd, 't) broker_system" where
  "new_system ts = (\<lambda>_. new_conn, \<lparr>bk_lobby = lobby_new, bk_tournaments = ts\<rparr>)"

fun broker_step ::
  "(('f, 'm, 'd, 'k) lobby_client_message \<Rightarrow> (string, unit) outcome) \<Rightarrow> ((string, ('f, 'm, 'd) lobby_game_meta) fmap \<Rightarrow> string list)
   \<Rightarrow> ('f, 'm, 'd, 'k) broker_event \<Rightarrow> ('f, 'm, 'd, 't) broker_system \<Rightarrow> ('f, 'm, 'd, 't) outbound list \<times> ('f, 'm, 'd, 't) broker_system" where
  "broker_step guard keys_of (Frame i env msg) (conns, b) =
     (case broker_handle guard keys_of env msg (conns i) b of (out, conn, b) \<Rightarrow> (out, conns(i := conn), b))"
| "broker_step guard keys_of (Closed i) (conns, b) =
     (case on_disconnect (conns i) (bk_lobby b) of (out, conn, l) \<Rightarrow> (out, conns(i := conn), b\<lparr>bk_lobby := l\<rparr>))"
| "broker_step guard keys_of (Sweep timeout now) (conns, b) =
     (case reap_expired keys_of timeout now (bk_lobby b) of (out, l) \<Rightarrow> (out, conns, b\<lparr>bk_lobby := l\<rparr>))"

fun broker_run where
  "broker_run guard keys_of [] s = ([], s)"
| "broker_run guard keys_of (e # es) s =
     (case broker_step guard keys_of e s of (out, s) \<Rightarrow> case broker_run guard keys_of es s of (out', s) \<Rightarrow> (out @ out', s))"

fun event_ok :: "('f, 'm, 'd, 'k) broker_event \<Rightarrow> ('f, 'm, 'd) lobby_manager \<Rightarrow> bool" where
  "event_ok (Frame i env (CreateGameWithSettings c)) l = (cr_requested_code c = None \<longrightarrow> \<not> has_game l (be_new_game_code env))"
| "event_ok (Frame i env (UpdateLobbyMetadata code n m tokens)) l = (m < 256)"
| "event_ok _ l = True"

fun events_ok where
  "events_ok guard keys_of [] s = True"
| "events_ok guard keys_of (e # es) s = (event_ok e (bk_lobby (snd s)) \<and> events_ok guard keys_of es (snd (broker_step guard keys_of e s)))"

lemma refresh_has_game: "has_game (snd (refresh_liveness r now l)) code = has_game l code"
  by (auto simp: refresh_liveness_def has_game_def modify_game_lookup)

lemma handle_served:
  fixes b :: "('f, 'm, 'd, 't) broker"
  assumes "rooms_ok (bk_lobby b)" "event_ok (Frame i env msg) (bk_lobby b)"
    and "broker_handle guard keys_of env msg conn b = (out, conn', b')"
  shows "rooms_ok (bk_lobby b') \<and> announced (bk_lobby b) out (bk_lobby b')"
proof -
  define l where "l = (case cs_host_game conn of None \<Rightarrow> bk_lobby b | Some r \<Rightarrow> snd (refresh_liveness r (be_now_ms env) (bk_lobby b)))"
  have l: "quiet (bk_lobby b) l" "rooms_ok l" "\<And>code. has_game l code = has_game (bk_lobby b) code"
    using assms(1) by (auto simp: l_def quiet_refresh rooms_refresh refresh_has_game split: option.split)
  have d: "served l (dispatch keys_of (bk_tournaments b) env msg conn l)"
    using assms(2) l(2,3) by (intro dispatch_served) auto
  show ?thesis
  proof (cases "stateless_reply conn msg :: ('f, 'm, 'd, 't) lobby_server_message option")
    case None
    then show ?thesis using assms(3) l d served_after_quiet [OF l(1) d]
      by (auto simp: broker_handle_def l_def [symmetric] served_def quiet_announced announced_replies split: outcome.splits prod.splits)
  next
    case (Some reply)
    then show ?thesis using assms(1,3) by (auto simp: broker_handle_def announced_replies)
  qed
qed

lemma step_served:
  fixes s :: "('f, 'm, 'd, 't) broker_system"
  assumes "rooms_ok (bk_lobby (snd s))" "event_ok e (bk_lobby (snd s))" "broker_step guard keys_of e s = (out, s')"
  shows "rooms_ok (bk_lobby (snd s')) \<and> announced (bk_lobby (snd s)) out (bk_lobby (snd s'))"
proof -
  obtain conns b where s: "s = (conns, b)" by fastforce
  show ?thesis
  proof (cases e)
    case (Frame i env msg)
    with assms(3) show ?thesis unfolding s
      by (auto split: prod.splits dest!: handle_served [OF assms(1,2) [unfolded s Frame snd_conv]])
  next
    case (Closed i)
    then show ?thesis using assms disconnect_served [of "bk_lobby b" "conns i", where 't = 't] by (auto simp: s served_def split: prod.splits)
  next
    case (Sweep timeout now)
    then show ?thesis using assms reap_served [of "bk_lobby b" "check_expired keys_of timeout now (bk_lobby b)", where 'd = 't]
      by (auto simp: s reap_expired_def split: prod.splits)
  qed
qed

lemma run_served:
  fixes s :: "('f, 'm, 'd, 't) broker_system"
  assumes "rooms_ok (bk_lobby (snd s))" "events_ok guard keys_of es s" "broker_run guard keys_of es s = (out, s')"
  shows "rooms_ok (bk_lobby (snd s')) \<and> announced (bk_lobby (snd s)) out (bk_lobby (snd s'))"
  using assms
proof (induction es arbitrary: s out)
  case Nil then show ?case by (simp add: announced_replies)
next
  case (Cons e es)
  obtain o1 s1 where s1: "broker_step guard keys_of e s = (o1, s1)" by (metis surj_pair)
  obtain o2 where o2: "broker_run guard keys_of es s1 = (o2, s')" "out = o1 @ o2"
    using Cons.prems(3) by (auto simp: s1 split: prod.splits)
  have step: "rooms_ok (bk_lobby (snd s1)) \<and> announced (bk_lobby (snd s)) o1 (bk_lobby (snd s1))"
    using Cons.prems s1 by (intro step_served) auto
  with Cons.IH [OF _ _ o2(1)] Cons.prems(2) s1
  have "rooms_ok (bk_lobby (snd s')) \<and> announced (bk_lobby (snd s1)) o2 (bk_lobby (snd s'))" by simp
  with step o2(2) show ?case by (auto intro: announced_append)
qed

lemma rooms_ok_new [simp]: "rooms_ok (bk_lobby (snd (new_system ts)))"
  by (simp add: new_system_def rooms_ok_def lobby_new_def)

lemma snapshot_rows:
  assumes "lists_keys keys_of"
  shows "mirror_frame (LobbyUpdate (filter (\<lambda>game. lobby_row_visible_to game viewer) (public_games keys_of l))) rows =
     (\<lambda>code. case public_game l code of None \<Rightarrow> None | Some g \<Rightarrow> if lobby_row_visible_to g viewer then Some g else None)"
proof -
  have rows: "map_of (map (\<lambda>g. (lg_game_code g, g)) (filter (\<lambda>game. lobby_row_visible_to game viewer)
        (List.map_filter (\<lambda>code. public_game l code) codes))) code
      = (if code \<in> set codes then (case public_game l code of None \<Rightarrow> None | Some g \<Rightarrow> if lobby_row_visible_to g viewer then Some g else None) else None)"
    for codes code
    by (induction codes) (auto simp: List.map_filter_simps split: option.split)
  have "public_games keys_of l = List.map_filter (\<lambda>code. public_game l code) (keys_of (lb_games l))"
    by (auto simp: public_games_def public_game_def intro!: arg_cong2 [where f = List.map_filter] split: option.split)
  moreover have "public_game l code = None" if "code \<notin> set (keys_of (lb_games l))" for code
    using that assms by (auto simp: lists_keys_def public_game_def fmdom_notD split: option.split)
  ultimately show ?thesis by (auto simp: mirror_frame_def rows split: option.split)
qed

text \<open>A connection says hello and opens a public room; a second connection looks on.\<close>

definition sample_broker_env :: broker_env where
  "sample_broker_env = \<lparr>be_now_ms = 5000, be_new_token = ''t'', be_new_game_code = ''R''\<rparr>"

definition sample_settings :: "(unit, unit, unit, unit) create_settings" where
  "sample_settings = \<lparr>cr_deck = (), cr_display_name = ''Ada'', cr_public = True, cr_password = None, cr_timer_seconds = None,
     cr_player_count = 4, cr_match_config = (), cr_format_config = None, cr_room_name = None, cr_host_peer_id = Some ''p'',
     cr_draft_metadata = None, cr_start_when_full = True, cr_ranked = False, cr_requested_code = None\<rparr>"

definition sample_events :: "(unit, unit, unit, unit) broker_event list" where
  "sample_events = [Frame 0 sample_broker_env (ClientHello ''1'' ''c''), Frame 0 sample_broker_env (CreateGameWithSettings sample_settings)]"

lemma trimmed_p: "trimmed (Some ''p'') = Some ''p''"
  by code_simp

lemmas broker_eval = sample_events_def sample_broker_env_def sample_settings_def new_system_def new_conn_def lobby_new_def broker_handle_def
  stateless_reply_def dispatch_def handle_create_game_def drop_hosted_def open_room_def register_game_def register_request_def trimmed_p
  MAX_LOBBY_ENTRIES_def lobby_len_def has_game_def public_game_def listed_def fcard_fempty meta_to_lobby_game_def

lemma sample_run:
  "events_ok (\<lambda>_. Ok ()) keys_of sample_events (new_system [])"
  "\<exists>out conns b g. broker_run (\<lambda>_. Ok ()) keys_of sample_events (new_system ([] :: unit list)) = (out, conns, b)
     \<and> public_game (bk_lobby b) ''R'' = Some g \<and> lg_host_build_commit g = ''c'' \<and> fmlookup (lb_games (bk_lobby b)) ''R'' \<noteq> None"
  by (simp_all add: broker_eval Let_def)

text \<open>
  C31. A subscriber sees the lobby. Whatever frames, closings and sweeps a broker has processed, a
  connection that subscribes is sent exactly the listed games its build may join; and a client that
  replays the broadcasts of everything that happens afterwards always has a row for exactly those
  games and for no other, each as it is listed now except that its occupancy may still count
  reservations that have lapsed in the meantime.
\<close>

theorem feed_mirrors_lobby:
  fixes b b' :: "('f, 'm, 'd, 't) broker"
  assumes "lists_keys keys_of"
    and "events_ok guard keys_of es (new_system ts)"
    and "broker_run guard keys_of es (new_system ts) = (out, conns, b)"
    and "events_ok guard keys_of es' (conns, b)"
    and "broker_run guard keys_of es' (conns, b) = (out', conns', b')"
  shows "\<exists>snapshot. ToSelf snapshot \<in> set (handle_subscribe keys_of (bk_tournaments b) (conns i) (bk_lobby b))
     \<and> (\<forall>code. mirror_frame snapshot rows code =
          (case public_game (bk_lobby b) code of
             None \<Rightarrow> None | Some g \<Rightarrow> if lobby_row_visible_to g (hello_build_commit (conns i)) then Some g else None))
     \<and> (\<forall>code. case public_game (bk_lobby b') code of
          None \<Rightarrow> replay (hello_build_commit (conns i)) out' (mirror_frame snapshot rows) code = None
        | Some g \<Rightarrow>
            if lobby_row_visible_to g (hello_build_commit (conns i))
            then \<exists>row. replay (hello_build_commit (conns i)) out' (mirror_frame snapshot rows) code = Some row \<and> row_le g row
            else replay (hello_build_commit (conns i)) out' (mirror_frame snapshot rows) code = None)"
proof -
  let ?viewer = "hello_build_commit (conns i)"
  let ?snapshot = "LobbyUpdate (filter (\<lambda>game. lobby_row_visible_to game ?viewer) (public_games keys_of (bk_lobby b))) :: ('f, 'm, 'd, 't) lobby_server_message"
  have start: "mirror_frame ?snapshot rows =
     (\<lambda>code. case public_game (bk_lobby b) code of None \<Rightarrow> None | Some g \<Rightarrow> if lobby_row_visible_to g ?viewer then Some g else None)"
    by (rule snapshot_rows [OF assms(1)])
  have "rooms_ok (bk_lobby b)" using run_served [OF rooms_ok_new assms(2,3)] by simp
  then have "announced (bk_lobby b) out' (bk_lobby b')" using run_served [OF _ assms(4,5)] by simp
  moreover have "mirrors ?viewer (bk_lobby b) (mirror_frame ?snapshot rows)"
    unfolding start by (auto simp: mirrors_def shows_row_def split: option.split)
  ultimately have m: "mirrors ?viewer (bk_lobby b') (replay ?viewer out' (mirror_frame ?snapshot rows))" by (simp add: announced_def)
  have sent: "ToSelf ?snapshot \<in> set (handle_subscribe keys_of (bk_tournaments b) (conns i) (bk_lobby b))"
    by (simp add: handle_subscribe_def)
  show ?thesis
    by (rule exI [of _ ?snapshot], intro conjI sent allI, simp only: start) (rule m [unfolded mirrors_def shows_row_def, rule_format])
qed

text \<open>The onlooker, subscribed before the room was opened, has its row afterwards.\<close>

theorem feed_mirrors_lobby_witness:
  "\<exists>out conns b (snapshot :: (unit, unit, unit, unit) lobby_server_message) row. broker_run (\<lambda>_. Ok ()) (\<lambda>m. sorted_list_of_fset (fmdom m)) sample_events (new_system ([] :: unit list)) = (out, conns, b)
     \<and> ToSelf snapshot \<in> set (handle_subscribe (\<lambda>m. sorted_list_of_fset (fmdom m)) ([] :: unit list) new_conn lobby_new)
     \<and> replay [] out (mirror_frame snapshot Map.empty) ''R'' = Some row"
proof -
  let ?keys = "\<lambda>m :: (string, (unit, unit, unit) lobby_game_meta) fmap. sorted_list_of_fset (fmdom m)"
  let ?s = "new_system [] :: (unit, unit, unit, unit) broker_system"
  obtain out conns b g where run: "broker_run (\<lambda>_. Ok ()) ?keys sample_events ?s = (out, conns, b)" "public_game (bk_lobby b) ''R'' = Some g"
    using sample_run(2) [of ?keys] by blast
  have start: "broker_run (\<lambda>_ :: (unit, unit, unit, unit) lobby_client_message. Ok ()) ?keys [] ?s = ([], fst ?s, snd ?s)" by simp
  have "events_ok (\<lambda>_ :: (unit, unit, unit, unit) lobby_client_message. Ok ()) ?keys [] ?s" by simp
  note begin_run = this
  have ok: "events_ok (\<lambda>_. Ok ()) ?keys sample_events (fst ?s, snd ?s)" using sample_run(1) [of ?keys, where 'a = unit] by simp
  have run': "broker_run (\<lambda>_. Ok ()) ?keys sample_events (fst ?s, snd ?s) = (out, conns, b)" using run(1) by simp
  have viewer: "hello_build_commit (fst ?s 1) = []" by (simp add: new_system_def new_conn_def hello_build_commit_def)
  obtain snapshot where snapshot: "ToSelf snapshot \<in> set (handle_subscribe ?keys (bk_tournaments (snd ?s)) (fst ?s 1) (bk_lobby (snd ?s)))"
    and rows: "\<And>code. case public_game (bk_lobby b) code of
          None \<Rightarrow> replay [] out (mirror_frame snapshot Map.empty) code = None
        | Some g \<Rightarrow> if lobby_row_visible_to g [] then \<exists>row. replay [] out (mirror_frame snapshot Map.empty) code = Some row \<and> row_le g row
            else replay [] out (mirror_frame snapshot Map.empty) code = None"
    using feed_mirrors_lobby [OF sorted_codes_listed begin_run start ok run', of 1 Map.empty] unfolding viewer
    by (elim exE conjE, intro that) (assumption, erule spec)
  have "lobby_row_visible_to g []" by (simp add: lobby_row_visible_to_def check_build_commit_def)
  then have "\<exists>row. replay [] out (mirror_frame snapshot Map.empty) ''R'' = Some row" using rows [of "''R''"] run(2) by auto
  with snapshot have "\<exists>snapshot row. ToSelf snapshot \<in> set (handle_subscribe ?keys (bk_tournaments (snd ?s)) (fst ?s 1) (bk_lobby (snd ?s)))
      \<and> replay [] out (mirror_frame snapshot Map.empty) ''R'' = Some row" by blast
  then show ?thesis using run(1) by (simp add: new_system_def)
qed

section \<open>Authority\<close>

text \<open>
  What a frame may do to a listing its sender does not host. A join that names a reservation the sender
  holds, and that the listing still has, turns it into a seated player. A lookup may give up the
  reservation it names, if the sender holds it, may add one under the token drawn for it, if it asks for a
  seat, and drops reservations that have expired. Nothing else moves: in particular a join without a
  token, or with a token the sender does not hold, changes nothing.
\<close>

definition lookup_moves ::
  "nat \<Rightarrow> (string \<times> string) set \<Rightarrow> string \<Rightarrow> bool \<Rightarrow> string option \<Rightarrow> string \<Rightarrow> ('f, 'm, 'd) lobby_game_meta \<Rightarrow> ('f, 'm, 'd) lobby_game_meta \<Rightarrow> bool" where
  "lookup_moves now held token reserve release c meta meta' \<longleftrightarrow>
     meta' = meta\<lparr>lm_reservations := lm_reservations meta'\<rparr>
   \<and> (\<forall>t. fmlookup (lm_reservations meta') t = fmlookup (lm_reservations meta) t
        \<or> reserve \<and> t = token
        \<or> fmlookup (lm_reservations meta') t = None
          \<and> (release = Some t \<and> (c, t) \<in> held
             \<or> (\<exists>r expires. fmlookup (lm_reservations meta) t = Some r \<and> rv_expires_at_ms r = Some expires \<and> expires \<le> now)))"

definition guest_may ::
  "nat \<Rightarrow> (string \<times> string) set \<Rightarrow> string \<Rightarrow> ('f, 'm, 'd, 'k) lobby_client_message \<Rightarrow> string
   \<Rightarrow> ('f, 'm, 'd) lobby_game_meta \<Rightarrow> ('f, 'm, 'd) lobby_game_meta \<Rightarrow> bool" where
  "guest_may now held token msg c meta meta' \<longleftrightarrow>
     meta' = meta \<or>
     (case msg of
        JoinGameWithPassword code _ _ _ (Some t) \<Rightarrow>
          code = c \<and> (c, t) \<in> held \<and> fmlookup (lm_reservations meta) t \<noteq> None
        \<and> meta' = meta\<lparr>lm_reservations := fmdrop t (lm_reservations meta),
             lm_current_players := min (add_u32 (lm_current_players meta) 1) (lm_max_players meta)\<rparr>
      | LookupJoinTarget code _ reserve _ release \<Rightarrow> code = c \<and> lookup_moves now held token reserve release c meta meta'
      | _ \<Rightarrow> False)"

text \<open>The lobby changes at a code at most by such a move, or not at all.\<close>

definition moved :: "string \<Rightarrow> (('f, 'm, 'd) lobby_game_meta \<Rightarrow> ('f, 'm, 'd) lobby_game_meta \<Rightarrow> bool) \<Rightarrow> ('f, 'm, 'd) lobby_manager \<Rightarrow> ('f, 'm, 'd) lobby_manager \<Rightarrow> bool" where
  "moved c R l l' \<longleftrightarrow> (\<forall>meta. fmlookup (lb_games l) c = Some meta \<longrightarrow> (\<exists>meta'. fmlookup (lb_games l') c = Some meta' \<and> R meta meta'))"

abbreviation untouched :: "string \<Rightarrow> ('f, 'm, 'd) lobby_manager \<Rightarrow> ('f, 'm, 'd) lobby_manager \<Rightarrow> bool" where
  "untouched c l l' \<equiv> fmlookup (lb_games l') c = fmlookup (lb_games l) c"

lemma moved_untouched: "untouched c l l' \<Longrightarrow> (\<And>meta. R meta meta) \<Longrightarrow> moved c R l l'"
  by (simp add: moved_def)

lemma moved_modify:
  "(\<And>meta. R meta meta) \<Longrightarrow> (\<And>meta. code = c \<Longrightarrow> fmlookup (lb_games l) c = Some meta \<Longrightarrow> R meta (f meta)) \<Longrightarrow> moved c R l (modify_game code f l)"
  by (auto simp: moved_def modify_game_lookup)

lemma lookup_moves_refl [simp]: "lookup_moves now held token reserve release c meta meta"
  by (simp add: lookup_moves_def)

lemma lookup_moves_trans:
  assumes "lookup_moves now held token reserve release c m m1" "lookup_moves now held token reserve release c m1 m2"
  shows "lookup_moves now held token reserve release c m m2"
proof -
  have "m2 = m\<lparr>lm_reservations := lm_reservations m2\<rparr>"
    using assms by (cases m; cases m1; cases m2) (simp add: lookup_moves_def)
  moreover have "fmlookup (lm_reservations m2) t = fmlookup (lm_reservations m) t \<or> reserve \<and> t = token
      \<or> fmlookup (lm_reservations m2) t = None \<and> (release = Some t \<and> (c, t) \<in> held
         \<or> (\<exists>r expires. fmlookup (lm_reservations m) t = Some r \<and> rv_expires_at_ms r = Some expires \<and> expires \<le> now))" for t
  proof (cases "fmlookup (lm_reservations m1) t = fmlookup (lm_reservations m) t")
    case True
    then show ?thesis using assms(2) [unfolded lookup_moves_def, THEN conjunct2, THEN spec, of t] by simp
  next
    case False
    then show ?thesis using assms(1) [unfolded lookup_moves_def, THEN conjunct2, THEN spec, of t]
        assms(2) [unfolded lookup_moves_def, THEN conjunct2, THEN spec, of t] by auto
  qed
  ultimately show ?thesis unfolding lookup_moves_def by blast
qed

lemma moved_trans:
  "moved c (lookup_moves now held token reserve release c) l l1 \<Longrightarrow> moved c (lookup_moves now held token reserve release c) l1 l2
     \<Longrightarrow> moved c (lookup_moves now held token reserve release c) l l2"
  unfolding moved_def by (meson lookup_moves_trans)

lemma moved_cleanup: "moved c (lookup_moves now held token reserve release c) l (modify_game code (snd \<circ> cleanup_expired_for now) l)"
  by (rule moved_modify) (auto simp: lookup_moves_def cleanup_expired_for_def Let_def split: option.splits)

lemma moved_has_active: "moved c (lookup_moves now held token reserve release c) l (snd (has_active_reservation code t now l))"
  by (auto simp: has_active_reservation_def moved_cleanup moved_untouched split: option.split)

lemma moved_reserve: "moved c (lookup_moves now held token True release c) l (snd (reserve_seat code name now token l))"
proof -
  have "moved c (lookup_moves now held token True release c) l' (modify_game code (\<lambda>meta. meta\<lparr>lm_reservations := fmupd token r (lm_reservations meta)\<rparr>) l')" for r l'
    by (rule moved_modify) (simp_all add: lookup_moves_def)
  from moved_trans [OF moved_cleanup this] show ?thesis
    by (auto simp: reserve_seat_def Let_def moved_cleanup moved_untouched split: option.split)
qed

lemma moved_release:
  "(code, t) \<in> held \<Longrightarrow> moved c (lookup_moves now held token reserve (Some t) c) l (snd (release_reservation code t l))"
  by (auto simp: release_reservation_def lookup_moves_def moved_untouched intro!: moved_modify split: option.split)

lemma moved_retain: "moved c (lookup_moves now held token reserve release c) l (snd (retain_active code now rs l))"
proof (induction rs arbitrary: l)
  case (Cons r rs)
  obtain code' t where r: "r = (code', t)" by fastforce
  have "moved c (lookup_moves now held token reserve release c) l (snd (retain_active code now rs (snd (has_active_reservation code' t now l))))"
    using moved_has_active Cons.IH by (rule moved_trans)
  with Cons.IH [of l] show ?case by (cases "code' = code") (simp_all add: r split_beta)
qed (simp add: moved_untouched)

lemma untouched_drop: "\<not> hosts_current conn c l \<Longrightarrow> untouched c l (snd (snd (drop_hosted conn l)))"
  by (auto simp: drop_hosted_def unregister_registration_def unregister_game_def hosts_current_def Let_def split: option.splits)

lemma untouched_open: "c \<noteq> code \<Longrightarrow> untouched c l (snd (snd (open_room env code hello peer_id s conn l)))"
  by (simp add: open_room_def split_beta register_game_def Let_def)

lemma untouched_refresh:
  "\<not> hosts_current conn c l \<Longrightarrow> cs_host_game conn = Some r \<Longrightarrow> untouched c l (snd (refresh_liveness r t l))"
  by (auto simp: refresh_liveness_def liveness_refresh_due_def modify_game_lookup hosts_current_def)

lemma untouched_create:
  fixes l :: "('f, 'm, 'd) lobby_manager"
  assumes "\<not> hosts_current conn c l" "has_game l c" and fresh: "cr_requested_code s = None \<longrightarrow> \<not> has_game l (be_new_game_code env)"
  shows "untouched c l (snd (snd (handle_create_game env s conn l :: ('f, 'm, 'd, 't) outbound list \<times> _)))"
proof -
  obtain out :: "('f, 'm, 'd, 't) outbound list" and conn1 l1 where d: "drop_hosted conn l = (out, conn1, l1)" by (metis prod_cases3)
  have drop: "untouched c l l1" using untouched_drop [OF assms(1), where 'd = 't] by (simp add: d)
  then have c: "has_game l1 c" using assms(2) by (simp add: has_game_def)
  have gone: "has_game l1 code \<Longrightarrow> has_game l code" for code
    using d by (auto simp: drop_hosted_def unregister_registration_def unregister_game_def has_game_def Let_def split: option.splits if_splits)
  have "untouched c l (snd (snd (open_room env code hello peer_id s conn1 l1)))" if "\<not> has_game l1 code" for code hello peer_id
  proof -
    from that c have "c \<noteq> code" by auto
    with drop show ?thesis by (simp add: untouched_open)
  qed
  then show ?thesis using drop fresh gone by (auto simp: handle_create_game_def d split_beta split: option.split)
qed

lemma untouched_update:
  "\<not> hosts_current conn c l \<Longrightarrow> untouched c l (snd (snd (handle_update_metadata env code n m tokens conn l)))"
proof -
  assume "\<not> hosts_current conn c l"
  moreover have "untouched c l (snd (consume_all code tokens l))" if "c \<noteq> code"
    using that agree_consume_all [of code l tokens] by (simp add: agree_off_def)
  ultimately show ?thesis
    by (auto simp: handle_update_metadata_def hosts_current_def split_beta Let_def set_max_players_def set_current_players_def modify_game_lookup
        split: option.split)
qed

lemma moved_join:
  "moved c (guest_may now (set (cs_reservations conn)) token (JoinGameWithPassword code deck name password t) c) l
     (snd (snd (handle_join code name password t conn l)))" (is "moved c ?R l _")
proof -
  have refl: "?R meta meta" for meta by (simp add: guest_may_def)
  have "moved c ?R l (snd (consume_owned_reservation (cs_reservations conn) code u l))" if "t = Some u" for u
  proof (cases "(code, u) \<in> set (cs_reservations conn) \<and> (\<exists>m. fmlookup (lb_games l) code = Some m \<and> fmlookup (lm_reservations m) u \<noteq> None)")
    case True
    then have "snd (consume_owned_reservation (cs_reservations conn) code u l) = modify_game code (\<lambda>meta. meta\<lparr>lm_reservations := fmdrop u (lm_reservations meta),
        lm_current_players := min (add_u32 (lm_current_players meta) 1) (lm_max_players meta)\<rparr>) l"
      by (auto simp: consume_owned_reservation_def conn_holds_reservation_def consume_reservation_def)
    moreover have "moved c ?R l \<dots>"
      by (rule moved_modify [OF refl]) (use True that in \<open>auto simp: guest_may_def\<close>)
    ultimately show ?thesis by simp
  next
    case False
    then have "snd (consume_owned_reservation (cs_reservations conn) code u l) = l"
      by (auto simp: consume_owned_reservation_def conn_holds_reservation_def consume_reservation_def split: option.split)
    then show ?thesis using moved_untouched [where c = c and l = l and l' = l and R = ?R] refl by simp
  qed
  then show ?thesis
    using moved_untouched [where c = c and l = l and l' = l and R = ?R] refl
    by (auto simp: handle_join_def split_beta split: outcome.split option.split reservation_consume.split)
qed

lemma moved_lookup_answer:
  "moved c (lookup_moves (be_now_ms env) held (be_new_token env) reserve release c) l (snd (snd (lookup_answer env code reserve name info conn l)))"
proof -
  let ?l = "snd (retain_active code (be_now_ms env) (cs_reservations conn) l)" and ?n = "case name of None \<Rightarrow> ''Player'' | Some name \<Rightarrow> name"
  have retain: "moved c (lookup_moves (be_now_ms env) held (be_new_token env) True release c) l ?l" by (rule moved_retain)
  have "moved c (lookup_moves (be_now_ms env) held (be_new_token env) True release c) l (snd (reserve_seat code ?n (be_now_ms env) (be_new_token env) ?l))"
    by (rule moved_trans [OF retain moved_reserve])
  then have "moved c (lookup_moves (be_now_ms env) held (be_new_token env) True release c) l (snd (snd (lookup_reserve env code name info conn l)))"
    using retain by (cases "reserve_seat code ?n (be_now_ms env) (be_new_token env) ?l")
      (auto simp: lookup_reserve_def split_beta Let_def split: outcome.split)
  then show ?thesis by (cases reserve) (simp_all add: lookup_answer_def moved_untouched)
qed

lemma untouched_retain: "c \<noteq> code \<Longrightarrow> untouched c l (snd (retain_active code now rs l))"
proof (induction rs arbitrary: l)
  case (Cons r rs)
  obtain code' t where r: "r = (code', t)" by fastforce
  have "untouched c l (snd (has_active_reservation code t now l))"
    using Cons.prems by (simp add: has_active_reservation_def modify_game_lookup split: option.split)
  with Cons show ?case by (cases "code' = code") (simp_all add: r split_beta)
qed simp

lemma untouched_elsewhere:
  assumes "c \<noteq> code"
  shows "untouched c l (snd (snd (handle_lookup env code password reserve name release conn l)))"
proof -
  have reserve: "untouched c l' (snd (reserve_seat code n now t l'))" for n now t l'
    using agree_reserve [of code l' n now t] assms by (simp add: agree_off_def)
  have answer: "untouched c l' (snd (snd (lookup_answer env code reserve name info conn' l')))" for info conn' l'
  proof -
    let ?l = "snd (retain_active code (be_now_ms env) (cs_reservations conn') l')" and ?n = "case name of None \<Rightarrow> ''Player'' | Some name \<Rightarrow> name"
    have "untouched c l' ?l" by (rule untouched_retain [OF assms])
    moreover from this have "untouched c l' (snd (reserve_seat code ?n (be_now_ms env) (be_new_token env) ?l))" by (simp add: reserve)
    ultimately show ?thesis
      by (cases "reserve_seat code ?n (be_now_ms env) (be_new_token env) ?l")
        (auto simp: lookup_answer_def lookup_reserve_def split_beta Let_def split: outcome.split)
  qed
  have "untouched c l (snd (release_owned_reservation (cs_reservations conn) code u l))" for u
    using agree_release [of code l u] assms by (simp add: release_owned_lobby agree_off_def)
  then show ?thesis
    by (auto simp: handle_lookup_def split_beta Let_def answer split: outcome.split option.split reservation_release.split)
qed

lemma moved_lookup:
  "moved c (guest_may (be_now_ms env) (set (cs_reservations conn)) (be_new_token env) (LookupJoinTarget code password reserve name release) c) l
     (snd (snd (handle_lookup env code password reserve name release conn l)))"
proof (cases "c = code")
  case False
  then show ?thesis by (intro moved_untouched untouched_elsewhere) (simp_all add: guest_may_def)
next
  case True
  let ?R = "lookup_moves (be_now_ms env) (set (cs_reservations conn)) (be_new_token env) reserve release c"
  have rel: "moved c ?R l (snd (release_owned_reservation (cs_reservations conn) code u l))" if "release = Some u" for u
    using that by (simp add: release_owned_lobby moved_release moved_untouched)
  have "moved c ?R l (snd (snd (handle_lookup env code password reserve name release conn l)))"
  proof (cases release)
    case None
    then show ?thesis using moved_lookup_answer [where release = None]
      by (auto simp: handle_lookup_def moved_untouched split: outcome.split)
  next
    case (Some u)
    note both = moved_trans [OF rel [OF Some] moved_lookup_answer]
    show ?thesis using rel [OF Some]
      by (auto simp: handle_lookup_def Some split_beta Let_def both [unfolded Some] moved_untouched split: outcome.split reservation_release.split)
  qed
  then show ?thesis using True by (fastforce simp: moved_def guest_may_def)
qed

lemma moved_dispatch:
  fixes l :: "('f, 'm, 'd) lobby_manager"
  assumes "\<not> hosts_current conn c l" "has_game l c"
    and "\<And>s. msg = CreateGameWithSettings s \<Longrightarrow> cr_requested_code s = None \<Longrightarrow> \<not> has_game l (be_new_game_code env)"
  shows "moved c (guest_may (be_now_ms env) (set (cs_reservations conn)) (be_new_token env) msg c) l
    (snd (snd (dispatch keys_of ts env msg conn l :: ('f, 'm, 'd, 't) outbound list \<times> _)))"
proof -
  have refl: "guest_may (be_now_ms env) (set (cs_reservations conn)) (be_new_token env) msg c meta meta" for meta :: "('f, 'm, 'd) lobby_game_meta"
    by (simp add: guest_may_def)
  show ?thesis using assms refl
    by (cases msg)
      (auto simp: dispatch_def moved_join moved_lookup handle_unregister_def intro!: moved_untouched untouched_create untouched_update untouched_drop)
qed

lemma refresh_hosts_current:
  "hosts_current conn c (snd (refresh_liveness r now l)) = hosts_current conn c l"
  by (auto simp: hosts_current_def is_current_def refresh_liveness_def modify_game_lookup split: option.split)

text \<open>Closing a connection gives up exactly the reservations it holds.\<close>

lemma release_all_lookup:
  "fmlookup (lb_games (snd (release_reservations rs l))) c
     = map_option (\<lambda>meta. meta\<lparr>lm_reservations := fmfilter (\<lambda>t. (c, t) \<notin> set rs) (lm_reservations meta)\<rparr>) (fmlookup (lb_games l) c)"
proof (induction rs arbitrary: l)
  case Nil
  then show ?case by (cases "fmlookup (lb_games l) c") (simp_all add: fmfilter_true)
next
  case (Cons r rs)
  obtain code t where r: "r = (code, t)" by fastforce
  have step: "fmlookup (lb_games (snd (release_reservation code t l))) c
      = map_option (\<lambda>meta. if c = code then meta\<lparr>lm_reservations := fmdrop t (lm_reservations meta)\<rparr> else meta) (fmlookup (lb_games l) c)"
    by (cases "fmlookup (lb_games l) c") (auto simp: release_reservation_def modify_game_lookup split: option.split)
  have drop: "fmfilter (\<lambda>u. (code, u) \<notin> set rs) (fmdrop t m) = fmfilter (\<lambda>u. u \<noteq> t \<and> (code, u) \<notin> set rs) m" for m :: "(string, lobby_reservation) fmap"
    by (rule fmap_ext) auto
  have "fmlookup (lb_games (snd (release_reservations (r # rs) l))) c
      = map_option (\<lambda>meta. meta\<lparr>lm_reservations := fmfilter (\<lambda>t. (c, t) \<notin> set rs) (lm_reservations meta)\<rparr>)
          (map_option (\<lambda>meta. if c = code then meta\<lparr>lm_reservations := fmdrop t (lm_reservations meta)\<rparr> else meta) (fmlookup (lb_games l) c))"
    unfolding step [symmetric] Cons.IH [symmetric] by (simp add: r split_beta)
  then show ?case
    by (cases "fmlookup (lb_games l) c"; cases "c = code") (simp_all add: r drop cong del: fmfilter_cong)
qed

lemma release_all_hosts: "hosts_current conn c (snd (release_reservations rs l)) = hosts_current conn c l"
  by (cases "fmlookup (lb_games l) c") (auto simp: hosts_current_def is_current_def release_all_lookup split: option.split)

lemma disconnect_lookup:
  fixes l :: "('f, 'm, 'd) lobby_manager"
  assumes "\<not> hosts_current conn c l"
  shows "fmlookup (lb_games (snd (snd (on_disconnect conn l :: ('f, 'm, 'd, 't) outbound list \<times> _)))) c
     = map_option (\<lambda>meta. meta\<lparr>lm_reservations := fmfilter (\<lambda>t. (c, t) \<notin> set (cs_reservations conn)) (lm_reservations meta)\<rparr>) (fmlookup (lb_games l) c)"
proof -
  have eq: "snd (snd (on_disconnect conn l :: ('f, 'm, 'd, 't) outbound list \<times> _))
      = snd (snd (drop_hosted (if cs_reservations conn = [] then conn else conn\<lparr>cs_reservations := []\<rparr>) (snd (release_reservations (cs_reservations conn) l)) :: ('f, 'm, 'd, 't) outbound list \<times> _))"
    by (auto simp: on_disconnect_def split_beta)
  have "\<not> hosts_current (if cs_reservations conn = [] then conn else conn\<lparr>cs_reservations := []\<rparr>) c (snd (release_reservations (cs_reservations conn) l))"
    using assms release_all_hosts [of conn c "cs_reservations conn" l] by (simp add: hosts_current_def)
  from untouched_drop [OF this, where 'd = 't] show ?thesis unfolding eq by (simp add: release_all_lookup)
qed

text \<open>
  C32. A connection acts only on what is its own. Whatever frame a connection sends, a listing it does not
  currently host stays listed, with everything its host set and the number of players seated, but for the
  moves of a guest: a join under a reservation it holds takes the reserved seat, and a lookup may give up
  a reservation it holds, add one under the fresh token, and drop expired ones. When it closes, the
  listing loses exactly the reservations the connection holds. This covers connections whose own listing
  was reaped and whose code a new host has claimed.
\<close>

theorem broker_authority:
  fixes b :: "('f, 'm, 'd, 't) broker"
  assumes "fmlookup (lb_games (bk_lobby b)) c = Some meta"
    and "\<not> hosts_current conn c (bk_lobby b)"
    and "event_ok (Frame i env msg) (bk_lobby b)"
  shows "(\<exists>meta'. fmlookup (lb_games (bk_lobby (snd (snd (broker_handle guard keys_of env msg conn b))))) c = Some meta'
            \<and> guest_may (be_now_ms env) (set (cs_reservations conn)) (be_new_token env) msg c meta meta')
       \<and> fmlookup (lb_games (snd (snd (on_disconnect conn (bk_lobby b) :: ('f, 'm, 'd, 't) outbound list \<times> _)))) c
          = Some (meta\<lparr>lm_reservations := fmfilter (\<lambda>t. (c, t) \<notin> set (cs_reservations conn)) (lm_reservations meta)\<rparr>)"
proof
  define l where "l = (case cs_host_game conn of None \<Rightarrow> bk_lobby b | Some r \<Rightarrow> snd (refresh_liveness r (be_now_ms env) (bk_lobby b)))"
  let ?R = "guest_may (be_now_ms env) (set (cs_reservations conn)) (be_new_token env) msg c"
  have l: "untouched c (bk_lobby b) l" "\<not> hosts_current conn c l" "\<And>code. has_game l code = has_game (bk_lobby b) code"
    using assms(2) untouched_refresh [OF assms(2)] by (auto simp: l_def refresh_hosts_current refresh_has_game split: option.split)
  have "has_game l c" using assms(1) l(1) by (simp add: has_game_def)
  then have "moved c ?R l (snd (snd (dispatch keys_of (bk_tournaments b) env msg conn l :: ('f, 'm, 'd, 't) outbound list \<times> _)))"
    using assms(3) l(2,3) by (intro moved_dispatch) auto
  moreover have "?R meta meta" by (simp add: guest_may_def)
  ultimately have "moved c ?R (bk_lobby b) (bk_lobby (snd (snd (broker_handle guard keys_of env msg conn b))))"
    using l(1) assms(1) by (auto simp: broker_handle_def l_def [symmetric] split_beta moved_def split: option.split outcome.split)
  then show "\<exists>meta'. fmlookup (lb_games (bk_lobby (snd (snd (broker_handle guard keys_of env msg conn b))))) c = Some meta' \<and> ?R meta meta'"
    using assms(1) by (simp add: moved_def)
  show "fmlookup (lb_games (snd (snd (on_disconnect conn (bk_lobby b) :: ('f, 'm, 'd, 't) outbound list \<times> _)))) c
          = Some (meta\<lparr>lm_reservations := fmfilter (\<lambda>t. (c, t) \<notin> set (cs_reservations conn)) (lm_reservations meta)\<rparr>)"
    using disconnect_lookup [OF assms(2), where 't = 't] assms(1) by simp
qed

text \<open>A connection that holds no reservation cannot change the sample room by joining it.\<close>

theorem broker_authority_witness:
  "\<exists>out conns b meta. broker_run (\<lambda>_. Ok ()) (\<lambda>_. []) sample_events (new_system ([] :: unit list)) = (out, conns, b)
     \<and> fmlookup (lb_games (bk_lobby b)) ''R'' = Some meta
     \<and> fmlookup (lb_games (bk_lobby (snd (snd (broker_handle (\<lambda>_. Ok ()) (\<lambda>_. []) sample_broker_env
          (JoinGameWithPassword ''R'' () ''guest'' None (Some ''forged'') :: (unit, unit, unit, unit) lobby_client_message) new_conn b))))) ''R'' = Some meta"
proof -
  let ?msg = "JoinGameWithPassword ''R'' () ''guest'' None (Some ''forged'') :: (unit, unit, unit, unit) lobby_client_message"
  obtain out conns b g where run: "broker_run (\<lambda>_. Ok ()) (\<lambda>_. []) sample_events (new_system ([] :: unit list)) = (out, conns, b)"
    "fmlookup (lb_games (bk_lobby b)) ''R'' \<noteq> None" using sample_run(2) [of "\<lambda>_. []"] by blast
  obtain meta where m: "fmlookup (lb_games (bk_lobby b)) ''R'' = Some meta" using run(2) by blast
  have "\<not> hosts_current new_conn ''R'' (bk_lobby b)" by (simp add: hosts_current_def new_conn_def)
  note authority = broker_authority [OF m this, where msg = ?msg and i = 1 and env = sample_broker_env
      and guard = "\<lambda>_. Ok ()" and keys_of = "\<lambda>_. []"]
  then obtain meta' where "fmlookup (lb_games (bk_lobby (snd (snd (broker_handle (\<lambda>_. Ok ()) (\<lambda>_. []) sample_broker_env ?msg new_conn b))))) ''R'' = Some meta'"
    "guest_may (be_now_ms sample_broker_env) (set (cs_reservations new_conn)) (be_new_token sample_broker_env) ?msg ''R'' meta meta'"
    by auto
  moreover from this(2) have "meta' = meta" by (simp add: guest_may_def new_conn_def)
  ultimately show ?thesis using run(1) m by blast
qed

section \<open>Owners\<close>

definition owned :: "(nat \<Rightarrow> lobby_registration option) \<Rightarrow> ('f, 'm, 'd) lobby_manager \<Rightarrow> bool" where
  "owned hosts l \<longleftrightarrow>
     (\<forall>i r. hosts i = Some r \<longrightarrow> lr_generation r < lb_next_generation l)
   \<and> (\<forall>i j r r'. hosts i = Some r \<longrightarrow> hosts j = Some r' \<longrightarrow> lr_generation r = lr_generation r' \<longrightarrow> i = j)
   \<and> (\<forall>code meta. fmlookup (lb_games l) code = Some meta \<longrightarrow> (\<exists>i. hosts i = Some \<lparr>lr_game_code = code, lr_generation = lm_generation meta\<rparr>))
   \<and> lobby_len l \<le> MAX_LOBBY_ENTRIES"

definition same_ids :: "('f, 'm, 'd) lobby_manager \<Rightarrow> ('f, 'm, 'd) lobby_manager \<Rightarrow> bool" where
  "same_ids l l' \<longleftrightarrow> lb_next_generation l' = lb_next_generation l
     \<and> (\<forall>c. map_option lm_generation (fmlookup (lb_games l') c) = map_option lm_generation (fmlookup (lb_games l) c))"

lemma same_ids_refl [simp]: "same_ids l l"
  by (simp add: same_ids_def)

lemma same_ids_trans: "same_ids l l1 \<Longrightarrow> same_ids l1 l2 \<Longrightarrow> same_ids l l2"
  by (simp add: same_ids_def)

lemma same_ids_modify:
  "(\<And>meta. lm_generation (f meta) = lm_generation meta) \<Longrightarrow> same_ids l (modify_game code f l)"
  by (cases "fmlookup (lb_games l) code") (auto simp: same_ids_def modify_game_lookup)

lemma same_ids_len: "same_ids l l' \<Longrightarrow> lobby_len l' = lobby_len l"
proof -
  assume "same_ids l l'"
  then have "fmlookup (lb_games l') c = None \<longleftrightarrow> fmlookup (lb_games l) c = None" for c by (metis map_option_is_None same_ids_def)
  then have "fmdom (lb_games l') = fmdom (lb_games l)" by (metis fmdom_notI fmdom_notD fset_eqI)
  then show ?thesis by (simp add: lobby_len_def)
qed

lemma owned_same_ids:
  assumes "owned hosts l" "same_ids l l'" shows "owned hosts l'"
proof -
  have "\<exists>meta. fmlookup (lb_games l) code = Some meta \<and> lm_generation meta = lm_generation meta'"
    if "fmlookup (lb_games l') code = Some meta'" for code meta'
    using assms(2) that by (metis map_option_eq_Some same_ids_def)
  then show ?thesis using assms same_ids_len [OF assms(2)] unfolding owned_def same_ids_def by metis
qed

lemma lobby_len_unregister: "lobby_len (unregister_game code l) \<le> lobby_len l"
  by (auto simp: lobby_len_def unregister_game_def intro!: fcard_mono)

lemma owned_unregister: "owned hosts l \<Longrightarrow> owned hosts (unregister_game code l)"
  using lobby_len_unregister [of code l] by (auto simp: owned_def unregister_game_def)

lemma owned_drop:
  assumes "owned hosts l" "hosts i = cs_host_game conn"
  shows "owned (hosts(i := None)) (snd (snd (drop_hosted conn l)))"
proof (cases "cs_host_game conn")
  case None
  then have "hosts(i := None) = hosts" using assms(2) by auto
  then show ?thesis using assms(1) None by (simp add: drop_hosted_def)
next
  case (Some r)
  let ?l = "if is_current l r then unregister_game (lr_game_code r) l else l"
  have l: "snd (snd (drop_hosted conn l)) = ?l" using Some by (simp add: drop_hosted_def unregister_registration_def Let_def)
  have "owned hosts ?l" using assms(1) by (simp add: owned_unregister)
  moreover have "j \<noteq> i" if "fmlookup (lb_games ?l) code = Some meta" "hosts j = Some \<lparr>lr_game_code = code, lr_generation = lm_generation meta\<rparr>" for j code meta
    using that Some assms(2) by (auto simp: is_current_def unregister_game_def split: if_splits)
  ultimately show ?thesis unfolding l owned_def by (auto; metis)
qed

lemma owned_register:
  assumes "owned hosts l" "hosts i = None" "\<not> has_game l code" "lobby_len l < MAX_LOBBY_ENTRIES" "Suc (lb_next_generation l) < 2 ^ 64"
  shows "owned (hosts(i := Some (fst (register_game code req now l)))) (snd (register_game code req now l))"
proof -
  let ?r = "\<lparr>lr_game_code = code, lr_generation = lb_next_generation l\<rparr>" and ?l = "snd (register_game code req now l)"
  have old: "lr_generation r < lb_next_generation l" if "hosts j = Some r" for j r using assms(1) that by (auto simp: owned_def)
  have "fmlookup (lb_games l) code = None" using assms(3) by (simp add: has_game_def)
  then have len: "lobby_len ?l = Suc (lobby_len l)"
    by (simp add: lobby_len_def register_game_def Let_def fcard_finsert_if fmlookup_dom_iff)
  have r: "fst (register_game code req now l) = ?r" and gen: "lb_next_generation ?l = Suc (lb_next_generation l)"
    using assms(5) by (simp_all add: register_game_def Let_def)
  show ?thesis unfolding owned_def r
  proof (intro conjI allI impI)
    show "lobby_len ?l \<le> MAX_LOBBY_ENTRIES" using len assms(4) by simp
    show "lr_generation r < lb_next_generation ?l" if "(hosts(i := Some ?r)) j = Some r" for j r
      using that old [of j r] gen by (auto split: if_splits)
    show "j = k" if "(hosts(i := Some ?r)) j = Some r" "(hosts(i := Some ?r)) k = Some r'" "lr_generation r = lr_generation r'" for j k r r'
    proof -
      have "j = k" if "j \<noteq> i" "k \<noteq> i"
        using that \<open>(hosts(i := Some ?r)) j = Some r\<close> \<open>(hosts(i := Some ?r)) k = Some r'\<close> \<open>lr_generation r = lr_generation r'\<close> assms(1)
        by (auto simp: owned_def)
      moreover have "lr_generation r \<noteq> lb_next_generation l" if "j \<noteq> i" using old [of j r] \<open>(hosts(i := Some ?r)) j = Some r\<close> that by simp
      moreover have "lr_generation r' \<noteq> lb_next_generation l" if "k \<noteq> i" using old [of k r'] \<open>(hosts(i := Some ?r)) k = Some r'\<close> that by simp
      ultimately show ?thesis using that by (cases "j = i"; cases "k = i") auto
    qed
    show "\<exists>j. (hosts(i := Some ?r)) j = Some \<lparr>lr_game_code = c, lr_generation = lm_generation meta\<rparr>"
      if m: "fmlookup (lb_games ?l) c = Some meta" for c meta
    proof (cases "c = code")
      case True
      then show ?thesis using m by (intro exI [of _ i]) (auto simp: register_game_def Let_def)
    next
      case False
      then have "fmlookup (lb_games l) c = Some meta" using m by (simp add: register_game_def Let_def)
      then obtain j where j: "hosts j = Some \<lparr>lr_game_code = c, lr_generation = lm_generation meta\<rparr>"
        using assms(1) unfolding owned_def by blast
      then have "j \<noteq> i" using assms(2) by auto
      then show ?thesis using j by (intro exI [of _ j]) simp
    qed
  qed
qed

lemma ids_cleanup: "same_ids l (modify_game code (snd \<circ> cleanup_expired_for now) l)"
  by (rule same_ids_modify) simp

lemma ids_has_active: "same_ids l (snd (has_active_reservation code t now l))"
  by (auto simp: has_active_reservation_def ids_cleanup split: option.split)

lemma ids_reserve: "same_ids l (snd (reserve_seat code name now token l))"
proof -
  have "same_ids l' (modify_game code (\<lambda>meta. meta\<lparr>lm_reservations := fmupd token r (lm_reservations meta)\<rparr>) l')" for r l'
    by (rule same_ids_modify) simp
  from same_ids_trans [OF ids_cleanup this] show ?thesis
    by (auto simp: reserve_seat_def Let_def ids_cleanup split: option.split)
qed

lemma ids_release: "same_ids l (snd (release_reservation code t l))"
  by (auto simp: release_reservation_def intro!: same_ids_modify split: option.split)

lemma ids_consume: "same_ids l (snd (consume_reservation code t l))"
  by (auto simp: consume_reservation_def intro!: same_ids_modify split: option.split)

lemma ids_refresh: "same_ids l (snd (refresh_liveness r now l))"
  by (auto simp: refresh_liveness_def intro!: same_ids_modify)

lemma ids_consume_all: "same_ids l (snd (consume_all code tokens l))"
proof (induction tokens arbitrary: l)
  case (Cons t tokens) then show ?case using same_ids_trans [OF ids_consume Cons.IH] by (simp add: split_beta)
qed simp

lemma ids_release_all: "same_ids l (snd (release_reservations rs l))"
proof (induction rs arbitrary: l)
  case (Cons r rs)
  obtain code t where r: "r = (code, t)" by fastforce
  show ?case using same_ids_trans [OF ids_release Cons.IH] by (simp add: r split_beta)
qed simp

lemma ids_retain: "same_ids l (snd (retain_active code now rs l))"
proof (induction rs arbitrary: l)
  case (Cons r rs)
  obtain code' t where r: "r = (code', t)" by fastforce
  have "same_ids l (snd (retain_active code now rs (snd (has_active_reservation code' t now l))))"
    using ids_has_active Cons.IH by (rule same_ids_trans)
  with Cons.IH [of l] show ?case by (cases "code' = code") (simp_all add: r split_beta)
qed simp

text \<open>A guest call changes no identity and leaves the host stamp of its connection alone.\<close>

definition guest_call :: "conn_state \<Rightarrow> ('f, 'm, 'd) lobby_manager \<Rightarrow> 'o \<times> conn_state \<times> ('f, 'm, 'd) lobby_manager \<Rightarrow> bool" where
  "guest_call conn l result \<longleftrightarrow> cs_host_game (fst (snd result)) = cs_host_game conn \<and> same_ids l (snd (snd result))"

lemma guest_join: "guest_call conn l (handle_join code name password t conn l)"
proof -
  have "same_ids l (snd (consume_owned_reservation (cs_reservations conn) code u l))" for u
    by (simp add: consume_owned_reservation_def split_beta ids_consume)
  then show ?thesis
    by (auto simp: guest_call_def handle_join_def split_beta split: outcome.split option.split reservation_consume.split)
qed

lemma guest_lookup_answer: "guest_call conn l (lookup_answer env code reserve name info conn l)"
proof -
  let ?l = "snd (retain_active code (be_now_ms env) (cs_reservations conn) l)"
  have "same_ids l (snd (reserve_seat code n (be_now_ms env) (be_new_token env) ?l))" for n
    by (rule same_ids_trans [OF ids_retain ids_reserve])
  note reserve = this [of "case name of None \<Rightarrow> ''Player'' | Some name \<Rightarrow> name"]
  then show ?thesis using ids_retain [of l code "be_now_ms env" "cs_reservations conn"]
    by (cases "reserve_seat code (case name of None \<Rightarrow> ''Player'' | Some name \<Rightarrow> name) (be_now_ms env) (be_new_token env) ?l")
      (auto simp: guest_call_def lookup_answer_def lookup_reserve_def split_beta Let_def split: outcome.split)
qed

lemma guest_lookup:
  fixes l :: "('f, 'm, 'd) lobby_manager"
  shows "guest_call conn l (handle_lookup env code password reserve name release conn l :: ('f, 'm, 'd, 't) outbound list \<times> _)"
proof -
  have release: "same_ids l (snd (release_owned_reservation (cs_reservations conn) code u l))" for u
    by (simp add: release_owned_lobby ids_release)
  have "guest_call conn l (lookup_answer env code reserve name info (conn\<lparr>cs_reservations := held\<rparr>) l' :: ('f, 'm, 'd, 't) outbound list \<times> _)"
    if "same_ids l l'" for info held l'
  proof -
    have "guest_call (conn\<lparr>cs_reservations := held\<rparr>) l' (lookup_answer env code reserve name info (conn\<lparr>cs_reservations := held\<rparr>) l' :: ('f, 'm, 'd, 't) outbound list \<times> _)"
      by (rule guest_lookup_answer)
    then show ?thesis using same_ids_trans [OF that] by (simp add: guest_call_def)
  qed
  note answer = this [OF release]
  have "guest_call conn l (lookup_answer env code reserve name info conn l :: ('f, 'm, 'd, 't) outbound list \<times> _)" for info
    by (rule guest_lookup_answer)
  then show ?thesis using answer
    by (auto simp: handle_lookup_def guest_call_def split_beta Let_def release split: outcome.split option.split reservation_release.split)
qed

lemma guest_update: "guest_call conn l (handle_update_metadata env code n m tokens conn l)"
proof -
  have "same_ids l' (set_max_players code k (set_current_players code j now l'))" for k j now l'
    unfolding set_max_players_def set_current_players_def by (rule same_ids_trans [OF same_ids_modify same_ids_modify]) simp_all
  note same_ids_trans [OF ids_consume_all this]
  then show ?thesis by (auto simp: handle_update_metadata_def guest_call_def split_beta Let_def split: option.split)
qed

lemma create_owned:
  fixes l :: "('f, 'm, 'd) lobby_manager" and s :: "('f, 'm, 'd, 'k) create_settings" and env conn
  assumes "owned hosts l" "hosts i = cs_host_game conn" "Suc (lb_next_generation l) < 2 ^ 64"
    and fresh: "cr_requested_code s = None \<longrightarrow> \<not> has_game l (be_new_game_code env)"
  defines "result \<equiv> handle_create_game env s conn l :: ('f, 'm, 'd, 't) outbound list \<times> _"
  shows "owned (hosts(i := cs_host_game (fst (snd result)))) (snd (snd result)) \<and> lb_next_generation (snd (snd result)) \<le> Suc (lb_next_generation l)"
proof -
  obtain out1 :: "('f, 'm, 'd, 't) outbound list" and conn1 l1 where d: "drop_hosted conn l = (out1, conn1, l1)" by (metis prod_cases3)
  have "owned (hosts(i := None)) l1" using owned_drop [OF assms(1,2), where 'd = 't] by (simp add: d)
  moreover have "cs_host_game conn1 = None" "lb_next_generation l1 = lb_next_generation l"
    and gone: "\<And>code. has_game l1 code \<Longrightarrow> has_game l code"
    using d by (auto simp: drop_hosted_def unregister_registration_def unregister_game_def has_game_def Let_def split: option.splits if_splits)
  ultimately have l1: "owned (hosts(i := None)) l1" "cs_host_game conn1 = None" "lb_next_generation l1 = lb_next_generation l" by simp_all
  have "owned (hosts(i := Some (fst (register_game code req now l1)))) (snd (register_game code req now l1))"
    if "\<not> has_game l1 code" "lobby_len l1 < MAX_LOBBY_ENTRIES" for code req now
    using owned_register [OF l1(1) _ that, of i req now] l1(3) assms(3) by simp
  moreover have "lb_next_generation (snd (register_game code req now l1)) \<le> Suc (lb_next_generation l)" for code req now
    using l1(3) assms(3) by (simp add: register_game_def Let_def)
  moreover have "hosts(i := cs_host_game conn) = hosts" using assms(2) by auto
  moreover have "cr_requested_code s = None \<longrightarrow> \<not> has_game l1 (be_new_game_code env)" using fresh gone by blast
  ultimately show ?thesis unfolding result_def using assms(1) l1
    by (auto simp: handle_create_game_def d open_room_def split_beta split: option.split)
qed

lemma dispatch_owned:
  fixes l :: "('f, 'm, 'd) lobby_manager" and ts :: "'t list" and keys_of env msg conn
  assumes "owned hosts l" "hosts i = cs_host_game conn" "Suc (lb_next_generation l) < 2 ^ 64"
    and "\<And>s. msg = CreateGameWithSettings s \<Longrightarrow> cr_requested_code s = None \<Longrightarrow> \<not> has_game l (be_new_game_code env)"
  defines "result \<equiv> dispatch keys_of ts env msg conn l"
  shows "owned (hosts(i := cs_host_game (fst (snd result)))) (snd (snd result)) \<and> lb_next_generation (snd (snd result)) \<le> Suc (lb_next_generation l)"
proof -
  have same: "hosts(i := cs_host_game conn) = hosts" using assms(2) by auto
  have guest: "?thesis" if "guest_call conn l result"
    using that owned_same_ids [OF assms(1)] same by (simp add: guest_call_def same_ids_def)
  have drop: "owned (hosts(i := cs_host_game (fst (snd (drop_hosted conn l :: ('f, 'm, 'd, 't) outbound list \<times> _)))))
      (snd (snd (drop_hosted conn l :: ('f, 'm, 'd, 't) outbound list \<times> _)))
      \<and> lb_next_generation (snd (snd (drop_hosted conn l :: ('f, 'm, 'd, 't) outbound list \<times> _))) \<le> Suc (lb_next_generation l)"
    using owned_drop [OF assms(1,2), where 'd = 't]
    by (auto simp: drop_hosted_def unregister_registration_def unregister_game_def split_beta Let_def split: option.splits if_splits)
  show ?thesis
  proof (cases msg)
    case (CreateGameWithSettings s)
    then show ?thesis unfolding result_def using create_owned [OF assms(1-3), of s env, where 't = 't] assms(4) by (simp add: dispatch_def)
  next
    case (UnregisterLobby code)
    then show ?thesis using drop guest same assms(1) by (auto simp: result_def dispatch_def handle_unregister_def guest_call_def)
  qed (rule guest; simp add: result_def dispatch_def guest_join guest_lookup guest_update; simp add: guest_call_def)+
qed

lemma disconnect_owned:
  fixes l :: "('f, 'm, 'd) lobby_manager" and conn
  assumes "owned hosts l" "hosts i = cs_host_game conn"
  defines "result \<equiv> on_disconnect conn l :: ('f, 'm, 'd, 't) outbound list \<times> _"
  shows "owned (hosts(i := cs_host_game (fst (snd result)))) (snd (snd result)) \<and> lb_next_generation (snd (snd result)) \<le> lb_next_generation l"
proof -
  have drop: "owned (hosts(i := cs_host_game (fst (snd (drop_hosted conn' l' :: ('f, 'm, 'd, 't) outbound list \<times> _)))))
      (snd (snd (drop_hosted conn' l' :: ('f, 'm, 'd, 't) outbound list \<times> _)))
      \<and> lb_next_generation (snd (snd (drop_hosted conn' l' :: ('f, 'm, 'd, 't) outbound list \<times> _))) = lb_next_generation l"
    if "owned hosts l'" "hosts i = cs_host_game conn'" "lb_next_generation l' = lb_next_generation l" for conn' and l' :: "('f, 'm, 'd) lobby_manager"
    using owned_drop [OF that(1,2), where 'd = 't] that(3)
    by (auto simp: drop_hosted_def unregister_registration_def unregister_game_def split_beta Let_def split: option.splits if_splits)
  note ids = ids_release_all [of l "cs_reservations conn"]
  show ?thesis
    using drop [OF assms(1,2)] drop [OF owned_same_ids [OF assms(1) ids], of "conn\<lparr>cs_reservations := []\<rparr>"] ids assms(2)
    by (auto simp: result_def on_disconnect_def split_beta same_ids_def)
qed

lemma reap_owned: "owned hosts l \<Longrightarrow> owned hosts (snd (reap_lobby handled l)) \<and> lb_next_generation (snd (reap_lobby handled l)) = lb_next_generation l"
proof (induction handled arbitrary: l)
  case (Cons r handled)
  have "owned hosts (snd (unregister_expired r l))" "lb_next_generation (snd (unregister_expired r l)) = lb_next_generation l"
    using Cons.prems by (auto simp: unregister_expired_def unregister_registration_def Let_def owned_unregister)
      (simp_all add: unregister_game_def)
  with Cons.IH [OF this(1)] show ?case by (simp add: split_beta)
qed simp

abbreviation hosts_of :: "(nat \<Rightarrow> conn_state) \<Rightarrow> nat \<Rightarrow> lobby_registration option" where
  "hosts_of conns \<equiv> \<lambda>i. cs_host_game (conns i)"

lemma hosts_of_update: "hosts_of (conns(i := conn)) = (hosts_of conns)(i := cs_host_game conn)"
  by auto

lemma handle_owned:
  fixes b :: "('f, 'm, 'd, 't) broker" and env msg conn guard keys_of
  assumes "owned hosts (bk_lobby b)" "hosts i = cs_host_game conn" "Suc (lb_next_generation (bk_lobby b)) < 2 ^ 64" "event_ok (Frame i env msg) (bk_lobby b)"
  defines "result \<equiv> broker_handle guard keys_of env msg conn b"
  shows "owned (hosts(i := cs_host_game (fst (snd result)))) (bk_lobby (snd (snd result)))
       \<and> lb_next_generation (bk_lobby (snd (snd result))) \<le> Suc (lb_next_generation (bk_lobby b))"
proof -
  define l where "l = (case cs_host_game conn of None \<Rightarrow> bk_lobby b | Some r \<Rightarrow> snd (refresh_liveness r (be_now_ms env) (bk_lobby b)))"
  have ids: "same_ids (bk_lobby b) l" by (auto simp: l_def ids_refresh split: option.split)
  have l: "owned hosts l" "lb_next_generation l = lb_next_generation (bk_lobby b)" "\<And>code. has_game l code = has_game (bk_lobby b) code"
    using owned_same_ids [OF assms(1) ids] ids by (auto simp: same_ids_def l_def refresh_has_game split: option.split)
  have same: "hosts(i := cs_host_game conn) = hosts" using assms(2) by auto
  have "owned (hosts(i := cs_host_game (fst (snd (dispatch keys_of (bk_tournaments b) env msg conn l)))))
      (snd (snd (dispatch keys_of (bk_tournaments b) env msg conn l)))
      \<and> lb_next_generation (snd (snd (dispatch keys_of (bk_tournaments b) env msg conn l))) \<le> Suc (lb_next_generation l)"
    using assms(2-4) l by (intro dispatch_owned) auto
  then show ?thesis using assms(1) l same
    by (auto simp: result_def broker_handle_def l_def [symmetric] split_beta split: option.split outcome.split)
qed

lemma step_owned:
  fixes s :: "('f, 'm, 'd, 't) broker_system"
  assumes "owned (hosts_of (fst s)) (bk_lobby (snd s))" "Suc (lb_next_generation (bk_lobby (snd s))) < 2 ^ 64" "event_ok e (bk_lobby (snd s))"
    and "broker_step guard keys_of e s = (out, s')"
  shows "owned (hosts_of (fst s')) (bk_lobby (snd s')) \<and> lb_next_generation (bk_lobby (snd s')) \<le> Suc (lb_next_generation (bk_lobby (snd s)))"
proof -
  obtain conns b where s: "s = (conns, b)" by fastforce
  have s': "s' = snd (broker_step guard keys_of e (conns, b))" using assms(4) s by simp
  note pre = assms(1-3) [unfolded s fst_conv snd_conv]
  show ?thesis
  proof (cases e)
    case (Frame i env msg)
    show ?thesis using handle_owned [OF pre(1) refl pre(2) pre(3) [unfolded Frame], of guard keys_of]
      unfolding s' Frame s by (simp add: split_beta hosts_of_update del: fun_upd_apply)
  next
    case (Closed i)
    show ?thesis using disconnect_owned [OF pre(1) refl, of i, where 't = 't]
      unfolding s' Closed s by (simp add: split_beta hosts_of_update del: fun_upd_apply)
  next
    case (Sweep timeout now)
    show ?thesis using reap_owned [OF pre(1), of "check_expired keys_of timeout now (bk_lobby b)"]
      unfolding s' Sweep s by (simp add: split_beta reap_expired_def)
  qed
qed

lemma run_owned:
  fixes s :: "('f, 'm, 'd, 't) broker_system"
  assumes "owned (hosts_of (fst s)) (bk_lobby (snd s))" "lb_next_generation (bk_lobby (snd s)) + length es < 2 ^ 64"
    and "events_ok guard keys_of es s" "broker_run guard keys_of es s = (out, s')"
  shows "owned (hosts_of (fst s')) (bk_lobby (snd s'))"
  using assms
proof (induction es arbitrary: s out)
  case (Cons e es)
  obtain o1 s1 where s1: "broker_step guard keys_of e s = (o1, s1)" by (metis surj_pair)
  obtain o2 where o2: "broker_run guard keys_of es s1 = (o2, s')"
    using Cons.prems(4) by (auto simp: s1 split: prod.splits)
  have "owned (hosts_of (fst s1)) (bk_lobby (snd s1)) \<and> lb_next_generation (bk_lobby (snd s1)) \<le> Suc (lb_next_generation (bk_lobby (snd s)))"
    using Cons.prems s1 by (intro step_owned [OF _ _ _ s1]) auto
  then show ?case using Cons.prems(2,3) s1 by (intro Cons.IH [OF _ _ _ o2]) auto
qed simp

text \<open>
  C33. Every listing has one owner. Whatever happens, a broker lists at most 200 rooms, each with one to
  255 seats and no more players than seats, and each is hosted by exactly one of its connections; so no
  row outlives its host's connection, and when no connection hosts a room the lobby is empty.
\<close>

theorem listings_have_owners:
  fixes b :: "('f, 'm, 'd, 't) broker"
  assumes "events_ok guard keys_of es (new_system ts)" "length es < 2 ^ 64"
    and "broker_run guard keys_of es (new_system ts) = (out, conns, b)"
  shows "lobby_len (bk_lobby b) \<le> MAX_LOBBY_ENTRIES
     \<and> (\<forall>code meta. fmlookup (lb_games (bk_lobby b)) code = Some meta \<longrightarrow>
          1 \<le> lm_max_players meta \<and> lm_max_players meta \<le> 255 \<and> lm_current_players meta \<le> lm_max_players meta
        \<and> (\<exists>!i. hosts_current (conns i) code (bk_lobby b)))
     \<and> ((\<forall>i. cs_host_game (conns i) = None) \<longrightarrow> lobby_is_empty (bk_lobby b))"
proof (intro conjI allI impI)
  have "owned (hosts_of conns) (bk_lobby b)"
    using run_owned [OF _ _ assms(1,3)] assms(2) by (simp add: new_system_def new_conn_def owned_def lobby_new_def lobby_len_def fcard_fempty)
  then have owned: "\<And>i j r r'. cs_host_game (conns i) = Some r \<Longrightarrow> cs_host_game (conns j) = Some r' \<Longrightarrow> lr_generation r = lr_generation r' \<Longrightarrow> i = j"
    "\<And>code meta. fmlookup (lb_games (bk_lobby b)) code = Some meta \<Longrightarrow>
       \<exists>i. cs_host_game (conns i) = Some \<lparr>lr_game_code = code, lr_generation = lm_generation meta\<rparr>"
    "lobby_len (bk_lobby b) \<le> MAX_LOBBY_ENTRIES" unfolding owned_def by blast+
  then show "lobby_len (bk_lobby b) \<le> MAX_LOBBY_ENTRIES" by simp
  show "lobby_is_empty (bk_lobby b)" if "\<forall>i. cs_host_game (conns i) = None"
    using that owned(2) by (metis fmdom_notI fset_eqI fempty_iff lobby_is_empty_def not_Some_eq option.distinct(1))
  fix code meta assume m: "fmlookup (lb_games (bk_lobby b)) code = Some meta"
  have "rooms_ok (bk_lobby b)" using run_served [OF rooms_ok_new assms(1,3)] by simp
  then have "room_ok meta" using m by (auto simp: rooms_ok_def)
  then show "1 \<le> lm_max_players meta" "lm_max_players meta \<le> 255" "lm_current_players meta \<le> lm_max_players meta"
    by (simp_all add: room_ok_def)
  from owned(2) [OF m] obtain i where i: "cs_host_game (conns i) = Some \<lparr>lr_game_code = code, lr_generation = lm_generation meta\<rparr>" ..
  show "\<exists>!i. hosts_current (conns i) code (bk_lobby b)"
  proof (rule ex1I [of _ i])
    show "hosts_current (conns i) code (bk_lobby b)" using i m by (simp add: hosts_current_def is_current_def)
    show "j = i" if "hosts_current (conns j) code (bk_lobby b)" for j
      using that m owned(1) [OF _ i, of j] by (auto simp: hosts_current_def is_current_def split: option.splits)
  qed
qed

theorem listings_have_owners_witness:
  "\<exists>out conns b. broker_run (\<lambda>_. Ok ()) (\<lambda>_. []) sample_events (new_system ([] :: unit list)) = (out, conns, b)
     \<and> (\<exists>!i. hosts_current (conns i) ''R'' (bk_lobby b))"
proof -
  obtain out conns b g where run: "broker_run (\<lambda>_. Ok ()) (\<lambda>_. []) sample_events (new_system ([] :: unit list)) = (out, conns, b)"
    "fmlookup (lb_games (bk_lobby b)) ''R'' \<noteq> None" using sample_run(2) [of "\<lambda>_. []"] by blast
  have "length sample_events < 2 ^ 64" by (simp add: sample_events_def)
  from listings_have_owners [OF sample_run(1) this run(1)] run show ?thesis by blast
qed

end
