(* ===== verification/Spec2Isabelle.thy ===== *)
theory Spec2Isabelle
  imports Player_View Cube_List Mana_Payment Seat_Reducer Contest Broker
begin

text \<open>
  \<^bold>\<open>The draft core of phase.rs.\<close> The repository is a Magic: The Gathering engine; this library
  verifies the reducer that runs its Limited events, \<open>crates/draft-core/src\<close>, together with the set
  concessions of \<open>crates/engine/src/game/deck_validation.rs\<close> and the draft-effect recogniser of
  \<open>crates/phase-parser/src/parser/oracle.rs\<close> that it consults, and the lobby seat reducer,
  \<open>crates/seat-reducer/src\<close>, the matchmaking broker with its lobby,
  \<open>crates/lobby-broker/src/broker.rs\<close> and \<open>lobby.rs\<close>, the card
  database and the mana costs the draft data rests on, and the physical contest of the engine,
  \<open>crates/engine/src/game/contest.rs\<close>. A host holds one
  \<open>DraftSession\<close> and sends it \<open>DraftAction\<close>s; the reducer returns \<open>DraftDelta\<close>s or a
  \<open>DraftError\<close>. A session is created in \<open>Lobby\<close>, dealt by \<open>StartDraft\<close>, drafted in one of three
  ways (packs picked and passed, a shared stack dealt through piles, or everything at once), built
  into decks, and played as a tournament. Two flows drive it: the legacy barrier (\<open>apply\<close>), in which
  packs move when every seat has picked, and the asynchronous FIFO flow (\<open>apply_at\<close>), in which every
  seat has a queue of packs, a numbered prompt and a clock.

  \<^bold>\<open>Theories and what they model.\<close>

  \<^item> \<open>Prelude\<close>: results with panics (\<open>outcome\<close>), Rust integer conversions, folds with early
    return, code that draws random numbers, and the reducer interfaces: \<open>reducer\<close>, \<open>panic_free_reducer\<close>, \<open>conserving_reducer\<close>,
    \<open>live_reducer\<close>. Each is a locale with the laws of one step and the lemmas about runs of steps.
  \<^item> \<open>Draft_Types\<close>, \<open>Draft_Procedure\<close>, \<open>Draft_Session\<close>: the structs and enums of \<open>types.rs\<close>
    under their names, the procedure table, the admission checks and the layout rules, the session
    record and its constructor.
  \<^item> \<open>Shared_Stack\<close> (\<open>shared_stack.rs\<close>): the Winston reducer, its joint invariant, the published
    rules as a step relation, and the refinement between the two.
  \<^item> \<open>Deck_Validation\<close> (\<open>validation.rs\<close>, \<open>deck_validation.rs\<close>): the Limited deck validator and
    the Commander Draft concessions.
  \<^item> \<open>Pick_Pass\<close> (\<open>pick_pass.rs\<close>): barrier picks, draft-effect picks and pack passing;
    \<open>Fifo_Clock\<close> (\<open>clock.rs\<close>): prompts, clocks, pausing; \<open>Fifo_Select\<close> and \<open>Fifo_Progress\<close>:
    FIFO selection, the end of rounds, the automatic selection and the expiry sweep.
  \<^item> \<open>Pairings\<close> (\<open>session.rs\<close>): Swiss and single-elimination pairing, results and corrections.
  \<^item> \<open>Pack_Sources\<close> (\<open>pack_source.rs\<close>, \<open>cube.rs\<close>) and \<open>Draft_Start\<close> (\<open>session.rs\<close>): the
    pack sources, \<open>apply_start_draft\<close> and \<open>start_fifo\<close>.
  \<^item> \<open>Session\<close>: deck submission, seat replacement, connection flags, and the dispatchers
    \<open>apply_existing\<close> and \<open>apply\<close> (here \<open>apply_legacy\<close>); the invariant of a whole legacy session.
  \<^item> \<open>Snapshot\<close>: \<open>validate_persisted_snapshot\<close>, \<open>new_fifo\<close> and \<open>apply_at\<close>; \<open>Fifo_Session\<close>: the
    invariant of a whole FIFO session.
  \<^item> \<open>Pool_View\<close> and \<open>Player_View\<close> (\<open>view.rs\<close>): the presentation and filters of a pool, and the two
    view builders of a session with the secrets they must not show.
  \<^item> \<open>Booster\<close> (\<open>set_pool.rs\<close>, \<open>pack_generator.rs\<close>): set pools, weighted selection, the generator and
    its constructors, as a pack source; \<open>Set_Extraction\<close> (\<open>extraction.rs\<close>): the pools extracted from
    card data, and \<open>draft_effect_from_oracle_text\<close>; \<open>Cube_List\<close> (\<open>cube.rs\<close>): the cube-list parser and the
    import of its cards.
  \<^item> \<open>Card_Database\<close> (\<open>card_db.rs\<close>, \<open>legality.rs\<close>): the indices built from an export, those of
    layouts, legalities, rulings and bracket signals included, and the resolution of card names; \<open>Mana_Cost\<close> and \<open>Mana_Payment\<close> (\<open>mana.rs\<close>): mana costs, their parser and arithmetic, and the
    comparison of costs by what pays them, a bipartite matching.
  \<^item> \<open>Rust_Strings\<close>: the string operations of the Rust library that the parsers use.
  \<^item> \<open>Seat_Reducer\<close> (\<open>seat-reducer\<close>): the seats of a lobby, their mutations and deltas.
  \<^item> \<open>Lobby\<close> (\<open>lobby.rs\<close>, \<open>reservation_auth.rs\<close>): the registered games of the broker, seat
    reservations and their owners, the identity of registrations, host presence and expiry; \<open>Broker\<close>
    (\<open>broker.rs\<close>): the frames of connections dispatched onto that lobby and what subscribers are sent.
  \<^item> \<open>Contest\<close> (\<open>engine/src/game/contest.rs\<close>): the state machine of a physical contest and the
    driver through which the host feeds it clicks, ticks and connection changes.

  \<^bold>\<open>Conventions.\<close> A struct is a record whose fields carry a two-letter prefix, an enum a datatype
  with the source's constructors. A function on \<open>&mut DraftSession\<close> returns the outcome and the
  session it leaves behind, so that partial changes of a failing call are visible; the FIFO functions
  run on the clone that \<open>apply_at\<close> stages and return the new session only when they succeed. \<open>Err\<close> is
  an error value and \<open>Panic\<close> an index out of bounds, a missing key, a failed \<open>expect\<close> or an
  overflow; every indexing of the source is such a branch. Unsigned integers are naturals, with the
  wrap-around (\<open>as_u8\<close>, \<open>add_u8\<close>, \<open>add_u32\<close>) and the checked conversions (\<open>try_u8\<close>, \<open>try_u32\<close>)
  written out where the source has them. The ChaCha generator, its shuffle and bounded draw, the
  \<open>PackSource\<close> of a host and the iteration order of hash maps are parameters; what the code relies on
  is a named hypothesis: \<open>permutes shuffle\<close>, \<open>ranges random_range\<close>, \<open>lists_keys\<close>, \<open>deals_full\<close> and
  \<open>source_ok\<close> (a source deals the matrix it is asked for, with cards of distinct ids, for the pods its
  layout admits), and \<open>source_total\<close> (a source does not panic there). The fixture, cube and booster
  sources are shown to meet them, the last one for set data with positive weights and a main sheet
  that is large enough (\<open>pools_ok\<close>).

  \<^bold>\<open>What is shown.\<close> Every operation keeps the invariant of its component, never panics under it and
  conserves the cards; these are composed into the safety of whole sessions, from creation through
  any sequence of actions (\<open>legacy_session_safe\<close>, \<open>fifo_session_safe\<close>). The Winston reducer refines
  the published rules, for decisions of every seat about every pile, and always ends; a pick moves
  the cards it names from the pack to the pool, and the packs go where the round sends them;
  pick-and-pass drafts are never stuck and accept boundedly many picks; FIFO drafts are never stuck
  as long as their counters have room (\<open>counters_room\<close>); pausing and resuming is a round trip; a prompt is answered once; \<open>apply_at\<close>
  is atomic and keeps its counters in range. The deck validator accepts exactly the legal decks.
  Swiss rounds pair every player once and repeat a pairing only when they must, and every round of a
  bracket has at most half the matches of the one before; undoing a result
  inverts applying it, except that correcting a drawn match takes a win away
  (\<open>correcting_a_draw_takes_a_win\<close>). The snapshot validator is total, and what it accepts conserves
  cards and can be played. A view is a function of what its reader may know, and the legality it
  publishes is what the reducer enforces. A generator opens boosters of the declared size from the
  set the layout names, selects fairly by weight, and keeps the promise of a source; extracted data
  with an unresolved duplicate-permitting sheet makes it panic
  (\<open>unresolved_duplicate_sheet_panics\<close>). The seat table stays well formed and reports every token
  it takes away. A name finds a card exactly by stored spelling, alias or front half, in that order of
  precedence; the card database is independent of hash-map iteration when the data determine it; a mana cost prints and parses back, and the comparison of
  costs is sound with an exact matching. The lobby never sells a seat twice, a replaced registration
  stays powerless and a live host is not reaped; the feed of a subscriber mirrors the listed games, a
  connection can move only its own reservations in another host's listing, and every listing has one
  owner. A contest is applied once, ends by a stated instant (\<open>latest_end\<close>), and its verdict does not
  depend on the ticks, except that a late tick can cancel a decided contest
  (\<open>late_tick_cancels_decided_contest\<close>).

  \<^bold>\<open>Fuel.\<close> Definitions recurse structurally, over lists or with a measure. Fuel has the search
  \<open>match_shard\<close>, for which one more than the number of candidates is shown to be enough, and
  \<open>drive_forced\<close>, a driver of the specification, for which \<open>winston_potential\<close> (cards not yet in a
  pool, times piles, plus piles ahead of the cursor) is.

  \<^bold>\<open>Not modelled.\<close> The upgrade of old serialized sessions and all serde decoding and file access,
  the resumption of the parked effect when a contest settles (of the game its driver keeps only the
  waiting contest, the applied results and the revision), the tournament organizer of
  the broker, its server directory and the bounds on inbound frames (the guard is an argument of the
  dispatch, and what is shown holds for every guard), and the rest of the repository: the rules engine, the card-text parser and its
  syntax tree, the AI, servers, bindings and tools.
\<close>

end
